(* ===== verification/Prelude.thy ===== *)
theory Prelude
  imports Main "HOL-Library.AList" "HOL-Library.Sublist"
begin

text \<open>
  Shared vocabulary of the development: plain JavaScript objects with string keys
  (insertion-ordered association lists), the \<open>Set\<close>-based duplicate checks, decimal
  rendering of indices, the \<open>findLast\<close> of arrays, and the generic lemmas the component
  theories use. Strings are \<^typ>\<open>string\<close>, one \<^typ>\<open>char\<close> per UTF-16 code unit of the
  source string; code units above 255 are outside the model.
\<close>

named_theorems js_simps \<open>evaluation rules for the JavaScript library functions\<close>
named_theorems frame_simps \<open>which record fields an operation leaves alone\<close>

subsection \<open>Objects with string keys\<close>

text \<open>
  \<open>obj[k]\<close> is \<^const>\<open>map_of\<close>; \<open>{ ...obj, [k]: v }\<close> and \<open>obj[k] = v\<close> keep the place of
  a key that is present and append a new one, which is \<open>AList.update\<close>.
  \<open>Object.entries\<close> is the list itself: keys here start with a letter, so JavaScript
  enumerates them in insertion order.
\<close>

type_synonym 'v obj = "(string \<times> 'v) list"

definition obj_get :: "'v obj \<Rightarrow> string \<Rightarrow> 'v option" where
  "obj_get ob k = map_of ob k"

definition obj_set :: "'v obj \<Rightarrow> string \<Rightarrow> 'v \<Rightarrow> 'v obj" where
  "obj_set ob k v = AList.update k v ob"

definition obj_keys :: "'v obj \<Rightarrow> string list" where
  "obj_keys ob = map fst ob"

definition obj_values :: "'v obj \<Rightarrow> 'v list" where
  "obj_values ob = map snd ob"

lemma obj_get_set [simp]: "obj_get (obj_set ob k v) = (obj_get ob)(k \<mapsto> v)"
  by (rule ext) (simp add: obj_get_def obj_set_def update_conv')

lemma obj_keys_set: "obj_keys (obj_set ob k v) =
    (if k \<in> set (obj_keys ob) then obj_keys ob else obj_keys ob @ [k])"
  by (induction ob) (auto simp: obj_keys_def obj_set_def)

lemma obj_keys_set_mem [simp]:
  "k \<in> set (obj_keys ob) \<Longrightarrow> obj_keys (obj_set ob k v) = obj_keys ob"
  by (simp add: obj_keys_set)

lemma obj_get_None_iff: "obj_get ob k = None \<longleftrightarrow> k \<notin> set (obj_keys ob)"
  by (simp add: obj_get_def obj_keys_def map_of_eq_None_iff)

lemma obj_get_Some_key: "obj_get ob k = Some v \<Longrightarrow> k \<in> set (obj_keys ob)"
  by (metis obj_get_None_iff option.distinct(1))

lemma obj_key_get: "k \<in> set (obj_keys ob) \<Longrightarrow> \<exists>v. obj_get ob k = Some v"
  by (metis obj_get_None_iff not_None_eq)

lemma obj_entries_get:
  "distinct (obj_keys ob) \<Longrightarrow> (k, v) \<in> set ob \<longleftrightarrow> obj_get ob k = Some v"
  by (auto simp: obj_get_def obj_keys_def)

lemma obj_get_entry: "obj_get ob k = Some v \<Longrightarrow> (k, v) \<in> set ob"
  by (simp add: obj_get_def map_of_SomeD)

lemma obj_distinct_set: "distinct (obj_keys ob) \<Longrightarrow> distinct (obj_keys (obj_set ob k v))"
  by (simp add: obj_keys_set)

lemma obj_values_set:
  "distinct (obj_keys ob) \<Longrightarrow> set (obj_values ob) = ran (obj_get ob)"
proof -
  assume "distinct (obj_keys ob)"
  then have "ran (map_of ob) = snd ` set ob" by (simp add: obj_keys_def ran_distinct)
  moreover have "obj_get ob = map_of ob" by (rule ext) (simp add: obj_get_def)
  ultimately show ?thesis by (simp add: obj_values_def)
qed

lemma obj_set_new: "k \<notin> set (obj_keys ob) \<Longrightarrow> obj_set ob k v = ob @ [(k, v)]"
  by (induction ob) (auto simp: obj_set_def obj_keys_def)

text \<open>\<open>Object.fromEntries\<close> over entries with distinct keys.\<close>

lemma foldl_obj_set:
  assumes "distinct (map key ds)"
  shows "foldl (\<lambda>ob d. obj_set ob (key d) (f d)) [] ds = map (\<lambda>d. (key d, f d)) ds"
proof -
  have "foldl (\<lambda>ob d. obj_set ob (key d) (f d)) acc ds = acc @ map (\<lambda>d. (key d, f d)) ds"
    if "distinct (map key ds)" "\<forall>d\<in>set ds. key d \<notin> set (obj_keys acc)" for acc
    using that
  proof (induction ds arbitrary: acc)
    case (Cons d ds)
    have "key d \<notin> set (obj_keys acc)" "\<forall>x\<in>set ds. key x \<notin> set (obj_keys (acc @ [(key d, f d)]))"
      using Cons.prems by (auto simp: obj_keys_def image_iff)
    with Cons.IH[of "acc @ [(key d, f d)]"] Cons.prems show ?case by (simp add: obj_set_new)
  qed simp
  from this[of "[]"] assms show ?thesis by (simp add: obj_keys_def)
qed

lemma obj_set_same: "obj_get ob k = Some v \<Longrightarrow> obj_set ob k v = ob"
  by (induction ob) (auto simp: obj_get_def obj_set_def split: if_splits)

text \<open>Two objects with the same distinct keys and the same lookups are equal.\<close>

lemma obj_eqI:
  assumes "obj_keys a = obj_keys b" and "distinct (obj_keys a)"
    and "\<And>k. k \<in> set (obj_keys a) \<Longrightarrow> obj_get a k = obj_get b k"
  shows "a = b"
  using assms
proof (induction a arbitrary: b)
  case Nil
  then show ?case by (simp add: obj_keys_def)
next
  case (Cons p a)
  obtain k v where p: "p = (k, v)" by (cases p)
  from Cons.prems(1) obtain w b' where b: "b = (k, w) # b'"
    by (cases b) (auto simp: obj_keys_def p)
  have "obj_get (p # a) k = obj_get b k" by (rule Cons.prems(3)) (simp add: obj_keys_def p)
  then have "v = w" by (simp add: obj_get_def p b)
  moreover have "a = b'"
  proof (rule Cons.IH)
    show "obj_keys a = obj_keys b'" using Cons.prems(1) by (simp add: obj_keys_def p b)
    show "distinct (obj_keys a)" using Cons.prems(2) by (simp add: obj_keys_def)
    fix j assume j: "j \<in> set (obj_keys a)"
    then have "j \<noteq> k" using Cons.prems(2) by (auto simp: obj_keys_def p)
    with Cons.prems(3)[of j] j show "obj_get a j = obj_get b' j"
      by (simp add: obj_keys_def obj_get_def p b)
  qed
  ultimately show ?case by (simp add: p b)
qed

text \<open>The laws any keyed store of step records relies on, and their instance.\<close>

locale keyed_store =
  fixes get :: "'m \<Rightarrow> string \<Rightarrow> 'v option"
    and put :: "'m \<Rightarrow> string \<Rightarrow> 'v \<Rightarrow> 'm"
    and keys :: "'m \<Rightarrow> string list"
  assumes get_put: "get (put m k v) = (get m)(k \<mapsto> v)"
    and keys_put: "k \<in> set (keys m) \<Longrightarrow> keys (put m k v) = keys m"
    and get_keys: "k \<in> set (keys m) \<longleftrightarrow> get m k \<noteq> None"
begin

text \<open>A pass over keys that rewrites the value of every key that is present.\<close>

lemma get_foldl_adjust_other:
  assumes "j \<notin> set ks"
  shows "get (foldl (\<lambda>m k. case get m k of None \<Rightarrow> m | Some v \<Rightarrow> put m k (g m v)) m ks) j = get m j"
  using assms by (induction ks arbitrary: m) (auto simp: get_put split: option.split)

lemma keys_foldl_adjust:
  "keys (foldl (\<lambda>m k. case get m k of None \<Rightarrow> m | Some v \<Rightarrow> put m k (g m v)) m ks) = keys m"
proof (induction ks arbitrary: m)
  case (Cons k ks)
  then show ?case
    using get_keys[of k m] by (cases "get m k") (simp_all add: keys_put)
qed simp

lemma get_foldl_adjust:
  fixes g :: "'m \<Rightarrow> 'v \<Rightarrow> 'v"
  assumes "ks = us @ k # vs" and "distinct ks" and "get m k = Some v"
  defines "pass \<equiv> \<lambda>m ks. foldl (\<lambda>m k. case get m k of None \<Rightarrow> m | Some v \<Rightarrow> put m k (g m v)) m ks"
  shows "get (pass m ks) k = Some (g (pass m us) v)"
proof -
  have k: "k \<notin> set us" "k \<notin> set vs" using assms(1,2) by auto
  have "get (pass m us) k = Some v"
    using k(1) assms(3) by (simp add: pass_def get_foldl_adjust_other)
  then show ?thesis
    using k(2) by (simp add: assms(1) pass_def get_foldl_adjust_other get_put)
qed

end

interpretation obj_store: keyed_store obj_get obj_set obj_keys
  by unfold_locales (simp_all add: obj_get_None_iff)

subsection \<open>Sets, indices and arrays\<close>

text \<open>\<open>new Set(xs).size\<close>\<close>

definition set_size :: "'a list \<Rightarrow> nat" where
  "set_size xs = length (remdups xs)"

lemma set_size_distinct: "set_size xs = length xs \<longleftrightarrow> distinct xs"
  by (simp add: set_size_def length_remdups_card_conv)
     (metis card_distinct distinct_card)

text \<open>\<open>[...new Set(xs)]\<close> keeps the first occurrence of every element.\<close>

fun unique :: "'a list \<Rightarrow> 'a list" where
  "unique [] = []"
| "unique (x # xs) = x # filter (\<lambda>y. y \<noteq> x) (unique xs)"

lemma set_unique [simp]: "set (unique xs) = set xs"
  by (induction xs) auto

lemma distinct_unique [simp]: "distinct (unique xs)"
  by (induction xs) auto

lemma unique_id: "distinct xs \<Longrightarrow> unique xs = xs"
  by (induction xs) (auto simp: filter_id_conv)

text \<open>\<open>xs.findLast(p)\<close>\<close>

definition find_last :: "('a \<Rightarrow> bool) \<Rightarrow> 'a list \<Rightarrow> 'a option" where
  "find_last p xs = find p (rev xs)"

lemma find_last_Some: "find_last p xs = Some x \<Longrightarrow> x \<in> set xs \<and> p x"
  by (auto simp: find_last_def find_Some_iff) (metis length_rev nth_mem set_rev)

lemma find_last_None: "find_last p xs = None \<longleftrightarrow> (\<forall>x\<in>set xs. \<not> p x)"
  by (auto simp: find_last_def find_None_iff)

text \<open>\<open>${index}\<close> for a natural number\<close>

fun js_nat :: "nat \<Rightarrow> string" where
  "js_nat n = (if n < 10 then [''0123456789'' ! n]
     else js_nat (n div 10) @ [''0123456789'' ! (n mod 10)])"

declare js_nat.simps [simp del]

text \<open>\<open>xs.join(sep)\<close>\<close>

fun join :: "string \<Rightarrow> string list \<Rightarrow> string" where
  "join sep [] = []"
| "join sep [x] = x"
| "join sep (x # xs) = x @ sep @ join sep xs"

text \<open>A condition on an optional field.\<close>

fun if_present :: "('a \<Rightarrow> bool) \<Rightarrow> 'a option \<Rightarrow> bool" where
  "if_present P None = True"
| "if_present P (Some x) = P x"

subsection \<open>Generic list lemmas\<close>

lemma distinct_map_filter_fst: "distinct (map f xs) \<Longrightarrow> distinct (map f (filter P xs))"
  by (induction xs) auto

lemma find_append: "find p (xs @ ys) = (case find p xs of Some x \<Rightarrow> Some x | None \<Rightarrow> find p ys)"
  by (induction xs) auto

lemma find_SomeD: "find p xs = Some x \<Longrightarrow> x \<in> set xs \<and> p x"
  by (auto simp: find_Some_iff dest: nth_mem)

lemma foldl_invariant:
  assumes "P s" and "\<And>s x. x \<in> set xs \<Longrightarrow> P s \<Longrightarrow> P (f s x)"
  shows "P (foldl f s xs)"
  using assms by (induction xs arbitrary: s) auto

lemma length_filter_map_eq: "length (filter P (map f xs)) = length (filter (P \<circ> f) xs)"
  by (induction xs) auto

lemma filter_count_mono:
  assumes "\<And>x. x \<in> set xs \<Longrightarrow> P x \<Longrightarrow> Q x"
  shows "length (filter P xs) \<le> length (filter Q xs)"
  using assms by (induction xs) (auto intro: le_SucI)

lemma map_filter_append: "List.map_filter f (xs @ ys) = List.map_filter f xs @ List.map_filter f ys"
  by (simp add: List.map_filter_def)

lemma map_filter_cong: "(\<And>x. x \<in> set xs \<Longrightarrow> f x = g x) \<Longrightarrow> List.map_filter f xs = List.map_filter g xs"
  by (induction xs) (simp_all split: option.split)

lemma map_filter_none: "(\<And>x. x \<in> set xs \<Longrightarrow> f x = None) \<Longrightarrow> List.map_filter f xs = []"
  by (induction xs) simp_all

end
