(* ===== verification/JsValue.thy ===== *)
theory JsValue
  imports Prelude Complex_Main
begin

text \<open>
  The JavaScript values the readers take apart (\<open>unknown\<close> in the source: what \<open>JSON.parse\<close>
  gives, or \<open>undefined\<close> for a missing property) and the library functions they call: \<open>trim\<close>,
  \<open>startsWith\<close>, \<open>includes\<close>, \<open>Number.isSafeInteger\<close>, the identifier patterns, Node's
  \<open>path.posix.normalize\<close> and \<open>path.win32.isAbsolute\<close>, and \<open>JSON.stringify\<close> of a string.
  Numbers are rationals: every finite double is one, and \<open>JSON.parse\<close> has no \<open>NaN\<close>.
\<close>

datatype json =
    JUndefined
  | JNull
  | JBool bool
  | JNum rat
  | JString string
  | JArray "json list"
  | JObject "(string \<times> json) list"

definition is_record :: "json \<Rightarrow> bool" where
  "is_record v = (case v of JObject _ \<Rightarrow> True | _ \<Rightarrow> False)"

definition fields_of :: "json \<Rightarrow> json obj" where
  "fields_of v = (case v of JObject ob \<Rightarrow> ob | _ \<Rightarrow> [])"

definition get_prop :: "json obj \<Rightarrow> string \<Rightarrow> json" where
  "get_prop ob k = (case obj_get ob k of None \<Rightarrow> JUndefined | Some v \<Rightarrow> v)"

lemma get_prop_Nil [simp]: "get_prop [] k = JUndefined"
  by (simp add: get_prop_def obj_get_def)

lemma get_prop_Cons [simp]: "get_prop ((j, v) # ob) k = (if j = k then v else get_prop ob k)"
  by (simp add: get_prop_def obj_get_def)

lemma get_prop_append: "get_prop (a @ b) k = (case obj_get a k of Some v \<Rightarrow> v | None \<Rightarrow> get_prop b k)"
  by (auto simp: get_prop_def obj_get_def map_add_def split: option.split)

subsection \<open>Strings\<close>

definition js_space :: "char \<Rightarrow> bool" where
  "js_space c \<longleftrightarrow> c \<in> {CHR 0x09, CHR 0x0A, CHR 0x0B, CHR 0x0C, CHR 0x0D, CHR '' '', CHR 0xA0}"

definition trim :: "string \<Rightarrow> string" where
  "trim s = rev (dropWhile js_space (rev (dropWhile js_space s)))"

definition trimmed :: "string \<Rightarrow> bool" where
  "trimmed s \<longleftrightarrow> s = [] \<or> (\<not> js_space (hd s) \<and> \<not> js_space (last s))"

lemma trimmed_trim [simp]: "trimmed (trim s)"
proof -
  let ?d = "dropWhile js_space s"
  have "rev (dropWhile js_space (rev ?d)) = [] \<or> \<not> js_space (hd (rev (dropWhile js_space (rev ?d))))"
  proof (cases "?d")
    case (Cons a list)
    then have na: "\<not> js_space a" by (metis hd_dropWhile list.distinct(1) list.sel(1))
    then have "dropWhile js_space (rev ?d) = dropWhile js_space (rev list) @ [a]"
      by (cases "\<exists>x\<in>set list. \<not> js_space x") (auto simp: Cons dropWhile_append1 dropWhile_append2 dropWhile_append3)
    with na show ?thesis by simp
  next
    case Nil
    show ?thesis unfolding Nil by simp
  qed
  moreover have "dropWhile js_space (rev ?d) = [] \<or> \<not> js_space (hd (dropWhile js_space (rev ?d)))"
    using hd_dropWhile by blast
  ultimately show ?thesis by (auto simp: trim_def trimmed_def last_rev)
qed

lemma trim_id: "trimmed s \<Longrightarrow> trim s = s"
proof -
  assume t: "trimmed s"
  then have "dropWhile js_space s = s" by (cases s) (auto simp: trimmed_def)
  moreover have "dropWhile js_space (rev s) = rev s"
    using t by (cases s rule: rev_cases) (auto simp: trimmed_def)
  ultimately show ?thesis by (simp add: trim_def)
qed

definition starts_with :: "string \<Rightarrow> string \<Rightarrow> bool" where
  "starts_with s p = prefix p s"

definition ends_with :: "string \<Rightarrow> string \<Rightarrow> bool" where
  "ends_with s p = suffix p s"

definition has_substring :: "string \<Rightarrow> string \<Rightarrow> bool" where
  "has_substring s p = sublist p s"

lemma ends_with_slash [js_simps]: "ends_with s [c] \<longleftrightarrow> s \<noteq> [] \<and> last s = c"
  by (cases s rule: rev_cases) (auto simp: ends_with_def)

definition in_range :: "nat \<Rightarrow> nat \<Rightarrow> char \<Rightarrow> bool" where
  "in_range lo hi c \<longleftrightarrow> lo \<le> of_char c \<and> of_char c \<le> hi"

definition lower_letter :: "char \<Rightarrow> bool" where "lower_letter c = in_range 97 122 c"
definition upper_letter :: "char \<Rightarrow> bool" where "upper_letter c = in_range 65 90 c"
definition digit :: "char \<Rightarrow> bool" where "digit c = in_range 48 57 c"

text \<open>The pattern \<open>/^[a-z][a-z0-9-]*$/\<close> of task, step, output and lock names.\<close>

definition name_pattern :: "string \<Rightarrow> bool" where
  "name_pattern s = (case s of [] \<Rightarrow> False
     | c # cs \<Rightarrow> lower_letter c \<and> list_all (\<lambda>d. lower_letter d \<or> digit d \<or> d = CHR ''-'') cs)"

lemma name_pattern_nonempty: "name_pattern s \<Longrightarrow> s \<noteq> []"
  by (auto simp: name_pattern_def)

definition NAME_PATTERN_TEXT :: string where
  "NAME_PATTERN_TEXT = ''/^[a-z][a-z0-9-]*$/''"

text \<open>\<open>JSON.stringify\<close> of a string.\<close>

definition hex_digit :: "nat \<Rightarrow> char" where
  "hex_digit n = ''0123456789abcdef'' ! n"

definition json_escape :: "char \<Rightarrow> string" where
  "json_escape c =
     (if c = CHR 0x22 then [CHR 0x5C, CHR 0x22]
      else if c = CHR 0x5C then [CHR 0x5C, CHR 0x5C]
      else if c = CHR 0x08 then [CHR 0x5C, CHR ''b'']
      else if c = CHR 0x0C then [CHR 0x5C, CHR ''f'']
      else if c = CHR 0x0A then [CHR 0x5C, CHR ''n'']
      else if c = CHR 0x0D then [CHR 0x5C, CHR ''r'']
      else if c = CHR 0x09 then [CHR 0x5C, CHR ''t'']
      else if of_char c < (32 :: nat) then
        [CHR 0x5C, CHR ''u'', CHR ''0'', CHR ''0'', hex_digit (of_char c div 16), hex_digit (of_char c mod 16)]
      else [c])"

definition json_quote :: "string \<Rightarrow> string" where
  "json_quote s = [CHR 0x22] @ concat (map json_escape s) @ [CHR 0x22]"

subsection \<open>Numbers\<close>

definition is_safe_integer :: "json \<Rightarrow> bool" where
  "is_safe_integer v = (case v of
       JNum q \<Rightarrow> of_int \<lfloor>q\<rfloor> = q \<and> \<bar>\<lfloor>q\<rfloor>\<bar> \<le> 9007199254740991
     | _ \<Rightarrow> False)"

definition to_int :: "json \<Rightarrow> int" where
  "to_int v = (case v of JNum q \<Rightarrow> \<lfloor>q\<rfloor> | _ \<Rightarrow> 0)"

lemma to_int_num [simp]: "to_int (JNum (of_int k)) = k"
  by (simp add: to_int_def)

lemma is_safe_integer_num [simp]:
  "is_safe_integer (JNum (of_int k)) \<longleftrightarrow> \<bar>k\<bar> \<le> 9007199254740991"
  by (simp add: is_safe_integer_def)

subsection \<open>Paths\<close>

fun split_on :: "char \<Rightarrow> string \<Rightarrow> string list" where
  "split_on c [] = [[]]"
| "split_on c (x # xs) =
     (if x = c then [] # split_on c xs
      else (case split_on c xs of [] \<Rightarrow> [[x]] | w # ws \<Rightarrow> (x # w) # ws))"

text \<open>
  Node's \<open>normalizeString\<close> with \<open>allowAboveRoot\<close>: empty and \<open>.\<close> segments vanish, \<open>..\<close> removes
  the segment before it unless that is \<open>..\<close> or missing.
\<close>

definition normalize_segment :: "string list \<Rightarrow> string \<Rightarrow> string list" where
  "normalize_segment acc seg =
     (if seg = [] \<or> seg = ''.'' then acc
      else if seg = ''..'' then
        (if acc \<noteq> [] \<and> last acc \<noteq> ''..'' then butlast acc else acc @ [''..''])
      else acc @ [seg])"

text \<open>\<open>posix.normalize\<close> of a path that does not start with a slash.\<close>

definition posix_normalize :: "string \<Rightarrow> string" where
  "posix_normalize path =
     (if path = [] then ''.''
      else
        let body = join ''/'' (foldl normalize_segment [] (split_on (CHR ''/'') path));
            trailing = ends_with path ''/''
        in if body = [] then (if trailing then ''./'' else ''.'')
           else if trailing then body @ ''/'' else body)"

definition posix_is_absolute :: "string \<Rightarrow> bool" where
  "posix_is_absolute path = starts_with path ''/''"

definition path_separator :: "char \<Rightarrow> bool" where
  "path_separator c \<longleftrightarrow> c = CHR ''/'' \<or> c = CHR 0x5C"

definition win32_is_absolute :: "string \<Rightarrow> bool" where
  "win32_is_absolute path = (case path of
       [] \<Rightarrow> False
     | a # rest \<Rightarrow> path_separator a \<or>
         (case rest of
            b # c # _ \<Rightarrow> (lower_letter a \<or> upper_letter a) \<and> b = CHR '':'' \<and> path_separator c
          | _ \<Rightarrow> False))"

subsection \<open>Arrays with their indices\<close>

definition map_indexed :: "(nat \<Rightarrow> 'a \<Rightarrow> 'b) \<Rightarrow> 'a list \<Rightarrow> 'b list" where
  "map_indexed f xs = map (case_prod f) (enumerate 0 xs)"

lemma length_map_indexed [simp]: "length (map_indexed f xs) = length xs"
  by (simp add: map_indexed_def)

lemma nth_map_indexed [simp]: "k < length xs \<Longrightarrow> map_indexed f xs ! k = f k (xs ! k)"
  by (simp add: map_indexed_def nth_enumerate_eq)

lemma set_map_indexed: "set (map_indexed f xs) = {f k (xs ! k) | k. k < length xs}"
  by (fastforce simp: in_set_conv_nth)

lemma map_indexed_eq_map: "(\<And>k. k < length xs \<Longrightarrow> f k (xs ! k) = g (xs ! k)) \<Longrightarrow> map_indexed f xs = map g xs"
  by (rule nth_equalityI) auto

lemma map_map_indexed: "map g (map_indexed f xs) = map_indexed (\<lambda>k x. g (f k x)) xs"
  by (rule nth_equalityI) auto

lemma map_indexed_map: "map_indexed f (map g xs) = map_indexed (\<lambda>k x. f k (g x)) xs"
  by (rule nth_equalityI) auto

lemma ball_set_map_indexed [simp]:
  "(\<forall>y\<in>set (map_indexed f xs). P y) \<longleftrightarrow> (\<forall>k<length xs. P (f k (xs ! k)))"
  by (auto simp: set_map_indexed)

lemma concat_map_indexed_Nil:
  "concat (map_indexed f xs) = [] \<longleftrightarrow> (\<forall>k<length xs. f k (xs ! k) = [])"
  by (auto simp: set_map_indexed)

lemma concat_map_indexed_all:
  assumes "\<And>k x. x \<in> set xs \<Longrightarrow> f k x = [] \<longleftrightarrow> P x"
  shows "concat (map_indexed f xs) = [] \<longleftrightarrow> (\<forall>x\<in>set xs. P x)"
  using assms by (simp add: all_set_conv_all_nth)

text \<open>\<open>path[index]\<close> and \<open>path.name\<close> in messages and issue paths.\<close>

definition at_index :: "string \<Rightarrow> nat \<Rightarrow> string" where
  "at_index path k = path @ ''['' @ js_nat k @ '']''"

definition at_field :: "string \<Rightarrow> string \<Rightarrow> string" where
  "at_field path k = path @ ''.'' @ k"

end
