(* ===== verification/Types.thy ===== *)
theory Types
  imports JsValue
begin

text \<open>
  The data model of \<open>src/src/domain/types.ts\<close>, \<open>src/src/domain/steps.ts\<close> and the error
  classes the components throw. TypeScript's string unions are datatypes; where the code
  casts an unchecked string to a union (step capabilities), the datatype has a constructor
  for the strings outside it.
\<close>

subsection \<open>Validation issues and errors\<close>

record issue =
  issue_code :: string
  issue_path :: string
  issue_message :: string
  issue_task :: "string option"
  issue_related :: "string list option"

definition issue_at :: "string \<Rightarrow> string \<Rightarrow> string \<Rightarrow> issue" where
  "issue_at code path message =
     \<lparr>issue_code = code, issue_path = path, issue_message = message,
      issue_task = None, issue_related = None\<rparr>"

text \<open>A reader returns its value and the issues it pushed, in order.\<close>

type_synonym 'a reading = "'a \<times> issue list"

definition collect_readings :: "'a reading list \<Rightarrow> 'a list reading" where
  "collect_readings rs = (map fst rs, concat (map snd rs))"

lemma fst_collect_readings [simp]: "fst (collect_readings rs) = map fst rs"
  by (simp add: collect_readings_def)

lemma snd_collect_readings [simp]: "snd (collect_readings rs) = concat (map snd rs)"
  by (simp add: collect_readings_def)

datatype escalation_condition =
    AddRepository
  | WidenMutationAuthority
  | ChangeAcceptanceCriteria
  | SkipRequiredValidation
  | ExternalEffect

record authority_issue =
  authority_code :: string
  authority_path :: string
  authority_message :: string
  authority_condition :: "escalation_condition option"

datatype profile_name =
    InvestigationProfile
  | ChangeProfile
  | CommandProfile
  | ApprovalProfile
  | ReviewProfile
  | RepairProfile

definition profile_text :: "profile_name \<Rightarrow> string" where
  "profile_text p = (case p of
       InvestigationProfile \<Rightarrow> ''investigation''
     | ChangeProfile \<Rightarrow> ''change''
     | CommandProfile \<Rightarrow> ''command''
     | ApprovalProfile \<Rightarrow> ''approval''
     | ReviewProfile \<Rightarrow> ''review''
     | RepairProfile \<Rightarrow> ''repair'')"

definition CAPABILITY_PROFILE_NAMES :: "profile_name list" where
  "CAPABILITY_PROFILE_NAMES =
     [InvestigationProfile, ChangeProfile, CommandProfile, ApprovalProfile, ReviewProfile, RepairProfile]"

lemma set_CAPABILITY_PROFILE_NAMES [simp]: "set CAPABILITY_PROFILE_NAMES = UNIV"
  using profile_name.exhaust by (auto simp: CAPABILITY_PROFILE_NAMES_def)

lemma distinct_CAPABILITY_PROFILE_NAMES [simp]: "distinct CAPABILITY_PROFILE_NAMES"
  by (simp add: CAPABILITY_PROFILE_NAMES_def)

lemma profile_text_inj [simp]: "profile_text p = profile_text q \<longleftrightarrow> p = q"
  by (cases p; cases q) (simp_all add: profile_text_def)

datatype artifact_error_code =
    InvalidArtifact | ArtifactExists | ArtifactTooLarge | ArtifactCountExceeded
  | ArtifactBytesExceeded | ArtifactNotFound | ArtifactCorrupt

datatype js_error =
    Error string
  | PlanValidationError "issue list"
  | EnvelopeValidationError "issue list"
  | AuthorityViolationError "authority_issue list"
  | StepAdmissionError string "string list"
  | StepArtifactRoutingError string
  | CapabilityViolationError string
  | UnsupportedStepKindError profile_name
  | ArtifactStoreError artifact_error_code string
  | RunRetryError string

type_synonym 'a result = "js_error + 'a"

definition bulleted :: "string list \<Rightarrow> string" where
  "bulleted messages = [CHR 0x3A, CHR 0x0A] @ ''- '' @ join ([CHR 0x0A] @ ''- '') messages"

definition error_message :: "js_error \<Rightarrow> string" where
  "error_message e = (case e of
       Error m \<Rightarrow> m
     | PlanValidationError is \<Rightarrow> ''Invalid task plan'' @ bulleted (map issue_message is)
     | EnvelopeValidationError is \<Rightarrow> ''Invalid authority envelope'' @ bulleted (map issue_message is)
     | AuthorityViolationError is \<Rightarrow>
         ''Plan exceeds the approved authority envelope'' @ bulleted (map authority_message is)
     | StepAdmissionError m is \<Rightarrow> if is \<noteq> [] then m @ bulleted is else m
     | StepArtifactRoutingError m \<Rightarrow> m
     | CapabilityViolationError m \<Rightarrow> m
     | ArtifactStoreError c m \<Rightarrow> m
     | RunRetryError m \<Rightarrow> m
     | UnsupportedStepKindError p \<Rightarrow>
         ''No step handler is registered for '' @ profile_text p @ '' steps'')"

text \<open>Sequencing: the first error wins.\<close>

definition and_then :: "'a result \<Rightarrow> ('a \<Rightarrow> 'b result) \<Rightarrow> 'b result" where
  "and_then r f = (case r of Inl e \<Rightarrow> Inl e | Inr x \<Rightarrow> f x)"

lemma and_then_simps [simp]:
  "and_then (Inl e) f = Inl e"
  "and_then (Inr x) f = f x"
  by (simp_all add: and_then_def)

lemma and_then_Inr: "and_then r f = Inr y \<longleftrightarrow> (\<exists>x. r = Inr x \<and> f x = Inr y)"
  by (cases r) simp_all

definition require :: "bool \<Rightarrow> js_error \<Rightarrow> unit result" where
  "require b e = (if b then Inr () else Inl e)"

lemma require_Inr [simp]: "require b e = Inr u \<longleftrightarrow> b"
  by (simp add: require_def)

lemma require_simps [simp]: "require True e = Inr ()" "require False e = Inl e"
  by (simp_all add: require_def)

fun each_result :: "('a \<Rightarrow> 'b result) \<Rightarrow> 'a list \<Rightarrow> 'b list result" where
  "each_result f [] = Inr []"
| "each_result f (x # xs) =
     and_then (f x) (\<lambda>y. and_then (each_result f xs) (\<lambda>ys. Inr (y # ys)))"

text \<open>A loop whose body only checks.\<close>

fun each_check :: "('a \<Rightarrow> unit result) \<Rightarrow> 'a list \<Rightarrow> unit result" where
  "each_check f [] = Inr ()"
| "each_check f (x # xs) = and_then (f x) (\<lambda>_. each_check f xs)"

lemma each_check_Inr [simp]: "each_check f xs = Inr u \<longleftrightarrow> (\<forall>x\<in>set xs. f x = Inr ())"
  by (induction xs) (auto simp: and_then_Inr)

lemma each_result_Inr:
  "each_result f xs = Inr ys \<Longrightarrow> length ys = length xs \<and> (\<forall>k<length xs. f (xs ! k) = Inr (ys ! k))"
proof (induction xs arbitrary: ys)
  case (Cons x xs)
  then obtain y zs where "ys = y # zs" "f x = Inr y" "each_result f xs = Inr zs"
    by (auto simp: and_then_Inr)
  with Cons.IH[of zs] show ?case by (auto simp: nth_Cons split: nat.split)
qed simp

lemma each_result_all: "(\<forall>x\<in>set xs. f x = Inr (g x)) \<Longrightarrow> each_result f xs = Inr (map g xs)"
  by (induction xs) auto

subsection \<open>Capabilities\<close>

datatype capability =
    ReadRepository
  | MutateRepository
  | ExecuteCommands
  | OtherCapability string

definition capability_of :: "string \<Rightarrow> capability" where
  "capability_of s =
     (if s = ''read-repository'' then ReadRepository
      else if s = ''mutate-repository'' then MutateRepository
      else if s = ''execute-commands'' then ExecuteCommands
      else OtherCapability s)"

definition capability_text :: "capability \<Rightarrow> string" where
  "capability_text c = (case c of
       ReadRepository \<Rightarrow> ''read-repository''
     | MutateRepository \<Rightarrow> ''mutate-repository''
     | ExecuteCommands \<Rightarrow> ''execute-commands''
     | OtherCapability s \<Rightarrow> s)"

definition STEP_CAPABILITIES :: "capability list" where
  "STEP_CAPABILITIES = [ReadRepository, MutateRepository, ExecuteCommands]"

lemma capability_text_of [simp]: "capability_text (capability_of s) = s"
  by (simp add: capability_of_def capability_text_def)

lemma capability_of_text: "c \<in> set STEP_CAPABILITIES \<Longrightarrow> capability_of (capability_text c) = c"
  by (auto simp: STEP_CAPABILITIES_def capability_of_def capability_text_def)

lemma capability_of_inj [simp]: "capability_of s = capability_of t \<longleftrightarrow> s = t"
  by (metis capability_text_of)

record capability_profile =
  profile_capabilities :: "capability list"
  profile_tools :: "string list"

text \<open>
  \<open>resourceDiscovery\<close> and \<open>externalEffects\<close> are singleton types (\<open>disabled\<close>, \<open>forbidden\<close>).
\<close>

type_synonym run_profiles = "profile_name \<Rightarrow> capability_profile"

subsection \<open>Commands, tasks and task plans\<close>

record validation_command =
  command_name :: string
  command_args :: "string list"

record task_definition =
  task_id :: string
  task_title :: string
  task_description :: string
  task_dependencies :: "string list"
  task_criteria :: "string list"
  task_paths :: "string list"
  task_validation :: "validation_command list"

record task_plan =
  task_plan_title :: string
  task_plan_tasks :: "task_definition list"
  task_plan_final :: "validation_command list"

definition PLAN_SCHEMA_VERSION :: int where "PLAN_SCHEMA_VERSION = 3"
definition WORKFLOW_PLAN_SCHEMA_VERSION :: int where "WORKFLOW_PLAN_SCHEMA_VERSION = 4"
definition MIN_CONCURRENT_WORKERS :: int where "MIN_CONCURRENT_WORKERS = 2"
definition MAX_CONCURRENT_WORKERS :: int where "MAX_CONCURRENT_WORKERS = 4"

subsection \<open>Workflow steps\<close>

datatype step_kind = Investigation | Change | Command | Approval

definition kind_text :: "step_kind \<Rightarrow> string" where
  "kind_text k = (case k of
       Investigation \<Rightarrow> ''investigation''
     | Change \<Rightarrow> ''change''
     | Command \<Rightarrow> ''command''
     | Approval \<Rightarrow> ''approval'')"

definition STEP_KINDS :: "step_kind list" where
  "STEP_KINDS = [Investigation, Change, Command, Approval]"

record step_input =
  input_step :: string
  input_output :: string

datatype step_body =
    InvestigationBody "string list"
  | ChangeBody "string list" "string list" "validation_command list"
  | CommandBody validation_command
  | ApprovalBody string

text \<open>The optional fields of \<open>StepDefinitionCommon\<close>.\<close>

record step_declarations =
  decl_inputs :: "step_input list option"
  decl_outputs :: "string list option"
  decl_profile :: "profile_name option"
  decl_capabilities :: "capability list option"
  decl_path_locks :: "string list option"
  decl_resource_locks :: "string list option"
  decl_timeout :: "int option"
  decl_retry :: "int option"

record step_definition =
  step_id :: string
  step_title :: string
  step_description :: string
  step_dependencies :: "string list"
  step_declared :: step_declarations
  step_body :: step_body

record workflow_plan =
  plan_title :: string
  plan_steps :: "step_definition list"
  plan_final :: "validation_command list"

definition step_kind_of :: "step_definition \<Rightarrow> step_kind" where
  "step_kind_of s = (case step_body s of
       InvestigationBody _ \<Rightarrow> Investigation
     | ChangeBody _ _ _ \<Rightarrow> Change
     | CommandBody _ \<Rightarrow> Command
     | ApprovalBody _ \<Rightarrow> Approval)"

definition step_allowed_paths :: "step_definition \<Rightarrow> string list" where
  "step_allowed_paths s = (case step_body s of ChangeBody _ ps _ \<Rightarrow> ps | _ \<Rightarrow> [])"

definition find_step :: "workflow_plan \<Rightarrow> string \<Rightarrow> step_definition option" where
  "find_step p sid = find (\<lambda>s. step_id s = sid) (plan_steps p)"

end
