(* ===== verification/TopologicalOrder.thy ===== *)
theory TopologicalOrder
  imports DependencyGraph
begin

text \<open>
  \<open>topologicalIds\<close> of \<open>src/domain/dag.ts\<close>: the loop that counts down the unmet dependencies
  of every node, and the specification it refines: repeatedly take the first node, in
  declaration order, whose dependencies are all done (\<open>greedy\<close>). Everything else about the
  order is proved of \<open>greedy\<close> and carried over by \<open>topological_ids_greedy\<close>.
\<close>

subsection \<open>The loop\<close>

definition decl_order :: "dag_node list \<Rightarrow> string \<Rightarrow> nat" where
  "decl_order nodes i =
     (case map_of (rev (zip (node_ids nodes) [0..<length nodes])) i of None \<Rightarrow> 0 | Some k \<Rightarrow> k)"

definition dependents :: "dag_node list \<Rightarrow> string \<Rightarrow> string list" where
  "dependents nodes i = concat (map (\<lambda>n. map (\<lambda>_. fst n) (filter (\<lambda>d. d = i) (snd n))) nodes)"

definition initial_remaining :: "dag_node list \<Rightarrow> string \<Rightarrow> int option" where
  "initial_remaining nodes =
     foldl (\<lambda>m n. m(fst n \<mapsto> int (length (snd n)))) Map.empty nodes"

definition remaining_of :: "(string \<Rightarrow> int option) \<Rightarrow> string \<Rightarrow> int" where
  "remaining_of m i = (case m i of None \<Rightarrow> 0 | Some k \<Rightarrow> k)"

lemma remaining_of_upd [simp]:
  "remaining_of (m(x \<mapsto> k)) y = (if y = x then k else remaining_of m y)"
  by (simp add: remaining_of_def)

definition release ::
    "string list \<times> (string \<Rightarrow> int option) \<Rightarrow> string \<Rightarrow> string list \<times> (string \<Rightarrow> int option)" where
  "release st dependent =
     (let remaining = remaining_of (snd st) dependent - 1
      in (if remaining = 0 then fst st @ [dependent] else fst st,
          (snd st)(dependent \<mapsto> remaining)))"

definition open_count :: "dag_node list \<Rightarrow> (string \<Rightarrow> int option) \<Rightarrow> nat" where
  "open_count nodes m = card {x \<in> set (node_ids nodes). 0 < remaining_of m x}"

lemma open_count_release:
  assumes "x \<in> set (node_ids nodes)"
  shows "length (fst (release st x)) + open_count nodes (snd (release st x))
    \<le> length (fst st) + open_count nodes (snd st)"
proof -
  let ?A = "{y \<in> set (node_ids nodes). 0 < remaining_of (snd st) y}"
  let ?B = "{y \<in> set (node_ids nodes). 0 < remaining_of (snd (release st x)) y}"
  have upd: "remaining_of (snd (release st x)) y
      = (if y = x then remaining_of (snd st) x - 1 else remaining_of (snd st) y)" for y
    by (simp add: release_def Let_def)
  have sub: "?B \<subseteq> ?A"
    by (auto simp: upd split: if_splits)
  show ?thesis
  proof (cases "remaining_of (snd st) x = 1")
    case True
    have "?B = ?A - {x}" using True by (auto simp: upd)
    moreover have "x \<in> ?A" using True assms by simp
    ultimately have "Suc (card ?B) = card ?A"
      using card_Suc_Diff1[of ?A x] by (simp del: mem_Collect_eq)
    with True show ?thesis by (simp add: open_count_def release_def Let_def)
  next
    case False
    have "card ?B \<le> card ?A" using sub by (intro card_mono) auto
    with False show ?thesis by (simp add: open_count_def release_def Let_def)
  qed
qed

lemma open_count_releases:
  "set ds \<subseteq> set (node_ids nodes) \<Longrightarrow>
    length (fst (foldl release st ds)) + open_count nodes (snd (foldl release st ds))
    \<le> length (fst st) + open_count nodes (snd st)"
proof (induction ds arbitrary: st)
  case (Cons d ds)
  from Cons.IH[of "release st d"] Cons.prems open_count_release[of d nodes st]
  show ?case by (fastforce intro: order_trans)
qed simp

lemma dependents_known: "set (dependents nodes i) \<subseteq> set (node_ids nodes)"
  by (auto simp: dependents_def node_ids_def)

function kahn_loop ::
    "dag_node list \<Rightarrow> string list \<Rightarrow> (string \<Rightarrow> int option) \<Rightarrow> string list \<Rightarrow> string list" where
  "kahn_loop nodes ready remaining sorted_ids =
     (case sort_key (decl_order nodes) ready of
        [] \<Rightarrow> sorted_ids
      | i # rest \<Rightarrow>
          if i = [] then sorted_ids
          else
            (let st = foldl release (rest, remaining) (dependents nodes i)
             in kahn_loop nodes (fst st) (snd st) (sorted_ids @ [i])))"
  by pat_completeness auto
termination
proof (relation "measure (\<lambda>(nodes, ready, remaining, sorted_ids). length ready + open_count nodes remaining)",
    goal_cases)
  case (2 nodes ready remaining sorted_ids i rest st)
  have "length ready = Suc (length rest)"
    using arg_cong[OF 2(1), of length] by simp
  with open_count_releases[OF dependents_known, where st = "(rest, remaining)" and nodes = nodes and i1 = i] 2(3)
  show ?case by simp
qed simp

declare kahn_loop.simps [simp del]

definition topological_ids :: "dag_node list \<Rightarrow> string list" where
  "topological_ids nodes =
     kahn_loop nodes
       (concat (map (\<lambda>n. if snd n = [] then [fst n] else []) nodes))
       (initial_remaining nodes) []"

subsection \<open>The specification\<close>

definition available :: "string list \<Rightarrow> dag_node \<Rightarrow> bool" where
  "available finished n \<longleftrightarrow> fst n \<notin> set finished \<and> set (snd n) \<subseteq> set finished"

function greedy :: "dag_node list \<Rightarrow> string list \<Rightarrow> string list" where
  "greedy nodes finished =
     (case find (available finished) nodes of
        None \<Rightarrow> finished
      | Some n \<Rightarrow> greedy nodes (finished @ [fst n]))"
  by pat_completeness auto
termination
proof (relation "measure (\<lambda>(nodes, finished). card (set (node_ids nodes) - set finished))", goal_cases)
  case (2 nodes finished n)
  then have "fst n \<in> set (node_ids nodes) - set finished"
    by (auto simp: available_def node_ids_def dest!: find_SomeD)
  then have "set (node_ids nodes) - set (finished @ [fst n]) \<subset> set (node_ids nodes) - set finished"
    by auto
  then show ?case by (simp add: psubset_card_mono del: set_append)
qed simp

declare greedy.simps [simp del]

lemma greedy_prefix: "prefix finished (greedy nodes finished)"
proof (induction nodes finished rule: greedy.induct)
  case (1 nodes finished)
  then show ?case
    by (subst greedy.simps) (auto split: option.split intro: append_prefixD)
qed

lemma greedy_extend: "greedy (nodes @ extra) finished = greedy (nodes @ extra) (greedy nodes finished)"
proof (induction nodes finished rule: greedy.induct)
  case (1 nodes finished)
  show ?case
  proof (cases "find (available finished) nodes")
    case None
    then have "greedy nodes finished = finished" by (subst greedy.simps) simp
    then show ?thesis by simp
  next
    case (Some n)
    then have "greedy nodes finished = greedy nodes (finished @ [fst n])"
      by (subst greedy.simps) simp
    moreover have "greedy (nodes @ extra) finished = greedy (nodes @ extra) (finished @ [fst n])"
      using Some by (subst greedy.simps) (simp add: find_append)
    ultimately show ?thesis using 1[OF Some] by simp
  qed
qed

text \<open>Every dependency of a listed node is listed before it.\<close>

definition deps_before :: "dag_node list \<Rightarrow> string list \<Rightarrow> bool" where
  "deps_before nodes xs \<longleftrightarrow>
     (\<forall>us i vs. xs = us @ i # vs \<longrightarrow> set (deps_get nodes i) \<subseteq> set us)"

lemma deps_before_Nil: "deps_before nodes []"
  by (simp add: deps_before_def)

lemma deps_before_snoc:
  assumes "deps_before nodes xs" and "set (deps_get nodes i) \<subseteq> set xs"
  shows "deps_before nodes (xs @ [i])"
  unfolding deps_before_def
proof (intro allI impI)
  fix us j vs assume "xs @ [i] = us @ j # vs"
  then consider "vs = []" "us = xs" "j = i" | ws where "vs = ws @ [i]" "xs = us @ j # ws"
    by (cases vs rule: rev_cases) auto
  then show "set (deps_get nodes j) \<subseteq> set us"
    using assms by cases (auto simp: deps_before_def)
qed

lemma greedy_sound:
  assumes "distinct (node_ids nodes)"
  shows "distinct finished \<Longrightarrow> deps_before nodes finished \<Longrightarrow> set finished \<subseteq> set (node_ids nodes) \<Longrightarrow>
    distinct (greedy nodes finished) \<and> deps_before nodes (greedy nodes finished)
    \<and> set (greedy nodes finished) \<subseteq> set (node_ids nodes)"
  using assms
proof (induction nodes finished rule: greedy.induct)
  case (1 nodes finished)
  show ?case
  proof (cases "find (available finished) nodes")
    case None
    with 1 show ?thesis by (subst (1 2 3) greedy.simps) simp
  next
    case (Some n)
    then have n: "n \<in> set nodes" "fst n \<notin> set finished" "set (snd n) \<subseteq> set finished"
      using find_SomeD[OF Some] by (auto simp: available_def)
    have "deps_before nodes (finished @ [fst n])"
      using 1 n deps_get_node by (intro deps_before_snoc) auto
    with 1 Some n show ?thesis
      by (subst (1 2 3) greedy.simps) (auto simp: node_ids_def)
  qed
qed

lemma greedy_stuck: "find (available (greedy nodes finished)) nodes = None"
proof (induction nodes finished rule: greedy.induct)
  case (1 nodes finished)
  then show ?case by (cases "find (available finished) nodes") (simp_all add: greedy.simps[of nodes finished])
qed

lemma greedy_complete:
  assumes dist: "distinct (node_ids nodes)" and acyc: "acyclic (dep_rel nodes)"
    and known: "\<And>n. n \<in> set nodes \<Longrightarrow> set (snd n) \<subseteq> set (node_ids nodes)"
  shows "set (node_ids nodes) \<subseteq> set (greedy nodes finished)"
proof (rule ccontr)
  let ?Q = "set (node_ids nodes) - set (greedy nodes finished)"
  assume "\<not> ?thesis"
  then obtain q where "q \<in> ?Q" by blast
  moreover have "wf ((dep_rel nodes)\<inverse>)"
    using finite_dep_rel acyc by (rule finite_acyclic_wf_converse)
  ultimately obtain z where z: "z \<in> ?Q" and min: "\<And>y. (z, y) \<in> dep_rel nodes \<Longrightarrow> y \<notin> ?Q"
    by (metis converseI wfE_min)
  obtain n where n: "n \<in> set nodes" "fst n = z" using z by (auto simp: node_ids_def)
  then have "set (snd n) \<subseteq> set (greedy nodes finished)"
    using min known[OF n(1)] deps_get_node[OF dist n(1)] by (fastforce simp: dep_rel_def)
  with n z have "available (greedy nodes finished) n" by (simp add: available_def)
  with n(1) greedy_stuck show False by (metis find_None_iff)
qed

subsection \<open>The loop refines the specification\<close>

text \<open>What the pass over the dependents pushes, in the order it does.\<close>

fun pushes :: "(string \<Rightarrow> int option) \<Rightarrow> string list \<Rightarrow> string list" where
  "pushes m [] = []"
| "pushes m (d # ds) =
     (if remaining_of m d = 1 then [d] else []) @ pushes (m(d \<mapsto> remaining_of m d - 1)) ds"

lemma releases_eq:
  "fst (foldl release (r, m) ds) = r @ pushes m ds"
  "remaining_of (snd (foldl release (r, m) ds)) x = remaining_of m x - int (count_list ds x)"
  by (induction ds arbitrary: r m) (simp_all add: release_def Let_def)

lemma set_pushes:
  "x \<in> set (pushes m ds) \<longleftrightarrow> 1 \<le> remaining_of m x \<and> remaining_of m x \<le> int (count_list ds x)"
proof (induction ds arbitrary: m)
  case (Cons d ds)
  show ?case
    unfolding pushes.simps set_append Un_iff Cons.IH remaining_of_upd count_list.simps by auto
qed simp

lemma distinct_pushes: "distinct (pushes m ds)"
proof (induction ds arbitrary: m)
  case (Cons d ds)
  then show ?case by (simp add: set_pushes)
qed simp

definition unmet :: "string list \<Rightarrow> dag_node \<Rightarrow> nat" where
  "unmet finished n = length (filter (\<lambda>d. d \<notin> set finished) (snd n))"

lemma unmet_0: "unmet finished n = 0 \<longleftrightarrow> set (snd n) \<subseteq> set finished"
  by (auto simp: unmet_def filter_empty_conv)

lemma count_filter_eq: "count_list xs i = length (filter (\<lambda>d. d = i) xs)"
  by (induction xs) auto

lemma unmet_snoc:
  "i \<notin> set finished \<Longrightarrow>
    int (unmet (finished @ [i]) n) = int (unmet finished n) - int (count_list (snd n) i)"
proof -
  assume "i \<notin> set finished"
  then have "length (filter (\<lambda>d. d \<notin> set finished) xs)
      = length (filter (\<lambda>d. d \<notin> set (finished @ [i])) xs) + count_list xs i" for xs
    by (induction xs) auto
  then show ?thesis by (simp add: unmet_def)
qed

lemma count_dependents:
  "distinct (node_ids nodes) \<Longrightarrow> n \<in> set nodes \<Longrightarrow>
    count_list (dependents nodes i) (fst n) = count_list (snd n) i"
proof (induction nodes)
  case (Cons m nodes)
  have zero: "count_list (dependents nodes i) (fst m) = 0"
    using Cons.prems(1) dependents_known[of nodes i]
    by (auto simp: count_list_0_iff node_ids_def)
  have block: "count_list (map (\<lambda>_. fst m) ys) x = (if x = fst m then length ys else 0)" for ys x
    by (induction ys) auto
  have step: "count_list (dependents (m # nodes) i) x
      = (if x = fst m then count_list (snd m) i else 0) + count_list (dependents nodes i) x" for x
    by (simp add: dependents_def block count_filter_eq)
  show ?case
  proof (cases "n = m")
    case True
    then show ?thesis using zero by (simp add: step)
  next
    case False
    then have "n \<in> set nodes" "fst n \<noteq> fst m"
      using Cons.prems by (auto simp: node_ids_def) (metis imageI)
    with Cons show ?thesis by (simp add: step node_ids_def)
  qed
qed simp

definition kahn_ok ::
    "dag_node list \<Rightarrow> string list \<Rightarrow> (string \<Rightarrow> int option) \<Rightarrow> string list \<Rightarrow> bool" where
  "kahn_ok nodes ready remaining finished \<longleftrightarrow>
     distinct ready \<and> set ready = fst ` {n \<in> set nodes. available finished n}
     \<and> (\<forall>n\<in>set nodes. remaining_of remaining (fst n) = int (unmet finished n))
     \<and> (\<forall>n\<in>set nodes. fst n \<in> set finished \<longrightarrow> unmet finished n = 0)"

lemma decl_order_nth:
  assumes "distinct (node_ids nodes)" and "k < length nodes"
  shows "decl_order nodes (fst (nodes ! k)) = k"
proof -
  have "map_of (rev (zip (node_ids nodes) [0..<length nodes])) (fst (nodes ! k)) = Some k"
  proof (rule map_of_is_SomeI)
    show "distinct (map fst (rev (zip (node_ids nodes) [0..<length nodes])))"
      using assms(1) by (simp add: rev_map[symmetric] node_ids_def)
    have "zip (node_ids nodes) [0..<length nodes] ! k = (fst (nodes ! k), k)"
      using assms(2) by (simp add: node_ids_def)
    then show "(fst (nodes ! k), k) \<in> set (rev (zip (node_ids nodes) [0..<length nodes]))"
      using assms(2) nth_mem[of k "zip (node_ids nodes) [0..<length nodes]"]
      by (simp add: node_ids_def)
  qed
  then show ?thesis by (simp add: decl_order_def)
qed

lemma sort_key_Cons:
  assumes "sort_key f xs = y # ys"
  shows "y \<in> set xs" and "\<forall>x\<in>set xs. f y \<le> f x" and "distinct xs \<Longrightarrow> set ys = set xs - {y}"
    and "distinct xs \<Longrightarrow> distinct ys"
proof -
  have s: "set (y # ys) = set xs" "sorted (map f (y # ys))" "distinct (y # ys) = distinct xs"
    using assms by (metis set_sort, metis sorted_sort_key, metis distinct_sort)
  then show "y \<in> set xs" "\<forall>x\<in>set xs. f y \<le> f x" "distinct xs \<Longrightarrow> set ys = set xs - {y}"
    "distinct xs \<Longrightarrow> distinct ys" by auto
qed

text \<open>The head of the sorted ready list is the node the specification picks.\<close>

lemma kahn_head:
  assumes dist: "distinct (node_ids nodes)" and ok: "kahn_ok nodes ready remaining finished"
    and head: "sort_key (decl_order nodes) ready = i # rest"
  shows "\<exists>n. find (available finished) nodes = Some n \<and> fst n = i \<and> n \<in> set nodes"
proof -
  have mem: "i \<in> set ready" and least: "\<forall>x\<in>set ready. decl_order nodes i \<le> decl_order nodes x"
    using sort_key_Cons[OF head] by auto
  then obtain m where "m \<in> set nodes" "fst m = i" "available finished m"
    using ok by (auto simp: kahn_ok_def)
  then obtain k where k: "k < length nodes" "fst (nodes ! k) = i" "available finished (nodes ! k)"
    by (metis in_set_conv_nth)
  have "\<not> available finished (nodes ! j)" if "j < k" for j
  proof
    assume av: "available finished (nodes ! j)"
    have jl: "j < length nodes" using that k(1) by simp
    then have "fst (nodes ! j) \<in> set ready" using ok av by (auto simp: kahn_ok_def)
    then have "decl_order nodes i \<le> decl_order nodes (fst (nodes ! j))" using least by blast
    then show False using decl_order_nth[OF dist] k jl that by (metis leD)
  qed
  then have "find (available finished) nodes = Some (nodes ! k)"
    using k by (auto simp: find_Some_iff)
  with k show ?thesis by auto
qed

lemma kahn_step:
  assumes dist: "distinct (node_ids nodes)" and ok: "kahn_ok nodes ready remaining finished"
    and head: "sort_key (decl_order nodes) ready = i # rest"
  defines "st \<equiv> foldl release (rest, remaining) (dependents nodes i)"
  shows "kahn_ok nodes (fst st) (snd st) (finished @ [i])"
proof -
  have dr: "distinct ready" and setr: "set ready = fst ` {n \<in> set nodes. available finished n}"
    and rem: "\<And>n. n \<in> set nodes \<Longrightarrow> remaining_of remaining (fst n) = int (unmet finished n)"
    and done0: "\<And>n. n \<in> set nodes \<Longrightarrow> fst n \<in> set finished \<Longrightarrow> unmet finished n = 0"
    using ok by (auto simp: kahn_ok_def)
  obtain m where found: "find (available finished) nodes = Some m" and m: "m \<in> set nodes" "fst m = i"
    using kahn_head[OF dist ok head] by blast
  have m3: "available finished m" using find_SomeD[OF found] by simp
  note m = m m3
  have ifin: "i \<notin> set finished" using m by (auto simp: available_def)
  have rest: "set rest = set ready - {i}" "distinct rest"
    using sort_key_Cons[OF head] dr by auto
  have fstst: "fst st = rest @ pushes remaining (dependents nodes i)"
    by (simp add: st_def releases_eq(1))
  have rem': "remaining_of (snd st) (fst n) = int (unmet (finished @ [i]) n)" if "n \<in> set nodes" for n
    using that rem count_dependents[OF dist that] ifin
    by (simp add: st_def releases_eq(2) unmet_snoc)
  have inj: "a = b" if "a \<in> set nodes" "b \<in> set nodes" "fst a = fst b" for a b
    using that dist by (metis deps_get_node prod.collapse)
  have pushed: "fst n \<in> set (pushes remaining (dependents nodes i)) \<longleftrightarrow>
      0 < unmet finished n \<and> unmet (finished @ [i]) n = 0" if n: "n \<in> set nodes" for n
    using rem[OF n] count_dependents[OF dist n] unmet_snoc[OF ifin, of n]
    by (auto simp: set_pushes)
  have pknown: "set (pushes remaining (dependents nodes i)) \<subseteq> fst ` set nodes"
  proof
    fix x assume "x \<in> set (pushes remaining (dependents nodes i))"
    then have "count_list (dependents nodes i) x \<noteq> 0" by (auto simp: set_pushes)
    then have "x \<in> set (dependents nodes i)" by (metis count_list_0_iff)
    then show "x \<in> fst ` set nodes" using dependents_known by (fastforce simp: node_ids_def)
  qed
  have avail': "available (finished @ [i]) n \<longleftrightarrow>
      fst n \<noteq> i \<and> fst n \<notin> set finished \<and> unmet (finished @ [i]) n = 0" for n
    by (auto simp: available_def unmet_0)
  have disj: "x \<notin> set rest" if "x \<in> set (pushes remaining (dependents nodes i))" for x
  proof
    assume "x \<in> set rest"
    then obtain a where a: "a \<in> set nodes" "available finished a" "x = fst a"
      using rest(1) setr by auto
    then have "0 < unmet finished a" using that pushed by blast
    then show False using a(2) unmet_0[of finished a] by (simp add: available_def)
  qed
  have self: "unmet finished m = 0" using m(3) by (simp add: available_def unmet_0)
  have set': "set (fst st) = fst ` {n \<in> set nodes. available (finished @ [i]) n}"
  proof (intro equalityI subsetI)
    fix x assume "x \<in> set (fst st)"
    then consider "x \<in> set rest" | "x \<in> set (pushes remaining (dependents nodes i))"
      by (auto simp: fstst)
    then show "x \<in> fst ` {n \<in> set nodes. available (finished @ [i]) n}"
    proof cases
      case 1
      then show ?thesis using rest(1) setr by (auto simp: available_def)
    next
      case 2
      then obtain n where n: "n \<in> set nodes" "x = fst n" using pknown by auto
      then have un: "0 < unmet finished n" "unmet (finished @ [i]) n = 0" using 2 pushed by auto
      have "fst n \<noteq> i" using un(1) self inj[OF n(1) m(1)] m(2) by auto
      moreover have "fst n \<notin> set finished" using un(1) done0[OF n(1)] by auto
      ultimately show ?thesis using n un(2) avail' by auto
    qed
  next
    fix x assume "x \<in> fst ` {n \<in> set nodes. available (finished @ [i]) n}"
    then obtain n where n: "n \<in> set nodes" "x = fst n" "available (finished @ [i]) n" by auto
    show "x \<in> set (fst st)"
    proof (cases "unmet finished n = 0")
      case True
      then have "available finished n" "fst n \<noteq> i" using n(3) by (auto simp: available_def unmet_0)
      then show ?thesis using n rest(1) setr by (auto simp: fstst)
    next
      case False
      then show ?thesis using n pushed avail' by (auto simp: fstst)
    qed
  qed
  have done': "unmet (finished @ [i]) n = 0" if "n \<in> set nodes" "fst n \<in> set (finished @ [i])" for n
  proof (cases "fst n = i")
    case True
    then have "n = m" using inj m(1,2) that(1) by blast
    with m(3) show ?thesis by (auto simp: available_def unmet_0)
  next
    case False
    with that done0[OF that(1)] show ?thesis by (fastforce simp: unmet_0)
  qed
  show ?thesis
    unfolding kahn_ok_def
    using rest(2) distinct_pushes disj set' rem' done' by (auto simp: fstst)
qed

lemma kahn_loop_greedy:
  assumes dist: "distinct (node_ids nodes)" and ne: "[] \<notin> set (node_ids nodes)"
  shows "kahn_ok nodes ready remaining finished \<Longrightarrow>
    kahn_loop nodes ready remaining finished = greedy nodes finished"
  using dist ne
proof (induction nodes ready remaining finished rule: kahn_loop.induct)
  case (1 nodes ready remaining finished)
  show ?case
  proof (cases "sort_key (decl_order nodes) ready")
    case Nil
    then have "ready = []" by (metis length_0_conv length_sort)
    then have "find (available finished) nodes = None"
      using "1.prems"(1) by (auto simp: kahn_ok_def find_None_iff)
    with Nil show ?thesis by (simp add: kahn_loop.simps[of nodes ready] greedy.simps[of nodes finished])
  next
    case (Cons i rest)
    let ?st = "foldl release (rest, remaining) (dependents nodes i)"
    obtain n where n: "find (available finished) nodes = Some n" "fst n = i" "n \<in> set nodes"
      using kahn_head[OF "1.prems"(2,1) Cons] by blast
    have "i \<noteq> []" using n "1.prems"(3) by (force simp: node_ids_def)
    moreover have "kahn_ok nodes (fst ?st) (snd ?st) (finished @ [i])"
      by (rule kahn_step[OF "1.prems"(2,1) Cons])
    ultimately have "kahn_loop nodes ready remaining finished = greedy nodes (finished @ [i])"
      using "1.IH"[OF Cons _ refl] "1.prems"(2,3) Cons
      by (simp add: kahn_loop.simps[of nodes ready] Let_def)
    also have "\<dots> = greedy nodes finished" using n by (simp add: greedy.simps[of nodes finished])
    finally show ?thesis .
  qed
qed

lemma initial_remaining_get:
  "distinct (node_ids nodes) \<Longrightarrow> n \<in> set nodes \<Longrightarrow>
    initial_remaining nodes (fst n) = Some (int (length (snd n)))"
proof (induction nodes rule: rev_induct)
  case (snoc m nodes)
  then have "n \<noteq> m \<Longrightarrow> fst n \<noteq> fst m" by (auto simp: node_ids_def) (metis imageI)
  with snoc show ?case by (cases "n = m") (auto simp: initial_remaining_def node_ids_def)
qed simp

lemma kahn_initial:
  assumes dist: "distinct (node_ids nodes)"
  shows "kahn_ok nodes (concat (map (\<lambda>n. if snd n = [] then [fst n] else []) nodes))
    (initial_remaining nodes) []"
proof -
  have "concat (map (\<lambda>n. if snd n = [] then [fst n] else []) xs) = map fst (filter (\<lambda>n. snd n = []) xs)"
    for xs :: "dag_node list"
    by (induction xs) auto
  then show ?thesis
    using dist initial_remaining_get[OF dist]
    by (auto simp: kahn_ok_def available_def remaining_of_def unmet_def node_ids_def
        distinct_map_filter_fst image_iff)
qed

lemma topological_ids_greedy:
  assumes "distinct (node_ids nodes)" and "[] \<notin> set (node_ids nodes)"
  shows "topological_ids nodes = greedy nodes []"
  unfolding topological_ids_def using assms kahn_initial by (intro kahn_loop_greedy)

subsection \<open>What a well-formed plan gets\<close>

definition wf_graph :: "dag_node list \<Rightarrow> bool" where
  "wf_graph nodes \<longleftrightarrow> distinct (node_ids nodes) \<and> [] \<notin> set (node_ids nodes)
     \<and> (\<forall>n\<in>set nodes. set (snd n) \<subseteq> set (node_ids nodes))
     \<and> find_cycle nodes = None"

lemma wf_graphD:
  assumes "wf_graph nodes"
  shows "distinct (node_ids nodes)" "[] \<notin> set (node_ids nodes)"
    "n \<in> set nodes \<Longrightarrow> set (snd n) \<subseteq> set (node_ids nodes)" "acyclic (dep_rel nodes)"
  using assms find_cycle_None by (auto simp: wf_graph_def)

lemma topological_ids_set:
  assumes "wf_graph nodes"
  shows "set (topological_ids nodes) = set (node_ids nodes)"
  using wf_graphD[OF assms] greedy_sound[of nodes "[]"] greedy_complete[of nodes "[]"]
  by (simp add: topological_ids_greedy deps_before_Nil subset_antisym)

lemma topological_ids_order:
  assumes "distinct (node_ids nodes)" and "[] \<notin> set (node_ids nodes)"
  shows "distinct (topological_ids nodes)" "deps_before nodes (topological_ids nodes)"
    "set (topological_ids nodes) \<subseteq> set (node_ids nodes)"
  using assms greedy_sound[of nodes "[]"] by (simp_all add: topological_ids_greedy deps_before_Nil)

lemma topological_ids_extend:
  assumes "distinct (node_ids (nodes @ extra))" and "[] \<notin> set (node_ids (nodes @ extra))"
  shows "prefix (topological_ids nodes) (topological_ids (nodes @ extra))"
proof -
  have "distinct (node_ids nodes)" "[] \<notin> set (node_ids nodes)"
    using assms by (auto simp: node_ids_def)
  then show ?thesis
    using assms greedy_extend[of nodes extra "[]"]
    by (simp add: topological_ids_greedy greedy_prefix)
qed

end
