(* ===== verification/PlanReader.thy ===== *)
theory PlanReader
  imports Types TopologicalOrder
begin

text \<open>
  The readers of \<open>src/src/domain/dag.ts\<close> that turn an unknown value into a task plan, and
  \<open>validateTaskPlan\<close>. A reader returns the value it built and the issues it pushed. The
  lemmas say what the accepted values satisfy and that reading back a well-formed value
  gives it again, without issues.
\<close>

subsection \<open>Strings and arrays of strings\<close>

definition read_non_empty_string :: "json \<Rightarrow> string \<Rightarrow> string reading" where
  "read_non_empty_string v path = (case v of
       JString s \<Rightarrow>
         if trim s = [] then
           ([], [issue_at ''non_empty_string'' path (path @ '' must be a non-empty string'')])
         else (trim s, [])
     | _ \<Rightarrow> ([], [issue_at ''non_empty_string'' path (path @ '' must be a non-empty string'')]))"

definition read_string_array :: "json \<Rightarrow> string \<Rightarrow> string list reading" where
  "read_string_array v path = (case v of
       JArray items \<Rightarrow>
         collect_readings (map_indexed (\<lambda>index item. read_non_empty_string item (at_index path index)) items)
     | _ \<Rightarrow> ([], [issue_at ''string_array'' path (path @ '' must be an array of strings'')]))"

definition clean_string :: "string \<Rightarrow> bool" where
  "clean_string s \<longleftrightarrow> s \<noteq> [] \<and> trimmed s"

definition string_array_json :: "string list \<Rightarrow> json" where
  "string_array_json xs = JArray (map JString xs)"

lemma read_non_empty_string_ok:
  "snd (read_non_empty_string v path) = [] \<Longrightarrow> clean_string (fst (read_non_empty_string v path))"
  by (auto simp: read_non_empty_string_def clean_string_def split: json.splits if_splits)

lemma read_non_empty_string_json:
  "clean_string s \<Longrightarrow> read_non_empty_string (JString s) path = (s, [])"
  by (simp add: read_non_empty_string_def clean_string_def trim_id)

lemma read_string_array_ok:
  assumes "snd (read_string_array v path) = []"
  shows "list_all clean_string (fst (read_string_array v path))"
proof (cases v)
  case (JArray items)
  with assms show ?thesis
    by (auto simp: read_string_array_def list_all_iff map_map_indexed concat_map_indexed_Nil
        set_map_indexed read_non_empty_string_ok)
qed (use assms in \<open>auto simp: read_string_array_def\<close>)

lemma read_string_array_json:
  "list_all clean_string xs \<Longrightarrow> read_string_array (string_array_json xs) path = (xs, [])"
  by (auto simp: read_string_array_def string_array_json_def collect_readings_def map_map_indexed
      map_indexed_map read_non_empty_string_json list_all_length concat_map_indexed_Nil
      intro!: nth_equalityI)

subsection \<open>Repository paths\<close>

definition without_slash :: "string \<Rightarrow> string" where
  "without_slash entry = (if ends_with entry ''/'' then butlast entry else entry)"

definition glob_character :: "char \<Rightarrow> bool" where
  "glob_character c \<longleftrightarrow> c = CHR ''?'' \<or> c = CHR ''*'' \<or> c = CHR ''['' \<or> c = CHR '']''"

definition unsafe_path :: "string \<Rightarrow> bool" where
  "unsafe_path entry \<longleftrightarrow>
     has_substring entry [CHR 0x00] \<or>
     has_substring entry [CHR 0x5C] \<or>
     posix_is_absolute entry \<or>
     win32_is_absolute entry \<or>
     without_slash entry = [] \<or>
     without_slash entry = ''.'' \<or>
     without_slash entry = ''..'' \<or>
     starts_with (without_slash entry) ''../'' \<or>
     has_substring (without_slash entry) ''/../'' \<or>
     list_ex glob_character entry"

definition canonical_path :: "string \<Rightarrow> string" where
  "canonical_path entry =
     (if ends_with entry ''/'' then posix_normalize (without_slash entry) @ ''/''
      else posix_normalize (without_slash entry))"

definition non_canonical_path :: "string \<Rightarrow> bool" where
  "non_canonical_path entry \<longleftrightarrow>
     canonical_path entry \<noteq> entry \<or>
     posix_normalize (without_slash entry) = ''.git'' \<or>
     starts_with (posix_normalize (without_slash entry)) ''.git/''"

definition path_entry_issues :: "string \<Rightarrow> nat \<Rightarrow> string \<Rightarrow> issue list" where
  "path_entry_issues path index entry =
     (let item_path = at_index path index in
      if unsafe_path entry then
        [issue_at ''unsafe_path'' item_path
           (item_path @ '' must be a safe repository-relative file or directory path'')]
      else if non_canonical_path entry then
        [issue_at ''non_canonical_path'' item_path
           (item_path @ '' must be normalized and cannot address Git metadata'')]
      else [])"

definition read_safe_repository_paths :: "json \<Rightarrow> string \<Rightarrow> string list reading" where
  "read_safe_repository_paths v path =
     (let r = read_string_array v path; paths = fst r in
      (paths,
       snd r @ concat (map_indexed (path_entry_issues path) paths) @
       (if set_size paths \<noteq> length paths
        then [issue_at ''duplicate_path'' path (path @ '' must not contain duplicates'')] else [])))"

definition read_allowed_paths :: "json \<Rightarrow> string \<Rightarrow> string list reading" where
  "read_allowed_paths v path =
     (let r = read_safe_repository_paths v path in
      (fst r,
       snd r @
       (if fst r = []
        then [issue_at ''required_paths'' path
                (path @ '' must contain at least one repository-relative path'')] else [])))"

definition safe_path :: "string \<Rightarrow> bool" where
  "safe_path entry \<longleftrightarrow> clean_string entry \<and> \<not> unsafe_path entry \<and> \<not> non_canonical_path entry"

definition safe_paths :: "string list \<Rightarrow> bool" where
  "safe_paths ps \<longleftrightarrow> list_all safe_path ps \<and> distinct ps"

lemma path_entry_issues_Nil:
  "path_entry_issues path k entry = [] \<longleftrightarrow> \<not> unsafe_path entry \<and> \<not> non_canonical_path entry"
  by (simp add: path_entry_issues_def Let_def)

lemma read_safe_repository_paths_ok:
  "snd (read_safe_repository_paths v path) = [] \<Longrightarrow> safe_paths (fst (read_safe_repository_paths v path))"
  using read_string_array_ok[of v path]
  by (auto simp: read_safe_repository_paths_def safe_paths_def safe_path_def set_size_distinct
      concat_map_indexed_Nil path_entry_issues_Nil list_all_length Let_def split: if_splits)

lemma read_safe_repository_paths_json:
  assumes "safe_paths ps"
  shows "read_safe_repository_paths (string_array_json ps) path = (ps, [])"
proof -
  have "list_all clean_string ps" using assms by (auto simp: safe_paths_def safe_path_def list_all_iff)
  then show ?thesis using assms
    by (simp add: read_safe_repository_paths_def safe_paths_def safe_path_def set_size_distinct
        concat_map_indexed_Nil path_entry_issues_Nil list_all_length read_string_array_json Let_def)
qed

lemma read_allowed_paths_ok:
  "snd (read_allowed_paths v path) = [] \<Longrightarrow>
   safe_paths (fst (read_allowed_paths v path)) \<and> fst (read_allowed_paths v path) \<noteq> []"
  using read_safe_repository_paths_ok[of v path]
  by (auto simp: read_allowed_paths_def Let_def split: if_splits)

lemma read_allowed_paths_json:
  "safe_paths ps \<Longrightarrow> ps \<noteq> [] \<Longrightarrow> read_allowed_paths (string_array_json ps) path = (ps, [])"
  by (simp add: read_allowed_paths_def read_safe_repository_paths_json)

subsection \<open>Commands\<close>

definition nul_issues :: "string \<Rightarrow> string \<Rightarrow> issue list" where
  "nul_issues s path =
     (if has_substring s [CHR 0x00]
      then [issue_at ''nul_byte'' path (path @ '' cannot contain a NUL byte'')] else [])"

definition read_argument :: "json \<Rightarrow> string \<Rightarrow> string reading" where
  "read_argument v path = (case v of
       JString s \<Rightarrow> (s, nul_issues s path)
     | _ \<Rightarrow> ([], [issue_at ''command_arg'' path (path @ '' must be a string'')]))"

definition read_command_object :: "json \<Rightarrow> string \<Rightarrow> validation_command reading" where
  "read_command_object item path =
     (if \<not> is_record item then
        (\<lparr>command_name = [], command_args = []\<rparr>,
         [issue_at ''command_object'' path (path @ '' must be an object'')])
      else
        let ob = fields_of item;
            cpath = at_field path ''command'';
            apath = at_field path ''args'';
            c = read_non_empty_string (get_prop ob ''command'') cpath
        in case get_prop ob ''args'' of
             JArray items \<Rightarrow>
               (let args = collect_readings
                      (map_indexed (\<lambda>index a. read_argument a (at_index apath index)) items)
                in (\<lparr>command_name = fst c, command_args = fst args\<rparr>,
                    snd c @ nul_issues (fst c) cpath @ snd args))
           | _ \<Rightarrow> (\<lparr>command_name = fst c, command_args = []\<rparr>,
                    snd c @ nul_issues (fst c) cpath @
                    [issue_at ''command_args'' apath (apath @ '' must be an array of strings'')]))"

definition read_validation_commands :: "json \<Rightarrow> string \<Rightarrow> validation_command list reading" where
  "read_validation_commands v path = (case v of
       JArray (x # xs) \<Rightarrow>
         collect_readings
           (map_indexed (\<lambda>index item. read_command_object item (at_index path index)) (x # xs))
     | _ \<Rightarrow> ([], [issue_at ''required_commands'' path
                   (path @ '' must be a non-empty array of command objects'')]))"

definition wf_command :: "validation_command \<Rightarrow> bool" where
  "wf_command c \<longleftrightarrow> clean_string (command_name c) \<and> CHR 0x00 \<notin> set (command_name c) \<and>
     (\<forall>a\<in>set (command_args c). CHR 0x00 \<notin> set a)"

definition command_json :: "validation_command \<Rightarrow> json" where
  "command_json c =
     JObject [(''command'', JString (command_name c)), (''args'', string_array_json (command_args c))]"

lemma nul_issues_Nil [simp]: "nul_issues s path = [] \<longleftrightarrow> CHR 0x00 \<notin> set s"
proof -
  have "sublist [a] s \<longleftrightarrow> a \<in> set s" for a :: char
    using set_mono_sublist[of "[a]" s] by (auto simp: sublist_def in_set_conv_decomp)
  then show ?thesis by (simp add: nul_issues_def has_substring_def)
qed

lemma read_argument_ok: "snd (read_argument v path) = [] \<Longrightarrow> CHR 0x00 \<notin> set (fst (read_argument v path))"
  by (auto simp: read_argument_def split: json.splits)

lemma read_command_object_ok:
  "snd (read_command_object v path) = [] \<Longrightarrow> wf_command (fst (read_command_object v path))"
  using read_non_empty_string_ok[of "get_prop (fields_of v) ''command''" "at_field path ''command''"]
  by (cases "get_prop (fields_of v) ''args''")
     (auto simp: read_command_object_def wf_command_def Let_def map_map_indexed
      set_map_indexed read_argument_ok split: if_splits)

lemma read_arguments_json:
  assumes "\<forall>a\<in>set xs. CHR 0x00 \<notin> set a"
  shows "collect_readings (map_indexed (\<lambda>index a. read_argument a (at_index path index)) (map JString xs))
    = (xs, [])"
  using assms
  by (auto simp: collect_readings_def map_indexed_map map_map_indexed concat_map_indexed_Nil
      read_argument_def intro!: nth_equalityI)

lemma read_command_object_json:
  assumes "wf_command c"
  shows "read_command_object (command_json c) path = (c, [])"
proof -
  have n: "nul_issues (command_name c) p = []" for p using assms by (simp add: wf_command_def)
  show ?thesis using assms
    by (simp add: read_command_object_def command_json_def is_record_def fields_of_def n
        read_non_empty_string_json read_arguments_json wf_command_def string_array_json_def Let_def)
qed

lemma collect_readings_json:
  assumes "\<And>k. k < length xs \<Longrightarrow> f k (g (xs ! k)) = (xs ! k, [])"
  shows "collect_readings (map_indexed f (map g xs)) = (xs, [])"
  using assms
  by (auto simp: collect_readings_def map_indexed_map map_map_indexed concat_map_indexed_Nil
      intro!: nth_equalityI)

lemma collect_readings_ok:
  assumes "snd (collect_readings (map_indexed f xs)) = []"
    and "\<And>k. k < length xs \<Longrightarrow> snd (f k (xs ! k)) = [] \<Longrightarrow> P (fst (f k (xs ! k)))"
  shows "list_all P (fst (collect_readings (map_indexed f xs)))"
  using assms by (auto simp: map_map_indexed concat_map_indexed_Nil list_all_length)

lemma read_validation_commands_ok:
  assumes "snd (read_validation_commands v path) = []"
  shows "list_all wf_command (fst (read_validation_commands v path)) \<and>
    fst (read_validation_commands v path) \<noteq> []"
proof -
  let ?f = "\<lambda>index item. read_command_object item (at_index path index)"
  obtain x xs where "v = JArray (x # xs)"
    using assms by (auto simp: read_validation_commands_def split: json.splits list.splits)
  then have r: "read_validation_commands v path = collect_readings (map_indexed ?f (x # xs))"
    by (simp add: read_validation_commands_def)
  have "list_all wf_command (fst (collect_readings (map_indexed ?f (x # xs))))"
    by (rule collect_readings_ok) (use assms r in \<open>auto intro: read_command_object_ok\<close>)
  moreover have "length (fst (collect_readings (map_indexed ?f (x # xs)))) = Suc (length xs)"
    by simp
  ultimately show ?thesis unfolding r by (metis length_0_conv nat.distinct(1))
qed

lemma read_validation_commands_json:
  assumes "list_all wf_command cs" and "cs \<noteq> []"
  shows "read_validation_commands (JArray (map command_json cs)) path = (cs, [])"
proof -
  obtain x xs where "map command_json cs = x # xs" using assms(2) by (cases cs) auto
  moreover have "collect_readings (map_indexed
      (\<lambda>index item. read_command_object item (at_index path index)) (map command_json cs)) = (cs, [])"
    by (rule collect_readings_json) (use assms(1) in \<open>simp add: read_command_object_json list_all_length\<close>)
  ultimately show ?thesis by (simp add: read_validation_commands_def)
qed

end
