(* ===== verification/TaskPlan.thy ===== *)
theory TaskPlan
  imports PlanReader "HOL-Library.Multiset"
begin

text \<open>
  \<open>validateTaskPlan\<close> and \<open>analyzeTaskPlan\<close> of \<open>src/src/domain/dag.ts\<close>: what an accepted task
  plan satisfies, that an accepted plan is accepted again unchanged, and the layers of the
  analysis.
\<close>

subsection \<open>Duplicate detection with a growing set\<close>

text \<open>The loops that add every identifier to a set after checking it against that set.\<close>

fun with_seen ::
    "(string list \<Rightarrow> nat \<Rightarrow> 'a \<Rightarrow> issue list) \<Rightarrow> ('a \<Rightarrow> string) \<Rightarrow> string list \<Rightarrow> nat \<Rightarrow> 'a list \<Rightarrow> issue list"
  where
  "with_seen f key seen index [] = []"
| "with_seen f key seen index (x # xs) =
     f seen index x @ with_seen f key (key x # seen) (Suc index) xs"

lemma with_seen_Nil:
  assumes "\<And>seen index x. f seen index x = [] \<longleftrightarrow> key x \<notin> set seen \<and> P x"
  shows "with_seen f key seen index xs = [] \<longleftrightarrow>
    distinct (map key xs) \<and> set (map key xs) \<inter> set seen = {} \<and> list_all P xs"
  using assms by (induction xs arbitrary: seen index) auto

text \<open>The loops over every dependency of every declaration.\<close>

definition each_dependency ::
    "('a \<Rightarrow> string list) \<Rightarrow> (nat \<Rightarrow> 'a \<Rightarrow> nat \<Rightarrow> string \<Rightarrow> issue list) \<Rightarrow> 'a list \<Rightarrow> issue list" where
  "each_dependency deps f xs =
     concat (map_indexed (\<lambda>i x. concat (map_indexed (f i x) (deps x))) xs)"

lemma each_dependency_Nil:
  assumes "\<And>i x j d. f i x j d = [] \<longleftrightarrow> Q d"
  shows "each_dependency deps f xs = [] \<longleftrightarrow> (\<forall>x\<in>set xs. \<forall>d\<in>set (deps x). Q d)"
  by (simp add: each_dependency_def assms all_set_conv_all_nth)

subsection \<open>Reading a task\<close>

definition empty_task :: task_definition where
  "empty_task = \<lparr>task_id = [], task_title = [], task_description = [], task_dependencies = [],
     task_criteria = [], task_paths = [], task_validation = []\<rparr>"

definition read_task :: "json \<Rightarrow> nat \<Rightarrow> task_definition reading" where
  "read_task v index =
     (let path = at_index ''tasks'' index in
      if \<not> is_record v then
        (empty_task, [issue_at ''task_object'' path (path @ '' must be an object'')])
      else
        let ob = fields_of v;
            i = read_non_empty_string (get_prop ob ''id'') (at_field path ''id'');
            t = read_non_empty_string (get_prop ob ''title'') (at_field path ''title'');
            d = read_non_empty_string (get_prop ob ''description'') (at_field path ''description'');
            ds = read_string_array (get_prop ob ''dependencies'') (at_field path ''dependencies'');
            cs = read_string_array (get_prop ob ''acceptanceCriteria'') (at_field path ''acceptanceCriteria'');
            ps = read_allowed_paths (get_prop ob ''allowedPaths'') (at_field path ''allowedPaths'');
            vs = read_validation_commands (get_prop ob ''validationCommands'')
                   (at_field path ''validationCommands'')
        in (\<lparr>task_id = fst i, task_title = fst t, task_description = fst d,
              task_dependencies = fst ds, task_criteria = fst cs, task_paths = fst ps,
              task_validation = fst vs\<rparr>,
            snd i @ snd t @ snd d @ snd ds @ snd cs @ snd ps @ snd vs))"

definition read_task_ok :: "task_definition \<Rightarrow> bool" where
  "read_task_ok t \<longleftrightarrow> clean_string (task_id t) \<and> clean_string (task_title t) \<and>
     clean_string (task_description t) \<and> list_all clean_string (task_dependencies t) \<and>
     list_all clean_string (task_criteria t) \<and> safe_paths (task_paths t) \<and> task_paths t \<noteq> [] \<and>
     list_all wf_command (task_validation t) \<and> task_validation t \<noteq> []"

definition task_json :: "task_definition \<Rightarrow> json" where
  "task_json t = JObject
     [(''id'', JString (task_id t)), (''title'', JString (task_title t)),
      (''description'', JString (task_description t)),
      (''dependencies'', string_array_json (task_dependencies t)),
      (''acceptanceCriteria'', string_array_json (task_criteria t)),
      (''allowedPaths'', string_array_json (task_paths t)),
      (''validationCommands'', JArray (map command_json (task_validation t)))]"

lemma read_task_accepts:
  assumes "snd (read_task v index) = []"
  shows "read_task_ok (fst (read_task v index))"
proof (cases "is_record v")
  case True
  then show ?thesis
    using assms
    by (auto simp: read_task_def read_task_ok_def Let_def read_non_empty_string_ok
        read_string_array_ok read_allowed_paths_ok read_validation_commands_ok)
qed (use assms in \<open>simp add: read_task_def Let_def\<close>)

lemma read_task_json: "read_task_ok t \<Longrightarrow> read_task (task_json t) index = (t, [])"
  by (simp add: read_task_def read_task_ok_def task_json_def is_record_def fields_of_def Let_def
      read_non_empty_string_json read_string_array_json read_allowed_paths_json
      read_validation_commands_json)

subsection \<open>Validating a task plan\<close>

definition task_issue :: "string \<Rightarrow> string \<Rightarrow> string \<Rightarrow> string \<Rightarrow> issue" where
  "task_issue code path message tid = (issue_at code path message)\<lparr>issue_task := Some tid\<rparr>"

definition task_declaration_issues :: "string list \<Rightarrow> nat \<Rightarrow> task_definition \<Rightarrow> issue list" where
  "task_declaration_issues seen index t =
     (let path = at_index ''tasks'' index; idp = at_field path ''id'';
          dpath = at_field path ''dependencies''; i = task_id t in
      (if \<not> name_pattern i then
         [task_issue ''task_id_format'' idp
            (''task id '' @ json_quote i @ '' must match '' @ NAME_PATTERN_TEXT) i] else []) @
      (if i \<in> set seen then
         [task_issue ''duplicate_task_id'' idp (''duplicate task id: '' @ i) i] else []) @
      (if set_size (task_dependencies t) \<noteq> length (task_dependencies t) then
         [task_issue ''duplicate_dependency'' dpath (''task '' @ i @ '' has duplicate dependencies'') i]
       else []) @
      (if i \<in> set (task_dependencies t) then
         [task_issue ''self_dependency'' dpath (''task '' @ i @ '' cannot depend on itself'') i] else []))"

definition unknown_task_dependency ::
    "string list \<Rightarrow> nat \<Rightarrow> task_definition \<Rightarrow> nat \<Rightarrow> string \<Rightarrow> issue list" where
  "unknown_task_dependency ids index t dindex d =
     (if d \<in> set ids then []
      else [(task_issue ''unknown_dependency''
              (at_index (at_field (at_index ''tasks'' index) ''dependencies'') dindex)
              (''task '' @ task_id t @ '' depends on unknown task '' @ d) (task_id t))
              \<lparr>issue_related := Some [d]\<rparr>])"

definition task_nodes :: "task_definition list \<Rightarrow> dag_node list" where
  "task_nodes ts = map (\<lambda>t. (task_id t, task_dependencies t)) ts"

definition cycle_text :: "string list \<Rightarrow> string" where
  "cycle_text c = ''dependency cycle: '' @ join '' -> '' c"

definition read_plan_tasks :: "json obj \<Rightarrow> task_definition list reading" where
  "read_plan_tasks ob = (case get_prop ob ''tasks'' of
       JArray items \<Rightarrow> collect_readings (map_indexed (\<lambda>index item. read_task item index) items)
     | _ \<Rightarrow> ([], []))"

definition required_tasks :: "json obj \<Rightarrow> issue list" where
  "required_tasks ob = (case get_prop ob ''tasks'' of
       JArray (x # xs) \<Rightarrow> []
     | _ \<Rightarrow> [issue_at ''required_tasks'' ''tasks'' ''tasks must be a non-empty array''])"

text \<open>Everything pushed before the search for a cycle, in order.\<close>

definition task_plan_issues ::
    "json obj \<Rightarrow> string reading \<Rightarrow> task_definition list reading \<Rightarrow> validation_command list reading \<Rightarrow> issue list" where
  "task_plan_issues ob title tasks final =
     (if get_prop ob ''version'' \<noteq> JNum (of_int PLAN_SCHEMA_VERSION)
      then [issue_at ''schema_version'' ''version'' ''version must be 3''] else []) @
     snd title @ required_tasks ob @ snd tasks @ snd final @
     with_seen task_declaration_issues task_id [] 0 (fst tasks) @
     each_dependency task_dependencies (unknown_task_dependency (map task_id (fst tasks))) (fst tasks)"

definition task_cycle_issues :: "issue list \<Rightarrow> task_definition list \<Rightarrow> issue list" where
  "task_cycle_issues issues tasks =
     (if issues = [] then
        (case find_cycle (task_nodes tasks) of
           None \<Rightarrow> []
         | Some c \<Rightarrow> [(issue_at ''dependency_cycle'' ''tasks'' (cycle_text c))\<lparr>issue_related := Some c\<rparr>])
      else [])"

definition validate_task_plan_result :: "json \<Rightarrow> issue list + task_plan" where
  "validate_task_plan_result v =
     (if \<not> is_record v then Inl [issue_at ''plan_object'' ''plan'' ''plan must be an object'']
      else
        let ob = fields_of v;
            title = read_non_empty_string (get_prop ob ''title'') ''title'';
            tasks = read_plan_tasks ob;
            final = read_validation_commands (get_prop ob ''finalValidationCommands'')
                      ''finalValidationCommands'';
            issues = task_plan_issues ob title tasks final;
            found = issues @ task_cycle_issues issues (fst tasks)
        in if found \<noteq> [] then Inl found
           else Inr \<lparr>task_plan_title = fst title, task_plan_tasks = fst tasks, task_plan_final = fst final\<rparr>)"

definition validate_task_plan :: "json \<Rightarrow> task_plan result" where
  "validate_task_plan v = (case validate_task_plan_result v of
       Inl issues \<Rightarrow> Inl (PlanValidationError issues)
     | Inr plan \<Rightarrow> Inr plan)"

subsection \<open>What acceptance means\<close>

definition wf_task :: "task_definition \<Rightarrow> bool" where
  "wf_task t \<longleftrightarrow> read_task_ok t \<and> name_pattern (task_id t) \<and> distinct (task_dependencies t) \<and>
     task_id t \<notin> set (task_dependencies t)"

definition wf_task_plan :: "task_plan \<Rightarrow> bool" where
  "wf_task_plan p \<longleftrightarrow> clean_string (task_plan_title p) \<and> task_plan_tasks p \<noteq> [] \<and>
     list_all wf_task (task_plan_tasks p) \<and> list_all wf_command (task_plan_final p) \<and>
     task_plan_final p \<noteq> [] \<and> wf_graph (task_nodes (task_plan_tasks p))"

definition task_plan_json :: "task_plan \<Rightarrow> json" where
  "task_plan_json p = JObject
     [(''version'', JNum (of_int PLAN_SCHEMA_VERSION)), (''title'', JString (task_plan_title p)),
      (''tasks'', JArray (map task_json (task_plan_tasks p))),
      (''finalValidationCommands'', JArray (map command_json (task_plan_final p)))]"

lemma task_declaration_issues_Nil:
  "task_declaration_issues seen index t = [] \<longleftrightarrow> task_id t \<notin> set seen \<and>
     (name_pattern (task_id t) \<and> distinct (task_dependencies t) \<and> task_id t \<notin> set (task_dependencies t))"
  by (auto simp: task_declaration_issues_def Let_def set_size_distinct)

lemma task_loops_Nil:
  "with_seen task_declaration_issues task_id [] 0 ts = [] \<longleftrightarrow>
     distinct (map task_id ts) \<and> list_all (\<lambda>t. name_pattern (task_id t) \<and>
       distinct (task_dependencies t) \<and> task_id t \<notin> set (task_dependencies t)) ts"
  "each_dependency task_dependencies (unknown_task_dependency ids) ts = [] \<longleftrightarrow>
     (\<forall>t\<in>set ts. set (task_dependencies t) \<subseteq> set ids)"
  by (subst with_seen_Nil[OF task_declaration_issues_Nil], simp)
     (subst each_dependency_Nil[where Q="\<lambda>d. d \<in> set ids"],
       auto simp: unknown_task_dependency_def)

lemma wf_graph_task_nodes:
  "wf_graph (task_nodes ts) \<longleftrightarrow> distinct (map task_id ts) \<and> [] \<notin> set (map task_id ts) \<and>
     (\<forall>t\<in>set ts. set (task_dependencies t) \<subseteq> set (map task_id ts)) \<and> find_cycle (task_nodes ts) = None"
  by (auto simp: wf_graph_def task_nodes_def node_ids_def comp_def)

lemma validate_task_plan_sound:
  assumes "validate_task_plan v = Inr p"
  shows "wf_task_plan p"
proof -
  have r: "validate_task_plan_result v = Inr p"
    using assms by (simp add: validate_task_plan_def split: sum.splits)
  then have rec: "is_record v" by (auto simp: validate_task_plan_result_def split: if_splits)
  define ob where "ob = fields_of v"
  define T where "T = read_plan_tasks ob"
  define title where "title = read_non_empty_string (get_prop ob ''title'') ''title''"
  define final where "final = read_validation_commands (get_prop ob ''finalValidationCommands'')
    ''finalValidationCommands''"
  have found: "task_plan_issues ob title T final = []"
      "task_cycle_issues (task_plan_issues ob title T final) (fst T) = []"
    and p: "p = \<lparr>task_plan_title = fst title, task_plan_tasks = fst T, task_plan_final = fst final\<rparr>"
    using r rec unfolding T_def title_def final_def ob_def
    by (auto simp: validate_task_plan_result_def Let_def split: if_splits)
  have nil: "snd title = []" "required_tasks ob = []" "snd T = []" "snd final = []"
      "with_seen task_declaration_issues task_id [] 0 (fst T) = []"
      "each_dependency task_dependencies (unknown_task_dependency (map task_id (fst T))) (fst T) = []"
    using found(1) by (simp_all add: task_plan_issues_def)
  have cycle: "find_cycle (task_nodes (fst T)) = None"
    using found by (auto simp: task_cycle_issues_def split: option.splits)
  obtain x xs where tasks: "get_prop ob ''tasks'' = JArray (x # xs)"
    using nil(2) by (auto simp: required_tasks_def split: json.splits list.splits)
  then have T: "T = collect_readings (map_indexed (\<lambda>index item. read_task item index) (x # xs))"
    by (simp add: T_def read_plan_tasks_def)
  have ok: "list_all read_task_ok (fst T)"
    using nil(3) unfolding T by (rule collect_readings_ok) (rule read_task_accepts)
  have "length (fst T) = Suc (length xs)" by (simp add: T)
  then have "fst T \<noteq> []" by auto
  moreover have "list_all wf_task (fst T)"
    using ok nil(5) by (auto simp: task_loops_Nil wf_task_def list_all_iff)
  moreover have "wf_graph (task_nodes (fst T))"
    using nil(5,6) cycle name_pattern_nonempty by (force simp: wf_graph_task_nodes task_loops_Nil list_all_iff)
  moreover have "clean_string (fst title)" "list_all wf_command (fst final) \<and> fst final \<noteq> []"
    using nil(1,4) by (auto simp: title_def final_def read_non_empty_string_ok read_validation_commands_ok)
  ultimately show ?thesis by (simp add: wf_task_plan_def p)
qed

lemma validate_task_plan_json:
  assumes "wf_task_plan p"
  shows "validate_task_plan (task_plan_json p) = Inr p"
proof -
  let ?ts = "task_plan_tasks p"
  have ts: "collect_readings (map_indexed (\<lambda>index item. read_task item index) (map task_json ?ts)) = (?ts, [])"
    by (rule collect_readings_json)
       (use assms in \<open>simp add: wf_task_plan_def wf_task_def list_all_length read_task_json\<close>)
  obtain x xs where cons: "map task_json ?ts = x # xs"
    using assms by (cases ?ts) (auto simp: wf_task_plan_def)
  have loops: "with_seen task_declaration_issues task_id [] 0 ?ts = []"
    "each_dependency task_dependencies (unknown_task_dependency (map task_id ?ts)) ?ts = []"
    "find_cycle (task_nodes ?ts) = None"
    using assms by (auto simp: task_loops_Nil wf_task_plan_def wf_graph_task_nodes wf_task_def list_all_iff)
  show ?thesis
    using assms ts loops
    by (simp add: validate_task_plan_def validate_task_plan_result_def task_plan_json_def Let_def
        read_plan_tasks_def required_tasks_def task_plan_issues_def task_cycle_issues_def
        is_record_def fields_of_def cons read_non_empty_string_json read_validation_commands_json
        wf_task_plan_def)
qed

subsection \<open>Layers\<close>

record task_plan_analysis =
  topological_order :: "string list"
  layers :: "string list list"
  edges :: "(string \<times> string) list"
  roots :: "string list"
  leaves :: "string list"
  widest_layer :: nat

definition layer_get :: "(string \<Rightarrow> nat option) \<Rightarrow> string \<Rightarrow> nat" where
  "layer_get m i = (case m i of None \<Rightarrow> 0 | Some k \<Rightarrow> k)"

definition set_layer :: "dag_node list \<Rightarrow> (string \<Rightarrow> nat option) \<Rightarrow> string \<Rightarrow> (string \<Rightarrow> nat option)" where
  "set_layer nodes m i =
     m(i \<mapsto> foldl (\<lambda>maximum d. max maximum (layer_get m d + 1)) 0 (deps_get nodes i))"

text \<open>\<open>layers[k]\<close> gets \<open>i\<close>; assigning past the end extends the array.\<close>

definition place :: "(string \<Rightarrow> nat option) \<Rightarrow> string list list \<Rightarrow> string \<Rightarrow> string list list" where
  "place m ls i =
     (let k = layer_get m i in
      if k < length ls then ls[k := ls ! k @ [i]]
      else ls @ replicate (k - length ls) [] @ [[i]])"

definition analyze_task_plan :: "task_plan \<Rightarrow> task_plan_analysis result" where
  "analyze_task_plan plan =
     and_then (validate_task_plan (task_plan_json plan)) (\<lambda>validated.
       let tasks = task_plan_tasks validated;
           nodes = task_nodes tasks;
           order = topological_ids nodes;
           by_task = foldl (set_layer nodes) Map.empty order;
           ls = foldl (place by_task) [] order
       in Inr \<lparr>topological_order = order,
               layers = ls,
               edges = concat (map (\<lambda>t. map (\<lambda>d. (d, task_id t)) (task_dependencies t)) tasks),
               roots = map task_id (filter (\<lambda>t. task_dependencies t = []) tasks),
               leaves = map task_id (filter (\<lambda>t. dependents nodes (task_id t) = []) tasks),
               widest_layer = foldl max 0 (map length ls)\<rparr>)"

definition topological_task_ids :: "task_plan \<Rightarrow> string list result" where
  "topological_task_ids plan = and_then (analyze_task_plan plan) (\<lambda>a. Inr (topological_order a))"

lemma foldl_max_layer:
  "foldl (\<lambda>maximum d. max maximum (Suc (f d))) (a :: nat) ds =
     (if ds = [] then a else max a (Suc (Max (f ` set ds))))"
  by (induction ds arbitrary: a) (auto simp: max_def)

lemma layer_get_upd [simp]:
  "layer_get (m(i \<mapsto> k)) j = (if j = i then k else layer_get m j)"
  by (simp add: layer_get_def)

lemma set_layers_other:
  "j \<notin> set us \<Longrightarrow> layer_get (foldl (set_layer nodes) m us) j = layer_get m j"
  by (induction us arbitrary: m) (auto simp: set_layer_def)

lemma layer_of:
  assumes "distinct order" and "deps_before nodes order" and "i \<in> set order"
  defines "L \<equiv> layer_get (foldl (set_layer nodes) Map.empty order)"
  shows "L i = (if deps_get nodes i = [] then 0 else Suc (Max (L ` set (deps_get nodes i))))"
proof -
  obtain us vs where o: "order = us @ i # vs" using assms(3) by (meson split_list)
  let ?M = "foldl (set_layer nodes) Map.empty us"
  have before: "set (deps_get nodes i) \<subseteq> set us" using assms(2) o by (auto simp: deps_before_def)
  have keep: "L d = layer_get ?M d" if "d \<in> set us" for d
  proof -
    have "d \<notin> set (i # vs)" using assms(1) that by (auto simp: o)
    then show ?thesis unfolding L_def o foldl_append by (rule set_layers_other)
  qed
  have im: "layer_get ?M ` set (deps_get nodes i) = L ` set (deps_get nodes i)"
    using keep before by (intro image_cong) auto
  have "i \<notin> set vs" using assms(1) by (simp add: o)
  then have "L i = layer_get (set_layer nodes ?M i) i" by (simp add: L_def o set_layers_other)
  then show ?thesis by (simp add: set_layer_def foldl_max_layer im)
qed

definition layered :: "(string \<Rightarrow> nat option) \<Rightarrow> string list \<Rightarrow> string list list \<Rightarrow> bool" where
  "layered m us ls \<longleftrightarrow> mset (concat ls) = mset us \<and> [] \<notin> set ls \<and>
     (\<forall>i\<in>set us. layer_get m i < length ls \<and> i \<in> set (ls ! layer_get m i))"

lemma place_layered:
  assumes "layered m us ls" and "layer_get m i \<le> length ls"
  shows "layered m (us @ [i]) (place m ls i)"
proof (cases "layer_get m i < length ls")
  case True
  let ?k = "layer_get m i"
  have "concat (ls[?k := ls ! ?k @ [i]]) = concat (take ?k ls) @ ls ! ?k @ [i] @ concat (drop (Suc ?k) ls)"
    using True by (simp add: upd_conv_take_nth_drop)
  moreover have "concat ls = concat (take ?k ls) @ ls ! ?k @ concat (drop (Suc ?k) ls)"
    using True by (metis concat.simps(2) concat_append id_take_nth_drop)
  ultimately have "mset (concat (ls[?k := ls ! ?k @ [i]])) = mset (us @ [i])"
    using assms(1) by (simp add: layered_def)
  moreover have "[] \<notin> set (ls[?k := ls ! ?k @ [i]])"
    using assms(1) set_update_subset_insert[of ls ?k "ls ! ?k @ [i]"] by (auto simp: layered_def)
  ultimately show ?thesis
    using assms(1) True by (auto simp: layered_def place_def Let_def nth_list_update)
next
  case False
  with assms show ?thesis by (auto simp: layered_def place_def Let_def nth_append)
qed

lemma places_layered:
  assumes "distinct order" and "deps_before nodes order"
  defines "m \<equiv> foldl (set_layer nodes) Map.empty order"
  shows "layered m order (foldl (place m) [] order)"
proof -
  have "prefix us order \<Longrightarrow> layered m us (foldl (place m) [] us)" for us
  proof (induction us rule: rev_induct)
    case (snoc i us)
    let ?ls = "foldl (place m) [] us"
    have lay: "layered m us ?ls" using snoc by (simp add: append_prefixD)
    obtain vs where o: "order = us @ i # vs" using snoc.prems by (auto simp: prefix_def)
    then have deps: "set (deps_get nodes i) \<subseteq> set us"
      using assms(2) by (auto simp: deps_before_def)
    have "layer_get m i \<le> length ?ls"
    proof (cases "deps_get nodes i = []")
      case False
      then have "Max (layer_get m ` set (deps_get nodes i)) \<in> layer_get m ` set (deps_get nodes i)"
        by (intro Max_in) auto
      then have "Max (layer_get m ` set (deps_get nodes i)) < length ?ls"
        using deps lay by (auto simp: layered_def)
      moreover have "layer_get m i = Suc (Max (layer_get m ` set (deps_get nodes i)))"
        using False o layer_of[OF assms(1,2), of i] by (simp add: m_def)
      ultimately show ?thesis by (simp only: Suc_le_eq)
    qed (use o layer_of[OF assms(1,2), of i] in \<open>simp add: m_def\<close>)
    with lay show ?case by (simp add: place_layered)
  qed (simp add: layered_def)
  then show ?thesis by simp
qed

lemma layer_deps_less:
  assumes "distinct order" and "deps_before nodes order" and "i \<in> set order" and "d \<in> set (deps_get nodes i)"
  defines "m \<equiv> foldl (set_layer nodes) Map.empty order"
  shows "layer_get m d < layer_get m i"
proof -
  have "layer_get m d \<le> Max (layer_get m ` set (deps_get nodes i))"
    using assms(4) by (intro Max_ge) auto
  moreover have "layer_get m i = Suc (Max (layer_get m ` set (deps_get nodes i)))"
    using layer_of[OF assms(1-3)] assms(4) by (auto simp: m_def)
  ultimately show ?thesis by (simp only: less_Suc_eq_le)
qed

lemma analyze_task_plan_layers:
  assumes "wf_task_plan p"
  shows "\<exists>a. analyze_task_plan p = Inr a \<and>
    mset (concat (layers a)) = mset (map task_id (task_plan_tasks p)) \<and> [] \<notin> set (layers a) \<and>
    (\<forall>t\<in>set (task_plan_tasks p). \<exists>k<length (layers a). task_id t \<in> set (layers a ! k) \<and>
      (\<forall>d\<in>set (task_dependencies t). \<exists>j<k. d \<in> set (layers a ! j)))"
proof -
  let ?nodes = "task_nodes (task_plan_tasks p)"
  let ?order = "topological_ids ?nodes"
  let ?m = "foldl (set_layer ?nodes) Map.empty ?order"
  let ?ls = "foldl (place ?m) [] ?order"
  have g: "wf_graph ?nodes" using assms by (simp add: wf_task_plan_def)
  note o = topological_ids_order[OF wf_graphD(1,2)[OF g]] topological_ids_set[OF g]
  have lay: "layered ?m ?order ?ls" using o(1,2) by (rule places_layered)
  obtain a where a: "analyze_task_plan p = Inr a" "layers a = ?ls"
    using validate_task_plan_json[OF assms] by (simp add: analyze_task_plan_def Let_def)
  have ids: "node_ids ?nodes = map task_id (task_plan_tasks p)"
    by (simp add: task_nodes_def node_ids_def)
  then have "mset ?order = mset (map task_id (task_plan_tasks p))"
    using o(1,4) wf_graphD(1)[OF g] set_eq_iff_mset_eq_distinct by metis
  moreover have "\<exists>k<length ?ls. task_id t \<in> set (?ls ! k) \<and>
      (\<forall>d\<in>set (task_dependencies t). \<exists>j<k. d \<in> set (?ls ! j))"
    if t: "t \<in> set (task_plan_tasks p)" for t
  proof (rule exI[of _ "layer_get ?m (task_id t)"], intro conjI ballI)
    have n: "(task_id t, task_dependencies t) \<in> set ?nodes" using t by (force simp: task_nodes_def)
    then have i: "task_id t \<in> set ?order" using o(4) t by (simp add: ids)
    show "layer_get ?m (task_id t) < length ?ls" "task_id t \<in> set (?ls ! layer_get ?m (task_id t))"
      using lay i by (auto simp: layered_def)
    fix d assume d: "d \<in> set (task_dependencies t)"
    have deps: "deps_get ?nodes (task_id t) = task_dependencies t"
      using deps_get_node[OF wf_graphD(1)[OF g] n] by simp
    have "d \<in> set ?order" using wf_graphD(3)[OF g n] d o(4) by auto
    then have "d \<in> set (?ls ! layer_get ?m d)" using lay by (auto simp: layered_def)
    moreover have "layer_get ?m d < layer_get ?m (task_id t)"
      using layer_deps_less[OF o(1,2) i] d by (simp add: deps)
    ultimately show "\<exists>j<layer_get ?m (task_id t). d \<in> set (?ls ! j)" by blast
  qed
  ultimately show ?thesis using a lay by (auto simp: layered_def)
qed

end
