(* ===== verification/Steps.thy ===== *)
theory Steps
  imports TaskPlan
begin

text \<open>
  \<open>src/src/domain/steps.ts\<close>: the readers of a workflow plan (schema 4), the plan-level
  checks of \<open>validateWorkflowPlan\<close>, and the accessors of a step (capabilities, locks,
  retry budget). The lemmas characterise the accepted plans and show that an accepted
  plan, written back, is accepted unchanged.
\<close>

subsection \<open>Accessors\<close>

definition MAX_STEP_RETRY_ATTEMPTS :: int where "MAX_STEP_RETRY_ATTEMPTS = 5"

definition STEP_KIND_PROFILES :: "step_kind \<Rightarrow> profile_name list" where
  "STEP_KIND_PROFILES k = (case k of
       Investigation \<Rightarrow> [InvestigationProfile, ReviewProfile]
     | Change \<Rightarrow> [ChangeProfile, RepairProfile]
     | Command \<Rightarrow> [CommandProfile]
     | Approval \<Rightarrow> [ApprovalProfile])"

definition kind_profile :: "step_kind \<Rightarrow> profile_name" where
  "kind_profile k = (case k of
       Investigation \<Rightarrow> InvestigationProfile
     | Change \<Rightarrow> ChangeProfile
     | Command \<Rightarrow> CommandProfile
     | Approval \<Rightarrow> ApprovalProfile)"

definition step_profile_name :: "step_definition \<Rightarrow> profile_name" where
  "step_profile_name s =
     (case decl_profile (step_declared s) of Some p \<Rightarrow> p | None \<Rightarrow> kind_profile (step_kind_of s))"

definition KIND_CAPABILITIES :: "step_kind \<Rightarrow> capability list" where
  "KIND_CAPABILITIES k = (case k of
       Investigation \<Rightarrow> [ReadRepository]
     | Change \<Rightarrow> [ReadRepository, MutateRepository, ExecuteCommands]
     | Command \<Rightarrow> [ReadRepository, ExecuteCommands]
     | Approval \<Rightarrow> [])"

definition step_capabilities :: "step_definition \<Rightarrow> capability list" where
  "step_capabilities s =
     (case decl_capabilities (step_declared s) of Some cs \<Rightarrow> cs | None \<Rightarrow> KIND_CAPABILITIES (step_kind_of s))"

definition step_path_locks :: "step_definition \<Rightarrow> string list" where
  "step_path_locks s =
     (case decl_path_locks (step_declared s) of
        Some ps \<Rightarrow> ps
      | None \<Rightarrow> if step_kind_of s = Change then step_allowed_paths s else [])"

definition step_resource_locks :: "step_definition \<Rightarrow> string list" where
  "step_resource_locks s =
     (case decl_resource_locks (step_declared s) of Some ls \<Rightarrow> ls | None \<Rightarrow> [])"

definition step_retry_policy :: "step_definition \<Rightarrow> int" where
  "step_retry_policy s = (case decl_retry (step_declared s) of Some n \<Rightarrow> n | None \<Rightarrow> 1)"

subsection \<open>Reading the declarations\<close>

definition read_optional :: "(json \<Rightarrow> 'a reading) \<Rightarrow> json \<Rightarrow> 'a option reading" where
  "read_optional f v = (if v = JUndefined then (None, []) else (Some (fst (f v)), snd (f v)))"

definition read_input :: "json \<Rightarrow> string \<Rightarrow> step_input reading" where
  "read_input item path =
     (if \<not> is_record item then
        (\<lparr>input_step = [], input_output = []\<rparr>,
         [issue_at ''input_object'' path (path @ '' must be an object'')])
      else
        let s = read_non_empty_string (get_prop (fields_of item) ''stepId'') (at_field path ''stepId'');
            out = read_non_empty_string (get_prop (fields_of item) ''output'') (at_field path ''output'')
        in (\<lparr>input_step = fst s, input_output = fst out\<rparr>, snd s @ snd out))"

definition read_inputs :: "string \<Rightarrow> json \<Rightarrow> step_input list reading" where
  "read_inputs path v = (case v of
       JArray items \<Rightarrow>
         collect_readings (map_indexed (\<lambda>index item. read_input item (at_index path index)) items)
     | _ \<Rightarrow> ([], [issue_at ''input_array'' path
                   (path @ '' must be an array of { stepId, output } references'')]))"

definition named_identifier_issues :: "string \<Rightarrow> string \<Rightarrow> nat \<Rightarrow> string \<Rightarrow> issue list" where
  "named_identifier_issues path format_code index name =
     (if name \<noteq> [] \<and> \<not> name_pattern name then
        [issue_at format_code (at_index path index)
           (at_index path index @ '' must match '' @ NAME_PATTERN_TEXT)] else [])"

definition read_named_identifiers :: "string \<Rightarrow> string \<Rightarrow> string \<Rightarrow> json \<Rightarrow> string list reading" where
  "read_named_identifiers path format_code duplicate_code v =
     (let r = read_string_array v path; names = fst r in
      (names,
       snd r @ concat (map_indexed (named_identifier_issues path format_code) names) @
       (if set_size names \<noteq> length names
        then [issue_at duplicate_code path (path @ '' must not contain duplicates'')] else [])))"

definition profile_of_text :: "string \<Rightarrow> profile_name option" where
  "profile_of_text s = find (\<lambda>p. profile_text p = s) CAPABILITY_PROFILE_NAMES"

definition read_profile :: "string \<Rightarrow> json \<Rightarrow> profile_name option reading" where
  "read_profile path v =
     (let issue = issue_at ''unknown_profile'' path
            (path @ '' must be one of '' @ join '', '' (map profile_text CAPABILITY_PROFILE_NAMES)) in
      case v of
        JUndefined \<Rightarrow> (None, [])
      | JString s \<Rightarrow>
          (case profile_of_text s of Some p \<Rightarrow> (Some p, []) | None \<Rightarrow> (None, [issue]))
      | _ \<Rightarrow> (None, [issue]))"

definition capability_entry_issues :: "string \<Rightarrow> nat \<Rightarrow> string \<Rightarrow> issue list" where
  "capability_entry_issues path index s =
     (if s \<noteq> [] \<and> capability_of s \<notin> set STEP_CAPABILITIES then
        [issue_at ''unknown_capability'' (at_index path index)
           (at_index path index @ '' must be one of '' @ join '', '' (map capability_text STEP_CAPABILITIES))]
      else [])"

definition read_capabilities :: "string \<Rightarrow> json \<Rightarrow> capability list reading" where
  "read_capabilities path v =
     (let r = read_string_array v path in
      (map capability_of (fst r), snd r @ concat (map_indexed (capability_entry_issues path) (fst r))))"

definition read_timeout :: "string \<Rightarrow> json \<Rightarrow> int option reading" where
  "read_timeout path v =
     (if v = JUndefined then (None, [])
      else if \<not> is_safe_integer v \<or> to_int v \<le> 0 then
        (None, [issue_at ''invalid_timeout'' path (path @ '' must be a positive integer of milliseconds'')])
      else (Some (to_int v), []))"

definition read_retry :: "string \<Rightarrow> json \<Rightarrow> int option reading" where
  "read_retry path v =
     (if v = JUndefined then (None, [])
      else
        let m = get_prop (fields_of v) ''maxAttempts'' in
        if \<not> is_record v \<or> \<not> is_safe_integer m \<or> to_int m < 1 \<or> MAX_STEP_RETRY_ATTEMPTS < to_int m then
          (None, [issue_at ''invalid_retry'' path (path @ ''.maxAttempts must be an integer from 1 to 5'')])
        else (Some (to_int m), []))"

definition read_declarations :: "json obj \<Rightarrow> string \<Rightarrow> step_declarations reading" where
  "read_declarations ob path =
     (let inputs = read_optional (read_inputs (at_field path ''inputs'')) (get_prop ob ''inputs'');
          outputs = read_optional (read_named_identifiers (at_field path ''outputs'')
                      ''output_format'' ''duplicate_output'') (get_prop ob ''outputs'');
          profile = read_profile (at_field path ''profile'') (get_prop ob ''profile'');
          caps = read_optional (read_capabilities (at_field path ''capabilities''))
                   (get_prop ob ''capabilities'');
          paths = read_optional (\<lambda>v. read_safe_repository_paths v (at_field path ''pathLocks''))
                   (get_prop ob ''pathLocks'');
          resources = read_optional (read_named_identifiers (at_field path ''resourceLocks'')
                        ''resource_lock_format'' ''duplicate_resource_lock'') (get_prop ob ''resourceLocks'');
          timeout = read_timeout (at_field path ''timeoutMs'') (get_prop ob ''timeoutMs'');
          retry = read_retry (at_field path ''retry'') (get_prop ob ''retry'')
      in (\<lparr>decl_inputs = fst inputs, decl_outputs = fst outputs, decl_profile = fst profile,
            decl_capabilities = fst caps, decl_path_locks = fst paths,
            decl_resource_locks = fst resources, decl_timeout = fst timeout, decl_retry = fst retry\<rparr>,
          snd inputs @ snd outputs @ snd profile @ snd caps @ snd paths @ snd resources @
          snd timeout @ snd retry))"

subsection \<open>Reading a step\<close>

definition no_declarations :: step_declarations where
  "no_declarations = \<lparr>decl_inputs = None, decl_outputs = None, decl_profile = None,
     decl_capabilities = None, decl_path_locks = None, decl_resource_locks = None,
     decl_timeout = None, decl_retry = None\<rparr>"

definition empty_step :: step_definition where
  "empty_step = \<lparr>step_id = [], step_title = [], step_description = [], step_dependencies = [],
     step_declared = no_declarations, step_body = InvestigationBody []\<rparr>"

definition read_questions :: "json \<Rightarrow> string \<Rightarrow> string list reading" where
  "read_questions v path =
     (let r = read_string_array v path in
      (fst r, snd r @ (if fst r = [] then
         [issue_at ''required_questions'' path
            (path @ '' must contain at least one question the investigation answers'')] else [])))"

text \<open>The common fields; the body is filled in by \<open>readStep\<close>.\<close>

definition read_step_common :: "json obj \<Rightarrow> string \<Rightarrow> step_definition reading" where
  "read_step_common ob path =
     (let i = read_non_empty_string (get_prop ob ''id'') (at_field path ''id'');
          t = read_non_empty_string (get_prop ob ''title'') (at_field path ''title'');
          d = read_non_empty_string (get_prop ob ''description'') (at_field path ''description'');
          ds = read_string_array (get_prop ob ''dependencies'') (at_field path ''dependencies'');
          decl = read_declarations ob path
      in (\<lparr>step_id = fst i, step_title = fst t, step_description = fst d, step_dependencies = fst ds,
            step_declared = fst decl, step_body = InvestigationBody []\<rparr>,
          snd i @ snd t @ snd d @ snd ds @ snd decl))"

definition kind_of_json :: "json \<Rightarrow> step_kind option" where
  "kind_of_json v = find (\<lambda>k. JString (kind_text k) = v) STEP_KINDS"

definition read_body :: "step_kind \<Rightarrow> json obj \<Rightarrow> string \<Rightarrow> step_body reading" where
  "read_body k ob path = (case k of
       Investigation \<Rightarrow>
         (let qs = read_questions (get_prop ob ''questions'') (at_field path ''questions'')
          in (InvestigationBody (fst qs), snd qs))
     | Change \<Rightarrow>
         (let cs = read_string_array (get_prop ob ''acceptanceCriteria'') (at_field path ''acceptanceCriteria'');
              ps = read_allowed_paths (get_prop ob ''allowedPaths'') (at_field path ''allowedPaths'');
              vs = read_validation_commands (get_prop ob ''validationCommands'')
                     (at_field path ''validationCommands'')
          in (ChangeBody (fst cs) (fst ps) (fst vs), snd cs @ snd ps @ snd vs))
     | Command \<Rightarrow>
         (let c = read_command_object (get_prop ob ''command'') (at_field path ''command'')
          in (CommandBody (fst c), snd c))
     | Approval \<Rightarrow>
         (let p = read_non_empty_string (get_prop ob ''prompt'') (at_field path ''prompt'')
          in (ApprovalBody (fst p), snd p)))"

definition profile_kind_issues :: "step_kind \<Rightarrow> string \<Rightarrow> profile_name option \<Rightarrow> issue list" where
  "profile_kind_issues k path declared = (case declared of
       None \<Rightarrow> []
     | Some p \<Rightarrow>
         if p \<in> set (STEP_KIND_PROFILES k) then []
         else [issue_at ''profile_not_allowed'' (at_field path ''profile'')
                (at_field path ''profile'' @ '' '' @ profile_text p @ '' is not available to '' @ kind_text k @
                 '' steps (allowed: '' @ join '', '' (map profile_text (STEP_KIND_PROFILES k)) @ '')'')])"

definition capability_kind_issues :: "step_kind \<Rightarrow> string \<Rightarrow> nat \<Rightarrow> capability \<Rightarrow> issue list" where
  "capability_kind_issues k path index c =
     (if capability_text c \<noteq> [] \<and> c \<notin> set (KIND_CAPABILITIES k) then
        [issue_at ''capability_not_allowed'' (at_index (at_field path ''capabilities'') index)
           (at_index (at_field path ''capabilities'') index @ '' exceeds the '' @ kind_text k @
            '' step authority (allowed: '' @
            (if KIND_CAPABILITIES k = [] then ''none''
             else join '', '' (map capability_text (KIND_CAPABILITIES k))) @ '')'')]
      else [])"

definition read_step :: "json \<Rightarrow> nat \<Rightarrow> step_definition reading" where
  "read_step v index =
     (let path = at_index ''steps'' index in
      if \<not> is_record v then
        (empty_step, [issue_at ''step_object'' path (path @ '' must be an object'')])
      else
        let ob = fields_of v; common = read_step_common ob path in
        case kind_of_json (get_prop ob ''kind'') of
          None \<Rightarrow>
            (fst common, snd common @
              [issue_at ''step_kind'' (at_field path ''kind'')
                 (at_field path ''kind'' @ '' must be one of '' @ join '', '' (map kind_text STEP_KINDS))])
        | Some k \<Rightarrow>
            (let body = read_body k ob path; decl = step_declared (fst common) in
             ((fst common)\<lparr>step_body := fst body\<rparr>,
              snd common @ snd body @
              profile_kind_issues k path (decl_profile decl) @
              (case decl_capabilities decl of
                 None \<Rightarrow> []
               | Some cs \<Rightarrow> concat (map_indexed (capability_kind_issues k path) cs)))))"

subsection \<open>Accepted steps\<close>

definition wf_input :: "step_input \<Rightarrow> bool" where
  "wf_input i \<longleftrightarrow> clean_string (input_step i) \<and> clean_string (input_output i)"

definition wf_names :: "string list \<Rightarrow> bool" where
  "wf_names ns \<longleftrightarrow> list_all clean_string ns \<and> list_all name_pattern ns \<and> distinct ns"

definition wf_declarations :: "step_kind \<Rightarrow> step_declarations \<Rightarrow> bool" where
  "wf_declarations k d \<longleftrightarrow>
     if_present (list_all wf_input) (decl_inputs d) \<and>
     if_present wf_names (decl_outputs d) \<and>
     if_present (\<lambda>p. p \<in> set (STEP_KIND_PROFILES k)) (decl_profile d) \<and>
     if_present (\<lambda>cs. set cs \<subseteq> set (KIND_CAPABILITIES k)) (decl_capabilities d) \<and>
     if_present safe_paths (decl_path_locks d) \<and>
     if_present wf_names (decl_resource_locks d) \<and>
     if_present (\<lambda>t. 0 < t \<and> t \<le> 9007199254740991) (decl_timeout d) \<and>
     if_present (\<lambda>n. 1 \<le> n \<and> n \<le> MAX_STEP_RETRY_ATTEMPTS) (decl_retry d)"

definition wf_body :: "step_body \<Rightarrow> bool" where
  "wf_body b = (case b of
       InvestigationBody qs \<Rightarrow> list_all clean_string qs \<and> qs \<noteq> []
     | ChangeBody cs ps vs \<Rightarrow> list_all clean_string cs \<and> safe_paths ps \<and> ps \<noteq> [] \<and>
         list_all wf_command vs \<and> vs \<noteq> []
     | CommandBody c \<Rightarrow> wf_command c
     | ApprovalBody p \<Rightarrow> clean_string p)"

definition read_step_ok :: "step_definition \<Rightarrow> bool" where
  "read_step_ok s \<longleftrightarrow> clean_string (step_id s) \<and> clean_string (step_title s) \<and>
     clean_string (step_description s) \<and> list_all clean_string (step_dependencies s) \<and>
     wf_declarations (step_kind_of s) (step_declared s) \<and> wf_body (step_body s)"

lemma wf_stepD:
  assumes "read_step_ok s"
  shows "set (step_capabilities s) \<subseteq> set (KIND_CAPABILITIES (step_kind_of s))"
    "step_profile_name s \<in> set (STEP_KIND_PROFILES (step_kind_of s))"
    "1 \<le> step_retry_policy s" "step_retry_policy s \<le> MAX_STEP_RETRY_ATTEMPTS"
    "safe_paths (step_path_locks s)" "wf_names (step_resource_locks s)"
  using assms
  by (auto simp: read_step_ok_def wf_declarations_def step_capabilities_def step_profile_name_def
      step_retry_policy_def step_path_locks_def step_resource_locks_def MAX_STEP_RETRY_ATTEMPTS_def
      STEP_KIND_PROFILES_def kind_profile_def wf_names_def safe_paths_def step_allowed_paths_def
      step_kind_of_def wf_body_def
      split: option.splits step_kind.splits step_body.splits)

lemma read_optional_ok:
  assumes "snd (read_optional f v) = []" and "\<And>v. snd (f v) = [] \<Longrightarrow> P (fst (f v))"
  shows "if_present P (fst (read_optional f v))"
  using assms by (auto simp: read_optional_def split: if_splits)

lemma read_inputs_ok:
  assumes "snd (read_inputs path v) = []"
  shows "list_all wf_input (fst (read_inputs path v))"
proof (cases v)
  case (JArray items)
  have "snd (read_input i q) = [] \<Longrightarrow> wf_input (fst (read_input i q))" for i q
    by (auto simp: read_input_def wf_input_def Let_def read_non_empty_string_ok split: if_splits)
  then show ?thesis using assms
    by (simp add: JArray read_inputs_def collect_readings_ok del: fst_collect_readings snd_collect_readings)
qed (use assms in \<open>auto simp: read_inputs_def\<close>)

lemma read_named_identifiers_ok:
  assumes "snd (read_named_identifiers path fc dc v) = []"
  shows "wf_names (fst (read_named_identifiers path fc dc v))"
  using assms read_string_array_ok[of v path]
  by (auto simp: read_named_identifiers_def wf_names_def Let_def set_size_distinct list_all_length
      named_identifier_issues_def clean_string_def split: if_splits)

lemma profile_of_text_Some [simp]: "profile_of_text (profile_text p) = Some p"
  by (cases p) (simp_all add: profile_of_text_def CAPABILITY_PROFILE_NAMES_def profile_text_def)

lemma read_capabilities_ok:
  assumes "snd (read_capabilities path v) = []"
  shows "set (fst (read_capabilities path v)) \<subseteq> set STEP_CAPABILITIES"
proof -
  let ?ss = "fst (read_string_array v path)"
  have "\<forall>k<length ?ss. capability_entry_issues path k (?ss ! k) = []" "list_all clean_string ?ss"
    using assms read_string_array_ok[of v path] by (auto simp: read_capabilities_def Let_def)
  then have "\<forall>k<length ?ss. capability_of (?ss ! k) \<in> set STEP_CAPABILITIES"
    by (auto simp: capability_entry_issues_def list_all_length clean_string_def split: if_splits)
  then have "\<forall>s\<in>set ?ss. capability_of s \<in> set STEP_CAPABILITIES"
    by (simp add: all_set_conv_all_nth)
  then show ?thesis by (auto simp: read_capabilities_def Let_def)
qed

text \<open>The declarations before they are compared with the step kind.\<close>

definition plausible_declarations :: "step_declarations \<Rightarrow> bool" where
  "plausible_declarations d \<longleftrightarrow>
     if_present (list_all wf_input) (decl_inputs d) \<and>
     if_present wf_names (decl_outputs d) \<and>
     if_present (\<lambda>cs. set cs \<subseteq> set STEP_CAPABILITIES) (decl_capabilities d) \<and>
     if_present safe_paths (decl_path_locks d) \<and>
     if_present wf_names (decl_resource_locks d) \<and>
     if_present (\<lambda>t. 0 < t \<and> t \<le> 9007199254740991) (decl_timeout d) \<and>
     if_present (\<lambda>n. 1 \<le> n \<and> n \<le> MAX_STEP_RETRY_ATTEMPTS) (decl_retry d)"

lemma read_timeout_ok: "if_present (\<lambda>t. 0 < t \<and> t \<le> 9007199254740991) (fst (read_timeout path v))"
  by (auto simp: read_timeout_def is_safe_integer_def to_int_def split: json.splits)

lemma read_retry_ok:
  "if_present (\<lambda>n. 1 \<le> n \<and> n \<le> MAX_STEP_RETRY_ATTEMPTS) (fst (read_retry path v))"
  by (auto simp: read_retry_def Let_def)

lemma read_declarations_ok:
  "snd (read_declarations ob path) = [] \<Longrightarrow> plausible_declarations (fst (read_declarations ob path))"
  unfolding read_declarations_def plausible_declarations_def Let_def
  by (simp add: read_optional_ok read_inputs_ok read_named_identifiers_ok read_capabilities_ok
      read_safe_repository_paths_ok read_timeout_ok read_retry_ok)

lemma read_body_ok:
  assumes "snd (read_body k ob path) = []"
  shows "wf_body (fst (read_body k ob path)) \<and>
    (\<forall>s. step_kind_of (s\<lparr>step_body := fst (read_body k ob path)\<rparr>) = k)"
  using assms
  by (cases k) (auto simp: read_body_def wf_body_def step_kind_of_def Let_def read_questions_def
      read_string_array_ok read_allowed_paths_ok read_validation_commands_ok read_command_object_ok
      read_non_empty_string_ok split: if_splits)

lemma capability_kind_issues_Nil:
  assumes "set cs \<subseteq> set STEP_CAPABILITIES"
  shows "concat (map_indexed (capability_kind_issues k path) cs) = [] \<longleftrightarrow> set cs \<subseteq> set (KIND_CAPABILITIES k)"
proof -
  have "capability_text c \<noteq> []" if "c \<in> set STEP_CAPABILITIES" for c
    using that by (auto simp: STEP_CAPABILITIES_def capability_text_def)
  with assms have "\<forall>c\<in>set cs. (capability_kind_issues k path i c = []) = (c \<in> set (KIND_CAPABILITIES k))" for i
    by (auto simp: capability_kind_issues_def)
  then have "(\<forall>i<length cs. capability_kind_issues k path i (cs ! i) = []) \<longleftrightarrow>
      (\<forall>i<length cs. cs ! i \<in> set (KIND_CAPABILITIES k))" by auto
  moreover have "(\<forall>i<length cs. cs ! i \<in> set (KIND_CAPABILITIES k)) \<longleftrightarrow> set cs \<subseteq> set (KIND_CAPABILITIES k)"
    unfolding subset_eq all_set_conv_all_nth by simp
  ultimately show ?thesis by simp
qed

lemma read_step_accepts:
  assumes "snd (read_step v index) = []"
  shows "read_step_ok (fst (read_step v index))"
proof -
  have rec: "is_record v" using assms by (auto simp: read_step_def Let_def split: if_splits)
  define path where "path = at_index ''steps'' index"
  define ob where "ob = fields_of v"
  define common where "common = read_step_common ob path"
  obtain k where k: "kind_of_json (get_prop ob ''kind'') = Some k"
    using assms rec by (auto simp: read_step_def Let_def ob_def split: option.splits)
  define body where "body = read_body k ob path"
  let ?decl = "step_declared (fst common)"
  have r: "read_step v index = ((fst common)\<lparr>step_body := fst body\<rparr>,
      snd common @ snd body @ profile_kind_issues k path (decl_profile ?decl) @
      (case decl_capabilities ?decl of None \<Rightarrow> [] |
         Some cs \<Rightarrow> concat (map_indexed (capability_kind_issues k path) cs)))"
    using rec k unfolding read_step_def common_def body_def ob_def path_def by (simp add: Let_def)
  have nil: "snd common = []" "snd body = []" "profile_kind_issues k path (decl_profile ?decl) = []"
    "(case decl_capabilities ?decl of None \<Rightarrow> [] |
         Some cs \<Rightarrow> concat (map_indexed (capability_kind_issues k path) cs)) = []"
    using assms unfolding r by auto
  have common: "clean_string (step_id (fst common))" "clean_string (step_title (fst common))"
    "clean_string (step_description (fst common))"
    "list_all clean_string (step_dependencies (fst common))" and decl: "plausible_declarations ?decl"
    using nil(1) by (simp_all add: common_def read_step_common_def Let_def read_non_empty_string_ok
        read_string_array_ok read_declarations_ok)
  have "if_present (\<lambda>p. p \<in> set (STEP_KIND_PROFILES k)) (decl_profile ?decl)"
    using nil(3) by (auto simp: profile_kind_issues_def split: option.splits if_splits)
  moreover have "if_present (\<lambda>cs. set cs \<subseteq> set (KIND_CAPABILITIES k)) (decl_capabilities ?decl)"
    using nil(4) decl capability_kind_issues_Nil
    by (fastforce simp: plausible_declarations_def split: option.splits)
  ultimately have "wf_declarations k ?decl"
    using decl by (simp add: wf_declarations_def plausible_declarations_def)
  moreover have "wf_body (fst body)" "step_kind_of ((fst common)\<lparr>step_body := fst body\<rparr>) = k"
    using nil(2) read_body_ok[of k ob path] by (auto simp: body_def)
  ultimately show ?thesis using common by (simp add: r read_step_ok_def)
qed

subsection \<open>Writing steps back\<close>

definition optional_field :: "string \<Rightarrow> ('a \<Rightarrow> json) \<Rightarrow> 'a option \<Rightarrow> json obj" where
  "optional_field k f v = (case v of None \<Rightarrow> [] | Some x \<Rightarrow> [(k, f x)])"

definition input_json :: "step_input \<Rightarrow> json" where
  "input_json i = JObject [(''stepId'', JString (input_step i)), (''output'', JString (input_output i))]"

definition body_fields :: "step_body \<Rightarrow> json obj" where
  "body_fields b = (case b of
       InvestigationBody qs \<Rightarrow>
         [(''kind'', JString ''investigation''), (''questions'', string_array_json qs)]
     | ChangeBody cs ps vs \<Rightarrow>
         [(''kind'', JString ''change''), (''acceptanceCriteria'', string_array_json cs),
          (''allowedPaths'', string_array_json ps), (''validationCommands'', JArray (map command_json vs))]
     | CommandBody c \<Rightarrow> [(''kind'', JString ''command''), (''command'', command_json c)]
     | ApprovalBody p \<Rightarrow> [(''kind'', JString ''approval''), (''prompt'', JString p)])"

definition declaration_fields :: "step_declarations \<Rightarrow> json obj" where
  "declaration_fields d =
     optional_field ''inputs'' (\<lambda>is. JArray (map input_json is)) (decl_inputs d) @
     optional_field ''outputs'' string_array_json (decl_outputs d) @
     optional_field ''profile'' (\<lambda>p. JString (profile_text p)) (decl_profile d) @
     optional_field ''capabilities'' (\<lambda>cs. string_array_json (map capability_text cs)) (decl_capabilities d) @
     optional_field ''pathLocks'' string_array_json (decl_path_locks d) @
     optional_field ''resourceLocks'' string_array_json (decl_resource_locks d) @
     optional_field ''timeoutMs'' (\<lambda>t. JNum (of_int t)) (decl_timeout d) @
     optional_field ''retry'' (\<lambda>n. JObject [(''maxAttempts'', JNum (of_int n))]) (decl_retry d)"

definition step_json :: "step_definition \<Rightarrow> json" where
  "step_json s = JObject
     ([(''id'', JString (step_id s)), (''title'', JString (step_title s)),
       (''description'', JString (step_description s)),
       (''dependencies'', string_array_json (step_dependencies s))] @
      declaration_fields (step_declared s) @ body_fields (step_body s))"

definition field_value :: "('a \<Rightarrow> json) \<Rightarrow> 'a option \<Rightarrow> json" where
  "field_value f v = (case v of None \<Rightarrow> JUndefined | Some x \<Rightarrow> f x)"

lemma string_array_json_defined [simp]: "string_array_json xs \<noteq> JUndefined"
  by (simp add: string_array_json_def)

lemma obj_get_Cons: "obj_get ((j, v) # ob) k = (if j = k then Some v else obj_get ob k)"
  by (simp add: obj_get_def)

lemma obj_get_optional_field:
  "obj_get (optional_field j f v @ ob) k =
     (if k = j \<and> v \<noteq> None then Some (f (the v)) else obj_get ob k)"
  by (cases v) (auto simp: optional_field_def obj_get_def)

lemma get_prop_optional_field:
  "get_prop (optional_field j f v @ ob) k =
     (if k = j \<and> v \<noteq> None then f (the v) else get_prop ob k)"
  by (cases v) (simp_all add: get_prop_def obj_get_optional_field)

lemma get_prop_declarations:
  assumes "k \<notin> {''inputs'', ''outputs'', ''profile'', ''capabilities'', ''pathLocks'', ''resourceLocks'',
      ''timeoutMs'', ''retry''}"
  shows "get_prop (declaration_fields d @ ob) k = get_prop ob k"
  using assms by (simp add: declaration_fields_def get_prop_optional_field)

lemma get_prop_body:
  assumes "k \<in> {''inputs'', ''outputs'', ''profile'', ''capabilities'', ''pathLocks'', ''resourceLocks'',
      ''timeoutMs'', ''retry''}"
  shows "get_prop (body_fields b) k = JUndefined"
  using assms by (auto simp: body_fields_def split: step_body.split)

lemma get_prop_declared:
  "get_prop (declaration_fields d @ body_fields b) ''inputs'' =
     field_value (\<lambda>is. JArray (map input_json is)) (decl_inputs d)"
  "get_prop (declaration_fields d @ body_fields b) ''outputs'' = field_value string_array_json (decl_outputs d)"
  "get_prop (declaration_fields d @ body_fields b) ''profile'' =
     field_value (\<lambda>p. JString (profile_text p)) (decl_profile d)"
  "get_prop (declaration_fields d @ body_fields b) ''capabilities'' =
     field_value (\<lambda>cs. string_array_json (map capability_text cs)) (decl_capabilities d)"
  "get_prop (declaration_fields d @ body_fields b) ''pathLocks'' =
     field_value string_array_json (decl_path_locks d)"
  "get_prop (declaration_fields d @ body_fields b) ''resourceLocks'' =
     field_value string_array_json (decl_resource_locks d)"
  "get_prop (declaration_fields d @ body_fields b) ''timeoutMs'' =
     field_value (\<lambda>t. JNum (of_int t)) (decl_timeout d)"
  "get_prop (declaration_fields d @ body_fields b) ''retry'' =
     field_value (\<lambda>n. JObject [(''maxAttempts'', JNum (of_int n))]) (decl_retry d)"
  by (auto simp: declaration_fields_def get_prop_optional_field get_prop_body field_value_def
      split: option.split)

lemma read_optional_json:
  assumes "if_present P v" and "\<And>x. P x \<Longrightarrow> f (g x) = (x, [])" and "\<And>x. g x \<noteq> JUndefined"
  shows "read_optional f (field_value g v) = (v, [])"
  using assms by (cases v) (auto simp: read_optional_def field_value_def)

lemma read_inputs_json:
  assumes "list_all wf_input is"
  shows "read_inputs path (JArray (map input_json is)) = (is, [])"
proof -
  have "wf_input i \<Longrightarrow> read_input (input_json i) q = (i, [])" for i q
    by (simp add: read_input_def input_json_def wf_input_def is_record_def fields_of_def
        read_non_empty_string_json)
  then show ?thesis
    using assms by (auto simp: read_inputs_def list_all_length intro!: collect_readings_json)
qed

lemma read_named_identifiers_json:
  "wf_names ns \<Longrightarrow> read_named_identifiers path fc dc (string_array_json ns) = (ns, [])"
  by (auto simp: read_named_identifiers_def wf_names_def read_string_array_json set_size_distinct
      named_identifier_issues_def list_all_length)

lemma clean_capability: "c \<in> set STEP_CAPABILITIES \<Longrightarrow> clean_string (capability_text c)"
  by (auto simp: STEP_CAPABILITIES_def capability_text_def clean_string_def trimmed_def js_space_def)

lemma read_capabilities_json:
  assumes "set cs \<subseteq> set STEP_CAPABILITIES"
  shows "read_capabilities path (string_array_json (map capability_text cs)) = (cs, [])"
proof -
  have "map capability_of (map capability_text cs) = cs"
    using assms capability_of_text by (auto simp: comp_def intro!: map_idI)
  moreover have "list_all clean_string (map capability_text cs)"
    using assms clean_capability by (auto simp: list_all_iff)
  moreover have "k < length cs \<Longrightarrow> capability_entry_issues path k (capability_text (cs ! k)) = []" for k
    using assms nth_mem by (force simp: capability_entry_issues_def capability_of_text)
  ultimately show ?thesis
    by (simp add: read_capabilities_def read_string_array_json map_indexed_map)
qed

lemma KIND_CAPABILITIES_subset: "set (KIND_CAPABILITIES k) \<subseteq> set STEP_CAPABILITIES"
  by (cases k) (auto simp: KIND_CAPABILITIES_def STEP_CAPABILITIES_def)

lemma read_profile_json:
  "read_profile path (field_value (\<lambda>p. JString (profile_text p)) v) = (v, [])"
  by (cases v) (simp_all add: read_profile_def field_value_def)

lemma read_timeout_json:
  "if_present (\<lambda>t. 0 < t \<and> t \<le> 9007199254740991) v \<Longrightarrow>
   read_timeout path (field_value (\<lambda>t. JNum (of_int t)) v) = (v, [])"
  by (cases v) (simp_all add: read_timeout_def field_value_def)

lemma read_retry_json:
  "if_present (\<lambda>n. 1 \<le> n \<and> n \<le> MAX_STEP_RETRY_ATTEMPTS) v \<Longrightarrow>
   read_retry path (field_value (\<lambda>n. JObject [(''maxAttempts'', JNum (of_int n))]) v) = (v, [])"
  by (cases v) (simp_all add: read_retry_def field_value_def is_record_def fields_of_def
      MAX_STEP_RETRY_ATTEMPTS_def)

lemma read_declarations_json:
  assumes "wf_declarations k d"
    and "ob = [(''id'', a), (''title'', b), (''description'', c), (''dependencies'', e)] @
      declaration_fields d @ body_fields body"
  shows "read_declarations ob path = (d, [])"
proof -
  let ?rest = "declaration_fields d @ body_fields body"
  have skip: "get_prop ob j = get_prop ?rest j"
    if "j \<notin> {''id'', ''title'', ''description'', ''dependencies''}" for j
    using that by (auto simp: assms(2))
  have caps: "if_present (\<lambda>cs. set cs \<subseteq> set STEP_CAPABILITIES) (decl_capabilities d)"
    using assms(1) KIND_CAPABILITIES_subset by (cases "decl_capabilities d") (auto simp: wf_declarations_def)
  have wf: "if_present (list_all wf_input) (decl_inputs d)" "if_present wf_names (decl_outputs d)"
    "if_present safe_paths (decl_path_locks d)" "if_present wf_names (decl_resource_locks d)"
    using assms(1) by (simp_all add: wf_declarations_def)
  note opt = read_optional_json[OF wf(1) read_inputs_json] read_optional_json[OF wf(2) read_named_identifiers_json]
    read_optional_json[OF caps read_capabilities_json]
    read_optional_json[OF wf(3) read_safe_repository_paths_json]
    read_optional_json[OF wf(4) read_named_identifiers_json]
  show ?thesis
    using assms(1)
    by (simp add: read_declarations_def skip get_prop_declared opt read_profile_json read_timeout_json
        read_retry_json wf_declarations_def Let_def)
qed

lemma kind_of_body:
  "kind_of_json (get_prop (body_fields b) ''kind'') = Some (step_kind_of (s\<lparr>step_body := b\<rparr>))"
  by (cases b) (simp_all add: body_fields_def kind_of_json_def STEP_KINDS_def kind_text_def step_kind_of_def)

lemma read_body_json:
  assumes "wf_body b"
    and "\<And>k. k \<in> {''questions'', ''acceptanceCriteria'', ''allowedPaths'', ''validationCommands'',
        ''command'', ''prompt''} \<Longrightarrow> get_prop ob k = get_prop (body_fields b) k"
  shows "read_body (step_kind_of (s\<lparr>step_body := b\<rparr>)) ob path = (b, [])"
  using assms
  by (cases b) (simp_all add: read_body_def body_fields_def step_kind_of_def wf_body_def
        read_questions_def read_string_array_json read_allowed_paths_json read_validation_commands_json
        read_command_object_json read_non_empty_string_json)

lemma read_step_json:
  assumes "read_step_ok s"
  shows "read_step (step_json s) index = (s, [])"
proof -
  let ?path = "at_index ''steps'' index"
  let ?k = "step_kind_of s"
  define ob where "ob = fields_of (step_json s)"
  have ob: "ob = [(''id'', JString (step_id s)), (''title'', JString (step_title s)),
       (''description'', JString (step_description s)),
       (''dependencies'', string_array_json (step_dependencies s))] @
      declaration_fields (step_declared s) @ body_fields (step_body s)"
    by (simp add: ob_def step_json_def fields_of_def)
  have s: "s = s\<lparr>step_body := step_body s\<rparr>" by simp
  have wf: "wf_declarations ?k (step_declared s)" "wf_body (step_body s)"
    using assms by (simp_all add: read_step_ok_def)
  have "kind_of_json (get_prop ob ''kind'') = Some ?k"
    using kind_of_body[of "step_body s" s] by (simp add: ob get_prop_declarations)
  moreover have "read_body ?k ob ?path = (step_body s, [])"
  proof -
    have "get_prop ob k = get_prop (body_fields (step_body s)) k"
      if "k \<in> {''questions'', ''acceptanceCriteria'', ''allowedPaths'', ''validationCommands'',
        ''command'', ''prompt''}" for k
      using that unfolding ob by (elim insertE emptyE) (simp_all add: get_prop_declarations)
    from read_body_json[OF wf(2) this, of s] show ?thesis by simp
  qed
  moreover have "read_step_common ob ?path = (s\<lparr>step_body := InvestigationBody []\<rparr>, [])"
    using assms read_declarations_json[OF wf(1) ob]
    by (simp add: read_step_common_def ob read_step_ok_def read_non_empty_string_json read_string_array_json)
  moreover have "profile_kind_issues ?k ?path (decl_profile (step_declared s)) = []"
    using wf(1) by (auto simp: profile_kind_issues_def wf_declarations_def split: option.split)
  moreover have "concat (map_indexed (capability_kind_issues ?k ?path) cs) = []"
    if "decl_capabilities (step_declared s) = Some cs" for cs
  proof -
    have "set cs \<subseteq> set (KIND_CAPABILITIES ?k)" using wf(1) that by (simp add: wf_declarations_def)
    then show ?thesis
      using capability_kind_issues_Nil[of cs ?k ?path] KIND_CAPABILITIES_subset by blast
  qed
  ultimately show ?thesis
    unfolding read_step_def ob_def[symmetric]
    by (simp add: step_json_def is_record_def Let_def split: option.split)
qed

subsection \<open>Validating a workflow plan\<close>

definition step_declaration_issues :: "string list \<Rightarrow> nat \<Rightarrow> step_definition \<Rightarrow> issue list" where
  "step_declaration_issues seen index s =
     (let path = at_index ''steps'' index; idp = at_field path ''id'';
          dpath = at_field path ''dependencies''; i = step_id s in
      (if \<not> name_pattern i then
         [issue_at ''step_id_format'' idp
            (''step id '' @ json_quote i @ '' must match '' @ NAME_PATTERN_TEXT)] else []) @
      (if i \<in> set seen then
         [issue_at ''duplicate_step_id'' idp (''duplicate step id: '' @ i)] else []) @
      (if set_size (step_dependencies s) \<noteq> length (step_dependencies s) then
         [issue_at ''duplicate_dependency'' dpath (''step '' @ i @ '' has duplicate dependencies'')]
       else []) @
      (if i \<in> set (step_dependencies s) then
         [issue_at ''self_dependency'' dpath (''step '' @ i @ '' cannot depend on itself'')] else []))"

definition unknown_step_dependency ::
    "string list \<Rightarrow> nat \<Rightarrow> step_definition \<Rightarrow> nat \<Rightarrow> string \<Rightarrow> issue list" where
  "unknown_step_dependency ids index s dindex d =
     (if d \<in> set ids then []
      else [issue_at ''unknown_dependency''
              (at_index (at_field (at_index ''steps'' index) ''dependencies'') dindex)
              (''step '' @ step_id s @ '' depends on unknown step '' @ d)])"

definition step_inputs :: "step_definition \<Rightarrow> step_input list" where
  "step_inputs s = (case decl_inputs (step_declared s) of Some is \<Rightarrow> is | None \<Rightarrow> [])"

definition step_outputs :: "step_definition \<Rightarrow> string list" where
  "step_outputs s = (case decl_outputs (step_declared s) of Some os \<Rightarrow> os | None \<Rightarrow> [])"

text \<open>\<open>outputsByStep\<close>: a later step with the same identifier replaces an earlier one.\<close>

definition outputs_by_step :: "step_definition list \<Rightarrow> string \<Rightarrow> string list option" where
  "outputs_by_step steps = map_of (rev (map (\<lambda>s. (step_id s, step_outputs s)) steps))"

definition input_reference_issues ::
    "step_definition list \<Rightarrow> nat \<Rightarrow> step_definition \<Rightarrow> nat \<Rightarrow> step_input \<Rightarrow> issue list" where
  "input_reference_issues steps index s iindex input =
     (let path = at_index (at_field (at_index ''steps'' index) ''inputs'') iindex in
      if input_step input = [] \<or> input_output input = [] then []
      else if input_step input \<notin> set (step_dependencies s) then
        [issue_at ''input_without_dependency'' path
           (''step '' @ step_id s @ '' consumes an output of '' @ input_step input @
            '' without declaring it as a dependency'')]
      else if (case outputs_by_step steps (input_step input) of
                 None \<Rightarrow> True | Some os \<Rightarrow> input_output input \<notin> set os) then
        [issue_at ''unknown_input_output'' path
           (''step '' @ input_step input @ '' does not declare output '' @ input_output input)]
      else [])"

definition plan_input_issues :: "step_definition list \<Rightarrow> issue list" where
  "plan_input_issues steps =
     concat (map_indexed
       (\<lambda>index s. concat (map_indexed (input_reference_issues steps index s) (step_inputs s))) steps)"

definition step_nodes :: "step_definition list \<Rightarrow> dag_node list" where
  "step_nodes steps = map (\<lambda>s. (step_id s, step_dependencies s)) steps"

definition read_final_validation :: "bool \<Rightarrow> json \<Rightarrow> validation_command list reading" where
  "read_final_validation has_change v =
     (let path = ''finalValidationCommands'' in
      if has_change then
        (case v of
           JArray (x # xs) \<Rightarrow> read_validation_commands v path
         | _ \<Rightarrow> ([], [issue_at ''required_final_validation'' path
             ''finalValidationCommands must be a non-empty array when the plan contains a change step'']))
      else
        (case v of
           JUndefined \<Rightarrow> ([], [])
         | JArray [] \<Rightarrow> ([], [])
         | JArray (x # xs) \<Rightarrow> read_validation_commands v path
         | _ \<Rightarrow> ([], [issue_at ''command_array'' path
             ''finalValidationCommands must be an array of command objects''])))"

definition read_plan_steps :: "json obj \<Rightarrow> step_definition list reading" where
  "read_plan_steps ob = (case get_prop ob ''steps'' of
       JArray items \<Rightarrow> collect_readings (map_indexed (\<lambda>index item. read_step item index) items)
     | _ \<Rightarrow> ([], []))"

definition required_steps :: "json obj \<Rightarrow> issue list" where
  "required_steps ob = (case get_prop ob ''steps'' of
       JArray (x # xs) \<Rightarrow> []
     | _ \<Rightarrow> [issue_at ''required_steps'' ''steps'' ''steps must be a non-empty array''])"

text \<open>Everything pushed before the search for a cycle, in order.\<close>

definition workflow_plan_issues ::
    "json obj \<Rightarrow> string reading \<Rightarrow> step_definition list reading \<Rightarrow> validation_command list reading \<Rightarrow> issue list" where
  "workflow_plan_issues ob title steps final =
     (if get_prop ob ''version'' \<noteq> JNum (of_int WORKFLOW_PLAN_SCHEMA_VERSION)
      then [issue_at ''schema_version'' ''version'' ''version must be 4''] else []) @
     snd title @ required_steps ob @ snd steps @ snd final @
     with_seen step_declaration_issues step_id [] 0 (fst steps) @
     each_dependency step_dependencies (unknown_step_dependency (map step_id (fst steps))) (fst steps) @
     plan_input_issues (fst steps)"

definition step_cycle_issues :: "issue list \<Rightarrow> step_definition list \<Rightarrow> issue list" where
  "step_cycle_issues issues steps =
     (if issues = [] then
        (case find_cycle (step_nodes steps) of
           None \<Rightarrow> []
         | Some c \<Rightarrow> [issue_at ''dependency_cycle'' ''steps'' (cycle_text c)])
      else [])"

definition validate_workflow_plan_result :: "json \<Rightarrow> issue list + workflow_plan" where
  "validate_workflow_plan_result v =
     (if \<not> is_record v then Inl [issue_at ''plan_object'' ''plan'' ''plan must be an object'']
      else
        let ob = fields_of v;
            title = read_non_empty_string (get_prop ob ''title'') ''title'';
            steps = read_plan_steps ob;
            final = read_final_validation (list_ex (\<lambda>s. step_kind_of s = Change) (fst steps))
                      (get_prop ob ''finalValidationCommands'');
            issues = workflow_plan_issues ob title steps final;
            found = issues @ step_cycle_issues issues (fst steps)
        in if found \<noteq> [] then Inl found
           else Inr \<lparr>plan_title = fst title, plan_steps = fst steps, plan_final = fst final\<rparr>)"

definition validate_workflow_plan :: "json \<Rightarrow> workflow_plan result" where
  "validate_workflow_plan v = (case validate_workflow_plan_result v of
       Inl issues \<Rightarrow> Inl (PlanValidationError issues)
     | Inr plan \<Rightarrow> Inr plan)"

definition topological_step_ids :: "workflow_plan \<Rightarrow> string list" where
  "topological_step_ids p = topological_ids (step_nodes (plan_steps p))"

subsection \<open>Accepted plans\<close>

definition wf_step :: "step_definition list \<Rightarrow> step_definition \<Rightarrow> bool" where
  "wf_step steps s \<longleftrightarrow> read_step_ok s \<and> name_pattern (step_id s) \<and>
     distinct (step_dependencies s) \<and> step_id s \<notin> set (step_dependencies s) \<and>
     (\<forall>i\<in>set (step_inputs s). input_step i \<in> set (step_dependencies s) \<and>
        (\<exists>t\<in>set steps. step_id t = input_step i \<and> input_output i \<in> set (step_outputs t)))"

definition wf_workflow_plan :: "workflow_plan \<Rightarrow> bool" where
  "wf_workflow_plan p \<longleftrightarrow> clean_string (plan_title p) \<and> plan_steps p \<noteq> [] \<and>
     list_all (wf_step (plan_steps p)) (plan_steps p) \<and> list_all wf_command (plan_final p) \<and>
     ((\<exists>s\<in>set (plan_steps p). step_kind_of s = Change) \<longrightarrow> plan_final p \<noteq> []) \<and>
     wf_graph (step_nodes (plan_steps p))"

definition workflow_plan_json :: "workflow_plan \<Rightarrow> json" where
  "workflow_plan_json p = JObject
     [(''version'', JNum (of_int WORKFLOW_PLAN_SCHEMA_VERSION)), (''title'', JString (plan_title p)),
      (''steps'', JArray (map step_json (plan_steps p))),
      (''finalValidationCommands'', JArray (map command_json (plan_final p)))]"

lemma step_declaration_issues_Nil:
  "step_declaration_issues seen index s = [] \<longleftrightarrow> step_id s \<notin> set seen \<and>
     (name_pattern (step_id s) \<and> distinct (step_dependencies s) \<and> step_id s \<notin> set (step_dependencies s))"
  by (auto simp: step_declaration_issues_def Let_def set_size_distinct)

lemma step_loops_Nil:
  "with_seen step_declaration_issues step_id [] 0 ss = [] \<longleftrightarrow>
     distinct (map step_id ss) \<and> list_all (\<lambda>s. name_pattern (step_id s) \<and>
       distinct (step_dependencies s) \<and> step_id s \<notin> set (step_dependencies s)) ss"
  "each_dependency step_dependencies (unknown_step_dependency ids) ss = [] \<longleftrightarrow>
     (\<forall>s\<in>set ss. set (step_dependencies s) \<subseteq> set ids)"
  by (subst with_seen_Nil[OF step_declaration_issues_Nil], simp)
     (subst each_dependency_Nil[where Q="\<lambda>d. d \<in> set ids"],
       auto simp: unknown_step_dependency_def)

lemma outputs_by_step_distinct:
  assumes "distinct (map step_id steps)"
  shows "outputs_by_step steps sid = Some os \<longleftrightarrow> (\<exists>t\<in>set steps. step_id t = sid \<and> step_outputs t = os)"
proof -
  have "distinct (map fst (rev (map (\<lambda>s. (step_id s, step_outputs s)) steps)))"
    using assms by (simp add: rev_map[symmetric] comp_def)
  then show ?thesis by (auto simp: outputs_by_step_def)
qed

lemma input_reference_issues_Nil:
  assumes "distinct (map step_id steps)" and "wf_input i"
  shows "input_reference_issues steps index s k i = [] \<longleftrightarrow> input_step i \<in> set (step_dependencies s) \<and>
    (\<exists>t\<in>set steps. step_id t = input_step i \<and> input_output i \<in> set (step_outputs t))"
proof -
  have "(case outputs_by_step steps (input_step i) of
      None \<Rightarrow> True | Some os \<Rightarrow> input_output i \<notin> set os) \<longleftrightarrow>
    \<not> (\<exists>t\<in>set steps. step_id t = input_step i \<and> input_output i \<in> set (step_outputs t))"
  proof (cases "outputs_by_step steps (input_step i)")
    case None
    then have "\<not> (\<exists>t\<in>set steps. step_id t = input_step i)"
      using outputs_by_step_distinct[OF assms(1)] by (metis option.distinct(1))
    with None show ?thesis by auto
  next
    case (Some os)
    then obtain t where "t \<in> set steps" "step_id t = input_step i" "step_outputs t = os"
      using outputs_by_step_distinct[OF assms(1)] by blast
    moreover have "step_outputs u = os" if "u \<in> set steps" "step_id u = input_step i" for u
      using Some that outputs_by_step_distinct[OF assms(1), of "input_step i" "step_outputs u"] by auto
    ultimately show ?thesis using Some by auto
  qed
  then show ?thesis
    using assms(2) by (simp add: input_reference_issues_def wf_input_def clean_string_def Let_def)
qed

lemma plan_input_issues_Nil:
  assumes "distinct (map step_id steps)" and "\<forall>s\<in>set steps. list_all wf_input (step_inputs s)"
  shows "plan_input_issues steps = [] \<longleftrightarrow>
    (\<forall>s\<in>set steps. \<forall>i\<in>set (step_inputs s). input_step i \<in> set (step_dependencies s) \<and>
      (\<exists>t\<in>set steps. step_id t = input_step i \<and> input_output i \<in> set (step_outputs t)))"
proof -
  have "concat (map_indexed (input_reference_issues steps index s) (step_inputs s)) = [] \<longleftrightarrow>
    (\<forall>i\<in>set (step_inputs s). input_step i \<in> set (step_dependencies s) \<and>
      (\<exists>t\<in>set steps. step_id t = input_step i \<and> input_output i \<in> set (step_outputs t)))"
    if "s \<in> set steps" for index s
    by (rule concat_map_indexed_all)
       (use assms(2) that input_reference_issues_Nil[OF assms(1)] in \<open>simp add: list_all_iff\<close>)
  then show ?thesis unfolding plan_input_issues_def by (rule concat_map_indexed_all)
qed

lemma read_step_ok_inputs: "read_step_ok s \<Longrightarrow> list_all wf_input (step_inputs s)"
  by (auto simp: read_step_ok_def wf_declarations_def step_inputs_def split: option.split)

lemma wf_graph_step_nodes:
  "wf_graph (step_nodes ss) \<longleftrightarrow> distinct (map step_id ss) \<and> [] \<notin> set (map step_id ss) \<and>
     (\<forall>s\<in>set ss. set (step_dependencies s) \<subseteq> set (map step_id ss)) \<and> find_cycle (step_nodes ss) = None"
  by (auto simp: wf_graph_def step_nodes_def node_ids_def comp_def)

lemma read_final_validation_ok:
  assumes "snd (read_final_validation hc v) = []"
  shows "list_all wf_command (fst (read_final_validation hc v)) \<and>
    (hc \<longrightarrow> fst (read_final_validation hc v) \<noteq> [])"
proof (cases "\<exists>x xs. v = JArray (x # xs)")
  case True
  then have "read_final_validation hc v = read_validation_commands v ''finalValidationCommands''"
    by (auto simp: read_final_validation_def Let_def)
  then show ?thesis using assms read_validation_commands_ok[of v "''finalValidationCommands''"] by metis
next
  case False
  then show ?thesis using assms
    by (cases hc; cases v) (auto simp: read_final_validation_def Let_def split: list.splits)
qed

lemma validate_workflow_plan_sound:
  assumes "validate_workflow_plan v = Inr p"
  shows "wf_workflow_plan p"
proof -
  have r: "validate_workflow_plan_result v = Inr p"
    using assms by (simp add: validate_workflow_plan_def split: sum.splits)
  then have rec: "is_record v" by (auto simp: validate_workflow_plan_result_def split: if_splits)
  define ob where "ob = fields_of v"
  define T where "T = read_plan_steps ob"
  define title where "title = read_non_empty_string (get_prop ob ''title'') ''title''"
  define final where "final = read_final_validation (list_ex (\<lambda>s. step_kind_of s = Change) (fst T))
    (get_prop ob ''finalValidationCommands'')"
  have found: "workflow_plan_issues ob title T final = []"
      "step_cycle_issues (workflow_plan_issues ob title T final) (fst T) = []"
    and p: "p = \<lparr>plan_title = fst title, plan_steps = fst T, plan_final = fst final\<rparr>"
    using r rec unfolding T_def title_def final_def ob_def
    by (auto simp: validate_workflow_plan_result_def Let_def split: if_splits)
  have nil: "snd title = []" "required_steps ob = []" "snd T = []" "snd final = []"
      "with_seen step_declaration_issues step_id [] 0 (fst T) = []"
      "each_dependency step_dependencies (unknown_step_dependency (map step_id (fst T))) (fst T) = []"
      "plan_input_issues (fst T) = []"
    using found(1) by (simp_all add: workflow_plan_issues_def)
  have cycle: "find_cycle (step_nodes (fst T)) = None"
    using found by (auto simp: step_cycle_issues_def split: option.splits)
  obtain x xs where steps: "get_prop ob ''steps'' = JArray (x # xs)"
    using nil(2) by (auto simp: required_steps_def split: json.splits list.splits)
  then have T: "T = collect_readings (map_indexed (\<lambda>index item. read_step item index) (x # xs))"
    by (simp add: T_def read_plan_steps_def)
  have ok: "list_all read_step_ok (fst T)"
    using nil(3) unfolding T by (rule collect_readings_ok) (rule read_step_accepts)
  have "length (fst T) = Suc (length xs)" by (simp add: T)
  then have "fst T \<noteq> []" by auto
  moreover have dist: "distinct (map step_id (fst T))" using nil(5) by (simp add: step_loops_Nil)
  moreover have "list_all (wf_step (fst T)) (fst T)"
    using ok nil(5,7) plan_input_issues_Nil[OF dist] read_step_ok_inputs
    by (auto simp: step_loops_Nil wf_step_def list_all_iff)
  moreover have "wf_graph (step_nodes (fst T))"
    using nil(5,6) cycle name_pattern_nonempty by (force simp: wf_graph_step_nodes step_loops_Nil list_all_iff)
  moreover have "clean_string (fst title)"
    using nil(1) by (simp add: title_def read_non_empty_string_ok)
  moreover have "list_all wf_command (fst final) \<and>
      (list_ex (\<lambda>s. step_kind_of s = Change) (fst T) \<longrightarrow> fst final \<noteq> [])"
    using nil(4) unfolding final_def by (rule read_final_validation_ok)
  ultimately show ?thesis by (auto simp: wf_workflow_plan_def p list_ex_iff)
qed

lemma read_final_validation_json:
  assumes "list_all wf_command cs" and "hc \<Longrightarrow> cs \<noteq> []"
  shows "read_final_validation hc (JArray (map command_json cs)) = (cs, [])"
  using assms read_validation_commands_json[of cs "''finalValidationCommands''"]
  by (cases cs; cases hc) (simp_all add: read_final_validation_def Let_def)

lemma validate_workflow_plan_json:
  assumes "wf_workflow_plan p"
  shows "validate_workflow_plan (workflow_plan_json p) = Inr p"
proof -
  let ?ss = "plan_steps p"
  let ?hc = "list_ex (\<lambda>s. step_kind_of s = Change) ?ss"
  have ss: "collect_readings (map_indexed (\<lambda>index item. read_step item index) (map step_json ?ss)) = (?ss, [])"
    by (rule collect_readings_json)
       (use assms in \<open>simp add: wf_workflow_plan_def wf_step_def list_all_length read_step_json\<close>)
  obtain x xs where cons: "map step_json ?ss = x # xs"
    using assms by (cases ?ss) (auto simp: wf_workflow_plan_def)
  have final: "read_final_validation ?hc (JArray (map command_json (plan_final p))) = (plan_final p, [])"
    by (rule read_final_validation_json) (use assms in \<open>auto simp: wf_workflow_plan_def list_ex_iff\<close>)
  have dist: "distinct (map step_id ?ss)" using assms by (simp add: wf_workflow_plan_def wf_graph_step_nodes)
  have "plan_input_issues ?ss = []"
    using assms plan_input_issues_Nil[OF dist] read_step_ok_inputs
    by (auto simp: wf_workflow_plan_def wf_step_def list_all_iff)
  moreover have "with_seen step_declaration_issues step_id [] 0 ?ss = []"
    "each_dependency step_dependencies (unknown_step_dependency (map step_id ?ss)) ?ss = []"
    "find_cycle (step_nodes ?ss) = None"
    using assms by (auto simp: step_loops_Nil wf_workflow_plan_def wf_graph_step_nodes wf_step_def list_all_iff)
  moreover have "read_non_empty_string (JString (plan_title p)) ''title'' = (plan_title p, [])"
    using assms by (simp add: read_non_empty_string_json wf_workflow_plan_def)
  ultimately have issues: "workflow_plan_issues (fields_of (workflow_plan_json p)) (plan_title p, []) (?ss, [])
      (plan_final p, []) = []" "step_cycle_issues [] ?ss = []"
    and title: "read_non_empty_string (get_prop (fields_of (workflow_plan_json p)) ''title'') ''title'' =
      (plan_title p, [])"
    by (simp_all add: workflow_plan_issues_def step_cycle_issues_def required_steps_def
        workflow_plan_json_def fields_of_def cons)
  have "read_plan_steps (fields_of (workflow_plan_json p)) = (?ss, [])"
    by (simp add: read_plan_steps_def workflow_plan_json_def fields_of_def ss)
  moreover have "get_prop (fields_of (workflow_plan_json p)) ''finalValidationCommands'' =
      JArray (map command_json (plan_final p))" "is_record (workflow_plan_json p)"
    by (simp_all add: workflow_plan_json_def fields_of_def is_record_def)
  ultimately show ?thesis
    unfolding validate_workflow_plan_def validate_workflow_plan_result_def Let_def
    by (simp add: issues title final)
qed

subsection \<open>The order of an accepted plan\<close>

definition dependencies_first :: "step_definition list \<Rightarrow> string list \<Rightarrow> bool" where
  "dependencies_first steps order \<longleftrightarrow>
     (\<forall>us i vs. order = us @ i # vs \<longrightarrow>
        (\<forall>s\<in>set steps. step_id s = i \<longrightarrow> set (step_dependencies s) \<subseteq> set us))"

lemma node_ids_step_nodes [simp]: "node_ids (step_nodes steps) = map step_id steps"
  by (simp add: node_ids_def step_nodes_def)

lemma step_nodes_append: "step_nodes (xs @ ys) = step_nodes xs @ step_nodes ys"
  by (simp add: step_nodes_def)

lemma deps_get_step:
  assumes "distinct (map step_id steps)" and "s \<in> set steps"
  shows "deps_get (step_nodes steps) (step_id s) = step_dependencies s"
proof -
  have "distinct (node_ids (step_nodes steps))" using assms(1) by simp
  moreover have "(step_id s, step_dependencies s) \<in> set (step_nodes steps)"
    using assms(2) by (force simp: step_nodes_def)
  ultimately show ?thesis using deps_get_node by fastforce
qed

lemma deps_before_steps:
  "distinct (map step_id steps) \<Longrightarrow> deps_before (step_nodes steps) order \<Longrightarrow> dependencies_first steps order"
  unfolding dependencies_first_def deps_before_def by (metis deps_get_step)

lemma wf_workflow_planD:
  assumes "wf_workflow_plan p"
  shows "distinct (map step_id (plan_steps p))" "wf_graph (step_nodes (plan_steps p))"
    "[] \<notin> set (map step_id (plan_steps p))"
    "s \<in> set (plan_steps p) \<Longrightarrow> wf_step (plan_steps p) s"
    "s \<in> set (plan_steps p) \<Longrightarrow> set (step_dependencies s) \<subseteq> set (map step_id (plan_steps p))"
  using assms by (auto simp: wf_workflow_plan_def wf_graph_step_nodes list_all_iff)

lemma topological_step_ids_order:
  assumes "wf_workflow_plan p"
  shows "distinct (topological_step_ids p)"
    "set (topological_step_ids p) = set (map step_id (plan_steps p))"
    "dependencies_first (plan_steps p) (topological_step_ids p)"
proof -
  note wf = wf_workflow_planD(1-3)[OF assms]
  have ids: "distinct (node_ids (step_nodes (plan_steps p)))" "[] \<notin> set (node_ids (step_nodes (plan_steps p)))"
    using wf(1,3) by simp_all
  note order = topological_ids_order[OF ids]
  show "distinct (topological_step_ids p)" using order(1) by (simp add: topological_step_ids_def)
  show "set (topological_step_ids p) = set (map step_id (plan_steps p))"
    using topological_ids_set[OF wf(2)] by (simp add: topological_step_ids_def)
  show "dependencies_first (plan_steps p) (topological_step_ids p)"
    using order(2) wf(1) by (simp add: topological_step_ids_def deps_before_steps)
qed

lemma topological_step_ids_grow:
  assumes "wf_workflow_plan q" and "plan_steps q = plan_steps p @ extra"
  shows "prefix (topological_step_ids p) (topological_step_ids q)"
  unfolding topological_step_ids_def assms(2) step_nodes_append
  by (rule topological_ids_extend)
     (use wf_workflow_planD(1,3)[OF assms(1)] assms(2) in \<open>simp_all add: step_nodes_append[symmetric]\<close>)

end
