(* ===== verification/PlanTranslation.thy ===== *)
theory PlanTranslation
  imports Steps
begin

text \<open>
  \<open>src/src/domain/plan-translation.ts\<close>, \<open>paths.ts\<close> and \<open>command-format.ts\<close>: reading a plan
  document of either schema, path allowances and the rendering of a command.
\<close>

subsection \<open>Path allowances\<close>

definition allows :: "string \<Rightarrow> string \<Rightarrow> bool" where
  "allows allowed path = (if ends_with allowed ''/'' then starts_with path allowed else path = allowed)"

definition path_is_allowed :: "string \<Rightarrow> string list \<Rightarrow> bool" where
  "path_is_allowed path allowed_paths = list_ex (\<lambda>allowed. allows allowed path) allowed_paths"

lemma path_is_allowed_iff: "path_is_allowed path ps \<longleftrightarrow> (\<exists>a\<in>set ps. allows a path)"
  by (simp add: path_is_allowed_def list_ex_iff)

lemma allows_refl [simp]: "allows p p"
  by (simp add: allows_def starts_with_def)

lemma allows_trans: "allows a q \<Longrightarrow> allows q path \<Longrightarrow> allows a path"
  by (auto simp: allows_def starts_with_def intro: prefix_order.trans split: if_splits)

lemma path_is_allowed_mono:
  "path_is_allowed path ps \<Longrightarrow> set ps \<subseteq> set qs \<Longrightarrow> path_is_allowed path qs"
  by (auto simp: path_is_allowed_iff)

lemma path_is_allowed_self: "p \<in> set ps \<Longrightarrow> path_is_allowed p ps"
  using path_is_allowed_iff by force

lemma path_is_allowed_trans:
  "allows q path \<Longrightarrow> path_is_allowed q ps \<Longrightarrow> path_is_allowed path ps"
  using allows_trans path_is_allowed_iff by blast

subsection \<open>Rendering a command\<close>

definition simple_character :: "char \<Rightarrow> bool" where
  "simple_character c \<longleftrightarrow> upper_letter c \<or> lower_letter c \<or> digit c \<or> c \<in> set ''_./:@%+=,-''"

definition simple_argument :: "string \<Rightarrow> bool" where
  "simple_argument s \<longleftrightarrow> s \<noteq> [] \<and> list_all simple_character s"

definition quote_argument :: "string \<Rightarrow> string" where
  "quote_argument s = (if simple_argument s then s else json_quote s)"

definition format_command :: "validation_command \<Rightarrow> string" where
  "format_command c = join '' '' (map quote_argument (command_name c # command_args c))"

lemma quote_argument_inj_simple:
  "simple_argument s \<Longrightarrow> simple_argument t \<Longrightarrow> quote_argument s = quote_argument t \<longleftrightarrow> s = t"
  by (simp add: quote_argument_def)

subsection \<open>Legacy task plans\<close>

definition translate_task :: "task_definition \<Rightarrow> step_definition" where
  "translate_task t =
     \<lparr>step_id = task_id t, step_title = task_title t, step_description = task_description t,
      step_dependencies = task_dependencies t, step_declared = no_declarations,
      step_body = ChangeBody (task_criteria t) (task_paths t) (task_validation t)\<rparr>"

definition translate_legacy_task_plan :: "json \<Rightarrow> workflow_plan result" where
  "translate_legacy_task_plan plan =
     and_then (validate_task_plan plan) (\<lambda>legacy.
       validate_workflow_plan (JObject
         [(''version'', JNum (of_int WORKFLOW_PLAN_SCHEMA_VERSION)),
          (''title'', JString (task_plan_title legacy)),
          (''steps'', JArray (map (step_json \<circ> translate_task) (task_plan_tasks legacy))),
          (''finalValidationCommands'', JArray (map command_json (task_plan_final legacy)))]))"

definition read_workflow_plan_document :: "json \<Rightarrow> workflow_plan result" where
  "read_workflow_plan_document v =
     (if \<not> is_record v then
        Inl (PlanValidationError [issue_at ''plan_object'' ''plan'' ''plan must be an object''])
      else
        let version = get_prop (fields_of v) ''version'' in
        if version = JNum (of_int WORKFLOW_PLAN_SCHEMA_VERSION) then validate_workflow_plan v
        else if version = JNum (of_int PLAN_SCHEMA_VERSION) then translate_legacy_task_plan v
        else Inl (PlanValidationError [issue_at ''unsupported_plan_version'' ''version''
               ''version must be 4 (workflow plan) or 3 (legacy task plan)'']))"

definition translated_plan :: "task_plan \<Rightarrow> workflow_plan" where
  "translated_plan p =
     \<lparr>plan_title = task_plan_title p, plan_steps = map translate_task (task_plan_tasks p),
      plan_final = task_plan_final p\<rparr>"

lemma translate_task_nodes: "step_nodes (map translate_task ts) = task_nodes ts"
  by (simp add: step_nodes_def task_nodes_def translate_task_def comp_def)

lemma wf_translated_plan:
  assumes "wf_task_plan p"
  shows "wf_workflow_plan (translated_plan p)"
proof -
  have "wf_step steps (translate_task t)" if "t \<in> set (task_plan_tasks p)" for t steps
    using assms that
    by (auto simp: wf_task_plan_def wf_task_def read_task_ok_def list_all_iff wf_step_def read_step_ok_def
        translate_task_def wf_declarations_def no_declarations_def wf_body_def step_inputs_def
        step_kind_of_def)
  then show ?thesis using assms
    by (auto simp: wf_workflow_plan_def translated_plan_def wf_task_plan_def translate_task_nodes list_all_iff)
qed

lemma translate_legacy_task_plan_ok:
  assumes "validate_task_plan v = Inr p"
  shows "translate_legacy_task_plan v = Inr (translated_plan p)"
proof -
  have "wf_workflow_plan (translated_plan p)"
    using assms by (intro wf_translated_plan validate_task_plan_sound)
  from validate_workflow_plan_json[OF this] show ?thesis
    by (simp add: translate_legacy_task_plan_def assms workflow_plan_json_def translated_plan_def comp_def)
qed

lemma translate_legacy_task_plan_sound:
  "translate_legacy_task_plan v = Inr p \<Longrightarrow> wf_workflow_plan p"
  by (auto simp: translate_legacy_task_plan_def and_then_Inr intro: validate_workflow_plan_sound)

lemma read_workflow_plan_document_sound:
  "read_workflow_plan_document v = Inr p \<Longrightarrow> wf_workflow_plan p"
  by (auto simp: read_workflow_plan_document_def Let_def
      intro: validate_workflow_plan_sound translate_legacy_task_plan_sound split: if_splits)

lemma read_workflow_plan_document_json:
  assumes "wf_workflow_plan p"
  shows "read_workflow_plan_document (workflow_plan_json p) = Inr p"
  using validate_workflow_plan_json[OF assms]
  by (simp add: read_workflow_plan_document_def workflow_plan_json_def is_record_def fields_of_def)

end
