(* ===== verification/Capabilities.thy ===== *)
theory Capabilities
  imports PlanTranslation
begin

text \<open>
  \<open>src/src/security/capabilities.ts\<close>: which tools a capability grants, the profile that
  grants exactly a set of capabilities, narrowing a frozen profile to what a step declares,
  the boundary check on observed mutations and the check of a stored profile snapshot.
\<close>

subsection \<open>Tools\<close>

definition CAPABILITY_TOOLS :: "capability \<Rightarrow> string list" where
  "CAPABILITY_TOOLS c = (case c of
       ReadRepository \<Rightarrow> [''read'', ''grep'', ''find'', ''ls'']
     | ExecuteCommands \<Rightarrow> [''bash'']
     | MutateRepository \<Rightarrow> [''edit'', ''write'']
     | OtherCapability _ \<Rightarrow> [])"

definition CAPABILITY_ORDER :: "capability list" where
  "CAPABILITY_ORDER = [ReadRepository, ExecuteCommands, MutateRepository]"

definition TOOL_CAPABILITY :: "(string \<times> capability) list" where
  "TOOL_CAPABILITY = concat (map (\<lambda>c. map (\<lambda>tool. (tool, c)) (CAPABILITY_TOOLS c)) CAPABILITY_ORDER)"

definition tool_capability :: "string \<Rightarrow> capability option" where
  "tool_capability tool = map_of (rev TOOL_CAPABILITY) tool"

definition ordered_capabilities :: "capability list \<Rightarrow> capability list" where
  "ordered_capabilities cs = filter (\<lambda>c. c \<in> set cs) CAPABILITY_ORDER"

lemma set_CAPABILITY_ORDER: "set CAPABILITY_ORDER = set STEP_CAPABILITIES"
  by (auto simp: CAPABILITY_ORDER_def STEP_CAPABILITIES_def)

lemma tool_capability_tools:
  "tool_capability tool = Some c \<longleftrightarrow> c \<in> set STEP_CAPABILITIES \<and> tool \<in> set (CAPABILITY_TOOLS c)"
proof -
  have e: "TOOL_CAPABILITY =
      [(''read'', ReadRepository), (''grep'', ReadRepository), (''find'', ReadRepository),
       (''ls'', ReadRepository), (''bash'', ExecuteCommands), (''edit'', MutateRepository),
       (''write'', MutateRepository)]"
    by (simp add: TOOL_CAPABILITY_def CAPABILITY_ORDER_def CAPABILITY_TOOLS_def)
  show ?thesis unfolding tool_capability_def e
    by (cases c) (auto simp: CAPABILITY_TOOLS_def STEP_CAPABILITIES_def split: if_splits)
qed

lemma set_ordered_capabilities [simp]:
  "set (ordered_capabilities cs) = set cs \<inter> set STEP_CAPABILITIES"
  by (auto simp: ordered_capabilities_def set_CAPABILITY_ORDER)

lemma distinct_ordered_capabilities [simp]: "distinct (ordered_capabilities cs)"
  by (simp add: ordered_capabilities_def CAPABILITY_ORDER_def)

subsection \<open>Profiles\<close>

definition capability_profile_for :: "capability list \<Rightarrow> capability_profile result" where
  "capability_profile_for cs =
     (case find (\<lambda>c. c \<notin> set STEP_CAPABILITIES) cs of
        Some c \<Rightarrow> Inl (Error (''Unknown capability: '' @ capability_text c))
      | None \<Rightarrow>
          let ordered = ordered_capabilities cs in
          Inr \<lparr>profile_capabilities = ordered,
               profile_tools = concat (map CAPABILITY_TOOLS ordered)\<rparr>)"

definition narrow_capability_profile :: "capability_profile \<Rightarrow> capability list \<Rightarrow> capability_profile" where
  "narrow_capability_profile profile declared =
     (let kept = filter (\<lambda>c. c \<in> set declared) (profile_capabilities profile) in
      \<lparr>profile_capabilities = ordered_capabilities kept,
       profile_tools = filter (\<lambda>tool. case tool_capability tool of
           None \<Rightarrow> False | Some c \<Rightarrow> c \<in> set kept) (profile_tools profile)\<rparr>)"

definition CAPABILITY_PROFILE_MAXIMA :: "profile_name \<Rightarrow> capability list" where
  "CAPABILITY_PROFILE_MAXIMA p = (case p of
       InvestigationProfile \<Rightarrow> KIND_CAPABILITIES Investigation
     | ChangeProfile \<Rightarrow> KIND_CAPABILITIES Change
     | CommandProfile \<Rightarrow> KIND_CAPABILITIES Command
     | ApprovalProfile \<Rightarrow> KIND_CAPABILITIES Approval
     | ReviewProfile \<Rightarrow> [ReadRepository]
     | RepairProfile \<Rightarrow> [ReadRepository, MutateRepository, ExecuteCommands])"

text \<open>
  A snapshot whose capabilities all come from the vocabulary is total, so the loop that
  builds it cannot throw.
\<close>

definition profile_granting :: "capability list \<Rightarrow> capability_profile" where
  "profile_granting cs =
     \<lparr>profile_capabilities = ordered_capabilities cs,
      profile_tools = concat (map CAPABILITY_TOOLS (ordered_capabilities cs))\<rparr>"

lemma capability_profile_for_known:
  "set cs \<subseteq> set STEP_CAPABILITIES \<Longrightarrow> capability_profile_for cs = Inr (profile_granting cs)"
  by (auto simp: capability_profile_for_def profile_granting_def Let_def find_None_iff split: option.split
      dest!: find_SomeD)

lemma capability_profile_for_unknown:
  "c \<in> set cs \<Longrightarrow> c \<notin> set STEP_CAPABILITIES \<Longrightarrow> \<exists>e. capability_profile_for cs = Inl e"
  by (auto simp: capability_profile_for_def Let_def find_None_iff split: option.split)

definition run_profiles_of :: "(profile_name \<Rightarrow> capability list) \<Rightarrow> run_profiles result" where
  "run_profiles_of f =
     and_then (each_result (\<lambda>name. and_then (capability_profile_for (f name)) (\<lambda>p. Inr (name, p)))
       CAPABILITY_PROFILE_NAMES)
     (\<lambda>entries. Inr (\<lambda>name. case map_of entries name of
         Some p \<Rightarrow> p | None \<Rightarrow> \<lparr>profile_capabilities = [], profile_tools = []\<rparr>))"

definition default_capability_profiles :: "run_profiles result" where
  "default_capability_profiles = run_profiles_of CAPABILITY_PROFILE_MAXIMA"

lemma run_profiles_of_known:
  assumes "\<And>name. set (f name) \<subseteq> set STEP_CAPABILITIES"
  shows "run_profiles_of f = Inr (\<lambda>name. profile_granting (f name))"
proof -
  have "each_result (\<lambda>name. and_then (capability_profile_for (f name)) (\<lambda>p. Inr (name, p)))
      CAPABILITY_PROFILE_NAMES = Inr (map (\<lambda>name. (name, profile_granting (f name))) CAPABILITY_PROFILE_NAMES)"
    by (rule each_result_all) (use assms capability_profile_for_known in auto)
  moreover have "map_of (map (\<lambda>name. (name, profile_granting (f name))) CAPABILITY_PROFILE_NAMES) name =
      Some (profile_granting (f name))" for name
    by (simp add: map_of_map_restrict)
  ultimately show ?thesis by (simp add: run_profiles_of_def)
qed

lemma CAPABILITY_PROFILE_MAXIMA_known: "set (CAPABILITY_PROFILE_MAXIMA p) \<subseteq> set STEP_CAPABILITIES"
  by (cases p) (auto simp: CAPABILITY_PROFILE_MAXIMA_def KIND_CAPABILITIES_def STEP_CAPABILITIES_def)

definition step_capability_profile :: "run_profiles \<Rightarrow> step_definition \<Rightarrow> capability_profile" where
  "step_capability_profile profiles s =
     (let name = step_profile_name s;
          declared = (case decl_capabilities (step_declared s) of
              Some cs \<Rightarrow> cs | None \<Rightarrow> CAPABILITY_PROFILE_MAXIMA name)
      in narrow_capability_profile (profiles name) declared)"

subsection \<open>Sound profiles\<close>

text \<open>
  What \<open>assertCapabilityProfiles\<close> demands of one profile: known capabilities within the
  maximum of its name, and no tool without the capability that grants it.
\<close>

definition sound_profile :: "profile_name \<Rightarrow> capability_profile \<Rightarrow> bool" where
  "sound_profile name p \<longleftrightarrow>
     set (profile_capabilities p) \<subseteq> set (CAPABILITY_PROFILE_MAXIMA name) \<and>
     distinct (profile_capabilities p) \<and> distinct (profile_tools p) \<and>
     (\<forall>tool\<in>set (profile_tools p). \<exists>c\<in>set (profile_capabilities p). tool_capability tool = Some c)"

lemma narrow_capability_profile_subset:
  "set (profile_capabilities (narrow_capability_profile p declared)) \<subseteq>
     set (profile_capabilities p) \<inter> set declared"
  "set (profile_tools (narrow_capability_profile p declared)) \<subseteq> set (profile_tools p)"
  by (auto simp: narrow_capability_profile_def Let_def)

lemma narrow_capability_profile_sound:
  assumes "sound_profile name p"
  shows "sound_profile name (narrow_capability_profile p declared)"
proof -
  have "\<exists>c\<in>set (profile_capabilities (narrow_capability_profile p declared)). tool_capability tool = Some c"
    if t: "tool \<in> set (profile_tools (narrow_capability_profile p declared))" for tool
  proof -
    obtain c where "tool_capability tool = Some c" "c \<in> set (profile_capabilities p)" "c \<in> set declared"
      using t[unfolded narrow_capability_profile_def Let_def]
      by (cases "tool_capability tool") auto
    then show ?thesis
      by (auto simp: narrow_capability_profile_def Let_def tool_capability_tools)
  qed
  then show ?thesis
    using assms narrow_capability_profile_subset[of p declared]
    by (auto simp: sound_profile_def narrow_capability_profile_def Let_def)
qed

lemma profile_granting_sound:
  assumes "set cs \<subseteq> set (CAPABILITY_PROFILE_MAXIMA name)"
  shows "sound_profile name (profile_granting cs)"
proof -
  have "distinct (concat (map CAPABILITY_TOOLS (filter P CAPABILITY_ORDER)))" for P
    by (auto simp: CAPABILITY_ORDER_def CAPABILITY_TOOLS_def)
  then show ?thesis
    using assms
    by (auto simp: sound_profile_def profile_granting_def tool_capability_tools)
       (simp add: ordered_capabilities_def)
qed

subsection \<open>The observed boundary\<close>

definition assert_capability_boundary :: "capability_profile \<Rightarrow> string list \<Rightarrow> unit result" where
  "assert_capability_boundary p changed_paths =
     (if changed_paths \<noteq> [] \<and> MutateRepository \<notin> set (profile_capabilities p) then
        Inl (CapabilityViolationError
          (''Observed repository mutations without the mutate-repository capability (approved: '' @
           (if profile_capabilities p = [] then ''none''
            else join '', '' (map capability_text (profile_capabilities p))) @
           ''): '' @ join '', '' (unique changed_paths)))
      else Inr ())"

definition describe_capability_profile :: "capability_profile \<Rightarrow> string" where
  "describe_capability_profile p =
     ''capabilities: '' @
     (if profile_capabilities p = [] then ''none''
      else join '', '' (map capability_text (profile_capabilities p))) @
     ''; tools: '' @ (if profile_tools p = [] then ''none'' else join '', '' (profile_tools p)) @
     ''; external effects: forbidden''"

lemma assert_capability_boundary_ok:
  "assert_capability_boundary p paths = Inr () \<longleftrightarrow>
     paths = [] \<or> MutateRepository \<in> set (profile_capabilities p)"
  by (auto simp: assert_capability_boundary_def)

subsection \<open>A stored snapshot\<close>

text \<open>
  \<open>String(value)\<close>; the text of a number is the language's shortest decimal and is a
  parameter here, because no vocabulary entry is a number.
\<close>

fun js_string :: "(rat \<Rightarrow> string) \<Rightarrow> json \<Rightarrow> string" where
  "js_string number_text JUndefined = ''undefined''"
| "js_string number_text JNull = ''null''"
| "js_string number_text (JBool b) = (if b then ''true'' else ''false'')"
| "js_string number_text (JNum q) = number_text q"
| "js_string number_text (JString s) = s"
| "js_string number_text (JArray xs) =
     join '','' (map (\<lambda>x. if x = JUndefined \<or> x = JNull then [] else js_string number_text x) xs)"
| "js_string number_text (JObject ob) = ''[object Object]''"

definition check_stored_capability ::
    "(rat \<Rightarrow> string) \<Rightarrow> profile_name \<Rightarrow> string \<Rightarrow> json \<Rightarrow> unit result" where
  "check_stored_capability nt name path c =
     (if capability_of (js_string nt c) \<notin> set STEP_CAPABILITIES then
        Inl (Error (path @ ''.capabilities contains an unknown capability''))
      else if c \<notin> (JString \<circ> capability_text) ` set (CAPABILITY_PROFILE_MAXIMA name) then
        Inl (Error (path @ ''.capabilities exceeds the '' @ profile_text name @ '' profile authority''))
      else Inr ())"

definition check_stored_tool :: "(rat \<Rightarrow> string) \<Rightarrow> string \<Rightarrow> json list \<Rightarrow> json \<Rightarrow> unit result" where
  "check_stored_tool nt path capabilities tool =
     (case tool_capability (js_string nt tool) of
        None \<Rightarrow> Inl (Error (path @ ''.tools contains a tool outside the capability vocabulary: '' @
                  js_string nt tool))
      | Some c \<Rightarrow>
          if JString (capability_text c) \<notin> set capabilities then
            Inl (Error (path @ ''.tools grants '' @ js_string nt tool @ '' without the '' @
              capability_text c @ '' capability''))
          else Inr ())"

definition check_stored_profile :: "(rat \<Rightarrow> string) \<Rightarrow> string \<Rightarrow> json obj \<Rightarrow> profile_name \<Rightarrow> unit result" where
  "check_stored_profile nt path profiles name =
     (let ppath = at_field path (profile_text name); v = get_prop profiles (profile_text name) in
      if \<not> is_record v then Inl (Error (ppath @ '' must be an object''))
      else let ob = fields_of v in
      if get_prop ob ''resourceDiscovery'' \<noteq> JString ''disabled'' then
        Inl (Error (ppath @ ''.resourceDiscovery must be disabled''))
      else if get_prop ob ''externalEffects'' \<noteq> JString ''forbidden'' then
        Inl (Error (ppath @ ''.externalEffects must be forbidden''))
      else case get_prop ob ''capabilities'' of
        JArray cs \<Rightarrow>
          and_then (each_check (check_stored_capability nt name ppath) cs) (\<lambda>_.
          if set_size cs \<noteq> length cs then Inl (Error (ppath @ ''.capabilities must not contain duplicates''))
          else (case get_prop ob ''tools'' of
            JArray ts \<Rightarrow>
              if set_size ts \<noteq> length ts then Inl (Error (ppath @ ''.tools must not contain duplicates''))
              else each_check (check_stored_tool nt ppath cs) ts
          | _ \<Rightarrow> Inl (Error (ppath @ ''.tools must be an array''))))
      | _ \<Rightarrow> Inl (Error (ppath @ ''.capabilities must be an array'')))"

definition assert_capability_profiles :: "(rat \<Rightarrow> string) \<Rightarrow> json \<Rightarrow> string \<Rightarrow> unit result" where
  "assert_capability_profiles nt v path =
     (if \<not> is_record v then Inl (Error (path @ '' must be an object''))
      else
        let profiles = fields_of v; names = obj_keys profiles in
        if length names \<noteq> length CAPABILITY_PROFILE_NAMES \<or>
           list_ex (\<lambda>name. profile_text name \<notin> set names) CAPABILITY_PROFILE_NAMES then
          Inl (Error (path @ '' must declare exactly the profiles '' @
            join '', '' (map profile_text CAPABILITY_PROFILE_NAMES)))
        else
          each_check (check_stored_profile nt path profiles) CAPABILITY_PROFILE_NAMES)"

definition stored_profile_json :: "string list \<Rightarrow> string list \<Rightarrow> json" where
  "stored_profile_json cs ts = JObject
     [(''capabilities'', string_array_json cs), (''tools'', string_array_json ts),
      (''resourceDiscovery'', JString ''disabled''), (''externalEffects'', JString ''forbidden'')]"

definition stored_profiles_json ::
    "(profile_name \<Rightarrow> string list) \<Rightarrow> (profile_name \<Rightarrow> string list) \<Rightarrow> json" where
  "stored_profiles_json caps tools =
     JObject (map (\<lambda>n. (profile_text n, stored_profile_json (caps n) (tools n))) CAPABILITY_PROFILE_NAMES)"

lemma check_stored_capability_Inr:
  "check_stored_capability nt name path (JString s) = Inr () \<longleftrightarrow>
     capability_of s \<in> set (CAPABILITY_PROFILE_MAXIMA name)"
proof -
  have "JString s \<in> (JString \<circ> capability_text) ` set (CAPABILITY_PROFILE_MAXIMA name) \<longleftrightarrow>
      capability_of s \<in> set (CAPABILITY_PROFILE_MAXIMA name)"
    using capability_of_text CAPABILITY_PROFILE_MAXIMA_known[of name] by (force simp: image_iff)
  then show ?thesis
    using CAPABILITY_PROFILE_MAXIMA_known[of name] by (auto simp: check_stored_capability_def)
qed

lemma check_stored_tool_Inr:
  "check_stored_tool nt path (map JString cs) (JString t) = Inr () \<longleftrightarrow>
     (\<exists>c. tool_capability t = Some c \<and> c \<in> capability_of ` set cs)"
proof (cases "tool_capability t")
  case (Some c)
  then have "c \<in> set STEP_CAPABILITIES" by (simp add: tool_capability_tools)
  then have "JString (capability_text c) \<in> set (map JString cs) \<longleftrightarrow> c \<in> capability_of ` set cs"
    by (force simp: image_iff capability_of_text)
  then show ?thesis by (simp add: check_stored_tool_def Some)
qed (simp add: check_stored_tool_def)

definition stored_profile :: "string list \<Rightarrow> string list \<Rightarrow> capability_profile" where
  "stored_profile cs ts = \<lparr>profile_capabilities = map capability_of cs, profile_tools = ts\<rparr>"

lemma distinct_map_JString [simp]: "distinct (map JString xs) \<longleftrightarrow> distinct xs"
  by (simp add: distinct_map inj_on_def)

lemma distinct_map_capability_of [simp]: "distinct (map capability_of xs) \<longleftrightarrow> distinct xs"
  by (simp add: distinct_map inj_on_def)

lemma get_prop_stored_profiles:
  "get_prop (fields_of (stored_profiles_json caps tools)) (profile_text name) =
     stored_profile_json (caps name) (tools name)"
  by (cases name) (simp_all add: stored_profiles_json_def fields_of_def CAPABILITY_PROFILE_NAMES_def
      profile_text_def)

lemma check_stored_profile_Inr:
  "check_stored_profile nt path (fields_of (stored_profiles_json caps tools)) name = Inr () \<longleftrightarrow>
     sound_profile name (stored_profile (caps name) (tools name))"
proof -
  let ?cs = "caps name" and ?ts = "tools name" and ?p = "at_field path (profile_text name)"
  have "check_stored_profile nt path (fields_of (stored_profiles_json caps tools)) name =
      and_then (each_check (check_stored_capability nt name ?p) (map JString ?cs)) (\<lambda>_.
        if set_size (map JString ?cs) \<noteq> length ?cs then Inl (Error (?p @ ''.capabilities must not contain duplicates''))
        else if set_size (map JString ?ts) \<noteq> length ?ts then Inl (Error (?p @ ''.tools must not contain duplicates''))
        else each_check (check_stored_tool nt ?p (map JString ?cs)) (map JString ?ts))"
    unfolding check_stored_profile_def Let_def get_prop_stored_profiles
    by (simp add: stored_profile_json_def is_record_def fields_of_def string_array_json_def)
  moreover have "set_size (map JString xs) \<noteq> length xs \<longleftrightarrow> \<not> distinct xs" for xs
    using set_size_distinct[of "map JString xs"] by simp
  ultimately show ?thesis
    by (auto simp: and_then_Inr check_stored_capability_Inr check_stored_tool_Inr
        sound_profile_def stored_profile_def split: if_splits)
qed

lemma assert_capability_profiles_Inr:
  "assert_capability_profiles nt (stored_profiles_json caps tools) path = Inr () \<longleftrightarrow>
     (\<forall>name. sound_profile name (stored_profile (caps name) (tools name)))"
proof -
  have keys: "obj_keys (fields_of (stored_profiles_json caps tools)) = map profile_text CAPABILITY_PROFILE_NAMES"
    by (simp add: stored_profiles_json_def fields_of_def obj_keys_def comp_def)
  have "assert_capability_profiles nt (stored_profiles_json caps tools) path =
      each_check (check_stored_profile nt path (fields_of (stored_profiles_json caps tools)))
        CAPABILITY_PROFILE_NAMES"
    unfolding assert_capability_profiles_def Let_def keys
    by (auto simp: stored_profiles_json_def is_record_def list_ex_iff)
  then show ?thesis by (simp add: check_stored_profile_Inr)
qed

end
