(* ===== verification/Envelope.thy ===== *)
theory Envelope
  imports Capabilities
begin

text \<open>
  \<open>src/src/security/envelope.ts\<close>: reading and normalising an authority envelope, the
  envelope a plan implies, and the mutation check. Repository roots follow the POSIX rules
  of \<open>node:path\<close>. The digest is the SHA-256 of the canonical JSON text, a parameter of the
  definitions that use it.
\<close>

datatype envelope_source = Authored | Derived

record mutation_scope =
  scope_capabilities :: "capability list"
  scope_allowed :: "string list"
  scope_forbidden :: "string list"

record envelope_repository =
  repository_root :: string
  repository_mutation :: mutation_scope

datatype validation_sandbox = NoSandbox | Nono

record authority_envelope =
  envelope_outcome :: string
  envelope_criteria :: "string list"
  envelope_repositories :: "envelope_repository list"
  envelope_forbidden_actions :: "string list"
  envelope_sandbox :: validation_sandbox
  envelope_required :: "validation_command list"
  envelope_per_change :: bool
  envelope_conditions :: "escalation_condition list"
  envelope_reserved :: "string list"

text \<open>
  \<open>version\<close>, \<open>externalEffects\<close> and \<open>sandbox.workers\<close> are singleton types.
\<close>

definition AUTHORITY_ENVELOPE_SCHEMA_VERSION :: int where "AUTHORITY_ENVELOPE_SCHEMA_VERSION = 1"

definition RESERVED_ESCALATION_CONDITIONS :: "escalation_condition list" where
  "RESERVED_ESCALATION_CONDITIONS =
     [AddRepository, WidenMutationAuthority, ChangeAcceptanceCriteria, SkipRequiredValidation, ExternalEffect]"

definition condition_text :: "escalation_condition \<Rightarrow> string" where
  "condition_text c = (case c of
       AddRepository \<Rightarrow> ''add-repository''
     | WidenMutationAuthority \<Rightarrow> ''widen-mutation-authority''
     | ChangeAcceptanceCriteria \<Rightarrow> ''change-acceptance-criteria''
     | SkipRequiredValidation \<Rightarrow> ''skip-required-validation''
     | ExternalEffect \<Rightarrow> ''external-effect'')"

definition EXTERNAL_EFFECT_BOUNDARY :: string where
  "EXTERNAL_EFFECT_BOUNDARY =
     ''External effects forbidden: no deployment, publishing, cloud administration, or remote mutation authority exists in any capability profile''"

subsection \<open>Readers\<close>

definition reject_unknown_keys :: "json obj \<Rightarrow> string list \<Rightarrow> string \<Rightarrow> issue list" where
  "reject_unknown_keys ob allowed path =
     concat (map (\<lambda>key.
       if key \<in> set allowed then []
       else let key_path = (if path \<noteq> [] then at_field path key else key) in
         [issue_at ''unknown_key'' key_path (key_path @ '' is not a recognized authority envelope field'')])
       (obj_keys ob))"

definition read_unique_strings :: "json \<Rightarrow> string \<Rightarrow> string list reading" where
  "read_unique_strings v path =
     (let r = read_string_array v path in
      (fst r, snd r @ (if set_size (fst r) \<noteq> length (fst r)
         then [issue_at ''duplicate_entry'' path (path @ '' must not contain duplicates'')] else [])))"

text \<open>\<open>posix.normalize\<close> of an absolute path, and the root without its trailing separators.\<close>

definition absolute_segment :: "string list \<Rightarrow> string \<Rightarrow> string list" where
  "absolute_segment acc seg =
     (if seg = [] \<or> seg = ''.'' then acc
      else if seg = ''..'' then butlast acc
      else acc @ [seg])"

definition normalize_absolute :: "string \<Rightarrow> string" where
  "normalize_absolute path =
     (let body = join ''/'' (foldl absolute_segment [] (split_on (CHR ''/'') path)) in
      if body = [] then ''/''
      else ''/'' @ body @ (if ends_with path ''/'' then ''/'' else []))"

definition canonical_root :: "string \<Rightarrow> string" where
  "canonical_root dir =
     (let stripped = rev (dropWhile path_separator (rev (normalize_absolute dir))) in
      if stripped = [] then dir else stripped)"

definition read_repository_root :: "json \<Rightarrow> string \<Rightarrow> envelope_source \<Rightarrow> string reading" where
  "read_repository_root v path source =
     (case source of
        Derived \<Rightarrow>
          (case v of
             JString (c # cs) \<Rightarrow> (c # cs, [])
           | _ \<Rightarrow> ([], [issue_at ''repository_root'' path
               (path @ '' must preserve the historical run's non-empty repository identity'')]))
      | Authored \<Rightarrow>
          (let r = read_non_empty_string v path; dir = fst r in
           if dir = [] then r
           else if \<not> starts_with dir ''/'' \<or> has_substring dir [CHR 0x00] then
             (dir, snd r @ [issue_at ''repository_root'' path (path @ '' must be an absolute repository path'')])
           else if canonical_root dir \<noteq> dir then
             (dir, snd r @ [issue_at ''non_canonical_root'' path
               (path @ '' must be normalized without a trailing separator'')])
           else r))"

definition envelope_ordered :: "capability list \<Rightarrow> capability list" where
  "envelope_ordered cs = filter (\<lambda>c. c \<in> set cs) STEP_CAPABILITIES"

definition capability_of_json :: "json \<Rightarrow> capability option" where
  "capability_of_json v = find (\<lambda>c. JString (capability_text c) = v) STEP_CAPABILITIES"

definition read_scope_capabilities :: "json \<Rightarrow> string \<Rightarrow> capability list reading" where
  "read_scope_capabilities v path = (case v of
       JUndefined \<Rightarrow> ([ReadRepository], [])
     | JArray items \<Rightarrow>
         (let unknown = concat (map_indexed (\<lambda>index entry.
                case capability_of_json entry of
                  Some _ \<Rightarrow> []
                | None \<Rightarrow> [issue_at ''unknown_capability'' (at_index path index)
                    (at_index path index @ '' must be one of '' @
                     join '', '' (map capability_text STEP_CAPABILITIES))]) items);
              cs = List.map_filter capability_of_json items
          in (envelope_ordered cs,
              unknown @
              (if set_size cs \<noteq> length cs then
                 [issue_at ''duplicate_capability'' path (path @ '' must not contain duplicates'')] else []) @
              (if cs \<noteq> [] \<and> ReadRepository \<notin> set cs then
                 [issue_at ''missing_read_capability'' path
                    (path @ '' must include read-repository whenever any capability is granted'')] else [])))
     | _ \<Rightarrow> ([], [issue_at ''capability_array'' path (path @ '' must be an array'')]))"

definition empty_scope :: mutation_scope where
  "empty_scope = \<lparr>scope_capabilities = [], scope_allowed = [], scope_forbidden = []\<rparr>"

definition read_scope_paths :: "json \<Rightarrow> string \<Rightarrow> string list reading" where
  "read_scope_paths v path = (if v = JUndefined then ([], []) else read_safe_repository_paths v path)"

definition cancelled_path_issues :: "string list \<Rightarrow> string list \<Rightarrow> string \<Rightarrow> issue list" where
  "cancelled_path_issues allowed forbidden apath =
     concat (map_indexed (\<lambda>index a.
       if path_is_allowed a forbidden then
         [issue_at ''cancelled_path'' (at_index apath index)
            (at_index apath index @ '' is entirely withheld by forbiddenPaths'')] else []) allowed)"

definition scope_issues :: "capability list \<Rightarrow> string list \<Rightarrow> string list \<Rightarrow> string \<Rightarrow> issue list" where
  "scope_issues cs allowed forbidden path =
     (let apath = at_field path ''allowedPaths''; mutates = MutateRepository \<in> set cs in
      (if mutates \<and> allowed = [] then
         [issue_at ''missing_allowed_paths'' apath
            (apath @ '' must name at least one path when mutate-repository is granted'')] else []) @
      (if \<not> mutates \<and> allowed \<noteq> [] then
         [issue_at ''unusable_allowed_paths'' apath
            (apath @ '' requires the mutate-repository capability'')] else []) @
      cancelled_path_issues allowed forbidden apath)"

definition read_mutation_scope :: "json \<Rightarrow> string \<Rightarrow> mutation_scope reading" where
  "read_mutation_scope v path =
     (if v \<noteq> JUndefined \<and> \<not> is_record v then
        (empty_scope, [issue_at ''mutation_object'' path (path @ '' must be an object'')])
      else
        let ob = fields_of v;
            cs = read_scope_capabilities (get_prop ob ''capabilities'') (at_field path ''capabilities'');
            allowed = read_scope_paths (get_prop ob ''allowedPaths'') (at_field path ''allowedPaths'');
            forbidden = read_scope_paths (get_prop ob ''forbiddenPaths'') (at_field path ''forbiddenPaths'')
        in (\<lparr>scope_capabilities = fst cs, scope_allowed = fst allowed, scope_forbidden = fst forbidden\<rparr>,
            reject_unknown_keys ob [''capabilities'', ''allowedPaths'', ''forbiddenPaths''] path @
            snd cs @ snd allowed @ snd forbidden @
            scope_issues (fst cs) (fst allowed) (fst forbidden) path))"

definition read_repository :: "envelope_source \<Rightarrow> json \<Rightarrow> string \<Rightarrow> envelope_repository reading" where
  "read_repository source entry path =
     (if \<not> is_record entry then
        (\<lparr>repository_root = [], repository_mutation = empty_scope\<rparr>,
         [issue_at ''repository_object'' path (path @ '' must be an object'')])
      else
        let ob = fields_of entry;
            dir = read_repository_root (get_prop ob ''root'') (at_field path ''root'') source;
            scope = read_mutation_scope (get_prop ob ''mutation'') (at_field path ''mutation'')
        in (\<lparr>repository_root = fst dir, repository_mutation = fst scope\<rparr>,
            reject_unknown_keys ob [''root'', ''mutation''] path @ snd dir @ snd scope))"

definition repository_list_issues :: "envelope_repository list \<Rightarrow> string \<Rightarrow> issue list" where
  "repository_list_issues rs path =
     (if set_size (map repository_root rs) \<noteq> length rs then
        [issue_at ''duplicate_repository'' path (path @ '' must not name a repository twice'')] else []) @
     (if 1 < length rs then
        [issue_at ''unsupported_repository_count'' path
          (path @ '' may name only one repository; adding another is an escalation this orchestrator cannot yet satisfy'')]
      else [])"

definition read_repositories :: "json \<Rightarrow> string \<Rightarrow> envelope_source \<Rightarrow> envelope_repository list reading" where
  "read_repositories v path source = (case v of
       JArray (x # xs) \<Rightarrow>
         (let rs = collect_readings (map_indexed (\<lambda>index entry.
                read_repository source entry (at_index path index)) (x # xs))
          in (fst rs, snd rs @ repository_list_issues (fst rs) path))
     | _ \<Rightarrow> ([], [issue_at ''required_repositories'' path (path @ '' must name at least one repository'')]))"

definition sandbox_of_json :: "json \<Rightarrow> validation_sandbox option" where
  "sandbox_of_json v =
     (if v = JString ''none'' then Some NoSandbox else if v = JString ''nono'' then Some Nono else None)"

definition read_sandbox :: "json \<Rightarrow> string \<Rightarrow> validation_sandbox reading" where
  "read_sandbox v path =
     (if \<not> is_record v then (NoSandbox, [issue_at ''sandbox_object'' path (path @ '' must be an object'')])
      else
        let ob = fields_of v; wpath = at_field path ''workers''; vpath = at_field path ''validation'';
            before = reject_unknown_keys ob [''workers'', ''validation''] path @
              (if get_prop ob ''workers'' \<noteq> JUndefined \<and> get_prop ob ''workers'' \<noteq> JString ''worktree-only'' then
                 [issue_at ''worker_isolation'' wpath (wpath @ '' must be worktree-only'')] else [])
        in case sandbox_of_json (get_prop ob ''validation'') of
             None \<Rightarrow> (NoSandbox, before @
               [issue_at ''validation_sandbox'' vpath (vpath @ '' must be either none or nono'')])
           | Some mode \<Rightarrow> (mode, before))"

definition read_required_command :: "json \<Rightarrow> string \<Rightarrow> validation_command reading" where
  "read_required_command item path =
     (let r = read_command_object item path in
      (fst r,
       (if is_record item then reject_unknown_keys (fields_of item) [''command'', ''args''] path else []) @
       snd r))"

definition read_required_commands :: "json \<Rightarrow> string \<Rightarrow> validation_command list reading" where
  "read_required_commands v path = (case v of
       JUndefined \<Rightarrow> ([], [])
     | JArray items \<Rightarrow>
         collect_readings (map_indexed (\<lambda>index item. read_required_command item (at_index path index)) items)
     | _ \<Rightarrow> ([], [issue_at ''command_array'' path (path @ '' must be an array of command objects'')]))"

text \<open>The pair of \<open>required\<close> and \<open>perChange\<close>.\<close>

definition read_validation_expectations ::
    "json \<Rightarrow> string \<Rightarrow> (validation_command list \<times> bool) reading" where
  "read_validation_expectations v path =
     (if \<not> is_record v then
        (([], True), [issue_at ''validation_object'' path (path @ '' must be an object'')])
      else
        let ob = fields_of v; per = get_prop ob ''perChange''; ppath = at_field path ''perChange'';
            required = read_required_commands (get_prop ob ''required'') (at_field path ''required'')
        in ((fst required, per \<noteq> JBool False),
            reject_unknown_keys ob [''required'', ''perChange''] path @ snd required @
            (case per of
               JUndefined \<Rightarrow> []
             | JBool _ \<Rightarrow> []
             | _ \<Rightarrow> [issue_at ''per_change_flag'' ppath (ppath @ '' must be a boolean'')])))"

definition reserved_json :: "json list" where
  "reserved_json = map (JString \<circ> condition_text) RESERVED_ESCALATION_CONDITIONS"

definition escalation_issues :: "json list \<Rightarrow> string \<Rightarrow> issue list" where
  "escalation_issues declared path =
     (let missing = filter (\<lambda>c. JString (condition_text c) \<notin> set declared) RESERVED_ESCALATION_CONDITIONS in
      concat (map_indexed (\<lambda>index entry.
        if entry \<in> set reserved_json then []
        else [issue_at ''unknown_escalation'' (at_index path index)
          (at_index path index @ '' must be one of '' @
           join '', '' (map condition_text RESERVED_ESCALATION_CONDITIONS))]) declared) @
      (if missing \<noteq> [] then
         [issue_at ''missing_escalation'' path
            (path @ '' must reserve every condition, and omits '' @ join '', '' (map condition_text missing))]
       else []))"

text \<open>The declared conditions are always the reserved ones; the reader returns the further decisions.\<close>

definition read_escalation :: "json \<Rightarrow> string \<Rightarrow> string list reading" where
  "read_escalation v path =
     (if v \<noteq> JUndefined \<and> \<not> is_record v then
        ([], [issue_at ''escalation_object'' path (path @ '' must be an object'')])
      else
        let ob = fields_of v; cpath = at_field path ''conditions'';
            reserved = (if get_prop ob ''reservedDecisions'' = JUndefined then ([], [])
              else read_unique_strings (get_prop ob ''reservedDecisions'') (at_field path ''reservedDecisions''));
            before = reject_unknown_keys ob [''conditions'', ''reservedDecisions''] path @ snd reserved
        in case get_prop ob ''conditions'' of
             JUndefined \<Rightarrow> (fst reserved, before)
           | JArray declared \<Rightarrow> (fst reserved, before @ escalation_issues declared cpath)
           | _ \<Rightarrow> (fst reserved, before @
               [issue_at ''escalation_array'' cpath (cpath @ '' must be an array'')]))"

subsection \<open>Normalising an envelope\<close>

definition ENVELOPE_FIELDS :: "string list" where
  "ENVELOPE_FIELDS = [''version'', ''outcome'', ''acceptanceCriteria'', ''repositories'', ''forbiddenActions'',
     ''externalEffects'', ''sandbox'', ''validation'', ''escalation'']"

definition envelope_mutates :: "envelope_repository list \<Rightarrow> bool" where
  "envelope_mutates rs =
     list_ex (\<lambda>r. MutateRepository \<in> set (scope_capabilities (repository_mutation r))) rs"

definition external_effect_issues :: "json \<Rightarrow> issue list" where
  "external_effect_issues v =
     (if v \<noteq> JUndefined \<and> v \<noteq> JString ''forbidden'' then
        [issue_at ''external_effects'' ''externalEffects''
           (''externalEffects must be forbidden. '' @ EXTERNAL_EFFECT_BOUNDARY)] else [])"

definition read_forbidden_actions :: "json \<Rightarrow> string list reading" where
  "read_forbidden_actions v =
     (if v = JUndefined then ([], []) else read_unique_strings v ''forbiddenActions'')"

definition promise_issues :: "envelope_source \<Rightarrow> bool \<Rightarrow> validation_command list \<Rightarrow> issue list" where
  "promise_issues source mutates required =
     (if source = Authored \<and> mutates \<and> required = [] then
        [issue_at ''required_commands'' ''validation.required''
           ''validation.required must be a non-empty array of command objects when mutate-repository is granted'']
      else [])"

definition envelope_issues ::
    "envelope_source \<Rightarrow> json obj \<Rightarrow> string reading \<Rightarrow> string list reading \<Rightarrow> envelope_repository list reading \<Rightarrow>
     string list reading \<Rightarrow> validation_sandbox reading \<Rightarrow> (validation_command list \<times> bool) reading \<Rightarrow>
     string list reading \<Rightarrow> issue list" where
  "envelope_issues source ob outcome criteria repositories forbidden sandbox validation escalation =
     reject_unknown_keys ob ENVELOPE_FIELDS [] @
     (if get_prop ob ''version'' \<noteq> JNum (of_int AUTHORITY_ENVELOPE_SCHEMA_VERSION) then
        [issue_at ''unsupported_envelope_version'' ''version'' ''version must be 1''] else []) @
     snd outcome @ snd criteria @ snd repositories @ snd forbidden @
     external_effect_issues (get_prop ob ''externalEffects'') @
     snd sandbox @ snd validation @ snd escalation @
     promise_issues source (envelope_mutates (fst repositories)) (fst (fst validation))"

definition normalize_authority_envelope :: "json \<Rightarrow> envelope_source \<Rightarrow> authority_envelope result" where
  "normalize_authority_envelope v source =
     (if \<not> is_record v then
        Inl (EnvelopeValidationError [issue_at ''envelope_object'' ''envelope'' ''envelope must be an object''])
      else
        let ob = fields_of v;
            outcome = read_non_empty_string (get_prop ob ''outcome'') ''outcome'';
            criteria = read_unique_strings (get_prop ob ''acceptanceCriteria'') ''acceptanceCriteria'';
            repositories = read_repositories (get_prop ob ''repositories'') ''repositories'' source;
            forbidden = read_forbidden_actions (get_prop ob ''forbiddenActions'');
            sandbox = read_sandbox (get_prop ob ''sandbox'') ''sandbox'';
            validation = read_validation_expectations (get_prop ob ''validation'') ''validation'';
            escalation = read_escalation (get_prop ob ''escalation'') ''escalation'';
            issues = envelope_issues source ob outcome criteria repositories forbidden sandbox validation
              escalation
        in if issues \<noteq> [] then Inl (EnvelopeValidationError issues)
           else Inr \<lparr>envelope_outcome = fst outcome, envelope_criteria = fst criteria,
                      envelope_repositories = fst repositories,
                      envelope_forbidden_actions = fst forbidden,
                      envelope_sandbox = fst sandbox,
                      envelope_required = fst (fst validation),
                      envelope_per_change = snd (fst validation),
                      envelope_conditions = RESERVED_ESCALATION_CONDITIONS,
                      envelope_reserved = fst escalation\<rparr>)"

definition validate_authority_envelope :: "json \<Rightarrow> authority_envelope result" where
  "validate_authority_envelope v = normalize_authority_envelope v Authored"

definition envelope_repository_for :: "authority_envelope \<Rightarrow> string \<Rightarrow> envelope_repository option" where
  "envelope_repository_for e dir = find (\<lambda>r. repository_root r = dir) (envelope_repositories e)"

definition envelope_allows_mutation :: "mutation_scope \<Rightarrow> string \<Rightarrow> bool" where
  "envelope_allows_mutation scope path \<longleftrightarrow>
     MutateRepository \<in> set (scope_capabilities scope) \<and>
     path_is_allowed path (scope_allowed scope) \<and>
     \<not> path_is_allowed path (scope_forbidden scope)"

subsection \<open>Accepted envelopes\<close>

definition wf_scope :: "mutation_scope \<Rightarrow> bool" where
  "wf_scope sc \<longleftrightarrow>
     scope_capabilities sc = envelope_ordered (scope_capabilities sc) \<and>
     (scope_capabilities sc \<noteq> [] \<longrightarrow> ReadRepository \<in> set (scope_capabilities sc)) \<and>
     safe_paths (scope_allowed sc) \<and> safe_paths (scope_forbidden sc) \<and>
     (MutateRepository \<in> set (scope_capabilities sc) \<longleftrightarrow> scope_allowed sc \<noteq> []) \<and>
     (\<forall>a\<in>set (scope_allowed sc). \<not> path_is_allowed a (scope_forbidden sc))"

definition wf_root :: "envelope_source \<Rightarrow> string \<Rightarrow> bool" where
  "wf_root source dir \<longleftrightarrow> dir \<noteq> [] \<and>
     (source = Authored \<longrightarrow> trimmed dir \<and> starts_with dir ''/'' \<and> \<not> has_substring dir [CHR 0x00] \<and>
        canonical_root dir = dir)"

definition wf_unique :: "string list \<Rightarrow> bool" where
  "wf_unique xs \<longleftrightarrow> list_all clean_string xs \<and> distinct xs"

definition wf_envelope :: "envelope_source \<Rightarrow> authority_envelope \<Rightarrow> bool" where
  "wf_envelope source e \<longleftrightarrow> clean_string (envelope_outcome e) \<and> wf_unique (envelope_criteria e) \<and>
     (\<exists>r. envelope_repositories e = [r] \<and> wf_root source (repository_root r) \<and> wf_scope (repository_mutation r)) \<and>
     wf_unique (envelope_forbidden_actions e) \<and> list_all wf_command (envelope_required e) \<and>
     envelope_conditions e = RESERVED_ESCALATION_CONDITIONS \<and> wf_unique (envelope_reserved e) \<and>
     (source = Authored \<and> envelope_mutates (envelope_repositories e) \<longrightarrow> envelope_required e \<noteq> [])"

lemma set_envelope_ordered [simp]: "set (envelope_ordered cs) = set cs \<inter> set STEP_CAPABILITIES"
  by (auto simp: envelope_ordered_def)

lemma envelope_ordered_cong: "set cs = set ds \<Longrightarrow> envelope_ordered cs = envelope_ordered ds"
  by (simp add: envelope_ordered_def)

lemma envelope_ordered_idem [simp]: "envelope_ordered (envelope_ordered cs) = envelope_ordered cs"
  by (auto simp: envelope_ordered_def intro!: filter_cong)

lemma distinct_envelope_ordered [simp]: "distinct (envelope_ordered cs)"
  by (simp add: envelope_ordered_def STEP_CAPABILITIES_def)

lemma read_unique_strings_ok:
  "snd (read_unique_strings v path) = [] \<Longrightarrow> wf_unique (fst (read_unique_strings v path))"
  using read_string_array_ok[of v path]
  by (auto simp: read_unique_strings_def wf_unique_def set_size_distinct Let_def split: if_splits)

lemma read_unique_strings_json:
  "wf_unique xs \<Longrightarrow> read_unique_strings (string_array_json xs) path = (xs, [])"
  by (simp add: read_unique_strings_def wf_unique_def set_size_distinct read_string_array_json)

lemma capability_of_json_Some:
  "capability_of_json v = Some c \<Longrightarrow> c \<in> set STEP_CAPABILITIES \<and> v = JString (capability_text c)"
  by (auto simp: capability_of_json_def dest!: find_SomeD)

lemma read_scope_capabilities_ok:
  assumes "snd (read_scope_capabilities v path) = []"
  shows "fst (read_scope_capabilities v path) = envelope_ordered (fst (read_scope_capabilities v path)) \<and>
    (fst (read_scope_capabilities v path) \<noteq> [] \<longrightarrow> ReadRepository \<in> set (fst (read_scope_capabilities v path)))"
proof (cases v)
  case (JArray items)
  let ?cs = "List.map_filter capability_of_json items"
  have "?cs \<noteq> [] \<longrightarrow> ReadRepository \<in> set ?cs"
    using assms by (auto simp: JArray read_scope_capabilities_def Let_def split: if_splits)
  moreover have "fst (read_scope_capabilities v path) = envelope_ordered ?cs"
    by (simp add: JArray read_scope_capabilities_def Let_def)
  moreover have "envelope_ordered ?cs \<noteq> [] \<Longrightarrow> ?cs \<noteq> []" by (auto simp: envelope_ordered_def filter_empty_conv)
  ultimately show ?thesis by (auto simp: STEP_CAPABILITIES_def)
qed (use assms in \<open>auto simp: read_scope_capabilities_def envelope_ordered_def STEP_CAPABILITIES_def\<close>)

lemma read_scope_paths_ok:
  "snd (read_scope_paths v path) = [] \<Longrightarrow> safe_paths (fst (read_scope_paths v path))"
  by (cases "v = JUndefined") (simp_all add: read_scope_paths_def read_safe_repository_paths_ok,
    simp add: safe_paths_def)

lemma scope_issues_Nil:
  "scope_issues cs allowed forbidden path = [] \<longleftrightarrow>
     (MutateRepository \<in> set cs \<longleftrightarrow> allowed \<noteq> []) \<and> (\<forall>a\<in>set allowed. \<not> path_is_allowed a forbidden)"
proof -
  have "cancelled_path_issues allowed forbidden p = [] \<longleftrightarrow>
      (\<forall>a\<in>set allowed. \<not> path_is_allowed a forbidden)" for p
    unfolding cancelled_path_issues_def by (rule concat_map_indexed_all) simp
  then show ?thesis by (auto simp: scope_issues_def Let_def)
qed

lemma read_mutation_scope_ok:
  assumes "snd (read_mutation_scope v path) = []"
  shows "wf_scope (fst (read_mutation_scope v path))"
proof -
  have guard: "\<not> (v \<noteq> JUndefined \<and> \<not> is_record v)"
    using assms by (auto simp: read_mutation_scope_def split: if_splits)
  show ?thesis
    using assms read_scope_capabilities_ok
    unfolding read_mutation_scope_def if_not_P[OF guard] Let_def
    by (simp add: wf_scope_def scope_issues_Nil read_scope_paths_ok)
qed

lemma read_repository_root_ok:
  "snd (read_repository_root v path source) = [] \<Longrightarrow> wf_root source (fst (read_repository_root v path source))"
  using read_non_empty_string_ok[of v path]
  by (cases source; cases v)
     (auto simp: read_repository_root_def wf_root_def clean_string_def Let_def split: if_splits list.splits)

lemma read_repositories_ok:
  assumes "snd (read_repositories v path source) = []"
  shows "\<exists>r. fst (read_repositories v path source) = [r] \<and> wf_root source (repository_root r) \<and>
    wf_scope (repository_mutation r)"
proof -
  obtain x xs where v: "v = JArray (x # xs)"
    using assms by (cases v) (auto simp: read_repositories_def split: list.splits)
  let ?f = "\<lambda>index entry. read_repository source entry (at_index path index)"
  define rs where "rs = collect_readings (map_indexed ?f (x # xs))"
  have e: "read_repositories v path source = (fst rs, snd rs @ repository_list_issues (fst rs) path)"
    unfolding v read_repositories_def rs_def by (simp add: Let_def)
  have r: "fst (read_repositories v path source) = fst rs" "snd rs = []" "length (fst rs) \<le> 1"
    using assms unfolding e by (auto simp: repository_list_issues_def split: if_splits)
  have "length (fst rs) = Suc (length xs)" by (simp add: rs_def)
  with r(3) have "xs = []" by simp
  then have fst: "fst rs = [fst (?f 0 x)]" and "snd (?f 0 x) = []"
    using r(2) by (simp_all add: rs_def map_indexed_def)
  then have ok: "snd (read_repository source x (at_index path 0)) = []" by simp
  then have rec: "is_record x" by (auto simp: read_repository_def split: if_splits)
  have "wf_root source (repository_root (fst (?f 0 x))) \<and> wf_scope (repository_mutation (fst (?f 0 x)))"
    using ok rec by (simp add: read_repository_def Let_def read_repository_root_ok read_mutation_scope_ok)
  then show ?thesis using fst r(1) by simp
qed

lemma read_required_commands_ok:
  assumes "snd (read_required_commands v path) = []"
  shows "list_all wf_command (fst (read_required_commands v path))"
proof (cases v)
  case (JArray items)
  have "snd (read_required_command i q) = [] \<Longrightarrow> wf_command (fst (read_required_command i q))" for i q
    by (simp add: read_required_command_def Let_def read_command_object_ok)
  then show ?thesis using assms
    by (simp add: JArray read_required_commands_def collect_readings_ok
        del: fst_collect_readings snd_collect_readings)
qed (use assms in \<open>auto simp: read_required_commands_def\<close>)

lemma read_validation_expectations_ok:
  "snd (read_validation_expectations v path) = [] \<Longrightarrow>
   list_all wf_command (fst (fst (read_validation_expectations v path)))"
  by (auto simp: read_validation_expectations_def Let_def read_required_commands_ok split: if_splits)

lemma read_escalation_ok:
  assumes "snd (read_escalation v path) = []"
  shows "wf_unique (fst (read_escalation v path))"
proof -
  have guard: "\<not> (v \<noteq> JUndefined \<and> \<not> is_record v)"
    using assms by (auto simp: read_escalation_def split: if_splits)
  let ?d = "get_prop (fields_of v) ''reservedDecisions''"
  define r where "r = (if ?d = JUndefined then ([], [])
    else read_unique_strings ?d (at_field path ''reservedDecisions''))"
  have "fst (read_escalation v path) = fst r" "snd r = []"
    using assms unfolding read_escalation_def if_not_P[OF guard] Let_def r_def[symmetric]
    by (auto split: json.splits)
  moreover have "wf_unique (fst r)" if "snd r = []"
    using that by (auto simp: r_def read_unique_strings_ok split: if_splits) (simp add: wf_unique_def)
  ultimately show ?thesis by simp
qed

lemma normalize_authority_envelope_sound:
  assumes "normalize_authority_envelope v source = Inr e"
  shows "wf_envelope source e"
proof -
  have rec: "is_record v" using assms by (auto simp: normalize_authority_envelope_def split: if_splits)
  define ob where "ob = fields_of v"
  define outcome where "outcome = read_non_empty_string (get_prop ob ''outcome'') ''outcome''"
  define criteria where "criteria = read_unique_strings (get_prop ob ''acceptanceCriteria'') ''acceptanceCriteria''"
  define repositories where "repositories = read_repositories (get_prop ob ''repositories'') ''repositories'' source"
  define forbidden where "forbidden = read_forbidden_actions (get_prop ob ''forbiddenActions'')"
  define validation where "validation = read_validation_expectations (get_prop ob ''validation'') ''validation''"
  define escalation where "escalation = read_escalation (get_prop ob ''escalation'') ''escalation''"
  define sandbox where "sandbox = read_sandbox (get_prop ob ''sandbox'') ''sandbox''"
  have none: "envelope_issues source ob outcome criteria repositories forbidden sandbox validation escalation = []"
    and e: "envelope_outcome e = fst outcome" "envelope_criteria e = fst criteria"
      "envelope_repositories e = fst repositories" "envelope_forbidden_actions e = fst forbidden"
      "envelope_required e = fst (fst validation)" "envelope_reserved e = fst escalation"
      "envelope_conditions e = RESERVED_ESCALATION_CONDITIONS"
    using assms rec
    unfolding normalize_authority_envelope_def Let_def ob_def outcome_def criteria_def repositories_def
      forbidden_def validation_def escalation_def sandbox_def
    by (auto split: if_splits)
  then have nil: "snd outcome = []" "snd criteria = []" "snd repositories = []" "snd forbidden = []"
      "snd validation = []" "snd escalation = []"
      "promise_issues source (envelope_mutates (fst repositories)) (fst (fst validation)) = []"
    by (simp_all add: envelope_issues_def)
  have "wf_unique (fst forbidden)"
    using nil(4) by (auto simp: forbidden_def read_forbidden_actions_def read_unique_strings_ok
        split: if_splits) (simp add: wf_unique_def)
  moreover have "clean_string (fst outcome)" "wf_unique (fst criteria)" "wf_unique (fst escalation)"
    "list_all wf_command (fst (fst validation))"
    using nil by (simp_all add: outcome_def criteria_def escalation_def validation_def
        read_non_empty_string_ok read_unique_strings_ok read_escalation_ok read_validation_expectations_ok)
  moreover have "\<exists>r. fst repositories = [r] \<and> wf_root source (repository_root r) \<and> wf_scope (repository_mutation r)"
    using nil(3) unfolding repositories_def by (rule read_repositories_ok)
  moreover have "source = Authored \<and> envelope_mutates (fst repositories) \<longrightarrow> fst (fst validation) \<noteq> []"
    using nil(7) by (auto simp: promise_issues_def split: if_splits)
  ultimately show ?thesis unfolding wf_envelope_def e by blast
qed

subsection \<open>The envelope a plan implies\<close>

definition effective_step_capabilities :: "step_definition \<Rightarrow> run_profiles option \<Rightarrow> capability list" where
  "effective_step_capabilities s profiles = (case profiles of
       Some ps \<Rightarrow> profile_capabilities (step_capability_profile ps s)
     | None \<Rightarrow> step_capabilities s)"

definition step_criteria :: "step_definition \<Rightarrow> string list" where
  "step_criteria s = (case step_body s of ChangeBody cs _ _ \<Rightarrow> cs | _ \<Rightarrow> [])"

definition mutable_paths :: "step_definition \<Rightarrow> run_profiles option \<Rightarrow> string list" where
  "mutable_paths s profiles =
     (if step_kind_of s = Change \<and> MutateRepository \<in> set (effective_step_capabilities s profiles)
      then step_allowed_paths s else [])"

definition sandbox_text :: "validation_sandbox \<Rightarrow> string" where
  "sandbox_text m = (case m of NoSandbox \<Rightarrow> ''none'' | Nono \<Rightarrow> ''nono'')"

definition derived_capabilities :: "workflow_plan \<Rightarrow> run_profiles option \<Rightarrow> capability list" where
  "derived_capabilities p profiles =
     envelope_ordered (concat (map (\<lambda>s. effective_step_capabilities s profiles) (plan_steps p)))"

definition derived_paths :: "workflow_plan \<Rightarrow> run_profiles option \<Rightarrow> string list" where
  "derived_paths p profiles = unique (concat (map (\<lambda>s. mutable_paths s profiles) (plan_steps p)))"

definition derived_document :: "string \<Rightarrow> workflow_plan \<Rightarrow> run_profiles option \<Rightarrow> validation_sandbox \<Rightarrow> json" where
  "derived_document dir p profiles sandbox =
     (let cs = derived_capabilities p profiles in
      JObject
       [(''version'', JNum (of_int AUTHORITY_ENVELOPE_SCHEMA_VERSION)),
        (''outcome'', JString (plan_title p)),
        (''acceptanceCriteria'', string_array_json (unique (concat (map step_criteria (plan_steps p))))),
        (''repositories'', JArray [JObject
           [(''root'', JString dir),
            (''mutation'', JObject
              [(''capabilities'', string_array_json (map capability_text cs)),
               (''allowedPaths'', string_array_json
                  (if MutateRepository \<in> set cs then derived_paths p profiles else [])),
               (''forbiddenPaths'', string_array_json [])])]]),
        (''externalEffects'', JString ''forbidden''),
        (''sandbox'', JObject [(''workers'', JString ''worktree-only''), (''validation'', JString (sandbox_text sandbox))]),
        (''validation'', JObject
           [(''required'', JArray (map command_json (plan_final p))), (''perChange'', JBool True)])])"

definition derive_authority_envelope ::
    "string \<Rightarrow> json \<Rightarrow> run_profiles option \<Rightarrow> validation_sandbox \<Rightarrow> authority_envelope result" where
  "derive_authority_envelope dir plan profiles sandbox =
     and_then (read_workflow_plan_document plan)
       (\<lambda>p. normalize_authority_envelope (derived_document dir p profiles sandbox) Derived)"

definition derived_envelope ::
    "string \<Rightarrow> workflow_plan \<Rightarrow> run_profiles option \<Rightarrow> validation_sandbox \<Rightarrow> authority_envelope" where
  "derived_envelope dir p profiles sandbox =
     \<lparr>envelope_outcome = plan_title p,
      envelope_criteria = unique (concat (map step_criteria (plan_steps p))),
      envelope_repositories = [\<lparr>repository_root = dir, repository_mutation =
        \<lparr>scope_capabilities = derived_capabilities p profiles,
         scope_allowed = derived_paths p profiles, scope_forbidden = []\<rparr>\<rparr>],
      envelope_forbidden_actions = [], envelope_sandbox = sandbox,
      envelope_required = plan_final p, envelope_per_change = True,
      envelope_conditions = RESERVED_ESCALATION_CONDITIONS, envelope_reserved = []\<rparr>"

subsection \<open>Identity of an envelope\<close>

definition repository_json :: "envelope_repository \<Rightarrow> json" where
  "repository_json r = JObject
     [(''root'', JString (repository_root r)),
      (''mutation'', JObject
        [(''capabilities'', string_array_json (map capability_text (scope_capabilities (repository_mutation r)))),
         (''allowedPaths'', string_array_json (scope_allowed (repository_mutation r))),
         (''forbiddenPaths'', string_array_json (scope_forbidden (repository_mutation r)))])]"

definition envelope_json :: "authority_envelope \<Rightarrow> json" where
  "envelope_json e = JObject
     [(''version'', JNum (of_int AUTHORITY_ENVELOPE_SCHEMA_VERSION)),
      (''outcome'', JString (envelope_outcome e)),
      (''acceptanceCriteria'', string_array_json (envelope_criteria e)),
      (''repositories'', JArray (map repository_json (envelope_repositories e))),
      (''forbiddenActions'', string_array_json (envelope_forbidden_actions e)),
      (''externalEffects'', JString ''forbidden''),
      (''sandbox'', JObject [(''workers'', JString ''worktree-only''),
                             (''validation'', JString (sandbox_text (envelope_sandbox e)))]),
      (''validation'', JObject [(''required'', JArray (map command_json (envelope_required e))),
                                (''perChange'', JBool (envelope_per_change e))]),
      (''escalation'', JObject [(''conditions'', JArray reserved_json),
                                (''reservedDecisions'', string_array_json (envelope_reserved e))])]"

text \<open>\<open>Object.keys(value).sort()\<close>: by code units.\<close>

definition key_order :: "string \<Rightarrow> nat list" where
  "key_order k = map of_char k"

fun nat_list_less :: "nat list \<Rightarrow> nat list \<Rightarrow> bool" where
  "nat_list_less xs [] = False"
| "nat_list_less [] (y # ys) = True"
| "nat_list_less (x # xs) (y # ys) = (x < y \<or> x = y \<and> nat_list_less xs ys)"

fun insert_field :: "string \<times> json \<Rightarrow> json obj \<Rightarrow> json obj" where
  "insert_field f [] = [f]"
| "insert_field f (g # fs) =
     (if nat_list_less (key_order (fst g)) (key_order (fst f)) then g # insert_field f fs else f # g # fs)"

definition sort_fields :: "json obj \<Rightarrow> json obj" where
  "sort_fields ob = foldr insert_field ob []"

fun canonicalize :: "json \<Rightarrow> json" where
  "canonicalize (JArray xs) = JArray (map canonicalize xs)"
| "canonicalize (JObject ob) = JObject (sort_fields (map (\<lambda>(k, v). (k, canonicalize v)) ob))"
| "canonicalize v = v"

definition authority_envelope_digest :: "(json \<Rightarrow> string) \<Rightarrow> authority_envelope \<Rightarrow> string" where
  "authority_envelope_digest sha256_of_text e = sha256_of_text (canonicalize (envelope_json e))"

subsection \<open>Reading envelopes back\<close>

lemma capability_of_json_text:
  "c \<in> set STEP_CAPABILITIES \<Longrightarrow> capability_of_json (JString (capability_text c)) = Some c"
  by (auto simp: capability_of_json_def STEP_CAPABILITIES_def capability_text_def)

lemma read_scope_capabilities_json:
  assumes "set cs \<subseteq> set STEP_CAPABILITIES" and "distinct cs" and "cs = [] \<or> ReadRepository \<in> set cs"
  shows "read_scope_capabilities (string_array_json (map capability_text cs)) path = (envelope_ordered cs, [])"
proof -
  have "List.map_filter capability_of_json (map (JString \<circ> capability_text) cs) = cs"
    using assms(1) by (induction cs) (auto simp: List.map_filter_simps capability_of_json_text)
  moreover have "capability_of_json (JString (capability_text (cs ! k))) = Some (cs ! k)" if "k < length cs" for k
    using assms(1) that by (intro capability_of_json_text) auto
  ultimately show ?thesis
    using assms(2,3)
    by (auto simp: read_scope_capabilities_def string_array_json_def map_indexed_map set_size_distinct)
qed

lemma read_scope_paths_json:
  "safe_paths ps \<Longrightarrow> read_scope_paths (string_array_json ps) path = (ps, [])"
  by (simp add: read_scope_paths_def read_safe_repository_paths_json)

lemma reject_unknown_keys_Nil: "reject_unknown_keys ob allowed path = [] \<longleftrightarrow> set (obj_keys ob) \<subseteq> set allowed"
  by (auto simp: reject_unknown_keys_def Let_def)

lemma read_mutation_scope_json:
  assumes "wf_scope sc"
  shows "read_mutation_scope (JObject
     [(''capabilities'', string_array_json (map capability_text (scope_capabilities sc))),
      (''allowedPaths'', string_array_json (scope_allowed sc)),
      (''forbiddenPaths'', string_array_json (scope_forbidden sc))]) path = (sc, [])"
proof -
  let ?cs = "scope_capabilities sc"
  have o: "envelope_ordered ?cs = ?cs" using assms by (simp add: wf_scope_def)
  then have "set ?cs \<subseteq> set STEP_CAPABILITIES" "distinct ?cs"
    by (metis set_envelope_ordered Int_lower2, metis distinct_envelope_ordered)
  then have "read_scope_capabilities (string_array_json (map capability_text ?cs)) q = (?cs, [])" for q
    using assms read_scope_capabilities_json[of ?cs q] o by (auto simp: wf_scope_def)
  moreover have "scope_issues ?cs (scope_allowed sc) (scope_forbidden sc) path = []"
    using assms by (simp add: scope_issues_Nil wf_scope_def)
  moreover have "reject_unknown_keys
      [(''capabilities'', a), (''allowedPaths'', b), (''forbiddenPaths'', c)]
      [''capabilities'', ''allowedPaths'', ''forbiddenPaths''] path = []" for a b c
    by (simp add: reject_unknown_keys_Nil obj_keys_def)
  ultimately show ?thesis
    using assms
    by (simp add: read_mutation_scope_def is_record_def fields_of_def read_scope_paths_json wf_scope_def)
qed

lemma read_repository_root_json: "wf_root source dir \<Longrightarrow> read_repository_root (JString dir) path source = (dir, [])"
  by (cases source; cases dir)
     (auto simp: read_repository_root_def wf_root_def read_non_empty_string_json clean_string_def)

lemma read_repositories_json:
  assumes "wf_root source (repository_root r)" and "wf_scope (repository_mutation r)"
  shows "read_repositories (JArray [repository_json r]) path source = ([r], [])"
proof -
  have "reject_unknown_keys [(''root'', a), (''mutation'', b)] [''root'', ''mutation''] q = []" for a b q
    by (simp add: reject_unknown_keys_Nil obj_keys_def)
  then have "read_repository source (repository_json r) q = (r, [])" for q
    using assms
    by (simp add: read_repository_def repository_json_def is_record_def fields_of_def
        read_repository_root_json read_mutation_scope_json)
  then show ?thesis
    by (simp add: read_repositories_def map_indexed_def collect_readings_def repository_list_issues_def
        set_size_def)
qed

lemma read_required_commands_json:
  assumes "list_all wf_command cs"
  shows "read_required_commands (JArray (map command_json cs)) path = (cs, [])"
proof -
  have "read_required_command (command_json c) q = (c, [])" if "wf_command c" for c q
    using read_command_object_json[OF that]
    by (simp add: read_required_command_def)
       (simp add: command_json_def is_record_def fields_of_def reject_unknown_keys_Nil obj_keys_def)
  then show ?thesis
    using assms by (auto simp: read_required_commands_def list_all_length intro!: collect_readings_json)
qed

lemma read_validation_expectations_json:
  assumes "list_all wf_command cs"
  shows "read_validation_expectations
     (JObject [(''required'', JArray (map command_json cs)), (''perChange'', JBool b)]) path = ((cs, b), [])"
  using read_required_commands_json[OF assms]
  by (simp add: read_validation_expectations_def is_record_def fields_of_def reject_unknown_keys_Nil
      obj_keys_def)

lemma read_sandbox_json:
  "read_sandbox (JObject [(''workers'', JString ''worktree-only''), (''validation'', JString (sandbox_text m))]) path
     = (m, [])"
  by (cases m) (simp_all add: read_sandbox_def is_record_def fields_of_def reject_unknown_keys_Nil
      obj_keys_def sandbox_text_def sandbox_of_json_def)

lemma read_escalation_json:
  assumes "wf_unique ds"
  shows "read_escalation (JObject [(''conditions'', JArray reserved_json),
     (''reservedDecisions'', string_array_json ds)]) path = (ds, [])"
proof -
  have "escalation_issues reserved_json q = []" for q
    by (auto simp: escalation_issues_def reserved_json_def)
  then show ?thesis
    using read_unique_strings_json[OF assms]
    by (simp add: read_escalation_def is_record_def fields_of_def reject_unknown_keys_Nil obj_keys_def)
qed

lemma normalize_envelope_json:
  assumes "wf_envelope source e"
  shows "normalize_authority_envelope (envelope_json e) source = Inr e"
proof -
  obtain r where r: "envelope_repositories e = [r]" "wf_root source (repository_root r)"
    "wf_scope (repository_mutation r)"
    using assms by (auto simp: wf_envelope_def)
  have "reject_unknown_keys (fields_of (envelope_json e)) ENVELOPE_FIELDS [] = []"
    by (simp add: envelope_json_def fields_of_def reject_unknown_keys_Nil obj_keys_def ENVELOPE_FIELDS_def)
  moreover have "promise_issues source (envelope_mutates [r]) (envelope_required e) = []"
    using assms r(1) by (auto simp: promise_issues_def wf_envelope_def)
  moreover have "clean_string (envelope_outcome e)" "wf_unique (envelope_criteria e)"
    "wf_unique (envelope_forbidden_actions e)" "wf_unique (envelope_reserved e)"
    "list_all wf_command (envelope_required e)" "envelope_conditions e = RESERVED_ESCALATION_CONDITIONS"
    using assms by (simp_all add: wf_envelope_def)
  moreover note read_repositories_json[OF r(2,3)]
  ultimately show ?thesis
    unfolding normalize_authority_envelope_def Let_def envelope_issues_def
    by (simp add: envelope_json_def is_record_def fields_of_def r(1) read_non_empty_string_json
        read_unique_strings_json read_forbidden_actions_def read_sandbox_json external_effect_issues_def
        read_validation_expectations_json read_escalation_json)
qed

subsection \<open>The derived envelope\<close>

lemma derived_paths_safe:
  assumes "wf_workflow_plan p"
  shows "safe_paths (derived_paths p profiles)"
proof -
  have "list_all safe_path (mutable_paths s profiles)" if "s \<in> set (plan_steps p)" for s
    using wf_workflow_planD(4)[OF assms that]
    by (auto simp: wf_step_def read_step_ok_def wf_body_def mutable_paths_def step_allowed_paths_def
        safe_paths_def split: step_body.split)
  then show ?thesis by (auto simp: safe_paths_def derived_paths_def list_all_iff)
qed

lemma derived_criteria_unique:
  assumes "wf_workflow_plan p"
  shows "wf_unique (unique (concat (map step_criteria (plan_steps p))))"
proof -
  have "list_all clean_string (step_criteria s)" if "s \<in> set (plan_steps p)" for s
    using wf_workflow_planD(4)[OF assms that]
    by (auto simp: wf_step_def read_step_ok_def wf_body_def step_criteria_def split: step_body.split)
  then show ?thesis by (auto simp: wf_unique_def list_all_iff)
qed

lemma KIND_profile_maxima:
  "name \<in> set (STEP_KIND_PROFILES k) \<Longrightarrow> set (CAPABILITY_PROFILE_MAXIMA name) \<subseteq> set (KIND_CAPABILITIES k)"
  by (cases k) (auto simp: STEP_KIND_PROFILES_def CAPABILITY_PROFILE_MAXIMA_def KIND_CAPABILITIES_def)

lemma step_profile_declared:
  assumes "read_step_ok s"
  shows "set (profile_capabilities (step_capability_profile ps s)) \<subseteq> set (KIND_CAPABILITIES (step_kind_of s))"
proof -
  let ?declared = "case decl_capabilities (step_declared s) of
    Some cs \<Rightarrow> cs | None \<Rightarrow> CAPABILITY_PROFILE_MAXIMA (step_profile_name s)"
  have "set ?declared \<subseteq> set (KIND_CAPABILITIES (step_kind_of s))"
    using assms wf_stepD(2)[OF assms] KIND_profile_maxima
    by (cases "decl_capabilities (step_declared s)") (auto simp: read_step_ok_def wf_declarations_def)
  then show ?thesis
    using narrow_capability_profile_subset(1)[of "ps (step_profile_name s)" ?declared]
    by (auto simp: step_capability_profile_def Let_def)
qed

lemma effective_step_capabilities_kind:
  assumes "read_step_ok s"
  shows "set (effective_step_capabilities s profiles) \<subseteq> set (KIND_CAPABILITIES (step_kind_of s))"
  using step_profile_declared[OF assms] wf_stepD(1)[OF assms]
  by (auto simp: effective_step_capabilities_def split: option.split)

lemma mutates_is_change:
  assumes "read_step_ok s" and "MutateRepository \<in> set (effective_step_capabilities s profiles)"
  shows "step_kind_of s = Change"
  using effective_step_capabilities_kind[OF assms(1), of profiles] assms(2)
  by (cases "step_kind_of s") (auto simp: KIND_CAPABILITIES_def)

lemma set_derived_capabilities:
  "c \<in> set (derived_capabilities p profiles) \<longleftrightarrow>
     c \<in> set STEP_CAPABILITIES \<and> (\<exists>s\<in>set (plan_steps p). c \<in> set (effective_step_capabilities s profiles))"
  by (auto simp: derived_capabilities_def)

lemma set_derived_paths:
  "a \<in> set (derived_paths p profiles) \<longleftrightarrow> (\<exists>s\<in>set (plan_steps p). a \<in> set (mutable_paths s profiles))"
  by (auto simp: derived_paths_def)

lemma derived_mutates:
  assumes "wf_workflow_plan p"
  shows "MutateRepository \<in> set (derived_capabilities p profiles) \<longleftrightarrow> derived_paths p profiles \<noteq> []"
proof
  assume "MutateRepository \<in> set (derived_capabilities p profiles)"
  then obtain s where s: "s \<in> set (plan_steps p)" "MutateRepository \<in> set (effective_step_capabilities s profiles)"
    by (auto simp: set_derived_capabilities)
  have ok: "read_step_ok s" using wf_workflow_planD(4)[OF assms s(1)] by (simp add: wf_step_def)
  have change: "step_kind_of s = Change" using mutates_is_change[OF ok s(2)] .
  then obtain a where "a \<in> set (step_allowed_paths s)"
    using ok by (cases "step_body s"; cases "step_allowed_paths s")
      (auto simp: read_step_ok_def wf_body_def step_allowed_paths_def step_kind_of_def)
  then have "a \<in> set (derived_paths p profiles)"
    using s change by (auto simp: set_derived_paths mutable_paths_def)
  then show "derived_paths p profiles \<noteq> []" by auto
next
  assume "derived_paths p profiles \<noteq> []"
  then obtain a where "a \<in> set (derived_paths p profiles)" by (meson list.set_sel(1))
  then obtain s where "s \<in> set (plan_steps p)" "a \<in> set (mutable_paths s profiles)"
    by (auto simp: set_derived_paths)
  then show "MutateRepository \<in> set (derived_capabilities p profiles)"
    by (auto simp: set_derived_capabilities mutable_paths_def STEP_CAPABILITIES_def split: if_splits)
qed

lemma derived_scope_wf:
  assumes "wf_workflow_plan p"
    and "derived_capabilities p profiles = [] \<or> ReadRepository \<in> set (derived_capabilities p profiles)"
  shows "wf_scope \<lparr>scope_capabilities = derived_capabilities p profiles,
    scope_allowed = derived_paths p profiles, scope_forbidden = []\<rparr>"
proof -
  have "envelope_ordered (derived_capabilities p profiles) = derived_capabilities p profiles"
    by (simp add: derived_capabilities_def)
  moreover have "\<not> path_is_allowed a []" for a by (simp add: path_is_allowed_def)
  ultimately show ?thesis
    using assms(2) derived_paths_safe[OF assms(1), of profiles] derived_mutates[OF assms(1), of profiles]
    by (auto simp: wf_scope_def safe_paths_def)
qed

lemma derived_envelope_wf:
  assumes "wf_workflow_plan p" and "dir \<noteq> []"
    and "derived_capabilities p profiles = [] \<or> ReadRepository \<in> set (derived_capabilities p profiles)"
  shows "wf_envelope Derived (derived_envelope dir p profiles sandbox)"
  using assms derived_scope_wf[OF assms(1,3)] derived_criteria_unique[OF assms(1)]
  by (simp add: wf_envelope_def derived_envelope_def wf_root_def wf_unique_def wf_workflow_plan_def)

lemma normalize_derived_document:
  assumes "wf_workflow_plan p" and "dir \<noteq> []"
    and "derived_capabilities p profiles = [] \<or> ReadRepository \<in> set (derived_capabilities p profiles)"
  shows "normalize_authority_envelope (derived_document dir p profiles sandbox) Derived =
    Inr (derived_envelope dir p profiles sandbox)"
proof -
  let ?r = "\<lparr>repository_root = dir, repository_mutation =
        \<lparr>scope_capabilities = derived_capabilities p profiles,
         scope_allowed = derived_paths p profiles, scope_forbidden = []\<rparr>\<rparr>"
  have "(if MutateRepository \<in> set (derived_capabilities p profiles) then derived_paths p profiles else []) =
      derived_paths p profiles"
    using derived_mutates[OF assms(1), of profiles] by auto
  then have doc: "fields_of (derived_document dir p profiles sandbox) =
       [(''version'', JNum (of_int AUTHORITY_ENVELOPE_SCHEMA_VERSION)),
        (''outcome'', JString (plan_title p)),
        (''acceptanceCriteria'', string_array_json (unique (concat (map step_criteria (plan_steps p))))),
        (''repositories'', JArray [repository_json ?r]),
        (''externalEffects'', JString ''forbidden''),
        (''sandbox'', JObject [(''workers'', JString ''worktree-only''), (''validation'', JString (sandbox_text sandbox))]),
        (''validation'', JObject
           [(''required'', JArray (map command_json (plan_final p))), (''perChange'', JBool True)])]"
    and rec: "is_record (derived_document dir p profiles sandbox)"
    by (simp_all add: derived_document_def Let_def fields_of_def is_record_def repository_json_def)
  have "read_repositories (JArray [repository_json ?r]) path Derived = ([?r], [])" for path
    by (rule read_repositories_json) (use assms(2) derived_scope_wf[OF assms(1,3)] in \<open>simp_all add: wf_root_def\<close>)
  moreover have "clean_string (plan_title p)" "list_all wf_command (plan_final p)"
    using assms(1) by (simp_all add: wf_workflow_plan_def)
  moreover note derived_criteria_unique[OF assms(1)]
  ultimately show ?thesis
    unfolding normalize_authority_envelope_def Let_def envelope_issues_def doc
    by (simp add: rec read_non_empty_string_json read_unique_strings_json read_forbidden_actions_def
        read_sandbox_json external_effect_issues_def read_validation_expectations_json read_escalation_def
        reject_unknown_keys_Nil obj_keys_def ENVELOPE_FIELDS_def promise_issues_def derived_envelope_def
        fields_of_def)
qed

lemma derive_authority_envelope_ok:
  assumes "read_workflow_plan_document v = Inr p" and "dir \<noteq> []"
    and "derived_capabilities p profiles = [] \<or> ReadRepository \<in> set (derived_capabilities p profiles)"
  shows "derive_authority_envelope dir v profiles sandbox = Inr (derived_envelope dir p profiles sandbox)"
  using assms normalize_derived_document[OF read_workflow_plan_document_sound]
  by (simp add: derive_authority_envelope_def)

text \<open>The rule on \<open>read-repository\<close> is the only one a derived document can break.\<close>

lemma read_repositories_scope_issues:
  assumes "snd (read_mutation_scope m ''repositories[0].mutation'') \<noteq> []"
  shows "snd (read_repositories (JArray [JObject [(''root'', r), (''mutation'', m)]]) ''repositories'' source) \<noteq> []"
proof -
  have "at_field (at_index ''repositories'' 0) ''mutation'' = ''repositories[0].mutation''"
    by (simp add: at_field_def at_index_def js_nat.simps)
  then show ?thesis
    using assms by (simp add: read_repositories_def map_indexed_def read_repository_def is_record_def
        fields_of_def Let_def)
qed

lemma read_scope_capabilities_missing:
  assumes "cs \<noteq> []" and "ReadRepository \<notin> set cs" and "set cs \<subseteq> set STEP_CAPABILITIES"
  shows "snd (read_scope_capabilities (string_array_json (map capability_text cs)) path) \<noteq> []"
proof -
  have "List.map_filter capability_of_json (map (JString \<circ> capability_text) cs) = cs"
    using assms(3) by (induction cs) (auto simp: List.map_filter_simps capability_of_json_text)
  then show ?thesis using assms(1,2)
    by (simp add: read_scope_capabilities_def string_array_json_def)
qed

lemma derive_authority_envelope_refused:
  assumes "read_workflow_plan_document v = Inr p"
    and "derived_capabilities p profiles \<noteq> []" and "ReadRepository \<notin> set (derived_capabilities p profiles)"
  shows "\<exists>issues. derive_authority_envelope dir v profiles sandbox = Inl (EnvelopeValidationError issues)"
proof -
  let ?cs = "derived_capabilities p profiles"
  define m where "m = JObject [(''capabilities'', string_array_json (map capability_text ?cs)),
     (''allowedPaths'', string_array_json (if MutateRepository \<in> set ?cs then derived_paths p profiles else [])),
     (''forbiddenPaths'', string_array_json [])]"
  define ob where "ob = fields_of (derived_document dir p profiles sandbox)"
  have repos: "get_prop ob ''repositories'' = JArray [JObject [(''root'', JString dir), (''mutation'', m)]]"
    and rec: "is_record (derived_document dir p profiles sandbox)"
    by (simp_all add: ob_def derived_document_def Let_def fields_of_def m_def is_record_def)
  have "set ?cs \<subseteq> set STEP_CAPABILITIES" by (simp add: derived_capabilities_def)
  then have "snd (read_mutation_scope m ''repositories[0].mutation'') \<noteq> []"
    using read_scope_capabilities_missing[OF assms(2,3)]
    by (simp add: read_mutation_scope_def m_def is_record_def fields_of_def Let_def)
  then have "snd (read_repositories (get_prop ob ''repositories'') ''repositories'' Derived) \<noteq> []"
    unfolding repos by (rule read_repositories_scope_issues)
  then have "envelope_issues Derived ob a b (read_repositories (get_prop ob ''repositories'') ''repositories'' Derived)
      c d e f \<noteq> []" for a b c d e f
    by (simp add: envelope_issues_def)
  then show ?thesis
    using assms(1) rec
    by (simp add: derive_authority_envelope_def normalize_authority_envelope_def Let_def ob_def)
qed

end
