(* ===== verification/Authority.thy ===== *)
theory Authority
  imports Envelope
begin

text \<open>
  \<open>src/src/security/authority.ts\<close>: the authority one run executes under, frozen from an
  envelope, and the checks that nothing in the run exceeds it. The digest function (SHA-256 of the
  canonical JSON text) is the parameter \<open>sha\<close> of the operations that compare digests.
\<close>

record frozen_authority =
  authority_source :: envelope_source
  authority_digest :: string
  authority_envelope_of :: authority_envelope

datatype worker_isolation = WorktreeOnly

record security_policy =
  policy_version :: int
  policy_isolation :: worker_isolation
  policy_profiles :: "run_profiles option"
  policy_sandbox :: validation_sandbox

subsection \<open>Profiles an envelope approves\<close>

definition repository_not_approved :: "string \<Rightarrow> authority_issue" where
  "repository_not_approved dir =
     \<lparr>authority_code = ''repository_not_approved'', authority_path = ''repositoryRoot'',
      authority_message = ''The approved envelope does not name repository '' @ dir,
      authority_condition = Some AddRepository\<rparr>"

definition require_repository_scope :: "authority_envelope \<Rightarrow> string \<Rightarrow> mutation_scope result" where
  "require_repository_scope e dir = (case envelope_repository_for e dir of
       None \<Rightarrow> Inl (AuthorityViolationError [repository_not_approved dir])
     | Some r \<Rightarrow> Inr (repository_mutation r))"

definition capability_profiles_from_envelope :: "authority_envelope \<Rightarrow> string \<Rightarrow> run_profiles result" where
  "capability_profiles_from_envelope e dir =
     and_then (require_repository_scope e dir) (\<lambda>scope.
       run_profiles_of (\<lambda>name.
         filter (\<lambda>c. c \<in> set (scope_capabilities scope)) (CAPABILITY_PROFILE_MAXIMA name)))"

definition narrowed_profiles :: "mutation_scope \<Rightarrow> run_profiles" where
  "narrowed_profiles scope name =
     profile_granting (filter (\<lambda>c. c \<in> set (scope_capabilities scope)) (CAPABILITY_PROFILE_MAXIMA name))"

lemma capability_profiles_from_envelope_Inr:
  "capability_profiles_from_envelope e dir = Inr ps \<longleftrightarrow>
     (\<exists>r. envelope_repository_for e dir = Some r \<and> ps = narrowed_profiles (repository_mutation r))"
proof -
  have "run_profiles_of (\<lambda>name. filter (\<lambda>c. c \<in> set cs) (CAPABILITY_PROFILE_MAXIMA name)) =
      Inr (\<lambda>name. profile_granting (filter (\<lambda>c. c \<in> set cs) (CAPABILITY_PROFILE_MAXIMA name)))" for cs
    by (rule run_profiles_of_known) (use CAPABILITY_PROFILE_MAXIMA_known in auto)
  moreover have "narrowed_profiles sc = (\<lambda>name. profile_granting
      (filter (\<lambda>c. c \<in> set (scope_capabilities sc)) (CAPABILITY_PROFILE_MAXIMA name)))" for sc
    by (rule ext) (simp add: narrowed_profiles_def)
  ultimately show ?thesis
    by (auto simp: capability_profiles_from_envelope_def require_repository_scope_def split: option.splits)
qed

lemma narrowed_profiles_sound: "sound_profile name (narrowed_profiles scope name)"
  by (auto simp: narrowed_profiles_def intro!: profile_granting_sound)

lemma narrowed_profiles_granted:
  "set (profile_capabilities (narrowed_profiles scope name)) \<subseteq> set (scope_capabilities scope)"
  by (auto simp: narrowed_profiles_def profile_granting_def)

subsection \<open>Plans within an envelope\<close>

definition same_command :: "validation_command \<Rightarrow> validation_command \<Rightarrow> bool" where
  "same_command l r \<longleftrightarrow> command_name l = command_name r \<and>
     length (command_args l) = length (command_args r) \<and>
     list_all (\<lambda>(a, b). a = b) (zip (command_args l) (command_args r))"

lemma same_command_eq: "same_command l r \<longleftrightarrow> l = r"
proof -
  have "length xs = length ys \<Longrightarrow> list_all (\<lambda>(a, b). a = b) (zip xs ys) \<longleftrightarrow> xs = ys" for xs ys :: "string list"
    by (induction xs ys rule: list_induct2) auto
  then show ?thesis by (auto simp: same_command_def)
qed

definition capability_issues :: "nat \<Rightarrow> step_definition \<Rightarrow> capability list \<Rightarrow> authority_issue list" where
  "capability_issues index s granted =
     map (\<lambda>c. \<lparr>authority_code = ''capability_not_approved'',
               authority_path = at_field (at_index ''steps'' index) ''capabilities'',
               authority_message = ''Step '' @ step_id s @ '' declares '' @ capability_text c @
                 '', which the approved envelope does not grant'',
               authority_condition = Some WidenMutationAuthority\<rparr>)
       (filter (\<lambda>c. c \<notin> set granted)
          (case decl_capabilities (step_declared s) of Some cs \<Rightarrow> cs | None \<Rightarrow> []))"

definition path_issue :: "string \<Rightarrow> string \<Rightarrow> string \<Rightarrow> authority_issue" where
  "path_issue code path message =
     \<lparr>authority_code = code, authority_path = path, authority_message = message,
      authority_condition = Some WidenMutationAuthority\<rparr>"

definition path_issues ::
    "nat \<Rightarrow> step_definition \<Rightarrow> mutation_scope \<Rightarrow> run_profiles option \<Rightarrow> authority_issue list" where
  "path_issues index s scope profiles =
     (if step_kind_of s \<noteq> Change \<or> MutateRepository \<notin> set (effective_step_capabilities s profiles) then []
      else concat (map_indexed (\<lambda>k path.
        let ipath = at_index (at_field (at_index ''steps'' index) ''allowedPaths'') k in
        if \<not> path_is_allowed path (scope_allowed scope) then
          [path_issue ''path_not_approved'' ipath
             (''Step '' @ step_id s @ '' would mutate '' @ path @ '', which the approved envelope does not allow'')]
        else if path_is_allowed path (scope_forbidden scope) then
          [path_issue ''path_withheld'' ipath
             (''Step '' @ step_id s @ '' would mutate '' @ path @ '', which the approved envelope withholds'')]
        else []) (step_allowed_paths s)))"

definition validation_issue :: "string \<Rightarrow> string \<Rightarrow> string \<Rightarrow> authority_issue" where
  "validation_issue code path message =
     \<lparr>authority_code = code, authority_path = path, authority_message = message,
      authority_condition = Some SkipRequiredValidation\<rparr>"

definition step_validation :: "step_definition \<Rightarrow> validation_command list" where
  "step_validation s = (case step_body s of ChangeBody _ _ vs \<Rightarrow> vs | _ \<Rightarrow> [])"

definition required_command_issues :: "workflow_plan \<Rightarrow> authority_envelope \<Rightarrow> authority_issue list" where
  "required_command_issues p e =
     concat (map_indexed (\<lambda>index required.
       if list_ex (\<lambda>c. same_command c required) (plan_final p) then []
       else [validation_issue ''required_validation_missing'' (at_index ''validation.required'' index)
              (''The plan never runs the required validation command '' @ format_command required)])
       (envelope_required e))"

definition per_change_issues :: "workflow_plan \<Rightarrow> authority_issue list" where
  "per_change_issues p =
     concat (map_indexed (\<lambda>index s.
       if step_kind_of s = Change \<and> step_validation s = [] then
         [validation_issue ''per_change_validation_missing''
            (at_field (at_index ''steps'' index) ''validationCommands'')
            (''Step '' @ step_id s @ '' would integrate without the per-change validation the approved envelope requires'')]
       else []) (plan_steps p))"

definition validation_issues :: "workflow_plan \<Rightarrow> authority_envelope \<Rightarrow> authority_issue list" where
  "validation_issues p e =
     required_command_issues p e @ (if \<not> envelope_per_change e then [] else per_change_issues p)"

definition step_authority_issues ::
    "mutation_scope \<Rightarrow> run_profiles option \<Rightarrow> nat \<Rightarrow> step_definition \<Rightarrow> authority_issue list" where
  "step_authority_issues scope profiles index s =
     capability_issues index s (scope_capabilities scope) @ path_issues index s scope profiles"

definition plan_authority_issues ::
    "workflow_plan \<Rightarrow> authority_envelope \<Rightarrow> string \<Rightarrow> run_profiles option \<Rightarrow> authority_issue list" where
  "plan_authority_issues p e dir profiles = (case envelope_repository_for e dir of
       None \<Rightarrow> [repository_not_approved dir]
     | Some r \<Rightarrow>
         concat (map_indexed (step_authority_issues (repository_mutation r) profiles) (plan_steps p)) @
         validation_issues p e)"

definition assert_plan_within_authority ::
    "workflow_plan \<Rightarrow> authority_envelope \<Rightarrow> string \<Rightarrow> run_profiles option \<Rightarrow> unit result" where
  "assert_plan_within_authority p e dir profiles =
     (let issues = plan_authority_issues p e dir profiles in
      if issues \<noteq> [] then Inl (AuthorityViolationError issues) else Inr ())"

text \<open>What the absence of issues means.\<close>

definition step_within :: "mutation_scope \<Rightarrow> run_profiles option \<Rightarrow> step_definition \<Rightarrow> bool" where
  "step_within scope profiles s \<longleftrightarrow>
     (\<forall>cs. decl_capabilities (step_declared s) = Some cs \<longrightarrow> set cs \<subseteq> set (scope_capabilities scope)) \<and>
     (MutateRepository \<in> set (effective_step_capabilities s profiles) \<longrightarrow>
        (\<forall>path\<in>set (step_allowed_paths s).
           path_is_allowed path (scope_allowed scope) \<and> \<not> path_is_allowed path (scope_forbidden scope)))"

definition plan_within ::
    "workflow_plan \<Rightarrow> authority_envelope \<Rightarrow> string \<Rightarrow> run_profiles option \<Rightarrow> bool" where
  "plan_within p e dir profiles \<longleftrightarrow>
     (\<exists>r. envelope_repository_for e dir = Some r \<and>
        (\<forall>s\<in>set (plan_steps p). step_within (repository_mutation r) profiles s)) \<and>
     set (envelope_required e) \<subseteq> set (plan_final p) \<and>
     (envelope_per_change e \<longrightarrow>
        (\<forall>s\<in>set (plan_steps p). step_kind_of s = Change \<longrightarrow> step_validation s \<noteq> []))"

lemma capability_issues_Nil:
  "capability_issues index s granted = [] \<longleftrightarrow>
     (\<forall>cs. decl_capabilities (step_declared s) = Some cs \<longrightarrow> set cs \<subseteq> set granted)"
  by (cases "decl_capabilities (step_declared s)") (auto simp: capability_issues_def filter_empty_conv)

lemma step_allowed_paths_change: "step_kind_of s \<noteq> Change \<Longrightarrow> step_allowed_paths s = []"
  by (auto simp: step_allowed_paths_def step_kind_of_def split: step_body.splits)

lemma path_issues_Nil:
  "path_issues index s scope profiles = [] \<longleftrightarrow>
     (MutateRepository \<in> set (effective_step_capabilities s profiles) \<longrightarrow>
        (\<forall>path\<in>set (step_allowed_paths s).
           path_is_allowed path (scope_allowed scope) \<and> \<not> path_is_allowed path (scope_forbidden scope)))"
proof (cases "step_kind_of s = Change \<and> MutateRepository \<in> set (effective_step_capabilities s profiles)")
  case True
  then show ?thesis unfolding path_issues_def Let_def
    by (subst if_not_P, simp) (subst concat_map_indexed_all, auto)
next
  case False
  then show ?thesis using step_allowed_paths_change[of s] by (auto simp: path_issues_def)
qed

lemma required_command_issues_Nil:
  "required_command_issues p e = [] \<longleftrightarrow> set (envelope_required e) \<subseteq> set (plan_final p)"
  unfolding required_command_issues_def
  by (subst concat_map_indexed_all[where P="\<lambda>r. r \<in> set (plan_final p)"])
     (auto simp: same_command_eq list_ex_iff)

lemma per_change_issues_Nil:
  "per_change_issues p = [] \<longleftrightarrow>
     (\<forall>s\<in>set (plan_steps p). step_kind_of s = Change \<longrightarrow> step_validation s \<noteq> [])"
  unfolding per_change_issues_def
  by (subst concat_map_indexed_all[where P="\<lambda>s. step_kind_of s = Change \<longrightarrow> step_validation s \<noteq> []"]) auto

lemma plan_authority_issues_Nil:
  "plan_authority_issues p e dir profiles = [] \<longleftrightarrow> plan_within p e dir profiles"
proof (cases "envelope_repository_for e dir")
  case (Some r)
  have "concat (map_indexed (step_authority_issues (repository_mutation r) profiles) (plan_steps p)) = [] \<longleftrightarrow>
      (\<forall>s\<in>set (plan_steps p). step_within (repository_mutation r) profiles s)"
    by (rule concat_map_indexed_all)
       (simp add: step_authority_issues_def step_within_def capability_issues_Nil path_issues_Nil)
  then show ?thesis
    by (auto simp: plan_authority_issues_def plan_within_def Some validation_issues_def
        required_command_issues_Nil per_change_issues_Nil)
qed (simp add: plan_authority_issues_def plan_within_def)

subsection \<open>Freezing\<close>

definition mismatch_issue :: "string \<Rightarrow> string \<Rightarrow> string \<Rightarrow> authority_issue" where
  "mismatch_issue code path message =
     \<lparr>authority_code = code, authority_path = path, authority_message = message, authority_condition = None\<rparr>"

text \<open>
  \<open>envelope.sandbox.workers\<close> and \<open>workers.isolation\<close> are the same singleton type, so only
  the validation sandbox can differ.
\<close>

definition sandbox_authority_issues :: "authority_envelope \<Rightarrow> security_policy \<Rightarrow> authority_issue list" where
  "sandbox_authority_issues e policy =
     (if envelope_sandbox e \<noteq> policy_sandbox policy then
        [mismatch_issue ''validation_sandbox_mismatch'' ''sandbox.validation''
           (''The approved envelope requires validation sandbox '' @ sandbox_text (envelope_sandbox e) @
            '', but the run security policy uses '' @ sandbox_text (policy_sandbox policy) @
            ''; set PI_ORCHESTRATOR_VALIDATION_SANDBOX='' @ sandbox_text (envelope_sandbox e) @
            '' before creating the run'')]
      else [])"

definition policy_version_issue :: authority_issue where
  "policy_version_issue = mismatch_issue ''policy_cannot_enforce_envelope'' ''securityPolicy.version''
     ''An approved authority envelope requires security policy version 2, which freezes capability profiles''"

definition freeze_run_authority ::
    "(json \<Rightarrow> string) \<Rightarrow> string \<Rightarrow> json \<Rightarrow> security_policy \<Rightarrow> authority_envelope option \<Rightarrow>
     (frozen_authority \<times> security_policy) result" where
  "freeze_run_authority sha dir document policy authored =
     and_then (read_workflow_plan_document document) (\<lambda>p.
     if policy_version policy \<noteq> 2 then Inl (AuthorityViolationError [policy_version_issue])
     else
       and_then (case authored of
           Some e \<Rightarrow> Inr e
         | None \<Rightarrow> derive_authority_envelope dir (workflow_plan_json p) (policy_profiles policy)
                     (policy_sandbox policy)) (\<lambda>e.
       let sandbox_issues = sandbox_authority_issues e policy in
       if sandbox_issues \<noteq> [] then Inl (AuthorityViolationError sandbox_issues)
       else
         and_then (capability_profiles_from_envelope e dir) (\<lambda>profiles.
         and_then (assert_plan_within_authority p e dir (Some profiles)) (\<lambda>_.
           Inr (\<lparr>authority_source = (if authored = None then Derived else Authored),
                 authority_digest = authority_envelope_digest sha e,
                 authority_envelope_of = e\<rparr>,
                policy\<lparr>policy_profiles := Some profiles\<rparr>)))))"

definition revise_run_authority ::
    "(json \<Rightarrow> string) \<Rightarrow> frozen_authority \<Rightarrow> string \<Rightarrow> json \<Rightarrow> security_policy \<Rightarrow> authority_envelope option \<Rightarrow>
     (frozen_authority \<times> security_policy) result" where
  "revise_run_authority sha authority dir document policy authored =
     (if authority_source authority = Derived then freeze_run_authority sha dir document policy authored
      else freeze_run_authority sha dir document policy (Some (authority_envelope_of authority)))"

definition withheld_paths :: "frozen_authority option \<Rightarrow> string \<Rightarrow> string list" where
  "withheld_paths authority dir = (case authority of
       None \<Rightarrow> []
     | Some a \<Rightarrow> (case envelope_repository_for (authority_envelope_of a) dir of
         None \<Rightarrow> [] | Some r \<Rightarrow> scope_forbidden (repository_mutation r)))"

definition assert_authority_transition ::
    "frozen_authority option \<Rightarrow> frozen_authority option \<Rightarrow> bool \<Rightarrow> unit result" where
  "assert_authority_transition current proposed plan_changed = (case current of
       None \<Rightarrow> (case proposed of
           Some _ \<Rightarrow> Inl (Error ''A run cannot gain a frozen authority envelope after creation'')
         | None \<Rightarrow> Inr ())
     | Some c \<Rightarrow> (case proposed of
           None \<Rightarrow> Inl (Error ''A run's frozen authority envelope cannot be dropped'')
         | Some p \<Rightarrow>
             if authority_source p \<noteq> authority_source c then
               Inl (Error ''A run's authority source is immutable'')
             else if authority_digest p = authority_digest c then Inr ()
             else if authority_source c = Authored then
               Inl (Error ''An approved authority envelope is immutable'')
             else if \<not> plan_changed then
               Inl (Error ''A derived authority envelope can only change with its plan revision'')
             else Inr ()))"

lemma freeze_run_authority_sound:
  assumes "freeze_run_authority sha dir document policy authored = Inr (a, policy')"
  shows "\<exists>p r ps. read_workflow_plan_document document = Inr p \<and>
    envelope_repository_for (authority_envelope_of a) dir = Some r \<and>
    policy' = policy\<lparr>policy_profiles := Some ps\<rparr> \<and> ps = narrowed_profiles (repository_mutation r) \<and>
    plan_within p (authority_envelope_of a) dir (Some ps) \<and>
    authority_digest a = authority_envelope_digest sha (authority_envelope_of a) \<and>
    envelope_sandbox (authority_envelope_of a) = policy_sandbox policy \<and>
    (\<forall>e. authored = Some e \<longrightarrow> authority_source a = Authored \<and> authority_envelope_of a = e) \<and>
    (authored = None \<longrightarrow> authority_source a = Derived)"
  using assms
  by (cases authored)
     (auto simp: freeze_run_authority_def and_then_Inr capability_profiles_from_envelope_Inr
      assert_plan_within_authority_def plan_authority_issues_Nil sandbox_authority_issues_def Let_def
      split: if_splits)

text \<open>
  With the profiles at their maxima, the effective capabilities of an accepted step are the
  ones it declares, or all its kind may hold.
\<close>

definition default_profiles :: "run_profiles option \<Rightarrow> bool" where
  "default_profiles profiles \<longleftrightarrow>
     (\<forall>ps. profiles = Some ps \<longrightarrow> (\<forall>name. set (profile_capabilities (ps name)) = set (CAPABILITY_PROFILE_MAXIMA name)))"

lemma STEP_KIND_PROFILES_maxima:
  "name \<in> set (STEP_KIND_PROFILES k) \<Longrightarrow> set (CAPABILITY_PROFILE_MAXIMA name) = set (KIND_CAPABILITIES k)"
  by (cases k) (auto simp: STEP_KIND_PROFILES_def CAPABILITY_PROFILE_MAXIMA_def KIND_CAPABILITIES_def)

lemma profile_capabilities_within_declared:
  assumes "read_step_ok s"
  shows "set (profile_capabilities (step_capability_profile ps s)) \<subseteq> set (step_capabilities s)"
proof -
  have "set (CAPABILITY_PROFILE_MAXIMA (step_profile_name s)) = set (KIND_CAPABILITIES (step_kind_of s))"
    by (rule STEP_KIND_PROFILES_maxima) (rule wf_stepD(2)[OF assms])
  then show ?thesis
    using narrow_capability_profile_subset(1)
    by (fastforce simp: step_capability_profile_def step_capabilities_def Let_def split: option.splits)
qed

lemma default_effective_capabilities:
  assumes "read_step_ok s" and "default_profiles profiles"
  shows "set (effective_step_capabilities s profiles) = set (step_capabilities s)"
proof (cases profiles)
  case (Some ps)
  let ?m = "CAPABILITY_PROFILE_MAXIMA (step_profile_name s)"
  have m: "set ?m = set (KIND_CAPABILITIES (step_kind_of s))"
    by (rule STEP_KIND_PROFILES_maxima) (rule wf_stepD(2)[OF assms(1)])
  have "set (profile_capabilities (ps (step_profile_name s))) = set ?m"
    using assms(2) Some by (simp add: default_profiles_def)
  then have "set (profile_capabilities (step_capability_profile ps s)) =
      set ?m \<inter> set (step_capabilities s)"
    using m CAPABILITY_PROFILE_MAXIMA_known[of "step_profile_name s"]
    by (auto simp: step_capability_profile_def step_capabilities_def narrow_capability_profile_def Let_def
        split: option.split)
  then show ?thesis
    using wf_stepD(1)[OF assms(1)] m by (auto simp: effective_step_capabilities_def Some)
qed (simp add: effective_step_capabilities_def)

lemma derived_envelope_admits_plan:
  assumes "wf_workflow_plan p" and "default_profiles profiles"
  shows "plan_within p (derived_envelope dir p profiles sandbox) dir (Some ps)"
proof -
  let ?e = "derived_envelope dir p profiles sandbox"
  let ?scope = "\<lparr>scope_capabilities = derived_capabilities p profiles,
    scope_allowed = derived_paths p profiles, scope_forbidden = []\<rparr>"
  have "step_within ?scope (Some ps) s" if s: "s \<in> set (plan_steps p)" for s
  proof -
    have ok: "read_step_ok s" using wf_workflow_planD(4)[OF assms(1) s] by (simp add: wf_step_def)
    note eff = default_effective_capabilities[OF ok assms(2)]
    have "set cs \<subseteq> set (derived_capabilities p profiles)" if "decl_capabilities (step_declared s) = Some cs" for cs
    proof -
      have "set cs \<subseteq> set (effective_step_capabilities s profiles)"
        using that by (simp add: eff step_capabilities_def)
      moreover have "set cs \<subseteq> set STEP_CAPABILITIES"
        using wf_stepD(1)[OF ok] that KIND_CAPABILITIES_subset by (fastforce simp: step_capabilities_def)
      ultimately show ?thesis using s set_derived_capabilities by blast
    qed
    moreover have "path_is_allowed a (derived_paths p profiles)"
      if "MutateRepository \<in> set (effective_step_capabilities s (Some ps))" "a \<in> set (step_allowed_paths s)" for a
    proof (rule path_is_allowed_self)
      have "MutateRepository \<in> set (step_capabilities s)"
        using profile_capabilities_within_declared[OF ok] that(1) by (auto simp: effective_step_capabilities_def)
      then have "a \<in> set (mutable_paths s profiles)"
        using that(2) eff mutates_is_change[OF ok, of profiles] by (simp add: mutable_paths_def)
      then show "a \<in> set (derived_paths p profiles)" using s by (auto simp: set_derived_paths)
    qed
    ultimately show ?thesis by (simp add: step_within_def path_is_allowed_def)
  qed
  moreover have "step_validation s \<noteq> []" if "s \<in> set (plan_steps p)" "step_kind_of s = Change" for s
    using wf_workflow_planD(4)[OF assms(1) that(1)] that(2)
    by (cases "step_body s") (auto simp: wf_step_def read_step_ok_def wf_body_def step_validation_def step_kind_of_def)
  moreover have "envelope_repository_for ?e dir = Some \<lparr>repository_root = dir, repository_mutation = ?scope\<rparr>"
    by (simp add: envelope_repository_for_def derived_envelope_def)
  ultimately show ?thesis by (simp add: plan_within_def) (simp add: derived_envelope_def)
qed

lemma freeze_derived_authority:
  assumes "read_workflow_plan_document document = Inr p" and "policy_version policy = 2"
    and "default_profiles (policy_profiles policy)" and "dir \<noteq> []"
    and "derived_capabilities p (policy_profiles policy) = [] \<or>
      ReadRepository \<in> set (derived_capabilities p (policy_profiles policy))"
  shows "\<exists>a policy'. freeze_run_authority sha dir document policy None = Inr (a, policy') \<and>
    authority_source a = Derived \<and>
    authority_envelope_of a = derived_envelope dir p (policy_profiles policy) (policy_sandbox policy)"
proof -
  let ?e = "derived_envelope dir p (policy_profiles policy) (policy_sandbox policy)"
  have wf: "wf_workflow_plan p" using assms(1) by (rule read_workflow_plan_document_sound)
  have "derive_authority_envelope dir (workflow_plan_json p) (policy_profiles policy) (policy_sandbox policy) = Inr ?e"
    using read_workflow_plan_document_json[OF wf] assms(4,5) by (rule derive_authority_envelope_ok)
  moreover obtain ps where "capability_profiles_from_envelope ?e dir = Inr ps"
    by (simp add: capability_profiles_from_envelope_Inr envelope_repository_for_def derived_envelope_def)
  moreover have "plan_authority_issues p ?e dir (Some ps) = []"
    using derived_envelope_admits_plan[OF wf assms(3)] by (simp add: plan_authority_issues_Nil)
  ultimately show ?thesis
    using assms(1,2)
    by (simp add: freeze_run_authority_def sandbox_authority_issues_def assert_plan_within_authority_def)
       (simp add: derived_envelope_def)
qed

lemma freeze_derived_refused:
  assumes "read_workflow_plan_document document = Inr p" and "policy_version policy = 2"
    and "derived_capabilities p (policy_profiles policy) \<noteq> []" "ReadRepository \<notin> set (derived_capabilities p (policy_profiles policy))"
  shows "\<exists>e. freeze_run_authority sha dir document policy None = Inl e"
proof -
  have "read_workflow_plan_document (workflow_plan_json p) = Inr p"
    by (rule read_workflow_plan_document_json[OF read_workflow_plan_document_sound[OF assms(1)]])
  from derive_authority_envelope_refused[OF this assms(3,4), of dir "policy_sandbox policy"] show ?thesis
    using assms(1,2) by (auto simp: freeze_run_authority_def and_then_def)
qed

subsection \<open>Stored authority\<close>

definition source_text :: "envelope_source \<Rightarrow> string" where
  "source_text s = (case s of Authored \<Rightarrow> ''authored'' | Derived \<Rightarrow> ''derived'')"

definition source_of_json :: "json \<Rightarrow> envelope_source option" where
  "source_of_json v =
     (if v = JString ''authored'' then Some Authored else if v = JString ''derived'' then Some Derived else None)"

definition validate_stored_authority :: "(json \<Rightarrow> string) \<Rightarrow> json \<Rightarrow> string \<Rightarrow> frozen_authority result" where
  "validate_stored_authority sha v path =
     (if \<not> is_record v then Inl (Error (path @ '' must be an object''))
      else
        let ob = fields_of v;
            unknown = filter (\<lambda>k. k \<notin> {''source'', ''digest'', ''envelope''}) (obj_keys ob)
        in if unknown \<noteq> [] then
             Inl (Error (path @ '' contains unrecognized fields: '' @ join '', '' unknown))
           else case source_of_json (get_prop ob ''source'') of
             None \<Rightarrow> Inl (Error (path @ ''.source must be either authored or derived''))
           | Some source \<Rightarrow>
               and_then (normalize_authority_envelope (get_prop ob ''envelope'') source) (\<lambda>e.
                 let digest = authority_envelope_digest sha e in
                 if get_prop ob ''digest'' \<noteq> JString digest then
                   Inl (Error (path @ ''.digest does not identify the stored envelope, so the approved authority cannot be proven''))
                 else Inr \<lparr>authority_source = source, authority_digest = digest, authority_envelope_of = e\<rparr>))"

definition frozen_authority_json :: "frozen_authority \<Rightarrow> json" where
  "frozen_authority_json a = JObject
     [(''source'', JString (source_text (authority_source a))), (''digest'', JString (authority_digest a)),
      (''envelope'', envelope_json (authority_envelope_of a))]"

definition same_profiles :: "run_profiles \<Rightarrow> run_profiles \<Rightarrow> bool" where
  "same_profiles a b = list_all (\<lambda>n. a n = b n) CAPABILITY_PROFILE_NAMES"

definition semicolons :: "authority_issue list \<Rightarrow> string" where
  "semicolons is = join ''; '' (map authority_message is)"

text \<open>
  \<open>path\<close> prefixes the messages; \<open>policy\<close> is the optional security policy of the caller.
\<close>

definition assert_stored_authority_consistency ::
    "(json \<Rightarrow> string) \<Rightarrow> frozen_authority \<Rightarrow> string \<Rightarrow> workflow_plan \<Rightarrow> run_profiles \<Rightarrow> security_policy option \<Rightarrow>
     string \<Rightarrow> unit result" where
  "assert_stored_authority_consistency sha a dir p profiles policy path =
     (let e = authority_envelope_of a;
          sandbox_issues = (case policy of None \<Rightarrow> [] | Some q \<Rightarrow> sandbox_authority_issues e q) in
      if sandbox_issues \<noteq> [] then
        Inl (Error (path @ '' sandbox must match the run security policy: '' @ semicolons sandbox_issues))
      else
        and_then (capability_profiles_from_envelope e dir) (\<lambda>expected.
        if \<not> same_profiles expected profiles then
          Inl (Error (path @ '' capability profiles must be the ones the approved envelope grants''))
        else
          and_then (case policy of
              Some q \<Rightarrow>
                if authority_source a = Derived then
                  and_then (derive_authority_envelope dir (workflow_plan_json p) (Some profiles) (policy_sandbox q))
                    (\<lambda>derived.
                      if authority_envelope_digest sha derived \<noteq> authority_digest a then
                        Inl (Error (path @ '' derived envelope must match the plan it was derived from''))
                      else Inr ())
                else Inr ()
            | None \<Rightarrow> Inr ()) (\<lambda>_.
          let issues = plan_authority_issues p e dir (Some profiles) in
          if issues \<noteq> [] then
            Inl (Error (path @ '' plan exceeds the approved authority envelope: '' @ semicolons issues))
          else Inr ())))"

lemma validate_stored_authority_json:
  assumes "wf_envelope (authority_source a) (authority_envelope_of a)"
    and "authority_digest a = authority_envelope_digest sha (authority_envelope_of a)"
  shows "validate_stored_authority sha (frozen_authority_json a) path = Inr a"
proof -
  have "source_of_json (JString (source_text (authority_source a))) = Some (authority_source a)"
    by (cases "authority_source a") (simp_all add: source_of_json_def source_text_def)
  then show ?thesis
    using normalize_envelope_json[OF assms(1)] assms(2)
    by (simp add: validate_stored_authority_def frozen_authority_json_def is_record_def fields_of_def
        obj_keys_def)
qed

lemma validate_stored_authority_sound:
  assumes "validate_stored_authority sha v path = Inr a"
  shows "wf_envelope (authority_source a) (authority_envelope_of a) \<and>
    authority_digest a = authority_envelope_digest sha (authority_envelope_of a)"
  using assms normalize_authority_envelope_sound
  by (auto simp: validate_stored_authority_def Let_def and_then_Inr split: if_splits option.splits)

lemma assert_stored_authority_consistency_sound:
  assumes "assert_stored_authority_consistency sha a dir p profiles policy path = Inr ()"
  shows "plan_within p (authority_envelope_of a) dir (Some profiles) \<and>
    (\<exists>r. envelope_repository_for (authority_envelope_of a) dir = Some r \<and>
       profiles = narrowed_profiles (repository_mutation r))"
proof -
  have "same_profiles x y \<longleftrightarrow> x = y" for x y
    by (auto simp: same_profiles_def list_all_iff)
  then show ?thesis
    using assms
    by (auto simp: assert_stored_authority_consistency_def Let_def and_then_Inr plan_authority_issues_Nil
        capability_profiles_from_envelope_Inr split: if_splits)
qed

lemma assert_authority_transition_ok:
  "assert_authority_transition current proposed plan_changed = Inr () \<longleftrightarrow>
     (case current of
        None \<Rightarrow> proposed = None
      | Some c \<Rightarrow> \<exists>p. proposed = Some p \<and> authority_source p = authority_source c \<and>
          (authority_digest p = authority_digest c \<or> authority_source c = Derived \<and> plan_changed))"
  by (cases current; cases proposed; cases "authority_source (the current)")
     (auto simp: assert_authority_transition_def)

end
