(* ===== verification/WorkflowState.thy ===== *)
theory WorkflowState
  imports Authority
begin

text \<open>
  \<open>src/src/engine/workflow-state.ts\<close> and \<open>workspaces.ts\<close>: the durable state of one engine run
  (its plan, step records, attempts, timeline and integration head), the operations that
  update a step or an attempt, and the workspace a step's frozen profile requires.
\<close>

datatype step_state = Planned | Ready | Running | Succeeded | Failed | Blocked | Cancelled

datatype lifecycle = RunRunning | RunCompleted | RunFailed | RunCancelled

datatype attempt_state =
    Prepared | Launched | AttemptRunning | AttemptValidating
  | AttemptSucceeded | AttemptFailed | AttemptCancelled | AttemptInterrupted

definition TERMINAL_STEP_STATES :: "step_state list" where
  "TERMINAL_STEP_STATES = [Succeeded, Failed, Blocked, Cancelled]"

definition TERMINAL_STEP_FAILURE_STATES :: "step_state list" where
  "TERMINAL_STEP_FAILURE_STATES = [Failed, Blocked, Cancelled]"

definition ACTIVE_ATTEMPT_STATES :: "attempt_state list" where
  "ACTIVE_ATTEMPT_STATES = [Prepared, Launched, AttemptRunning, AttemptValidating]"

definition is_active_attempt_state :: "attempt_state \<Rightarrow> bool" where
  "is_active_attempt_state s \<longleftrightarrow> s \<in> set ACTIVE_ATTEMPT_STATES"

lemma active_attempt_states [simp]:
  "is_active_attempt_state Prepared" "is_active_attempt_state Launched"
  "is_active_attempt_state AttemptRunning" "is_active_attempt_state AttemptValidating"
  "\<not> is_active_attempt_state AttemptSucceeded" "\<not> is_active_attempt_state AttemptFailed"
  "\<not> is_active_attempt_state AttemptCancelled" "\<not> is_active_attempt_state AttemptInterrupted"
  by (simp_all add: is_active_attempt_state_def ACTIVE_ATTEMPT_STATES_def)

lemma terminal_step_states [simp]:
  "s \<in> set TERMINAL_STEP_STATES \<longleftrightarrow> s = Succeeded \<or> s = Failed \<or> s = Blocked \<or> s = Cancelled"
  "s \<in> set TERMINAL_STEP_FAILURE_STATES \<longleftrightarrow> s = Failed \<or> s = Blocked \<or> s = Cancelled"
  by (simp_all add: TERMINAL_STEP_STATES_def TERMINAL_STEP_FAILURE_STATES_def)

subsection \<open>Workspaces\<close>

datatype workspace_requirement = NoWorkspace | ReadOnly | Mutable

definition workspace_requirement_for :: "capability_profile \<Rightarrow> workspace_requirement" where
  "workspace_requirement_for p =
     (if MutateRepository \<in> set (profile_capabilities p) then Mutable
      else if profile_capabilities p = [] then NoWorkspace else ReadOnly)"

definition step_workspace_requirement :: "run_profiles \<Rightarrow> step_definition \<Rightarrow> workspace_requirement" where
  "step_workspace_requirement ps s = workspace_requirement_for (step_capability_profile ps s)"

definition step_consumes_worker_slot :: "run_profiles \<Rightarrow> step_definition \<Rightarrow> bool" where
  "step_consumes_worker_slot ps s \<longleftrightarrow> step_workspace_requirement ps s \<noteq> NoWorkspace"

definition step_requires_integration :: "run_profiles \<Rightarrow> step_definition \<Rightarrow> bool" where
  "step_requires_integration ps s \<longleftrightarrow> step_workspace_requirement ps s = Mutable"

lemma step_requires_integration_iff:
  "step_requires_integration ps s \<longleftrightarrow>
     MutateRepository \<in> set (profile_capabilities (step_capability_profile ps s))"
  by (simp add: step_requires_integration_def step_workspace_requirement_def workspace_requirement_for_def)

subsection \<open>Evidence, attempts and step records\<close>

record changed_file =
  changed_path :: string
  changed_status :: string
  changed_previous :: "string option"

record execution_boundary =
  boundary_sandbox :: validation_sandbox
  boundary_blocked_network :: bool

record check_evidence =
  check_command :: validation_command
  check_started :: string
  check_finished :: string
  check_exit :: "int option"
  check_stdout :: string
  check_stderr :: string
  check_passed :: bool
  check_boundary :: "execution_boundary option"

record task_evidence =
  evidence_started :: string
  evidence_finished :: string
  evidence_passed :: bool
  evidence_changed :: "changed_file list"
  evidence_diff_hash :: string
  evidence_checks :: "check_evidence list"

record step_attempt =
  attempt_id :: string
  attempt_step :: string
  attempt_number :: nat
  attempt_state :: attempt_state
  attempt_requirement :: workspace_requirement
  attempt_workspace :: string
  attempt_branch :: "string option"
  attempt_base :: string
  attempt_started :: string
  attempt_finished :: "string option"
  attempt_summary :: "string option"
  attempt_error :: "string option"
  attempt_worker :: "string option"
  attempt_commit :: "string option"
  attempt_evidence :: "task_evidence option"
  attempt_artifacts :: "string list option"
  attempt_release_error :: "string option"

record step_record =
  record_definition :: step_definition
  record_state :: step_state
  record_attempts :: "string list"
  record_integrated :: "string option"
  record_integration_error :: "string option"
  record_error :: "string option"

subsection \<open>The timeline\<close>

datatype failure_class = Retryable | Terminal

datatype artifact_kind = Report | Decision | Findings | TestEvidence | Patch | Commit | MergeCandidate

datatype event_body =
    StepLaunched string string nat workspace_requirement
  | StepSucceeded string string "string option"
  | StepFailed string string string failure_class string
  | StepRetryScheduled string string nat string
  | StepCancelled string "string option" "string option"
  | StepBlocked string "string list"
  | StepAdmitted string string string
  | ArtifactPublished string string string string artifact_kind nat
  | StepIntegrated string "string option" string
  | RunCancellationRequested string
  | RunSettled lifecycle "string option"

record workflow_event =
  event_sequence :: nat
  event_at :: string
  event_body :: event_body

subsection \<open>The run\<close>

record run_state =
  run_id :: string
  run_state :: lifecycle
  run_plan :: workflow_plan
  run_root :: string
  run_base_branch :: string
  run_base_commit :: string
  run_branch :: string
  run_head :: string
  run_profiles :: run_profiles
  run_authority :: "frozen_authority option"
  run_steps :: "step_record obj"
  run_attempts :: "step_attempt list"
  run_events :: "workflow_event list"
  run_sequence :: nat
  run_dropped :: nat
  run_max_workers :: int
  run_error :: "string option"
  run_created :: string
  run_updated :: string

definition new_record :: "step_state \<Rightarrow> step_definition \<Rightarrow> step_record" where
  "new_record st d = \<lparr>record_definition = d, record_state = st, record_attempts = [],
     record_integrated = None, record_integration_error = None, record_error = None\<rparr>"

record run_input =
  input_id :: string
  input_plan :: workflow_plan
  input_root :: string
  input_base_branch :: string
  input_base_commit :: string
  input_branch :: string
  input_head :: string
  input_profiles :: run_profiles
  input_authority :: "frozen_authority option"
  input_max_workers :: rat
  input_created :: "string option"

definition create_workflow_run_state :: "run_input \<Rightarrow> string \<Rightarrow> run_state result" where
  "create_workflow_run_state input now =
     (let n = JNum (input_max_workers input) in
      if \<not> is_safe_integer n \<or> to_int n < 1 then
        Inl (Error ''maxConcurrentWorkers must be a positive integer'')
      else
        let created = (case input_created input of Some t \<Rightarrow> t | None \<Rightarrow> now) in
        Inr \<lparr>run_id = input_id input, run_state = RunRunning, run_plan = input_plan input,
             run_root = input_root input, run_base_branch = input_base_branch input,
             run_base_commit = input_base_commit input, run_branch = input_branch input,
             run_head = input_head input, run_profiles = input_profiles input,
             run_authority = input_authority input,
             run_steps = foldl (\<lambda>steps d. obj_set steps (step_id d)
               (new_record (if step_dependencies d = [] then Ready else Planned) d))
               [] (plan_steps (input_plan input)),
             run_attempts = [], run_events = [], run_sequence = 0, run_dropped = 0,
             run_max_workers = to_int n, run_error = None, run_created = created, run_updated = created\<rparr>)"

definition require_step :: "run_state \<Rightarrow> string \<Rightarrow> step_record result" where
  "require_step s sid = (case obj_get (run_steps s) sid of
       None \<Rightarrow> Inl (Error (''Step disappeared from run state: '' @ sid))
     | Some r \<Rightarrow> Inr r)"

definition update_step :: "run_state \<Rightarrow> string \<Rightarrow> (step_record \<Rightarrow> step_record) \<Rightarrow> run_state result" where
  "update_step s sid f =
     and_then (require_step s sid) (\<lambda>r. Inr (s\<lparr>run_steps := obj_set (run_steps s) sid (f r)\<rparr>))"

definition update_step_attempt :: "run_state \<Rightarrow> string \<Rightarrow> (step_attempt \<Rightarrow> step_attempt) \<Rightarrow> run_state" where
  "update_step_attempt s aid f =
     s\<lparr>run_attempts := map (\<lambda>a. if attempt_id a = aid then f a else a) (run_attempts s)\<rparr>"

definition find_step_attempt :: "run_state \<Rightarrow> string \<Rightarrow> step_attempt option" where
  "find_step_attempt s aid = find (\<lambda>a. attempt_id a = aid) (run_attempts s)"

lemma require_step_Inr [simp]: "require_step s sid = Inr r \<longleftrightarrow> obj_get (run_steps s) sid = Some r"
  by (auto simp: require_step_def split: option.split)

lemma update_step_Inr:
  "update_step s sid f = Inr s' \<longleftrightarrow>
     (\<exists>r. obj_get (run_steps s) sid = Some r \<and> s' = s\<lparr>run_steps := obj_set (run_steps s) sid (f r)\<rparr>)"
  by (auto simp: update_step_def and_then_Inr)

end
