(* ===== verification/Events.thy ===== *)
theory Events
  imports WorkflowState
begin

text \<open>
  \<open>src/src/engine/events.ts\<close>: the bounded timeline of a run. The invariant
  \<open>timeline_ok\<close> says that the retained events are the last ones of the whole timeline, numbered
  without a gap, and that what was dropped is counted.
\<close>

definition MAX_WORKFLOW_EVENTS :: nat where "MAX_WORKFLOW_EVENTS = 2000"

fun number_events :: "nat \<Rightarrow> string \<Rightarrow> event_body list \<Rightarrow> workflow_event list" where
  "number_events sequence time [] = []"
| "number_events sequence time (b # bs) =
     \<lparr>event_sequence = Suc sequence, event_at = time, event_body = b\<rparr> # number_events (Suc sequence) time bs"

definition append_workflow_events :: "run_state \<Rightarrow> event_body list \<Rightarrow> string \<Rightarrow> run_state" where
  "append_workflow_events s bodies time =
     (if bodies = [] then s
      else
        let events = run_events s @ number_events (run_sequence s) time bodies;
            dropped = length events - MAX_WORKFLOW_EVENTS
        in s\<lparr>run_events := (if 0 < dropped then drop dropped events else events),
             run_sequence := run_sequence s + length bodies,
             run_dropped := run_dropped s + dropped\<rparr>)"

definition append_workflow_event :: "run_state \<Rightarrow> event_body \<Rightarrow> string \<Rightarrow> run_state" where
  "append_workflow_event s body time = append_workflow_events s [body] time"

definition dependency_unavailable :: "step_record obj \<Rightarrow> string \<Rightarrow> bool" where
  "dependency_unavailable steps d = (case obj_get steps d of
       None \<Rightarrow> True
     | Some r \<Rightarrow> record_state r = Failed \<or> record_state r = Blocked \<or> record_state r = Cancelled)"

definition blocked_step_events :: "run_state \<Rightarrow> run_state \<Rightarrow> event_body list" where
  "blocked_step_events previous next_state =
     concat (map (\<lambda>(sid, r).
       if record_state r \<noteq> Blocked \<or>
          (case obj_get (run_steps previous) sid of None \<Rightarrow> False | Some q \<Rightarrow> record_state q = Blocked) then []
       else [StepBlocked sid
         (filter (dependency_unavailable (run_steps next_state)) (step_dependencies (record_definition r)))])
       (run_steps next_state))"

subsection \<open>The timeline invariant\<close>

text \<open>
  The sequence after \<open>n\<close> events is \<open>n\<close>; the retained events are numbered from the first one
  that was not dropped up to the sequence.
\<close>

definition timeline_ok :: "run_state \<Rightarrow> bool" where
  "timeline_ok s \<longleftrightarrow>
     run_sequence s = run_dropped s + length (run_events s) \<and>
     map event_sequence (run_events s) = [Suc (run_dropped s) ..< Suc (run_sequence s)] \<and>
     length (run_events s) \<le> MAX_WORKFLOW_EVENTS"

lemma number_events_sequence: "map event_sequence (number_events n time bs) = [Suc n ..< Suc (n + length bs)]"
proof (induction bs arbitrary: n)
  case (Cons b bs)
  have "[Suc n ..< Suc (n + length (b # bs))] = Suc n # [Suc (Suc n) ..< Suc (Suc n + length bs)]"
    by (subst upt_conv_Cons) simp_all
  then show ?case using Cons.IH[of "Suc n"] by (simp del: upt_Suc)
qed simp

lemma length_number_events [simp]: "length (number_events n time bs) = length bs"
  by (induction bs arbitrary: n) simp_all

lemma append_workflow_events_timeline:
  assumes "timeline_ok s"
  shows "timeline_ok (append_workflow_events s bodies time)"
proof (cases "bodies = []")
  case False
  let ?events = "run_events s @ number_events (run_sequence s) time bodies"
  let ?dropped = "length ?events - MAX_WORKFLOW_EVENTS"
  have seqs: "map event_sequence ?events = [Suc (run_dropped s) ..< Suc (run_sequence s + length bodies)]"
    using assms upt_add_eq_append[of "Suc (run_dropped s)" "Suc (run_sequence s)" "length bodies"]
    by (simp add: timeline_ok_def number_events_sequence)
  have "map event_sequence (drop ?dropped ?events) =
      [Suc (run_dropped s + ?dropped) ..< Suc (run_sequence s + length bodies)]"
    by (simp only: drop_map[symmetric] seqs drop_upt) simp
  moreover have "run_sequence s = run_dropped s + length (run_events s)" using assms by (simp add: timeline_ok_def)
  ultimately show ?thesis
    using False seqs by (auto simp: append_workflow_events_def timeline_ok_def Let_def)
qed (use assms in \<open>simp add: append_workflow_events_def\<close>)

lemma append_workflow_event_timeline: "timeline_ok s \<Longrightarrow> timeline_ok (append_workflow_event s b time)"
  by (simp add: append_workflow_event_def append_workflow_events_timeline)

text \<open>Nothing but the timeline changes.\<close>

lemma append_workflow_events_frame [simp, frame_simps]:
  "run_id (append_workflow_events s bs time) = run_id s"
  "run_state (append_workflow_events s bs time) = run_state s"
  "run_plan (append_workflow_events s bs time) = run_plan s"
  "run_root (append_workflow_events s bs time) = run_root s"
  "run_base_branch (append_workflow_events s bs time) = run_base_branch s"
  "run_base_commit (append_workflow_events s bs time) = run_base_commit s"
  "run_branch (append_workflow_events s bs time) = run_branch s"
  "run_head (append_workflow_events s bs time) = run_head s"
  "run_profiles (append_workflow_events s bs time) = run_profiles s"
  "run_authority (append_workflow_events s bs time) = run_authority s"
  "run_steps (append_workflow_events s bs time) = run_steps s"
  "run_attempts (append_workflow_events s bs time) = run_attempts s"
  "run_max_workers (append_workflow_events s bs time) = run_max_workers s"
  "run_error (append_workflow_events s bs time) = run_error s"
  "run_created (append_workflow_events s bs time) = run_created s"
  "run_updated (append_workflow_events s bs time) = run_updated s"
  by (simp_all add: append_workflow_events_def Let_def)

lemma append_workflow_event_frame [simp, frame_simps]:
  "run_state (append_workflow_event s b time) = run_state s"
  "run_plan (append_workflow_event s b time) = run_plan s"
  "run_head (append_workflow_event s b time) = run_head s"
  "run_profiles (append_workflow_event s b time) = run_profiles s"
  "run_authority (append_workflow_event s b time) = run_authority s"
  "run_steps (append_workflow_event s b time) = run_steps s"
  "run_attempts (append_workflow_event s b time) = run_attempts s"
  "run_max_workers (append_workflow_event s b time) = run_max_workers s"
  "run_id (append_workflow_event s b time) = run_id s"
  "run_root (append_workflow_event s b time) = run_root s"
  by (simp_all add: append_workflow_event_def)

end
