(* ===== verification/Reconciliation.thy ===== *)
theory Reconciliation
  imports Prelude
begin

text \<open>
  Both schedulers of the program recompute the states of what has not run in one pass over the
  topological order: the new value of an entry depends on the entries it needs. The laws of such a
  rule make one pass a fixed point.
\<close>

definition adjust_pass :: "('r \<Rightarrow> 'r obj \<Rightarrow> 'r) \<Rightarrow> 'r obj \<Rightarrow> string list \<Rightarrow> 'r obj" where
  "adjust_pass f = foldl (\<lambda>m k. case obj_get m k of None \<Rightarrow> m | Some v \<Rightarrow> obj_set m k (f v m))"

definition settled :: "('r \<Rightarrow> 'r obj \<Rightarrow> 'r) \<Rightarrow> 'r obj \<Rightarrow> bool" where
  "settled f m \<longleftrightarrow> (\<forall>k r. obj_get m k = Some r \<longrightarrow> f r m = r)"

lemma adjust_pass_keys [simp]: "obj_keys (adjust_pass f m ks) = obj_keys m"
  unfolding adjust_pass_def by (rule obj_store.keys_foldl_adjust)

lemma adjust_pass_other: "k \<notin> set ks \<Longrightarrow> obj_get (adjust_pass f m ks) k = obj_get m k"
  unfolding adjust_pass_def by (rule obj_store.get_foldl_adjust_other)

text \<open>An order in which the entry \<open>k\<close> comes after all it needs.\<close>

definition needs_first :: "string list \<Rightarrow> string \<Rightarrow> string list \<Rightarrow> bool" where
  "needs_first order k ds \<longleftrightarrow> (\<forall>us vs. order = us @ k # vs \<longrightarrow> set ds \<subseteq> set us)"

locale state_rule =
  fixes adjust :: "'r \<Rightarrow> 'r obj \<Rightarrow> 'r" and needs :: "'r \<Rightarrow> string list"
  assumes adjust_cong: "(\<And>d. d \<in> set (needs r) \<Longrightarrow> obj_get a d = obj_get b d) \<Longrightarrow> adjust r a = adjust r b"
    and adjust_again: "adjust (adjust r m) m = adjust r m"
begin

lemma pass_get:
  assumes d: "distinct order" and k: "k \<in> set order" and r: "obj_get m k = Some r"
    and nf: "needs_first order k (needs r)"
  shows "obj_get (adjust_pass adjust m order) k = Some (adjust r (adjust_pass adjust m order))"
proof -
  obtain us vs where o: "order = us @ k # vs" using k by (meson split_list)
  let ?F = "adjust_pass adjust m order" and ?U = "adjust_pass adjust m us"
  have get: "obj_get ?F k = Some (adjust r ?U)"
    unfolding adjust_pass_def by (rule obj_store.get_foldl_adjust[OF o d r, of "\<lambda>m v. adjust v m"])
  have "obj_get ?U x = obj_get ?F x" if x: "x \<in> set (needs r)" for x
  proof -
    have "x \<in> set us" using nf o x unfolding needs_first_def by blast
    then have "x \<notin> set (k # vs)" using d by (auto simp: o)
    then have "obj_get (adjust_pass adjust ?U (k # vs)) x = obj_get ?U x" by (rule adjust_pass_other)
    moreover have "?F = adjust_pass adjust ?U (k # vs)" by (simp add: adjust_pass_def o)
    ultimately show ?thesis by simp
  qed
  then have "adjust r ?U = adjust r ?F" by (rule adjust_cong)
  then show ?thesis using get by simp
qed

lemma pass_settled:
  assumes d: "distinct order" and all: "\<And>k r. obj_get m k = Some r \<Longrightarrow> k \<in> set order \<and> needs_first order k (needs r)"
  shows "settled adjust (adjust_pass adjust m order)"
  unfolding settled_def
proof (intro allI impI)
  fix k r' assume r': "obj_get (adjust_pass adjust m order) k = Some r'"
  then have "k \<in> set (obj_keys m)" using obj_get_Some_key[OF r'] by simp
  then obtain r where r: "obj_get m k = Some r" using obj_key_get by blast
  have "r' = adjust r (adjust_pass adjust m order)" using pass_get[OF d _ r] all[OF r] r' by simp
  then show "adjust r' (adjust_pass adjust m order) = r'" by (simp add: adjust_again)
qed

lemma pass_idle:
  assumes "settled adjust m"
  shows "adjust_pass adjust m ks = m"
proof (induction ks)
  case (Cons k ks)
  have "(case obj_get m k of None \<Rightarrow> m | Some v \<Rightarrow> obj_set m k (adjust v m)) = m"
    using assms by (auto simp: settled_def obj_set_same split: option.split)
  then show ?case using Cons.IH by (simp add: adjust_pass_def)
qed (simp add: adjust_pass_def)

end

end
