(* ===== verification/Scheduler.thy ===== *)
theory Scheduler
  imports Events Reconciliation
begin

text \<open>
  \<open>src/src/engine/scheduler.ts\<close>: recomputing the states of the steps that have not run, choosing
  the steps that may start now under worker slots and exclusive locks, and choosing the next
  step whose commit is integrated.
\<close>

subsection \<open>Reconciliation\<close>

definition step_satisfies_dependents :: "run_profiles \<Rightarrow> step_record \<Rightarrow> bool" where
  "step_satisfies_dependents ps r \<longleftrightarrow> record_state r = Succeeded \<and>
     (\<not> step_requires_integration ps (record_definition r) \<or> record_integrated r \<noteq> None)"

definition dependency_failed :: "step_record obj \<Rightarrow> string \<Rightarrow> bool" where
  "dependency_failed steps d = (case obj_get steps d of
       None \<Rightarrow> True | Some r \<Rightarrow> record_state r \<in> set TERMINAL_STEP_FAILURE_STATES)"

definition dependency_satisfied :: "run_profiles \<Rightarrow> step_record obj \<Rightarrow> string \<Rightarrow> bool" where
  "dependency_satisfied ps steps d = (case obj_get steps d of
       None \<Rightarrow> False | Some r \<Rightarrow> step_satisfies_dependents ps r)"

definition next_step_state :: "run_profiles \<Rightarrow> step_record \<Rightarrow> step_record obj \<Rightarrow> step_state" where
  "next_step_state ps r steps =
     (if record_state r = Running \<or> record_state r \<in> set TERMINAL_STEP_STATES then record_state r
      else
        let deps = step_dependencies (record_definition r) in
        if list_ex (dependency_failed steps) deps then Blocked
        else if list_all (dependency_satisfied ps steps) deps then Ready
        else Planned)"

definition reconcile_step :: "run_profiles \<Rightarrow> step_record obj \<Rightarrow> string \<Rightarrow> step_record obj" where
  "reconcile_step ps steps sid = (case obj_get steps sid of
       None \<Rightarrow> steps
     | Some r \<Rightarrow> obj_set steps sid (r\<lparr>record_state := next_step_state ps r steps\<rparr>))"

definition reconcile_workflow_steps :: "run_state \<Rightarrow> run_state" where
  "reconcile_workflow_steps s =
     s\<lparr>run_steps := foldl (reconcile_step (run_profiles s)) (run_steps s) (topological_step_ids (run_plan s))\<rparr>"

subsection \<open>Locks\<close>

definition path_lock_covers :: "string \<Rightarrow> string \<Rightarrow> bool" where
  "path_lock_covers lock path \<longleftrightarrow> ends_with lock ''/'' \<and> starts_with path lock"

definition path_locks_conflict :: "string \<Rightarrow> string \<Rightarrow> bool" where
  "path_locks_conflict l r \<longleftrightarrow> l = r \<or> path_lock_covers l r \<or> path_lock_covers r l"

record held_locks =
  held_paths :: "string list"
  held_resources :: "string list"

definition held_locks_of :: "step_record list \<Rightarrow> held_locks" where
  "held_locks_of rs =
     \<lparr>held_paths = concat (map (step_path_locks \<circ> record_definition) rs),
      held_resources = concat (map (step_resource_locks \<circ> record_definition) rs)\<rparr>"

definition conflicts_with_held_locks :: "step_definition \<Rightarrow> held_locks \<Rightarrow> bool" where
  "conflicts_with_held_locks d held \<longleftrightarrow>
     list_ex (\<lambda>lock. list_ex (path_locks_conflict lock) (held_paths held)) (step_path_locks d) \<or>
     list_ex (\<lambda>lock. lock \<in> set (held_resources held)) (step_resource_locks d)"

definition hold_locks :: "held_locks \<Rightarrow> step_definition \<Rightarrow> held_locks" where
  "hold_locks held d =
     \<lparr>held_paths = held_paths held @ step_path_locks d,
      held_resources = held_resources held @ step_resource_locks d\<rparr>"

subsection \<open>Launchable steps\<close>

definition active_attempts :: "run_state \<Rightarrow> step_attempt list" where
  "active_attempts s = filter (\<lambda>a. is_active_attempt_state (attempt_state a)) (run_attempts s)"

definition active_step_ids :: "run_state \<Rightarrow> string list" where
  "active_step_ids s = map attempt_step (active_attempts s)"

definition consumes_slot :: "run_state \<Rightarrow> string \<Rightarrow> bool" where
  "consumes_slot s sid = (case obj_get (run_steps s) sid of
       None \<Rightarrow> False | Some r \<Rightarrow> step_consumes_worker_slot (run_profiles s) (record_definition r))"

definition running_records :: "run_state \<Rightarrow> step_record list" where
  "running_records s = filter (\<lambda>r. record_state r = Running) (obj_values (run_steps s))"

definition untracked_running :: "run_state \<Rightarrow> string list" where
  "untracked_running s = map fst (filter (\<lambda>(sid, r).
     record_state r = Running \<and> sid \<notin> set (active_step_ids s)) (run_steps s))"

definition occupied_slots :: "run_state \<Rightarrow> nat" where
  "occupied_slots s =
     length (filter (consumes_slot s) (active_step_ids s)) +
     length (filter (consumes_slot s) (untracked_running s))"

record launch_search =
  available_slots :: int
  search_held :: held_locks
  launchable :: "string list"

definition launch_candidate :: "run_state \<Rightarrow> launch_search \<Rightarrow> string \<Rightarrow> launch_search" where
  "launch_candidate s acc sid = (case obj_get (run_steps s) sid of
       None \<Rightarrow> acc
     | Some r \<Rightarrow>
         if record_state r \<noteq> Ready \<or> sid \<in> set (active_step_ids s) then acc
         else if conflicts_with_held_locks (record_definition r) (search_held acc) then acc
         else if consumes_slot s sid \<and> available_slots acc = 0 then acc
         else \<lparr>available_slots = available_slots acc - (if consumes_slot s sid then 1 else 0),
               search_held = hold_locks (search_held acc) (record_definition r),
               launchable = launchable acc @ [sid]\<rparr>)"

definition initial_search :: "run_state \<Rightarrow> launch_search" where
  "initial_search s =
     \<lparr>available_slots = max 0 (run_max_workers s - int (occupied_slots s)),
      search_held = held_locks_of (running_records s), launchable = []\<rparr>"

definition launchable_steps :: "run_state \<Rightarrow> string list" where
  "launchable_steps reconciled =
     launchable (foldl (launch_candidate reconciled) (initial_search reconciled)
       (topological_step_ids (run_plan reconciled)))"

text \<open>Counting the slots asks for the step of every active attempt, which throws when it is unknown.\<close>

definition launchable_step_ids :: "run_state \<Rightarrow> string list result" where
  "launchable_step_ids s =
     (if run_state s \<noteq> RunRunning then Inr []
      else
        let reconciled = reconcile_workflow_steps s in
        case find (\<lambda>sid. obj_get (run_steps reconciled) sid = None) (active_step_ids reconciled) of
          Some sid \<Rightarrow> Inl (Error (''Step disappeared from run state: '' @ sid))
        | None \<Rightarrow> Inr (launchable_steps reconciled))"

subsection \<open>The next integration\<close>

definition truthy :: "string option \<Rightarrow> bool" where
  "truthy v = (case v of None \<Rightarrow> False | Some t \<Rightarrow> t \<noteq> [])"

fun next_integrable :: "run_profiles \<Rightarrow> step_record obj \<Rightarrow> string list \<Rightarrow> string option" where
  "next_integrable ps steps [] = None"
| "next_integrable ps steps (sid # sids) = (case obj_get steps sid of
       None \<Rightarrow> next_integrable ps steps sids
     | Some r \<Rightarrow>
         if \<not> step_requires_integration ps (record_definition r) then next_integrable ps steps sids
         else if truthy (record_integrated r) then next_integrable ps steps sids
         else if record_state r = Succeeded then Some sid else None)"

definition next_integrable_step_id :: "run_state \<Rightarrow> string option" where
  "next_integrable_step_id s =
     next_integrable (run_profiles s) (run_steps s) (topological_step_ids (run_plan s))"

subsection \<open>The graph of a run\<close>

text \<open>
  The step records of a run are the steps of its plan, in plan order: every operation of the
  engine keeps this.
\<close>

definition graph_ok :: "run_state \<Rightarrow> bool" where
  "graph_ok s \<longleftrightarrow> wf_workflow_plan (run_plan s) \<and>
     map (\<lambda>(sid, r). (sid, record_definition r)) (run_steps s) =
       map (\<lambda>d. (step_id d, d)) (plan_steps (run_plan s))"

lemma graph_ok_keys: "graph_ok s \<Longrightarrow> obj_keys (run_steps s) = map step_id (plan_steps (run_plan s))"
proof -
  assume "graph_ok s"
  then have "map fst (map (\<lambda>(sid, r). (sid, record_definition r)) (run_steps s)) =
      map fst (map (\<lambda>d. (step_id d, d)) (plan_steps (run_plan s)))" by (simp add: graph_ok_def)
  then show ?thesis by (simp add: obj_keys_def comp_def case_prod_beta)
qed

lemma graph_ok_record:
  assumes "graph_ok s" and "obj_get (run_steps s) sid = Some r"
  shows "record_definition r \<in> set (plan_steps (run_plan s))" "step_id (record_definition r) = sid"
proof -
  have "(sid, record_definition r) \<in> set (map (\<lambda>(sid, r). (sid, record_definition r)) (run_steps s))"
    using obj_get_entry[OF assms(2)] by force
  moreover have "map (\<lambda>(sid, r). (sid, record_definition r)) (run_steps s) =
       map (\<lambda>d. (step_id d, d)) (plan_steps (run_plan s))"
    using assms(1) unfolding graph_ok_def by blast
  ultimately have "(sid, record_definition r) \<in> set (map (\<lambda>d. (step_id d, d)) (plan_steps (run_plan s)))"
    by simp
  then show "record_definition r \<in> set (plan_steps (run_plan s))" "step_id (record_definition r) = sid" by auto
qed

lemma graph_ok_distinct: "graph_ok s \<Longrightarrow> distinct (obj_keys (run_steps s))"
  by (simp add: graph_ok_keys graph_ok_def wf_workflow_planD(1))

lemma graph_ok_order:
  assumes "graph_ok s"
  shows "distinct (topological_step_ids (run_plan s))"
    "set (topological_step_ids (run_plan s)) = set (obj_keys (run_steps s))"
    "dependencies_first (plan_steps (run_plan s)) (topological_step_ids (run_plan s))"
  using topological_step_ids_order[of "run_plan s"] assms graph_ok_keys[OF assms]
  by (simp_all add: graph_ok_def)

lemma graph_ok_set:
  assumes "graph_ok s" and "obj_get (run_steps s) sid = Some r" and "record_definition r' = record_definition r"
  shows "map (\<lambda>(sid, r). (sid, record_definition r)) (obj_set (run_steps s) sid r') =
    map (\<lambda>(sid, r). (sid, record_definition r)) (run_steps s)"
proof -
  have "obj_get ob sid = Some r \<Longrightarrow>
      map (\<lambda>(sid, r). (sid, record_definition r)) (obj_set ob sid r') =
      map (\<lambda>(sid, r). (sid, record_definition r)) ob" for ob
    by (induction ob) (auto simp: obj_get_def obj_set_def assms(3) split: if_splits)
  then show ?thesis using assms(2) by blast
qed

lemma graph_ok_dependency:
  assumes "graph_ok s" and "obj_get (run_steps s) sid = Some r" and "d \<in> set (step_dependencies (record_definition r))"
  shows "\<exists>q. obj_get (run_steps s) d = Some q"
proof -
  have "d \<in> set (map step_id (plan_steps (run_plan s)))"
    using assms graph_ok_record[OF assms(1,2)] wf_workflow_planD(5) by (auto simp: graph_ok_def)
  then show ?thesis using obj_key_get graph_ok_keys[OF assms(1)] by metis
qed

subsection \<open>Reconciliation reaches a fixed point\<close>

definition reconciled :: "run_profiles \<Rightarrow> step_record obj \<Rightarrow> bool" where
  "reconciled ps steps \<longleftrightarrow>
     (\<forall>sid r. obj_get steps sid = Some r \<longrightarrow> record_state r = next_step_state ps r steps)"

definition reconcile_all :: "run_profiles \<Rightarrow> step_record obj \<Rightarrow> string list \<Rightarrow> step_record obj" where
  "reconcile_all ps = foldl (reconcile_step ps)"

lemma reconcile_all_pass:
  "reconcile_all ps = adjust_pass (\<lambda>r steps. r\<lparr>record_state := next_step_state ps r steps\<rparr>)"
  by (simp add: reconcile_all_def adjust_pass_def reconcile_step_def[abs_def])

lemma next_step_state_cong:
  assumes "\<And>d. d \<in> set (step_dependencies (record_definition r)) \<Longrightarrow> obj_get a d = obj_get b d"
  shows "next_step_state ps r a = next_step_state ps r b"
proof -
  have "list_ex (dependency_failed a) (step_dependencies (record_definition r)) =
      list_ex (dependency_failed b) (step_dependencies (record_definition r))"
    using assms by (auto simp: list_ex_iff dependency_failed_def)
  moreover have "list_all (dependency_satisfied ps a) (step_dependencies (record_definition r)) =
      list_all (dependency_satisfied ps b) (step_dependencies (record_definition r))"
    using assms by (auto simp: list_all_iff dependency_satisfied_def)
  ultimately show ?thesis by (simp add: next_step_state_def Let_def)
qed

lemma next_step_state_again:
  "next_step_state ps (r\<lparr>record_state := next_step_state ps r steps\<rparr>) steps = next_step_state ps r steps"
  by (auto simp: next_step_state_def Let_def)

interpretation step_rule: state_rule "\<lambda>r steps. r\<lparr>record_state := next_step_state ps r steps\<rparr>"
    "\<lambda>r. step_dependencies (record_definition r)" for ps
proof
  show "r\<lparr>record_state := next_step_state ps r a\<rparr> = r\<lparr>record_state := next_step_state ps r b\<rparr>"
    if "\<And>d. d \<in> set (step_dependencies (record_definition r)) \<Longrightarrow> obj_get a d = obj_get b d" for r a b
    using next_step_state_cong[OF that] by simp
qed (simp add: next_step_state_again)

lemma reconcile_all_get:
  assumes "graph_ok s" and "obj_get (run_steps s) sid = Some r"
  defines "F \<equiv> reconcile_all (run_profiles s) (run_steps s) (topological_step_ids (run_plan s))"
  shows "obj_get F sid = Some (r\<lparr>record_state := next_step_state (run_profiles s) r F\<rparr>)"
proof -
  note ord = graph_ok_order[OF assms(1)]
  have "sid \<in> set (topological_step_ids (run_plan s))" unfolding ord(2) by (rule obj_get_Some_key[OF assms(2)])
  moreover have "needs_first (topological_step_ids (run_plan s)) sid (step_dependencies (record_definition r))"
    using ord(3) graph_ok_record[OF assms(1,2)] unfolding dependencies_first_def needs_first_def by blast
  ultimately show ?thesis
    unfolding F_def reconcile_all_pass by (rule step_rule.pass_get[OF ord(1) _ assms(2)])
qed

lemma reconcile_all_keys: "obj_keys (reconcile_all ps m ks) = obj_keys m"
  by (simp add: reconcile_all_pass)

lemma reconcile_steps: "run_steps (reconcile_workflow_steps s) =
    reconcile_all (run_profiles s) (run_steps s) (topological_step_ids (run_plan s))"
  by (simp add: reconcile_workflow_steps_def reconcile_all_def)

lemma reconcile_frame [simp, frame_simps]:
  "run_id (reconcile_workflow_steps s) = run_id s"
  "run_state (reconcile_workflow_steps s) = run_state s"
  "run_plan (reconcile_workflow_steps s) = run_plan s"
  "run_root (reconcile_workflow_steps s) = run_root s"
  "run_head (reconcile_workflow_steps s) = run_head s"
  "run_profiles (reconcile_workflow_steps s) = run_profiles s"
  "run_authority (reconcile_workflow_steps s) = run_authority s"
  "run_attempts (reconcile_workflow_steps s) = run_attempts s"
  "run_events (reconcile_workflow_steps s) = run_events s"
  "run_sequence (reconcile_workflow_steps s) = run_sequence s"
  "run_dropped (reconcile_workflow_steps s) = run_dropped s"
  "run_max_workers (reconcile_workflow_steps s) = run_max_workers s"
  "obj_keys (run_steps (reconcile_workflow_steps s)) = obj_keys (run_steps s)"
  by (simp_all add: reconcile_workflow_steps_def reconcile_all_keys[unfolded reconcile_all_def])

lemma reconcile_get:
  assumes "graph_ok s" and "obj_get (run_steps s) sid = Some r"
  shows "obj_get (run_steps (reconcile_workflow_steps s)) sid =
    Some (r\<lparr>record_state := next_step_state (run_profiles s) r (run_steps (reconcile_workflow_steps s))\<rparr>)"
  using reconcile_all_get[OF assms] by (simp add: reconcile_steps)

lemma reconcile_get_inv:
  assumes "graph_ok s" and "obj_get (run_steps (reconcile_workflow_steps s)) sid = Some r'"
  obtains r where "obj_get (run_steps s) sid = Some r"
    "r' = r\<lparr>record_state := next_step_state (run_profiles s) r (run_steps (reconcile_workflow_steps s))\<rparr>"
proof -
  have "sid \<in> set (obj_keys (run_steps s))" using obj_get_Some_key[OF assms(2)] by simp
  then obtain r where "obj_get (run_steps s) sid = Some r" using obj_key_get by blast
  with reconcile_get[OF assms(1) this] assms(2) that show ?thesis by simp
qed

lemma reconcile_reconciled:
  assumes "graph_ok s"
  shows "reconciled (run_profiles s) (run_steps (reconcile_workflow_steps s))"
  unfolding reconciled_def
proof (intro allI impI)
  fix sid r' assume "obj_get (run_steps (reconcile_workflow_steps s)) sid = Some r'"
  then obtain r where r: "obj_get (run_steps s) sid = Some r"
    "r' = r\<lparr>record_state := next_step_state (run_profiles s) r (run_steps (reconcile_workflow_steps s))\<rparr>"
    using reconcile_get_inv[OF assms] by blast
  show "record_state r' = next_step_state (run_profiles s) r' (run_steps (reconcile_workflow_steps s))"
    unfolding r(2) next_step_state_again by simp
qed

lemma reconcile_graph_ok:
  assumes "graph_ok s"
  shows "graph_ok (reconcile_workflow_steps s)"
proof -
  let ?f = "\<lambda>(sid, r). (sid, record_definition r)"
  have "map ?f (run_steps (reconcile_workflow_steps s)) = map ?f (run_steps s)"
  proof (rule obj_eqI)
    have keys: "obj_keys (map ?f ob) = obj_keys ob" for ob
      by (simp add: obj_keys_def comp_def case_prod_beta)
    show "obj_keys (map ?f (run_steps (reconcile_workflow_steps s))) = obj_keys (map ?f (run_steps s))"
      by (simp add: keys)
    show "distinct (obj_keys (map ?f (run_steps (reconcile_workflow_steps s))))"
      using graph_ok_distinct[OF assms] by (simp add: keys)
    fix k assume "k \<in> set (obj_keys (map ?f (run_steps (reconcile_workflow_steps s))))"
    then have "k \<in> set (obj_keys (run_steps s))" by (simp add: keys)
    then obtain r where r: "obj_get (run_steps s) k = Some r" using obj_key_get by blast
    have get: "obj_get (map ?f ob) k = map_option record_definition (obj_get ob k)" for ob
      by (induction ob) (auto simp: obj_get_def)
    show "obj_get (map ?f (run_steps (reconcile_workflow_steps s))) k = obj_get (map ?f (run_steps s)) k"
      using reconcile_get[OF assms r] r by (simp add: get)
  qed
  then show ?thesis using assms by (simp add: graph_ok_def)
qed

lemma reconciled_id:
  assumes "reconciled (run_profiles s) (run_steps s)"
  shows "reconcile_workflow_steps s = s"
proof -
  have step: "reconcile_step (run_profiles s) (run_steps s) sid = run_steps s" for sid
    using assms by (auto simp: reconcile_step_def reconciled_def obj_set_same split: option.split)
  have "foldl (reconcile_step (run_profiles s)) (run_steps s) ks = run_steps s" for ks
    by (induction ks) (simp_all add: step)
  then show ?thesis by (simp add: reconcile_workflow_steps_def)
qed

lemma reconcile_idempotent:
  "graph_ok s \<Longrightarrow> reconcile_workflow_steps (reconcile_workflow_steps s) = reconcile_workflow_steps s"
  using reconcile_reconciled by (simp add: reconciled_id)

text \<open>What the fixed point says of a step that has not run.\<close>

lemma next_step_stateD:
  "next_step_state ps r steps = Ready \<Longrightarrow> list_all (dependency_satisfied ps steps) (step_dependencies (record_definition r))"
  "next_step_state ps r steps = Ready \<or> next_step_state ps r steps = Planned \<Longrightarrow>
     \<not> list_ex (dependency_failed steps) (step_dependencies (record_definition r))"
  "next_step_state ps r steps = Planned \<Longrightarrow>
     \<not> list_all (dependency_satisfied ps steps) (step_dependencies (record_definition r))"
  by (auto simp: next_step_state_def Let_def split: if_splits)

lemma reconciled_states:
  assumes "reconciled ps steps" and "obj_get steps sid = Some r"
  shows "record_state r = Ready \<Longrightarrow> d \<in> set (step_dependencies (record_definition r)) \<Longrightarrow> dependency_satisfied ps steps d"
    "record_state r = Ready \<or> record_state r = Planned \<Longrightarrow> d \<in> set (step_dependencies (record_definition r)) \<Longrightarrow>
      \<not> dependency_failed steps d"
    "record_state r = Planned \<Longrightarrow> \<exists>d\<in>set (step_dependencies (record_definition r)). \<not> dependency_satisfied ps steps d"
proof -
  have st: "next_step_state ps r steps = record_state r" using assms unfolding reconciled_def by metis
  show "record_state r = Ready \<Longrightarrow> d \<in> set (step_dependencies (record_definition r)) \<Longrightarrow> dependency_satisfied ps steps d"
    using next_step_stateD(1)[of ps r steps] unfolding st by (simp add: list_all_iff)
  show "record_state r = Ready \<or> record_state r = Planned \<Longrightarrow> d \<in> set (step_dependencies (record_definition r)) \<Longrightarrow>
      \<not> dependency_failed steps d"
    using next_step_stateD(2)[of ps r steps] unfolding st by (auto simp: list_ex_iff)
  show "record_state r = Planned \<Longrightarrow> \<exists>d\<in>set (step_dependencies (record_definition r)). \<not> dependency_satisfied ps steps d"
    using next_step_stateD(3)[of ps r steps] unfolding st by (simp add: list_all_iff)
qed

subsection \<open>What may start\<close>

definition locks_conflict :: "step_definition \<Rightarrow> step_definition \<Rightarrow> bool" where
  "locks_conflict a b \<longleftrightarrow>
     (\<exists>p\<in>set (step_path_locks a). \<exists>q\<in>set (step_path_locks b). path_locks_conflict p q) \<or>
     set (step_resource_locks a) \<inter> set (step_resource_locks b) \<noteq> {}"

lemma path_locks_conflict_sym: "path_locks_conflict p q = path_locks_conflict q p"
  by (auto simp: path_locks_conflict_def)

lemma locks_conflict_sym: "locks_conflict a b = locks_conflict b a"
  unfolding locks_conflict_def by (metis path_locks_conflict_sym inf_commute)

lemma conflicts_held_iff:
  "conflicts_with_held_locks d (held_locks_of rs) \<longleftrightarrow> (\<exists>r\<in>set rs. locks_conflict d (record_definition r))"
  by (auto simp: conflicts_with_held_locks_def held_locks_of_def locks_conflict_def list_ex_iff)

lemma held_locks_snoc: "hold_locks (held_locks_of rs) (record_definition r) = held_locks_of (rs @ [r])"
  by (simp add: hold_locks_def held_locks_of_def)

definition record_of :: "run_state \<Rightarrow> string \<Rightarrow> step_record" where
  "record_of s sid = the (obj_get (run_steps s) sid)"

definition startable :: "run_state \<Rightarrow> string \<Rightarrow> bool" where
  "startable s sid \<longleftrightarrow> (\<exists>r. obj_get (run_steps s) sid = Some r \<and> record_state r = Ready) \<and>
     sid \<notin> set (active_step_ids s)"

definition free_slots :: "run_state \<Rightarrow> int" where
  "free_slots s = max 0 (run_max_workers s - int (occupied_slots s))"

definition holders :: "run_state \<Rightarrow> string list \<Rightarrow> step_record list" where
  "holders s launched = running_records s @ map (record_of s) launched"

definition search_ok :: "run_state \<Rightarrow> string list \<Rightarrow> launch_search \<Rightarrow> bool" where
  "search_ok s seen acc \<longleftrightarrow>
     distinct (launchable acc) \<and> set (launchable acc) \<subseteq> set seen \<and>
     (\<forall>i\<in>set (launchable acc). startable s i) \<and>
     0 \<le> available_slots acc \<and>
     available_slots acc = free_slots s - int (length (filter (consumes_slot s) (launchable acc))) \<and>
     search_held acc = held_locks_of (holders s (launchable acc)) \<and>
     (\<forall>us i vs. launchable acc = us @ i # vs \<longrightarrow>
        (\<forall>r\<in>set (holders s us). \<not> locks_conflict (record_definition (record_of s i)) (record_definition r))) \<and>
     (\<forall>i\<in>set seen. startable s i \<and> i \<notin> set (launchable acc) \<longrightarrow>
        (\<exists>r\<in>set (holders s (launchable acc)). locks_conflict (record_definition (record_of s i)) (record_definition r)) \<or>
        consumes_slot s i \<and> available_slots acc = 0)"

lemma launch_candidate_cases:
  "launch_candidate s acc sid =
     (if \<not> startable s sid then acc
      else if conflicts_with_held_locks (record_definition (record_of s sid)) (search_held acc) then acc
      else if consumes_slot s sid \<and> available_slots acc = 0 then acc
      else \<lparr>available_slots = available_slots acc - (if consumes_slot s sid then 1 else 0),
            search_held = hold_locks (search_held acc) (record_definition (record_of s sid)),
            launchable = launchable acc @ [sid]\<rparr>)"
  by (auto simp: launch_candidate_def startable_def record_of_def split: option.split)

lemma launch_candidate_ok:
  assumes ok: "search_ok s seen acc" and new: "sid \<notin> set seen"
  shows "search_ok s (seen @ [sid]) (launch_candidate s acc sid)"
proof -
  let ?d = "record_definition (record_of s sid)"
  have held: "search_held acc = held_locks_of (holders s (launchable acc))" using ok by (simp add: search_ok_def)
  note conf = conflicts_held_iff[of ?d "holders s (launchable acc)", folded held]
  show ?thesis
  proof (cases "startable s sid \<and> \<not> conflicts_with_held_locks ?d (search_held acc) \<and>
      \<not> (consumes_slot s sid \<and> available_slots acc = 0)")
    case False
    then have e: "launch_candidate s acc sid = acc" by (auto simp: launch_candidate_cases)
    have "startable s sid \<Longrightarrow> (\<exists>r\<in>set (holders s (launchable acc)). locks_conflict ?d (record_definition r)) \<or>
        consumes_slot s sid \<and> available_slots acc = 0"
      using False conf by blast
    then show ?thesis using ok unfolding e search_ok_def by auto
  next
    case True
    let ?acc = "\<lparr>available_slots = available_slots acc - (if consumes_slot s sid then 1 else 0),
            search_held = hold_locks (search_held acc) ?d, launchable = launchable acc @ [sid]\<rparr>"
    have e: "launch_candidate s acc sid = ?acc" using True unfolding launch_candidate_cases by argo
    have grow: "holders s (launchable acc @ [sid]) = holders s (launchable acc) @ [record_of s sid]"
      by (simp add: holders_def)
    have free: "\<forall>r\<in>set (holders s (launchable acc)). \<not> locks_conflict ?d (record_definition r)"
      using True conf by blast
    have "\<forall>us i vs. launchable acc @ [sid] = us @ i # vs \<longrightarrow>
        (\<forall>r\<in>set (holders s us). \<not> locks_conflict (record_definition (record_of s i)) (record_definition r))"
    proof (intro allI impI)
      fix us i vs assume "launchable acc @ [sid] = us @ i # vs"
      then consider "us = launchable acc" "i = sid" | vs' where "launchable acc = us @ i # vs'"
        by (cases vs rule: rev_cases) auto
      then show "\<forall>r\<in>set (holders s us). \<not> locks_conflict (record_definition (record_of s i)) (record_definition r)"
        using free ok unfolding search_ok_def by cases blast+
    qed
    moreover have "sid \<notin> set (launchable acc)" using ok new by (auto simp: search_ok_def)
    moreover have "0 \<le> available_slots ?acc" using ok True by (auto simp: search_ok_def)
    moreover have "available_slots ?acc = free_slots s - int (length (filter (consumes_slot s) (launchable ?acc)))"
      using ok by (simp add: search_ok_def)
    moreover have "search_held ?acc = held_locks_of (holders s (launchable ?acc))"
      by (simp add: held held_locks_snoc grow)
    moreover have "\<forall>i\<in>set (seen @ [sid]). startable s i \<and> i \<notin> set (launchable ?acc) \<longrightarrow>
        (\<exists>r\<in>set (holders s (launchable ?acc)). locks_conflict (record_definition (record_of s i)) (record_definition r)) \<or>
        consumes_slot s i \<and> available_slots ?acc = 0"
    proof (intro ballI impI)
      fix i assume "i \<in> set (seen @ [sid])" and i: "startable s i \<and> i \<notin> set (launchable ?acc)"
      then have "i \<in> set seen" by auto
      with ok i have "(\<exists>r\<in>set (holders s (launchable acc)). locks_conflict (record_definition (record_of s i)) (record_definition r)) \<or>
          consumes_slot s i \<and> available_slots acc = 0"
        unfolding search_ok_def by auto
      then show "(\<exists>r\<in>set (holders s (launchable ?acc)). locks_conflict (record_definition (record_of s i)) (record_definition r)) \<or>
        consumes_slot s i \<and> available_slots ?acc = 0"
        using True by (auto simp: grow)
    qed
    ultimately show ?thesis
      using ok True unfolding e search_ok_def by auto
  qed
qed

lemma initial_search_ok: "search_ok s [] (initial_search s)"
  by (simp add: search_ok_def initial_search_def free_slots_def holders_def)

lemma launch_search_ok:
  assumes "distinct order"
  shows "search_ok s order (foldl (launch_candidate s) (initial_search s) order)"
  using assms
proof (induction order rule: rev_induct)
  case (snoc sid order)
  then show ?case using launch_candidate_ok[of s order _ sid] by simp
qed (simp add: initial_search_ok)

lemma launchable_steps_sound:
  assumes "graph_ok s"
  shows "distinct (launchable_steps s)"
    "i \<in> set (launchable_steps s) \<Longrightarrow> startable s i"
    "i \<in> set (launchable_steps s) \<Longrightarrow> r \<in> set (running_records s) \<Longrightarrow>
       \<not> locks_conflict (record_definition (record_of s i)) (record_definition r)"
    "i \<in> set (launchable_steps s) \<Longrightarrow> j \<in> set (launchable_steps s) \<Longrightarrow> i \<noteq> j \<Longrightarrow>
       \<not> locks_conflict (record_definition (record_of s i)) (record_definition (record_of s j))"
    "int (length (filter (consumes_slot s) (launchable_steps s))) \<le> free_slots s"
proof -
  let ?acc = "foldl (launch_candidate s) (initial_search s) (topological_step_ids (run_plan s))"
  have ok: "search_ok s (topological_step_ids (run_plan s)) ?acc"
    using graph_ok_order(1)[OF assms] by (rule launch_search_ok)
  have L: "launchable_steps s = launchable ?acc" by (simp add: launchable_steps_def)
  have before: "\<not> locks_conflict (record_definition (record_of s k)) (record_definition r)"
    if "launchable_steps s = us @ k # vs" "r \<in> set (holders s us)" for us k vs r
    using ok that unfolding search_ok_def L by blast
  show "distinct (launchable_steps s)" "i \<in> set (launchable_steps s) \<Longrightarrow> startable s i"
    "int (length (filter (consumes_slot s) (launchable_steps s))) \<le> free_slots s"
    using ok by (auto simp: search_ok_def L)
  show "\<not> locks_conflict (record_definition (record_of s i)) (record_definition r)"
    if ir: "i \<in> set (launchable_steps s)" "r \<in> set (running_records s)"
  proof -
    obtain us vs where "launchable_steps s = us @ i # vs" using ir(1) by (meson split_list)
    from before[OF this, of r] ir(2) show ?thesis by (simp add: holders_def)
  qed
  show "\<not> locks_conflict (record_definition (record_of s i)) (record_definition (record_of s j))"
    if ij: "i \<in> set (launchable_steps s)" "j \<in> set (launchable_steps s)" "i \<noteq> j"
  proof -
    obtain us vs where o: "launchable_steps s = us @ i # vs" using ij(1) by (meson split_list)
    then consider "j \<in> set us" | "j \<in> set vs" using ij(2,3) by auto
    then show ?thesis
    proof cases
      case 1
      then show ?thesis using before[OF o] by (auto simp: holders_def)
    next
      case 2
      then obtain vs1 vs2 where "vs = vs1 @ j # vs2" by (meson split_list)
      then have "launchable_steps s = (us @ i # vs1) @ j # vs2" by (simp add: o)
      from before[OF this] show ?thesis by (auto simp: holders_def locks_conflict_sym)
    qed
  qed
qed

lemma launchable_steps_maximal:
  assumes "graph_ok s" and "startable s i" and "i \<notin> set (launchable_steps s)"
  shows "(\<exists>r\<in>set (running_records s) \<union> record_of s ` set (launchable_steps s).
      locks_conflict (record_definition (record_of s i)) (record_definition r)) \<or>
    consumes_slot s i \<and> int (length (filter (consumes_slot s) (launchable_steps s))) = free_slots s"
proof -
  let ?acc = "foldl (launch_candidate s) (initial_search s) (topological_step_ids (run_plan s))"
  have ok: "search_ok s (topological_step_ids (run_plan s)) ?acc"
    using graph_ok_order(1)[OF assms(1)] by (rule launch_search_ok)
  have "i \<in> set (obj_keys (run_steps s))"
    using assms(2) obj_get_Some_key unfolding startable_def by metis
  then have "i \<in> set (topological_step_ids (run_plan s))" by (simp add: graph_ok_order(2)[OF assms(1)])
  then have "(\<exists>r\<in>set (holders s (launchable ?acc)). locks_conflict (record_definition (record_of s i)) (record_definition r)) \<or>
      consumes_slot s i \<and> available_slots ?acc = 0"
    using ok assms(2,3) unfolding search_ok_def launchable_steps_def by blast
  moreover have "available_slots ?acc = free_slots s - int (length (filter (consumes_slot s) (launchable_steps s)))"
    using ok by (simp add: search_ok_def launchable_steps_def)
  ultimately show ?thesis by (auto simp: holders_def launchable_steps_def)
qed

lemma launchable_step_ids_Inr:
  assumes "launchable_step_ids s = Inr L" and "i \<in> set L"
  shows "run_state s = RunRunning" "L = launchable_steps (reconcile_workflow_steps s)"
  using assms by (auto simp: launchable_step_ids_def Let_def split: if_splits option.splits)

lemma next_integrable_Some:
  "next_integrable ps steps xs = Some sid \<Longrightarrow>
   \<exists>us vs r. xs = us @ sid # vs \<and> obj_get steps sid = Some r \<and>
     step_requires_integration ps (record_definition r) \<and> \<not> truthy (record_integrated r) \<and>
     record_state r = Succeeded \<and>
     (\<forall>u\<in>set us. \<forall>q. obj_get steps u = Some q \<longrightarrow>
        \<not> step_requires_integration ps (record_definition q) \<or> truthy (record_integrated q))"
proof (induction xs)
  case (Cons x xs)
  show ?case
  proof (cases "obj_get steps x = None \<or> (\<exists>q. obj_get steps x = Some q \<and>
      (\<not> step_requires_integration ps (record_definition q) \<or> truthy (record_integrated q)))")
    case True
    then have "next_integrable ps steps xs = Some sid" using Cons.prems by (auto split: if_splits)
    from Cons.IH[OF this] obtain us vs r where "xs = us @ sid # vs" "obj_get steps sid = Some r"
     "step_requires_integration ps (record_definition r)" "\<not> truthy (record_integrated r)"
     "record_state r = Succeeded"
     "\<forall>u\<in>set us. \<forall>q. obj_get steps u = Some q \<longrightarrow>
        \<not> step_requires_integration ps (record_definition q) \<or> truthy (record_integrated q)"
      by blast
    then show ?thesis using True by (intro exI[of _ "x # us"] exI[of _ vs] exI[of _ r]) auto
  next
    case False
    then obtain q where "obj_get steps x = Some q" by auto
    with False Cons.prems have "sid = x" "record_state q = Succeeded" by (auto split: if_splits)
    with False \<open>obj_get steps x = Some q\<close> show ?thesis by (intro exI[of _ "[]"] exI[of _ xs] exI[of _ q]) auto
  qed
qed simp

end
