(* ===== verification/Admission.thy ===== *)
theory Admission
  imports Scheduler
begin

text \<open>
  \<open>src/src/engine/admission.ts\<close>: a running step proposes further steps for the run it belongs
  to. What enters the graph is bounded, appended at its end and within the frozen envelope.
\<close>

definition MAX_WORKFLOW_PLAN_STEPS :: nat where "MAX_WORKFLOW_PLAN_STEPS = 200"

definition lifecycle_text :: "lifecycle \<Rightarrow> string" where
  "lifecycle_text l = (case l of
       RunRunning \<Rightarrow> ''running'' | RunCompleted \<Rightarrow> ''completed''
     | RunFailed \<Rightarrow> ''failed'' | RunCancelled \<Rightarrow> ''cancelled'')"

definition step_state_text :: "step_state \<Rightarrow> string" where
  "step_state_text st = (case st of
       Planned \<Rightarrow> ''planned'' | Ready \<Rightarrow> ''ready'' | Running \<Rightarrow> ''running'' | Succeeded \<Rightarrow> ''succeeded''
     | Failed \<Rightarrow> ''failed'' | Blocked \<Rightarrow> ''blocked'' | Cancelled \<Rightarrow> ''cancelled'')"

record admission_request =
  request_steps :: "json list"
  request_by :: string
  request_reason :: string

definition require_running_proposer :: "run_state \<Rightarrow> string \<Rightarrow> unit result" where
  "require_running_proposer s proposer = (case obj_get (run_steps s) proposer of
       None \<Rightarrow> Inl (StepAdmissionError (''Step '' @ proposer @ '' is not part of run '' @ run_id s @
         '', so it cannot propose work for it'') [])
     | Some r \<Rightarrow>
         if record_state r \<noteq> Running then
           Inl (StepAdmissionError (''Step '' @ proposer @ '' is '' @ step_state_text (record_state r) @
             '', and only a running step can propose further work'') [])
         else Inr ())"

definition colliding_ids :: "workflow_plan \<Rightarrow> json list \<Rightarrow> string list" where
  "colliding_ids p proposed = concat (map (\<lambda>step.
     case get_prop (fields_of step) ''id'' of
       JString i \<Rightarrow> if i \<in> set (map step_id (plan_steps p)) then [i] else []
     | _ \<Rightarrow> []) proposed)"

definition grown_document :: "workflow_plan \<Rightarrow> json list \<Rightarrow> json" where
  "grown_document p proposed = JObject (obj_set (fields_of (workflow_plan_json p)) ''steps''
     (JArray (map step_json (plan_steps p) @ proposed)))"

text \<open>
  The code compares the \<open>JSON.stringify\<close> of the old steps before and after; for step
  definitions that is equality.
\<close>

definition grown_plan :: "run_state \<Rightarrow> json list \<Rightarrow> workflow_plan result" where
  "grown_plan s proposed =
     (let collisions = colliding_ids (run_plan s) proposed in
      if collisions \<noteq> [] then
        Inl (StepAdmissionError ''Proposed steps collide with steps this run already has''
          (map (\<lambda>i. ''step id '' @ i @ '' already exists'') (unique collisions)))
      else case validate_workflow_plan (grown_document (run_plan s) proposed) of
        Inl (PlanValidationError issues) \<Rightarrow>
          Inl (StepAdmissionError ''Proposed steps do not form a valid workflow plan'' (map issue_message issues))
      | Inl e \<Rightarrow> Inl e
      | Inr plan \<Rightarrow>
          if take (length (plan_steps (run_plan s))) (plan_steps plan) \<noteq> plan_steps (run_plan s) then
            Inl (StepAdmissionError ''Admitting steps cannot change the steps this run already has'' [])
          else Inr plan)"

definition add_records :: "step_record obj \<Rightarrow> step_definition list \<Rightarrow> step_record obj" where
  "add_records = foldl (\<lambda>steps d. obj_set steps (step_id d) (new_record Planned d))"

definition require_authority :: "run_state \<Rightarrow> frozen_authority result" where
  "require_authority s = (case run_authority s of
       None \<Rightarrow> Inl (StepAdmissionError (''Run '' @ run_id s @
         '' has no frozen authority envelope, so it cannot admit steps'') [])
     | Some a \<Rightarrow> Inr a)"

definition admit_steps :: "run_state \<Rightarrow> admission_request \<Rightarrow> string \<Rightarrow> run_state result" where
  "admit_steps s request time =
     and_then (require (run_state s = RunRunning) (StepAdmissionError (''Run '' @ run_id s @ '' is '' @
       lifecycle_text (run_state s) @ '', so it can no longer admit steps'') [])) (\<lambda>_.
     and_then (require_authority s) (\<lambda>authority.
     and_then (require (request_steps request \<noteq> [])
       (StepAdmissionError ''At least one step must be proposed'' [])) (\<lambda>_.
     and_then (require (trim (request_reason request) \<noteq> [])
       (StepAdmissionError ''Admitted steps must record why they exist'' [])) (\<lambda>_.
     and_then (require_running_proposer s (request_by request)) (\<lambda>_.
     and_then (require (length (plan_steps (run_plan s)) + length (request_steps request) \<le> MAX_WORKFLOW_PLAN_STEPS)
       (StepAdmissionError (''A run may hold at most '' @ js_nat MAX_WORKFLOW_PLAN_STEPS @
         '' steps, and this run already has '' @ js_nat (length (plan_steps (run_plan s)))) [])) (\<lambda>_.
     and_then (grown_plan s (request_steps request)) (\<lambda>plan.
     let admitted = drop (length (plan_steps (run_plan s))) (plan_steps plan);
         issues = plan_authority_issues plan (authority_envelope_of authority) (run_root s) (Some (run_profiles s))
     in if issues \<noteq> [] then Inl (AuthorityViolationError issues)
        else Inr (append_workflow_events
          (reconcile_workflow_steps (s\<lparr>run_plan := plan, run_steps := add_records (run_steps s) admitted,
             run_updated := time\<rparr>))
          (map (\<lambda>d. StepAdmitted (step_id d) (request_by request) (request_reason request)) admitted) time))))))))"

text \<open>\<open>admitWorkflowSteps\<close>: the admission as a transaction, and the steps it reports as admitted.\<close>

definition admit_workflow_steps ::
    "run_state \<Rightarrow> admission_request \<Rightarrow> string \<Rightarrow> (run_state \<times> step_definition list) result" where
  "admit_workflow_steps current request time =
     and_then (admit_steps current request time) (\<lambda>next.
       Inr (next, filter (\<lambda>d. step_id d \<notin> set (obj_keys (run_steps current))) (plan_steps (run_plan next))))"

subsection \<open>What an admission does\<close>

lemma grown_document_plan:
  assumes "wf_workflow_plan p" and "validate_workflow_plan (grown_document p proposed) = Inr q"
  shows "length (plan_steps q) = length (plan_steps p) + length proposed"
    "plan_title q = plan_title p" "plan_final q = plan_final p"
proof -
  let ?ob = "fields_of (grown_document p proposed)"
  have props: "get_prop ?ob ''title'' = JString (plan_title p)"
    "get_prop ?ob ''steps'' = JArray (map step_json (plan_steps p) @ proposed)"
    "get_prop ?ob ''finalValidationCommands'' = JArray (map command_json (plan_final p))"
    by (simp_all add: grown_document_def workflow_plan_json_def fields_of_def get_prop_def)
       (simp_all add: obj_get_def)
  have q: "plan_title q = fst (read_non_empty_string (get_prop ?ob ''title'') ''title'')"
    "plan_steps q = fst (read_plan_steps ?ob)"
    "\<exists>c. plan_final q = fst (read_final_validation c (get_prop ?ob ''finalValidationCommands''))"
    using assms(2) by (auto simp: validate_workflow_plan_def validate_workflow_plan_result_def Let_def
        split: sum.splits if_splits)
  have wf: "clean_string (plan_title p)" "list_all wf_command (plan_final p)"
    using assms(1) by (simp_all add: wf_workflow_plan_def)
  show "length (plan_steps q) = length (plan_steps p) + length proposed"
    by (simp add: q(2) read_plan_steps_def props)
  show "plan_title q = plan_title p" by (simp add: q(1) props read_non_empty_string_json[OF wf(1)])
  show "plan_final q = plan_final p"
  proof (cases "plan_final p = []")
    case True
    then show ?thesis using q(3) unfolding props by (auto simp: read_final_validation_def Let_def)
  next
    case False
    then show ?thesis using q(3) wf(2) unfolding props by (auto simp: read_final_validation_json)
  qed
qed

lemma grown_plan_Inr:
  assumes "wf_workflow_plan (run_plan s)" and "grown_plan s proposed = Inr q"
  shows "wf_workflow_plan q"
    "\<exists>extra. q = (run_plan s)\<lparr>plan_steps := plan_steps (run_plan s) @ extra\<rparr> \<and> length extra = length proposed"
proof -
  have v: "validate_workflow_plan (grown_document (run_plan s) proposed) = Inr q"
    and t: "take (length (plan_steps (run_plan s))) (plan_steps q) = plan_steps (run_plan s)"
    using assms(2) by (auto simp: grown_plan_def Let_def split: if_splits sum.splits js_error.splits)
  show "wf_workflow_plan q" by (rule validate_workflow_plan_sound[OF v])
  note doc = grown_document_plan[OF assms(1) v]
  let ?extra = "drop (length (plan_steps (run_plan s))) (plan_steps q)"
  have "plan_steps q = plan_steps (run_plan s) @ ?extra" by (metis t append_take_drop_id)
  then have "q = (run_plan s)\<lparr>plan_steps := plan_steps (run_plan s) @ ?extra\<rparr>" using doc(2,3) by simp
  moreover have "length ?extra = length proposed" using doc(1) by simp
  ultimately show "\<exists>extra. q = (run_plan s)\<lparr>plan_steps := plan_steps (run_plan s) @ extra\<rparr> \<and>
      length extra = length proposed" by blast
qed

lemma add_records_fresh:
  assumes "distinct (map step_id ds)" and "set (map step_id ds) \<inter> set (obj_keys ob) = {}"
  shows "add_records ob ds = ob @ map (\<lambda>d. (step_id d, new_record Planned d)) ds"
  using assms
proof (induction ds arbitrary: ob)
  case (Cons d ds)
  have "obj_set ob (step_id d) (new_record Planned d) = ob @ [(step_id d, new_record Planned d)]"
    using Cons.prems(2) by (intro obj_set_new) auto
  moreover have "add_records (ob @ [(step_id d, new_record Planned d)]) ds =
      (ob @ [(step_id d, new_record Planned d)]) @ map (\<lambda>d. (step_id d, new_record Planned d)) ds"
    by (rule Cons.IH) (use Cons.prems in \<open>auto simp: obj_keys_def\<close>)
  ultimately show ?case by (simp add: add_records_def)
qed (simp add: add_records_def)

definition grown_run :: "run_state \<Rightarrow> step_definition list \<Rightarrow> string \<Rightarrow> run_state" where
  "grown_run s extra time =
     s\<lparr>run_plan := (run_plan s)\<lparr>plan_steps := plan_steps (run_plan s) @ extra\<rparr>,
       run_steps := run_steps s @ map (\<lambda>d. (step_id d, new_record Planned d)) extra, run_updated := time\<rparr>"

text \<open>
  An admission in one lemma: the guards it passed, and the new run as the reconciliation of
  the old one with records appended for the admitted steps.
\<close>

lemma admit_steps_Inr:
  assumes "graph_ok s" and "admit_steps s request time = Inr s'"
  obtains a extra where
    "run_state s = RunRunning" "run_authority s = Some a"
    "trim (request_reason request) \<noteq> []"
    "\<exists>r. obj_get (run_steps s) (request_by request) = Some r \<and> record_state r = Running"
    "extra \<noteq> []" "length extra = length (request_steps request)"
    "length (plan_steps (run_plan s) @ extra) \<le> MAX_WORKFLOW_PLAN_STEPS"
    "wf_workflow_plan (run_plan (grown_run s extra time))"
    "plan_within (run_plan (grown_run s extra time)) (authority_envelope_of a) (run_root s) (Some (run_profiles s))"
    "s' = append_workflow_events (reconcile_workflow_steps (grown_run s extra time))
       (map (\<lambda>d. StepAdmitted (step_id d) (request_by request) (request_reason request)) extra) time"
proof -
  let ?old = "length (plan_steps (run_plan s))"
  let ?result = "\<lambda>q. append_workflow_events (reconcile_workflow_steps (s\<lparr>run_plan := q,
        run_steps := add_records (run_steps s) (drop ?old (plan_steps q)), run_updated := time\<rparr>))
      (map (\<lambda>d. StepAdmitted (step_id d) (request_by request) (request_reason request))
        (drop ?old (plan_steps q))) time"
  from assms(2) obtain a q u where g: "run_state s = RunRunning" "require_authority s = Inr a"
    "request_steps request \<noteq> []" "trim (request_reason request) \<noteq> []"
    "require_running_proposer s (request_by request) = Inr u"
    "?old + length (request_steps request) \<le> MAX_WORKFLOW_PLAN_STEPS"
    "grown_plan s (request_steps request) = Inr q"
    and last: "(if plan_authority_issues q (authority_envelope_of a) (run_root s) (Some (run_profiles s)) \<noteq> []
      then Inl (AuthorityViolationError (plan_authority_issues q (authority_envelope_of a) (run_root s)
        (Some (run_profiles s)))) else Inr (?result q)) = Inr s'"
    unfolding admit_steps_def and_then_Inr require_Inr Let_def by blast
  have g': "plan_authority_issues q (authority_envelope_of a) (run_root s) (Some (run_profiles s)) = []"
    "s' = ?result q" using last by (simp_all split: if_splits)
  have a: "run_authority s = Some a" using g(2) by (simp add: require_authority_def split: option.splits)
  have wfp: "wf_workflow_plan (run_plan s)" using assms(1) by (simp add: graph_ok_def)
  note grown = grown_plan_Inr[OF wfp g(7)]
  then obtain extra where q: "q = (run_plan s)\<lparr>plan_steps := plan_steps (run_plan s) @ extra\<rparr>"
    and len: "length extra = length (request_steps request)" by blast
  have extra: "drop (length (plan_steps (run_plan s))) (plan_steps q) = extra" by (simp add: q)
  have "distinct (map step_id (plan_steps q))" by (rule wf_workflow_planD(1)[OF grown(1)])
  then have "add_records (run_steps s) extra = run_steps s @ map (\<lambda>d. (step_id d, new_record Planned d)) extra"
    using graph_ok_keys[OF assms(1)] by (intro add_records_fresh) (auto simp: q)
  moreover have "\<exists>r. obj_get (run_steps s) (request_by request) = Some r \<and> record_state r = Running"
    using g(5) by (auto simp: require_running_proposer_def split: option.splits if_splits)
  moreover have "extra \<noteq> []" using g(3) len by auto
  ultimately show ?thesis
    using g(1,4,6) g' a grown(1) len
    by (intro that[of a extra]) (simp_all add: q plan_authority_issues_Nil grown_run_def)
qed

lemma grown_run_graph:
  "graph_ok s \<Longrightarrow> wf_workflow_plan (run_plan (grown_run s extra time)) \<Longrightarrow> graph_ok (grown_run s extra time)"
  by (simp add: graph_ok_def comp_def new_record_def grown_run_def)

lemma graph_ok_append [simp]: "graph_ok (append_workflow_events s bs time) \<longleftrightarrow> graph_ok s"
  by (simp add: graph_ok_def)

lemma admit_steps_graph_ok:
  assumes "graph_ok s" and "admit_steps s request time = Inr s'"
  shows "graph_ok s'"
  by (rule admit_steps_Inr[OF assms]) (simp add: grown_run_graph reconcile_graph_ok assms(1))

end
