(* ===== verification/Artifacts.thy ===== *)
theory Artifacts
  imports WorkflowState
begin

text \<open>
  \<open>src/src/domain/artifacts.ts\<close>: artifact identities and their textual ids, payloads, and the
  validation of a stored artifact record. The SHA-256 digest in hexadecimal is the argument
  \<open>sha\<close>; \<open>JSON.stringify(_, null, 2)\<close> and \<open>JSON.parse\<close> are \<open>to_text\<close> and \<open>of_text\<close>
  (\<^const>\<open>None\<close> when the text is not JSON).
\<close>

subsection \<open>Kinds and formats\<close>

datatype payload_format = JsonFormat | TextFormat

definition ARTIFACT_KINDS :: "artifact_kind list" where
  "ARTIFACT_KINDS = [Report, Decision, Findings, TestEvidence, Patch, Commit, MergeCandidate]"

definition artifact_kind_text :: "artifact_kind \<Rightarrow> string" where
  "artifact_kind_text k = (case k of
       Report \<Rightarrow> ''report''
     | Decision \<Rightarrow> ''decision''
     | Findings \<Rightarrow> ''findings''
     | TestEvidence \<Rightarrow> ''test-evidence''
     | Patch \<Rightarrow> ''patch''
     | Commit \<Rightarrow> ''commit''
     | MergeCandidate \<Rightarrow> ''merge-candidate'')"

definition format_text :: "payload_format \<Rightarrow> string" where
  "format_text f = (case f of JsonFormat \<Rightarrow> ''json'' | TextFormat \<Rightarrow> ''text'')"

definition ARTIFACT_KIND_FORMATS :: "artifact_kind \<Rightarrow> payload_format" where
  "ARTIFACT_KIND_FORMATS k = (case k of
       Report \<Rightarrow> TextFormat
     | Patch \<Rightarrow> TextFormat
     | _ \<Rightarrow> JsonFormat)"

definition ARTIFACT_KIND_MEDIA_TYPES :: "artifact_kind \<Rightarrow> string" where
  "ARTIFACT_KIND_MEDIA_TYPES k = (case k of
       Report \<Rightarrow> ''text/markdown''
     | Patch \<Rightarrow> ''text/x-patch''
     | _ \<Rightarrow> ''application/json'')"

definition MAX_ARTIFACT_TITLE_LENGTH :: nat where "MAX_ARTIFACT_TITLE_LENGTH = 200"
definition MAX_ARTIFACT_ID_LENGTH :: nat where "MAX_ARTIFACT_ID_LENGTH = 200"
definition MAX_ARTIFACT_ATTEMPT :: nat where "MAX_ARTIFACT_ATTEMPT = 9999"

definition artifact_kind_of :: "string \<Rightarrow> artifact_kind option" where
  "artifact_kind_of s = find (\<lambda>k. artifact_kind_text k = s) ARTIFACT_KINDS"

lemma artifact_kind_of_text [simp]: "artifact_kind_of (artifact_kind_text k) = Some k"
  by (cases k) (simp_all add: artifact_kind_of_def ARTIFACT_KINDS_def artifact_kind_text_def)

lemma artifact_kind_of_Some: "artifact_kind_of s = Some k \<longleftrightarrow> s = artifact_kind_text k"
  by (auto simp: artifact_kind_of_def dest: find_SomeD)
     (simp add: artifact_kind_of_def[symmetric])

subsection \<open>Identities\<close>

text \<open>The attempt is a JavaScript number, checked before it is rendered.\<close>

record artifact_identity =
  identity_step :: string
  identity_output :: string
  identity_attempt :: rat

datatype artifact_payload = JsonPayload json | TextPayload string

record artifact_summary =
  artifact_id :: string
  artifact_run :: string
  artifact_step :: string
  artifact_output :: string
  artifact_attempt :: rat
  artifact_kind :: artifact_kind
  artifact_media :: string
  artifact_title :: string
  artifact_created :: string
  artifact_size :: nat
  artifact_hash :: string

record artifact_record = artifact_summary +
  artifact_text :: string

definition summary_of :: "artifact_record \<Rightarrow> artifact_summary" where
  "summary_of r = artifact_summary.truncate r"

definition assert_name :: "string \<Rightarrow> string \<Rightarrow> unit result" where
  "assert_name v label = require (name_pattern v)
     (Error (label @ '' '' @ json_quote v @ '' must match '' @ NAME_PATTERN_TEXT))"

definition assert_attempt :: "rat \<Rightarrow> unit result" where
  "assert_attempt n = require
     (is_safe_integer (JNum n) \<and> 1 \<le> to_int (JNum n) \<and> to_int (JNum n) \<le> int MAX_ARTIFACT_ATTEMPT)
     (Error (''artifact attempt must be an integer from 1 to '' @ js_nat MAX_ARTIFACT_ATTEMPT))"

definition identity_text :: "artifact_identity \<Rightarrow> string" where
  "identity_text i = identity_step i @ ''.'' @ identity_output i @ ''.'' @
     js_nat (nat (to_int (JNum (identity_attempt i))))"

definition artifact_id_for :: "artifact_identity \<Rightarrow> string result" where
  "artifact_id_for i =
     and_then (assert_name (identity_step i) ''artifact stepId'') (\<lambda>_.
     and_then (assert_name (identity_output i) ''artifact output'') (\<lambda>_.
     and_then (assert_attempt (identity_attempt i)) (\<lambda>_.
     if MAX_ARTIFACT_ID_LENGTH < length (identity_text i) then
       Inl (Error (''artifact id '' @ json_quote (identity_text i) @ '' exceeds '' @
         js_nat MAX_ARTIFACT_ID_LENGTH @ '' characters''))
     else Inr (identity_text i))))"

definition digits_value :: "string \<Rightarrow> nat" where
  "digits_value s = foldl (\<lambda>n c. 10 * n + (of_char c - 48)) 0 s"

definition parse_artifact_id :: "string \<Rightarrow> artifact_identity result" where
  "parse_artifact_id s = (case split_on (CHR ''.'') s of
       [sid, out, attempt_text] \<Rightarrow>
         if attempt_text = [] \<or> \<not> list_all digit attempt_text then
           Inl (Error (''artifact id '' @ json_quote s @ '' must end with a positive attempt number''))
         else
           let i = \<lparr>identity_step = sid, identity_output = out,
                    identity_attempt = of_nat (digits_value attempt_text)\<rparr>
           in and_then (artifact_id_for i) (\<lambda>_. Inr i)
     | _ \<Rightarrow> Inl (Error (''artifact id '' @ json_quote s @ '' must be <stepId>.<output>.<attempt>'')))"

subsection \<open>Payloads\<close>

text \<open>\<open>Buffer.byteLength(text, "utf8")\<close>: one byte below 128, two for the other Latin-1 code units.\<close>

definition byte_length :: "string \<Rightarrow> nat" where
  "byte_length s = sum_list (map (\<lambda>c. if of_char c < (128 :: nat) then 1 else 2) s)"

definition payload_format_of :: "artifact_payload \<Rightarrow> payload_format" where
  "payload_format_of p = (case p of JsonPayload _ \<Rightarrow> JsonFormat | TextPayload _ \<Rightarrow> TextFormat)"

definition serialize_artifact_payload ::
  "(json \<Rightarrow> string) \<Rightarrow> artifact_kind \<Rightarrow> artifact_payload \<Rightarrow> string result" where
  "serialize_artifact_payload to_text k p =
     (let format = ARTIFACT_KIND_FORMATS k in
      if payload_format_of p \<noteq> format then
        Inl (Error (artifact_kind_text k @ '' artifacts require a '' @ format_text format @
          '' payload, received '' @ format_text (payload_format_of p)))
      else case p of
        TextPayload text \<Rightarrow> Inr text
      | JsonPayload v \<Rightarrow>
          if v = JUndefined then
            Inl (Error (artifact_kind_text k @ '' artifacts cannot store an undefined JSON value''))
          else Inr (to_text v))"

definition parse_artifact_payload ::
  "(string \<Rightarrow> json option) \<Rightarrow> artifact_kind \<Rightarrow> string \<Rightarrow> artifact_payload result" where
  "parse_artifact_payload of_text k text =
     (if ARTIFACT_KIND_FORMATS k = TextFormat then Inr (TextPayload text)
      else case of_text text of
        None \<Rightarrow> Inl (Error (artifact_kind_text k @ '' artifact payload is not valid JSON''))
      | Some v \<Rightarrow> Inr (JsonPayload v))"

definition artifact_content_hash :: "(string \<Rightarrow> string) \<Rightarrow> string \<Rightarrow> string" where
  "artifact_content_hash sha payload = ''sha256:'' @ sha payload"

definition hex_character :: "char \<Rightarrow> bool" where
  "hex_character c \<longleftrightarrow> digit c \<or> in_range 97 102 c"

definition content_hash_pattern :: "string \<Rightarrow> bool" where
  "content_hash_pattern s \<longleftrightarrow> starts_with s ''sha256:'' \<and> length s = 71 \<and> list_all hex_character (drop 7 s)"

text \<open>The pattern \<open>/^[a-zA-Z0-9][a-zA-Z0-9_-]*$/\<close> of run ids.\<close>

definition run_id_pattern :: "string \<Rightarrow> bool" where
  "run_id_pattern s = (case s of [] \<Rightarrow> False
     | c # cs \<Rightarrow> (lower_letter c \<or> upper_letter c \<or> digit c) \<and>
         list_all (\<lambda>d. lower_letter d \<or> upper_letter d \<or> digit d \<or> d = CHR ''_'' \<or> d = CHR ''-'') cs)"

definition RUN_ID_PATTERN_TEXT :: string where
  "RUN_ID_PATTERN_TEXT = ''/^[a-zA-Z0-9][a-zA-Z0-9_-]*$/''"

subsection \<open>Stored records\<close>

definition assert_string :: "json \<Rightarrow> string \<Rightarrow> string result" where
  "assert_string v path = (case v of
       JString s \<Rightarrow> if s = [] then Inl (Error (path @ '' must be a non-empty string'')) else Inr s
     | _ \<Rightarrow> Inl (Error (path @ '' must be a non-empty string'')))"

definition stored_identity :: "json obj \<Rightarrow> (artifact_identity \<times> string) result" where
  "stored_identity ob =
     and_then (assert_string (get_prop ob ''stepId'') ''artifact.stepId'') (\<lambda>sid.
     and_then (assert_string (get_prop ob ''output'') ''artifact.output'') (\<lambda>out.
     case get_prop ob ''attempt'' of
       JNum n \<Rightarrow>
         (let i = \<lparr>identity_step = sid, identity_output = out, identity_attempt = n\<rparr>
          in and_then (artifact_id_for i) (\<lambda>s. Inr (i, s)))
     | _ \<Rightarrow> Inl (Error ''artifact.attempt must be a number'')))"

definition stored_kind :: "json obj \<Rightarrow> artifact_kind result" where
  "stored_kind ob = (case (case get_prop ob ''kind'' of JString s \<Rightarrow> artifact_kind_of s | _ \<Rightarrow> None) of
       None \<Rightarrow> Inl (Error (''artifact.kind must be one of '' @
         join '', '' (map artifact_kind_text ARTIFACT_KINDS)))
     | Some k \<Rightarrow> Inr k)"

definition stored_payload :: "(string \<Rightarrow> string) \<Rightarrow> json obj \<Rightarrow> string result" where
  "stored_payload sha ob = (case get_prop ob ''payload'' of
       JString payload \<Rightarrow>
         and_then (require (get_prop ob ''sizeBytes'' = JNum (of_nat (byte_length payload)))
           (Error ''artifact.sizeBytes does not match the stored payload'')) (\<lambda>_.
         case get_prop ob ''contentHash'' of
           JString h \<Rightarrow>
             and_then (require (content_hash_pattern h)
               (Error ''artifact.contentHash must be a sha256:<hex> digest'')) (\<lambda>_.
             and_then (require (h = artifact_content_hash sha payload)
               (Error ''artifact.contentHash does not match the stored payload'')) (\<lambda>_. Inr payload))
         | _ \<Rightarrow> Inl (Error ''artifact.contentHash must be a sha256:<hex> digest''))
     | _ \<Rightarrow> Inl (Error ''artifact.payload must be a string''))"

definition validate_artifact_record ::
  "(string \<Rightarrow> string) \<Rightarrow> (string \<Rightarrow> json option) \<Rightarrow> json \<Rightarrow> artifact_record result" where
  "validate_artifact_record sha of_text v =
     and_then (require (is_record v) (Error ''artifact record must be an object'')) (\<lambda>_.
     let ob = fields_of v in
     and_then (require (get_prop ob ''version'' = JNum 1) (Error ''artifact record version must be 1'')) (\<lambda>_.
     and_then (assert_string (get_prop ob ''id'') ''artifact.id'') (\<lambda>given.
     and_then (assert_string (get_prop ob ''runId'') ''artifact.runId'') (\<lambda>run.
     and_then (require (run_id_pattern run)
       (Error (''artifact.runId must match '' @ RUN_ID_PATTERN_TEXT))) (\<lambda>_.
     and_then (stored_identity ob) (\<lambda>(i, s).
     and_then (require (given = s) (Error (''artifact.id '' @ json_quote given @
       '' does not match its identity '' @ json_quote s))) (\<lambda>_.
     and_then (stored_kind ob) (\<lambda>k.
     and_then (require (get_prop ob ''mediaType'' = JString (ARTIFACT_KIND_MEDIA_TYPES k))
       (Error (''artifact.mediaType must be '' @ ARTIFACT_KIND_MEDIA_TYPES k @ '' for '' @
         artifact_kind_text k @ '' artifacts''))) (\<lambda>_.
     and_then (assert_string (get_prop ob ''title'') ''artifact.title'') (\<lambda>title.
     and_then (require (length title \<le> MAX_ARTIFACT_TITLE_LENGTH)
       (Error (''artifact.title exceeds '' @ js_nat MAX_ARTIFACT_TITLE_LENGTH @ '' characters''))) (\<lambda>_.
     and_then (assert_string (get_prop ob ''createdAt'') ''artifact.createdAt'') (\<lambda>created.
     and_then (stored_payload sha ob) (\<lambda>payload.
     and_then (parse_artifact_payload of_text k payload) (\<lambda>_.
     Inr \<lparr>artifact_id = s, artifact_run = run, artifact_step = identity_step i,
          artifact_output = identity_output i, artifact_attempt = identity_attempt i,
          artifact_kind = k, artifact_media = ARTIFACT_KIND_MEDIA_TYPES k, artifact_title = title,
          artifact_created = created, artifact_size = byte_length payload,
          artifact_hash = artifact_content_hash sha payload, artifact_text = payload\<rparr>))))))))))))))"

text \<open>The stored form, in the order the store writes the fields.\<close>

definition artifact_json :: "artifact_record \<Rightarrow> json" where
  "artifact_json r = JObject
     [(''version'', JNum 1), (''id'', JString (artifact_id r)), (''runId'', JString (artifact_run r)),
      (''stepId'', JString (artifact_step r)), (''output'', JString (artifact_output r)),
      (''attempt'', JNum (artifact_attempt r)), (''kind'', JString (artifact_kind_text (artifact_kind r))),
      (''mediaType'', JString (artifact_media r)), (''title'', JString (artifact_title r)),
      (''createdAt'', JString (artifact_created r)), (''sizeBytes'', JNum (of_nat (artifact_size r))),
      (''contentHash'', JString (artifact_hash r)), (''payload'', JString (artifact_text r))]"

definition record_identity :: "artifact_record \<Rightarrow> artifact_identity" where
  "record_identity r = \<lparr>identity_step = artifact_step r, identity_output = artifact_output r,
     identity_attempt = artifact_attempt r\<rparr>"

definition wf_artifact :: "(string \<Rightarrow> string) \<Rightarrow> (string \<Rightarrow> json option) \<Rightarrow> artifact_record \<Rightarrow> bool" where
  "wf_artifact sha of_text r \<longleftrightarrow>
     artifact_id_for (record_identity r) = Inr (artifact_id r) \<and>
     run_id_pattern (artifact_run r) \<and>
     artifact_media r = ARTIFACT_KIND_MEDIA_TYPES (artifact_kind r) \<and>
     artifact_title r \<noteq> [] \<and> length (artifact_title r) \<le> MAX_ARTIFACT_TITLE_LENGTH \<and>
     artifact_created r \<noteq> [] \<and>
     artifact_size r = byte_length (artifact_text r) \<and>
     artifact_hash r = artifact_content_hash sha (artifact_text r) \<and>
     content_hash_pattern (artifact_hash r) \<and>
     (ARTIFACT_KIND_FORMATS (artifact_kind r) = JsonFormat \<longrightarrow> of_text (artifact_text r) \<noteq> None)"

subsection \<open>Ids and identities\<close>

lemma split_on_no_sep: "c \<notin> set xs \<Longrightarrow> split_on c xs = [xs]"
  by (induction xs) auto

lemma split_on_nonempty: "split_on c xs \<noteq> []"
  by (induction xs) (auto split: list.splits)

lemma split_on_append: "c \<notin> set xs \<Longrightarrow> split_on c (xs @ c # ys) = xs # split_on c ys"
  by (induction xs) auto

lemma name_pattern_no_dot: "name_pattern s \<Longrightarrow> CHR ''.'' \<notin> set s"
  by (cases s) (auto simp: name_pattern_def list_all_iff lower_letter_def digit_def in_range_def)

lemma digits_value_snoc: "digits_value (s @ [c]) = 10 * digits_value s + (of_char c - 48)"
  by (simp add: digits_value_def)

lemma digit_char: "n < 10 \<Longrightarrow> digit (''0123456789'' ! n) \<and> of_char (''0123456789'' ! n) = 48 + n"
proof -
  assume "n < 10"
  then have "n \<in> {0, 1, 2, 3, 4, 5, 6, 7, 8, 9}" by auto
  then show ?thesis by (auto simp: digit_def in_range_def)
qed

lemma js_nat_digits: "js_nat n \<noteq> [] \<and> list_all digit (js_nat n) \<and> digits_value (js_nat n) = n"
proof (induction n rule: less_induct)
  case (less n)
  show ?case
  proof (cases "n < 10")
    case True
    then show ?thesis using digit_char[OF True] by (subst (1 2 3) js_nat.simps) (simp add: digits_value_def)
  next
    case False
    then have "n div 10 < n" by simp
    note ih = less[OF this]
    have "js_nat n = js_nat (n div 10) @ [''0123456789'' ! (n mod 10)]"
      using False by (subst js_nat.simps) simp
    with ih digit_char[of "n mod 10"] show ?thesis by (simp add: digits_value_snoc)
  qed
qed

lemma artifact_id_for_Inr:
  "artifact_id_for i = Inr s \<longleftrightarrow>
     name_pattern (identity_step i) \<and> name_pattern (identity_output i) \<and>
     (\<exists>n. identity_attempt i = of_nat n \<and> 1 \<le> n \<and> n \<le> MAX_ARTIFACT_ATTEMPT) \<and>
     length s \<le> MAX_ARTIFACT_ID_LENGTH \<and> s = identity_text i"
proof -
  have "assert_attempt q = Inr () \<longleftrightarrow> (\<exists>n. q = of_nat n \<and> 1 \<le> n \<and> n \<le> MAX_ARTIFACT_ATTEMPT)" for q
  proof
    assume "assert_attempt q = Inr ()"
    then have q: "of_int \<lfloor>q\<rfloor> = q" "1 \<le> \<lfloor>q\<rfloor>" "\<lfloor>q\<rfloor> \<le> int MAX_ARTIFACT_ATTEMPT"
      by (auto simp: assert_attempt_def is_safe_integer_def to_int_def)
    then have "q = of_nat (nat \<lfloor>q\<rfloor>)" by (metis of_nat_nat order_trans zero_le_one)
    with q(2,3) show "\<exists>n. q = of_nat n \<and> 1 \<le> n \<and> n \<le> MAX_ARTIFACT_ATTEMPT"
      by (intro exI[of _ "nat \<lfloor>q\<rfloor>"]) auto
  next
    assume "\<exists>n. q = of_nat n \<and> 1 \<le> n \<and> n \<le> MAX_ARTIFACT_ATTEMPT"
    then obtain n where "q = of_nat n" "1 \<le> n" "n \<le> MAX_ARTIFACT_ATTEMPT" by blast
    then show "assert_attempt q = Inr ()"
      by (simp add: assert_attempt_def is_safe_integer_def to_int_def MAX_ARTIFACT_ATTEMPT_def)
  qed
  then show ?thesis
    by (auto simp: artifact_id_for_def and_then_Inr assert_name_def)
qed

lemma parse_artifact_id_for:
  assumes "artifact_id_for i = Inr s"
  shows "parse_artifact_id s = Inr i"
proof -
  from assms obtain n where i: "name_pattern (identity_step i)" "name_pattern (identity_output i)"
      "identity_attempt i = of_nat n" "s = identity_text i"
    by (auto simp: artifact_id_for_Inr)
  have dots: "CHR ''.'' \<notin> set (js_nat n)"
    using js_nat_digits[of n] by (auto simp: list_all_iff digit_def in_range_def)
  have "split_on (CHR ''.'') s = [identity_step i, identity_output i, js_nat n]"
    using i dots name_pattern_no_dot[OF i(1)] name_pattern_no_dot[OF i(2)]
    by (simp add: identity_text_def to_int_def split_on_append split_on_no_sep)
  moreover have "\<lparr>identity_step = identity_step i, identity_output = identity_output i,
      identity_attempt = of_nat n\<rparr> = i" using i(3) by simp
  ultimately show ?thesis using js_nat_digits[of n] assms by (simp add: parse_artifact_id_def)
qed

lemma parse_artifact_id_Inr:
  assumes "parse_artifact_id s = Inr i"
  shows "\<exists>c. artifact_id_for i = Inr c \<and> parse_artifact_id c = Inr i"
proof -
  have "\<exists>c. artifact_id_for i = Inr c"
    using assms by (auto simp: parse_artifact_id_def and_then_Inr Let_def split: list.splits if_splits)
  with parse_artifact_id_for show ?thesis by blast
qed

lemma artifact_id_for_inj:
  "artifact_id_for i = Inr s \<Longrightarrow> artifact_id_for j = Inr s \<Longrightarrow> i = j"
  by (drule parse_artifact_id_for)+ simp

subsection \<open>Accepted records\<close>

lemma assert_string_Inr [simp]: "assert_string v path = Inr s \<longleftrightarrow> v = JString s \<and> s \<noteq> []"
  by (auto simp: assert_string_def split: json.splits)

lemma stored_identity_Inr:
  "stored_identity ob = Inr (i, s) \<Longrightarrow> artifact_id_for \<lparr>identity_step = identity_step i,
     identity_output = identity_output i, identity_attempt = identity_attempt i\<rparr> = Inr s"
  by (cases "get_prop ob ''attempt''") (auto simp: stored_identity_def and_then_Inr Let_def)

lemma stored_payload_Inr:
  "stored_payload sha ob = Inr payload \<Longrightarrow> content_hash_pattern (artifact_content_hash sha payload)"
  by (auto simp: stored_payload_def and_then_Inr split: json.splits)

lemma validate_artifact_record_sound:
  assumes "validate_artifact_record sha of_text v = Inr r"
  shows "wf_artifact sha of_text r"
  using assms
  by (auto simp: validate_artifact_record_def and_then_Inr Let_def wf_artifact_def record_identity_def
      parse_artifact_payload_def dest: stored_payload_Inr stored_identity_Inr split: option.splits if_splits)

lemma validate_artifact_record_json:
  assumes "wf_artifact sha of_text r"
  shows "validate_artifact_record sha of_text (artifact_json r) = Inr r"
proof -
  have wf: "artifact_id_for (record_identity r) = Inr (artifact_id r)" "run_id_pattern (artifact_run r)"
    "artifact_media r = ARTIFACT_KIND_MEDIA_TYPES (artifact_kind r)" "artifact_title r \<noteq> []"
    "length (artifact_title r) \<le> MAX_ARTIFACT_TITLE_LENGTH" "artifact_created r \<noteq> []"
    "artifact_size r = byte_length (artifact_text r)"
    "artifact_hash r = artifact_content_hash sha (artifact_text r)" "content_hash_pattern (artifact_hash r)"
    using assms unfolding wf_artifact_def by blast+
  have "identity_step (record_identity r) \<noteq> []" "identity_output (record_identity r) \<noteq> []"
    using wf(1) by (auto simp: artifact_id_for_Inr dest: name_pattern_nonempty)
  then have ne: "artifact_step r \<noteq> []" "artifact_output r \<noteq> []" by (simp_all add: record_identity_def)
  have id_ne: "artifact_id r \<noteq> []" using wf(1) by (auto simp: artifact_id_for_Inr identity_text_def)
  have run_ne: "artifact_run r \<noteq> []" using wf(2) by (auto simp: run_id_pattern_def)
  let ?ob = "fields_of (artifact_json r)"
  have i: "stored_identity ?ob = Inr (record_identity r, artifact_id r)"
    using ne wf(1) by (simp add: stored_identity_def artifact_json_def fields_of_def assert_string_def record_identity_def)
  have k: "stored_kind ?ob = Inr (artifact_kind r)"
    by (simp add: stored_kind_def artifact_json_def fields_of_def)
  have p: "stored_payload sha ?ob = Inr (artifact_text r)"
    using wf(7) wf(9)[unfolded wf(8)] by (simp add: stored_payload_def artifact_json_def fields_of_def wf(8))
  obtain q where q: "parse_artifact_payload of_text (artifact_kind r) (artifact_text r) = Inr q"
    using assms by (cases "ARTIFACT_KIND_FORMATS (artifact_kind r)")
      (auto simp: parse_artifact_payload_def wf_artifact_def)
  have props: "get_prop ?ob ''version'' = JNum 1" "get_prop ?ob ''id'' = JString (artifact_id r)"
    "get_prop ?ob ''runId'' = JString (artifact_run r)" "get_prop ?ob ''mediaType'' = JString (artifact_media r)"
    "get_prop ?ob ''title'' = JString (artifact_title r)" "get_prop ?ob ''createdAt'' = JString (artifact_created r)"
    "is_record (artifact_json r)"
    by (simp_all add: artifact_json_def fields_of_def is_record_def)
  show ?thesis
    unfolding validate_artifact_record_def Let_def
    using i k p q props wf id_ne run_ne ne
    by (simp add: assert_string_def record_identity_def)
qed

end
