(* ===== verification/Execution.thy ===== *)
theory Execution
  imports Artifacts
begin

text \<open>
  \<open>src/src/engine/handlers.ts\<close>, \<open>retry.ts\<close>, \<open>executor.ts\<close> and the provider registry of
  \<open>workspaces.ts\<close>: the outcome of a step, how the executor turns every way a handler can
  end into one outcome, whether a failure may run again, and the two registries that refuse
  duplicates. What a handler does is outside the model: its result is an argument.
\<close>

subsection \<open>Outcomes\<close>

record artifact_draft =
  draft_output :: string
  draft_kind :: artifact_kind
  draft_title :: string
  draft_payload :: artifact_payload

record step_success =
  success_summary :: "string option"
  success_worker :: "string option"
  success_commit :: "string option"
  success_evidence :: "task_evidence option"
  success_artifacts :: "artifact_draft list option"

datatype step_failure =
    StepError string "string option" "bool option"
  | StepStopped string "string option"

datatype step_outcome = Success step_success | Failure step_failure

definition failure_error :: "step_failure \<Rightarrow> string" where
  "failure_error f = (case f of StepError e _ _ \<Rightarrow> e | StepStopped e _ \<Rightarrow> e)"

definition outcome_worker :: "step_outcome \<Rightarrow> string option" where
  "outcome_worker out = (case out of
       Success s \<Rightarrow> success_worker s
     | Failure (StepError _ w _) \<Rightarrow> w
     | Failure (StepStopped _ w) \<Rightarrow> w)"

record execution_result =
  result_outcome :: step_outcome
  result_started :: string
  result_finished :: string
  result_timed_out :: bool
  result_retained :: bool
  result_release_error :: "string option"

subsection \<open>Executing one step\<close>

text \<open>
  \<open>Promise.race([aborted, execution])\<close>: either the abort signal settles the race, with the
  message of its reason and whether the timer had fired by then, or the handler does, by
  resolving or by rejecting with an error message.
\<close>

datatype race =
    AbortedFirst bool string
  | HandlerResolved step_outcome
  | HandlerRejected string

definition timed_out_failure :: "string \<Rightarrow> int \<Rightarrow> step_failure" where
  "timed_out_failure sid timeout =
     StepError (''Step '' @ sid @ '' timed out after '' @ js_nat (nat timeout) @ ''ms'') None None"

definition DEFAULT_STEP_TIMEOUT_MS :: int where "DEFAULT_STEP_TIMEOUT_MS = 60 * 60 * 1000"

definition step_timeout :: "int \<Rightarrow> step_definition \<Rightarrow> int" where
  "step_timeout fallback d = (case decl_timeout (step_declared d) of None \<Rightarrow> fallback | Some t \<Rightarrow> t)"

definition race_outcome :: "string \<Rightarrow> int \<Rightarrow> bool \<Rightarrow> race \<Rightarrow> step_outcome" where
  "race_outcome sid timeout run_aborted first = (case first of
       AbortedFirst timer_fired reason \<Rightarrow>
         Failure (if timer_fired then timed_out_failure sid timeout else StepStopped reason None)
     | HandlerResolved out \<Rightarrow> out
     | HandlerRejected message \<Rightarrow>
         Failure (if run_aborted then StepStopped message None else StepError message None None))"

text \<open>
  \<open>timed_out\<close> is the timer flag at the end; \<open>release_error\<close> is what releasing the workspace gives
  (\<^const>\<open>None\<close> or an error message), asked only for a successful step.
\<close>

definition execute_step ::
    "step_definition \<Rightarrow> int \<Rightarrow> bool \<Rightarrow> bool \<Rightarrow> race \<Rightarrow> string option \<Rightarrow> string \<Rightarrow> string \<Rightarrow> execution_result" where
  "execute_step d fallback run_aborted timed_out first release_error started finished =
     (let timeout = step_timeout fallback d;
          raced = race_outcome (step_id d) timeout run_aborted first;
          out = (if timed_out then Failure (timed_out_failure (step_id d) timeout) else raced);
          retained = (case out of Success _ \<Rightarrow> False | Failure _ \<Rightarrow> True)
      in \<lparr>result_outcome = out, result_started = started, result_finished = finished,
          result_timed_out = timed_out, result_retained = retained,
          result_release_error = (if retained then None else release_error)\<rparr>)"

lemma execute_step_timed_out:
  "\<exists>e. result_outcome (execute_step d fallback aborted True first release_error t t') = Failure (StepError e None None)"
  by (simp add: execute_step_def timed_out_failure_def Let_def)

lemma execute_step_retained:
  "result_retained (execute_step d fallback aborted timed_out first release_error t t') \<longleftrightarrow>
     (\<exists>f. result_outcome (execute_step d fallback aborted timed_out first release_error t t') = Failure f)"
  by (auto simp: execute_step_def Let_def split: step_outcome.splits)

lemma execute_step_success:
  "result_outcome (execute_step d fallback aborted timed_out first release_error t t') = Success s \<longleftrightarrow>
     \<not> timed_out \<and> first = HandlerResolved (Success s)"
  by (auto simp: execute_step_def race_outcome_def Let_def split: race.splits)

subsection \<open>Retry classification\<close>

record failure_classification =
  failure_class_of :: failure_class
  failure_reason :: string

definition classify_step_failure :: "step_failure \<Rightarrow> bool \<Rightarrow> nat \<Rightarrow> int \<Rightarrow> failure_classification" where
  "classify_step_failure f timed_out attempt max_attempts = (case f of
       StepStopped _ _ \<Rightarrow> \<lparr>failure_class_of = Terminal, failure_reason = ''the step was cancelled''\<rparr>
     | StepError _ _ retryable \<Rightarrow>
         if retryable = Some False then
           \<lparr>failure_class_of = Terminal,
            failure_reason = ''the failure cannot be resolved by running the step again''\<rparr>
         else if max_attempts \<le> int attempt then
           \<lparr>failure_class_of = Terminal,
            failure_reason = ''the retry budget of '' @ js_nat (nat max_attempts) @ '' attempt'' @
              (if max_attempts = 1 then [] else ''s'') @ '' is exhausted''\<rparr>
         else
           \<lparr>failure_class_of = Retryable,
            failure_reason = ''the step '' @ (if timed_out then ''timed out'' else ''failed'') @ '' with '' @
              js_nat (nat (max_attempts - int attempt)) @ '' attempt(s) remaining''\<rparr>)"

lemma classify_retryable:
  "failure_class_of (classify_step_failure f timed_out attempt max_attempts) = Retryable \<longleftrightarrow>
     int attempt < max_attempts \<and> (\<exists>e w r. f = StepError e w r \<and> r \<noteq> Some False)"
  by (auto simp: classify_step_failure_def split: step_failure.splits)

subsection \<open>Registries\<close>

text \<open>
  Both registries fill a map from a key to the entry that serves it and refuse a second entry
  for a key.
\<close>

fun register :: "('h \<Rightarrow> 'k) \<Rightarrow> ('k \<Rightarrow> string) \<Rightarrow> 'h list \<Rightarrow> ('k \<times> 'h) list \<Rightarrow> ('k \<times> 'h) list result" where
  "register key duplicate [] entries = Inr entries"
| "register key duplicate (h # hs) entries =
     (if key h \<in> fst ` set entries then Inl (Error (duplicate (key h)))
      else register key duplicate hs (entries @ [(key h, h)]))"

lemma register_Inr:
  assumes "distinct (map fst entries)"
  shows "register key duplicate hs entries = Inr m \<longleftrightarrow>
    distinct (map fst entries @ map key hs) \<and> m = entries @ map (\<lambda>h. (key h, h)) hs"
  using assms
proof (induction hs arbitrary: entries)
  case Nil
  then show ?case by auto
next
  case (Cons h hs)
  show ?case
  proof (cases "key h \<in> fst ` set entries")
    case True
    then show ?thesis by auto
  next
    case False
    then have "distinct (map fst (entries @ [(key h, h)]))" using Cons.prems by auto
    from Cons.IH[OF this] False show ?thesis by auto
  qed
qed

text \<open>A registry resolves a key to the one registered entry of that key, or fails closed.\<close>

locale registry =
  fixes key :: "'h \<Rightarrow> 'k"
    and create :: "'h list \<Rightarrow> ('k \<times> 'h) list result"
    and resolve :: "('k \<times> 'h) list \<Rightarrow> 'k \<Rightarrow> 'h result"
  assumes create_distinct: "create hs = Inr m \<Longrightarrow> distinct (map key hs) \<and> m = map (\<lambda>h. (key h, h)) hs"
    and resolve_map: "resolve m k = Inr h \<longleftrightarrow> map_of m k = Some h"
begin

lemma resolve_created:
  assumes "create hs = Inr m"
  shows "resolve m k = Inr h \<longleftrightarrow> h \<in> set hs \<and> key h = k"
proof -
  have m: "distinct (map key hs)" "m = map (\<lambda>h. (key h, h)) hs"
    using create_distinct[OF assms] by auto
  have "map_of m k = Some h \<longleftrightarrow> (k, h) \<in> set m"
    using m by (subst map_of_eq_Some_iff) (auto simp: comp_def)
  then show ?thesis by (auto simp: resolve_map m(2))
qed

end

record step_handler =
  handler_kind :: step_kind
  handler_profile :: "profile_name option"

definition step_handler_profile :: "step_handler \<Rightarrow> profile_name" where
  "step_handler_profile h = (case handler_profile h of None \<Rightarrow> kind_profile (handler_kind h) | Some p \<Rightarrow> p)"

definition create_handlers :: "step_handler list \<Rightarrow> (profile_name \<times> step_handler) list result" where
  "create_handlers hs =
     register step_handler_profile (\<lambda>p. ''Duplicate step handler for kind '' @ profile_text p) hs []"

definition handler_of_profile :: "(profile_name \<times> step_handler) list \<Rightarrow> profile_name \<Rightarrow> step_handler result" where
  "handler_of_profile m p = (case map_of m p of
       None \<Rightarrow> Inl (UnsupportedStepKindError p) | Some h \<Rightarrow> Inr h)"

definition handler_for :: "(profile_name \<times> step_handler) list \<Rightarrow> step_definition \<Rightarrow> step_handler result" where
  "handler_for m d = handler_of_profile m (step_profile_name d)"

interpretation handlers: registry step_handler_profile create_handlers handler_of_profile
  by unfold_locales
     (auto simp: create_handlers_def register_Inr handler_of_profile_def split: option.splits)

definition requirement_text :: "workspace_requirement \<Rightarrow> string" where
  "requirement_text r = (case r of NoWorkspace \<Rightarrow> ''none'' | ReadOnly \<Rightarrow> ''read-only'' | Mutable \<Rightarrow> ''mutable'')"

definition WORKSPACE_REQUIREMENTS :: "workspace_requirement list" where
  "WORKSPACE_REQUIREMENTS = [NoWorkspace, ReadOnly, Mutable]"

text \<open>A provider is known by the requirement it serves; the other part is its own data.\<close>

definition create_providers ::
    "(workspace_requirement \<times> 'p) list \<Rightarrow> (workspace_requirement \<times> (workspace_requirement \<times> 'p)) list result" where
  "create_providers hs =
     and_then (register fst (\<lambda>r. ''Duplicate workspace provider for requirement '' @ requirement_text r) hs []) (\<lambda>m.
     and_then (each_check (\<lambda>r. require (r \<in> fst ` set m)
         (Error (''Missing workspace provider for requirement '' @ requirement_text r))) WORKSPACE_REQUIREMENTS)
       (\<lambda>_. Inr m))"

definition provider_for ::
    "(workspace_requirement \<times> (workspace_requirement \<times> 'p)) list \<Rightarrow> workspace_requirement \<Rightarrow>
     (workspace_requirement \<times> 'p) result" where
  "provider_for m r = (case map_of m r of
       None \<Rightarrow> Inl (Error (''Missing workspace provider for requirement '' @ requirement_text r)) | Some p \<Rightarrow> Inr p)"

interpretation providers: registry fst create_providers provider_for
  by unfold_locales
     (auto simp: create_providers_def and_then_Inr register_Inr provider_for_def split: option.splits)

lemma provider_for_total:
  assumes "create_providers hs = Inr m"
  shows "\<exists>p. provider_for m r = Inr p"
proof -
  have "r \<in> fst ` set m"
    using assms by (cases r) (auto simp: create_providers_def and_then_Inr WORKSPACE_REQUIREMENTS_def)
  then obtain p where "map_of m r = Some p" by (metis domIff dom_map_of_conv_image_fst not_None_eq)
  then show ?thesis by (simp add: provider_for_def)
qed

text \<open>
  Preparing a step resolves its handler before its workspace provider, and only then acquires
  a workspace (\<open>acquire\<close>: the workspace or an error message).
\<close>

record workspace =
  workspace_kind :: workspace_requirement
  workspace_path :: string
  workspace_branch :: "string option"
  workspace_base :: string

definition prepare_step ::
    "(profile_name \<times> step_handler) list \<Rightarrow> (workspace_requirement \<times> (workspace_requirement \<times> 'p)) list \<Rightarrow>
     step_definition \<Rightarrow> workspace_requirement \<Rightarrow> (workspace_requirement \<times> 'p \<Rightarrow> workspace result) \<Rightarrow>
     (step_handler \<times> workspace) result" where
  "prepare_step handlers providers d requirement acquire =
     and_then (handler_for handlers d) (\<lambda>h.
     and_then (provider_for providers requirement) (\<lambda>p.
     and_then (acquire p) (\<lambda>w. Inr (h, w))))"

text \<open>The workspace of a step without repository authority.\<close>

definition detached_workspace :: "string \<Rightarrow> workspace" where
  "detached_workspace start =
     \<lparr>workspace_kind = NoWorkspace, workspace_path = [], workspace_branch = None, workspace_base = start\<rparr>"

end
