(* ===== verification/Engine.thy ===== *)
theory Engine
  imports Admission ArtifactRouting
begin

text \<open>
  \<open>src/src/engine/engine.ts\<close>: the transactions by which the engine changes a run. Each
  definition is the function the code hands to \<open>store.transaction\<close>, on the stored run it is
  given; the values of \<open>this.now()\<close> are arguments, the one of \<open>updatedAt\<close> first.
\<close>

subsection \<open>Launching a step\<close>

definition execution_context_for ::
    "(string \<Rightarrow> string \<Rightarrow> string \<Rightarrow> artifact_record option) option \<Rightarrow> run_state \<Rightarrow> step_definition \<Rightarrow> string \<Rightarrow>
     execution_context result" where
  "execution_context_for artifacts s d start =
     (let snapshot = \<lparr>snapshot_base = run_base_branch s, snapshot_branch = run_branch s, snapshot_commit = start\<rparr> in
      if step_inputs d = [] then Inr \<lparr>context_snapshot = snapshot, context_artifacts = []\<rparr>
      else case artifacts of
        None \<Rightarrow> Inl (Error (''Step '' @ step_id d @ '' declares inputs but no artifact store is configured''))
      | Some latest \<Rightarrow> (case resolve_step_inputs latest (run_id s) d of
          Inl missing \<Rightarrow> Inl (Error (''Step '' @ step_id d @ '' is missing required inputs: '' @
            join '', '' (map (\<lambda>i. input_step i @ ''.'' @ input_output i) missing)))
        | Inr inputs \<Rightarrow> Inr \<lparr>context_snapshot = snapshot, context_artifacts = inputs\<rparr>))"

text \<open>The attempt \<open>launchStep\<close> prepares, from the run it loaded and the acquired workspace.\<close>

definition prepare_attempt ::
    "run_state \<Rightarrow> string \<Rightarrow> string \<Rightarrow> workspace \<Rightarrow> string \<Rightarrow> step_attempt result" where
  "prepare_attempt s sid aid w time =
     and_then (require_step s sid) (\<lambda>r.
       Inr \<lparr>attempt_id = aid, attempt_step = sid, attempt_number = Suc (length (record_attempts r)),
            attempt_state = Prepared, attempt_requirement = workspace_kind w,
            attempt_workspace = workspace_path w,
            attempt_branch = (if truthy (workspace_branch w) then workspace_branch w else None),
            attempt_base = workspace_base w, attempt_started = time, attempt_finished = None,
            attempt_summary = None, attempt_error = None, attempt_worker = None, attempt_commit = None,
            attempt_evidence = None, attempt_artifacts = None, attempt_release_error = None\<rparr>)"

text \<open>The reservation: the step must still be launchable when the transaction runs.\<close>

definition reserve_attempt :: "run_state \<Rightarrow> step_attempt \<Rightarrow> string \<Rightarrow> string \<Rightarrow> (run_state \<times> bool) result" where
  "reserve_attempt current a updated time =
     and_then (launchable_step_ids current) (\<lambda>ids.
     if attempt_step a \<notin> set ids then Inr (current, False)
     else
       and_then (update_step current (attempt_step a) (\<lambda>r.
         r\<lparr>record_state := Running, record_attempts := record_attempts r @ [attempt_id a]\<rparr>)) (\<lambda>s.
       Inr (append_workflow_event
         (s\<lparr>run_attempts := run_attempts current @ [a], run_updated := updated\<rparr>)
         (StepLaunched (attempt_step a) (attempt_id a) (attempt_number a) (attempt_requirement a)) time, True)))"

definition mark_attempt_running :: "run_state \<Rightarrow> string \<Rightarrow> string \<Rightarrow> run_state" where
  "mark_attempt_running current aid updated =
     (update_step_attempt current aid (\<lambda>a. a\<lparr>attempt_state := AttemptRunning\<rparr>))\<lparr>run_updated := updated\<rparr>"

subsection \<open>Routing the artifacts of a finished step\<close>

definition outcome_drafts :: "step_outcome \<Rightarrow> artifact_draft list" where
  "outcome_drafts out = (case out of
       Success s \<Rightarrow> (case success_artifacts s of None \<Rightarrow> [] | Some ds \<Rightarrow> ds)
     | Failure _ \<Rightarrow> [])"

definition published_events :: "string \<Rightarrow> string \<Rightarrow> artifact_record list \<Rightarrow> event_body list" where
  "published_events sid aid rs = map (\<lambda>r.
     ArtifactPublished sid aid (artifact_id r) (artifact_output r) (artifact_kind r) (artifact_size r)) rs"

definition route_artifacts ::
    "('st \<Rightarrow> artifact_write \<Rightarrow> 'st \<times> artifact_record result) option \<Rightarrow> 'st \<Rightarrow> string \<Rightarrow> step_definition \<Rightarrow>
     step_attempt \<Rightarrow> step_outcome \<Rightarrow> 'st \<times> (string list \<times> event_body list) result" where
  "route_artifacts writer st run d a out =
     (let drafts = outcome_drafts out in
      if drafts = [] \<and> step_outputs d = [] then (st, Inr ([], []))
      else case writer of
        None \<Rightarrow> (st, Inl (StepArtifactRoutingError
          (''Step '' @ step_id d @ '' declares outputs but no artifact store is configured'')))
      | Some write \<Rightarrow> (case route_step_artifacts write st run d (attempt_number a) drafts of
          (st', Inl e) \<Rightarrow> (st', Inl e)
        | (st', Inr rs) \<Rightarrow> (st', Inr (map artifact_id rs, published_events (step_id d) (attempt_id a) rs))))"

definition is_routing_error :: "js_error \<Rightarrow> bool" where
  "is_routing_error e = (case e of StepArtifactRoutingError _ \<Rightarrow> True | _ \<Rightarrow> False)"

text \<open>A successful step whose artifacts cannot be stored becomes a failed one.\<close>

definition routed_result ::
    "execution_result \<Rightarrow> (string list \<times> event_body list) result \<Rightarrow>
     execution_result \<times> string list \<times> event_body list" where
  "routed_result executed routed = (case routed of
       Inr (ids, events) \<Rightarrow> (executed, ids, events)
     | Inl e \<Rightarrow> (executed\<lparr>result_outcome :=
           Failure (StepError (error_message e) None (Some (\<not> is_routing_error e)))\<rparr>, [], []))"

subsection \<open>Settling an attempt\<close>

definition override :: "string option \<Rightarrow> string option \<Rightarrow> string option" where
  "override old new = (if truthy new then new else old)"

definition settled_attempt :: "execution_result \<Rightarrow> string list \<Rightarrow> step_attempt \<Rightarrow> step_attempt" where
  "settled_attempt result artifact_ids a =
     (let base = a\<lparr>attempt_finished := Some (result_finished result),
            attempt_worker := override (attempt_worker a) (outcome_worker (result_outcome result)),
            attempt_release_error := override (attempt_release_error a) (result_release_error result)\<rparr>
      in case result_outcome result of
        Success s \<Rightarrow> base\<lparr>attempt_state := AttemptSucceeded,
          attempt_summary := override (attempt_summary a) (success_summary s),
          attempt_commit := override (attempt_commit a) (success_commit s),
          attempt_evidence := (case success_evidence s of None \<Rightarrow> attempt_evidence a | Some e \<Rightarrow> Some e),
          attempt_artifacts := (if artifact_ids = [] then attempt_artifacts a else Some artifact_ids)\<rparr>
      | Failure (StepError e _ _) \<Rightarrow> base\<lparr>attempt_state := AttemptFailed, attempt_error := Some e\<rparr>
      | Failure (StepStopped e _) \<Rightarrow> base\<lparr>attempt_state := AttemptCancelled, attempt_error := Some e\<rparr>)"

definition settled_record :: "step_outcome \<Rightarrow> bool \<Rightarrow> step_record \<Rightarrow> step_record" where
  "settled_record out retrying r = (case out of
       Success _ \<Rightarrow> r\<lparr>record_state := Succeeded\<rparr>
     | Failure f \<Rightarrow>
         if retrying then r\<lparr>record_state := Ready\<rparr>
         else r\<lparr>record_state := (case f of StepError _ _ _ \<Rightarrow> Failed | StepStopped _ _ \<Rightarrow> Cancelled),
                record_error := Some (failure_error f)\<rparr>)"

definition settled_events ::
    "string \<Rightarrow> step_attempt \<Rightarrow> step_outcome \<Rightarrow> failure_classification \<Rightarrow> event_body list" where
  "settled_events sid a out c = (case out of
       Success s \<Rightarrow> [StepSucceeded sid (attempt_id a)
         (if truthy (success_summary s) then success_summary s else None)]
     | Failure (StepStopped e _) \<Rightarrow> [StepCancelled sid (Some (attempt_id a)) (Some e)]
     | Failure (StepError e _ _) \<Rightarrow>
         StepFailed sid (attempt_id a) e (failure_class_of c) (failure_reason c) #
         (if failure_class_of c = Retryable then
            [StepRetryScheduled sid (attempt_id a) (Suc (attempt_number a)) (failure_reason c)] else []))"

definition settled_lifecycle :: "lifecycle \<Rightarrow> step_outcome \<Rightarrow> bool \<Rightarrow> lifecycle" where
  "settled_lifecycle l out retrying =
     (if l \<noteq> RunRunning then l
      else case out of
        Success _ \<Rightarrow> RunRunning
      | Failure (StepStopped _ _) \<Rightarrow> RunCancelled
      | Failure (StepError _ _ _) \<Rightarrow> if retrying then RunRunning else RunFailed)"

definition outcome_classification ::
    "step_outcome \<Rightarrow> bool \<Rightarrow> nat \<Rightarrow> int \<Rightarrow> failure_classification" where
  "outcome_classification out timed_out attempt max_attempts = (case out of
       Success _ \<Rightarrow> \<lparr>failure_class_of = Terminal, failure_reason = []\<rparr>
     | Failure f \<Rightarrow> classify_step_failure f timed_out attempt max_attempts)"

definition outcome_retrying :: "step_outcome \<Rightarrow> failure_classification \<Rightarrow> bool" where
  "outcome_retrying out c \<longleftrightarrow> (\<exists>f. out = Failure f) \<and> failure_class_of c = Retryable"

lemma outcome_retrying_simps [simp, code]:
  "outcome_retrying (Success s) c = False"
  "outcome_retrying (Failure f) c \<longleftrightarrow> failure_class_of c = Retryable"
  by (simp_all add: outcome_retrying_def)

definition settle_attempt ::
    "run_state \<Rightarrow> string \<Rightarrow> step_attempt \<Rightarrow> execution_result \<Rightarrow> string list \<Rightarrow> event_body list \<Rightarrow>
     string \<Rightarrow> string \<Rightarrow> run_state result" where
  "settle_attempt current sid a result artifact_ids artifact_events updated time =
     and_then (require_step current sid) (\<lambda>r.
     let out = result_outcome result;
         c = outcome_classification out (result_timed_out result) (attempt_number a)
               (step_retry_policy (record_definition r));
         retrying = outcome_retrying out c
     in and_then (update_step (update_step_attempt current (attempt_id a) (settled_attempt result artifact_ids))
          sid (settled_record out retrying)) (\<lambda>s.
        let reconciled = reconcile_workflow_steps s in
        Inr (append_workflow_events
          (reconciled\<lparr>run_state := settled_lifecycle (run_state reconciled) out retrying, run_updated := updated\<rparr>)
          (artifact_events @ settled_events sid a out c @ blocked_step_events s reconciled) time)))"

subsection \<open>Failing and integrating a step\<close>

definition fail_step :: "run_state \<Rightarrow> string \<Rightarrow> string \<Rightarrow> string \<Rightarrow> string \<Rightarrow> run_state result" where
  "fail_step current sid message updated time =
     and_then (update_step current sid (\<lambda>r. r\<lparr>record_state := Failed, record_error := Some message\<rparr>)) (\<lambda>failed.
     let reconciled = reconcile_workflow_steps failed in
     Inr (append_workflow_events
       (reconciled\<lparr>run_state := (if run_state reconciled = RunCancelled then RunCancelled else RunFailed),
          run_updated := updated\<rparr>)
       (StepFailed sid [] message Terminal ''the step could not start'' # blocked_step_events failed reconciled)
       time))"

text \<open>
  \<open>integratePendingSteps\<close> loads the run and chooses the step and the attempt; what the
  integrator then answers comes back in a transaction of its own.
\<close>

datatype integration_choice =
    NothingToIntegrate
  | MissingAttempt string
  | Integrating string step_attempt

definition choose_integration :: "run_state \<Rightarrow> integration_choice" where
  "choose_integration s =
     (if run_state s \<noteq> RunRunning then NothingToIntegrate
      else case next_integrable_step_id s of
        None \<Rightarrow> NothingToIntegrate
      | Some sid \<Rightarrow>
          (case find_last (\<lambda>a. attempt_step a = sid \<and> attempt_state a = AttemptSucceeded) (run_attempts s) of
             None \<Rightarrow> MissingAttempt sid
           | Some a \<Rightarrow> Integrating sid a))"

definition missing_attempt_message :: "string \<Rightarrow> string" where
  "missing_attempt_message sid = ''Step '' @ sid @ '' succeeded without a recorded attempt''"

definition integrate_step ::
    "run_state \<Rightarrow> string \<Rightarrow> step_attempt \<Rightarrow> string \<Rightarrow> string \<Rightarrow> string \<Rightarrow> run_state result" where
  "integrate_step current sid a commit updated time =
     and_then (update_step current sid (\<lambda>r. r\<lparr>record_integrated := Some commit\<rparr>)) (\<lambda>s.
     Inr (append_workflow_event
       (reconcile_workflow_steps (s\<lparr>run_head := commit, run_updated := updated\<rparr>))
       (StepIntegrated sid (if truthy (attempt_commit a) then attempt_commit a else None) commit) time))"

definition fail_integration ::
    "run_state \<Rightarrow> string \<Rightarrow> step_attempt \<Rightarrow> string \<Rightarrow> string \<Rightarrow> string \<Rightarrow> run_state result" where
  "fail_integration current sid a problem updated time =
     (let message = ''Failed to integrate step '' @ sid @ '': '' @ problem in
      and_then (update_step current sid (\<lambda>r. r\<lparr>record_state := Failed, record_integration_error := Some message\<rparr>))
      (\<lambda>failed.
        let reconciled = reconcile_workflow_steps failed in
        Inr (append_workflow_events (reconciled\<lparr>run_state := RunFailed, run_updated := updated\<rparr>)
          (StepFailed sid (attempt_id a) message Terminal ''the produced commit could not be integrated'' #
           blocked_step_events failed reconciled) time)))"

subsection \<open>Settling the run\<close>

definition unfinished_for_cancel :: "step_record \<Rightarrow> bool" where
  "unfinished_for_cancel r \<longleftrightarrow> record_state r \<notin> {Succeeded, Failed, Cancelled}"

text \<open>The loop over \<open>Object.entries(next.steps)\<close>; the keys of an object are distinct.\<close>

definition cancel_unfinished :: "run_state \<Rightarrow> run_state \<times> event_body list" where
  "cancel_unfinished s =
     (s\<lparr>run_steps := map (\<lambda>(sid, r). (sid, if unfinished_for_cancel r then r\<lparr>record_state := Cancelled\<rparr> else r))
        (run_steps s)\<rparr>,
      map (\<lambda>(sid, r). StepCancelled sid None None) (filter (\<lambda>(sid, r). unfinished_for_cancel r) (run_steps s)))"

definition settled_run_state :: "lifecycle \<Rightarrow> step_state list \<Rightarrow> lifecycle" where
  "settled_run_state l states =
     (if l \<noteq> RunRunning then l
      else if filter (\<lambda>st. st \<notin> set TERMINAL_STEP_STATES) states \<noteq> [] then RunFailed
      else if list_all (\<lambda>st. st = Succeeded) states then RunCompleted
      else if Cancelled \<in> set states then RunCancelled
      else RunFailed)"

definition settle_run :: "run_state \<Rightarrow> bool \<Rightarrow> string \<Rightarrow> string \<Rightarrow> run_state" where
  "settle_run current cancelled updated time =
     (let next0 = reconcile_workflow_steps current;
          cancelling = (cancelled \<or> run_state next0 = RunCancelled) \<and>
            run_state next0 \<noteq> RunFailed \<and> run_state next0 \<noteq> RunCompleted;
          next1 = (if cancelling then cancel_unfinished next0 else (next0, []));
          states = map record_state (obj_values (run_steps (fst next1)));
          unfinished = filter (\<lambda>st. st \<notin> set TERMINAL_STEP_STATES) states;
          l = settled_run_state (run_state (fst next1)) states;
          error = (if l = RunFailed \<and> unfinished \<noteq> []
            then Some ''The workflow stopped while steps were still waiting to run'' else None)
      in append_workflow_events
        ((fst next1)\<lparr>run_state := l, run_error := (if error = None then run_error (fst next1) else error),
           run_updated := updated\<rparr>)
        (snd next1 @ [RunSettled l error]) time)"

definition request_cancellation :: "run_state \<Rightarrow> string \<Rightarrow> string \<Rightarrow> run_state" where
  "request_cancellation current reason time =
     append_workflow_event current (RunCancellationRequested reason) time"

end
