(* ===== verification/EngineInvariant.thy ===== *)
theory EngineInvariant
  imports Engine
begin

text \<open>
  The invariant of a stored run and its preservation by every transaction of the engine:
  the attempts of a step are numbered without gaps and only the last may be active, no step
  runs more often than its retry budget, running steps hold disjoint locks, the active
  attempts fit into the worker slots, and the integrated steps form a prefix of the mutating
  steps in topological order.
\<close>

subsection \<open>The invariant\<close>

definition active :: "step_attempt \<Rightarrow> bool" where
  "active a \<longleftrightarrow> is_active_attempt_state (attempt_state a)"

definition attempts_of :: "run_state \<Rightarrow> string \<Rightarrow> step_attempt list" where
  "attempts_of s sid = filter (\<lambda>a. attempt_step a = sid) (run_attempts s)"

definition retry_budget :: "step_record \<Rightarrow> int" where
  "retry_budget r = step_retry_policy (record_definition r)"

definition waiting :: "step_state \<Rightarrow> bool" where
  "waiting st \<longleftrightarrow> st = Planned \<or> st = Ready \<or> st = Blocked"

definition record_ok :: "run_profiles \<Rightarrow> step_record \<Rightarrow> step_attempt list \<Rightarrow> bool" where
  "record_ok ps r xs \<longleftrightarrow>
     record_attempts r = map attempt_id xs \<and>
     map attempt_number xs = [1 ..< Suc (length xs)] \<and>
     int (length xs) \<le> retry_budget r \<and>
     (waiting (record_state r) \<longrightarrow> int (length xs) < retry_budget r) \<and>
     (\<forall>a\<in>set (butlast xs). \<not> active a) \<and>
     (xs \<noteq> [] \<and> active (last xs) \<longrightarrow> record_state r \<in> {Running, Failed, Cancelled}) \<and>
     (record_state r = Running \<longrightarrow> xs \<noteq> [] \<and> active (last xs)) \<and>
     (record_state r = Succeeded \<longrightarrow> xs \<noteq> [] \<and> attempt_state (last xs) = AttemptSucceeded) \<and>
     (record_integrated r \<noteq> None \<longrightarrow> record_state r = Succeeded \<and> truthy (record_integrated r) \<and>
        step_requires_integration ps (record_definition r))"

definition records_ok :: "run_state \<Rightarrow> bool" where
  "records_ok s \<longleftrightarrow> (\<forall>sid r. obj_get (run_steps s) sid = Some r \<longrightarrow>
     record_ok (run_profiles s) r (attempts_of s sid))"

definition attempts_known :: "run_state \<Rightarrow> bool" where
  "attempts_known s \<longleftrightarrow> distinct (map attempt_id (run_attempts s)) \<and>
     (\<forall>a\<in>set (run_attempts s). attempt_step a \<in> set (obj_keys (run_steps s)))"

definition exclusive :: "run_state \<Rightarrow> bool" where
  "exclusive s \<longleftrightarrow> (\<forall>i j p q. obj_get (run_steps s) i = Some p \<longrightarrow> obj_get (run_steps s) j = Some q \<longrightarrow>
     i \<noteq> j \<longrightarrow> record_state p = Running \<longrightarrow> record_state q = Running \<longrightarrow>
     \<not> locks_conflict (record_definition p) (record_definition q))"

definition slots_ok :: "run_state \<Rightarrow> bool" where
  "slots_ok s \<longleftrightarrow> int (length (filter (consumes_slot s) (active_step_ids s))) \<le> run_max_workers s"

definition integrated :: "run_state \<Rightarrow> string \<Rightarrow> bool" where
  "integrated s sid \<longleftrightarrow> (\<exists>r. obj_get (run_steps s) sid = Some r \<and> record_integrated r \<noteq> None)"

definition must_integrate :: "run_state \<Rightarrow> string \<Rightarrow> bool" where
  "must_integrate s sid \<longleftrightarrow> (\<exists>r. obj_get (run_steps s) sid = Some r \<and>
     step_requires_integration (run_profiles s) (record_definition r))"

definition integrated_prefix :: "run_state \<Rightarrow> bool" where
  "integrated_prefix s \<longleftrightarrow> (\<forall>us i vs. topological_step_ids (run_plan s) = us @ i # vs \<longrightarrow> integrated s i \<longrightarrow>
     (\<forall>u\<in>set us. must_integrate s u \<longrightarrow> integrated s u))"

definition store_ok :: "run_state \<Rightarrow> bool" where
  "store_ok s \<longleftrightarrow> graph_ok s \<and> attempts_known s \<and> records_ok s \<and> exclusive s \<and> slots_ok s \<and> integrated_prefix s"

definition no_failure :: "run_state \<Rightarrow> bool" where
  "no_failure s \<longleftrightarrow> (\<forall>sid r. obj_get (run_steps s) sid = Some r \<longrightarrow>
     record_state r \<notin> set TERMINAL_STEP_FAILURE_STATES)"

definition run_ok :: "run_state \<Rightarrow> bool" where
  "run_ok s \<longleftrightarrow> store_ok s \<and> timeline_ok s \<and> run_head s \<noteq> [] \<and> (run_state s = RunRunning \<longrightarrow> no_failure s)"

lemmas store_parts = store_ok_def attempts_known_def records_ok_def exclusive_def slots_ok_def
  integrated_prefix_def

subsection \<open>What the parts depend on\<close>

definition same_store :: "run_state \<Rightarrow> run_state \<Rightarrow> bool" where
  "same_store s t \<longleftrightarrow> run_plan t = run_plan s \<and> run_profiles t = run_profiles s \<and> run_steps t = run_steps s \<and>
     run_attempts t = run_attempts s \<and> run_max_workers t = run_max_workers s"

lemma same_store_ok:
  assumes "same_store s t"
  shows "store_ok t = store_ok s" "no_failure t = no_failure s"
proof -
  have eqs: "run_plan t = run_plan s" "run_profiles t = run_profiles s" "run_steps t = run_steps s"
    "run_attempts t = run_attempts s" "run_max_workers t = run_max_workers s"
    using assms by (simp_all add: same_store_def)
  have "consumes_slot t = consumes_slot s" unfolding consumes_slot_def[abs_def] eqs ..
  moreover have "integrated t = integrated s" "must_integrate t = must_integrate s" "attempts_of t = attempts_of s"
    unfolding integrated_def[abs_def] must_integrate_def[abs_def] attempts_of_def[abs_def] eqs by (rule refl)+
  ultimately show "store_ok t = store_ok s"
    unfolding store_parts graph_ok_def active_step_ids_def active_attempts_def by (simp only: eqs)
  show "no_failure t = no_failure s" unfolding no_failure_def eqs ..
qed

text \<open>A change of records that keeps the definitions and what is integrated.\<close>

definition same_work :: "run_state \<Rightarrow> run_state \<Rightarrow> bool" where
  "same_work s t \<longleftrightarrow> run_plan t = run_plan s \<and> run_profiles t = run_profiles s \<and>
     run_max_workers t = run_max_workers s \<and> obj_keys (run_steps t) = obj_keys (run_steps s) \<and>
     (\<forall>sid. map_option (\<lambda>r. (record_definition r, record_integrated r)) (obj_get (run_steps t) sid) =
        map_option (\<lambda>r. (record_definition r, record_integrated r)) (obj_get (run_steps s) sid))"

lemma same_work_get:
  assumes "same_work s t" and "obj_get (run_steps t) sid = Some r'"
  shows "\<exists>r. obj_get (run_steps s) sid = Some r \<and> record_definition r' = record_definition r \<and>
    record_integrated r' = record_integrated r"
proof -
  have "map_option (\<lambda>r. (record_definition r, record_integrated r)) (obj_get (run_steps t) sid) =
      map_option (\<lambda>r. (record_definition r, record_integrated r)) (obj_get (run_steps s) sid)"
    using assms(1) by (simp add: same_work_def)
  then show ?thesis by (cases "obj_get (run_steps s) sid") (auto simp: assms(2))
qed

lemma same_work_sym: "same_work s t \<Longrightarrow> same_work t s"
  by (simp add: same_work_def)

lemma same_work_facts:
  assumes "same_work s t"
  shows "integrated t sid = integrated s sid" "must_integrate t sid = must_integrate s sid"
    "consumes_slot t sid = consumes_slot s sid"
proof -
  have p: "run_profiles t = run_profiles s" using assms by (simp add: same_work_def)
  note gets = same_work_get[OF assms] same_work_get[OF same_work_sym[OF assms]]
  show "integrated t sid = integrated s sid" unfolding integrated_def using gets by metis
  show "must_integrate t sid = must_integrate s sid" unfolding must_integrate_def p using gets by metis
  show "consumes_slot t sid = consumes_slot s sid"
    unfolding consumes_slot_def p using gets
    by (metis (no_types, lifting) not_None_eq option.simps(4,5))
qed

lemma same_work_graph:
  assumes "same_work s t" and "graph_ok s"
  shows "graph_ok t"
proof -
  let ?f = "\<lambda>(sid, r). (sid, record_definition r)"
  have keys: "obj_keys (map ?f ob) = obj_keys ob" for ob
    by (simp add: obj_keys_def comp_def case_prod_beta)
  have get: "obj_get (map ?f ob) k = map_option record_definition (obj_get ob k)" for ob k
    by (induction ob) (auto simp: obj_get_def)
  have "map ?f (run_steps t) = map ?f (run_steps s)"
  proof (rule obj_eqI)
    show "obj_keys (map ?f (run_steps t)) = obj_keys (map ?f (run_steps s))"
      using assms(1) by (simp add: keys same_work_def)
    then show "distinct (obj_keys (map ?f (run_steps t)))"
      using graph_ok_distinct[OF assms(2)] by (simp add: keys)
    fix k
    have "map_option fst (map_option (\<lambda>r. (record_definition r, record_integrated r)) (obj_get (run_steps t) k)) =
        map_option fst (map_option (\<lambda>r. (record_definition r, record_integrated r)) (obj_get (run_steps s) k))"
      using assms(1) by (simp add: same_work_def)
    then show "obj_get (map ?f (run_steps t)) k = obj_get (map ?f (run_steps s)) k"
      by (simp add: get option.map_comp comp_def)
  qed
  then show ?thesis using assms by (simp add: graph_ok_def same_work_def)
qed

lemma same_work_prefix: "same_work s t \<Longrightarrow> integrated_prefix s \<Longrightarrow> integrated_prefix t"
  by (simp add: integrated_prefix_def same_work_facts) (simp add: same_work_def)

lemma exclusive_mono:
  assumes "exclusive s" and "same_work s t"
    and "\<And>sid r'. obj_get (run_steps t) sid = Some r' \<Longrightarrow> record_state r' = Running \<Longrightarrow>
      \<exists>r. obj_get (run_steps s) sid = Some r \<and> record_state r = Running"
  shows "exclusive t"
  unfolding exclusive_def
proof (intro allI impI)
  fix i j p q
  assume t: "obj_get (run_steps t) i = Some p" "obj_get (run_steps t) j = Some q" "i \<noteq> j"
    "record_state p = Running" "record_state q = Running"
  obtain p' q' where "obj_get (run_steps s) i = Some p'" "record_state p' = Running" "record_definition p = record_definition p'"
    "obj_get (run_steps s) j = Some q'" "record_state q' = Running" "record_definition q = record_definition q'"
    using assms(3)[OF t(1,4)] assms(3)[OF t(2,5)] same_work_get[OF assms(2) t(1)] same_work_get[OF assms(2) t(2)]
    by auto
  with assms(1) t(3) show "\<not> locks_conflict (record_definition p) (record_definition q)"
    unfolding exclusive_def by metis
qed

subsection \<open>Reconciliation keeps the invariant\<close>

lemma next_step_state_waiting:
  "next_step_state ps r steps = record_state r \<or>
     waiting (record_state r) \<and> waiting (next_step_state ps r steps) \<and>
     record_state r \<noteq> Blocked"
  by (cases "record_state r") (auto simp: next_step_state_def waiting_def Let_def)

lemma record_ok_state:
  assumes "record_ok ps r xs" and "st = record_state r \<or> waiting (record_state r) \<and> waiting st"
  shows "record_ok ps (r\<lparr>record_state := st\<rparr>) xs"
  using assms(2)
proof
  assume "st = record_state r"
  then show ?thesis using assms(1) by simp
next
  assume w: "waiting (record_state r) \<and> waiting st"
  then have "record_state r \<notin> {Running, Succeeded, Failed, Cancelled}" "st \<noteq> Running" "st \<noteq> Succeeded"
    by (auto simp: waiting_def)
  then show ?thesis using assms(1) w unfolding record_ok_def retry_budget_def by (simp del: upt_Suc) blast
qed

lemma reconcile_same_work:
  assumes "graph_ok s"
  shows "same_work s (reconcile_workflow_steps s)"
  unfolding same_work_def
proof (intro conjI allI)
  fix sid
  show "map_option (\<lambda>r. (record_definition r, record_integrated r)) (obj_get (run_steps (reconcile_workflow_steps s)) sid) =
      map_option (\<lambda>r. (record_definition r, record_integrated r)) (obj_get (run_steps s) sid)"
  proof (cases "obj_get (run_steps s) sid")
    case None
    then have "obj_get (run_steps (reconcile_workflow_steps s)) sid = None"
      by (simp add: obj_get_None_iff)
    then show ?thesis by (simp add: None)
  next
    case (Some r)
    show ?thesis by (simp add: reconcile_get[OF assms Some] Some)
  qed
qed simp_all

lemma reconcile_store_ok:
  assumes "store_ok s"
  shows "store_ok (reconcile_workflow_steps s)"
proof -
  let ?t = "reconcile_workflow_steps s"
  have g: "graph_ok s" using assms by (simp add: store_ok_def)
  note sw = reconcile_same_work[OF g]
  have "records_ok ?t"
    unfolding records_ok_def
  proof (intro allI impI)
    fix sid r' assume "obj_get (run_steps ?t) sid = Some r'"
    then obtain r where r: "obj_get (run_steps s) sid = Some r"
      "r' = r\<lparr>record_state := next_step_state (run_profiles s) r (run_steps ?t)\<rparr>"
      using reconcile_get_inv[OF g] by blast
    have "record_ok (run_profiles s) r (attempts_of s sid)"
      using assms r(1) by (simp add: store_ok_def records_ok_def)
    then show "record_ok (run_profiles ?t) r' (attempts_of ?t sid)"
      unfolding r(2) attempts_of_def reconcile_frame
      using next_step_state_waiting[of "run_profiles s" r "run_steps ?t"] by (intro record_ok_state) auto
  qed
  moreover have "exclusive ?t"
  proof (rule exclusive_mono[OF _ sw])
    show "exclusive s" using assms by (simp add: store_ok_def)
    fix sid r' assume r': "obj_get (run_steps ?t) sid = Some r'" "record_state r' = Running"
    then obtain r where r: "obj_get (run_steps s) sid = Some r"
      "r' = r\<lparr>record_state := next_step_state (run_profiles s) r (run_steps ?t)\<rparr>"
      using reconcile_get_inv[OF g] by blast
    have "record_state r = Running"
      using r'(2) next_step_state_waiting[of "run_profiles s" r "run_steps ?t"] by (auto simp: r(2) waiting_def)
    with r(1) show "\<exists>r. obj_get (run_steps s) sid = Some r \<and> record_state r = Running" by blast
  qed
  moreover have "slots_ok ?t" "attempts_known ?t"
    using assms same_work_facts(3)[OF sw]
    by (simp_all add: store_ok_def slots_ok_def attempts_known_def active_step_ids_def active_attempts_def)
  moreover have "integrated_prefix ?t" using same_work_prefix[OF sw] assms by (simp add: store_ok_def)
  ultimately show ?thesis using reconcile_graph_ok[OF g] by (simp add: store_ok_def)
qed

lemma reconcile_no_failure:
  assumes "graph_ok s" and "no_failure s"
  shows "no_failure (reconcile_workflow_steps s)"
  unfolding no_failure_def
proof (intro allI impI)
  let ?t = "reconcile_workflow_steps s"
  have ord: "set (topological_step_ids (run_plan s)) = set (obj_keys (run_steps s))"
    "dependencies_first (plan_steps (run_plan s)) (topological_step_ids (run_plan s))"
    using graph_ok_order[OF assms(1)] by blast+
  have "\<forall>r'. obj_get (run_steps ?t) sid = Some r' \<longrightarrow> record_state r' \<notin> set TERMINAL_STEP_FAILURE_STATES"
    if "topological_step_ids (run_plan s) = us @ sid # vs" for us vs sid
    using that
  proof (induction us arbitrary: sid vs rule: length_induct)
    case (1 us)
    show ?case
    proof (intro allI impI)
      fix r' assume r': "obj_get (run_steps ?t) sid = Some r'"
      then obtain r where r: "obj_get (run_steps s) sid = Some r"
        "r' = r\<lparr>record_state := next_step_state (run_profiles s) r (run_steps ?t)\<rparr>"
        using reconcile_get_inv[OF assms(1)] by blast
      have old: "record_state r \<notin> set TERMINAL_STEP_FAILURE_STATES"
        using assms(2) r(1) by (simp add: no_failure_def)
      have "\<not> dependency_failed (run_steps ?t) d" if d: "d \<in> set (step_dependencies (record_definition r))" for d
      proof -
        have "d \<in> set us"
          using ord(2) 1(2) graph_ok_record[OF assms(1) r(1)] d unfolding dependencies_first_def by blast
        then obtain as bs where us: "us = as @ d # bs" by (meson split_list)
        then have "\<forall>r'. obj_get (run_steps ?t) d = Some r' \<longrightarrow> record_state r' \<notin> set TERMINAL_STEP_FAILURE_STATES"
          using 1(1)[rule_format, of as d "bs @ sid # vs"] 1(2) by simp
        moreover obtain q where "obj_get (run_steps s) d = Some q"
          using graph_ok_dependency[OF assms(1) r(1) d] by blast
        ultimately show ?thesis using reconcile_get[OF assms(1)] by (auto simp: dependency_failed_def)
      qed
      then have "\<not> list_ex (dependency_failed (run_steps ?t)) (step_dependencies (record_definition r))"
        by (auto simp: list_ex_iff)
      with old show "record_state r' \<notin> set TERMINAL_STEP_FAILURE_STATES"
        by (auto simp: r(2) next_step_state_def Let_def)
    qed
  qed
  note step = this
  fix sid r' assume r': "obj_get (run_steps ?t) sid = Some r'"
  then have "sid \<in> set (topological_step_ids (run_plan s))"
    using obj_get_Some_key[OF r'] ord(1) by simp
  then obtain us vs where "topological_step_ids (run_plan s) = us @ sid # vs" by (meson split_list)
  with step r' show "record_state r' \<notin> set TERMINAL_STEP_FAILURE_STATES" by blast
qed

subsection \<open>Changing one step\<close>

text \<open>
  A transaction that rewrites the record of one step and the attempts of that step keeps the
  invariant when the new record fits its attempts, the step does not start to run against a
  held lock, and what is integrated stays.
\<close>

lemma obj_get_upd: "obj_get (obj_set ob k v) j = (if j = k then Some v else obj_get ob j)"
  by simp

lemma change_store_ok:
  assumes ok: "store_ok s" and r: "obj_get (run_steps s) sid = Some r"
    and t: "run_plan t = run_plan s" "run_profiles t = run_profiles s" "run_max_workers t = run_max_workers s"
      "run_steps t = obj_set (run_steps s) sid r'" "run_attempts t = xs"
    and d: "record_definition r' = record_definition r" and i: "record_integrated r' = record_integrated r"
    and own: "record_ok (run_profiles s) r' (filter (\<lambda>a. attempt_step a = sid) xs)"
    and others: "\<And>k. k \<noteq> sid \<Longrightarrow> filter (\<lambda>a. attempt_step a = k) xs = attempts_of s k"
    and ids: "distinct (map attempt_id xs)" and steps: "attempt_step ` set xs \<subseteq> set (obj_keys (run_steps s))"
    and lock: "record_state r' = Running \<Longrightarrow> record_state r = Running \<or>
      (\<forall>q\<in>set (running_records s). \<not> locks_conflict (record_definition r) (record_definition q))"
    and slots: "slots_ok t"
  shows "store_ok t" "same_work s t"
proof -
  have g: "graph_ok s" using ok by (simp add: store_ok_def)
  have key: "sid \<in> set (obj_keys (run_steps s))" by (rule obj_get_Some_key[OF r])
  show sw: "same_work s t" using t r d i key by (simp add: same_work_def)
  have "records_ok t"
    using ok own others unfolding store_ok_def records_ok_def attempts_of_def t obj_get_upd by auto
  moreover have "exclusive t"
    unfolding exclusive_def
  proof (intro allI impI)
    fix a b p q
    assume e: "obj_get (run_steps t) a = Some p" "obj_get (run_steps t) b = Some q" "a \<noteq> b"
      "record_state p = Running" "record_state q = Running"
    have old: "\<not> locks_conflict (record_definition p') (record_definition q')"
      if "obj_get (run_steps s) a' = Some p'" "obj_get (run_steps s) b' = Some q'" "a' \<noteq> b'"
        "record_state p' = Running" "record_state q' = Running" for a' b' p' q'
      using ok that unfolding store_ok_def exclusive_def by metis
    have new: "\<not> locks_conflict (record_definition r') (record_definition q')"
      if q': "obj_get (run_steps s) b' = Some q'" "b' \<noteq> sid" "record_state q' = Running" "record_state r' = Running" for b' q'
    proof (cases "record_state r = Running")
      case True
      then show ?thesis using old[OF r q'(1)] q' by (simp add: d)
    next
      case False
      have "q' \<in> set (running_records s)"
        using q'(1,3) obj_get_entry[OF q'(1)] by (force simp: running_records_def obj_values_def)
      then show ?thesis using lock[OF q'(4)] False by (simp add: d)
    qed
    show "\<not> locks_conflict (record_definition p) (record_definition q)"
      using e old new locks_conflict_sym unfolding t obj_get_upd by (metis option.inject)
  qed
  moreover have "attempts_known t" using ids steps key by (auto simp: attempts_known_def t)
  ultimately show "store_ok t"
    using slots same_work_graph[OF sw g] same_work_prefix[OF sw] ok by (simp add: store_ok_def)
qed

text \<open>Slots: removing or keeping active attempts never needs more of them.\<close>

lemma slots_keep:
  assumes "slots_ok s" and "same_work s t"
    and "length (filter (consumes_slot s) (active_step_ids t)) \<le> length (filter (consumes_slot s) (active_step_ids s))"
  shows "slots_ok t"
proof -
  have "consumes_slot t = consumes_slot s" using same_work_facts(3)[OF assms(2)] by (rule ext)
  then show ?thesis using assms by (simp add: slots_ok_def same_work_def)
qed

lemma active_step_ids_map:
  assumes "\<And>a. a \<in> set (run_attempts s) \<Longrightarrow> attempt_step (f a) = attempt_step a"
    and "\<And>a. a \<in> set (run_attempts s) \<Longrightarrow> active (f a) \<Longrightarrow> active a"
    and "run_attempts t = map f (run_attempts s)"
  shows "length (filter P (active_step_ids t)) \<le> length (filter P (active_step_ids s))"
proof -
  have "length (filter P (map attempt_step (filter (\<lambda>a. is_active_attempt_state (attempt_state a)) (map f xs)))) \<le>
      length (filter P (map attempt_step (filter (\<lambda>a. is_active_attempt_state (attempt_state a)) xs)))"
    if "\<And>a. a \<in> set xs \<Longrightarrow> attempt_step (f a) = attempt_step a"
      "\<And>a. a \<in> set xs \<Longrightarrow> active (f a) \<Longrightarrow> active a" for xs
    using that
  proof (induction xs)
    case (Cons x xs)
    have "active (f x) \<Longrightarrow> active x" "attempt_step (f x) = attempt_step x" using Cons.prems by simp_all
    then show ?case using Cons.IH Cons.prems by (auto simp: active_def)
  qed simp
  from this[of "run_attempts s"] show ?thesis
    using assms by (simp add: active_step_ids_def active_attempts_def)
qed

end
