(* ===== verification/EngineTransactions.thy ===== *)
theory EngineTransactions
  imports EngineInvariant
begin

text \<open>
  Every transaction of the engine keeps the invariant of a stored run, under the conditions
  the engine establishes before it: the attempt it settles is the stored active one, the
  attempt it reserves is fresh and numbered next, and so on.
\<close>

subsection \<open>Ending an attempt\<close>

lemma active_attempt_last:
  assumes "record_ok ps r xs" and "a \<in> set xs" and "active a"
  shows "xs \<noteq> []" "a = last xs" "record_integrated r = None" "attempt_number a = length xs"
    "\<not> waiting (record_state r)" "record_state r \<noteq> Succeeded"
proof -
  show ne: "xs \<noteq> []" using assms(2) by auto
  have "a \<notin> set (butlast xs)" using assms(1,3) by (auto simp: record_ok_def)
  moreover have "set xs = set (butlast xs) \<union> {last xs}"
    using ne by (metis append_butlast_last_id list.set(1) list.simps(15) set_append)
  ultimately show l: "a = last xs" using assms(2) by blast
  have st: "record_state r \<in> {Running, Failed, Cancelled}"
    using assms(1,3) ne l unfolding record_ok_def by blast
  then show "\<not> waiting (record_state r)" "record_state r \<noteq> Succeeded" by (auto simp: waiting_def)
  then show "record_integrated r = None" using assms(1) by (auto simp: record_ok_def)
  have "map attempt_number xs ! (length xs - 1) = [1 ..< Suc (length xs)] ! (length xs - 1)"
    using assms(1) by (simp only: record_ok_def)
  then show "attempt_number a = length xs" using ne by (simp add: l last_conv_nth del: upt_Suc)
qed

lemma record_ok_map:
  assumes "record_ok ps r xs"
    and "\<And>x. x \<in> set xs \<Longrightarrow> attempt_id (g x) = attempt_id x \<and> attempt_number (g x) = attempt_number x \<and>
      (active (g x) \<longrightarrow> active x)"
    and "record_attempts r' = record_attempts r" "record_definition r' = record_definition r"
      "record_integrated r' = None"
    and "xs \<noteq> [] \<Longrightarrow> \<not> active (g (last xs))"
    and "record_state r' \<noteq> Running"
    and "record_state r' = Succeeded \<Longrightarrow> xs \<noteq> [] \<and> attempt_state (g (last xs)) = AttemptSucceeded"
    and "waiting (record_state r') \<Longrightarrow> int (length xs) < retry_budget r"
  shows "record_ok ps r' (map g xs)"
proof -
  have "map attempt_id (map g xs) = map attempt_id xs" "map attempt_number (map g xs) = map attempt_number xs"
    using assms(2) by simp_all
  moreover have "\<forall>a\<in>set (butlast (map g xs)). \<not> active a"
  proof
    fix a assume "a \<in> set (butlast (map g xs))"
    then obtain x where "x \<in> set (butlast xs)" "a = g x" by (auto simp: map_butlast[symmetric])
    then show "\<not> active a" using assms(1) assms(2)[of x] in_set_butlastD[of x xs] by (auto simp: record_ok_def)
  qed
  ultimately show ?thesis
    using assms(1,3-9) unfolding record_ok_def retry_budget_def by (auto simp: last_map simp del: upt_Suc)
qed

text \<open>
  The common form of the transactions that end an attempt or a step: the attempts of one step
  are rewritten without starting any, and its record leaves the running state.
\<close>

lemma end_step_ok:
  assumes ok: "store_ok s" and r: "obj_get (run_steps s) sid = Some r"
    and t: "run_plan t = run_plan s" "run_profiles t = run_profiles s" "run_max_workers t = run_max_workers s"
      "run_steps t = obj_set (run_steps s) sid r'" "run_attempts t = map g (run_attempts s)"
    and g: "\<And>x. attempt_id (g x) = attempt_id x \<and> attempt_number (g x) = attempt_number x \<and>
      attempt_step (g x) = attempt_step x"
      "\<And>x. x \<in> set (run_attempts s) \<Longrightarrow> active (g x) \<Longrightarrow> active x"
      "\<And>x. x \<in> set (run_attempts s) \<Longrightarrow> attempt_step x \<noteq> sid \<Longrightarrow> g x = x"
    and r': "record_attempts r' = record_attempts r" "record_definition r' = record_definition r"
      "record_integrated r = None" "record_integrated r' = None"
    and last: "attempts_of s sid \<noteq> [] \<Longrightarrow> \<not> active (g (last (attempts_of s sid)))"
    and st: "record_state r' \<noteq> Running"
      "record_state r' = Succeeded \<Longrightarrow> attempts_of s sid \<noteq> [] \<and>
         attempt_state (g (last (attempts_of s sid))) = AttemptSucceeded"
      "waiting (record_state r') \<Longrightarrow> int (length (attempts_of s sid)) < retry_budget r"
  shows "store_ok t" "same_work s t"
proof -
  have rok: "record_ok (run_profiles s) r (attempts_of s sid)"
    using ok r by (simp add: store_ok_def records_ok_def)
  have known: "distinct (map attempt_id (run_attempts s))"
    "\<forall>a\<in>set (run_attempts s). attempt_step a \<in> set (obj_keys (run_steps s))"
    using ok by (simp_all add: store_ok_def attempts_known_def)
  have fil: "filter (\<lambda>a. attempt_step a = k) (map g (run_attempts s)) = map g (attempts_of s k)" for k
    using g(1) by (simp add: attempts_of_def filter_map comp_def)
  have own: "record_ok (run_profiles s) r' (filter (\<lambda>a. attempt_step a = sid) (map g (run_attempts s)))"
    unfolding fil
    by (rule record_ok_map[OF rok]) (use g r' last st in \<open>auto simp: attempts_of_def\<close>)
  have others: "filter (\<lambda>a. attempt_step a = k) (map g (run_attempts s)) = attempts_of s k" if "k \<noteq> sid" for k
    unfolding fil using g(3) that by (intro map_idI) (auto simp: attempts_of_def)
  have ids: "distinct (map attempt_id (map g (run_attempts s)))" using known(1) g(1) by (simp add: comp_def)
  have steps: "attempt_step ` set (map g (run_attempts s)) \<subseteq> set (obj_keys (run_steps s))"
    using known(2) g(1) by auto
  have sw: "same_work s t" using t r r' obj_get_Some_key[OF r] by (simp add: same_work_def)
  have "slots_ok t"
    by (rule slots_keep[OF _ sw], use ok in \<open>simp add: store_ok_def\<close>,
        rule active_step_ids_map[OF _ _ t(5)], use g in auto)
  with change_store_ok[OF ok r t r'(2) _ own others ids steps] r'(3,4) st(1)
  show "store_ok t" "same_work s t" by auto
qed

lemma update_step_attempt_map:
  "run_attempts (update_step_attempt s aid f) = map (\<lambda>a. if attempt_id a = aid then f a else a) (run_attempts s)"
  by (simp add: update_step_attempt_def)

lemma stored_attempt_unique:
  "attempts_known s \<Longrightarrow> a \<in> set (run_attempts s) \<Longrightarrow> b \<in> set (run_attempts s) \<Longrightarrow>
     attempt_id a = attempt_id b \<Longrightarrow> a = b"
  by (auto simp: attempts_known_def distinct_map inj_on_def)

lemma store_no_failure_upd:
  assumes "no_failure s" and "run_steps t = obj_set (run_steps s) sid r'"
    and "record_state r' \<notin> set TERMINAL_STEP_FAILURE_STATES"
  shows "no_failure t"
  using assms unfolding no_failure_def assms(2) obj_get_upd by (metis option.inject)

text \<open>Reconciling, then changing the lifecycle and appending events.\<close>

definition concluded :: "run_state \<Rightarrow> lifecycle \<Rightarrow> string \<Rightarrow> event_body list \<Rightarrow> string \<Rightarrow> run_state" where
  "concluded s l updated events time =
     append_workflow_events ((reconcile_workflow_steps s)\<lparr>run_state := l, run_updated := updated\<rparr>) events time"

lemma concluded_ok:
  assumes "store_ok s" and "timeline_ok s" and "run_head s \<noteq> []" and "l = RunRunning \<Longrightarrow> no_failure s"
  shows "run_ok (concluded s l updated events time)"
proof -
  let ?u = "(reconcile_workflow_steps s)\<lparr>run_state := l, run_updated := updated\<rparr>"
  have same: "same_store (reconcile_workflow_steps s) (concluded s l updated events time)"
    by (simp add: same_store_def concluded_def)
  have "timeline_ok ?u" using assms(2) by (simp add: timeline_ok_def)
  then have "timeline_ok (concluded s l updated events time)"
    unfolding concluded_def by (rule append_workflow_events_timeline)
  moreover have "store_ok (concluded s l updated events time)"
    using same_store_ok(1)[OF same] reconcile_store_ok[OF assms(1)] by simp
  moreover have "no_failure (concluded s l updated events time)" if "l = RunRunning"
    using same_store_ok(2)[OF same] reconcile_no_failure[OF _ assms(4)[OF that]] assms(1)
    by (simp add: store_ok_def)
  ultimately show ?thesis using assms(3) by (simp add: run_ok_def concluded_def)
qed

lemma settled_attempt_simps [simp]:
  "attempt_id (settled_attempt result ids a) = attempt_id a"
  "attempt_number (settled_attempt result ids a) = attempt_number a"
  "attempt_step (settled_attempt result ids a) = attempt_step a"
  "active (settled_attempt result ids a) = False"
  "attempt_state (settled_attempt result ids a) = AttemptSucceeded \<longleftrightarrow> (\<exists>x. result_outcome result = Success x)"
  by (auto simp: settled_attempt_def active_def Let_def split: step_outcome.splits step_failure.splits)

lemma settled_record_simps [simp]:
  "record_definition (settled_record out retrying r) = record_definition r"
  "record_attempts (settled_record out retrying r) = record_attempts r"
  "record_integrated (settled_record out retrying r) = record_integrated r"
  by (auto simp: settled_record_def split: step_outcome.splits step_failure.splits)

text \<open>
  The stored attempt that a finished execution settles: same id, step and number, still active.
\<close>

definition stored_active :: "run_state \<Rightarrow> step_attempt \<Rightarrow> bool" where
  "stored_active s a \<longleftrightarrow> (\<exists>b\<in>set (run_attempts s). attempt_id b = attempt_id a \<and>
     attempt_step b = attempt_step a \<and> attempt_number b = attempt_number a \<and> active b)"

lemma settle_attempt_Inr:
  assumes "settle_attempt s sid a result ids events updated time = Inr t"
  obtains r c retrying where
    "obj_get (run_steps s) sid = Some r"
    "c = outcome_classification (result_outcome result) (result_timed_out result) (attempt_number a) (retry_budget r)"
    "retrying = outcome_retrying (result_outcome result) c"
    "t = concluded (s\<lparr>run_attempts := map (\<lambda>x. if attempt_id x = attempt_id a then settled_attempt result ids x else x)
           (run_attempts s),
         run_steps := obj_set (run_steps s) sid (settled_record (result_outcome result) retrying r)\<rparr>)
       (settled_lifecycle (run_state s) (result_outcome result) retrying) updated
       (events @ settled_events sid a (result_outcome result) c @
        blocked_step_events (s\<lparr>run_attempts := map (\<lambda>x. if attempt_id x = attempt_id a
             then settled_attempt result ids x else x) (run_attempts s),
           run_steps := obj_set (run_steps s) sid (settled_record (result_outcome result) retrying r)\<rparr>)
         (reconcile_workflow_steps (s\<lparr>run_attempts := map (\<lambda>x. if attempt_id x = attempt_id a
             then settled_attempt result ids x else x) (run_attempts s),
           run_steps := obj_set (run_steps s) sid (settled_record (result_outcome result) retrying r)\<rparr>))) time"
  using assms
  by (auto simp: settle_attempt_def and_then_Inr update_step_Inr update_step_attempt_def Let_def concluded_def
      retry_budget_def intro: that)

lemma settle_attempt_ok:
  assumes ok: "run_ok s" and a: "stored_active s a" "attempt_step a = sid"
    and t: "settle_attempt s sid a result ids events updated time = Inr t"
  shows "run_ok t"
proof -
  have sok: "store_ok s" using ok by (simp add: run_ok_def)
  let ?out = "result_outcome result"
  define g where "g = (\<lambda>x. if attempt_id x = attempt_id a then settled_attempt result ids x else x)"
  from t obtain r c retrying ev where r: "obj_get (run_steps s) sid = Some r"
    and c: "c = outcome_classification ?out (result_timed_out result) (attempt_number a) (retry_budget r)"
    and retrying: "retrying = outcome_retrying ?out c"
    and t: "t = concluded (s\<lparr>run_attempts := map g (run_attempts s),
         run_steps := obj_set (run_steps s) sid (settled_record ?out retrying r)\<rparr>)
       (settled_lifecycle (run_state s) ?out retrying) updated ev time"
    unfolding g_def by (rule settle_attempt_Inr) blast
  let ?u = "s\<lparr>run_attempts := map g (run_attempts s),
      run_steps := obj_set (run_steps s) sid (settled_record ?out retrying r)\<rparr>"
  from a obtain b where b: "b \<in> set (run_attempts s)" "attempt_id b = attempt_id a" "attempt_step b = sid"
    "attempt_number b = attempt_number a" "active b" by (auto simp: stored_active_def)
  then have bin: "b \<in> set (attempts_of s sid)" by (simp add: attempts_of_def)
  have rok: "record_ok (run_profiles s) r (attempts_of s sid)"
    using sok r by (simp add: store_ok_def records_ok_def)
  note lst = active_attempt_last[OF rok bin b(5)]
  have same: "x = b" if "x \<in> set (run_attempts s)" "attempt_id x = attempt_id a" for x
    using stored_attempt_unique[of s x b] that b(1,2) sok by (simp add: store_ok_def)
  have budget: "waiting (record_state (settled_record ?out retrying r)) \<Longrightarrow>
      int (length (attempts_of s sid)) < retry_budget r"
    using lst(4) b(4) c retrying lst(5)
    by (auto simp: settled_record_def outcome_classification_def classify_retryable waiting_def
        split: step_outcome.splits step_failure.splits if_splits)
  have g: "attempt_id (g x) = attempt_id x \<and> attempt_number (g x) = attempt_number x \<and>
      attempt_step (g x) = attempt_step x" "active (g x) \<Longrightarrow> active x" for x
    by (auto simp: g_def split: if_splits)
  have g_other: "g x = x" if "x \<in> set (run_attempts s)" "attempt_step x \<noteq> sid" for x
    using same[OF that(1)] that(2) b(3) by (auto simp: g_def)
  have g_last: "g (last (attempts_of s sid)) = settled_attempt result ids b" using lst(2) b(2) by (simp add: g_def)
  have st: "record_state (settled_record ?out retrying r) \<noteq> Running"
    "record_state (settled_record ?out retrying r) = Succeeded \<Longrightarrow> \<exists>x. ?out = Success x"
    by (auto simp: settled_record_def split: step_outcome.splits step_failure.splits if_splits)
  have "store_ok ?u"
    by (rule end_step_ok(1)[OF sok r, where g=g and r'="settled_record ?out retrying r"])
       (use g(1) in simp, use g(1) in simp, use g(1) in simp, use g(1) in simp, simp add: g_def, use g(1) in blast, use g(2) in blast, use g_other in blast,
        simp, simp, use lst(3) in simp, use lst(3) in simp, simp add: g_last, use st(1) in blast, use st(2) lst(1) in \<open>simp add: g_last\<close>, use budget in blast)
  moreover have "no_failure ?u" if "settled_lifecycle (run_state s) ?out retrying = RunRunning"
  proof -
    have "run_state s = RunRunning" "record_state (settled_record ?out retrying r) \<in> {Succeeded, Ready}"
      using that by (auto simp: settled_lifecycle_def settled_record_def
          split: step_outcome.splits step_failure.splits if_splits)
    moreover have "no_failure s" using ok calculation(1) by (simp add: run_ok_def)
    ultimately show ?thesis by (intro store_no_failure_upd[of s ?u sid "settled_record ?out retrying r"]) auto
  qed
  ultimately show ?thesis unfolding t using ok by (intro concluded_ok) (auto simp: run_ok_def timeline_ok_def)
qed

subsection \<open>Reserving and marking an attempt\<close>

lemma running_record_reconciled:
  assumes "graph_ok s" and "q \<in> set (running_records s)"
  shows "q \<in> set (running_records (reconcile_workflow_steps s))"
proof -
  obtain k where k: "(k, q) \<in> set (run_steps s)" "record_state q = Running"
    using assms(2) by (auto simp: running_records_def obj_values_def)
  have get: "obj_get (run_steps s) k = Some q" using obj_entries_get[OF graph_ok_distinct[OF assms(1)]] k(1) by simp
  have "q\<lparr>record_state := next_step_state (run_profiles s) q (run_steps (reconcile_workflow_steps s))\<rparr> = q"
  proof -
    have "next_step_state (run_profiles s) q (run_steps (reconcile_workflow_steps s)) = record_state q"
      unfolding next_step_state_def using k(2) by (simp only: simp_thms if_True)
    then show ?thesis by simp
  qed
  with reconcile_get[OF assms(1) get] have "obj_get (run_steps (reconcile_workflow_steps s)) k = Some q" by simp
  from obj_get_entry[OF this] k(2) show ?thesis by (force simp: running_records_def obj_values_def)
qed

lemma active_step_ids_snoc:
  "run_attempts t = run_attempts s @ [a] \<Longrightarrow> active a \<Longrightarrow> active_step_ids t = active_step_ids s @ [attempt_step a]"
  by (simp add: active_step_ids_def active_attempts_def active_def)

definition fresh_attempt :: "run_state \<Rightarrow> step_attempt \<Rightarrow> bool" where
  "fresh_attempt s a \<longleftrightarrow> attempt_state a = Prepared \<and> attempt_id a \<notin> attempt_id ` set (run_attempts s) \<and>
     (\<forall>r. obj_get (run_steps s) (attempt_step a) = Some r \<longrightarrow> attempt_number a = Suc (length (record_attempts r)))"

lemma reserve_attempt_Inr:
  assumes "reserve_attempt s a updated time = Inr (t, reserved)"
  shows "\<not> reserved \<and> t = s \<or>
    reserved \<and> run_state s = RunRunning \<and> attempt_step a \<in> set (launchable_steps (reconcile_workflow_steps s)) \<and>
    (\<exists>r. obj_get (run_steps s) (attempt_step a) = Some r \<and>
      t = append_workflow_event (s\<lparr>run_steps := obj_set (run_steps s) (attempt_step a)
          (r\<lparr>record_state := Running, record_attempts := record_attempts r @ [attempt_id a]\<rparr>),
          run_attempts := run_attempts s @ [a], run_updated := updated\<rparr>)
        (StepLaunched (attempt_step a) (attempt_id a) (attempt_number a) (attempt_requirement a)) time)"
  using assms launchable_step_ids_Inr[of s]
  by (auto simp: reserve_attempt_def and_then_Inr update_step_Inr split: if_splits)

lemma launchable_slot:
  assumes "graph_ok s" and "i \<in> set (launchable_steps s)" and "consumes_slot s i"
  shows "int (length (filter (consumes_slot s) (active_step_ids s))) < run_max_workers s"
proof -
  have "i \<in> set (filter (consumes_slot s) (launchable_steps s))" using assms(2,3) by simp
  then have "0 < length (filter (consumes_slot s) (launchable_steps s))" by (metis length_pos_if_in_set)
  then have "0 < free_slots s" using launchable_steps_sound(5)[OF assms(1)] by linarith
  then show ?thesis by (auto simp: free_slots_def occupied_slots_def)
qed

lemma reserve_store_ok:
  assumes ok: "store_ok s" and l: "sid \<in> set (launchable_steps (reconcile_workflow_steps s))"
    and r: "obj_get (run_steps s) sid = Some r" and a: "fresh_attempt s a" "attempt_step a = sid"
  defines "t \<equiv> s\<lparr>run_steps := obj_set (run_steps s) sid
    (r\<lparr>record_state := Running, record_attempts := record_attempts r @ [attempt_id a]\<rparr>),
    run_attempts := run_attempts s @ [a]\<rparr>"
  shows "store_ok t" "same_work s t"
proof -
  let ?R = "reconcile_workflow_steps s"
  have g: "graph_ok s" and gR: "graph_ok ?R" and sw: "same_work s ?R"
    using ok reconcile_graph_ok reconcile_same_work by (simp_all add: store_ok_def)
  have rok: "record_ok (run_profiles s) r (attempts_of s sid)"
    using ok r by (simp add: store_ok_def records_ok_def)
  have act: "active a" using a(1) by (simp add: fresh_attempt_def active_def)
  note lsound = launchable_steps_sound[OF gR]
  have startable: "startable ?R sid" by (rule lsound(2)[OF l])
  then have notact: "sid \<notin> set (active_step_ids s)"
    by (simp add: startable_def active_step_ids_def active_attempts_def)
  have recR: "obj_get (run_steps ?R) sid =
      Some (r\<lparr>record_state := next_step_state (run_profiles s) r (run_steps ?R)\<rparr>)"
    by (rule reconcile_get[OF g r])
  have w: "waiting (record_state r)"
    using startable recR next_step_state_waiting[of "run_profiles s" r "run_steps ?R"]
    by (auto simp: startable_def waiting_def)
  have inactive: "\<forall>x\<in>set (attempts_of s sid). \<not> active x"
    using notact by (auto simp: attempts_of_def active_step_ids_def active_attempts_def active_def)
  have own: "record_ok (run_profiles s) (r\<lparr>record_state := Running,
      record_attempts := record_attempts r @ [attempt_id a]\<rparr>) (attempts_of s sid @ [a])"
  proof -
    have n: "record_attempts r = map attempt_id (attempts_of s sid)"
      "map attempt_number (attempts_of s sid) = [1 ..< Suc (length (attempts_of s sid))]"
      "int (length (attempts_of s sid)) < retry_budget r" "record_integrated r = None"
      using rok w unfolding record_ok_def waiting_def by auto
    then have "attempt_number a = Suc (length (attempts_of s sid))" using a r by (simp add: fresh_attempt_def)
    then show ?thesis using n inactive act by (simp add: record_ok_def retry_budget_def waiting_def)
  qed
  have lock: "\<forall>q\<in>set (running_records s). \<not> locks_conflict (record_definition r) (record_definition q)"
  proof
    fix q assume "q \<in> set (running_records s)"
    from lsound(3)[OF l running_record_reconciled[OF g this]]
    show "\<not> locks_conflict (record_definition r) (record_definition q)" by (simp add: record_of_def recR)
  qed
  have c: "consumes_slot ?R = consumes_slot s" using same_work_facts(3)[OF sw] by (rule ext)
  have swt: "same_work s t" using r obj_get_Some_key[OF r] by (simp add: same_work_def t_def)
  have ct: "consumes_slot t = consumes_slot s" using same_work_facts(3)[OF swt] by (rule ext)
  have ids: "active_step_ids t = active_step_ids s @ [sid]"
    using active_step_ids_snoc[of t s a] a(2) act by (simp add: t_def)
  have workers: "run_max_workers t = run_max_workers s" by (simp add: t_def)
  have slots: "slots_ok t"
  proof (cases "consumes_slot s sid")
    case True
    have "int (length (filter (consumes_slot s) (active_step_ids s))) < run_max_workers s"
      using launchable_slot[OF gR l] True by (simp add: c active_step_ids_def active_attempts_def)
    then show ?thesis using True by (simp add: slots_ok_def ct ids workers)
  next
    case False
    then show ?thesis using ok by (simp add: slots_ok_def ct ids workers store_ok_def)
  qed
  have known: "distinct (map attempt_id (run_attempts s))"
    "\<forall>a\<in>set (run_attempts s). attempt_step a \<in> set (obj_keys (run_steps s))"
    using ok by (simp_all add: store_ok_def attempts_known_def)
  show "store_ok t"
    by (rule change_store_ok(1)[OF ok r, where xs="run_attempts s @ [a]" and
          r'="r\<lparr>record_state := Running, record_attempts := record_attempts r @ [attempt_id a]\<rparr>"])
       (use own lock slots known a obj_get_Some_key[OF r] in \<open>auto simp: t_def attempts_of_def fresh_attempt_def\<close>)
  show "same_work s t" by (rule swt)
qed

lemma reserve_attempt_ok:
  assumes ok: "run_ok s" and a: "fresh_attempt s a"
    and t: "reserve_attempt s a updated time = Inr (t, reserved)"
  shows "run_ok t"
proof (cases reserved)
  case True
  from reserve_attempt_Inr[OF t] True obtain r where run: "run_state s = RunRunning"
    and l: "attempt_step a \<in> set (launchable_steps (reconcile_workflow_steps s))"
    and r: "obj_get (run_steps s) (attempt_step a) = Some r"
    and t: "t = append_workflow_event (s\<lparr>run_steps := obj_set (run_steps s) (attempt_step a)
          (r\<lparr>record_state := Running, record_attempts := record_attempts r @ [attempt_id a]\<rparr>),
          run_attempts := run_attempts s @ [a], run_updated := updated\<rparr>)
        (StepLaunched (attempt_step a) (attempt_id a) (attempt_number a) (attempt_requirement a)) time"
    by blast
  let ?u = "s\<lparr>run_steps := obj_set (run_steps s) (attempt_step a)
    (r\<lparr>record_state := Running, record_attempts := record_attempts r @ [attempt_id a]\<rparr>),
    run_attempts := run_attempts s @ [a]\<rparr>"
  have "store_ok ?u" using ok l r a by (intro reserve_store_ok(1)) (auto simp: run_ok_def)
  moreover have same: "same_store ?u t" by (simp add: same_store_def t)
  moreover have "no_failure ?u"
    by (rule store_no_failure_upd[of s _ "attempt_step a"
          "r\<lparr>record_state := Running, record_attempts := record_attempts r @ [attempt_id a]\<rparr>"])
       (use ok run in \<open>auto simp: run_ok_def\<close>)
  moreover have "timeline_ok t"
    unfolding t by (rule append_workflow_event_timeline) (use ok in \<open>simp add: run_ok_def timeline_ok_def\<close>)
  ultimately show ?thesis using ok same_store_ok[OF same] by (simp add: run_ok_def t)
next
  case False
  then show ?thesis using reserve_attempt_Inr[OF t] ok by blast
qed

lemma record_ok_active_map:
  assumes "record_ok ps r xs"
    and "\<And>x. x \<in> set xs \<Longrightarrow> attempt_id (g x) = attempt_id x \<and> attempt_number (g x) = attempt_number x \<and>
      active (g x) = active x \<and> (attempt_state x = AttemptSucceeded \<longrightarrow> attempt_state (g x) = AttemptSucceeded)"
  shows "record_ok ps r (map g xs)"
proof -
  have "map attempt_id (map g xs) = map attempt_id xs" "map attempt_number (map g xs) = map attempt_number xs"
    using assms(2) by simp_all
  moreover have "\<forall>a\<in>set (butlast (map g xs)). \<not> active a"
    using assms(1) assms(2) in_set_butlastD[of _ xs] by (auto simp: record_ok_def map_butlast[symmetric])
  moreover have "xs \<noteq> [] \<Longrightarrow> active (g (last xs)) = active (last xs) \<and>
      (attempt_state (last xs) = AttemptSucceeded \<longrightarrow> attempt_state (g (last xs)) = AttemptSucceeded)"
    using assms(2) by simp
  ultimately show ?thesis
    using assms(1) unfolding record_ok_def by (auto simp: last_map simp del: upt_Suc)
qed

lemma mark_attempt_running_ok:
  assumes ok: "run_ok s" and a: "b \<in> set (run_attempts s)" "attempt_id b = aid" "active b"
  shows "run_ok (mark_attempt_running s aid updated)"
proof -
  define g :: "step_attempt \<Rightarrow> step_attempt" where "g = (\<lambda>x. if attempt_id x = aid then x\<lparr>attempt_state := AttemptRunning\<rparr> else x)"
  let ?t = "mark_attempt_running s aid updated"
  have sok: "store_ok s" using ok by (simp add: run_ok_def)
  have known: "attempts_known s" using sok by (simp add: store_ok_def)
  have only: "x = b" if "x \<in> set (run_attempts s)" "attempt_id x = aid" for x
    using stored_attempt_unique[OF known that(1) a(1)] that(2) a(2) by simp
  have g: "attempt_id (g x) = attempt_id x" "attempt_number (g x) = attempt_number x"
    "attempt_step (g x) = attempt_step x" for x by (simp_all add: g_def)
  have gs: "active (g x) = active x \<and> (attempt_state x = AttemptSucceeded \<longrightarrow> attempt_state (g x) = AttemptSucceeded)"
    if "x \<in> set (run_attempts s)" for x
    using only[OF that] a(3) by (auto simp: g_def active_def)
  have t: "run_attempts ?t = map g (run_attempts s)" "run_steps ?t = run_steps s" "run_plan ?t = run_plan s"
    "run_profiles ?t = run_profiles s" "run_max_workers ?t = run_max_workers s" "run_state ?t = run_state s"
    "run_head ?t = run_head s"
    by (simp_all add: mark_attempt_running_def update_step_attempt_def g_def)
  obtain r where r: "obj_get (run_steps s) (attempt_step b) = Some r"
    using known a(1) obj_key_get[of "attempt_step b"] by (auto simp: attempts_known_def)
  have fil: "filter (\<lambda>a. attempt_step a = k) (map g (run_attempts s)) = map g (attempts_of s k)" for k
    using g(3) by (simp add: attempts_of_def filter_map comp_def)
  have sw: "same_work s ?t" by (simp add: same_work_def t)
  have "store_ok ?t"
  proof (rule change_store_ok(1)[OF sok r t(3,4,5) _ t(1), of r])
    show "run_steps ?t = obj_set (run_steps s) (attempt_step b) r" by (simp add: t(2) obj_set_same[OF r])
    show "record_ok (run_profiles s) r (filter (\<lambda>a. attempt_step a = attempt_step b) (map g (run_attempts s)))"
      unfolding fil
      by (rule record_ok_active_map) (use sok r g gs in \<open>auto simp: store_ok_def records_ok_def attempts_of_def\<close>)
    show "filter (\<lambda>a. attempt_step a = k) (map g (run_attempts s)) = attempts_of s k" if "k \<noteq> attempt_step b" for k
      unfolding fil using that only by (intro map_idI) (auto simp: attempts_of_def g_def)
    show "distinct (map attempt_id (map g (run_attempts s)))"
      using known g(1) by (simp add: attempts_known_def comp_def)
    show "attempt_step ` set (map g (run_attempts s)) \<subseteq> set (obj_keys (run_steps s))"
      using known g(3) by (auto simp: attempts_known_def)
    show "slots_ok ?t"
      by (rule slots_keep[OF _ sw], use sok in \<open>simp add: store_ok_def\<close>,
          rule active_step_ids_map[OF _ _ t(1)], use g gs in auto)
  qed simp_all
  then show ?thesis
    using ok t by (simp add: run_ok_def no_failure_def timeline_ok_def mark_attempt_running_def update_step_attempt_def)
qed

subsection \<open>Failing and integrating\<close>

lemma end_record_ok:
  assumes ok: "store_ok s" and r: "obj_get (run_steps s) sid = Some r" and i: "record_integrated r = None"
    and f: "record_attempts (f r) = record_attempts r" "record_definition (f r) = record_definition r"
      "record_integrated (f r) = None" "record_state (f r) = Failed"
    and st: "waiting (record_state r) \<or> record_state r = Succeeded"
  shows "store_ok (s\<lparr>run_steps := obj_set (run_steps s) sid (f r)\<rparr>)"
proof -
  have rok: "record_ok (run_profiles s) r (attempts_of s sid)"
    using ok r by (simp add: store_ok_def records_ok_def)
  have "attempts_of s sid \<noteq> [] \<Longrightarrow> \<not> active (last (attempts_of s sid))"
    using rok st unfolding record_ok_def waiting_def by auto
  then show ?thesis
    by (intro end_step_ok(1)[OF ok r, where g="\<lambda>x. x" and r'="f r"]) (use f i in \<open>auto simp: waiting_def\<close>)
qed

lemma fail_step_ok:
  assumes ok: "run_ok s" and st: "\<And>r. obj_get (run_steps s) sid = Some r \<Longrightarrow> waiting (record_state r)"
    and t: "fail_step s sid message updated time = Inr t"
  shows "run_ok t"
proof -
  let ?l = "if run_state s = RunCancelled then RunCancelled else RunFailed"
  have l: "?l \<noteq> RunRunning" by simp
  have "\<exists>r ev. obj_get (run_steps s) sid = Some r \<and> t = concluded (s\<lparr>run_steps := obj_set (run_steps s) sid
      (r\<lparr>record_state := Failed, record_error := Some message\<rparr>)\<rparr>) ?l updated ev time"
    using t unfolding fail_step_def and_then_Inr update_step_Inr Let_def concluded_def by (force simp: reconcile_frame)
  then obtain r ev where r: "obj_get (run_steps s) sid = Some r"
    and t: "t = concluded (s\<lparr>run_steps := obj_set (run_steps s) sid
      (r\<lparr>record_state := Failed, record_error := Some message\<rparr>)\<rparr>) ?l updated ev time" by blast
  have sok: "store_ok s" using ok by (simp add: run_ok_def)
  have "record_ok (run_profiles s) r (attempts_of s sid)"
    using sok r by (simp add: store_ok_def records_ok_def)
  then have "record_integrated r = None" using st[OF r] by (auto simp: record_ok_def waiting_def)
  then show ?thesis
    unfolding t using ok l end_record_ok[OF sok r, of "\<lambda>r. r\<lparr>record_state := Failed, record_error := Some message\<rparr>"] st[OF r]
    by (intro concluded_ok) (auto simp: run_ok_def timeline_ok_def)
qed

lemma fail_integration_ok:
  assumes ok: "run_ok s"
    and st: "\<And>r. obj_get (run_steps s) sid = Some r \<Longrightarrow> record_state r = Succeeded \<and> record_integrated r = None"
    and t: "fail_integration s sid a problem updated time = Inr t"
  shows "run_ok t"
proof -
  from t obtain r m ev where r: "obj_get (run_steps s) sid = Some r"
    and t: "t = concluded (s\<lparr>run_steps := obj_set (run_steps s) sid
      (r\<lparr>record_state := Failed, record_integration_error := Some m\<rparr>)\<rparr>) RunFailed updated ev time"
    by (auto simp: fail_integration_def and_then_Inr update_step_Inr Let_def concluded_def)
  have sok: "store_ok s" using ok by (simp add: run_ok_def)
  show ?thesis
    unfolding t using ok end_record_ok[OF sok r, of "\<lambda>r. r\<lparr>record_state := Failed, record_integration_error := Some m\<rparr>"] st[OF r]
    by (intro concluded_ok) (auto simp: run_ok_def timeline_ok_def)
qed

text \<open>
  A step may be integrated when it succeeded, has to be integrated, and every mutating step
  before it in topological order already is.
\<close>

definition integrable :: "run_state \<Rightarrow> string \<Rightarrow> bool" where
  "integrable s sid \<longleftrightarrow> (\<exists>r. obj_get (run_steps s) sid = Some r \<and> record_state r = Succeeded \<and>
       record_integrated r = None) \<and> must_integrate s sid \<and>
     (\<exists>us vs. topological_step_ids (run_plan s) = us @ sid # vs \<and> (\<forall>u\<in>set us. must_integrate s u \<longrightarrow> integrated s u))"

lemma append_reconciled:
  "append_workflow_events (reconcile_workflow_steps s) events time =
     concluded s (run_state s) (run_updated s) events time"
  by (simp add: concluded_def reconcile_workflow_steps_def)

lemma distinct_split_unique:
  assumes "distinct (us @ i # vs)" and "us @ i # vs = us' @ i # vs'"
  shows "us = us' \<and> vs = vs'"
proof -
  have "i \<notin> set us" "i \<notin> set us'" using assms(1) assms(1)[unfolded assms(2)] by simp_all
  then have "takeWhile (\<lambda>x. x \<noteq> i) (us @ i # vs) = us" "takeWhile (\<lambda>x. x \<noteq> i) (us' @ i # vs') = us'"
    by (auto simp: takeWhile_append2 takeWhile_tail)
  then show ?thesis using assms(2) by simp
qed

lemma integrate_store_ok:
  assumes ok: "store_ok s" and i: "integrable s sid" and r: "obj_get (run_steps s) sid = Some r"
    and c: "commit \<noteq> []"
  shows "store_ok (s\<lparr>run_steps := obj_set (run_steps s) sid (r\<lparr>record_integrated := Some commit\<rparr>), run_head := commit\<rparr>)"
    (is "store_ok ?t")
proof -
  have st: "record_state r = Succeeded" "must_integrate s sid" using i r by (auto simp: integrable_def)
  have key: "sid \<in> set (obj_keys (run_steps s))" by (rule obj_get_Some_key[OF r])
  have g: "graph_ok s" using ok by (simp add: store_ok_def)
  have gt: "graph_ok ?t"
    using g graph_ok_set[OF g r, of "r\<lparr>record_integrated := Some commit\<rparr>"] by (simp add: graph_ok_def)
  have cons: "consumes_slot ?t = consumes_slot s"
    by (rule ext) (use r in \<open>simp add: consumes_slot_def split: option.split\<close>)
  have must: "must_integrate ?t u = must_integrate s u" for u
    using r by (auto simp: must_integrate_def)
  have int: "integrated ?t u \<longleftrightarrow> u = sid \<or> integrated s u" for u by (auto simp: integrated_def)
  have "records_ok ?t"
    unfolding records_ok_def
  proof (intro allI impI)
    fix k q assume q: "obj_get (run_steps ?t) k = Some q"
    have "record_ok (run_profiles s) r (attempts_of s sid)"
      using ok r by (simp add: store_ok_def records_ok_def)
    then have "record_ok (run_profiles s) (r\<lparr>record_integrated := Some commit\<rparr>) (attempts_of s sid)"
      using st c r by (auto simp: record_ok_def truthy_def must_integrate_def retry_budget_def waiting_def simp del: upt_Suc)
    then show "record_ok (run_profiles ?t) q (attempts_of ?t k)"
      using q ok by (auto simp: attempts_of_def store_ok_def records_ok_def split: if_splits)
  qed
  moreover have "exclusive ?t"
    using ok r st(1) unfolding store_ok_def exclusive_def by (auto split: if_splits)
  moreover have "slots_ok ?t" "attempts_known ?t"
    using ok key by (simp_all add: store_ok_def slots_ok_def cons attempts_known_def active_step_ids_def active_attempts_def)
  moreover have "integrated_prefix ?t"
    unfolding integrated_prefix_def must int
  proof (intro allI impI ballI)
    fix us k vs u
    assume o: "topological_step_ids (run_plan ?t) = us @ k # vs" and k: "k = sid \<or> integrated s k"
      and u: "u \<in> set us" "must_integrate s u"
    show "u = sid \<or> integrated s u"
    proof (cases "k = sid")
      case True
      obtain us' vs' where o': "topological_step_ids (run_plan s) = us' @ sid # vs'"
        "\<forall>u\<in>set us'. must_integrate s u \<longrightarrow> integrated s u" using i by (auto simp: integrable_def)
      have "us = us'"
        using distinct_split_unique[of us sid vs us' vs'] graph_ok_order(1)[OF g] o o'(1) True by simp
      then show ?thesis using o'(2) u by blast
    next
      case False
      then show ?thesis using k u o ok unfolding store_ok_def integrated_prefix_def by auto
    qed
  qed
  ultimately show ?thesis using gt by (simp add: store_ok_def)
qed

lemma integrate_step_ok:
  assumes ok: "run_ok s" and i: "integrable s sid" and c: "commit \<noteq> []"
    and t: "integrate_step s sid a commit updated time = Inr t"
  shows "run_ok t"
proof -
  from t obtain r where r: "obj_get (run_steps s) sid = Some r"
    and t: "t = append_workflow_event (reconcile_workflow_steps (s\<lparr>run_steps := obj_set (run_steps s) sid
      (r\<lparr>record_integrated := Some commit\<rparr>), run_head := commit, run_updated := updated\<rparr>))
      (StepIntegrated sid (if truthy (attempt_commit a) then attempt_commit a else None) commit) time"
    by (auto simp: integrate_step_def and_then_Inr update_step_Inr)
  let ?u = "s\<lparr>run_steps := obj_set (run_steps s) sid (r\<lparr>record_integrated := Some commit\<rparr>), run_head := commit\<rparr>"
  have "store_ok ?u" using ok i r c by (intro integrate_store_ok) (auto simp: run_ok_def)
  moreover have "same_store ?u (?u\<lparr>run_updated := updated\<rparr>)" by (simp add: same_store_def)
  moreover have "no_failure ?u" if "run_state s = RunRunning"
    using that ok i r
    by (intro store_no_failure_upd[of s ?u sid "r\<lparr>record_integrated := Some commit\<rparr>"])
       (auto simp: run_ok_def integrable_def)
  ultimately show ?thesis
    unfolding t append_workflow_event_def append_reconciled using ok c
    by (intro concluded_ok) (auto simp: run_ok_def timeline_ok_def same_store_ok)
qed

text \<open>What the engine integrates next is integrable, with a succeeded attempt behind it.\<close>

lemma choose_integration_ok:
  assumes ok: "run_ok s" and c: "choose_integration s = Integrating sid a"
  shows "integrable s sid" "a \<in> set (run_attempts s)" "attempt_step a = sid" "attempt_state a = AttemptSucceeded"
    "run_state s = RunRunning"
proof -
  from c have run: "run_state s = RunRunning" and next': "next_integrable_step_id s = Some sid"
    and last: "find_last (\<lambda>a. attempt_step a = sid \<and> attempt_state a = AttemptSucceeded) (run_attempts s) = Some a"
    by (auto simp: choose_integration_def split: if_splits option.splits)
  from find_last_Some[OF last] show "a \<in> set (run_attempts s)" "attempt_step a = sid" "attempt_state a = AttemptSucceeded"
    by auto
  show "run_state s = RunRunning" by (rule run)
  from next_integrable_Some[OF next'[unfolded next_integrable_step_id_def]]
  obtain us vs r where n: "topological_step_ids (run_plan s) = us @ sid # vs" "obj_get (run_steps s) sid = Some r"
    "step_requires_integration (run_profiles s) (record_definition r)" "\<not> truthy (record_integrated r)"
    "record_state r = Succeeded"
    "\<forall>u\<in>set us. \<forall>q. obj_get (run_steps s) u = Some q \<longrightarrow>
       \<not> step_requires_integration (run_profiles s) (record_definition q) \<or> truthy (record_integrated q)" by blast
  have "record_ok (run_profiles s) r (attempts_of s sid)"
    using ok n(2) by (simp add: run_ok_def store_ok_def records_ok_def)
  then have "record_integrated r = None" using n(4) by (auto simp: record_ok_def)
  moreover have "integrated s u" if u: "u \<in> set us" "must_integrate s u" for u
  proof -
    obtain q where q: "obj_get (run_steps s) u = Some q"
      "step_requires_integration (run_profiles s) (record_definition q)" using u(2) by (auto simp: must_integrate_def)
    then have "truthy (record_integrated q)" using n(6) u(1) by blast
    then show ?thesis using q(1) by (cases "record_integrated q") (auto simp: integrated_def truthy_def)
  qed
  ultimately show "integrable s sid" using n by (auto simp: integrable_def must_integrate_def)
qed

lemma no_missing_attempt:
  assumes "run_ok s"
  shows "choose_integration s \<noteq> MissingAttempt sid"
proof
  assume "choose_integration s = MissingAttempt sid"
  then have next': "next_integrable_step_id s = Some sid"
    and none: "find_last (\<lambda>a. attempt_step a = sid \<and> attempt_state a = AttemptSucceeded) (run_attempts s) = None"
    by (auto simp: choose_integration_def split: if_splits option.splits)
  from next_integrable_Some[OF next'[unfolded next_integrable_step_id_def]]
  obtain r where r: "obj_get (run_steps s) sid = Some r" "record_state r = Succeeded" by blast
  have "record_ok (run_profiles s) r (attempts_of s sid)"
    using assms r(1) by (simp add: run_ok_def store_ok_def records_ok_def)
  then have "attempts_of s sid \<noteq> []" "attempt_state (last (attempts_of s sid)) = AttemptSucceeded"
    using r(2) by (auto simp: record_ok_def)
  then show False using none last_in_set[of "attempts_of s sid"] by (auto simp: find_last_None attempts_of_def)
qed

subsection \<open>Admission, cancellation, settling and creation\<close>

lemma append_event_ok: "run_ok s \<Longrightarrow> run_ok (append_workflow_event s b time)"
proof -
  assume ok: "run_ok s"
  have "same_store s (append_workflow_event s b time)" by (simp add: same_store_def)
  from same_store_ok[OF this] show ?thesis
    using ok by (simp add: run_ok_def append_workflow_event_timeline)
qed

lemma request_cancellation_ok: "run_ok s \<Longrightarrow> run_ok (request_cancellation s reason time)"
  by (simp add: request_cancellation_def append_event_ok)

lemma obj_get_append: "obj_get (a @ b) k = (case obj_get a k of Some v \<Rightarrow> Some v | None \<Rightarrow> obj_get b k)"
  by (simp add: obj_get_def map_add_def split: option.split)

lemma obj_get_new_records:
  "obj_get (map (\<lambda>d. (step_id d, new_record Planned d)) ds) k = Some r \<Longrightarrow>
     \<exists>d\<in>set ds. step_id d = k \<and> r = new_record Planned d"
  by (induction ds) (auto simp: obj_get_def split: if_splits)

lemma grown_store_ok:
  assumes ok: "store_ok s" and wf: "wf_workflow_plan (run_plan (grown_run s extra time))"
  shows "store_ok (grown_run s extra time)"
proof -
  let ?t = "grown_run s extra time"
  have g: "graph_ok s" using ok by (simp add: store_ok_def)
  have gt: "graph_ok ?t" by (rule grown_run_graph[OF g wf])
  have fields: "run_attempts ?t = run_attempts s" "run_profiles ?t = run_profiles s"
    "run_max_workers ?t = run_max_workers s" "active_step_ids ?t = active_step_ids s"
    "plan_steps (run_plan ?t) = plan_steps (run_plan s) @ extra" "attempts_of ?t = attempts_of s"
    by (simp_all add: grown_run_def active_step_ids_def active_attempts_def attempts_of_def[abs_def])
  have steps: "run_steps ?t = run_steps s @ map (\<lambda>d. (step_id d, new_record Planned d)) extra"
    by (simp add: grown_run_def)
  have old: "obj_get (run_steps ?t) k = Some r" if "obj_get (run_steps s) k = Some r" for k r
    using that by (simp add: steps obj_get_append)
  have new: "obj_get (run_steps s) k = Some r \<or> obj_get (run_steps s) k = None \<and> (\<exists>d\<in>set extra. r = new_record Planned d)"
    if "obj_get (run_steps ?t) k = Some r" for k r
    using that obj_get_new_records[of extra k r] by (auto simp: steps obj_get_append split: option.splits)
  have known: "\<forall>a\<in>set (run_attempts s). attempt_step a \<in> set (obj_keys (run_steps s))"
    "distinct (map attempt_id (run_attempts s))" using ok by (simp_all add: store_ok_def attempts_known_def)
  have none: "attempts_of s k = []" if "obj_get (run_steps s) k = None" for k
    using that known(1) by (auto simp: attempts_of_def obj_get_None_iff filter_empty_conv)
  have "records_ok ?t"
    unfolding records_ok_def fields
  proof (intro allI impI)
    fix k r assume k: "obj_get (run_steps ?t) k = Some r"
    from new[OF k] show "record_ok (run_profiles s) r (attempts_of s k)"
    proof
      assume "obj_get (run_steps s) k = Some r"
      then show ?thesis using ok by (simp add: store_ok_def records_ok_def)
    next
      assume n: "obj_get (run_steps s) k = None \<and> (\<exists>d\<in>set extra. r = new_record Planned d)"
      then obtain d where d: "d \<in> set extra" "r = new_record Planned d" by blast
      have "wf_step (plan_steps (run_plan ?t)) d" using wf_workflow_planD(4)[OF wf] d(1) fields(5) by simp
      then have "1 \<le> step_retry_policy d" using wf_stepD(3) by (simp add: wf_step_def)
      then show ?thesis using n d(2) none
        by (simp add: record_ok_def new_record_def retry_budget_def waiting_def)
    qed
  qed
  moreover have "exclusive ?t"
    unfolding exclusive_def
  proof (intro allI impI)
    fix i j p q
    assume e: "obj_get (run_steps ?t) i = Some p" "obj_get (run_steps ?t) j = Some q" "i \<noteq> j"
      "record_state p = Running" "record_state q = Running"
    have "obj_get (run_steps s) i = Some p" "obj_get (run_steps s) j = Some q"
      using new[OF e(1)] new[OF e(2)] e(4,5) by (auto simp: new_record_def)
    then show "\<not> locks_conflict (record_definition p) (record_definition q)"
      using ok e unfolding store_ok_def exclusive_def by blast
  qed
  moreover have "attempts_known ?t" using known by (auto simp: attempts_known_def fields steps obj_keys_def)
  moreover have "slots_ok ?t"
  proof -
    have "consumes_slot ?t i = consumes_slot s i" if "i \<in> set (active_step_ids s)" for i
    proof -
      have "i \<in> set (obj_keys (run_steps s))"
        using that known(1) by (auto simp: active_step_ids_def active_attempts_def)
      then obtain r where "obj_get (run_steps s) i = Some r" using obj_key_get by blast
      then show ?thesis using old by (simp add: consumes_slot_def fields)
    qed
    then have "filter (consumes_slot ?t) (active_step_ids s) = filter (consumes_slot s) (active_step_ids s)"
      by (rule filter_cong[OF refl])
    then show ?thesis using ok by (simp add: slots_ok_def fields store_ok_def)
  qed
  moreover have "integrated_prefix ?t"
    unfolding integrated_prefix_def
  proof (intro allI impI ballI)
    fix us i vs u
    assume o: "topological_step_ids (run_plan ?t) = us @ i # vs" and i: "integrated ?t i"
      and u: "u \<in> set us" "must_integrate ?t u"
    have iold: "integrated s i" using i new by (fastforce simp: integrated_def new_record_def)
    then have "i \<in> set (topological_step_ids (run_plan s))"
      using graph_ok_order(2)[OF g] obj_get_Some_key by (auto simp: integrated_def)
    then obtain us' vs' where o': "topological_step_ids (run_plan s) = us' @ i # vs'" by (meson split_list)
    obtain rest where "topological_step_ids (run_plan ?t) = topological_step_ids (run_plan s) @ rest"
      using topological_step_ids_grow[OF wf fields(5)] by (auto simp: prefix_def)
    then have "us = us'"
      using distinct_split_unique[of us i vs us' "vs' @ rest"] graph_ok_order(1)[OF gt] o o' by simp
    then have us: "u \<in> set us'" using u(1) by simp
    then have "u \<in> set (obj_keys (run_steps s))" using graph_ok_order(2)[OF g] o' by auto
    then obtain q where q: "obj_get (run_steps s) u = Some q" using obj_key_get by blast
    have "must_integrate s u" using u(2) old[OF q] q by (simp add: must_integrate_def fields)
    then have "integrated s u" using ok iold us o' unfolding store_ok_def integrated_prefix_def by blast
    then show "integrated ?t u" using old by (auto simp: integrated_def)
  qed
  ultimately show ?thesis using gt by (simp add: store_ok_def)
qed

lemma admit_steps_ok:
  assumes ok: "run_ok s" and t: "admit_steps s request time = Inr t"
  shows "run_ok t"
proof -
  have g: "graph_ok s" and sok: "store_ok s" using ok by (simp_all add: run_ok_def store_ok_def)
  obtain extra ev where wf: "wf_workflow_plan (run_plan (grown_run s extra time))"
    and t: "t = append_workflow_events (reconcile_workflow_steps (grown_run s extra time)) ev time"
    by (rule admit_steps_Inr[OF g t]) blast
  have "no_failure (grown_run s extra time)" if "run_state s = RunRunning"
    unfolding no_failure_def
  proof (intro allI impI)
    fix k r assume "obj_get (run_steps (grown_run s extra time)) k = Some r"
    then have "obj_get (run_steps s) k = Some r \<or> (\<exists>d. r = new_record Planned d)"
      using obj_get_new_records[of extra k r] by (auto simp: grown_run_def obj_get_append split: option.splits)
    then show "record_state r \<notin> set TERMINAL_STEP_FAILURE_STATES"
      using ok that by (auto simp: run_ok_def no_failure_def new_record_def)
  qed
  then show ?thesis
    unfolding t append_reconciled using ok grown_store_ok[OF sok wf]
    by (intro concluded_ok) (auto simp: run_ok_def timeline_ok_def grown_run_def)
qed

end
