(* ===== verification/EngineSettling.thy ===== *)
theory EngineSettling
  imports EngineTransactions
begin

text \<open>
  The first and the last transaction of a run: \<open>createWorkflowRunState\<close> establishes the
  invariant, \<open>settleRun\<close> keeps it, never leaves the run running, and a run it completes has
  only succeeded steps.
\<close>

subsection \<open>Settling\<close>

definition cancelled_record :: "step_record \<Rightarrow> step_record" where
  "cancelled_record r = (if unfinished_for_cancel r then r\<lparr>record_state := Cancelled\<rparr> else r)"

lemma cancel_unfinished_get:
  "obj_get (run_steps (fst (cancel_unfinished s))) k = map_option cancelled_record (obj_get (run_steps s) k)"
proof -
  have "obj_get (map (\<lambda>(sid, r). (sid, if unfinished_for_cancel r then r\<lparr>record_state := Cancelled\<rparr> else r)) ob) k =
      map_option cancelled_record (obj_get ob k)" for ob
    by (induction ob) (auto simp: obj_get_def cancelled_record_def)
  then show ?thesis by (simp add: cancel_unfinished_def)
qed

lemma cancel_unfinished_frame [simp, frame_simps]:
  "run_plan (fst (cancel_unfinished s)) = run_plan s"
  "run_profiles (fst (cancel_unfinished s)) = run_profiles s"
  "run_attempts (fst (cancel_unfinished s)) = run_attempts s"
  "run_max_workers (fst (cancel_unfinished s)) = run_max_workers s"
  "run_head (fst (cancel_unfinished s)) = run_head s"
  "run_state (fst (cancel_unfinished s)) = run_state s"
  "run_events (fst (cancel_unfinished s)) = run_events s"
  "run_sequence (fst (cancel_unfinished s)) = run_sequence s"
  "run_dropped (fst (cancel_unfinished s)) = run_dropped s"
  "run_error (fst (cancel_unfinished s)) = run_error s"
  "obj_keys (run_steps (fst (cancel_unfinished s))) = obj_keys (run_steps s)"
  by (simp_all add: cancel_unfinished_def obj_keys_def comp_def case_prod_beta)

lemma cancelled_record_ok: "record_ok ps r xs \<Longrightarrow> record_ok ps (cancelled_record r) xs"
  by (cases "record_state r")
     (auto simp: cancelled_record_def unfinished_for_cancel_def record_ok_def retry_budget_def waiting_def
       simp del: upt_Suc)

text \<open>A rewriting of the records that starts no step and keeps the work.\<close>

lemma map_records_store_ok:
  assumes ok: "store_ok s" and get: "\<And>k. obj_get (run_steps t) k = map_option f (obj_get (run_steps s) k)"
    and keys: "obj_keys (run_steps t) = obj_keys (run_steps s)"
    and f: "\<And>ps r xs. record_ok ps r xs \<Longrightarrow> record_ok ps (f r) xs"
      "\<And>r. record_definition (f r) = record_definition r \<and> record_integrated (f r) = record_integrated r"
      "\<And>r. record_state (f r) = Running \<Longrightarrow> record_state r = Running"
    and t: "run_plan t = run_plan s" "run_profiles t = run_profiles s" "run_attempts t = run_attempts s"
      "run_max_workers t = run_max_workers s"
  shows "store_ok t"
proof -
  have "map_option (\<lambda>r. (record_definition r, record_integrated r)) (obj_get (run_steps t) k) =
      map_option (\<lambda>r. (record_definition r, record_integrated r)) (obj_get (run_steps s) k)" for k
    by (cases "obj_get (run_steps s) k") (simp_all add: get f(2))
  then have sw: "same_work s t" by (simp add: same_work_def keys t)
  have "records_ok t" using ok f(1) by (auto simp: records_ok_def get attempts_of_def store_ok_def t)
  moreover have "exclusive t"
  proof (rule exclusive_mono[OF _ sw])
    show "exclusive s" using ok by (simp add: store_ok_def)
    show "\<exists>r. obj_get (run_steps s) k = Some r \<and> record_state r = Running"
      if "obj_get (run_steps t) k = Some r'" "record_state r' = Running" for k r'
      using that f(3) by (auto simp: get)
  qed
  moreover have "slots_ok t" "attempts_known t"
    using ok same_work_facts(3)[OF sw]
    by (simp_all add: store_ok_def slots_ok_def attempts_known_def active_step_ids_def active_attempts_def t keys)
  ultimately show ?thesis using same_work_graph[OF sw] same_work_prefix[OF sw] ok by (simp add: store_ok_def)
qed

lemma cancel_unfinished_store_ok:
  assumes "store_ok s"
  shows "store_ok (fst (cancel_unfinished s))"
proof (rule map_records_store_ok[OF assms, where f = cancelled_record])
  show "record_ok ps (cancelled_record r) xs" if "record_ok ps r xs" for ps r xs using cancelled_record_ok[OF that] .
qed (auto simp: cancel_unfinished_get cancelled_record_def split: if_splits)

definition cancelling :: "run_state \<Rightarrow> bool \<Rightarrow> bool" where
  "cancelling s cancelled \<longleftrightarrow> (cancelled \<or> run_state s = RunCancelled) \<and> run_state s \<noteq> RunFailed \<and> run_state s \<noteq> RunCompleted"

definition closed_steps :: "run_state \<Rightarrow> bool \<Rightarrow> run_state" where
  "closed_steps s cancelled = (if cancelling s cancelled then fst (cancel_unfinished (reconcile_workflow_steps s))
     else reconcile_workflow_steps s)"

lemma closed_steps_frame [simp, frame_simps]:
  "run_plan (closed_steps s c) = run_plan s" "run_profiles (closed_steps s c) = run_profiles s"
  "run_attempts (closed_steps s c) = run_attempts s" "run_max_workers (closed_steps s c) = run_max_workers s"
  "run_head (closed_steps s c) = run_head s" "run_state (closed_steps s c) = run_state s"
  "obj_keys (run_steps (closed_steps s c)) = obj_keys (run_steps s)"
  by (simp_all add: closed_steps_def)

lemma settled_run_state_not_running: "settled_run_state l states \<noteq> RunRunning"
  by (simp add: settled_run_state_def)

lemma settled_run_state_completed:
  "settled_run_state RunRunning states = RunCompleted \<longleftrightarrow> (\<forall>st\<in>set states. st = Succeeded)"
  by (auto simp: settled_run_state_def list_all_iff filter_empty_conv)

lemma settle_run_fields:
  shows "run_steps (settle_run s c updated time) = run_steps (closed_steps s c)"
    "run_plan (settle_run s c updated time) = run_plan s"
    "run_profiles (settle_run s c updated time) = run_profiles s"
    "run_attempts (settle_run s c updated time) = run_attempts s"
    "run_max_workers (settle_run s c updated time) = run_max_workers s"
    "run_head (settle_run s c updated time) = run_head s"
    "run_state (settle_run s c updated time) =
       settled_run_state (run_state s) (map record_state (obj_values (run_steps (closed_steps s c))))"
  by (simp_all add: settle_run_def closed_steps_def cancelling_def Let_def)

lemma settle_run_ok:
  assumes "run_ok s"
  shows "run_ok (settle_run s c updated time)"
proof -
  let ?t = "settle_run s c updated time"
  have "store_ok (closed_steps s c)"
    using assms reconcile_store_ok cancel_unfinished_store_ok by (simp add: closed_steps_def run_ok_def)
  moreover have "same_store (closed_steps s c) ?t"
    by (simp add: same_store_def settle_run_fields)
  moreover have "timeline_ok ?t"
    unfolding settle_run_def Let_def
    by (rule append_workflow_events_timeline) (use assms in \<open>simp add: run_ok_def timeline_ok_def del: upt_Suc\<close>)
  ultimately show ?thesis
    using assms same_store_ok(1)[of "closed_steps s c" ?t] settled_run_state_not_running
    by (simp add: run_ok_def settle_run_fields)
qed

subsection \<open>Creating a run\<close>

lemma create_run_ok:
  assumes wf: "wf_workflow_plan (input_plan input)" and head: "input_head input \<noteq> []"
    and t: "create_workflow_run_state input time = Inr s"
  shows "run_ok s" "run_state s = RunRunning" "run_attempts s = []" "run_plan s = input_plan input"
    "run_head s = input_head input" "run_profiles s = input_profiles input"
proof -
  let ?st = "\<lambda>d. if step_dependencies d = [] then Ready else Planned"
  have ds: "distinct (map step_id (plan_steps (input_plan input)))" by (rule wf_workflow_planD(1)[OF wf])
  have steps: "run_steps s = map (\<lambda>d. (step_id d, new_record (?st d) d)) (plan_steps (input_plan input))"
    and fields: "run_attempts s = []" "run_state s = RunRunning" "run_plan s = input_plan input"
      "run_head s = input_head input" "run_profiles s = input_profiles input" "run_events s = []"
      "run_sequence s = 0" "run_dropped s = 0" "1 \<le> run_max_workers s"
    using t foldl_obj_set[OF ds, of "\<lambda>d. new_record (?st d) d"]
    by (auto simp: create_workflow_run_state_def Let_def split: if_splits)
  show "run_state s = RunRunning" "run_attempts s = []" "run_plan s = input_plan input"
    "run_head s = input_head input" "run_profiles s = input_profiles input" by (rule fields)+
  have get: "\<exists>d\<in>set (plan_steps (input_plan input)). r = new_record (?st d) d"
    if "obj_get (run_steps s) k = Some r" for k r
    using obj_get_entry[OF that] by (auto simp: steps)
  have budget: "1 \<le> step_retry_policy d" if "d \<in> set (plan_steps (input_plan input))" for d
    using wf_workflow_planD(4)[OF wf that] wf_stepD(3)[of d] by (simp add: wf_step_def)
  have "graph_ok s"
    using wf by (simp add: graph_ok_def fields steps new_record_def comp_def)
  moreover have "records_ok s"
    unfolding records_ok_def
  proof (intro allI impI)
    fix k r assume k: "obj_get (run_steps s) k = Some r"
    from get[OF k] obtain d where d: "d \<in> set (plan_steps (input_plan input))" "r = new_record (?st d) d" by blast
    then show "record_ok (run_profiles s) r (attempts_of s k)"
      using budget[OF d(1)] by (auto simp: record_ok_def new_record_def attempts_of_def fields retry_budget_def waiting_def)
  qed
  moreover have new: "waiting (record_state r) \<and> record_integrated r = None" if "obj_get (run_steps s) k = Some r" for k r
    using get[OF that] by (auto simp: new_record_def waiting_def split: if_splits)
  then have "record_state r \<noteq> Running" if "obj_get (run_steps s) k = Some r" for k r
    using that by (metis step_state.distinct waiting_def)
  then have "exclusive s" unfolding exclusive_def by metis
  moreover have "integrated_prefix s" unfolding integrated_prefix_def integrated_def using new by auto
  moreover have "no_failure s"
    unfolding no_failure_def
  proof (intro allI impI)
    fix k r assume "obj_get (run_steps s) k = Some r"
    from new[OF this] show "record_state r \<notin> set TERMINAL_STEP_FAILURE_STATES"
      using get[OF \<open>obj_get (run_steps s) k = Some r\<close>] by (auto simp: new_record_def split: if_splits)
  qed
  ultimately show "run_ok s"
    using fields head by (simp add: run_ok_def store_ok_def attempts_known_def slots_ok_def active_step_ids_def
        active_attempts_def timeline_ok_def)
qed

end
