(* ===== verification/EngineEvolution.thy ===== *)
theory EngineEvolution
  imports EngineSettling
begin

text \<open>
  What a transaction leaves alone. The engine loads the run, decides, and changes it in a later
  transaction while the steps it runs settle or propose work in between: \<open>evolves s K t\<close> says
  that from \<open>s\<close> to \<open>t\<close> only the steps in \<open>K\<close> moved, up to the waiting states that every
  reconciliation recomputes.
\<close>

definition step_kept :: "step_record \<Rightarrow> step_record \<Rightarrow> bool" where
  "step_kept r r' \<longleftrightarrow> record_attempts r' = record_attempts r \<and> record_integrated r' = record_integrated r \<and>
     (record_state r' = record_state r \<or> waiting (record_state r) \<and> waiting (record_state r'))"

definition evolves :: "run_state \<Rightarrow> string set \<Rightarrow> run_state \<Rightarrow> bool" where
  "evolves s K t \<longleftrightarrow> run_profiles t = run_profiles s \<and> run_max_workers t = run_max_workers s \<and>
     (\<exists>rest. topological_step_ids (run_plan t) = topological_step_ids (run_plan s) @ rest) \<and>
     (\<forall>k r. obj_get (run_steps s) k = Some r \<longrightarrow> (\<exists>r'. obj_get (run_steps t) k = Some r' \<and>
        record_definition r' = record_definition r \<and> (k \<notin> K \<longrightarrow> step_kept r r')))"

lemma step_kept_refl [simp]: "step_kept r r"
  by (simp add: step_kept_def)

lemma step_kept_trans: "step_kept p q \<Longrightarrow> step_kept q r \<Longrightarrow> step_kept p r"
  by (auto simp: step_kept_def)

lemma evolvesD:
  assumes "evolves s K t" and "obj_get (run_steps s) k = Some r"
  shows "\<exists>r'. obj_get (run_steps t) k = Some r' \<and> record_definition r' = record_definition r \<and>
    (k \<notin> K \<longrightarrow> step_kept r r')"
  using assms unfolding evolves_def by blast

lemma evolves_refl: "evolves s K s"
  by (simp add: evolves_def)

lemma evolves_trans:
  assumes "evolves s K t" and "evolves t K u"
  shows "evolves s K u"
  unfolding evolves_def
proof (intro conjI allI impI)
  show "run_profiles u = run_profiles s" "run_max_workers u = run_max_workers s"
    "\<exists>rest. topological_step_ids (run_plan u) = topological_step_ids (run_plan s) @ rest"
    using assms by (auto simp: evolves_def)
  fix k r assume k: "obj_get (run_steps s) k = Some r"
  obtain q where q: "obj_get (run_steps t) k = Some q" "record_definition q = record_definition r"
    "k \<notin> K \<longrightarrow> step_kept r q" using evolvesD[OF assms(1) k] by blast
  obtain p where "obj_get (run_steps u) k = Some p" "record_definition p = record_definition q"
    "k \<notin> K \<longrightarrow> step_kept q p" using evolvesD[OF assms(2) q(1)] by blast
  with q show "\<exists>r'. obj_get (run_steps u) k = Some r' \<and> record_definition r' = record_definition r \<and>
      (k \<notin> K \<longrightarrow> step_kept r r')" using step_kept_trans by auto
qed

lemma evolves_same:
  assumes "run_plan t = run_plan s" "run_profiles t = run_profiles s" "run_max_workers t = run_max_workers s"
    "run_steps t = run_steps s"
  shows "evolves s K t"
  using assms by (simp add: evolves_def)

lemma evolves_set:
  assumes "obj_get (run_steps s) sid = Some r" "record_definition r' = record_definition r"
    "run_plan t = run_plan s" "run_profiles t = run_profiles s" "run_max_workers t = run_max_workers s"
    "run_steps t = obj_set (run_steps s) sid r'"
  shows "evolves s {sid} t"
  using assms by (auto simp: evolves_def)

lemma reconcile_evolves:
  assumes "graph_ok s"
  shows "evolves s K (reconcile_workflow_steps s)"
  unfolding evolves_def
proof (intro conjI allI impI)
  fix k r assume k: "obj_get (run_steps s) k = Some r"
  show "\<exists>r'. obj_get (run_steps (reconcile_workflow_steps s)) k = Some r' \<and>
      record_definition r' = record_definition r \<and> (k \<notin> K \<longrightarrow> step_kept r r')"
    using reconcile_get[OF assms k] next_step_state_waiting[of "run_profiles s" r "run_steps (reconcile_workflow_steps s)"]
    by (auto simp: step_kept_def)
qed simp_all

lemma concluded_evolves:
  assumes "evolves s K u" and "graph_ok u"
  shows "evolves s K (concluded u l updated events time)"
proof -
  have "evolves (reconcile_workflow_steps u) K (concluded u l updated events time)"
    by (rule evolves_same) (simp_all add: concluded_def)
  with evolves_trans[OF assms(1) reconcile_evolves[OF assms(2)]] show ?thesis by (rule evolves_trans)
qed

lemma append_event_evolves: "evolves s K (append_workflow_event s b time)"
  by (rule evolves_same) simp_all

subsection \<open>The transactions\<close>

lemma set_graph_ok:
  assumes "graph_ok s" and "obj_get (run_steps s) sid = Some r" "record_definition r' = record_definition r"
    and "run_plan t = run_plan s" "run_steps t = obj_set (run_steps s) sid r'"
  shows "graph_ok t"
  using assms graph_ok_set[OF assms(1-3)] by (simp add: graph_ok_def)

lemma settle_attempt_evolves:
  assumes g: "graph_ok s" and t: "settle_attempt s sid a result ids events updated time = Inr t"
  shows "evolves s {sid} t"
    "run_attempts t = map (\<lambda>x. if attempt_id x = attempt_id a then settled_attempt result ids x else x) (run_attempts s)"
proof -
  from t obtain r c retrying ev where r: "obj_get (run_steps s) sid = Some r"
    and t: "t = concluded (s\<lparr>run_attempts := map (\<lambda>x. if attempt_id x = attempt_id a then settled_attempt result ids x else x)
           (run_attempts s),
         run_steps := obj_set (run_steps s) sid (settled_record (result_outcome result) retrying r)\<rparr>)
       (settled_lifecycle (run_state s) (result_outcome result) retrying) updated ev time"
    by (rule settle_attempt_Inr) blast
  show "evolves s {sid} t"
    unfolding t
    by (rule concluded_evolves, rule evolves_set[OF r, of "settled_record (result_outcome result) retrying r"],
        simp_all, rule set_graph_ok[OF g r, of "settled_record (result_outcome result) retrying r"], simp_all)
  show "run_attempts t = map (\<lambda>x. if attempt_id x = attempt_id a then settled_attempt result ids x else x) (run_attempts s)"
    by (simp add: t concluded_def)
qed

lemma reserve_attempt_evolves:
  assumes t: "reserve_attempt s a updated time = Inr (t, True)"
  shows "evolves s {attempt_step a} t" "run_attempts t = run_attempts s @ [a]" "run_state s = RunRunning"
    "run_state t = RunRunning"
proof -
  from reserve_attempt_Inr[OF t] obtain r where run: "run_state s = RunRunning"
    and r: "obj_get (run_steps s) (attempt_step a) = Some r"
    and t: "t = append_workflow_event (s\<lparr>run_steps := obj_set (run_steps s) (attempt_step a)
          (r\<lparr>record_state := Running, record_attempts := record_attempts r @ [attempt_id a]\<rparr>),
          run_attempts := run_attempts s @ [a], run_updated := updated\<rparr>)
        (StepLaunched (attempt_step a) (attempt_id a) (attempt_number a) (attempt_requirement a)) time"
    by blast
  show "evolves s {attempt_step a} t"
    by (rule evolves_set[OF r, of "r\<lparr>record_state := Running, record_attempts := record_attempts r @ [attempt_id a]\<rparr>"])
       (simp_all add: t)
  show "run_attempts t = run_attempts s @ [a]" "run_state s = RunRunning" "run_state t = RunRunning"
    using run by (simp_all add: t)
qed

lemma mark_running_evolves: "evolves s K (mark_attempt_running s aid updated)"
  by (rule evolves_same) (simp_all add: mark_attempt_running_def update_step_attempt_def)

lemma fail_step_Inr:
  assumes "fail_step s sid message updated time = Inr t"
  obtains r ev where "obj_get (run_steps s) sid = Some r"
    "t = concluded (s\<lparr>run_steps := obj_set (run_steps s) sid (r\<lparr>record_state := Failed, record_error := Some message\<rparr>)\<rparr>)
       (if run_state s = RunCancelled then RunCancelled else RunFailed) updated ev time"
  using assms unfolding fail_step_def and_then_Inr update_step_Inr Let_def concluded_def by (force simp: reconcile_frame)

lemma fail_step_evolves:
  assumes g: "graph_ok s" and t: "fail_step s sid message updated time = Inr t"
  shows "evolves s {sid} t" "run_attempts t = run_attempts s" "run_state t \<noteq> RunRunning"
proof -
  obtain r ev where r: "obj_get (run_steps s) sid = Some r"
    and t: "t = concluded (s\<lparr>run_steps := obj_set (run_steps s) sid (r\<lparr>record_state := Failed, record_error := Some message\<rparr>)\<rparr>)
       (if run_state s = RunCancelled then RunCancelled else RunFailed) updated ev time" by (rule fail_step_Inr[OF t]) blast
  show "evolves s {sid} t"
    unfolding t
    by (rule concluded_evolves, rule evolves_set[OF r, of "r\<lparr>record_state := Failed, record_error := Some message\<rparr>"],
        simp_all, rule set_graph_ok[OF g r, of "r\<lparr>record_state := Failed, record_error := Some message\<rparr>"], simp_all)
  show "run_attempts t = run_attempts s" "run_state t \<noteq> RunRunning" by (simp_all add: t concluded_def)
qed

lemma fail_integration_evolves:
  assumes g: "graph_ok s" and t: "fail_integration s sid a problem updated time = Inr t"
  shows "evolves s {sid} t" "run_attempts t = run_attempts s" "run_state t = RunFailed"
proof -
  from t obtain r m ev where r: "obj_get (run_steps s) sid = Some r"
    and t: "t = concluded (s\<lparr>run_steps := obj_set (run_steps s) sid
      (r\<lparr>record_state := Failed, record_integration_error := Some m\<rparr>)\<rparr>) RunFailed updated ev time"
    by (auto simp: fail_integration_def and_then_Inr update_step_Inr Let_def concluded_def)
  show "evolves s {sid} t"
    unfolding t
    by (rule concluded_evolves, rule evolves_set[OF r, of "r\<lparr>record_state := Failed, record_integration_error := Some m\<rparr>"],
        simp_all, rule set_graph_ok[OF g r, of "r\<lparr>record_state := Failed, record_integration_error := Some m\<rparr>"], simp_all)
  show "run_attempts t = run_attempts s" "run_state t = RunFailed" by (simp_all add: t concluded_def)
qed

lemma integrate_step_evolves:
  assumes g: "graph_ok s" and t: "integrate_step s sid a commit updated time = Inr t"
  shows "evolves s {sid} t" "run_attempts t = run_attempts s" "run_state t = run_state s" "run_head t = commit"
proof -
  from t obtain r where r: "obj_get (run_steps s) sid = Some r"
    and t: "t = append_workflow_event (reconcile_workflow_steps (s\<lparr>run_steps := obj_set (run_steps s) sid
      (r\<lparr>record_integrated := Some commit\<rparr>), run_head := commit, run_updated := updated\<rparr>))
      (StepIntegrated sid (if truthy (attempt_commit a) then attempt_commit a else None) commit) time"
    by (auto simp: integrate_step_def and_then_Inr update_step_Inr)
  let ?u = "s\<lparr>run_steps := obj_set (run_steps s) sid (r\<lparr>record_integrated := Some commit\<rparr>), run_head := commit, run_updated := updated\<rparr>"
  have "evolves s {sid} ?u" by (rule evolves_set[OF r, of "r\<lparr>record_integrated := Some commit\<rparr>"]) simp_all
  moreover have "graph_ok ?u" by (rule set_graph_ok[OF g r, of "r\<lparr>record_integrated := Some commit\<rparr>"]) simp_all
  ultimately have "evolves s {sid} (reconcile_workflow_steps ?u)"
    using reconcile_evolves evolves_trans by blast
  then show "evolves s {sid} t" unfolding t by (rule evolves_trans) (rule append_event_evolves)
  show "run_attempts t = run_attempts s" "run_state t = run_state s" "run_head t = commit" by (simp_all add: t)
qed

lemma admit_steps_evolves:
  assumes g: "graph_ok s" and t: "admit_steps s request time = Inr t"
  shows "evolves s {} t" "run_attempts t = run_attempts s"
proof -
  obtain extra ev where wf: "wf_workflow_plan (run_plan (grown_run s extra time))"
    and t: "t = append_workflow_events (reconcile_workflow_steps (grown_run s extra time)) ev time"
    by (rule admit_steps_Inr[OF g t]) blast
  let ?u = "grown_run s extra time"
  have steps: "plan_steps (run_plan ?u) = plan_steps (run_plan s) @ extra" by (simp add: grown_run_def)
  have "evolves s {} ?u"
    unfolding evolves_def using topological_step_ids_grow[OF wf steps]
    by (auto simp: prefix_def grown_run_def obj_get_append)
  then have "evolves s {} (reconcile_workflow_steps ?u)"
    using reconcile_evolves[OF grown_run_graph[OF g wf]] evolves_trans by blast
  moreover have "evolves (reconcile_workflow_steps ?u) {} t" by (rule evolves_same) (simp_all add: t)
  ultimately show "evolves s {} t" by (rule evolves_trans)
  show "run_attempts t = run_attempts s" by (simp add: t grown_run_def)
qed

subsection \<open>What survives\<close>

definition step_waiting :: "run_state \<Rightarrow> string \<Rightarrow> bool" where
  "step_waiting s sid \<longleftrightarrow> (\<exists>r. obj_get (run_steps s) sid = Some r \<and> waiting (record_state r))"

lemma step_waiting_evolves:
  assumes "evolves s K t" "sid \<notin> K" "step_waiting s sid"
  shows "step_waiting t sid"
proof -
  obtain r where r: "obj_get (run_steps s) sid = Some r" "waiting (record_state r)"
    using assms(3) by (auto simp: step_waiting_def)
  obtain r' where "obj_get (run_steps t) sid = Some r'" "step_kept r r'"
    using evolvesD[OF assms(1) r(1)] assms(2) by blast
  then show ?thesis using r(2) by (auto simp: step_waiting_def step_kept_def)
qed

lemma must_integrate_evolves:
  assumes "evolves s K t" "obj_get (run_steps s) k = Some r"
  shows "must_integrate t k = must_integrate s k"
proof -
  obtain r' where "obj_get (run_steps t) k = Some r'" "record_definition r' = record_definition r"
    using evolvesD[OF assms] by blast
  then show ?thesis using assms by (simp add: must_integrate_def evolves_def)
qed

lemma integrable_evolves:
  assumes e: "evolves s K t" and g: "graph_ok s" and i: "integrable s sid" and k: "sid \<notin> K"
    and ki: "\<And>u. u \<in> K \<Longrightarrow> \<not> integrated s u"
  shows "integrable t sid"
proof -
  obtain r us vs where r: "obj_get (run_steps s) sid = Some r" "record_state r = Succeeded" "record_integrated r = None"
    and m: "must_integrate s sid" and o: "topological_step_ids (run_plan s) = us @ sid # vs"
    and us: "\<forall>u\<in>set us. must_integrate s u \<longrightarrow> integrated s u"
    using i by (auto simp: integrable_def)
  obtain r' where r': "obj_get (run_steps t) sid = Some r'" "step_kept r r'"
    using evolvesD[OF e r(1)] k by blast
  have "record_state r' = Succeeded" "record_integrated r' = None"
    using r r' by (auto simp: step_kept_def waiting_def)
  moreover have "must_integrate t sid" using must_integrate_evolves[OF e r(1)] m by simp
  moreover obtain rest where "topological_step_ids (run_plan t) = us @ sid # (vs @ rest)"
    using e o by (auto simp: evolves_def)
  moreover have "integrated t u" if u: "u \<in> set us" "must_integrate t u" for u
  proof -
    have "u \<in> set (obj_keys (run_steps s))" using graph_ok_order(2)[OF g] o u(1) by auto
    then obtain q where q: "obj_get (run_steps s) u = Some q" using obj_key_get by blast
    have int: "integrated s u" using us u must_integrate_evolves[OF e q] by simp
    then have "u \<notin> K" using ki by blast
    then obtain q' where "obj_get (run_steps t) u = Some q'" "step_kept q q'" using evolvesD[OF e q] by blast
    then show ?thesis using int q by (auto simp: integrated_def step_kept_def)
  qed
  ultimately show ?thesis using r'(1) by (auto simp: integrable_def)
qed

lemma fresh_attempt_evolves:
  assumes "evolves s K t" "step_waiting s (attempt_step a)" "attempt_step a \<notin> K" "fresh_attempt s a"
    and "attempt_id ` set (run_attempts t) = attempt_id ` set (run_attempts s)"
  shows "fresh_attempt t a"
proof -
  obtain r where r: "obj_get (run_steps s) (attempt_step a) = Some r" using assms(2) by (auto simp: step_waiting_def)
  obtain r' where "obj_get (run_steps t) (attempt_step a) = Some r'" "step_kept r r'"
    using evolvesD[OF assms(1) r] assms(3) by blast
  then show ?thesis using assms(4,5) r by (simp add: fresh_attempt_def step_kept_def)
qed

text \<open>Reading the run again after an event was appended gives the same decisions.\<close>

lemma append_event_choose: "choose_integration (append_workflow_event s b time) = choose_integration s"
  by (simp add: choose_integration_def next_integrable_step_id_def split: option.split)

lemma append_event_launchable: "launchable_step_ids (append_workflow_event s b time) = launchable_step_ids s"
proof -
  let ?R = "reconcile_workflow_steps s" and ?S = "reconcile_workflow_steps (append_workflow_event s b time)"
  have steps: "run_steps ?S = run_steps ?R" by (simp add: reconcile_workflow_steps_def)
  have slot: "consumes_slot ?S = consumes_slot ?R" by (rule ext) (simp add: consumes_slot_def steps split: option.split)
  have ids: "active_step_ids ?S = active_step_ids ?R" by (simp add: active_step_ids_def active_attempts_def)
  have "launch_candidate ?S = launch_candidate ?R" by (intro ext) (simp add: launch_candidate_def steps slot ids split: option.split)
  moreover have "initial_search ?S = initial_search ?R"
    by (simp add: initial_search_def occupied_slots_def untracked_running_def running_records_def steps slot ids)
  ultimately show ?thesis by (simp add: launchable_step_ids_def launchable_steps_def Let_def steps ids split: option.split)
qed

end
