(* ===== verification/EngineLoop.thy ===== *)
theory EngineLoop
  imports EngineEvolution
begin

text \<open>
  \<open>WorkflowEngine.run\<close> as a step relation: the loop that integrates, dispatches and waits, one
  rule per await point, interleaved with the completions of the steps it started, the work
  those steps propose, and cancellation. One engine process owns the run; reads and writes of
  its store do not fail.
\<close>

subsection \<open>The state of one execution\<close>

text \<open>
  Where the loop stands: at the head of \<open>integratePendingSteps\<close>, waiting for the integrator,
  back from it with the state it returned, inside \<open>dispatchLaunchableSteps\<close> with the steps
  still to launch, inside \<open>launchStep\<close> before and after the reservation, at the race of the
  active attempts, and done.
\<close>

datatype engine_pc =
    Integrate
  | AwaitIntegrator string step_attempt string
  | Chosen lifecycle
  | Dispatch "string list"
  | Reserve step_attempt "string list"
  | Mark step_attempt "string list"
  | Race
  | Done

record engine =
  eng_run :: run_state
  eng_pc :: engine_pc
  eng_live :: "step_attempt list"
  eng_racing :: "string list"
  eng_aborted :: bool

definition engine_start :: "run_state \<Rightarrow> engine" where
  "engine_start s = \<lparr>eng_run = s, eng_pc = Integrate, eng_live = [], eng_racing = [], eng_aborted = False\<rparr>"

text \<open>
  \<open>eng_live\<close> holds the attempts whose completion has not been settled yet, \<open>eng_racing\<close> the keys of
  the map \<open>active\<close>, \<open>eng_aborted\<close> the state of the abort signal. That the identifier of a new
  attempt is unused is the promise of \<open>newAttemptId\<close>, by default a random one.
\<close>

inductive engine_step :: "engine \<Rightarrow> engine \<Rightarrow> bool" where
  nothing_to_integrate: "eng_pc e = Integrate \<Longrightarrow> choose_integration (eng_run e) = NothingToIntegrate \<Longrightarrow>
    engine_step e (e\<lparr>eng_pc := Chosen (run_state (eng_run e))\<rparr>)"
| integrator_asked: "eng_pc e = Integrate \<Longrightarrow> choose_integration (eng_run e) = Integrating sid a \<Longrightarrow>
    engine_step e (e\<lparr>eng_pc := AwaitIntegrator sid a (run_head (eng_run e))\<rparr>)"
| attempt_missing: "eng_pc e = Integrate \<Longrightarrow> choose_integration (eng_run e) = MissingAttempt sid \<Longrightarrow>
    fail_step (eng_run e) sid (missing_attempt_message sid) updated time = Inr s \<Longrightarrow>
    engine_step e (e\<lparr>eng_run := s, eng_pc := Chosen (run_state s)\<rparr>)"
| integrated: "eng_pc e = AwaitIntegrator sid a head \<Longrightarrow> (truthy (attempt_commit a) \<or> commit = head) \<Longrightarrow>
    commit \<noteq> [] \<Longrightarrow> integrate_step (eng_run e) sid a commit updated time = Inr s \<Longrightarrow>
    engine_step e (e\<lparr>eng_run := s, eng_pc := Integrate\<rparr>)"
| integration_failed: "eng_pc e = AwaitIntegrator sid a head \<Longrightarrow> truthy (attempt_commit a) \<Longrightarrow>
    fail_integration (eng_run e) sid a problem updated time = Inr s \<Longrightarrow>
    engine_step e (e\<lparr>eng_run := s, eng_pc := Chosen (run_state s)\<rparr>)"
| dispatched: "eng_pc e = Chosen RunRunning \<Longrightarrow> \<not> eng_aborted e \<Longrightarrow>
    launchable_step_ids (eng_run e) = Inr ids \<Longrightarrow> engine_step e (e\<lparr>eng_pc := Dispatch ids\<rparr>)"
| not_dispatched: "eng_pc e = Chosen l \<Longrightarrow> l \<noteq> RunRunning \<or> eng_aborted e \<Longrightarrow>
    engine_step e (e\<lparr>eng_pc := Race\<rparr>)"
| all_dispatched: "eng_pc e = Dispatch [] \<Longrightarrow> engine_step e (e\<lparr>eng_pc := Race\<rparr>)"
| prepared: "eng_pc e = Dispatch (sid # ids) \<Longrightarrow> prepare_attempt (eng_run e) sid aid w time = Inr a \<Longrightarrow>
    aid \<notin> attempt_id ` set (run_attempts (eng_run e)) \<Longrightarrow>
    engine_step e (e\<lparr>eng_pc := Reserve a ids\<rparr>)"
| not_prepared: "eng_pc e = Dispatch (sid # ids) \<Longrightarrow> fail_step (eng_run e) sid message updated time = Inr s \<Longrightarrow>
    engine_step e (e\<lparr>eng_run := s, eng_pc := Race\<rparr>)"
| reserved: "eng_pc e = Reserve a ids \<Longrightarrow> reserve_attempt (eng_run e) a updated time = Inr (s, True) \<Longrightarrow>
    engine_step e (e\<lparr>eng_run := s, eng_pc := Mark a ids\<rparr>)"
| discarded: "eng_pc e = Reserve a ids \<Longrightarrow> reserve_attempt (eng_run e) a updated time = Inr (s, False) \<Longrightarrow>
    engine_step e (e\<lparr>eng_run := s, eng_pc := Race\<rparr>)"
| launched: "eng_pc e = Mark a ids \<Longrightarrow>
    engine_step e (e\<lparr>eng_run := mark_attempt_running (eng_run e) (attempt_id a) updated,
      eng_live := a # eng_live e, eng_racing := eng_racing e @ [attempt_id a], eng_pc := Dispatch ids\<rparr>)"
| woken: "eng_pc e = Race \<Longrightarrow> aid \<in> set (eng_racing e) \<Longrightarrow> aid \<notin> attempt_id ` set (eng_live e) \<Longrightarrow>
    engine_step e (e\<lparr>eng_racing := removeAll aid (eng_racing e), eng_pc := Integrate\<rparr>)"
| settled_run: "eng_pc e = Race \<Longrightarrow> eng_racing e = [] \<Longrightarrow>
    engine_step e (e\<lparr>eng_run := settle_run (eng_run e) (eng_aborted e) updated time, eng_pc := Done\<rparr>)"
| settled_step: "a \<in> set (eng_live e) \<Longrightarrow> routed_result executed routed = (result, ids, events) \<Longrightarrow>
    settle_attempt (eng_run e) (attempt_step a) a result ids events updated time = Inr s \<Longrightarrow>
    engine_step e (e\<lparr>eng_run := s, eng_live := filter (\<lambda>b. attempt_id b \<noteq> attempt_id a) (eng_live e)\<rparr>)"

text \<open>What others do meanwhile: a running step proposes work, and callers cancel or abort.\<close>

inductive outside_step :: "engine \<Rightarrow> engine \<Rightarrow> bool" where
  admitted: "a \<in> set (eng_live e) \<Longrightarrow> request_by request = attempt_step a \<Longrightarrow>
    admit_steps (eng_run e) request time = Inr s \<Longrightarrow> outside_step e (e\<lparr>eng_run := s\<rparr>)"
| cancel_requested: "eng_pc e \<noteq> Done \<Longrightarrow>
    outside_step e (e\<lparr>eng_run := request_cancellation (eng_run e) reason time\<rparr>)"
| aborted: "eng_pc e \<noteq> Done \<Longrightarrow> outside_step e (e\<lparr>eng_aborted := True\<rparr>)"

inductive engine_reachable :: "run_state \<Rightarrow> engine \<Rightarrow> bool" for s where
  start: "engine_reachable s (engine_start s)"
| step: "engine_reachable s e \<Longrightarrow> engine_step e e' \<Longrightarrow> engine_reachable s e'"
| outside: "engine_reachable s e \<Longrightarrow> outside_step e e' \<Longrightarrow> engine_reachable s e'"

subsection \<open>How the loop and the stored run agree\<close>

text \<open>The attempts the engine process answers for: what it executes, and what it just reserved.\<close>

definition owned :: "engine \<Rightarrow> step_attempt list" where
  "owned e = eng_live e @ (case eng_pc e of Mark a ids \<Rightarrow> [a] | _ \<Rightarrow> [])"

definition settled_choice :: "run_state \<Rightarrow> string list \<Rightarrow> bool" where
  "settled_choice s ids \<longleftrightarrow> choose_integration s = NothingToIntegrate \<and> launchable_step_ids s = Inr ids"

text \<open>
  What the loop knows at each point. The part guarded by \<open>idle\<close> (no attempt in the map \<open>active\<close>)
  is what makes the decision to settle right: nobody else changed the run since it was read.
\<close>

definition pc_ok :: "run_state \<Rightarrow> bool \<Rightarrow> bool \<Rightarrow> engine_pc \<Rightarrow> bool" where
  "pc_ok s idle aborted pc = (case pc of
       Integrate \<Rightarrow> True
     | AwaitIntegrator sid a head \<Rightarrow> integrable s sid \<and> head \<noteq> []
     | Chosen l \<Rightarrow> idle \<longrightarrow> l = run_state s \<and> choose_integration s = NothingToIntegrate
     | Dispatch ids \<Rightarrow> distinct ids \<and> (\<forall>i\<in>set ids. step_waiting s i) \<and> (idle \<longrightarrow> settled_choice s ids)
     | Reserve a ids \<Rightarrow> distinct (attempt_step a # ids) \<and> (\<forall>i\<in>set (attempt_step a # ids). step_waiting s i) \<and>
         fresh_attempt s a \<and> (idle \<longrightarrow> settled_choice s (attempt_step a # ids))
     | Mark a ids \<Rightarrow> distinct ids \<and> (\<forall>i\<in>set ids. step_waiting s i)
     | Race \<Rightarrow> idle \<longrightarrow> run_state s = RunRunning \<longrightarrow> \<not> aborted \<longrightarrow> settled_choice s []
     | Done \<Rightarrow> run_state s \<noteq> RunRunning)"

definition engine_ok :: "engine \<Rightarrow> bool" where
  "engine_ok e \<longleftrightarrow> run_ok (eng_run e) \<and> 1 \<le> run_max_workers (eng_run e) \<and>
     distinct (map attempt_id (owned e)) \<and>
     (\<forall>a\<in>set (owned e). stored_active (eng_run e) a) \<and>
     (\<forall>b\<in>set (run_attempts (eng_run e)). active b \<longrightarrow> attempt_id b \<in> attempt_id ` set (owned e)) \<and>
     attempt_id ` set (eng_live e) \<subseteq> set (eng_racing e) \<and>
     (eng_pc e = Done \<longrightarrow> eng_live e = []) \<and>
     pc_ok (eng_run e) (eng_racing e = []) (eng_aborted e) (eng_pc e)"

lemmas engine_ok_parts = engine_ok_def owned_def

lemma pc_ok_simps [simp]:
  "pc_ok s idle ab Integrate"
  "pc_ok s idle ab (AwaitIntegrator sid a head) \<longleftrightarrow> integrable s sid \<and> head \<noteq> []"
  "pc_ok s idle ab (Chosen l) \<longleftrightarrow> (idle \<longrightarrow> l = run_state s \<and> choose_integration s = NothingToIntegrate)"
  "pc_ok s idle ab (Dispatch ids) \<longleftrightarrow>
     distinct ids \<and> (\<forall>i\<in>set ids. step_waiting s i) \<and> (idle \<longrightarrow> settled_choice s ids)"
  "pc_ok s idle ab (Reserve a ids) \<longleftrightarrow> distinct (attempt_step a # ids) \<and>
     (\<forall>i\<in>set (attempt_step a # ids). step_waiting s i) \<and> fresh_attempt s a \<and>
     (idle \<longrightarrow> settled_choice s (attempt_step a # ids))"
  "pc_ok s idle ab (Mark a ids) \<longleftrightarrow> distinct ids \<and> (\<forall>i\<in>set ids. step_waiting s i)"
  "pc_ok s idle ab Race \<longleftrightarrow> (idle \<longrightarrow> run_state s = RunRunning \<longrightarrow> \<not> ab \<longrightarrow> settled_choice s [])"
  "pc_ok s idle ab Done \<longleftrightarrow> run_state s \<noteq> RunRunning"
  by (simp_all add: pc_ok_def)

text \<open>
  A transaction of one of the attempts the engine executes, or of a caller, lets the loop stand
  where it stands: only steps in \<open>K\<close> moved, and none of those is waiting or integrated.
\<close>

lemma pc_ok_evolves:
  assumes p: "pc_ok s False ab pc" and e: "evolves s K t" and g: "graph_ok s"
    and k: "\<And>k. k \<in> K \<Longrightarrow> \<not> step_waiting s k" "\<And>k. k \<in> K \<Longrightarrow> \<not> integrated s k"
      "\<And>k. k \<in> K \<Longrightarrow> \<not> integrable s k"
    and ids: "attempt_id ` set (run_attempts t) = attempt_id ` set (run_attempts s)"
    and fin: "pc \<noteq> Done"
  shows "pc_ok t False ab pc"
proof -
  have w: "step_waiting t i" if "step_waiting s i" for i
    using step_waiting_evolves[OF e _ that] k(1) that by blast
  have i: "integrable t i" if "integrable s i" for i
    using integrable_evolves[OF e g that] k(2,3) that by blast
  have f: "fresh_attempt t a" if "fresh_attempt s a" "step_waiting s (attempt_step a)" for a
    using fresh_attempt_evolves[OF e that(2) _ that(1) ids] k(1) that(2) by blast
  show ?thesis using p fin w i f by (cases pc) auto
qed

end
