(* ===== verification/EngineReachability.thy ===== *)
theory EngineReachability
  imports EngineLoop
begin

text \<open>
  Every reachable state of the engine keeps the invariant of the stored run and its agreement
  with the loop; what follows for the code's promises.
\<close>

subsection \<open>Helpers\<close>

lemma run_ok_graph: "run_ok s \<Longrightarrow> graph_ok s"
  by (simp add: run_ok_def store_ok_def)

lemma run_ok_record:
  "run_ok s \<Longrightarrow> obj_get (run_steps s) sid = Some r \<Longrightarrow> record_ok (run_profiles s) r (attempts_of s sid)"
  by (simp add: run_ok_def store_ok_def records_ok_def)

lemma stored_active_step:
  assumes "run_ok s" and "stored_active s a"
  shows "\<exists>r. obj_get (run_steps s) (attempt_step a) = Some r \<and> \<not> waiting (record_state r) \<and>
    record_integrated r = None \<and> record_state r \<noteq> Succeeded"
proof -
  obtain b where b: "b \<in> set (run_attempts s)" "attempt_step b = attempt_step a" "active b"
    using assms(2) by (auto simp: stored_active_def)
  have "attempts_known s" using assms(1) by (simp add: run_ok_def store_ok_def)
  then obtain r where r: "obj_get (run_steps s) (attempt_step a) = Some r"
    using b(1,2) obj_key_get[of "attempt_step a" "run_steps s"] unfolding attempts_known_def by metis
  have "b \<in> set (attempts_of s (attempt_step a))" using b by (simp add: attempts_of_def)
  from active_attempt_last[OF run_ok_record[OF assms(1) r] this b(3)] r show ?thesis by blast
qed

lemma stored_active_busy:
  assumes "run_ok s" and "stored_active s a"
  shows "\<not> step_waiting s (attempt_step a)" "\<not> integrated s (attempt_step a)" "\<not> integrable s (attempt_step a)"
  using stored_active_step[OF assms] by (auto simp: step_waiting_def integrated_def integrable_def)

lemma stored_active_in: "stored_active s a \<Longrightarrow> attempt_id a \<in> attempt_id ` set (run_attempts s)"
  by (auto simp: stored_active_def intro: rev_image_eqI)

lemma stored_active_same: "run_attempts t = run_attempts s \<Longrightarrow> stored_active t a = stored_active s a"
  by (simp add: stored_active_def)

lemma integrable_state:
  "integrable s sid \<Longrightarrow> obj_get (run_steps s) sid = Some r \<Longrightarrow> record_state r = Succeeded \<and> record_integrated r = None"
  by (auto simp: integrable_def)

lemma launchable_step_ids_waiting:
  assumes "run_ok s" and "launchable_step_ids s = Inr ids"
  shows "distinct ids" "\<And>i. i \<in> set ids \<Longrightarrow> step_waiting s i"
proof -
  note g = run_ok_graph[OF assms(1)]
  note sound = launchable_steps_sound[OF reconcile_graph_ok[OF g]]
  show "distinct ids"
  proof (cases ids)
    case (Cons i is1)
    then show ?thesis using launchable_step_ids_Inr(2)[OF assms(2), of i] sound(1) by simp
  qed simp
  fix i assume i: "i \<in> set ids"
  then have "startable (reconcile_workflow_steps s) i" using launchable_step_ids_Inr(2)[OF assms(2) i] sound(2) by blast
  then obtain r' where r': "obj_get (run_steps (reconcile_workflow_steps s)) i = Some r'" "record_state r' = Ready"
    by (auto simp: startable_def)
  obtain r where "obj_get (run_steps s) i = Some r"
    "r' = r\<lparr>record_state := next_step_state (run_profiles s) r (run_steps (reconcile_workflow_steps s))\<rparr>"
    using reconcile_get_inv[OF g r'(1)] by blast
  with r'(2) next_step_state_waiting[of "run_profiles s" r "run_steps (reconcile_workflow_steps s)"]
  show "step_waiting s i" by (auto simp: step_waiting_def waiting_def)
qed

lemma append_event_pc_ok: "pc_ok (append_workflow_event s b time) idle ab pc = pc_ok s idle ab pc"
proof -
  have "step_waiting (append_workflow_event s b time) = step_waiting s"
    "integrable (append_workflow_event s b time) = integrable s"
    "fresh_attempt (append_workflow_event s b time) = fresh_attempt s"
    "settled_choice (append_workflow_event s b time) = settled_choice s"
    by (simp_all add: fun_eq_iff step_waiting_def integrable_def must_integrate_def integrated_def fresh_attempt_def
        settled_choice_def append_event_choose append_event_launchable)
  then show ?thesis by (cases pc) (simp_all add: append_event_choose)
qed

subsection \<open>The loop keeps the agreement\<close>

text \<open>A transaction that leaves the attempts as they are and takes the loop to a given point.\<close>

lemma engine_ok_goto:
  assumes "engine_ok e" and "run_ok s" and "evolves (eng_run e) K s"
    and "run_attempts s = run_attempts (eng_run e)"
    and "\<And>a ids. eng_pc e \<noteq> Mark a ids" and "\<And>a ids. pc \<noteq> Mark a ids"
    and "pc = Done \<Longrightarrow> eng_live e = []"
    and "pc_ok s (eng_racing e = []) (eng_aborted e) pc"
  shows "engine_ok (e\<lparr>eng_run := s, eng_pc := pc\<rparr>)"
proof -
  have "owned e = eng_live e" "owned (e\<lparr>eng_run := s, eng_pc := pc\<rparr>) = eng_live e"
    using assms(5,6) by (simp_all add: owned_def split: engine_pc.split)
  moreover have "run_max_workers s = run_max_workers (eng_run e)" using assms(3) by (simp add: evolves_def)
  ultimately show ?thesis using assms(1,2,4,7,8) by (simp add: engine_ok_def stored_active_same[OF assms(4)])
qed

lemma engine_ok_integrating:
  assumes ok: "engine_ok e" and st: "engine_step e e'" and pc: "eng_pc e = Integrate"
    and loop: "eng_run e' = eng_run e" "eng_live e' = eng_live e" "eng_racing e' = eng_racing e"
    and pc': "pc_ok (eng_run e) (eng_racing e = []) (eng_aborted e') (eng_pc e')"
    and nm: "\<And>a ids. eng_pc e' \<noteq> Mark a ids" "eng_pc e' \<noteq> Done"
  shows "engine_ok e'"
proof -
  have "owned e' = owned e" using nm pc loop by (simp add: owned_def split: engine_pc.split)
  then show ?thesis using ok pc' nm loop by (simp add: engine_ok_def)
qed

lemma settled_step_ok:
  assumes ok: "engine_ok e" and a: "a \<in> set (eng_live e)"
    and t: "settle_attempt (eng_run e) (attempt_step a) a result ids events updated time = Inr s"
  shows "engine_ok (e\<lparr>eng_run := s, eng_live := filter (\<lambda>b. attempt_id b \<noteq> attempt_id a) (eng_live e)\<rparr>)"
    (is "engine_ok ?e")
proof -
  let ?s = "eng_run e"
  have rok: "run_ok ?s" and own: "\<forall>a\<in>set (owned e). stored_active ?s a" "distinct (map attempt_id (owned e))"
    "\<forall>b\<in>set (run_attempts ?s). active b \<longrightarrow> attempt_id b \<in> attempt_id ` set (owned e)"
    and live: "attempt_id ` set (eng_live e) \<subseteq> set (eng_racing e)" "eng_pc e \<noteq> Done"
    and pc: "pc_ok ?s (eng_racing e = []) (eng_aborted e) (eng_pc e)"
    using ok a by (auto simp: engine_ok_def)
  have idle: "(eng_racing e = []) = False" using live(1) a by auto
  have sa: "stored_active ?s a" using own(1) a by (simp add: owned_def)
  note g = run_ok_graph[OF rok]
  note ev = settle_attempt_evolves[OF g t]
  define h where "h = (\<lambda>x. if attempt_id x = attempt_id a then settled_attempt result ids x else x)"
  have att: "run_attempts s = map h (run_attempts ?s)" by (simp add: ev(2) h_def)
  have h: "attempt_id (h x) = attempt_id x" for x by (simp add: h_def)
  have owned: "owned ?e = filter (\<lambda>b. attempt_id b \<noteq> attempt_id a) (owned e)"
    using own(2) a by (auto simp: owned_def split: engine_pc.split)
  have "run_ok s" by (rule settle_attempt_ok[OF rok sa refl t])
  moreover have "1 \<le> run_max_workers s" using ok ev(1) by (simp add: engine_ok_def evolves_def)
  moreover have "distinct (map attempt_id (owned ?e))"
    unfolding owned using own(2) by (rule distinct_map_filter)
  moreover have "stored_active s b" if "b \<in> set (owned ?e)" for b
  proof -
    have "stored_active ?s b" "attempt_id b \<noteq> attempt_id a" using that own(1) by (auto simp: owned)
    then obtain c where "c \<in> set (run_attempts ?s)" "attempt_id c = attempt_id b" "attempt_step c = attempt_step b"
      "attempt_number c = attempt_number b" "active c" "h c = c" by (auto simp: stored_active_def h_def)
    then show ?thesis unfolding stored_active_def att by (metis image_eqI list.set_map)
  qed
  moreover have "attempt_id b \<in> attempt_id ` set (owned ?e)" if b: "b \<in> set (run_attempts s)" "active b" for b
  proof -
    obtain c where c: "c \<in> set (run_attempts ?s)" "b = h c" using b(1) by (auto simp: att)
    have "attempt_id c \<noteq> attempt_id a" "b = c" using c(2) b(2) by (auto simp: h_def split: if_splits)
    then show ?thesis using own(3) c b(2) by (force simp: owned)
  qed
  moreover have "attempt_id ` set (eng_live ?e) \<subseteq> set (eng_racing ?e)" using live(1) by auto
  moreover have "pc_ok s False (eng_aborted e) (eng_pc e)"
    by (rule pc_ok_evolves[OF pc[unfolded idle] ev(1) g])
       (use stored_active_busy[OF rok sa] live(2) in \<open>auto simp: att h image_image\<close>)
  ultimately show ?thesis using live(2) idle by (simp add: engine_ok_def)
qed

lemma admitted_ok:
  assumes ok: "engine_ok e" and a: "a \<in> set (eng_live e)" and t: "admit_steps (eng_run e) request time = Inr s"
  shows "engine_ok (e\<lparr>eng_run := s\<rparr>)"
proof -
  have rok: "run_ok (eng_run e)" and live: "attempt_id ` set (eng_live e) \<subseteq> set (eng_racing e)" "eng_pc e \<noteq> Done"
    and pc: "pc_ok (eng_run e) (eng_racing e = []) (eng_aborted e) (eng_pc e)"
    using ok a by (auto simp: engine_ok_def)
  have idle: "(eng_racing e = []) = False" using live(1) a by auto
  note g = run_ok_graph[OF rok]
  note ev = admit_steps_evolves[OF g t]
  have "pc_ok s False (eng_aborted e) (eng_pc e)"
    by (rule pc_ok_evolves[OF pc[unfolded idle] ev(1) g]) (use ev(2) live(2) in simp_all)
  moreover have "owned (e\<lparr>eng_run := s\<rparr>) = owned e" by (simp add: owned_def)
  moreover have "run_max_workers s = run_max_workers (eng_run e)" using ev(1) by (simp add: evolves_def)
  ultimately show ?thesis
    using ok admit_steps_ok[OF rok t] idle by (simp add: engine_ok_def stored_active_same[OF ev(2)] ev(2))
qed

lemma reserved_ok:
  assumes ok: "engine_ok e" and pc: "eng_pc e = Reserve a ids"
    and t: "reserve_attempt (eng_run e) a updated time = Inr (s, True)"
  shows "engine_ok (e\<lparr>eng_run := s, eng_pc := Mark a ids\<rparr>)" (is "engine_ok ?e")
proof -
  have rok: "run_ok (eng_run e)" and fresh: "fresh_attempt (eng_run e) a"
    and w: "attempt_step a \<notin> set ids" "distinct ids" "\<forall>i\<in>set ids. step_waiting (eng_run e) i"
    using ok pc by (auto simp: engine_ok_def)
  note ev = reserve_attempt_evolves[OF t]
  have o: "owned e = eng_live e" "owned ?e = eng_live e @ [a]" by (simp_all add: owned_def pc)
  have act: "active a" using fresh by (simp add: fresh_attempt_def active_def)
  have new: "attempt_id a \<notin> attempt_id ` set (run_attempts (eng_run e))" using fresh by (simp add: fresh_attempt_def)
  have sa: "stored_active s b" if "stored_active (eng_run e) b" for b using that ev(2) by (auto simp: stored_active_def)
  have "attempt_id a \<notin> attempt_id ` set (eng_live e)"
  proof
    assume "attempt_id a \<in> attempt_id ` set (eng_live e)"
    then obtain b where "b \<in> set (eng_live e)" "attempt_id b = attempt_id a" by auto
    moreover have "stored_active (eng_run e) b" using ok o(1) calculation(1) by (simp add: engine_ok_def)
    ultimately show False using stored_active_in[of "eng_run e" b] new by simp
  qed
  then have "distinct (map attempt_id (owned ?e))" using ok o by (simp add: engine_ok_def)
  moreover have "\<forall>b\<in>set (owned ?e). stored_active s b"
    using ok o sa act ev(2) by (auto simp: engine_ok_def stored_active_def)
  moreover have "\<forall>b\<in>set (run_attempts s). active b \<longrightarrow> attempt_id b \<in> attempt_id ` set (owned ?e)"
    using ok o ev(2) by (auto simp: engine_ok_def)
  moreover have "\<forall>i\<in>set ids. step_waiting s i" using w step_waiting_evolves[OF ev(1)] by (metis singletonD)
  moreover have "1 \<le> run_max_workers s" using ok ev(1) by (simp add: engine_ok_def evolves_def)
  ultimately show ?thesis
    using ok reserve_attempt_ok[OF rok fresh t] w(2) by (simp add: engine_ok_def)
qed

lemma launched_ok:
  assumes ok: "engine_ok e" and pc: "eng_pc e = Mark a ids"
  shows "engine_ok (e\<lparr>eng_run := mark_attempt_running (eng_run e) (attempt_id a) updated,
      eng_live := a # eng_live e, eng_racing := eng_racing e @ [attempt_id a], eng_pc := Dispatch ids\<rparr>)" (is "engine_ok ?e")
proof -
  let ?s = "eng_run e" and ?t = "mark_attempt_running (eng_run e) (attempt_id a) updated"
  have rok: "run_ok ?s" and w: "distinct ids" "\<forall>i\<in>set ids. step_waiting ?s i"
    and sa: "stored_active ?s a"
    using ok pc by (auto simp: engine_ok_def owned_def)
  obtain b where b: "b \<in> set (run_attempts ?s)" "attempt_id b = attempt_id a" "active b"
    using sa by (auto simp: stored_active_def)
  have o: "owned e = eng_live e @ [a]" "owned ?e = a # eng_live e" by (simp_all add: owned_def pc)
  define h :: "step_attempt \<Rightarrow> step_attempt" where
    "h = (\<lambda>x. if attempt_id x = attempt_id a then x\<lparr>attempt_state := AttemptRunning\<rparr> else x)"
  have att: "run_attempts ?t = map h (run_attempts ?s)" by (simp add: mark_attempt_running_def update_step_attempt_def h_def)
  have hid: "attempt_id (h x) = attempt_id x" "attempt_step (h x) = attempt_step x"
    "attempt_number (h x) = attempt_number x" "active x \<Longrightarrow> active (h x)" for x
    by (simp_all add: h_def active_def)
  have hact: "active (h x) \<Longrightarrow> attempt_id x \<in> attempt_id ` set (owned e)" if "x \<in> set (run_attempts ?s)" for x
    using ok that o(1) by (auto simp: engine_ok_def h_def split: if_splits)
  have st: "stored_active ?t c" if c: "stored_active ?s c" for c
  proof -
    obtain d where d: "d \<in> set (run_attempts ?s)" "attempt_id d = attempt_id c" "attempt_step d = attempt_step c"
      "attempt_number d = attempt_number c" "active d" using c by (auto simp: stored_active_def)
    have "h d \<in> set (run_attempts ?t)" using d(1) by (simp add: att)
    then show ?thesis unfolding stored_active_def using d hid by metis
  qed
  have "run_ok ?t" by (rule mark_attempt_running_ok[OF rok b])
  moreover have "1 \<le> run_max_workers ?t" using ok by (simp add: engine_ok_def mark_attempt_running_def update_step_attempt_def)
  moreover have "distinct (map attempt_id (owned ?e))" using ok o by (auto simp: engine_ok_def)
  moreover have "\<forall>c\<in>set (owned ?e). stored_active ?t c" using ok o st by (auto simp: engine_ok_def)
  moreover have "\<forall>c\<in>set (run_attempts ?t). active c \<longrightarrow> attempt_id c \<in> attempt_id ` set (owned ?e)"
    using hact o hid(1) by (auto simp: att)
  moreover have "\<forall>i\<in>set ids. step_waiting ?t i"
    using w(2) step_waiting_evolves[OF mark_running_evolves, of _ "{}"] by blast
  ultimately show ?thesis using ok w(1) by (auto simp: engine_ok_def)
qed

lemma discarded_impossible:
  assumes "engine_ok e" and "eng_pc e = Reserve a ids" and "eng_racing e = []"
    and "reserve_attempt (eng_run e) a updated time = Inr (s, False)"
  shows False
proof -
  have "launchable_step_ids (eng_run e) = Inr (attempt_step a # ids)"
    using assms(1-3) by (simp add: engine_ok_def settled_choice_def)
  then show False using assms(4) by (auto simp: reserve_attempt_def and_then_Inr)
qed

text \<open>Every rule keeps the invariant.\<close>

lemma engine_step_ok:
  assumes st: "engine_step e e'" and ok: "engine_ok e"
  shows "engine_ok e'"
  using st
proof cases
  case nothing_to_integrate
  then show ?thesis by (intro engine_ok_integrating[OF ok st]) simp_all
next
  case (integrator_asked sid a)
  have "integrable (eng_run e) sid" "run_head (eng_run e) \<noteq> []"
    using ok choose_integration_ok(1)[OF _ integrator_asked(3)] by (auto simp: engine_ok_def run_ok_def)
  with integrator_asked show ?thesis by (intro engine_ok_integrating[OF ok st]) simp_all
next
  case (attempt_missing sid)
  then show ?thesis using no_missing_attempt ok by (auto simp: engine_ok_def)
next
  case (integrated sid a head commit updated time s)
  have rok: "run_ok (eng_run e)" and i: "integrable (eng_run e) sid" using ok integrated(2) by (simp_all add: engine_ok_def)
  note ev = integrate_step_evolves[OF run_ok_graph[OF rok] integrated(5)]
  show ?thesis unfolding integrated(1)
    by (rule engine_ok_goto[OF ok integrate_step_ok[OF rok i integrated(4,5)] ev(1,2)]) (simp_all add: integrated(2))
next
  case (integration_failed sid a head problem updated time s)
  have rok: "run_ok (eng_run e)" and i: "integrable (eng_run e) sid"
    using ok integration_failed(2) by (simp_all add: engine_ok_def)
  note ev = fail_integration_evolves[OF run_ok_graph[OF rok] integration_failed(4)]
  have "choose_integration s = NothingToIntegrate" by (simp add: choose_integration_def ev(3))
  then show ?thesis unfolding integration_failed(1)
    by (intro engine_ok_goto[OF ok fail_integration_ok[OF rok integrable_state[OF i] integration_failed(4)] ev(1,2)])
       (simp_all add: integration_failed(2))
next
  case (dispatched ids)
  have "distinct ids" "\<And>i. i \<in> set ids \<Longrightarrow> step_waiting (eng_run e) i"
    using launchable_step_ids_waiting[OF _ dispatched(4)] ok by (simp_all add: engine_ok_def)
  moreover have "eng_racing e = [] \<Longrightarrow> choose_integration (eng_run e) = NothingToIntegrate"
    using ok dispatched(2) by (simp add: engine_ok_def)
  ultimately have "engine_ok (e\<lparr>eng_run := eng_run e, eng_pc := Dispatch ids\<rparr>)"
    using ok dispatched by (intro engine_ok_goto[OF ok _ evolves_refl]) (simp_all add: engine_ok_def settled_choice_def)
  then show ?thesis using dispatched(1) by simp
next
  case (not_dispatched l)
  have "engine_ok (e\<lparr>eng_run := eng_run e, eng_pc := Race\<rparr>)"
    using ok not_dispatched by (intro engine_ok_goto[OF ok _ evolves_refl]) (auto simp: engine_ok_def)
  then show ?thesis using not_dispatched(1) by simp
next
  case all_dispatched
  have "engine_ok (e\<lparr>eng_run := eng_run e, eng_pc := Race\<rparr>)"
    using ok all_dispatched by (intro engine_ok_goto[OF ok _ evolves_refl]) (auto simp: engine_ok_def)
  then show ?thesis using all_dispatched(1) by simp
next
  case (prepared sid ids aid w time a)
  have a: "attempt_step a = sid" "fresh_attempt (eng_run e) a"
    using prepared(3,4) by (auto simp: prepare_attempt_def and_then_Inr fresh_attempt_def)
  have "engine_ok (e\<lparr>eng_run := eng_run e, eng_pc := Reserve a ids\<rparr>)"
    using ok prepared(2) a by (intro engine_ok_goto[OF ok _ evolves_refl]) (auto simp: engine_ok_def)
  then show ?thesis using prepared(1) by simp
next
  case (not_prepared sid ids message updated time s)
  have rok: "run_ok (eng_run e)" and w: "step_waiting (eng_run e) sid" using ok not_prepared(2) by (simp_all add: engine_ok_def)
  note ev = fail_step_evolves[OF run_ok_graph[OF rok] not_prepared(3)]
  have "run_ok s" by (rule fail_step_ok[OF rok _ not_prepared(3)]) (use w in \<open>auto simp: step_waiting_def\<close>)
  then show ?thesis unfolding not_prepared(1)
    by (rule engine_ok_goto[OF ok _ ev(1,2)]) (use ev(3) in \<open>simp_all add: not_prepared(2)\<close>)
next
  case (reserved a ids updated time s)
  then show ?thesis using reserved_ok[OF ok] by blast
next
  case (discarded a ids updated time s)
  have busy: "eng_racing e \<noteq> []" using discarded_impossible[OF ok discarded(2) _ discarded(3)] by blast
  have s: "s = eng_run e" using reserve_attempt_Inr[OF discarded(3)] by blast
  show ?thesis unfolding discarded(1) s
    by (rule engine_ok_goto[OF ok _ evolves_refl]) (use ok busy in \<open>simp_all add: discarded(2) engine_ok_def\<close>)
next
  case (launched a ids updated)
  then show ?thesis using launched_ok[OF ok] by blast
next
  case (woken aid)
  then show ?thesis using ok by (auto simp: engine_ok_def owned_def)
next
  case (settled_run updated time)
  have rok: "run_ok (eng_run e)" and live: "eng_live e = []" and own: "owned e = []"
    and dead: "\<forall>b\<in>set (run_attempts (eng_run e)). \<not> active b"
    and mw: "1 \<le> run_max_workers (eng_run e)"
    using ok settled_run(2,3) by (auto simp: engine_ok_def owned_def)
  have own': "owned e' = []" by (simp add: settled_run(1) owned_def live)
  show ?thesis
    unfolding engine_ok_def own' using settle_run_ok[OF rok] dead mw live settled_run_state_not_running
    by (auto simp: settled_run(1) settle_run_fields)
next
  case (settled_step a executed routed result ids events updated time s)
  then show ?thesis using settled_step_ok[OF ok] by blast
qed

lemma outside_step_ok:
  assumes st: "outside_step e e'" and ok: "engine_ok e"
  shows "engine_ok e'"
  using st
proof cases
  case (admitted a request time s)
  then show ?thesis using admitted_ok[OF ok] by blast
next
  case (cancel_requested reason time)
  have "owned e' = owned e" by (simp add: cancel_requested(1) owned_def)
  then show ?thesis
    using ok request_cancellation_ok cancel_requested(2)
    by (simp add: cancel_requested(1) engine_ok_def request_cancellation_def append_event_pc_ok stored_active_def)
next
  case aborted
  have "owned e' = owned e" by (simp add: aborted(1) owned_def)
  moreover have "pc_ok (eng_run e) (eng_racing e = []) True (eng_pc e)"
    using ok by (cases "eng_pc e") (auto simp: engine_ok_def)
  ultimately show ?thesis using ok aborted(2) by (simp add: aborted(1) engine_ok_def)
qed

text \<open>A run the engine can start from: well-formed, with a worker, and nothing in flight.\<close>

definition startable_run :: "run_state \<Rightarrow> bool" where
  "startable_run s \<longleftrightarrow> run_ok s \<and> 1 \<le> run_max_workers s \<and> active_attempts s = []"

lemma engine_start_ok: "startable_run s \<Longrightarrow> engine_ok (engine_start s)"
  by (auto simp: startable_run_def engine_ok_def engine_start_def owned_def active_attempts_def active_def filter_empty_conv)

lemma engine_reachable_ok: "engine_reachable s e \<Longrightarrow> startable_run s \<Longrightarrow> engine_ok e"
  by (induction rule: engine_reachable.induct) (auto intro: engine_start_ok engine_step_ok outside_step_ok)

end
