(* ===== verification/EngineProgress.thy ===== *)
theory EngineProgress
  imports EngineReachability
begin

text \<open>
  What the loop achieves: it never waits while work can start, so a run it settles undisturbed
  is complete; it is never stuck; and without further proposals it ends.
\<close>

subsection \<open>An idle run is complete\<close>

lemma truthy_not_None: "truthy v \<Longrightarrow> v \<noteq> None"
  by (cases v) (simp_all add: truthy_def)

lemma next_integrable_None:
  assumes "next_integrable ps steps (us @ sid # vs) = None" and "obj_get steps sid = Some r"
    and "\<forall>u\<in>set us. \<forall>q. obj_get steps u = Some q \<longrightarrow>
      step_requires_integration ps (record_definition q) \<longrightarrow> truthy (record_integrated q)"
    and "step_requires_integration ps (record_definition r)" and "record_state r = Succeeded"
  shows "truthy (record_integrated r)"
  using assms by (induction us) (auto split: option.splits if_splits)

lemma no_active_not_running:
  assumes "run_ok s" and "\<forall>b\<in>set (run_attempts s). \<not> active b" and "obj_get (run_steps s) sid = Some r"
  shows "record_state r \<noteq> Running"
proof
  assume "record_state r = Running"
  then have "attempts_of s sid \<noteq> []" "active (last (attempts_of s sid))"
    using run_ok_record[OF assms(1,3)] by (auto simp: record_ok_def)
  moreover have "last (attempts_of s sid) \<in> set (run_attempts s)"
    using last_in_set[OF calculation(1)] by (simp add: attempts_of_def)
  ultimately show False using assms(2) by blast
qed

definition step_done :: "run_state \<Rightarrow> string \<Rightarrow> bool" where
  "step_done s sid \<longleftrightarrow> (\<exists>r. obj_get (run_steps s) sid = Some r \<and> record_state r = Succeeded \<and>
     (step_requires_integration (run_profiles s) (record_definition r) \<longrightarrow> record_integrated r \<noteq> None))"

text \<open>With nothing in flight, a waiting step whose dependencies are done can be launched.\<close>

lemma idle_launchable:
  assumes ok: "run_ok s" and w: "1 \<le> run_max_workers s" and idle: "\<forall>b\<in>set (run_attempts s). \<not> active b"
    and r: "obj_get (run_steps s) sid = Some r" and wait: "record_state r = Planned \<or> record_state r = Ready"
    and deps: "\<forall>d\<in>set (step_dependencies (record_definition r)). step_done s d"
  shows "launchable_steps (reconcile_workflow_steps s) \<noteq> []"
proof
  let ?R = "reconcile_workflow_steps s"
  assume none: "launchable_steps ?R = []"
  note g = run_ok_graph[OF ok]
  have actR: "active_step_ids ?R = []"
    using idle by (simp add: active_step_ids_def active_attempts_def active_def filter_empty_conv)
  have rec: "obj_get (run_steps ?R) d = Some (q\<lparr>record_state := next_step_state (run_profiles s) q (run_steps ?R)\<rparr>)"
    if "obj_get (run_steps s) d = Some q" for d q by (rule reconcile_get[OF g that])
  have sat: "dependency_satisfied (run_profiles s) (run_steps ?R) d \<and> \<not> dependency_failed (run_steps ?R) d"
    if d: "d \<in> set (step_dependencies (record_definition r))" for d
  proof -
    obtain q where q: "obj_get (run_steps s) d = Some q" "record_state q = Succeeded"
      "step_requires_integration (run_profiles s) (record_definition q) \<longrightarrow> record_integrated q \<noteq> None"
      using deps d unfolding step_done_def by blast
    then show ?thesis using rec[OF q(1)]
      by (simp add: dependency_satisfied_def dependency_failed_def step_satisfies_dependents_def next_step_state_def)
  qed
  then have "next_step_state (run_profiles s) r (run_steps ?R) = Ready"
    using wait by (auto simp: next_step_state_def Let_def list_ex_iff list_all_iff)
  then have "startable ?R sid" using rec[OF r] actR by (simp add: startable_def)
  from launchable_steps_maximal[OF reconcile_graph_ok[OF g] this]
  have "(\<exists>r\<in>set (running_records ?R). locks_conflict (record_definition (record_of ?R sid)) (record_definition r)) \<or>
      free_slots ?R = 0" by (auto simp: none)
  moreover have idleR: "\<not> record_state q = Running" if "(k, q) \<in> set (run_steps ?R)" for k q
  proof
    assume run: "record_state q = Running"
    have "obj_get (run_steps ?R) k = Some q"
      using obj_entries_get[OF graph_ok_distinct[OF reconcile_graph_ok[OF g]]] that by simp
    then obtain q' where q': "obj_get (run_steps s) k = Some q'"
      "q = q'\<lparr>record_state := next_step_state (run_profiles s) q' (run_steps ?R)\<rparr>"
      using reconcile_get_inv[OF g] by blast
    have "record_state q' = Running"
      using run next_step_state_waiting[of "run_profiles s" q' "run_steps ?R"] by (auto simp: q'(2) waiting_def)
    then show False using no_active_not_running[OF ok idle q'(1)] by blast
  qed
  then have "running_records ?R = []" "untracked_running ?R = []"
    by (auto simp: running_records_def untracked_running_def obj_values_def filter_empty_conv)
  ultimately show False using w actR by (simp add: free_slots_def occupied_slots_def)
qed

lemma idle_run_complete:
  assumes ok: "run_ok s" and w: "1 \<le> run_max_workers s" and run: "run_state s = RunRunning"
    and idle: "\<forall>b\<in>set (run_attempts s). \<not> active b"
    and none: "choose_integration s = NothingToIntegrate" "launchable_step_ids s = Inr []"
    and key: "sid \<in> set (obj_keys (run_steps s))"
  shows "step_done s sid"
proof -
  note g = run_ok_graph[OF ok]
  have L: "launchable_steps (reconcile_workflow_steps s) = []"
    using none(2) run by (auto simp: launchable_step_ids_def Let_def split: option.splits)
  have N: "next_integrable (run_profiles s) (run_steps s) (topological_step_ids (run_plan s)) = None"
    using none(1) run by (auto simp: choose_integration_def next_integrable_step_id_def split: option.splits)
  have ord: "set (topological_step_ids (run_plan s)) = set (obj_keys (run_steps s))"
    "dependencies_first (plan_steps (run_plan s)) (topological_step_ids (run_plan s))"
    using graph_ok_order[OF g] by blast+
  have "step_done s sid" if "topological_step_ids (run_plan s) = us @ sid # vs" for us vs sid
    using that
  proof (induction us arbitrary: sid vs rule: length_induct)
    case (1 us)
    have before: "step_done s u" if u: "u \<in> set us" for u
    proof -
      obtain as bs where us: "us = as @ u # bs" using u by (meson split_list)
      then show ?thesis using 1(1)[rule_format, of as u "bs @ sid # vs"] 1(2) by simp
    qed
    have "sid \<in> set (obj_keys (run_steps s))" using 1(2) ord(1) by auto
    then obtain r where r: "obj_get (run_steps s) sid = Some r" using obj_key_get by blast
    have "\<not> (record_state r = Planned \<or> record_state r = Ready)"
    proof
      assume wt: "record_state r = Planned \<or> record_state r = Ready"
      have "step_done s d" if d: "d \<in> set (step_dependencies (record_definition r))" for d
        using ord(2) 1(2) graph_ok_record[OF g r] d before unfolding dependencies_first_def by blast
      then show False using idle_launchable[OF ok w idle r wt] L by blast
    qed
    moreover have "record_state r \<notin> set TERMINAL_STEP_FAILURE_STATES"
      using ok run r by (simp add: run_ok_def no_failure_def)
    ultimately have st: "record_state r = Succeeded"
      using no_active_not_running[OF ok idle r] by (cases "record_state r") auto
    have "truthy (record_integrated q)"
      if "u \<in> set us" "obj_get (run_steps s) u = Some q" "step_requires_integration (run_profiles s) (record_definition q)" for u q
      using before[OF that(1)] that(2,3) run_ok_record[OF ok that(2)] by (auto simp: step_done_def record_ok_def)
    then have "truthy (record_integrated r)" if "step_requires_integration (run_profiles s) (record_definition r)"
      using next_integrable_None[OF N[unfolded 1(2)] r _ that st] by blast
    then show ?case using r st truthy_not_None by (auto simp: step_done_def)
  qed
  then show ?thesis using key ord(1) by (metis split_list)
qed

text \<open>Settling a run all of whose steps are done completes it.\<close>

lemma settle_done_run:
  assumes ok: "run_ok s" and run: "run_state s = RunRunning"
    and all: "\<And>sid. sid \<in> set (obj_keys (run_steps s)) \<Longrightarrow> step_done s sid"
  shows "run_state (settle_run s False updated time) = RunCompleted"
    "sid \<in> set (obj_keys (run_steps s)) \<Longrightarrow> step_done (settle_run s False updated time) sid"
proof -
  note g = run_ok_graph[OF ok]
  let ?R = "reconcile_workflow_steps s"
  have steps: "run_steps (settle_run s False updated time) = run_steps ?R"
    "closed_steps s False = ?R" using run by (simp_all add: settle_run_fields closed_steps_def cancelling_def)
  have rec: "\<exists>q. obj_get (run_steps ?R) k = Some q \<and> record_state q = Succeeded \<and>
      (step_requires_integration (run_profiles s) (record_definition q) \<longrightarrow> record_integrated q \<noteq> None)"
    if k: "k \<in> set (obj_keys (run_steps s))" for k
  proof -
    obtain r where r: "obj_get (run_steps s) k = Some r" "record_state r = Succeeded"
      "step_requires_integration (run_profiles s) (record_definition r) \<longrightarrow> record_integrated r \<noteq> None"
      using all[OF k] unfolding step_done_def by blast
    show ?thesis using reconcile_get[OF g r(1)] r(2,3) by (simp add: next_step_state_def)
  qed
  then show "step_done (settle_run s False updated time) sid" if "sid \<in> set (obj_keys (run_steps s))"
    using that by (simp add: step_done_def steps settle_run_fields)
  have "record_state q = Succeeded" if "q \<in> set (obj_values (run_steps ?R))" for q
  proof -
    obtain k where k: "(k, q) \<in> set (run_steps ?R)" using \<open>q \<in> set (obj_values (run_steps ?R))\<close> by (auto simp: obj_values_def)
    then have "obj_get (run_steps ?R) k = Some q"
      using obj_entries_get[OF graph_ok_distinct[OF reconcile_graph_ok[OF g]]] by simp
    with rec[of k] obj_get_Some_key[OF this] show ?thesis by simp
  qed
  then show "run_state (settle_run s False updated time) = RunCompleted"
    by (simp add: settle_run_fields steps(2) run settled_run_state_completed)
qed

text \<open>When the loop settles a run that is running and was not aborted, every step is done.\<close>

lemma settling_complete:
  assumes ok: "engine_ok e" and race: "eng_pc e = Race" "eng_racing e = []"
    and run: "run_state (eng_run e) = RunRunning" "\<not> eng_aborted e" and key: "sid \<in> set (obj_keys (run_steps (eng_run e)))"
  shows "step_done (eng_run e) sid"
proof -
  have "eng_live e = []" "owned e = []" using ok race by (auto simp: engine_ok_def owned_def)
  then have idle: "\<forall>b\<in>set (run_attempts (eng_run e)). \<not> active b" using ok by (auto simp: engine_ok_def)
  have "settled_choice (eng_run e) []" "run_ok (eng_run e)" "1 \<le> run_max_workers (eng_run e)"
    using ok race run by (simp_all add: engine_ok_def)
  then show ?thesis using idle_run_complete[OF _ _ run(1) idle _ _ key] by (simp add: settled_choice_def)
qed

subsection \<open>The loop is never stuck\<close>

lemma launchable_step_ids_total:
  assumes "run_ok s"
  shows "\<exists>ids. launchable_step_ids s = Inr ids"
proof -
  have "attempt_step a \<in> set (obj_keys (run_steps s))" if "a \<in> set (run_attempts s)" for a
    using assms that by (simp add: run_ok_def store_ok_def attempts_known_def)
  then have "obj_get (run_steps (reconcile_workflow_steps s)) i \<noteq> None"
    if "i \<in> set (active_step_ids (reconcile_workflow_steps s))" for i
    using that by (auto simp: obj_get_None_iff active_step_ids_def active_attempts_def)
  then have "find (\<lambda>sid. obj_get (run_steps (reconcile_workflow_steps s)) sid = None)
      (active_step_ids (reconcile_workflow_steps s)) = None" by (auto simp: find_None_iff)
  then show ?thesis by (auto simp: launchable_step_ids_def Let_def)
qed

lemma fail_step_total: "obj_get (run_steps s) sid = Some r \<Longrightarrow> \<exists>t. fail_step s sid message updated time = Inr t"
  by (simp add: fail_step_def and_then_Inr update_step_Inr Let_def)

lemma integrate_step_total: "obj_get (run_steps s) sid = Some r \<Longrightarrow> \<exists>t. integrate_step s sid a c updated time = Inr t"
  by (simp add: integrate_step_def and_then_Inr update_step_Inr)

lemma settle_attempt_total:
  "obj_get (run_steps s) sid = Some r \<Longrightarrow> \<exists>t. settle_attempt s sid a result ids events updated time = Inr t"
  by (simp add: settle_attempt_def and_then_Inr update_step_Inr Let_def update_step_attempt_def)

lemma reserve_attempt_total:
  assumes "run_ok s" and "obj_get (run_steps s) (attempt_step a) = Some r"
  shows "\<exists>t b. reserve_attempt s a updated time = Inr (t, b)"
proof -
  obtain ids where "launchable_step_ids s = Inr ids" using launchable_step_ids_total[OF assms(1)] by blast
  then show ?thesis
    using assms(2) by (cases "attempt_step a \<in> set ids") (auto simp: reserve_attempt_def and_then_Inr update_step_Inr)
qed

lemma engine_progress:
  assumes ok: "engine_ok e" and pc: "eng_pc e \<noteq> Done"
  shows "\<exists>e'. engine_step e e'"
proof -
  let ?s = "eng_run e"
  have rok: "run_ok ?s" and agree: "pc_ok ?s (eng_racing e = []) (eng_aborted e) (eng_pc e)" using ok by (simp_all add: engine_ok_def)
  show ?thesis
  proof (cases "eng_pc e")
    case Integrate
    then show ?thesis
      using engine_step.nothing_to_integrate engine_step.integrator_asked no_missing_attempt[OF rok]
      by (cases "choose_integration ?s") blast+
  next
    case (AwaitIntegrator sid a head)
    then obtain r where "obj_get (run_steps ?s) sid = Some r" and h: "head \<noteq> []"
      using agree by (auto simp: integrable_def)
    then obtain t where "integrate_step ?s sid a head [] [] = Inr t" using integrate_step_total by blast
    with h show ?thesis using engine_step.integrated[OF AwaitIntegrator] by blast
  next
    case (Chosen l)
    then show ?thesis
      using engine_step.dispatched engine_step.not_dispatched[OF Chosen] launchable_step_ids_total[OF rok] by blast
  next
    case (Dispatch ids)
    show ?thesis
    proof (cases ids)
      case Nil
      then show ?thesis using engine_step.all_dispatched Dispatch by blast
    next
      case (Cons sid rest)
      then obtain r where "obj_get (run_steps ?s) sid = Some r" using agree Dispatch by (auto simp: step_waiting_def)
      then obtain t where "fail_step ?s sid [] [] [] = Inr t" using fail_step_total by blast
      then show ?thesis using engine_step.not_prepared Dispatch Cons by blast
    qed
  next
    case (Reserve a ids)
    then obtain r where "obj_get (run_steps ?s) (attempt_step a) = Some r" using agree by (auto simp: step_waiting_def)
    then obtain t b where "reserve_attempt ?s a [] [] = Inr (t, b)" using reserve_attempt_total[OF rok] by blast
    then show ?thesis using engine_step.reserved[OF Reserve] engine_step.discarded[OF Reserve] by (cases b) (simp, blast)+
  next
    case (Mark a ids)
    then show ?thesis using engine_step.launched by blast
  next
    case Race
    consider "eng_racing e = []" | aid where "aid \<in> set (eng_racing e)" "aid \<notin> attempt_id ` set (eng_live e)"
      | a where "a \<in> set (eng_live e)" by (cases "eng_racing e") auto
    then show ?thesis
    proof cases
      case 1
      then show ?thesis using engine_step.settled_run[OF Race] by blast
    next
      case 2
      then show ?thesis using engine_step.woken[OF Race] by blast
    next
      case 3
      have "stored_active ?s a" using ok 3 by (simp add: engine_ok_def owned_def)
      then obtain r where r: "obj_get (run_steps ?s) (attempt_step a) = Some r" using stored_active_step[OF rok] by blast
      define x where "x = \<lparr>result_outcome = Failure (StepError [] None None), result_started = [], result_finished = [],
        result_timed_out = False, result_retained = True, result_release_error = None\<rparr>"
      have x: "routed_result x (Inr ([], [])) = (x, [], [])" by (simp add: routed_result_def)
      obtain t where "settle_attempt ?s (attempt_step a) a x [] [] [] [] = Inr t" using settle_attempt_total[OF r] by blast
      then show ?thesis using engine_step.settled_step[OF 3 x] by blast
    qed
  next
    case Done
    then show ?thesis using pc by simp
  qed
qed

text \<open>A settled run stays as it is.\<close>

lemma engine_done: "engine_ok e \<Longrightarrow> eng_pc e = Done \<Longrightarrow> \<not> engine_step e e' \<and> \<not> outside_step e e'"
  by (auto elim!: engine_step.cases outside_step.cases simp: engine_ok_def)

end
