(* ===== verification/EngineTermination.thy ===== *)
theory EngineTermination
  imports EngineProgress
begin

text \<open>
  The loop ends. Every launch spends a unit of a step's retry budget, every integration a
  step not yet integrated, every turn of the loop an attempt of the race, and every rule in
  between moves the loop forward.
\<close>

subsection \<open>What is left to spend\<close>

definition budget_left :: "step_record \<Rightarrow> nat" where
  "budget_left r = nat (retry_budget r - int (length (record_attempts r)))"

definition unintegrated :: "step_record \<Rightarrow> nat" where
  "unintegrated r = (if record_integrated r = None then 1 else 0)"

definition total :: "(step_record \<Rightarrow> nat) \<Rightarrow> run_state \<Rightarrow> nat" where
  "total w s = sum_list (map w (obj_values (run_steps s)))"

lemma sum_obj_set:
  assumes "distinct (obj_keys ob)" and "obj_get ob k = Some r"
  shows "sum_list (map w (obj_values (obj_set ob k r'))) + w r = sum_list (map w (obj_values ob)) + (w r' :: nat)"
  using assms
proof (induction ob)
  case (Cons x ob)
  obtain i v where x: "x = (i, v)" by (cases x)
  have "k \<notin> set (obj_keys ob) \<Longrightarrow> obj_get ob k = None" by (simp add: obj_get_None_iff)
  then show ?case using Cons x by (auto simp: obj_values_def obj_set_def obj_keys_def obj_get_def split: if_splits)
qed (simp add: obj_get_def)

text \<open>The part of a record that spending is about.\<close>

definition effort :: "step_record \<Rightarrow> step_definition \<times> string list \<times> string option" where
  "effort r = (record_definition r, record_attempts r, record_integrated r)"

definition same_effort :: "run_state \<Rightarrow> run_state \<Rightarrow> bool" where
  "same_effort s t \<longleftrightarrow> obj_keys (run_steps t) = obj_keys (run_steps s) \<and> distinct (obj_keys (run_steps s)) \<and>
     (\<forall>k. map_option effort (obj_get (run_steps t) k) = map_option effort (obj_get (run_steps s) k))"

lemma same_effort_total:
  assumes "same_effort s t" and "\<And>p q. effort p = effort q \<Longrightarrow> w p = w q"
  shows "total w t = total w s"
proof -
  have val: "obj_values ob = map (\<lambda>k. the (obj_get ob k)) (obj_keys ob)" if d: "distinct (obj_keys ob)" for ob :: "step_record obj"
  proof -
    have "the (obj_get ob (fst e)) = snd e" if e: "e \<in> set ob" for e
    proof -
      have "(fst e, snd e) \<in> set ob" using e by simp
      then have "obj_get ob (fst e) = Some (snd e)" using obj_entries_get[OF d] by blast
      then show ?thesis by simp
    qed
    then show ?thesis unfolding obj_values_def obj_keys_def by (simp add: comp_def)
  qed
  have keys: "obj_keys (run_steps t) = obj_keys (run_steps s)" "distinct (obj_keys (run_steps s))"
    using assms(1) by (simp_all add: same_effort_def)
  have "w (the (obj_get (run_steps t) k)) = w (the (obj_get (run_steps s) k))" if k: "k \<in> set (obj_keys (run_steps s))" for k
  proof -
    obtain p where p: "obj_get (run_steps s) k = Some p" using obj_key_get[OF k] by blast
    have "map_option effort (obj_get (run_steps t) k) = Some (effort p)"
      using assms(1) p by (simp add: same_effort_def)
    then obtain q where q: "obj_get (run_steps t) k = Some q" "effort q = effort p" by auto
    show ?thesis using assms(2)[OF q(2)] by (simp add: p q(1))
  qed
  then have "map (\<lambda>k. w (the (obj_get (run_steps t) k))) (obj_keys (run_steps s)) =
      map (\<lambda>k. w (the (obj_get (run_steps s) k))) (obj_keys (run_steps s))" by (intro map_cong refl)
  then show ?thesis
    unfolding total_def val[OF keys(2)] val[OF keys(2)[folded keys(1)]] keys(1) by (simp only: list.map_comp comp_def)
qed

lemma same_effort_spending:
  assumes "same_effort s t"
  shows "total budget_left t = total budget_left s" "total unintegrated t = total unintegrated s"
    "length (run_steps t) = length (run_steps s)"
proof -
  show "total budget_left t = total budget_left s"
    by (rule same_effort_total[OF assms]) (simp add: effort_def budget_left_def retry_budget_def)
  show "total unintegrated t = total unintegrated s"
    by (rule same_effort_total[OF assms]) (simp add: effort_def unintegrated_def)
  have "length (obj_keys (run_steps t)) = length (obj_keys (run_steps s))" using assms by (simp add: same_effort_def)
  then show "length (run_steps t) = length (run_steps s)" by (simp add: obj_keys_def)
qed

lemma same_effort_trans: "same_effort s t \<Longrightarrow> same_effort t u \<Longrightarrow> same_effort s u"
  by (simp add: same_effort_def)

lemma same_effort_steps: "distinct (obj_keys (run_steps s)) \<Longrightarrow> run_steps t = run_steps s \<Longrightarrow> same_effort s t"
  by (simp add: same_effort_def)

lemma same_effort_set:
  assumes "graph_ok s" and "obj_get (run_steps s) k = Some r" and "run_steps t = obj_set (run_steps s) k r'"
    and "effort r' = effort r"
  shows "same_effort s t"
  using assms graph_ok_distinct[OF assms(1)] obj_get_Some_key[OF assms(2)] by (simp add: same_effort_def)

lemma reconcile_effort:
  assumes "graph_ok s"
  shows "same_effort s (reconcile_workflow_steps s)"
  unfolding same_effort_def
proof (intro conjI allI)
  fix k
  show "map_option effort (obj_get (run_steps (reconcile_workflow_steps s)) k) = map_option effort (obj_get (run_steps s) k)"
  proof (cases "obj_get (run_steps s) k")
    case None
    then have "obj_get (run_steps (reconcile_workflow_steps s)) k = None" by (simp add: obj_get_None_iff)
    then show ?thesis by (simp add: None)
  next
    case (Some r)
    then show ?thesis by (simp add: reconcile_get[OF assms Some] effort_def)
  qed
qed (simp_all add: graph_ok_distinct[OF assms])

lemma concluded_effort:
  assumes "graph_ok u"
  shows "same_effort u (concluded u l updated events time)"
  by (rule same_effort_trans[OF reconcile_effort[OF assms]])
     (rule same_effort_steps, simp_all add: concluded_def graph_ok_distinct[OF assms])

lemma settle_attempt_effort:
  assumes g: "graph_ok s" and t: "settle_attempt s sid a result ids events updated time = Inr t"
  shows "same_effort s t"
proof -
  from t obtain r c retrying ev where r: "obj_get (run_steps s) sid = Some r"
    and t: "t = concluded (s\<lparr>run_attempts := map (\<lambda>x. if attempt_id x = attempt_id a then settled_attempt result ids x else x)
           (run_attempts s),
         run_steps := obj_set (run_steps s) sid (settled_record (result_outcome result) retrying r)\<rparr>)
       (settled_lifecycle (run_state s) (result_outcome result) retrying) updated ev time" (is "t = concluded ?u _ _ _ _")
    by (rule settle_attempt_Inr) blast
  have "same_effort s ?u" by (rule same_effort_set[OF g r, of _ "settled_record (result_outcome result) retrying r"]) (simp_all add: effort_def)
  moreover have "graph_ok ?u"
    by (rule set_graph_ok[OF g r, of "settled_record (result_outcome result) retrying r"]) simp_all
  ultimately show ?thesis unfolding t using same_effort_trans concluded_effort by blast
qed

lemma fail_step_effort:
  assumes g: "graph_ok s" and t: "fail_step s sid message updated time = Inr t"
  shows "same_effort s t"
proof -
  obtain r ev where r: "obj_get (run_steps s) sid = Some r"
    and t: "t = concluded (s\<lparr>run_steps := obj_set (run_steps s) sid (r\<lparr>record_state := Failed, record_error := Some message\<rparr>)\<rparr>)
       (if run_state s = RunCancelled then RunCancelled else RunFailed) updated ev time" (is "t = concluded ?u _ _ _ _")
    by (rule fail_step_Inr[OF t]) blast
  have "same_effort s ?u" by (rule same_effort_set[OF g r, of _ "r\<lparr>record_state := Failed, record_error := Some message\<rparr>"]) (simp_all add: effort_def)
  moreover have "graph_ok ?u"
    by (rule set_graph_ok[OF g r, of "r\<lparr>record_state := Failed, record_error := Some message\<rparr>"]) simp_all
  ultimately show ?thesis unfolding t using same_effort_trans concluded_effort by blast
qed

lemma fail_integration_effort:
  assumes g: "graph_ok s" and t: "fail_integration s sid a problem updated time = Inr t"
  shows "same_effort s t"
proof -
  from t obtain r m ev where r: "obj_get (run_steps s) sid = Some r"
    and t: "t = concluded (s\<lparr>run_steps := obj_set (run_steps s) sid
      (r\<lparr>record_state := Failed, record_integration_error := Some m\<rparr>)\<rparr>) RunFailed updated ev time" (is "t = concluded ?u _ _ _ _")
    by (auto simp: fail_integration_def and_then_Inr update_step_Inr Let_def concluded_def)
  have "same_effort s ?u" by (rule same_effort_set[OF g r, of _ "r\<lparr>record_state := Failed, record_integration_error := Some m\<rparr>"]) (simp_all add: effort_def)
  moreover have "graph_ok ?u"
    by (rule set_graph_ok[OF g r, of "r\<lparr>record_state := Failed, record_integration_error := Some m\<rparr>"]) simp_all
  ultimately show ?thesis unfolding t using same_effort_trans concluded_effort by blast
qed

lemma settle_run_effort:
  assumes g: "graph_ok s"
  shows "same_effort s (settle_run s c updated time)"
proof -
  let ?R = "reconcile_workflow_steps s"
  have d: "distinct (obj_keys (run_steps ?R))" using graph_ok_distinct[OF g] by simp
  have "map_option effort (obj_get (run_steps (closed_steps s c)) k) = map_option effort (obj_get (run_steps ?R) k)" for k
    by (cases "obj_get (run_steps ?R) k") (simp_all add: closed_steps_def cancel_unfinished_get cancelled_record_def effort_def)
  then have "same_effort ?R (closed_steps s c)" using d by (simp add: same_effort_def)
  moreover have "same_effort (closed_steps s c) (settle_run s c updated time)"
    using d by (intro same_effort_steps) (simp_all add: settle_run_fields)
  ultimately show ?thesis using reconcile_effort[OF g] same_effort_trans by blast
qed

lemma mark_running_effort: "graph_ok s \<Longrightarrow> same_effort s (mark_attempt_running s aid updated)"
  by (rule same_effort_steps) (simp_all add: graph_ok_distinct mark_attempt_running_def update_step_attempt_def)

text \<open>A launch spends budget; an integration integrates.\<close>

lemma reserve_attempt_spends:
  assumes rok: "run_ok s" and w: "step_waiting s (attempt_step a)" and t: "reserve_attempt s a updated time = Inr (t, True)"
  shows "total budget_left t < total budget_left s"
proof -
  from reserve_attempt_Inr[OF t] obtain r where r: "obj_get (run_steps s) (attempt_step a) = Some r"
    and steps: "run_steps t = obj_set (run_steps s) (attempt_step a)
          (r\<lparr>record_state := Running, record_attempts := record_attempts r @ [attempt_id a]\<rparr>)" (is "_ = obj_set _ _ ?r'")
    by auto
  have "waiting (record_state r)" using w r by (simp add: step_waiting_def)
  then have "int (length (record_attempts r)) < retry_budget r"
    using run_ok_record[OF rok r] by (simp add: record_ok_def)
  then have "budget_left ?r' < budget_left r" by (simp add: budget_left_def retry_budget_def)
  moreover have "total budget_left t + budget_left r = total budget_left s + budget_left ?r'"
    unfolding total_def steps by (rule sum_obj_set[OF graph_ok_distinct[OF run_ok_graph[OF rok]] r])
  ultimately show ?thesis by linarith
qed

lemma integrate_step_spends:
  assumes g: "graph_ok s" and i: "integrable s sid" and t: "integrate_step s sid a commit updated time = Inr t"
  shows "total unintegrated t < total unintegrated s" "total budget_left t = total budget_left s"
    "length (run_steps t) = length (run_steps s)"
proof -
  from t obtain r where r: "obj_get (run_steps s) sid = Some r"
    and t: "t = append_workflow_event (reconcile_workflow_steps (s\<lparr>run_steps := obj_set (run_steps s) sid
      (r\<lparr>record_integrated := Some commit\<rparr>), run_head := commit, run_updated := updated\<rparr>))
      (StepIntegrated sid (if truthy (attempt_commit a) then attempt_commit a else None) commit) time"
    by (auto simp: integrate_step_def and_then_Inr update_step_Inr)
  let ?r' = "r\<lparr>record_integrated := Some commit\<rparr>"
  let ?u = "s\<lparr>run_steps := obj_set (run_steps s) sid ?r', run_head := commit, run_updated := updated\<rparr>"
  have gu: "graph_ok ?u" by (rule set_graph_ok[OF g r, of ?r']) simp_all
  have same: "same_effort ?u t" unfolding t
    by (rule same_effort_trans[OF reconcile_effort[OF gu]])
       (rule same_effort_steps, use graph_ok_distinct[OF reconcile_graph_ok[OF gu]] in simp_all)
  have upd: "total w ?u + w r = total w s + w ?r'" for w
    using sum_obj_set[OF graph_ok_distinct[OF g] r, of w ?r'] by (simp add: total_def)
  have "unintegrated ?r' < unintegrated r" using integrable_state[OF i r] by (simp add: unintegrated_def)
  then show "total unintegrated t < total unintegrated s"
    using upd[of unintegrated] same_effort_spending(2)[OF same] by linarith
  have "budget_left ?r' = budget_left r" by (simp add: budget_left_def retry_budget_def)
  then show "total budget_left t = total budget_left s"
    using upd[of budget_left] same_effort_spending(1)[OF same] by linarith
  have "length (obj_keys (obj_set (run_steps s) sid ?r')) = length (obj_keys (run_steps s))"
    using obj_get_Some_key[OF r] by simp
  then show "length (run_steps t) = length (run_steps s)"
    using same_effort_spending(3)[OF same] by (simp add: obj_keys_def)
qed

subsection \<open>The measure of the loop\<close>

definition pc_rank :: "nat \<Rightarrow> engine_pc \<Rightarrow> nat" where
  "pc_rank n pc = (case pc of
       Integrate \<Rightarrow> 3 * n + 6
     | AwaitIntegrator sid a head \<Rightarrow> 3 * n + 5
     | Chosen l \<Rightarrow> 3 * n + 4
     | Dispatch ids \<Rightarrow> 3 * length ids + 2
     | Reserve a ids \<Rightarrow> 3 * length ids + 4
     | Mark a ids \<Rightarrow> 3 * length ids + 3
     | Race \<Rightarrow> 1
     | Done \<Rightarrow> 0)"

lemma pc_rank_simps [simp]:
  "pc_rank n Integrate = 3 * n + 6" "pc_rank n (AwaitIntegrator sid a head) = 3 * n + 5"
  "pc_rank n (Chosen l) = 3 * n + 4" "pc_rank n (Dispatch ids) = 3 * length ids + 2"
  "pc_rank n (Reserve a ids) = 3 * length ids + 4" "pc_rank n (Mark a ids) = 3 * length ids + 3"
  "pc_rank n Race = 1" "pc_rank n Done = 0"
  by (simp_all add: pc_rank_def)

definition race_count :: "engine \<Rightarrow> nat" where
  "race_count e = length (eng_racing e) + (case eng_pc e of Mark a ids \<Rightarrow> 1 | _ \<Rightarrow> 0)"

definition engine_measures :: "(engine \<Rightarrow> nat) list" where
  "engine_measures =
     [\<lambda>e. total budget_left (eng_run e), \<lambda>e. total unintegrated (eng_run e), race_count,
      \<lambda>e. pc_rank (length (run_steps (eng_run e))) (eng_pc e), \<lambda>e. length (eng_live e)]"

lemma launchable_length:
  assumes rok: "run_ok s" and ids: "launchable_step_ids s = Inr ids"
  shows "length ids \<le> length (run_steps s)"
proof -
  have "set ids \<subseteq> set (obj_keys (run_steps s))"
    using launchable_step_ids_waiting(2)[OF rok ids] obj_get_Some_key by (fastforce simp: step_waiting_def)
  then have "card (set ids) \<le> length (obj_keys (run_steps s))"
    by (meson List.finite_set card_length card_mono order_trans)
  then show ?thesis using distinct_card[OF launchable_step_ids_waiting(1)[OF rok ids]] by (simp add: obj_keys_def)
qed

lemma removeAll_shorter: "x \<in> set xs \<Longrightarrow> length (removeAll x xs) < length xs"
  by (induction xs) (auto simp: less_Suc_eq_le le_SucI length_removeAll_less_eq)

lemma engine_step_decreases:
  assumes st: "engine_step e e'" and ok: "engine_ok e"
  shows "(e', e) \<in> measures engine_measures"
proof -
  have rok: "run_ok (eng_run e)" and g: "graph_ok (eng_run e)"
    and agree: "pc_ok (eng_run e) (eng_racing e = []) (eng_aborted e) (eng_pc e)"
    using ok run_ok_graph by (simp_all add: engine_ok_def)
  show ?thesis
    using st
  proof cases
    case (attempt_missing sid)
    then show ?thesis using no_missing_attempt[OF rok] by blast
  next
    case (integrated sid a head commit updated time s)
    have "integrable (eng_run e) sid" using agree integrated(2) by simp
    from integrate_step_spends[OF g this integrated(5)]
    show ?thesis by (simp add: engine_measures_def integrated(1))
  next
    case (integration_failed sid a head problem updated time s)
    from same_effort_spending[OF fail_integration_effort[OF g integration_failed(4)]]
    show ?thesis by (simp add: engine_measures_def race_count_def integration_failed(1,2))
  next
    case (dispatched ids)
    from launchable_length[OF rok dispatched(4)]
    show ?thesis by (simp add: engine_measures_def race_count_def dispatched(1,2))
  next
    case (not_prepared sid ids message updated time s)
    from same_effort_spending[OF fail_step_effort[OF g not_prepared(3)]]
    show ?thesis by (simp add: engine_measures_def race_count_def not_prepared(1,2))
  next
    case (reserved a ids updated time s)
    have "step_waiting (eng_run e) (attempt_step a)" using agree reserved(2) by simp
    from reserve_attempt_spends[OF rok this reserved(3)] show ?thesis by (simp add: engine_measures_def reserved(1))
  next
    case (discarded a ids updated time s)
    have s: "s = eng_run e" using reserve_attempt_Inr[OF discarded(3)] by blast
    show ?thesis by (simp add: engine_measures_def race_count_def discarded(1,2) s)
  next
    case (launched a ids updated)
    from same_effort_spending[OF mark_running_effort[OF g, of "attempt_id a" updated]]
    show ?thesis by (simp add: engine_measures_def race_count_def launched(1,2))
  next
    case (woken aid)
    from removeAll_shorter[OF woken(3)] show ?thesis by (simp add: engine_measures_def race_count_def woken(1,2))
  next
    case (settled_run updated time)
    from same_effort_spending[OF settle_run_effort[OF g]]
    show ?thesis by (simp add: engine_measures_def race_count_def settled_run(1,2,3))
  next
    case (settled_step a executed routed result ids events updated time s)
    have "length (filter (\<lambda>b. attempt_id b \<noteq> attempt_id a) (eng_live e)) < length (eng_live e)"
      using settled_step(2) by (intro length_filter_less[of a]) simp_all
    with same_effort_spending[OF settle_attempt_effort[OF g settled_step(4)]]
    show ?thesis by (simp add: engine_measures_def race_count_def settled_step(1))
  qed (simp_all add: engine_measures_def race_count_def)
qed

lemma engine_step_wf: "wf {(e', e). engine_ok e \<and> engine_step e e'}"
  by (rule wf_subset[OF wf_measures[of engine_measures]]) (auto intro: engine_step_decreases)

end
