(* ===== verification/EngineHead.thy ===== *)
theory EngineHead
  imports EngineTermination
begin

text \<open>
  What an execution never changes and what it builds: the frozen part of a run, its lifecycle
  that never reopens, the attempts bounded by the plan, and the integration head, which is
  the commit of the last integrated step in the topological order of the plan.
\<close>

subsection \<open>The frozen part of a run\<close>

definition frozen_part where
  "frozen_part s = (run_id s, run_root s, run_base_branch s, run_base_commit s, run_branch s,
     run_profiles s, run_authority s, run_max_workers s, run_created s)"

lemma reconcile_frozen [simp, frame_simps]:
  "run_base_branch (reconcile_workflow_steps s) = run_base_branch s"
  "run_base_commit (reconcile_workflow_steps s) = run_base_commit s"
  "run_branch (reconcile_workflow_steps s) = run_branch s"
  "run_created (reconcile_workflow_steps s) = run_created s"
  by (simp_all add: reconcile_workflow_steps_def)

definition keeps_frozen :: "run_state \<Rightarrow> run_state \<Rightarrow> bool" where
  "keeps_frozen s t \<longleftrightarrow> frozen_part t = frozen_part s \<and>
     prefix (plan_steps (run_plan s)) (plan_steps (run_plan t)) \<and>
     (run_state s \<noteq> RunRunning \<longrightarrow> run_state t \<noteq> RunRunning)"

lemma keeps_frozen_refl: "keeps_frozen s s"
  by (simp add: keeps_frozen_def)

lemma keeps_frozen_trans: "keeps_frozen s t \<Longrightarrow> keeps_frozen t u \<Longrightarrow> keeps_frozen s u"
  by (auto simp: keeps_frozen_def)

lemma keeps_frozen_concluded:
  assumes "frozen_part u = frozen_part s" "run_plan u = run_plan s"
    and "run_state s \<noteq> RunRunning \<Longrightarrow> l \<noteq> RunRunning"
  shows "keeps_frozen s (concluded u l updated events time)"
  using assms by (simp add: keeps_frozen_def concluded_def frozen_part_def)

lemma settle_attempt_frozen:
  assumes t: "settle_attempt s sid a result ids events updated time = Inr t"
  shows "keeps_frozen s t"
  by (rule settle_attempt_Inr[OF t])
     (simp add: keeps_frozen_concluded frozen_part_def settled_lifecycle_def)

lemma fail_step_frozen:
  assumes t: "fail_step s sid message updated time = Inr t"
  shows "keeps_frozen s t"
  by (rule fail_step_Inr[OF t]) (simp add: keeps_frozen_concluded frozen_part_def)

lemma fail_integration_frozen: "fail_integration s sid a problem updated time = Inr t \<Longrightarrow> keeps_frozen s t"
  by (auto simp: fail_integration_def and_then_Inr update_step_Inr Let_def keeps_frozen_def frozen_part_def)

lemma integrate_step_frozen: "integrate_step s sid a commit updated time = Inr t \<Longrightarrow> keeps_frozen s t"
  by (auto simp: integrate_step_def and_then_Inr update_step_Inr keeps_frozen_def frozen_part_def append_workflow_event_def)

lemma reserve_attempt_frozen: "reserve_attempt s a updated time = Inr (t, b) \<Longrightarrow> keeps_frozen s t"
  using reserve_attempt_Inr[of s a updated time t b]
  by (auto simp: keeps_frozen_def frozen_part_def append_workflow_event_def)

lemma mark_running_frozen: "keeps_frozen s (mark_attempt_running s aid updated)"
  by (simp add: mark_attempt_running_def update_step_attempt_def keeps_frozen_def frozen_part_def)

lemma settle_run_frozen: "keeps_frozen s (settle_run s c updated time)"
proof -
  have "frozen_part (settle_run s c updated time) = frozen_part s"
    by (simp add: frozen_part_def settle_run_def Let_def cancel_unfinished_def)
  then show ?thesis
    using settled_run_state_not_running by (simp add: keeps_frozen_def settle_run_fields)
qed

lemma request_cancellation_frozen: "keeps_frozen s (request_cancellation s reason time)"
  by (simp add: request_cancellation_def append_workflow_event_def keeps_frozen_def frozen_part_def)

lemma admit_steps_frozen:
  assumes g: "graph_ok s" and t: "admit_steps s request time = Inr t"
  shows "keeps_frozen s t"
proof -
  obtain extra ev where t: "t = append_workflow_events (reconcile_workflow_steps (grown_run s extra time)) ev time"
    by (rule admit_steps_Inr[OF g t]) blast
  show ?thesis by (simp add: t grown_run_def keeps_frozen_def frozen_part_def)
qed

lemma engine_step_frozen: "engine_step e e' \<Longrightarrow> keeps_frozen (eng_run e) (eng_run e')"
  by (induction rule: engine_step.induct)
     (simp_all add: keeps_frozen_refl settle_attempt_frozen fail_step_frozen fail_integration_frozen
       integrate_step_frozen reserve_attempt_frozen mark_running_frozen settle_run_frozen)

lemma outside_step_frozen:
  "outside_step e e' \<Longrightarrow> engine_ok e \<Longrightarrow> keeps_frozen (eng_run e) (eng_run e')"
  by (induction rule: outside_step.induct)
     (auto simp: keeps_frozen_refl request_cancellation_frozen engine_ok_def intro!: admit_steps_frozen run_ok_graph)

lemma engine_reachable_frozen:
  "engine_reachable s e \<Longrightarrow> startable_run s \<Longrightarrow> keeps_frozen s (eng_run e)"
proof (induction rule: engine_reachable.induct)
  case start
  show ?case by (simp add: engine_start_def keeps_frozen_refl)
next
  case (step e e')
  then show ?case using engine_step_frozen keeps_frozen_trans by blast
next
  case (outside e e')
  then show ?case using outside_step_frozen engine_reachable_ok keeps_frozen_trans by blast
qed

subsection \<open>How many attempts there are\<close>

lemma length_partition:
  assumes "distinct ks" and "\<forall>x\<in>set xs. f x \<in> set ks"
  shows "length xs = sum_list (map (\<lambda>k. length (filter (\<lambda>x. f x = k) xs)) ks)"
  using assms(2)
proof (induction xs)
  case (Cons x xs)
  have "sum_list (map (\<lambda>k. length (filter (\<lambda>y. f y = k) (x # xs))) ks) =
      sum_list (map (\<lambda>k. (if f x = k then 1 else 0) + length (filter (\<lambda>y. f y = k) xs)) ks)"
    by (intro arg_cong[where f=sum_list] map_cong refl) simp
  also have "\<dots> = sum_list (map (\<lambda>k. if f x = k then 1 else 0) ks) + length xs"
    using Cons by (simp add: sum_list_addf)
  also have "sum_list (map (\<lambda>k. if f x = k then 1 else 0 :: nat) ks) = 1"
    using assms(1) Cons.prems by (simp add: sum_list_distinct_conv_sum_set)
  finally show ?case by simp
qed simp

lemma run_attempts_bound:
  assumes ok: "run_ok s"
  shows "length (run_attempts s) \<le> 5 * length (plan_steps (run_plan s))"
proof -
  note g = run_ok_graph[OF ok]
  have wf: "wf_workflow_plan (run_plan s)" using g by (simp add: graph_ok_def)
  have len: "length (attempts_of s k) \<le> 5" if k: "k \<in> set (obj_keys (run_steps s))" for k
  proof -
    obtain r where r: "obj_get (run_steps s) k = Some r" using obj_key_get[OF k] by blast
    have "int (length (attempts_of s k)) \<le> retry_budget r" using run_ok_record[OF ok r] by (simp add: record_ok_def)
    moreover have "wf_step (plan_steps (run_plan s)) (record_definition r)"
      by (rule wf_workflow_planD(4)[OF wf graph_ok_record(1)[OF g r]])
    then have "retry_budget r \<le> MAX_STEP_RETRY_ATTEMPTS"
      using wf_stepD(4) by (simp add: retry_budget_def wf_step_def)
    ultimately show ?thesis by (simp add: MAX_STEP_RETRY_ATTEMPTS_def)
  qed
  have "length (run_attempts s) = sum_list (map (\<lambda>k. length (attempts_of s k)) (obj_keys (run_steps s)))"
    unfolding attempts_of_def
    by (rule length_partition[OF graph_ok_distinct[OF g]])
       (use ok in \<open>simp add: run_ok_def store_ok_def attempts_known_def\<close>)
  also have "\<dots> \<le> sum_list (map (\<lambda>k. 5) (obj_keys (run_steps s)))"
    using len by (intro sum_list_mono)
  also have "\<dots> = 5 * length (plan_steps (run_plan s))"
    by (simp add: sum_list_triv graph_ok_keys[OF g] comp_def)
  finally show ?thesis .
qed

subsection \<open>The integration head\<close>

definition commit_of :: "run_state \<Rightarrow> string \<Rightarrow> string option" where
  "commit_of s sid = (case obj_get (run_steps s) sid of None \<Rightarrow> None | Some r \<Rightarrow> record_integrated r)"

definition integrated_commits :: "run_state \<Rightarrow> string list" where
  "integrated_commits s = List.map_filter (commit_of s) (topological_step_ids (run_plan s))"

definition head_ok :: "string \<Rightarrow> run_state \<Rightarrow> bool" where
  "head_ok head s \<longleftrightarrow> run_head s = last (head # integrated_commits s)"

definition same_commits :: "run_state \<Rightarrow> run_state \<Rightarrow> bool" where
  "same_commits s t \<longleftrightarrow> commit_of t = commit_of s \<and> run_head t = run_head s \<and>
     (\<exists>rest. topological_step_ids (run_plan t) = topological_step_ids (run_plan s) @ rest \<and>
        (\<forall>i\<in>set rest. commit_of s i = None))"

lemma same_commits_head: "same_commits s t \<Longrightarrow> head_ok h t = head_ok h s"
  by (auto simp: same_commits_def head_ok_def integrated_commits_def map_filter_append map_filter_none)

lemma same_commits_same_plan:
  "commit_of t = commit_of s \<Longrightarrow> run_head t = run_head s \<Longrightarrow> run_plan t = run_plan s \<Longrightarrow> same_commits s t"
  by (simp add: same_commits_def)

lemma effort_commit: "same_effort s t \<Longrightarrow> commit_of t = commit_of s"
proof (rule ext)
  fix k assume "same_effort s t"
  then have "map_option effort (obj_get (run_steps t) k) = map_option effort (obj_get (run_steps s) k)"
    by (simp add: same_effort_def)
  then show "commit_of t k = commit_of s k"
    by (cases "obj_get (run_steps t) k"; cases "obj_get (run_steps s) k") (simp_all add: commit_of_def effort_def)
qed

lemma integrate_commits:
  assumes rok: "run_ok s" and i: "integrable s sid" and t: "integrate_step s sid a commit updated time = Inr t"
  shows "integrated_commits t = integrated_commits s @ [commit]"
proof -
  note g = run_ok_graph[OF rok]
  from t obtain r where r: "obj_get (run_steps s) sid = Some r"
    and t: "t = append_workflow_event (reconcile_workflow_steps (s\<lparr>run_steps := obj_set (run_steps s) sid
      (r\<lparr>record_integrated := Some commit\<rparr>), run_head := commit, run_updated := updated\<rparr>))
      (StepIntegrated sid (if truthy (attempt_commit a) then attempt_commit a else None) commit) time"
    by (auto simp: integrate_step_def and_then_Inr update_step_Inr)
  let ?u = "s\<lparr>run_steps := obj_set (run_steps s) sid (r\<lparr>record_integrated := Some commit\<rparr>), run_head := commit, run_updated := updated\<rparr>"
  have gu: "graph_ok ?u" by (rule set_graph_ok[OF g r, of "r\<lparr>record_integrated := Some commit\<rparr>"]) simp_all
  have "same_effort ?u t" unfolding t
    by (rule same_effort_trans[OF reconcile_effort[OF gu]])
       (rule same_effort_steps, use graph_ok_distinct[OF reconcile_graph_ok[OF gu]] in simp_all)
  then have c: "commit_of t = (commit_of s)(sid := Some commit)"
    using effort_commit by (auto simp: commit_of_def fun_eq_iff)
  obtain us vs where o: "topological_step_ids (run_plan s) = us @ sid # vs"
    using i by (auto simp: integrable_def)
  have d: "sid \<notin> set us" "sid \<notin> set vs" using graph_ok_order(1)[OF g] o by auto
  have m: "must_integrate s sid" "\<not> integrated s sid" using i by (auto simp: integrable_def integrated_def)
  have "commit_of s v = None" if v: "v \<in> set vs" for v
  proof -
    obtain v1 v2 where "vs = v1 @ v # v2" using v by (meson split_list)
    then have "topological_step_ids (run_plan s) = (us @ sid # v1) @ v # v2" by (simp add: o)
    then have "\<not> integrated s v"
      using rok m unfolding run_ok_def store_ok_def integrated_prefix_def by (metis in_set_conv_decomp)
    then show ?thesis by (auto simp: integrated_def commit_of_def split: option.split)
  qed
  moreover have "commit_of s sid = None" using m(2) by (auto simp: integrated_def commit_of_def split: option.split)
  moreover have "run_plan t = run_plan s" by (simp add: t)
  moreover have "List.map_filter (commit_of t) us = List.map_filter (commit_of s) us"
    by (rule map_filter_cong) (use d(1) in \<open>auto simp: c\<close>)
  moreover have "List.map_filter (commit_of t) vs = []"
    by (rule map_filter_none) (use d(2) calculation(1) in \<open>auto simp: c\<close>)
  ultimately show ?thesis
    by (simp add: integrated_commits_def o map_filter_append c map_filter_none)
qed

lemma mark_running_commits: "same_commits s (mark_attempt_running s aid updated)"
  by (rule same_commits_same_plan)
     (simp_all add: mark_attempt_running_def update_step_attempt_def commit_of_def fun_eq_iff)

lemma reserve_attempt_commits:
  assumes "run_ok s" and "reserve_attempt s a updated time = Inr (t, b)"
  shows "same_commits s t"
  using reserve_attempt_Inr[OF assms(2)]
proof
  assume "\<not> b \<and> t = s"
  then show ?thesis by (simp add: same_commits_same_plan)
next
  assume "b \<and> run_state s = RunRunning \<and> attempt_step a \<in> set (launchable_steps (reconcile_workflow_steps s)) \<and>
    (\<exists>r. obj_get (run_steps s) (attempt_step a) = Some r \<and>
      t = append_workflow_event (s\<lparr>run_steps := obj_set (run_steps s) (attempt_step a)
          (r\<lparr>record_state := Running, record_attempts := record_attempts r @ [attempt_id a]\<rparr>),
          run_attempts := run_attempts s @ [a], run_updated := updated\<rparr>)
        (StepLaunched (attempt_step a) (attempt_id a) (attempt_number a) (attempt_requirement a)) time)"
  then show ?thesis by (intro same_commits_same_plan) (auto simp: commit_of_def fun_eq_iff)
qed

lemma admit_steps_commits:
  assumes g: "graph_ok s" and t: "admit_steps s request time = Inr t"
  shows "same_commits s t"
proof -
  obtain extra ev where wf: "wf_workflow_plan (run_plan (grown_run s extra time))"
    and t': "t = append_workflow_events (reconcile_workflow_steps (grown_run s extra time)) ev time"
    by (rule admit_steps_Inr[OF g t]) blast
  let ?u = "grown_run s extra time"
  have steps: "plan_steps (run_plan ?u) = plan_steps (run_plan s) @ extra" by (simp add: grown_run_def)
  have u: "commit_of ?u k = commit_of s k" for k
  proof (cases "obj_get (run_steps s) k")
    case None
    then show ?thesis
      using obj_get_new_records[of extra k]
      by (auto simp: commit_of_def grown_run_def obj_get_append new_record_def split: option.split)
  qed (simp add: commit_of_def grown_run_def obj_get_append)
  have "same_effort ?u t"
    unfolding t' by (rule same_effort_trans[OF reconcile_effort[OF grown_run_graph[OF g wf]]])
       (rule same_effort_steps, use graph_ok_distinct[OF reconcile_graph_ok[OF grown_run_graph[OF g wf]]] in simp_all)
  then have c: "commit_of t = commit_of s" using effort_commit u by (auto simp: fun_eq_iff)
  obtain rest where rest: "topological_step_ids (run_plan t) = topological_step_ids (run_plan s) @ rest"
    using topological_step_ids_grow[OF wf steps] by (auto simp: prefix_def t')
  have "commit_of s i = None" if i: "i \<in> set rest" for i
  proof -
    have "distinct (topological_step_ids (run_plan t))"
      using graph_ok_order(1)[OF admit_steps_graph_ok[OF g t]] .
    then have "i \<notin> set (topological_step_ids (run_plan s))" using i by (auto simp: rest)
    then have "obj_get (run_steps s) i = None" by (simp add: graph_ok_order(2)[OF g] obj_get_None_iff)
    then show ?thesis by (simp add: commit_of_def)
  qed
  then show ?thesis using c rest by (auto simp: same_commits_def t' grown_run_def)
qed

lemma engine_step_head:
  assumes st: "engine_step e e'" and ok: "engine_ok e" and h: "head_ok head (eng_run e)"
  shows "head_ok head (eng_run e')"
proof -
  have rok: "run_ok (eng_run e)" and g: "graph_ok (eng_run e)"
    and agree: "pc_ok (eng_run e) (eng_racing e = []) (eng_aborted e) (eng_pc e)"
    using ok run_ok_graph by (simp_all add: engine_ok_def)
  have eff: "head_ok head t" if "same_effort (eng_run e) t" "run_head t = run_head (eng_run e)"
    "run_plan t = run_plan (eng_run e)" for t
    using same_commits_head[OF same_commits_same_plan[OF effort_commit[OF that(1)] that(2,3)]] h by simp
  show ?thesis
    using st
  proof cases
    case (attempt_missing sid)
    then show ?thesis using no_missing_attempt[OF rok] by blast
  next
    case (integrated sid a head' commit updated time s)
    have i: "integrable (eng_run e) sid" using agree integrated(2) by simp
    show ?thesis
      using integrate_commits[OF rok i integrated(5)] integrate_step_evolves(4)[OF g integrated(5)]
      by (simp add: integrated(1) head_ok_def)
  next
    case (integration_failed sid a head' problem updated time s)
    have "run_head s = run_head (eng_run e) \<and> run_plan s = run_plan (eng_run e)"
      using integration_failed(4) by (auto simp: fail_integration_def and_then_Inr update_step_Inr Let_def)
    with eff[OF fail_integration_effort[OF g integration_failed(4)]] show ?thesis by (simp add: integration_failed(1))
  next
    case (not_prepared sid ids message updated time s)
    have "run_head s = run_head (eng_run e) \<and> run_plan s = run_plan (eng_run e)"
      using not_prepared(3) by (auto simp: fail_step_def and_then_Inr update_step_Inr Let_def)
    with eff[OF fail_step_effort[OF g not_prepared(3)]] show ?thesis by (simp add: not_prepared(1))
  next
    case (reserved a ids updated time s)
    from same_commits_head[OF reserve_attempt_commits[OF rok reserved(3)]] h show ?thesis by (simp add: reserved(1))
  next
    case (discarded a ids updated time s)
    from same_commits_head[OF reserve_attempt_commits[OF rok discarded(3)]] h show ?thesis by (simp add: discarded(1))
  next
    case (launched a ids updated)
    from same_commits_head[OF mark_running_commits] h show ?thesis by (simp add: launched(1))
  next
    case (settled_run updated time)
    from eff[OF settle_run_effort[OF g]] show ?thesis by (simp add: settled_run(1) settle_run_fields)
  next
    case (settled_step a executed routed result ids events updated time s)
    have "run_head s = run_head (eng_run e) \<and> run_plan s = run_plan (eng_run e)"
      by (rule settle_attempt_Inr[OF settled_step(4)]) (simp add: concluded_def)
    with eff[OF settle_attempt_effort[OF g settled_step(4)]] show ?thesis by (simp add: settled_step(1))
  qed (simp_all add: h)
qed

lemma outside_step_head:
  assumes st: "outside_step e e'" and ok: "engine_ok e" and h: "head_ok head (eng_run e)"
  shows "head_ok head (eng_run e')"
  using st
proof cases
  case (admitted a request time s)
  have "graph_ok (eng_run e)" using ok run_ok_graph by (simp add: engine_ok_def)
  from same_commits_head[OF admit_steps_commits[OF this admitted(4)]] h show ?thesis by (simp add: admitted(1))
next
  case (cancel_requested reason time)
  have "same_commits (eng_run e) (eng_run e')"
    by (rule same_commits_same_plan) (simp_all add: cancel_requested(1) request_cancellation_def commit_of_def fun_eq_iff)
  from same_commits_head[OF this] h show ?thesis by simp
qed (simp add: h)

lemma engine_reachable_head:
  "engine_reachable s e \<Longrightarrow> startable_run s \<Longrightarrow> head_ok head s \<Longrightarrow> head_ok head (eng_run e)"
proof (induction rule: engine_reachable.induct)
  case start
  then show ?case by (simp add: engine_start_def)
next
  case (step e e')
  then show ?case using engine_step_head engine_reachable_ok by blast
next
  case (outside e e')
  then show ?case using outside_step_head engine_reachable_ok by blast
qed

subsection \<open>Reaching the end, and starting a step\<close>

lemma engine_step_to_done:
  assumes st: "engine_step e e'" and ok: "engine_ok e" and pc: "eng_pc e' = Done"
  shows "eng_pc e = Race \<and> eng_racing e = [] \<and>
    (\<exists>updated time. eng_run e' = settle_run (eng_run e) (eng_aborted e) updated time)"
  using st
proof cases
  case (settled_step a executed routed result ids events updated time s)
  then show ?thesis using pc ok by (auto simp: engine_ok_def)
qed (use pc in auto)

lemma launched_step_ready:
  assumes rok: "run_ok s" and t: "reserve_attempt s a updated time = Inr (t, True)"
  shows "\<exists>r. obj_get (run_steps s) (attempt_step a) = Some r \<and>
    (\<forall>d\<in>set (step_dependencies (record_definition r)). step_done s d) \<and>
    (\<forall>q\<in>set (running_records s). \<not> locks_conflict (record_definition r) (record_definition q)) \<and>
    (consumes_slot s (attempt_step a) \<longrightarrow>
       int (length (filter (consumes_slot s) (active_step_ids s))) < run_max_workers s)"
proof -
  let ?R = "reconcile_workflow_steps s" and ?i = "attempt_step a"
  note g = run_ok_graph[OF rok]
  note gR = reconcile_graph_ok[OF g]
  from reserve_attempt_Inr[OF t] obtain r where l: "?i \<in> set (launchable_steps ?R)" and r: "obj_get (run_steps s) ?i = Some r"
    by auto
  have recR: "obj_get (run_steps ?R) ?i = Some (r\<lparr>record_state := next_step_state (run_profiles s) r (run_steps ?R)\<rparr>)"
    by (rule reconcile_get[OF g r])
  have slot: "consumes_slot ?R = consumes_slot s"
    using same_work_facts(3)[OF reconcile_same_work[OF g]] by (rule ext)
  have "startable ?R ?i" by (rule launchable_steps_sound(2)[OF gR l])
  then have ready: "record_state (r\<lparr>record_state := next_step_state (run_profiles s) r (run_steps ?R)\<rparr>) = Ready"
    using recR by (simp add: startable_def)
  have "step_done s d" if d: "d \<in> set (step_dependencies (record_definition r))" for d
  proof -
    have "dependency_satisfied (run_profiles s) (run_steps ?R) d"
      using reconciled_states(1)[OF _ recR ready, of "run_profiles s" d] reconcile_reconciled[OF g] d by simp
    then obtain q where q: "obj_get (run_steps ?R) d = Some q" "record_state q = Succeeded"
      "\<not> step_requires_integration (run_profiles s) (record_definition q) \<or> record_integrated q \<noteq> None"
      by (auto simp: dependency_satisfied_def step_satisfies_dependents_def split: option.splits)
    obtain p where p: "obj_get (run_steps s) d = Some p"
      "q = p\<lparr>record_state := next_step_state (run_profiles s) p (run_steps ?R)\<rparr>"
      using reconcile_get_inv[OF g q(1)] by blast
    have "record_state p = Succeeded"
      using q(2) next_step_state_waiting[of "run_profiles s" p "run_steps ?R"] by (auto simp: p(2) waiting_def)
    then show ?thesis using p q(3) by (auto simp: step_done_def)
  qed
  moreover have "\<not> locks_conflict (record_definition r) (record_definition q)" if "q \<in> set (running_records s)" for q
    using launchable_steps_sound(3)[OF gR l running_record_reconciled[OF g that]] by (simp add: record_of_def recR)
  moreover have "consumes_slot s ?i \<Longrightarrow> int (length (filter (consumes_slot s) (active_step_ids s))) < run_max_workers s"
    using launchable_slot[OF gR l] by (simp add: slot active_step_ids_def active_attempts_def)
  ultimately show ?thesis using r by blast
qed

end
