(* ===== verification/StableSort.thy ===== *)
theory StableSort
  imports Main "HOL-Library.Multiset"
begin

text \<open>
  \<open>Array.prototype.sort\<close> with a comparator: a stable sort, where \<open>le x y\<close> says that the comparator
  gives at most zero. The comparator is an argument because \<open>localeCompare\<close> is a library
  function.
\<close>

fun insert_by :: "('a \<Rightarrow> 'a \<Rightarrow> bool) \<Rightarrow> 'a \<Rightarrow> 'a list \<Rightarrow> 'a list" where
  "insert_by le x [] = [x]"
| "insert_by le x (y # ys) = (if le x y then x # y # ys else y # insert_by le x ys)"

definition sort_by :: "('a \<Rightarrow> 'a \<Rightarrow> bool) \<Rightarrow> 'a list \<Rightarrow> 'a list" where
  "sort_by le xs = foldr (insert_by le) xs []"

lemma insert_by_mset [simp]: "mset (insert_by le x ys) = add_mset x (mset ys)"
  by (induction ys) auto

lemma sort_by_mset [simp]: "mset (sort_by le xs) = mset xs"
  by (induction xs) (simp_all add: sort_by_def)

lemma sort_by_set [simp]: "set (sort_by le xs) = set xs"
  by (metis set_mset_mset sort_by_mset)

lemma sort_by_length [simp]: "length (sort_by le xs) = length xs"
  by (metis size_mset sort_by_mset)

lemma sort_by_distinct [simp]: "distinct (sort_by le xs) = distinct xs"
  by (metis mset_eq_imp_distinct_iff sort_by_mset)

text \<open>A comparator that orders totally, and what the laws give.\<close>

locale comparison =
  fixes le :: "'a \<Rightarrow> 'a \<Rightarrow> bool"
  assumes total: "le x y \<or> le y x"
    and trans: "le x y \<Longrightarrow> le y z \<Longrightarrow> le x z"
begin

lemma insert_by_set: "set (insert_by le x ys) = insert x (set ys)"
  by (induction ys) auto

lemma insert_by_sorted: "sorted_wrt le ys \<Longrightarrow> sorted_wrt le (insert_by le x ys)"
proof (induction ys)
  case (Cons y ys)
  then show ?case using total[of x y] trans[of x y] by (auto simp: insert_by_set)
qed simp

lemma sort_by_sorted: "sorted_wrt le (sort_by le xs)"
proof (induction xs)
  case (Cons x xs)
  have "sort_by le (x # xs) = insert_by le x (sort_by le xs)" by (simp add: sort_by_def)
  then show ?case using insert_by_sorted[OF Cons.IH] by simp
qed (simp add: sort_by_def)

text \<open>What is up-closed in the order stands in front.\<close>

lemma sorted_front:
  assumes "sorted_wrt le xs" and "\<And>x y. le x y \<Longrightarrow> P y \<Longrightarrow> P x"
  shows "xs = filter P xs @ filter (\<lambda>x. \<not> P x) xs"
  using assms(1)
proof (induction xs)
  case (Cons x xs)
  show ?case
  proof (cases "P x")
    case False
    then have "filter P (x # xs) = []" using Cons.prems assms(2) by (auto simp: filter_empty_conv)
    then show ?thesis by (metis append_Nil filter_True filter_empty_conv)
  qed (use Cons in simp)
qed simp

end

end
