(* ===== verification/ReviewReport.thy ===== *)
theory ReviewReport
  imports Artifacts Capabilities StableSort
begin

text \<open>
  \<open>src/src/review/review-report.ts\<close> and \<open>review-policy.ts\<close>: reading the report of a reviewer out of its
  output, naming its findings, and ordering findings for repair. \<open>JSON.parse\<close> (which answers with a
  value or the message of a syntax error), the text of numbers and \<open>localeCompare\<close> are parameters.
\<close>

datatype review_category = Correctness | Security | Maintainability | Tests | Documentation

definition REVIEW_CATEGORIES :: "review_category list" where
  "REVIEW_CATEGORIES = [Correctness, Security, Maintainability, Tests, Documentation]"

fun category_text :: "review_category \<Rightarrow> string" where
  "category_text Correctness = ''correctness''"
| "category_text Security = ''security''"
| "category_text Maintainability = ''maintainability''"
| "category_text Tests = ''tests''"
| "category_text Documentation = ''documentation''"

datatype review_severity = Critical | High | Medium | Low

datatype review_confidence = HighConfidence | MediumConfidence | LowConfidence

datatype finding_status = RepairRequired | Deferred | Repaired | Unresolved

definition severity_of :: "json \<Rightarrow> review_severity option" where
  "severity_of v = (if v = JString ''critical'' then Some Critical else if v = JString ''high'' then Some High
     else if v = JString ''medium'' then Some Medium else if v = JString ''low'' then Some Low else None)"

definition confidence_of :: "json \<Rightarrow> review_confidence option" where
  "confidence_of v = (if v = JString ''high'' then Some HighConfidence
     else if v = JString ''medium'' then Some MediumConfidence
     else if v = JString ''low'' then Some LowConfidence else None)"

record report_finding =
  finding_severity :: review_severity
  finding_confidence :: review_confidence
  finding_title :: string
  finding_description :: string
  finding_paths :: "string list"
  finding_recommendation :: string

record review_finding = report_finding +
  finding_id :: string
  finding_category :: review_category
  finding_status :: finding_status
  finding_repair :: "string option"

record review_report =
  report_summary :: string
  report_findings :: "report_finding list"

definition REVIEW_REPORT_START :: string where "REVIEW_REPORT_START = ''BEGIN_PI_BUILD_REVIEW_REPORT''"
definition REVIEW_REPORT_END :: string where "REVIEW_REPORT_END = ''END_PI_BUILD_REVIEW_REPORT''"
definition MAX_REPORT_BYTES :: nat where "MAX_REPORT_BYTES = 256 * 1024"
definition MAX_FINDINGS :: nat where "MAX_FINDINGS = 50"

subsection \<open>Fields\<close>

definition required_string :: "json \<Rightarrow> string \<Rightarrow> nat \<Rightarrow> string result" where
  "required_string v path maximum = (case v of
       JString s \<Rightarrow>
         if trim s = [] then Inl (Error (path @ '' must be a non-empty string''))
         else if maximum < length s then Inl (Error (path @ '' exceeds '' @ js_nat maximum @ '' characters''))
         else Inr (trim s)
     | _ \<Rightarrow> Inl (Error (path @ '' must be a non-empty string'')))"

definition drive_path :: "string \<Rightarrow> bool" where
  "drive_path s = (case s of
       a # b # c # _ \<Rightarrow> (lower_letter a \<or> upper_letter a) \<and> b = CHR '':'' \<and> c = CHR ''/''
     | _ \<Rightarrow> False)"

definition unsafe_candidate :: "string \<Rightarrow> bool" where
  "unsafe_candidate s \<longleftrightarrow> starts_with s ''/'' \<or> drive_path s \<or> has_substring s ''//'' \<or> s = ''.'' \<or> s = ''..'' \<or>
     starts_with s ''../'' \<or> has_substring s ''/../'' \<or> ends_with s ''/..'' \<or> has_substring s ''/./'' \<or>
     ends_with s ''/.'' \<or> s = ''.git'' \<or> starts_with s ''.git/'' \<or> has_substring s [CHR 0x00]"

definition safe_path :: "json \<Rightarrow> string \<Rightarrow> string result" where
  "safe_path v path =
     and_then (required_string v path 1024) (\<lambda>s.
       let candidate = map (\<lambda>c. if c = CHR 0x5C then CHR ''/'' else c) s in
       if unsafe_candidate candidate then Inl (Error (path @ '' must be a safe repository-relative path''))
       else Inr candidate)"

subsection \<open>The marked payload\<close>

fun index_of :: "string \<Rightarrow> string \<Rightarrow> nat option" where
  "index_of p [] = (if p = [] then Some 0 else None)"
| "index_of p (c # s) = (if prefix p (c # s) then Some 0 else map_option Suc (index_of p s))"

definition extract_payload :: "string \<Rightarrow> string result" where
  "extract_payload out =
     and_then (require (byte_length out \<le> MAX_REPORT_BYTES)
       (Error (''Review report exceeds '' @ js_nat MAX_REPORT_BYTES @ '' bytes''))) (\<lambda>_.
     case (index_of REVIEW_REPORT_START out, index_of REVIEW_REPORT_END out) of
       (Some start, Some stop) \<Rightarrow>
         if stop \<le> start \<or> has_substring (drop (Suc start) out) REVIEW_REPORT_START \<or>
            has_substring (drop (Suc stop) out) REVIEW_REPORT_END then
           Inl (Error ''Review output must contain exactly one report marker pair'')
         else if trim (take start out) \<noteq> [] \<or> trim (drop (stop + length REVIEW_REPORT_END) out) \<noteq> [] then
           Inl (Error ''Review output must contain only the marked report payload'')
         else
           let from_payload = start + length REVIEW_REPORT_START
           in Inr (trim (take (stop - from_payload) (drop from_payload out)))
     | _ \<Rightarrow> Inl (Error ''Review output must contain exactly one report marker pair''))"

subsection \<open>The report\<close>

definition lower_case :: "char \<Rightarrow> char" where
  "lower_case c = (if upper_letter c \<or> in_range 192 222 c \<and> c \<noteq> CHR 0xD7 then char_of (of_char c + 32 :: nat) else c)"

definition fingerprint :: "report_finding \<Rightarrow> string" where
  "fingerprint f = map lower_case (finding_title f) @ [CHR 0x00] @ join [CHR 0x00] (finding_paths f)"

definition read_paths :: "(string \<Rightarrow> string \<Rightarrow> bool) \<Rightarrow> json list \<Rightarrow> string \<Rightarrow> string list result" where
  "read_paths locale_le items path =
     and_then (each_result (\<lambda>(k, item). safe_path item (at_index path k)) (enumerate 0 items)) (\<lambda>paths.
       Inr (sort_by locale_le (unique paths)))"

definition read_finding :: "(string \<Rightarrow> string \<Rightarrow> bool) \<Rightarrow> json \<Rightarrow> string \<Rightarrow> report_finding result" where
  "read_finding locale_le v path =
     and_then (require (is_record v) (Error (path @ '' must be an object''))) (\<lambda>_.
     let ob = fields_of v in
     case severity_of (get_prop ob ''severity'') of
       None \<Rightarrow> Inl (Error (path @ ''.severity is invalid''))
     | Some severity \<Rightarrow> (case confidence_of (get_prop ob ''confidence'') of
         None \<Rightarrow> Inl (Error (path @ ''.confidence is invalid''))
       | Some confidence \<Rightarrow> (case get_prop ob ''paths'' of
           JArray (x # xs) \<Rightarrow>
             and_then (read_paths locale_le (x # xs) (at_field path ''paths'')) (\<lambda>paths.
             and_then (required_string (get_prop ob ''title'') (at_field path ''title'') 512) (\<lambda>title.
             and_then (required_string (get_prop ob ''description'') (at_field path ''description'') 8192) (\<lambda>description.
             and_then (required_string (get_prop ob ''recommendation'') (at_field path ''recommendation'') 4096) (\<lambda>recommendation.
             Inr \<lparr>finding_severity = severity, finding_confidence = confidence, finding_title = title,
                  finding_description = description, finding_paths = paths,
                  finding_recommendation = recommendation\<rparr>))))
         | _ \<Rightarrow> Inl (Error (path @ ''.paths must be a non-empty array'')))))"

fun read_findings ::
    "(string \<Rightarrow> string \<Rightarrow> bool) \<Rightarrow> nat \<Rightarrow> string list \<Rightarrow> json list \<Rightarrow> report_finding list result" where
  "read_findings locale_le index seen [] = Inr []"
| "read_findings locale_le index seen (v # vs) =
     (let path = at_index ''report.findings'' index in
      and_then (read_finding locale_le v path) (\<lambda>f.
      if fingerprint f \<in> set seen then Inl (Error (path @ '' duplicates another finding''))
      else and_then (read_findings locale_le (Suc index) (seen @ [fingerprint f]) vs) (\<lambda>fs. Inr (f # fs))))"

definition read_report ::
    "(rat \<Rightarrow> string) \<Rightarrow> (string \<Rightarrow> string \<Rightarrow> bool) \<Rightarrow> review_category \<Rightarrow> string \<Rightarrow> json \<Rightarrow> review_report result" where
  "read_report nt locale_le category base v =
     and_then (require (is_record v) (Error ''Review report must be an object'')) (\<lambda>_.
     let ob = fields_of v in
     and_then (require (get_prop ob ''version'' = JNum 1)
       (Error (''Unsupported review report version: '' @ js_string nt (get_prop ob ''version'')))) (\<lambda>_.
     and_then (require (get_prop ob ''category'' = JString (category_text category))
       (Error (''Review category mismatch: expected '' @ category_text category @ '', received '' @
         js_string nt (get_prop ob ''category'')))) (\<lambda>_.
     and_then (require (get_prop ob ''baseCommit'' = JString base)
       (Error (''Review base mismatch: expected '' @ base @ '', received '' @
         js_string nt (get_prop ob ''baseCommit'')))) (\<lambda>_.
     and_then (required_string (get_prop ob ''summary'') ''report.summary'' 8192) (\<lambda>summary.
     let too_many = Inl (Error (''report.findings must contain at most '' @ js_nat MAX_FINDINGS @ '' items''))
     in case get_prop ob ''findings'' of
       JArray items \<Rightarrow>
         if MAX_FINDINGS < length items then too_many
         else and_then (read_findings locale_le 0 [] items) (\<lambda>fs.
           Inr \<lparr>report_summary = summary, report_findings = fs\<rparr>)
     | _ \<Rightarrow> too_many)))))"

definition parse_review_report ::
    "(string \<Rightarrow> string + json) \<Rightarrow> (rat \<Rightarrow> string) \<Rightarrow> (string \<Rightarrow> string \<Rightarrow> bool) \<Rightarrow> string option \<Rightarrow> review_category \<Rightarrow>
     string \<Rightarrow> review_report result" where
  "parse_review_report parse nt locale_le out category base = (case out of
       None \<Rightarrow> Inl (Error ''Reviewer returned no final output'')
     | Some answer \<Rightarrow>
         and_then (extract_payload answer) (\<lambda>payload.
         case parse payload of
           Inl m \<Rightarrow> Inl (Error (''Reviewer returned invalid JSON: '' @ m))
         | Inr v \<Rightarrow> read_report nt locale_le category base v))"

subsection \<open>Naming the findings\<close>

definition pad_start :: "string \<Rightarrow> nat \<Rightarrow> char \<Rightarrow> string" where
  "pad_start s width c = replicate (width - length s) c @ s"

definition review_finding_id :: "nat \<Rightarrow> review_category \<Rightarrow> nat \<Rightarrow> string" where
  "review_finding_id review_round category index = ''review-'' @ js_nat review_round @ ''-'' @ category_text category @ ''-'' @
     pad_start (js_nat (Suc index)) 3 (CHR ''0'')"

definition materialize_review_findings :: "review_report \<Rightarrow> review_category \<Rightarrow> nat \<Rightarrow> review_finding list" where
  "materialize_review_findings report category review_round = map_indexed (\<lambda>index f.
     \<lparr>finding_severity = finding_severity f, finding_confidence = finding_confidence f, finding_title = finding_title f,
      finding_description = finding_description f, finding_paths = finding_paths f,
      finding_recommendation = finding_recommendation f, finding_id = review_finding_id review_round category index,
      finding_category = category, finding_status = Deferred, finding_repair = None\<rparr>) (report_findings report)"

subsection \<open>Which findings are repaired, and in which order\<close>

definition requires_automatic_repair :: "review_finding \<Rightarrow> bool" where
  "requires_automatic_repair f \<longleftrightarrow> finding_severity f = Critical \<or> finding_severity f = High \<or>
     finding_severity f = Medium \<and> finding_confidence f = HighConfidence"

fun SEVERITY_ORDER :: "review_severity \<Rightarrow> nat" where
  "SEVERITY_ORDER Critical = 0" | "SEVERITY_ORDER High = 1" | "SEVERITY_ORDER Medium = 2" | "SEVERITY_ORDER Low = 3"

fun CONFIDENCE_ORDER :: "review_confidence \<Rightarrow> nat" where
  "CONFIDENCE_ORDER HighConfidence = 0" | "CONFIDENCE_ORDER MediumConfidence = 1" | "CONFIDENCE_ORDER LowConfidence = 2"

fun CATEGORY_ORDER :: "review_category \<Rightarrow> nat" where
  "CATEGORY_ORDER Correctness = 0" | "CATEGORY_ORDER Security = 1" | "CATEGORY_ORDER Maintainability = 2"
| "CATEGORY_ORDER Tests = 3" | "CATEGORY_ORDER Documentation = 4"

definition priority_le :: "(string \<Rightarrow> string \<Rightarrow> bool) \<Rightarrow> review_finding \<Rightarrow> review_finding \<Rightarrow> bool" where
  "priority_le locale_le x y =
     (let s = SEVERITY_ORDER (finding_severity x); t = SEVERITY_ORDER (finding_severity y);
          c = CONFIDENCE_ORDER (finding_confidence x); d = CONFIDENCE_ORDER (finding_confidence y);
          k = CATEGORY_ORDER (finding_category x); l = CATEGORY_ORDER (finding_category y)
      in if s \<noteq> t then s < t else if c \<noteq> d then c < d else if k \<noteq> l then k < l
         else locale_le (finding_id x) (finding_id y))"

definition classified_finding :: "review_finding \<Rightarrow> review_finding" where
  "classified_finding f = f\<lparr>finding_status := (if requires_automatic_repair f then RepairRequired else Deferred)\<rparr>"

definition prioritize_findings ::
    "(string \<Rightarrow> string \<Rightarrow> bool) \<Rightarrow> review_finding list \<Rightarrow> review_finding list result" where
  "prioritize_findings locale_le fs =
     (let prioritized = sort_by (priority_le locale_le) (map classified_finding fs) in
      if 100 < length (filter (\<lambda>f. finding_status f = RepairRequired) prioritized) then
        Inl (Error ''More than 100 findings require repair; refusing unsafe automatic repair'')
      else Inr prioritized)"

end
