(* ===== verification/TextOrder.thy ===== *)
theory TextOrder
  imports Envelope StableSort
begin

text \<open>The order of the default \<open>sort()\<close> on strings, by code units, as a comparison.\<close>

definition code_unit_le :: "string \<Rightarrow> string \<Rightarrow> bool" where
  "code_unit_le x y \<longleftrightarrow> \<not> nat_list_less (key_order y) (key_order x)"

lemma nat_list_less_asym: "nat_list_less xs ys \<Longrightarrow> \<not> nat_list_less ys xs"
  by (induction xs ys rule: nat_list_less.induct) auto

lemma nat_list_less_co_trans:
  "nat_list_less xs zs \<Longrightarrow> nat_list_less xs ys \<or> nat_list_less ys zs"
proof (induction xs ys arbitrary: zs rule: nat_list_less.induct)
  case (3 x xs y ys)
  then show ?case by (cases zs) auto
next
  case (1 xs)
  then show ?case by (cases zs; cases xs) auto
next
  case (2 y ys)
  then show ?case by simp
qed

interpretation code_units: comparison code_unit_le
  using nat_list_less_asym nat_list_less_co_trans by unfold_locales (unfold code_unit_le_def, blast+)

definition sort_strings :: "string list \<Rightarrow> string list" where
  "sort_strings = sort_by code_unit_le"

end
