(* ===== verification/ReviewFacts.thy ===== *)
theory ReviewFacts
  imports ReviewReport TextOrder
begin

text \<open>
  What an accepted report satisfies, that materialized findings have distinct ids, and that the
  findings to repair come first and in order of urgency.
\<close>

subsection \<open>Paths stay inside the repository\<close>

lemma split_on_head:
  "split_on c s = w # ws \<Longrightarrow> ws = [] \<and> s = w \<or> (\<exists>t. s = w @ c # t \<and> ws = split_on c t)"
proof (induction s arbitrary: w ws)
  case (Cons y s)
  show ?case
  proof (cases "y = c")
    case False
    obtain v vs where v: "split_on c s = v # vs" using split_on_nonempty[of c s] by (cases "split_on c s") auto
    then show ?thesis using Cons.IH[OF v] Cons.prems False by auto
  qed (use Cons.prems in auto)
qed simp

lemma split_on_occurrence:
  "x \<in> set (split_on c s) \<Longrightarrow> \<exists>u v. s = u @ x @ v \<and> (u = [] \<or> last u = c) \<and> (v = [] \<or> hd v = c)"
proof (induction s rule: length_induct)
  case (1 s)
  obtain w ws where w: "split_on c s = w # ws" using split_on_nonempty[of c s] by (cases "split_on c s") auto
  from split_on_head[OF w] show ?case
  proof (elim disjE exE conjE)
    assume "ws = []" "s = w"
    then show ?thesis using 1 w by (intro exI[of _ "[]"]) simp
  next
    fix t assume t: "s = w @ c # t" "ws = split_on c t"
    show ?thesis
    proof (cases "x = w")
      case True
      then show ?thesis using t(1) by (intro exI[of _ "[]"] exI[of _ "c # t"]) simp
    next
      case False
      then have "x \<in> set (split_on c t)" using 1(2) w t(2) by simp
      moreover have "length t < length s" using t(1) by simp
      ultimately obtain u v where u: "t = u @ x @ v" "u = [] \<or> last u = c" "v = [] \<or> hd v = c"
        using 1(1) by blast
      then have "last (w @ c # u) = c" by (cases u) auto
      then show ?thesis using u t(1) by (intro exI[of _ "w @ c # u"] exI[of _ v]) simp
    qed
  qed
qed

definition inside_repository :: "string \<Rightarrow> bool" where
  "inside_repository s \<longleftrightarrow> s \<noteq> [] \<and> hd s \<noteq> CHR ''/'' \<and> ''..'' \<notin> set (split_on (CHR ''/'') s) \<and>
     CHR 0x5C \<notin> set s \<and> CHR 0x00 \<notin> set s \<and> \<not> starts_with s ''.git/'' \<and> s \<noteq> ''.git''"

lemma has_character: "has_substring s [c] \<longleftrightarrow> c \<in> set s"
  by (auto simp: has_substring_def sublist_def) (metis in_set_conv_decomp)

lemma safe_path_inside:
  assumes "safe_path v path = Inr s"
  shows "inside_repository s"
proof -
  from assms obtain t where t: "required_string v path 1024 = Inr t" "s = map (\<lambda>c. if c = CHR 0x5C then CHR ''/'' else c) t"
    and safe: "\<not> unsafe_candidate s" by (auto simp: safe_path_def and_then_Inr Let_def split: if_splits)
  have ne: "s \<noteq> []" using t by (auto simp: required_string_def split: json.splits if_splits)
  have "''..'' \<notin> set (split_on (CHR ''/'') s)"
  proof
    assume "''..'' \<in> set (split_on (CHR ''/'') s)"
    then obtain u v where u: "s = u @ ''..'' @ v" "u = [] \<or> last u = CHR ''/''" "v = [] \<or> hd v = CHR ''/''"
      using split_on_occurrence by blast
    have uc: "u = [] \<or> (\<exists>t. u = t @ ''/'')" using u(2) by (metis append_butlast_last_id)
    have vc: "v = [] \<or> (\<exists>t. v = ''/'' @ t)" using u(3) by (cases v) auto
    from uc vc show False
    proof (elim disjE exE)
      fix t t' assume "u = t @ ''/''" "v = ''/'' @ t'"
      then have "s = t @ ''/../'' @ t'" by (simp add: u(1))
      then have "has_substring s ''/../''" unfolding has_substring_def sublist_def by blast
      then show False using safe by (simp add: unsafe_candidate_def)
    next
      fix t assume "u = t @ ''/''" "v = []"
      then have "ends_with s ''/..''" by (simp add: u(1) ends_with_def suffix_def)
      then show False using safe by (simp add: unsafe_candidate_def)
    qed (use safe u(1) in \<open>auto simp: unsafe_candidate_def starts_with_def\<close>)
  qed
  then show ?thesis
    using safe ne t(2) by (auto simp: inside_repository_def unsafe_candidate_def starts_with_def has_character
        hd_conv_nth prefix_def neq_Nil_conv)
qed

subsection \<open>Accepted reports\<close>

lemma required_string_sound: "required_string v path n = Inr s \<Longrightarrow> s \<noteq> [] \<and> trimmed s"
  by (auto simp: required_string_def split: json.splits if_splits)

definition wf_report_finding :: "report_finding \<Rightarrow> bool" where
  "wf_report_finding f \<longleftrightarrow> finding_paths f \<noteq> [] \<and> distinct (finding_paths f) \<and>
     list_all inside_repository (finding_paths f) \<and> finding_title f \<noteq> [] \<and> finding_description f \<noteq> [] \<and>
     finding_recommendation f \<noteq> []"

definition wf_report :: "review_report \<Rightarrow> bool" where
  "wf_report r \<longleftrightarrow> report_summary r \<noteq> [] \<and> length (report_findings r) \<le> MAX_FINDINGS \<and>
     list_all wf_report_finding (report_findings r) \<and> distinct (map fingerprint (report_findings r))"

lemma each_indexed_sound:
  assumes "\<And>k x y. f (k, x) = Inr y \<Longrightarrow> P y"
  shows "each_result f (enumerate n xs) = Inr ys \<Longrightarrow> length ys = length xs \<and> list_all P ys"
  using assms by (induction xs arbitrary: n ys) (auto simp: and_then_Inr)

lemma read_paths_sound:
  assumes "read_paths le (x # xs) path = Inr ps"
  shows "ps \<noteq> [] \<and> distinct ps \<and> list_all inside_repository ps"
proof -
  from assms obtain qs where q: "each_result (\<lambda>(k, item). safe_path item (at_index path k)) (enumerate 0 (x # xs)) = Inr qs"
    and ps: "ps = sort_by le (unique qs)" unfolding read_paths_def and_then_Inr by blast
  have "length qs = length (x # xs) \<and> list_all inside_repository qs"
    by (rule each_indexed_sound[OF _ q]) (simp add: safe_path_inside)
  moreover from this have "qs \<noteq> []" by (cases qs) auto
  moreover have "set ps = set qs" "distinct ps" by (simp_all add: ps)
  ultimately show ?thesis by (cases ps) (simp_all add: list_all_iff)
qed

lemma read_finding_sound:
  assumes "read_finding le v path = Inr f"
  shows "wf_report_finding f"
proof -
  from assms obtain x xs where p: "read_paths le (x # xs) (at_field path ''paths'') = Inr (finding_paths f)"
    and t: "required_string (get_prop (fields_of v) ''title'') (at_field path ''title'') 512 = Inr (finding_title f)"
      "required_string (get_prop (fields_of v) ''description'') (at_field path ''description'') 8192 = Inr (finding_description f)"
      "required_string (get_prop (fields_of v) ''recommendation'') (at_field path ''recommendation'') 4096 = Inr (finding_recommendation f)"
    unfolding read_finding_def Let_def and_then_Inr
    by (auto simp: and_then_Inr split: option.splits json.splits list.splits)
  from t have "finding_title f \<noteq> []" "finding_description f \<noteq> []" "finding_recommendation f \<noteq> []"
    using required_string_sound by blast+
  then show ?thesis using read_paths_sound[OF p] by (simp add: wf_report_finding_def)
qed

lemma read_findings_sound:
  "read_findings le n seen vs = Inr fs \<Longrightarrow> length fs = length vs \<and> list_all wf_report_finding fs \<and>
     distinct (map fingerprint fs) \<and> set seen \<inter> fingerprint ` set fs = {}"
proof (induction vs arbitrary: n seen fs)
  case (Cons v vs)
  from Cons.prems obtain f gs where f: "read_finding le v (at_index ''report.findings'' n) = Inr f"
    "fingerprint f \<notin> set seen" "read_findings le (Suc n) (seen @ [fingerprint f]) vs = Inr gs" "fs = f # gs"
    by (auto simp: Let_def and_then_Inr split: if_splits)
  with Cons.IH[OF f(3)] read_finding_sound[OF f(1)] show ?case by auto
qed simp

lemma read_report_sound:
  assumes "read_report nt le category base v = Inr r"
  shows "wf_report r \<and> get_prop (fields_of v) ''category'' = JString (category_text category) \<and>
    get_prop (fields_of v) ''baseCommit'' = JString base"
proof -
  from assms obtain summary items where
    t: "get_prop (fields_of v) ''category'' = JString (category_text category)"
      "get_prop (fields_of v) ''baseCommit'' = JString base"
    and s: "required_string (get_prop (fields_of v) ''summary'') ''report.summary'' 8192 = Inr summary"
      "\<not> MAX_FINDINGS < length items" "read_findings le 0 [] items = Inr (report_findings r)" "report_summary r = summary"
    by (cases "get_prop (fields_of v) ''findings''") (auto simp: read_report_def and_then_Inr Let_def split: if_splits)
  show ?thesis
    using read_findings_sound[OF s(3)] required_string_sound[OF s(1)] s(2,4) t by (simp add: wf_report_def)
qed

lemma parse_review_report_sound:
  assumes "parse_review_report parse nt le out category base = Inr r"
  shows "wf_report r \<and> (\<exists>answer payload v. out = Some answer \<and> extract_payload answer = Inr payload \<and>
    parse payload = Inr v \<and> read_report nt le category base v = Inr r)"
proof -
  from assms obtain answer payload where a: "out = Some answer" "extract_payload answer = Inr payload"
    and p: "(case parse payload of Inl m \<Rightarrow> Inl (Error (''Reviewer returned invalid JSON: '' @ m))
      | Inr v \<Rightarrow> read_report nt le category base v) = Inr r"
    by (cases out) (auto simp: parse_review_report_def and_then_Inr)
  from p obtain v where v: "parse payload = Inr v" "read_report nt le category base v = Inr r"
    by (cases "parse payload") auto
  from a v read_report_sound[OF v(2)] show ?thesis by blast
qed

subsection \<open>Ids\<close>

lemma js_nat_inj: "js_nat m = js_nat n \<longleftrightarrow> m = n"
  by (metis js_nat_digits)

lemma digits_value_zeros: "digits_value (replicate k (CHR ''0'') @ s) = digits_value s"
  by (induction k) (simp_all add: digits_value_def)

lemma review_finding_id_inj:
  "review_finding_id rd c m = review_finding_id rd c n \<longleftrightarrow> m = n"
proof
  assume "review_finding_id rd c m = review_finding_id rd c n"
  then have "pad_start (js_nat (Suc m)) 3 (CHR ''0'') = pad_start (js_nat (Suc n)) 3 (CHR ''0'')"
    by (simp add: review_finding_id_def)
  then have "digits_value (js_nat (Suc m)) = digits_value (js_nat (Suc n))"
    by (metis pad_start_def digits_value_zeros)
  then show "m = n" using js_nat_digits by simp
qed simp

lemma materialize_distinct_ids: "distinct (map finding_id (materialize_review_findings report c rd))"
proof -
  have "map finding_id (materialize_review_findings report c rd) =
      map (review_finding_id rd c) [0..<length (report_findings report)]"
    by (rule nth_equalityI) (simp_all add: materialize_review_findings_def map_map_indexed)
  then show ?thesis by (simp add: distinct_map inj_on_def review_finding_id_inj)
qed

subsection \<open>Priorities\<close>

locale text_comparison = comparison le for le :: "string \<Rightarrow> string \<Rightarrow> bool"

sublocale text_comparison \<subseteq> priority: comparison "priority_le le"
proof
  show "priority_le le x y \<or> priority_le le y x" for x y
    using total by (auto simp: priority_le_def Let_def)
  show "priority_le le x z" if "priority_le le x y" "priority_le le y z" for x y z
    using that trans by (auto simp: priority_le_def Let_def split: if_splits)
qed

context text_comparison begin

lemma repair_up_closed:
  assumes "priority_le le x y" and "requires_automatic_repair y"
  shows "requires_automatic_repair x"
  using assms
  by (cases "finding_severity x"; cases "finding_severity y"; cases "finding_confidence x"; cases "finding_confidence y")
     (auto simp: priority_le_def Let_def requires_automatic_repair_def)

lemma prioritize_sound:
  assumes "prioritize_findings le fs = Inr ps"
  shows "mset ps = image_mset classified_finding (mset fs)" "sorted_wrt (priority_le le) ps"
    "ps = filter requires_automatic_repair ps @ filter (\<lambda>f. \<not> requires_automatic_repair f) ps"
    "length (filter requires_automatic_repair ps) \<le> 100"
proof -
  have ps: "ps = sort_by (priority_le le) (map classified_finding fs)"
    "length (filter (\<lambda>f. finding_status f = RepairRequired) ps) \<le> 100"
    using assms by (auto simp: prioritize_findings_def Let_def split: if_splits)
  show "mset ps = image_mset classified_finding (mset fs)" by (simp add: ps(1))
  show s: "sorted_wrt (priority_le le) ps" unfolding ps(1) by (rule priority.sort_by_sorted)
  show "ps = filter requires_automatic_repair ps @ filter (\<lambda>f. \<not> requires_automatic_repair f) ps"
    using priority.sorted_front[OF s, of requires_automatic_repair] repair_up_closed by blast
  have "requires_automatic_repair (classified_finding f) = requires_automatic_repair f"
    "(finding_status (classified_finding f) = RepairRequired) = requires_automatic_repair f" for f
    by (simp_all add: classified_finding_def requires_automatic_repair_def)
  then have "filter (\<lambda>f. finding_status f = RepairRequired) ps = filter requires_automatic_repair ps"
    by (intro filter_cong) (auto simp: ps(1))
  then show "length (filter requires_automatic_repair ps) \<le> 100" using ps(2) by simp
qed

end

text \<open>With code-unit order as the order of ids.\<close>

interpretation code_unit_text: text_comparison code_unit_le
  by unfold_locales

end
