(* ===== verification/Validation.thy ===== *)
theory Validation
  imports Scheduler PlanTranslation
begin

text \<open>
  \<open>src/src/validation\<close>: running the checks that justify a commit. \<open>command-runner.ts\<close> starts one command
  and collects its result; the process it watches is the sequence of events it reports.
  \<open>task-validator.ts\<close> checks the worktree of a task around its commands and \<open>final-validator.ts\<close> the
  integrated result; what git reports at each inspection is a parameter indexed by the inspection.
\<close>

subsection \<open>The command that is started\<close>

record validation_policy =
  validation_sandbox_mode :: validation_sandbox
  validation_blocked_network :: bool
  validation_executable :: "string option"

definition policy_boundary :: "validation_policy option \<Rightarrow> execution_boundary" where
  "policy_boundary p = (case p of
       None \<Rightarrow> \<lparr>boundary_sandbox = NoSandbox, boundary_blocked_network = False\<rparr>
     | Some q \<Rightarrow> \<lparr>boundary_sandbox = validation_sandbox_mode q,
         boundary_blocked_network = validation_blocked_network q\<rparr>)"

text \<open>The search path is split at the platform's \<open>delimiter\<close>.\<close>

definition build_validation_invocation ::
    "char \<Rightarrow> string option \<Rightarrow> validation_command \<Rightarrow> string \<Rightarrow> validation_policy option \<Rightarrow> string option \<Rightarrow>
     validation_command result" where
  "build_validation_invocation delimiter env_path command runtime_dir p profile_path =
     (let plain = Inr command in
      case p of
        None \<Rightarrow> plain
      | Some q \<Rightarrow>
          if validation_sandbox_mode q = NoSandbox then plain
          else if \<not> truthy (validation_executable q) then
            Inl (Error ''Nono validation sandbox has no configured executable'')
          else
            let search = (case env_path of None \<Rightarrow> [] | Some s \<Rightarrow> s);
                uses_nix = list_ex (\<lambda>entry. starts_with entry ''/nix/'') (split_on delimiter search);
                nix = (if starts_with (command_name command) ''/nix/store/'' \<or> uses_nix then [''--read'', ''/nix/store''] else []);
                profile = (case profile_path of None \<Rightarrow> runtime_dir @ ''/nono-profile.json'' | Some s \<Rightarrow> s)
            in Inr \<lparr>command_name = the (validation_executable q),
                 command_args = [''run'', ''--profile'', profile, ''--allow-cwd'', ''--allow'', runtime_dir] @ nix @
                   [''--block-net'', ''--'', command_name command] @ command_args command\<rparr>)"

text \<open>Keeping the last bytes of an output.\<close>

definition append_tail :: "nat \<Rightarrow> string \<Rightarrow> string \<Rightarrow> string" where
  "append_tail maximum current chunk =
     (if maximum \<le> length chunk then drop (length chunk - maximum) chunk
      else
        let combined = current @ chunk in
        if length combined \<le> maximum then combined else drop (length combined - maximum) combined)"

definition tail_bytes :: "nat \<Rightarrow> string \<Rightarrow> string" where
  "tail_bytes n s = drop (length s - n) s"

lemma append_tail_tail: "append_tail n (tail_bytes n s) chunk = tail_bytes n (s @ chunk)"
proof (cases "n \<le> length chunk")
  case True
  then show ?thesis by (simp add: append_tail_def tail_bytes_def)
next
  case False
  show ?thesis
  proof (cases "length s \<le> n")
    case True
    then show ?thesis using False by (auto simp: append_tail_def tail_bytes_def Let_def)
  next
    case big: False
    let ?t = "drop (length s - n) s"
    have "length (?t @ chunk) - n = length chunk" using big by simp
    moreover have "length s + length chunk - n = length chunk + (length s - n)" using big by simp
    ultimately show ?thesis
      using False big by (auto simp: append_tail_def tail_bytes_def Let_def)
  qed
qed

lemma append_tails: "foldl (append_tail n) [] chunks = tail_bytes n (concat chunks)"
proof -
  have "foldl (append_tail n) (tail_bytes n s) chunks = tail_bytes n (s @ concat chunks)" for s
    by (induction chunks arbitrary: s) (simp_all add: append_tail_tail)
  from this[of "[]"] show ?thesis by (simp add: tail_bytes_def)
qed

subsection \<open>Watching the process\<close>

record command_result =
  ran_exit :: "int option"
  ran_stdout :: string
  ran_stderr :: string
  ran_timed_out :: bool
  ran_aborted :: bool
  ran_boundary :: execution_boundary

datatype process_event =
    OutputData string
  | ErrorData string
  | SpawnFailed string
  | TimeoutFired
  | AbortFired
  | ForceKillFired
  | Closed "int option"

record process_watch =
  watch_stdout :: string
  watch_stderr :: string
  watch_timed_out :: bool
  watch_aborted :: bool
  watch_spawn_failed :: bool
  watch_timer :: bool
  watch_listening :: bool
  watch_force_timer :: "bool option"
  watch_force_done :: bool
  watch_closed :: "int option option"
  watch_settled :: bool

definition process_started :: process_watch where
  "process_started = \<lparr>watch_stdout = [], watch_stderr = [], watch_timed_out = False, watch_aborted = False,
     watch_spawn_failed = False, watch_timer = True, watch_listening = True, watch_force_timer = None,
     watch_force_done = False, watch_closed = None, watch_settled = False\<rparr>"

definition watch_finish :: "process_watch \<Rightarrow> process_watch" where
  "watch_finish w =
     (if watch_settled w \<or> watch_closed w = None \<or> (watch_timed_out w \<or> watch_aborted w) \<and> \<not> watch_force_done w then w
      else w\<lparr>watch_settled := True, watch_listening := False,
        watch_force_timer := map_option (\<lambda>_. False) (watch_force_timer w)\<rparr>)"

text \<open>Which events can still occur: timers that were not cleared, a listener that is attached.\<close>

definition event_enabled :: "process_watch \<Rightarrow> process_event \<Rightarrow> bool" where
  "event_enabled w e = (case e of
       TimeoutFired \<Rightarrow> watch_timer w
     | AbortFired \<Rightarrow> watch_listening w
     | ForceKillFired \<Rightarrow> watch_force_timer w = Some True
     | _ \<Rightarrow> watch_closed w = None)"

definition watch_terminate :: "process_watch \<Rightarrow> process_watch" where
  "watch_terminate w = (if watch_force_timer w = None then w\<lparr>watch_force_timer := Some True\<rparr> else w)"

definition watch_event :: "nat \<Rightarrow> process_watch \<Rightarrow> process_event \<Rightarrow> process_watch" where
  "watch_event maximum w e = (case e of
       OutputData chunk \<Rightarrow> w\<lparr>watch_stdout := append_tail maximum (watch_stdout w) chunk\<rparr>
     | ErrorData chunk \<Rightarrow> w\<lparr>watch_stderr := append_tail maximum (watch_stderr w) chunk\<rparr>
     | SpawnFailed m \<Rightarrow> w\<lparr>watch_spawn_failed := True, watch_stderr := append_tail maximum (watch_stderr w) m\<rparr>
     | TimeoutFired \<Rightarrow> watch_terminate (w\<lparr>watch_timer := False, watch_timed_out := True\<rparr>)
     | AbortFired \<Rightarrow> watch_terminate (w\<lparr>watch_listening := False, watch_aborted := True\<rparr>)
     | ForceKillFired \<Rightarrow> watch_finish (w\<lparr>watch_force_timer := Some False, watch_force_done := True\<rparr>)
     | Closed code \<Rightarrow> watch_finish (w\<lparr>watch_closed := Some (if watch_spawn_failed w then None else code),
         watch_timer := False, watch_force_done := True\<rparr>))"

text \<open>The answer after the runtime directory was removed, or with the message of the failed removal.\<close>

definition watch_result ::
    "(string \<Rightarrow> string) \<Rightarrow> nat \<Rightarrow> validation_policy option \<Rightarrow> process_watch \<Rightarrow> string option \<Rightarrow> command_result" where
  "watch_result utf8 maximum p w removal =
     \<lparr>ran_exit = (case watch_closed w of None \<Rightarrow> None | Some code \<Rightarrow> code), ran_stdout = utf8 (watch_stdout w),
      ran_stderr = utf8 (case removal of None \<Rightarrow> watch_stderr w | Some m \<Rightarrow>
        append_tail maximum (watch_stderr w) (CHR 0x0A # ''Failed to remove validation runtime: '' @ m)),
      ran_timed_out = watch_timed_out w, ran_aborted = watch_aborted w, ran_boundary = policy_boundary p\<rparr>"

definition aborted_before_start :: "validation_policy option \<Rightarrow> string option \<Rightarrow> command_result" where
  "aborted_before_start p reason = \<lparr>ran_exit = None, ran_stdout = [],
     ran_stderr = (case reason of Some m \<Rightarrow> m | None \<Rightarrow> ''Validation aborted''), ran_timed_out = False,
     ran_aborted = True, ran_boundary = policy_boundary p\<rparr>"

inductive watched :: "nat \<Rightarrow> process_event list \<Rightarrow> process_watch \<Rightarrow> bool" where
  start: "watched n [] process_started"
| event: "watched n es w \<Longrightarrow> event_enabled w e \<Longrightarrow> watched n (es @ [e]) (watch_event n w e)"

text \<open>What the events so far say about the watch: it settles with the close, which comes once.\<close>

definition closed_events :: "process_event list \<Rightarrow> int option list" where
  "closed_events es = List.map_filter (\<lambda>e. case e of Closed c \<Rightarrow> Some c | _ \<Rightarrow> None) es"

definition output_chunks :: "process_event list \<Rightarrow> string list" where
  "output_chunks es = List.map_filter (\<lambda>e. case e of OutputData c \<Rightarrow> Some c | _ \<Rightarrow> None) es"

definition error_chunks :: "process_event list \<Rightarrow> string list" where
  "error_chunks es = List.map_filter (\<lambda>e. case e of ErrorData c \<Rightarrow> Some c | SpawnFailed m \<Rightarrow> Some m | _ \<Rightarrow> None) es"

definition spawn_failed :: "process_event list \<Rightarrow> bool" where
  "spawn_failed es \<longleftrightarrow> (\<exists>m. SpawnFailed m \<in> set es)"

definition watch_ok :: "nat \<Rightarrow> process_event list \<Rightarrow> process_watch \<Rightarrow> bool" where
  "watch_ok n es w \<longleftrightarrow> watch_stdout w = tail_bytes n (concat (output_chunks es)) \<and>
     watch_stderr w = tail_bytes n (concat (error_chunks es)) \<and>
     watch_timed_out w = (TimeoutFired \<in> set es) \<and> watch_aborted w = (AbortFired \<in> set es) \<and>
     watch_spawn_failed w = spawn_failed es \<and>
     (watch_settled w \<longleftrightarrow> watch_closed w \<noteq> None) \<and>
     (case watch_closed w of
        None \<Rightarrow> closed_events es = []
      | Some code \<Rightarrow> \<not> watch_timer w \<and> \<not> watch_listening w \<and>
          (\<exists>c. closed_events es = [c] \<and> code = (if spawn_failed es then None else c)))"

lemmas event_lists = closed_events_def output_chunks_def error_chunks_def map_filter_append

lemma watched_ok: "watched n es w \<Longrightarrow> watch_ok n es w"
proof (induction rule: watched.induct)
  case (start n)
  show ?case by (simp add: watch_ok_def process_started_def event_lists tail_bytes_def spawn_failed_def)
next
  case (event n es w e)
  have a: "foldl (append_tail n) (tail_bytes n s) [c] = tail_bytes n (s @ c)" for s c by (simp add: append_tail_tail)
  show ?case
  proof (cases e)
    case (OutputData c)
    then show ?thesis using event.IH event.hyps(2)
      by (auto simp: watch_ok_def watch_event_def event_lists append_tail_tail event_enabled_def spawn_failed_def)
  next
    case (ErrorData c)
    then show ?thesis using event.IH event.hyps(2)
      by (auto simp: watch_ok_def watch_event_def event_lists append_tail_tail event_enabled_def spawn_failed_def)
  next
    case (SpawnFailed c)
    then show ?thesis using event.IH event.hyps(2)
      by (auto simp: watch_ok_def watch_event_def event_lists append_tail_tail event_enabled_def spawn_failed_def)
  next
    case TimeoutFired
    then show ?thesis using event.IH event.hyps(2)
      by (auto simp: watch_ok_def watch_event_def watch_terminate_def event_lists event_enabled_def spawn_failed_def split: option.splits)
  next
    case AbortFired
    then show ?thesis using event.IH event.hyps(2)
      by (auto simp: watch_ok_def watch_event_def watch_terminate_def event_lists event_enabled_def spawn_failed_def split: option.splits)
  next
    case ForceKillFired
    then show ?thesis using event.IH event.hyps(2)
      by (auto simp: watch_ok_def watch_event_def watch_finish_def event_lists event_enabled_def spawn_failed_def split: option.splits)
  next
    case (Closed c)
    then show ?thesis using event.IH event.hyps(2)
      by (auto simp: watch_ok_def watch_event_def watch_finish_def event_lists event_enabled_def spawn_failed_def)
  qed
qed

definition ran_passed :: "command_result \<Rightarrow> bool" where
  "ran_passed r \<longleftrightarrow> ran_exit r = Some 0 \<and> \<not> ran_timed_out r \<and> \<not> ran_aborted r"

text \<open>A command passes only when its process closed with code zero, undisturbed.\<close>

lemma watched_passed:
  assumes "watched n es w" and "watch_settled w" and "ran_passed (watch_result utf8 n p w removal)"
  shows "closed_events es = [Some 0] \<and> TimeoutFired \<notin> set es \<and> AbortFired \<notin> set es \<and> \<not> spawn_failed es \<and>
    ran_stdout (watch_result utf8 n p w removal) = utf8 (tail_bytes n (concat (output_chunks es)))"
  using watched_ok[OF assms(1)] assms(2,3)
  by (auto simp: watch_ok_def watch_result_def ran_passed_def split: option.splits if_splits)

end
