(* ===== verification/Validators.thy ===== *)
theory Validators
  imports Validation
begin

text \<open>
  The two validators: a task worktree is inspected, its scope checked, its commands run and the
  worktree inspected again; the integrated result is checked before and after every command of
  the final suite. \<open>now()\<close> is the clock at the number of times it was asked before.
\<close>

datatype ('a, 'e) validation_outcome =
    Validated 'a
  | Rejected string 'e
  | Threw js_error

record final_evidence =
  final_started :: string
  final_finished :: string
  final_passed :: bool
  final_checks :: "check_evidence list"

record validation_env =
  env_now :: "nat \<Rightarrow> string"
  env_execute :: "nat \<Rightarrow> validation_command \<Rightarrow> command_result result"
  env_timeout_ms :: nat

text \<open>The options both constructors check, with their defaults as arguments.\<close>

definition validator_options :: "rat option \<Rightarrow> rat option \<Rightarrow> nat \<Rightarrow> nat \<Rightarrow> (rat \<times> rat) result" where
  "validator_options timeout tail_limit default_timeout default_tail =
     (let t = (case timeout of None \<Rightarrow> of_nat default_timeout | Some q \<Rightarrow> q);
          b = (case tail_limit of None \<Rightarrow> of_nat default_tail | Some q \<Rightarrow> q)
      in if t \<le> 0 then Inl (Error ''commandTimeoutMs must be a positive finite number'')
         else if of_int \<lfloor>b\<rfloor> \<noteq> b \<or> b \<le> 0 then Inl (Error ''outputTailBytes must be a positive integer'')
         else Inr (t, b))"

definition executed_check :: "validation_command \<Rightarrow> string \<Rightarrow> string \<Rightarrow> command_result \<Rightarrow> check_evidence" where
  "executed_check command started finished answer =
     \<lparr>check_command = command, check_started = started, check_finished = finished, check_exit = ran_exit answer,
      check_stdout = ran_stdout answer, check_stderr = ran_stderr answer, check_passed = ran_passed answer,
      check_boundary = Some (ran_boundary answer)\<rparr>"

definition failure_message :: "string \<Rightarrow> nat \<Rightarrow> validation_command \<Rightarrow> command_result \<Rightarrow> string" where
  "failure_message kind timeout command answer =
     (if ran_aborted answer then kind @ '' aborted''
      else if ran_timed_out answer then kind @ '' command timed out after '' @ js_nat timeout @ ''ms''
      else kind @ '' command failed: '' @ command_name command @ '' '' @ join '' '' (command_args command))"

subsection \<open>The final suite\<close>

definition final_failure :: "validation_env \<Rightarrow> nat \<Rightarrow> check_evidence list \<Rightarrow> string \<Rightarrow> (final_evidence, final_evidence) validation_outcome" where
  "final_failure env asked checks message = Rejected message
     \<lparr>final_started = env_now env 0, final_finished = env_now env asked, final_passed = False, final_checks = checks\<rparr>"

fun run_final_commands ::
    "validation_env \<Rightarrow> (nat \<Rightarrow> unit result) \<Rightarrow> check_evidence list \<Rightarrow> validation_command list \<Rightarrow>
     (final_evidence, final_evidence) validation_outcome" where
  "run_final_commands env verify checks [] = Validated
     \<lparr>final_started = env_now env 0, final_finished = env_now env (1 + 2 * length checks), final_passed = True,
      final_checks = checks\<rparr>"
| "run_final_commands env verify checks (command # rest) =
     (let asked = 1 + 2 * length checks in
      case env_execute env (length checks) command of
        Inl e \<Rightarrow> Threw e
      | Inr answer \<Rightarrow>
          let done_checks = checks @ [executed_check command (env_now env asked) (env_now env (Suc asked)) answer] in
          if \<not> ran_passed answer then
            final_failure env (asked + 2) done_checks (failure_message ''Final validation'' (env_timeout_ms env) command answer)
          else (case verify (Suc (length checks)) of
              Inl e \<Rightarrow> final_failure env (asked + 2) done_checks
                (''Final validation command modified the worktree: '' @ command_name command)
            | Inr _ \<Rightarrow> run_final_commands env verify done_checks rest))"

definition validate_final ::
    "validation_env \<Rightarrow> (nat \<Rightarrow> unit result) \<Rightarrow> validation_command list \<Rightarrow> (final_evidence, final_evidence) validation_outcome" where
  "validate_final env verify commands = (case verify 0 of
       Inl e \<Rightarrow> final_failure env 1 [] ''Final validation worktree is not clean at the expected commit''
     | Inr _ \<Rightarrow> run_final_commands env verify [] commands)"

subsection \<open>A task\<close>

record worktree_snapshot =
  snapshot_branch_name :: string
  snapshot_base_commit :: string
  snapshot_changed :: "changed_file list"
  snapshot_diff_hash :: string

definition snapshots_match :: "worktree_snapshot \<Rightarrow> worktree_snapshot \<Rightarrow> bool" where
  "snapshots_match l r \<longleftrightarrow> snapshot_branch_name l = snapshot_branch_name r \<and>
     snapshot_base_commit l = snapshot_base_commit r \<and> snapshot_diff_hash l = snapshot_diff_hash r \<and>
     snapshot_changed l = snapshot_changed r"

record task_input =
  task_input_base :: string
  task_input_paths :: "string list"
  task_input_commands :: "validation_command list"
  task_input_profile :: "capability_profile option"
  task_input_withheld :: "string list option"
  task_input_aborted :: "string option"

definition file_paths :: "changed_file \<Rightarrow> string list" where
  "file_paths f = changed_path f # (if truthy (changed_previous f) then [the (changed_previous f)] else [])"

definition check_task_scope :: "task_input \<Rightarrow> worktree_snapshot \<Rightarrow> unit result" where
  "check_task_scope input snap =
     and_then (case task_input_profile input of
         None \<Rightarrow> Inr ()
       | Some p \<Rightarrow> assert_capability_boundary p (map changed_path (snapshot_changed snap))) (\<lambda>_.
     let changed = concat (map file_paths (snapshot_changed snap));
         out_of_scope = filter (\<lambda>p. \<not> path_is_allowed p (task_input_paths input)) changed;
         withheld = filter (\<lambda>p. path_is_allowed p (case task_input_withheld input of None \<Rightarrow> [] | Some ps \<Rightarrow> ps)) changed
     in if out_of_scope \<noteq> [] then
          Inl (Error (''Task changed paths outside its approved scope: '' @ join '', '' (unique out_of_scope)))
        else require (withheld = []) (Error (''Task changed paths the approved envelope withholds: '' @
          join '', '' (unique withheld))))"

definition task_evidence_of ::
    "validation_env \<Rightarrow> nat \<Rightarrow> bool \<Rightarrow> worktree_snapshot option \<Rightarrow> check_evidence list \<Rightarrow> task_evidence" where
  "task_evidence_of env asked passed snap checks =
     \<lparr>evidence_started = env_now env 0, evidence_finished = env_now env asked, evidence_passed = passed,
      evidence_changed = (case snap of None \<Rightarrow> [] | Some s \<Rightarrow> snapshot_changed s),
      evidence_diff_hash = (case snap of None \<Rightarrow> [] | Some s \<Rightarrow> snapshot_diff_hash s), evidence_checks = checks\<rparr>"

definition diff_check :: "validation_env \<Rightarrow> string \<Rightarrow> js_error option \<Rightarrow> check_evidence" where
  "diff_check env base problem =
     \<lparr>check_command = \<lparr>command_name = ''git'', command_args = [''diff'', ''--check'', base, ''--'']\<rparr>,
      check_started = env_now env 1, check_finished = env_now env 2,
      check_exit = Some (if problem = None then 0 else 1), check_stdout = [],
      check_stderr = (case problem of None \<Rightarrow> [] | Some e \<Rightarrow> error_message e),
      check_passed = (problem = None), check_boundary = None\<rparr>"

fun run_task_commands ::
    "validation_env \<Rightarrow> worktree_snapshot \<Rightarrow> check_evidence list \<Rightarrow> validation_command list \<Rightarrow>
     (worktree_snapshot \<times> task_evidence, task_evidence) validation_outcome + check_evidence list" where
  "run_task_commands env snap checks [] = Inr checks"
| "run_task_commands env snap checks (command # rest) =
     (let asked = 1 + 2 * length checks in
      case env_execute env (length checks) command of
        Inl e \<Rightarrow> Inl (Threw e)
      | Inr answer \<Rightarrow>
          let done_checks = checks @ [executed_check command (env_now env asked) (env_now env (Suc asked)) answer] in
          if \<not> ran_passed answer then
            Inl (Rejected (failure_message ''Validation'' (env_timeout_ms env) command answer)
              (task_evidence_of env (asked + 2) False (Some snap) done_checks))
          else run_task_commands env snap done_checks rest)"

definition validate_task ::
    "validation_env \<Rightarrow> (nat \<Rightarrow> worktree_snapshot result) \<Rightarrow> unit result \<Rightarrow> task_input \<Rightarrow>
     (worktree_snapshot \<times> task_evidence, task_evidence) validation_outcome" where
  "validate_task env inspect check_diff input =
     (let snapshot = and_then (case task_input_aborted input of Some m \<Rightarrow> Inl (Error m) | None \<Rightarrow> Inr ()) (\<lambda>_. inspect 0) in
      case and_then snapshot (check_task_scope input) of
        Inl e \<Rightarrow> Rejected (error_message e)
          (task_evidence_of env 1 False (case snapshot of Inl _ \<Rightarrow> None | Inr s \<Rightarrow> Some s) [])
      | Inr _ \<Rightarrow>
          let snap = projr snapshot; base = task_input_base input in
          (case check_diff of
             Inl e \<Rightarrow> Rejected ''git diff --check failed''
               (task_evidence_of env 3 False (Some snap) [diff_check env base (Some e)])
           | Inr _ \<Rightarrow> (case run_task_commands env snap [diff_check env base None] (task_input_commands input) of
               Inl failed \<Rightarrow> failed
             | Inr checks \<Rightarrow>
                 let failure = (\<lambda>m. Rejected m (task_evidence_of env (1 + 2 * length checks) False (Some snap) checks))
                 in case inspect 1 of
                    Inl e \<Rightarrow> failure ''Task worktree could not be re-inspected after validation''
                  | Inr again \<Rightarrow>
                      if \<not> snapshots_match snap again then failure ''Validation commands modified the task worktree''
                      else Validated (snap, task_evidence_of env (1 + 2 * length checks) True (Some snap) checks))))"

subsection \<open>What passing evidence means\<close>

lemma executed_check_simps [simp]:
  "check_command (executed_check c s f r) = c" "check_passed (executed_check c s f r) = ran_passed r"
  by (simp_all add: executed_check_def)

lemma run_final_commands_passed:
  assumes "run_final_commands env verify checks commands = Validated e" and "list_all check_passed checks"
  shows "final_passed e \<and> list_all check_passed (final_checks e) \<and>
    map check_command (final_checks e) = map check_command checks @ commands \<and>
    (\<forall>k\<in>{length checks ..< length checks + length commands}. verify (Suc k) = Inr ())"
  using assms
proof (induction commands arbitrary: checks)
  case (Cons c cs)
  from Cons.prems obtain answer where r: "ran_passed answer" "verify (Suc (length checks)) = Inr ()"
    and run: "run_final_commands env verify (checks @ [(executed_check c (env_now env (1 + 2 * length checks)) (env_now env (Suc (1 + 2 * length checks))) answer)]) cs = Validated e"
    by (auto simp: Let_def final_failure_def split: sum.splits if_splits)
  define chk where "chk = (executed_check c (env_now env (1 + 2 * length checks)) (env_now env (Suc (1 + 2 * length checks))) answer)"
  have chk: "check_command chk = c" "check_passed chk" using r(1) by (simp_all add: chk_def)
  note run = run[folded chk_def]
  have "list_all check_passed (checks @ [chk])" using Cons.prems(2) chk by simp
  note ih = Cons.IH[OF run this]
  have "verify (Suc k) = Inr ()" if "k \<in> {length checks ..< length checks + length (c # cs)}" for k
    using ih that r(2) by (cases "k = length checks") auto
  then show ?case using ih chk by auto
qed auto

lemma run_final_commands_failed:
  assumes "run_final_commands env verify checks commands = Rejected m e"
  shows "\<not> final_passed e \<and> (\<exists>n. map check_command (final_checks e) = map check_command checks @ take n commands)"
  using assms
proof (induction commands arbitrary: checks)
  case (Cons c cs)
  show ?case
  proof (cases "run_final_commands env verify checks (c # cs) = Rejected m e \<and> final_passed e = False \<and>
      map check_command (final_checks e) = map check_command checks @ [c]")
    case True
    then show ?thesis by (intro conjI exI[of _ 1]) auto
  next
    case False
    with Cons.prems obtain answer where run: "run_final_commands env verify (checks @ [(executed_check c (env_now env (1 + 2 * length checks)) (env_now env (Suc (1 + 2 * length checks))) answer)]) cs = Rejected m e"
      by (auto simp: Let_def final_failure_def split: sum.splits if_splits)
    define chk where "chk = (executed_check c (env_now env (1 + 2 * length checks)) (env_now env (Suc (1 + 2 * length checks))) answer)"
    have chk: "check_command chk = c" by (simp add: chk_def)
    note run = run[folded chk_def]
    from Cons.IH[OF run] obtain n where "\<not> final_passed e"
      "map check_command (final_checks e) = map check_command (checks @ [chk]) @ take n cs" by blast
    then show ?thesis using chk by (intro conjI exI[of _ "Suc n"]) auto
  qed
qed simp

lemma validate_final_passed:
  assumes "validate_final env verify commands = Validated e"
  shows "final_passed e" "list_all check_passed (final_checks e)" "map check_command (final_checks e) = commands"
    "\<forall>k\<le>length commands. verify k = Inr ()"
proof -
  from assms have v: "verify 0 = Inr ()" and r: "run_final_commands env verify [] commands = Validated e"
    by (auto simp: validate_final_def final_failure_def split: sum.splits)
  note p = run_final_commands_passed[OF r]
  show "final_passed e" "list_all check_passed (final_checks e)" "map check_command (final_checks e) = commands"
    using p by simp_all
  show "\<forall>k\<le>length commands. verify k = Inr ()"
  proof (intro allI impI)
    fix k assume "k \<le> length commands"
    then show "verify k = Inr ()" using p v by (cases k) auto
  qed
qed

lemma run_task_commands_passed:
  assumes "run_task_commands env snap checks commands = Inr out" and "list_all check_passed checks"
  shows "list_all check_passed out \<and> map check_command out = map check_command checks @ commands"
  using assms
proof (induction commands arbitrary: checks)
  case (Cons c cs)
  from Cons.prems obtain answer where r: "ran_passed answer"
    and run: "run_task_commands env snap (checks @ [(executed_check c (env_now env (1 + 2 * length checks)) (env_now env (Suc (1 + 2 * length checks))) answer)]) cs = Inr out"
    by (auto simp: Let_def split: sum.splits if_splits)
  define chk where "chk = (executed_check c (env_now env (1 + 2 * length checks)) (env_now env (Suc (1 + 2 * length checks))) answer)"
  have chk: "check_command chk = c" "check_passed chk" using r by (simp_all add: chk_def)
  note run = run[folded chk_def]
  have "list_all check_passed (checks @ [chk])" using Cons.prems(2) chk by simp
  from Cons.IH[OF run this] show ?case using chk by simp
qed simp

lemma run_task_commands_not_validated: "run_task_commands env snap checks commands \<noteq> Inl (Validated x)"
  by (induction commands arbitrary: checks) (auto simp: Let_def split: sum.split)

lemma check_task_scope_ok:
  assumes "check_task_scope input snap = Inr ()"
  shows "\<And>f p. f \<in> set (snapshot_changed snap) \<Longrightarrow> p \<in> set (file_paths f) \<Longrightarrow>
      path_is_allowed p (task_input_paths input) \<and>
      (\<forall>ps. task_input_withheld input = Some ps \<longrightarrow> \<not> path_is_allowed p ps)"
    "\<And>p. task_input_profile input = Some p \<Longrightarrow> snapshot_changed snap \<noteq> [] \<Longrightarrow>
      MutateRepository \<in> set (profile_capabilities p)"
  using assms
  by (auto simp: check_task_scope_def and_then_Inr Let_def filter_empty_conv assert_capability_boundary_ok split: if_splits option.splits)

text \<open>
  A validated task changed only allowed paths, none withheld, under a profile that may mutate, all
  its checks passed, and the commands left the worktree as it was inspected.
\<close>

lemma validate_task_sound:
  assumes "validate_task env inspect check_diff input = Validated (snap, e)"
  shows "inspect 0 = Inr snap" "check_task_scope input snap = Inr ()" "evidence_passed e"
    "list_all check_passed (evidence_checks e)"
    "tl (map check_command (evidence_checks e)) = task_input_commands input"
    "evidence_changed e = snapshot_changed snap \<and> evidence_diff_hash e = snapshot_diff_hash snap"
    "\<exists>again. inspect 1 = Inr again \<and> snapshots_match snap again"
proof -
  let ?first = "and_then (case task_input_aborted input of Some m \<Rightarrow> Inl (Error m) | None \<Rightarrow> Inr ()) (\<lambda>_. inspect 0)"
  from assms obtain s where s: "?first = Inr s" "check_task_scope input s = Inr ()"
    by (cases ?first) (auto simp: validate_task_def Let_def split: sum.splits)
  have i: "inspect 0 = Inr s" using s(1) by (auto simp: and_then_Inr)
  let ?run = "run_task_commands env s [diff_check env (task_input_base input) None] (task_input_commands input)"
  have v: "(case check_diff of Inl x \<Rightarrow> False | Inr _ \<Rightarrow> (case ?run of Inl failed \<Rightarrow> failed = Validated (snap, e)
      | Inr checks \<Rightarrow> (case inspect 1 of Inl x \<Rightarrow> False | Inr again \<Rightarrow> snapshots_match s again \<and> snap = s \<and>
          e = task_evidence_of env (1 + 2 * length checks) True (Some s) checks)))"
    using assms s by (auto simp: validate_task_def Let_def split: sum.splits if_splits)
  then obtain checks where r1: "?run = Inr checks"
    using run_task_commands_not_validated by (cases check_diff; cases ?run) fastforce+
  with v obtain again where r: "?run = Inr checks" "inspect 1 = Inr again" "snapshots_match s again"
    and e: "snap = s" "e = task_evidence_of env (1 + 2 * length checks) True (Some s) checks"
    by (cases check_diff; cases "inspect 1") simp_all
  note p = run_task_commands_passed[OF r(1)]
  show "inspect 0 = Inr snap" "check_task_scope input snap = Inr ()" using i s(2) e(1) by simp_all
  show "evidence_passed e" "evidence_changed e = snapshot_changed snap \<and> evidence_diff_hash e = snapshot_diff_hash snap"
    by (simp_all add: e task_evidence_of_def)
  show "list_all check_passed (evidence_checks e)"
    "tl (map check_command (evidence_checks e)) = task_input_commands input"
    using p by (simp_all add: e(2) task_evidence_of_def diff_check_def)
  show "\<exists>again. inspect 1 = Inr again \<and> snapshots_match snap again" using r e(1) by blast
qed

end
