(* ===== verification/Finalization.thy ===== *)
theory Finalization
  imports EngineProgress EngineHead ReviewFacts Validators ArtifactRouting
begin

text \<open>
  \<open>src/src/engine/integration.ts\<close> and \<open>finalization.ts\<close>: moving a step's commit onto the integration
  branch, and turning a completed run into merge-ready evidence. Git, the worktree manager, the final
  validator, the artifact reader and the payloads of review artifacts (\<open>JSON.parse\<close> read as the
  record the review step wrote) are the record \<open>finalization_env\<close>.
\<close>

subsection \<open>Integration\<close>

record integration_request =
  request_root :: string
  request_branch :: string
  request_head :: string
  request_step :: string
  request_attempt :: step_attempt
  request_commit :: string

definition git_integrate ::
    "(string \<Rightarrow> string \<Rightarrow> string \<Rightarrow> string \<Rightarrow> unit result) \<Rightarrow>
     (string \<Rightarrow> string \<Rightarrow> string \<Rightarrow> string \<Rightarrow> string result) \<Rightarrow> integration_request \<Rightarrow> string result" where
  "git_integrate verify_task_commit integrate_commit r =
     (if \<not> truthy (attempt_branch (request_attempt r)) then
        Inl (Error (''Step '' @ request_step r @ '' produced a commit without a workspace branch''))
      else
        and_then (verify_task_commit (request_root r) (the (attempt_branch (request_attempt r))) (request_commit r)
          (attempt_base (request_attempt r))) (\<lambda>_.
        integrate_commit (request_root r) (request_branch r) (request_head r) (request_commit r)))"

subsection \<open>The commits of a run\<close>

record integrated_commit =
  commit_repair :: bool
  commit_step :: string
  commit_source :: string
  commit_integrated :: string

definition step_commit_evidence :: "run_state \<Rightarrow> string \<Rightarrow> integrated_commit list result" where
  "step_commit_evidence s sid = (case obj_get (run_steps s) sid of
       None \<Rightarrow> Inr []
     | Some r \<Rightarrow>
         if \<not> step_requires_integration (run_profiles s) (record_definition r) \<or> \<not> truthy (record_integrated r) then Inr []
         else (case find_last (\<lambda>a. attempt_id a \<in> set (record_attempts r) \<and> attempt_state a = AttemptSucceeded)
             (run_attempts s) of
             None \<Rightarrow> Inl (Error (''Integrated step '' @ sid @ '' has no successful attempt''))
           | Some a \<Rightarrow>
               if \<not> truthy (attempt_commit a) then Inr []
               else Inr [\<lparr>commit_repair = (step_profile_name (record_definition r) = RepairProfile), commit_step = sid,
                 commit_source = the (attempt_commit a), commit_integrated = the (record_integrated r)\<rparr>]))"

definition integrated_commit_evidence :: "run_state \<Rightarrow> integrated_commit list result" where
  "integrated_commit_evidence s =
     and_then (each_result (step_commit_evidence s) (topological_step_ids (run_plan s))) (\<lambda>css. Inr (concat css))"

subsection \<open>What the reviews say about the final head\<close>

record findings_payload =
  payload_category :: string
  payload_base :: string
  payload_summary :: string
  payload_findings :: "review_finding list option"

record git_commit =
  git_hash :: string
  git_parent :: string
  git_subject :: string

record git_verification =
  git_verified_at :: string
  git_commits :: "git_commit list"
  git_user_branch :: string
  git_user_head :: string

record finalization_env =
  env_latest :: "(string \<Rightarrow> string \<Rightarrow> string \<Rightarrow> artifact_record option result) option"
  env_payload :: "string \<Rightarrow> findings_payload result"
  env_locale_le :: "string \<Rightarrow> string \<Rightarrow> bool"
  env_worktree :: "nat \<Rightarrow> string \<Rightarrow> string result"
  env_validate :: "string \<Rightarrow> string \<Rightarrow> validation_command list \<Rightarrow> (final_evidence, final_evidence) validation_outcome"
  env_remove :: "string \<Rightarrow> unit result"
  env_history :: "integrated_commit list \<Rightarrow> string \<Rightarrow> git_verification result"
  env_time :: string

record review_summary =
  outcome_summaries :: "(review_category \<times> string) list"
  outcome_risks :: "review_finding list"
  outcome_gap :: "string option"

record review_collection =
  collected_latest :: "findings_payload obj"
  collected_stale :: "string list"
  collected_unavailable :: "string list"

definition collect_review ::
    "finalization_env \<Rightarrow> run_state \<Rightarrow> string \<Rightarrow> string \<Rightarrow> review_collection \<Rightarrow> review_collection result" where
  "collect_review env s sid out acc = (case env_latest env of
       None \<Rightarrow> Inr acc
     | Some latest \<Rightarrow>
         and_then (latest (run_id s) sid out) (\<lambda>found.
         case found of
           None \<Rightarrow> Inr (acc\<lparr>collected_unavailable := collected_unavailable acc @ [sid @ ''.'' @ out]\<rparr>)
         | Some r \<Rightarrow>
             and_then (env_payload env (artifact_text r)) (\<lambda>p.
             if payload_base p = run_head s then
               Inr (acc\<lparr>collected_latest := obj_set (collected_latest acc) (payload_category p) p\<rparr>)
             else Inr (acc\<lparr>collected_stale := collected_stale acc @ [payload_category p]\<rparr>))))"

fun collect_outputs ::
    "finalization_env \<Rightarrow> run_state \<Rightarrow> string \<Rightarrow> string list \<Rightarrow> review_collection \<Rightarrow> review_collection result" where
  "collect_outputs env s sid [] acc = Inr acc"
| "collect_outputs env s sid (out # outs) acc =
     and_then (collect_review env s sid out acc) (collect_outputs env s sid outs)"

fun collect_reviews ::
    "finalization_env \<Rightarrow> run_state \<Rightarrow> (string \<times> string list) list \<Rightarrow> review_collection \<Rightarrow> review_collection result" where
  "collect_reviews env s [] acc = Inr acc"
| "collect_reviews env s ((sid, outs) # steps) acc =
     (if outs = [] then
        collect_reviews env s steps (acc\<lparr>collected_unavailable := collected_unavailable acc @ [sid]\<rparr>)
      else and_then (collect_outputs env s sid outs acc) (collect_reviews env s steps))"

definition review_steps :: "run_state \<Rightarrow> (string \<times> string list) list" where
  "review_steps s = concat (map (\<lambda>sid. case obj_get (run_steps s) sid of
       None \<Rightarrow> []
     | Some r \<Rightarrow> if step_profile_name (record_definition r) = ReviewProfile
         then [(sid, step_outputs (record_definition r))] else []) (topological_step_ids (run_plan s)))"

definition unavailable_gap :: "string list \<Rightarrow> review_summary" where
  "unavailable_gap ids = \<lparr>outcome_summaries = [], outcome_risks = [],
     outcome_gap = Some (''Review evidence is unavailable for '' @ join '', '' ids)\<rparr>"

definition payload_risks :: "findings_payload \<Rightarrow> review_finding list" where
  "payload_risks p = filter (\<lambda>f. finding_status f \<noteq> Repaired)
     (case payload_findings p of None \<Rightarrow> [] | Some fs \<Rightarrow> fs)"

definition review_outcomes :: "finalization_env \<Rightarrow> run_state \<Rightarrow> review_summary result" where
  "review_outcomes env s =
     (let steps = review_steps s in
      if steps = [] then Inr \<lparr>outcome_summaries = [], outcome_risks = [], outcome_gap = None\<rparr>
      else if env_latest env = None then Inr (unavailable_gap (map fst steps))
      else
        and_then (collect_reviews env s steps
          \<lparr>collected_latest = [], collected_stale = [], collected_unavailable = []\<rparr>) (\<lambda>acc.
        if collected_unavailable acc \<noteq> [] then Inr (unavailable_gap (collected_unavailable acc))
        else
          let payloads = List.map_filter (\<lambda>c. case obj_get (collected_latest acc) (category_text c) of
                  None \<Rightarrow> None | Some p \<Rightarrow> Some (c, p)) REVIEW_CATEGORIES;
              summaries = map (\<lambda>(c, p). (c, payload_summary p)) payloads;
              risks = sort_by (\<lambda>x y. env_locale_le env (finding_id x) (finding_id y))
                (concat (map (\<lambda>(c, p). payload_risks p) payloads));
              missing = filter (\<lambda>c. obj_get (collected_latest acc) c = None) (unique (collected_stale acc));
              unrepaired = filter requires_automatic_repair risks;
              gap = (if missing \<noteq> [] then
                  Some (''No '' @ join '', '' missing @ '' review covers the final integrated commit '' @ run_head s)
                else if unrepaired \<noteq> [] then
                  Some (''Important findings remain after the approved repair rounds: '' @
                    join '', '' (map finding_id unrepaired))
                else None)
          in Inr \<lparr>outcome_summaries = summaries, outcome_risks = risks, outcome_gap = gap\<rparr>))"

subsection \<open>Finalizing\<close>

definition check_finalizable_step :: "run_state \<Rightarrow> string \<Rightarrow> unit result" where
  "check_finalizable_step s sid =
     (let prefix_text = ''Cannot finalize workflow run '' @ run_id s in
      case obj_get (run_steps s) sid of
        None \<Rightarrow> Inl (Error (prefix_text @ ''; step '' @ sid @ '' has not succeeded''))
      | Some r \<Rightarrow>
          if record_state r \<noteq> Succeeded then Inl (Error (prefix_text @ ''; step '' @ sid @ '' has not succeeded''))
          else require (\<not> step_requires_integration (run_profiles s) (record_definition r) \<or> truthy (record_integrated r))
            (Error (prefix_text @ ''; mutating step '' @ sid @ '' has not been integrated'')))"

definition assert_finalizable_state :: "run_state \<Rightarrow> unit result" where
  "assert_finalizable_state s =
     and_then (require (run_state s = RunCompleted) (Error (''Cannot finalize workflow run '' @ run_id s @ '' in '' @
       lifecycle_text (run_state s) @ '' state; expected completed''))) (\<lambda>_.
     each_check (check_finalizable_step s) (topological_step_ids (run_plan s)))"

record merge_ready =
  ready_generated :: string
  ready_branch :: string
  ready_head :: string
  ready_base_branch :: string
  ready_base_commit :: string
  ready_commits :: "integrated_commit list"
  ready_reviews :: "(review_category \<times> string) list"
  ready_risks :: "review_finding list"
  ready_checks :: "check_evidence list"
  ready_git :: git_verification

record finalization =
  final_evidence_of :: "final_evidence option"
  final_merge_ready :: "merge_ready option"
  final_gap :: "string option"
  final_worktree :: "string option"

text \<open>The suite in its worktree, which is removed whatever happened; a failed check is an answer.\<close>

definition run_final_suite :: "finalization_env \<Rightarrow> run_state \<Rightarrow> string \<Rightarrow> final_evidence result" where
  "run_final_suite env s path =
     (let outcome = env_validate env path (run_head s) (plan_final (run_plan s)) in
      and_then (env_remove env path) (\<lambda>_.
      case outcome of Validated e \<Rightarrow> Inr e | Rejected m e \<Rightarrow> Inr e | Threw e \<Rightarrow> Inl e))"

definition finalize_workflow_run ::
    "finalization_env \<Rightarrow> run_state \<Rightarrow> nat option \<Rightarrow> js_error option \<Rightarrow> unit result \<Rightarrow> finalization result" where
  "finalize_workflow_run env s attempt aborted validation_ready =
     and_then (assert_finalizable_state s) (\<lambda>_.
     and_then (review_outcomes env s) (\<lambda>reviews.
     if truthy (outcome_gap reviews) then
       Inr \<lparr>final_evidence_of = None, final_merge_ready = None, final_gap = outcome_gap reviews, final_worktree = None\<rparr>
     else
       and_then (case aborted of Some e \<Rightarrow> Inl e | None \<Rightarrow> Inr ()) (\<lambda>_.
       and_then validation_ready (\<lambda>_.
       and_then (env_worktree env (case attempt of None \<Rightarrow> 1 | Some n \<Rightarrow> n) (run_head s)) (\<lambda>path.
       and_then (run_final_suite env s path) (\<lambda>e.
       if \<not> final_passed e then
         Inr \<lparr>final_evidence_of = Some e, final_merge_ready = None, final_gap = None, final_worktree = Some path\<rparr>
       else
         and_then (integrated_commit_evidence s) (\<lambda>commits.
         and_then (env_history env commits (env_time env)) (\<lambda>git.
         Inr \<lparr>final_evidence_of = Some e,
           final_merge_ready = Some \<lparr>ready_generated = env_time env, ready_branch = run_branch s,
             ready_head = run_head s, ready_base_branch = run_base_branch s, ready_base_commit = run_base_commit s,
             ready_commits = commits, ready_reviews = outcome_summaries reviews, ready_risks = outcome_risks reviews,
             ready_checks = final_checks e, ready_git = git\<rparr>,
           final_gap = None, final_worktree = Some path\<rparr>))))))))"

end
