(* ===== verification/FinalizationFacts.thy ===== *)
theory FinalizationFacts
  imports Finalization
begin

text \<open>
  A run the engine completed can be finalized, and merge-ready evidence is only issued for a
  completed run whose reviews cover the final head without open findings and whose final suite passed.
\<close>

subsection \<open>A completed run is finalizable\<close>

lemma completed_finalizable:
  assumes ok: "run_ok s" and run: "run_state s = RunCompleted"
    and all: "\<And>sid. sid \<in> set (obj_keys (run_steps s)) \<Longrightarrow> step_done s sid"
  shows "assert_finalizable_state s = Inr ()"
proof -
  have "check_finalizable_step s sid = Inr ()" if "sid \<in> set (topological_step_ids (run_plan s))" for sid
  proof -
    have "sid \<in> set (obj_keys (run_steps s))" using that graph_ok_order(2)[OF run_ok_graph[OF ok]] by simp
    from all[OF this] obtain r where r: "obj_get (run_steps s) sid = Some r" "record_state r = Succeeded"
      "step_requires_integration (run_profiles s) (record_definition r) \<longrightarrow> record_integrated r \<noteq> None"
      unfolding step_done_def by blast
    have "record_integrated r \<noteq> None \<longrightarrow> truthy (record_integrated r)"
      using run_ok_record[OF ok r(1)] by (simp add: record_ok_def)
    then show ?thesis using r by (simp add: check_finalizable_step_def Let_def)
  qed
  then show ?thesis using run by (simp add: assert_finalizable_state_def and_then_Inr)
qed

lemma step_commit_evidence_total:
  assumes "run_ok s"
  shows "\<exists>cs. step_commit_evidence s sid = Inr cs"
proof (cases "obj_get (run_steps s) sid")
  case None
  then show ?thesis by (simp add: step_commit_evidence_def)
next
  case (Some r)
  note rok = run_ok_record[OF assms Some]
  show ?thesis
  proof (cases "truthy (record_integrated r)")
    case True
    then have "record_state r = Succeeded" using rok by (auto simp: record_ok_def truthy_def split: option.splits)
    then have xs: "attempts_of s sid \<noteq> []" "attempt_state (last (attempts_of s sid)) = AttemptSucceeded"
      "record_attempts r = map attempt_id (attempts_of s sid)" using rok by (auto simp: record_ok_def)
    let ?a = "last (attempts_of s sid)"
    have "?a \<in> set (attempts_of s sid)" using xs(1) by simp
    then have "?a \<in> set (run_attempts s)" "attempt_id ?a \<in> set (record_attempts r)"
      using xs(3) by (auto simp: attempts_of_def)
    then have "find_last (\<lambda>a. attempt_id a \<in> set (record_attempts r) \<and> attempt_state a = AttemptSucceeded)
        (run_attempts s) \<noteq> None" using xs(2) by (auto simp: find_last_None)
    then show ?thesis by (auto simp: step_commit_evidence_def Some)
  qed (simp add: step_commit_evidence_def Some)
qed

lemma each_result_total: "(\<And>x. x \<in> set xs \<Longrightarrow> \<exists>y. f x = Inr y) \<Longrightarrow> \<exists>ys. each_result f xs = Inr ys"
  by (induction xs) (auto simp: and_then_Inr)

lemma integrated_commit_evidence_total:
  assumes "run_ok s"
  shows "\<exists>cs. integrated_commit_evidence s = Inr cs"
proof -
  obtain css where "each_result (step_commit_evidence s) (topological_step_ids (run_plan s)) = Inr css"
    using each_result_total[of _ "step_commit_evidence s"] step_commit_evidence_total[OF assms] by blast
  then show ?thesis by (simp add: integrated_commit_evidence_def)
qed

text \<open>The evidence lists integrated commits of the run, in its topological order.\<close>

lemma step_commit_evidence_integrated:
  assumes "step_commit_evidence s sid = Inr cs"
  shows "list_all (\<lambda>c. commit_step c = sid \<and> commit_of s sid = Some (commit_integrated c)) cs \<and> length cs \<le> 1"
  using assms by (auto simp: step_commit_evidence_def commit_of_def truthy_def split: option.splits if_splits)

lemma each_commit_evidence_subseq:
  "each_result (step_commit_evidence s) ids = Inr css \<Longrightarrow>
     subseq (map commit_integrated (concat css)) (List.map_filter (commit_of s) ids)"
proof (induction ids arbitrary: css)
  case (Cons sid ids)
  then obtain cs rest where c: "step_commit_evidence s sid = Inr cs" "each_result (step_commit_evidence s) ids = Inr rest"
    "css = cs # rest" by (auto simp: and_then_Inr)
  from step_commit_evidence_integrated[OF c(1)] consider "cs = []"
    | c where "cs = [c]" "commit_of s sid = Some (commit_integrated c)" by (cases cs) auto
  then show ?case
  proof cases
    case 1
    then show ?thesis using Cons.IH[OF c(2)] by (cases "commit_of s sid") (auto simp: c(3) map_filter_simps)
  next
    case 2
    then show ?thesis using Cons.IH[OF c(2)] by (simp add: c(3) map_filter_simps)
  qed
qed (simp add: map_filter_simps)

lemma integrated_commit_evidence_subseq:
  "integrated_commit_evidence s = Inr cs \<Longrightarrow> subseq (map commit_integrated cs) (integrated_commits s)"
  using each_commit_evidence_subseq by (auto simp: integrated_commit_evidence_def integrated_commits_def and_then_Inr)

subsection \<open>What the reviews collected\<close>

definition read_review :: "finalization_env \<Rightarrow> run_state \<Rightarrow> string \<times> string \<Rightarrow> findings_payload option" where
  "read_review env s x = (case env_latest env of
       None \<Rightarrow> None
     | Some latest \<Rightarrow> (case latest (run_id s) (fst x) (snd x) of
         Inr (Some r) \<Rightarrow> (case env_payload env (artifact_text r) of Inr p \<Rightarrow> Some p | Inl _ \<Rightarrow> None)
       | _ \<Rightarrow> None))"

definition collected :: "finalization_env \<Rightarrow> run_state \<Rightarrow> (string \<times> string) set \<Rightarrow> review_collection \<Rightarrow> bool" where
  "collected env s D acc \<longleftrightarrow>
     (\<forall>c p. obj_get (collected_latest acc) c = Some p \<longrightarrow>
        payload_base p = run_head s \<and> payload_category p = c \<and> (\<exists>x\<in>D. read_review env s x = Some p)) \<and>
     (collected_unavailable acc = [] \<longrightarrow> (\<forall>x\<in>D. \<exists>p. read_review env s x = Some p \<and>
        (obj_get (collected_latest acc) (payload_category p) \<noteq> None \<or> payload_category p \<in> set (collected_stale acc))))"

lemma collect_review_collected:
  assumes env: "env_latest env = Some latest" and c: "collect_review env s sid out acc = Inr acc'"
    and ok: "collected env s D acc"
  shows "collected env s (insert (sid, out) D) acc'"
proof -
  from c env obtain found where f: "latest (run_id s) sid out = Inr found"
    by (auto simp: collect_review_def and_then_Inr)
  show ?thesis
  proof (cases found)
    case None
    then have "acc' = acc\<lparr>collected_unavailable := collected_unavailable acc @ [sid @ ''.'' @ out]\<rparr>"
      using c env f by (simp add: collect_review_def)
    then show ?thesis using ok by (auto simp: collected_def)
  next
    case (Some r)
    with c env f obtain p where p: "env_payload env (artifact_text r) = Inr p"
      by (auto simp: collect_review_def and_then_Inr)
    then have read: "read_review env s (sid, out) = Some p" using env f Some by (simp add: read_review_def)
    show ?thesis
    proof (cases "payload_base p = run_head s")
      case True
      then have "acc' = acc\<lparr>collected_latest := obj_set (collected_latest acc) (payload_category p) p\<rparr>"
        using c env f Some p by (simp add: collect_review_def)
      then have acc': "obj_get (collected_latest acc') c = (if c = payload_category p then Some p
          else obj_get (collected_latest acc) c)" "collected_stale acc' = collected_stale acc"
        "collected_unavailable acc' = collected_unavailable acc" for c by simp_all
      have "\<exists>q. read_review env s x = Some q \<and> (obj_get (collected_latest acc') (payload_category q) \<noteq> None \<or>
          payload_category q \<in> set (collected_stale acc'))"
        if un: "collected_unavailable acc' = []" "x \<in> insert (sid, out) D" for x
      proof (cases "x = (sid, out)")
        case False
        then obtain q where "read_review env s x = Some q"
          "obj_get (collected_latest acc) (payload_category q) \<noteq> None \<or> payload_category q \<in> set (collected_stale acc)"
          using ok un unfolding collected_def acc'(3) by blast
        then show ?thesis by (auto simp: acc')
      qed (use read in \<open>simp add: acc'\<close>)
      moreover have "payload_base q = run_head s \<and> payload_category q = c \<and>
          (\<exists>x\<in>insert (sid, out) D. read_review env s x = Some q)"
        if "obj_get (collected_latest acc') c = Some q" for c q
        using that ok read True by (auto simp: acc' collected_def split: if_splits)
      ultimately show ?thesis unfolding collected_def by blast
    next
      case False
      then have "acc' = acc\<lparr>collected_stale := collected_stale acc @ [payload_category p]\<rparr>"
        using c env f Some p by (simp add: collect_review_def)
      then show ?thesis using ok read by (auto simp: collected_def)
    qed
  qed
qed

lemma collect_outputs_collected:
  assumes env: "env_latest env = Some latest"
  shows "collect_outputs env s sid outs acc = Inr acc' \<Longrightarrow> collected env s D acc \<Longrightarrow>
    collected env s (Pair sid ` set outs \<union> D) acc'"
proof (induction outs arbitrary: acc D)
  case (Cons out outs)
  then obtain acc1 where c: "collect_review env s sid out acc = Inr acc1" "collect_outputs env s sid outs acc1 = Inr acc'"
    by (auto simp: and_then_Inr)
  from Cons.IH[OF c(2) collect_review_collected[OF env c(1) Cons.prems(2)]] show ?case by simp
qed simp

lemma collected_unavailable_mono:
  "collect_review env s sid out acc = Inr acc' \<Longrightarrow> collected_unavailable acc \<noteq> [] \<Longrightarrow> collected_unavailable acc' \<noteq> []"
  by (auto simp: collect_review_def and_then_Inr split: option.splits if_splits)

lemma collect_outputs_unavailable:
  "collect_outputs env s sid outs acc = Inr acc' \<Longrightarrow> collected_unavailable acc \<noteq> [] \<Longrightarrow> collected_unavailable acc' \<noteq> []"
  by (induction outs arbitrary: acc) (auto simp: and_then_Inr dest: collected_unavailable_mono)

lemma collect_reviews_unavailable:
  "collect_reviews env s steps acc = Inr acc' \<Longrightarrow> collected_unavailable acc \<noteq> [] \<Longrightarrow> collected_unavailable acc' \<noteq> []"
proof (induction steps arbitrary: acc)
  case (Cons x steps)
  then show ?case
    by (cases x) (auto simp: and_then_Inr dest: collect_outputs_unavailable split: if_splits)
qed simp

lemma collect_reviews_collected:
  assumes env: "env_latest env = Some latest"
  shows "collect_reviews env s steps acc = Inr acc' \<Longrightarrow> collected env s D acc \<Longrightarrow>
    collected env s ((\<Union>(sid, outs)\<in>set steps. Pair sid ` set outs) \<union> D) acc' \<and>
    (collected_unavailable acc' = [] \<longrightarrow> (\<forall>(sid, outs)\<in>set steps. outs \<noteq> []))"
proof (induction steps arbitrary: acc D)
  case (Cons x steps)
  obtain sid outs where x: "x = (sid, outs)" by (cases x)
  show ?case
  proof (cases "outs = []")
    case True
    let ?acc = "acc\<lparr>collected_unavailable := collected_unavailable acc @ [sid]\<rparr>"
    have run: "collect_reviews env s steps ?acc = Inr acc'" using Cons.prems(1) by (simp add: x True)
    have "collected env s D ?acc" using Cons.prems(2) by (simp add: collected_def)
    from Cons.IH[OF run this] collect_reviews_unavailable[OF run] show ?thesis by (simp add: x True)
  next
    case False
    from Cons.prems(1) obtain acc1 where c: "collect_outputs env s sid outs acc = Inr acc1"
      "collect_reviews env s steps acc1 = Inr acc'" by (auto simp: x False and_then_Inr)
    from Cons.IH[OF c(2) collect_outputs_collected[OF env c(1) Cons.prems(2)]] show ?thesis
      by (simp add: x False Un_ac)
  qed
qed simp

text \<open>
  Outcomes without a gap: every review of the run is available, and its category has a review of
  the final head whose open findings need no repair.
\<close>

definition covered :: "finalization_env \<Rightarrow> run_state \<Rightarrow> review_finding list \<Rightarrow> string \<Rightarrow> bool" where
  "covered env s risks category \<longleftrightarrow> (\<exists>x q. read_review env s x = Some q \<and> payload_category q = category \<and>
     payload_base q = run_head s \<and>
     (category \<in> category_text ` set REVIEW_CATEGORIES \<longrightarrow> set (payload_risks q) \<subseteq> set risks))"

lemma review_outcomes_sound:
  assumes r: "review_outcomes env s = Inr oc" and gap: "outcome_gap oc = None"
    and step: "(sid, outs) \<in> set (review_steps s)"
  shows "outs \<noteq> []" "out \<in> set outs \<Longrightarrow> \<exists>p. read_review env s (sid, out) = Some p \<and>
      covered env s (outcome_risks oc) (payload_category p)"
    "\<forall>f\<in>set (outcome_risks oc). \<not> requires_automatic_repair f"
proof -
  have ne: "review_steps s \<noteq> []" using step by auto
  obtain latest where env: "env_latest env = Some latest"
    using r gap ne by (cases "env_latest env") (auto simp: review_outcomes_def Let_def unavailable_gap_def)
  let ?init = "\<lparr>collected_latest = [], collected_stale = [], collected_unavailable = []\<rparr> :: review_collection"
  obtain acc where acc: "collect_reviews env s (review_steps s) ?init = Inr acc"
    using r ne env by (auto simp: review_outcomes_def Let_def and_then_Inr)
  have init: "collected env s {} ?init" by (simp add: collected_def obj_get_def)
  let ?D = "(\<Union>(sid, outs)\<in>set (review_steps s). Pair sid ` set outs) \<union> {}"
  from collect_reviews_collected[OF env acc init] have col: "collected env s ?D acc"
    and outs: "collected_unavailable acc = [] \<Longrightarrow> \<forall>(sid, outs)\<in>set (review_steps s). outs \<noteq> []" by auto
  let ?payloads = "List.map_filter (\<lambda>c. case obj_get (collected_latest acc) (category_text c) of
                  None \<Rightarrow> None | Some p \<Rightarrow> Some (c, p)) REVIEW_CATEGORIES"
  let ?risks = "sort_by (\<lambda>x y. env_locale_le env (finding_id x) (finding_id y)) (concat (map (\<lambda>(c, p). payload_risks p) ?payloads))"
  have av: "collected_unavailable acc = []"
    and miss: "filter (\<lambda>c. obj_get (collected_latest acc) c = None) (unique (collected_stale acc)) = []"
    and unrep: "filter requires_automatic_repair ?risks = []" and oc: "outcome_risks oc = ?risks"
    using r gap ne env acc by (auto simp: review_outcomes_def Let_def unavailable_gap_def split: if_splits)
  show "outs \<noteq> []" using outs[OF av] step by auto
  show "\<forall>f\<in>set (outcome_risks oc). \<not> requires_automatic_repair f" using unrep by (simp add: oc filter_empty_conv)
  show "\<exists>p. read_review env s (sid, out) = Some p \<and> covered env s (outcome_risks oc) (payload_category p)"
    if out: "out \<in> set outs"
  proof -
    have "(sid, out) \<in> ?D" using step out by auto
    then obtain p where p: "read_review env s (sid, out) = Some p"
      "obj_get (collected_latest acc) (payload_category p) \<noteq> None \<or> payload_category p \<in> set (collected_stale acc)"
      using col av unfolding collected_def by blast
    have "obj_get (collected_latest acc) (payload_category p) \<noteq> None"
      using p(2) miss by (auto simp: filter_empty_conv)
    then obtain q where q: "obj_get (collected_latest acc) (payload_category p) = Some q" by auto
    then have qf: "payload_base q = run_head s" "payload_category q = payload_category p"
      "\<exists>x. read_review env s x = Some q" using col unfolding collected_def by blast+
    have "set (payload_risks q) \<subseteq> set ?risks" if cat: "payload_category p \<in> category_text ` set REVIEW_CATEGORIES"
    proof -
      obtain c where c: "c \<in> set REVIEW_CATEGORIES" "payload_category p = category_text c"
        using cat unfolding image_iff by blast
      then have "(c, q) \<in> set ?payloads" using q by (force simp: List.map_filter_def)
      then show ?thesis by (auto simp: oc)
    qed
    then have "covered env s ?risks (payload_category p)" using qf unfolding covered_def by blast
    then show ?thesis using p(1) oc by auto
  qed
qed

lemma finalize_merge_ready:
  assumes f: "finalize_workflow_run env s attempt aborted ready = Inr f" and m: "final_merge_ready f = Some m"
  shows "assert_finalizable_state s = Inr ()"
    "\<exists>oc. review_outcomes env s = Inr oc \<and> outcome_gap oc = None \<and> ready_risks m = outcome_risks oc"
    "\<exists>path e. run_final_suite env s path = Inr e \<and> final_passed e \<and> ready_checks m = final_checks e"
    "integrated_commit_evidence s = Inr (ready_commits m)" "ready_head m = run_head s"
    "\<exists>time. env_history env (ready_commits m) time = Inr (ready_git m)"
proof -
  from f obtain oc where a: "assert_finalizable_state s = Inr ()" and oc: "review_outcomes env s = Inr oc"
    by (auto simp: finalize_workflow_run_def and_then_Inr)
  have gap: "\<not> truthy (outcome_gap oc)"
    using f m a oc by (auto simp: finalize_workflow_run_def)
  from f a oc gap obtain path e where p: "run_final_suite env s path = Inr e"
    and rest: "(if \<not> final_passed e then
         Inr \<lparr>final_evidence_of = Some e, final_merge_ready = None, final_gap = None, final_worktree = Some path\<rparr>
       else
         and_then (integrated_commit_evidence s) (\<lambda>commits.
         and_then (env_history env commits (env_time env)) (\<lambda>git.
         Inr \<lparr>final_evidence_of = Some e,
           final_merge_ready = Some \<lparr>ready_generated = env_time env, ready_branch = run_branch s,
             ready_head = run_head s, ready_base_branch = run_base_branch s, ready_base_commit = run_base_commit s,
             ready_commits = commits, ready_reviews = outcome_summaries oc, ready_risks = outcome_risks oc,
             ready_checks = final_checks e, ready_git = git\<rparr>,
           final_gap = None, final_worktree = Some path\<rparr>))) = Inr f"
    unfolding finalize_workflow_run_def by (simp add: and_then_Inr) blast
  have "outcome_gap oc \<noteq> Some []"
    using oc by (auto simp: review_outcomes_def unavailable_gap_def Let_def and_then_Inr split: if_splits)
  then have "outcome_gap oc = None" using gap by (auto simp: truthy_def split: option.splits)
  moreover have e: "final_passed e" using rest m by (auto split: if_splits)
  moreover from rest e m obtain commits git where "integrated_commit_evidence s = Inr commits"
    "env_history env commits (env_time env) = Inr git"
    and "m = \<lparr>ready_generated = env_time env, ready_branch = run_branch s,
             ready_head = run_head s, ready_base_branch = run_base_branch s, ready_base_commit = run_base_commit s,
             ready_commits = commits, ready_reviews = outcome_summaries oc, ready_risks = outcome_risks oc,
             ready_checks = final_checks e, ready_git = git\<rparr>"
    by (auto simp: and_then_Inr)
  ultimately show "assert_finalizable_state s = Inr ()"
    "\<exists>oc. review_outcomes env s = Inr oc \<and> outcome_gap oc = None \<and> ready_risks m = outcome_risks oc"
    "\<exists>path e. run_final_suite env s path = Inr e \<and> final_passed e \<and> ready_checks m = final_checks e"
    "integrated_commit_evidence s = Inr (ready_commits m)" "ready_head m = run_head s"
    "\<exists>time. env_history env (ready_commits m) time = Inr (ready_git m)"
    using a oc p by auto
qed

subsection \<open>What a finalizable run has done\<close>

lemma each_check_all: "each_check f xs = Inr () \<Longrightarrow> x \<in> set xs \<Longrightarrow> f x = Inr ()"
  by (induction xs) (auto simp: and_then_Inr)

lemma assert_finalizable_done:
  assumes "assert_finalizable_state s = Inr ()"
  shows "run_state s = RunCompleted" "sid \<in> set (topological_step_ids (run_plan s)) \<Longrightarrow> step_done s sid"
proof -
  from assms show "run_state s = RunCompleted" by (auto simp: assert_finalizable_state_def and_then_Inr)
  assume sid: "sid \<in> set (topological_step_ids (run_plan s))"
  from assms have all: "each_check (check_finalizable_step s) (topological_step_ids (run_plan s)) = Inr ()"
    by (auto simp: assert_finalizable_state_def and_then_Inr)
  have "check_finalizable_step s sid = Inr ()" by (rule each_check_all[OF all sid])
  then show "step_done s sid"
    by (auto simp: check_finalizable_step_def step_done_def Let_def truthy_def split: option.splits if_splits)
qed

lemma validate_final_rejected: "validate_final env verify commands = Rejected m e \<Longrightarrow> \<not> final_passed e"
  by (auto simp: validate_final_def final_failure_def dest: run_final_commands_failed split: sum.splits)

lemma run_final_suite_passed:
  assumes "run_final_suite env s path = Inr e" and "final_passed e"
    and "env_validate env path (run_head s) (plan_final (run_plan s)) = validate_final venv verify (plan_final (run_plan s))"
  shows "list_all check_passed (final_checks e)" "map check_command (final_checks e) = plan_final (run_plan s)"
    "verify 0 = Inr ()"
proof -
  have v: "validate_final venv verify (plan_final (run_plan s)) = Validated e"
    using assms validate_final_rejected[of venv verify "plan_final (run_plan s)"]
    by (auto simp: run_final_suite_def Let_def and_then_Inr split: validation_outcome.splits)
  show "list_all check_passed (final_checks e)" "map check_command (final_checks e) = plan_final (run_plan s)"
    "verify 0 = Inr ()" using validate_final_passed[OF v] by auto
qed

text \<open>And such a run is finalized once its reviews cover the head and its suite passes.\<close>

lemma finalize_succeeds:
  assumes "assert_finalizable_state s = Inr ()" and "review_outcomes env s = Inr oc" and "outcome_gap oc = None"
    and "env_worktree env (case attempt of None \<Rightarrow> 1 | Some n \<Rightarrow> n) (run_head s) = Inr path"
    and "run_final_suite env s path = Inr e" and "final_passed e"
    and "integrated_commit_evidence s = Inr cs" and "env_history env cs (env_time env) = Inr git"
  shows "\<exists>f m. finalize_workflow_run env s attempt None (Inr ()) = Inr f \<and> final_merge_ready f = Some m \<and>
    ready_commits m = cs \<and> ready_git m = git"
  using assms by (simp add: finalize_workflow_run_def and_then_def truthy_def)

end
