(* ===== verification/ArtifactStore.thy ===== *)
theory ArtifactStore
  imports Artifacts ArtifactRouting
begin

text \<open>
  \<open>src/src/storage/artifact-store.ts\<close>: the files of every run directory as an association list
  from file names to what their text parses to (a JSON value, or the message of the failed
  parse), and the operations of the store on them. A write holds the lock of its run from the first read
  to the last deletion, so it is one step. What the code takes from outside is the record
  \<open>store_env\<close>: the directory, the clock, the SHA-256 digest, \<open>JSON.stringify\<close> and \<open>JSON.parse\<close> of payload texts, the order of
  \<open>localeCompare\<close>, the size of a file and the limits of the store.
\<close>

record store_env =
  env_directory :: string
  env_clock :: "nat \<Rightarrow> string"
  env_sha :: "string \<Rightarrow> string"
  env_print :: "json \<Rightarrow> string"
  env_parse :: "string \<Rightarrow> json option"
  env_sort :: "string list \<Rightarrow> string list"
  env_size :: "string + json \<Rightarrow> nat"
  env_max_bytes :: nat
  env_max_count :: nat
  env_max_run_bytes :: nat
  env_retained :: "nat option"

type_synonym stored_file = "string + json"
type_synonym artifact_files = "string \<Rightarrow> stored_file obj"

subsection \<open>Options\<close>

definition DEFAULT_MAX_ARTIFACT_BYTES :: nat where "DEFAULT_MAX_ARTIFACT_BYTES = 4 * 1024 * 1024"
definition DEFAULT_MAX_RUN_ARTIFACTS :: nat where "DEFAULT_MAX_RUN_ARTIFACTS = 500"
definition DEFAULT_MAX_RUN_BYTES :: nat where "DEFAULT_MAX_RUN_BYTES = 64 * 1024 * 1024"

definition positive_integer :: "json \<Rightarrow> string \<Rightarrow> nat result" where
  "positive_integer v name =
     (if \<not> is_safe_integer v \<or> to_int v < 1 then Inl (Error (name @ '' must be a positive safe integer''))
      else Inr (nat (to_int v)))"

record store_options =
  option_max_bytes :: "rat option"
  option_max_count :: "rat option"
  option_max_run_bytes :: "rat option"
  option_retained :: "rat option"

definition option_or :: "rat option \<Rightarrow> nat \<Rightarrow> json" where
  "option_or v fallback = JNum (case v of None \<Rightarrow> of_nat fallback | Some n \<Rightarrow> n)"

definition create_artifact_store :: "store_env \<Rightarrow> store_options \<Rightarrow> store_env result" where
  "create_artifact_store env opts =
     and_then (positive_integer (option_or (option_max_bytes opts) DEFAULT_MAX_ARTIFACT_BYTES) ''maxArtifactBytes'') (\<lambda>b.
     and_then (positive_integer (option_or (option_max_count opts) DEFAULT_MAX_RUN_ARTIFACTS) ''maxRunArtifacts'') (\<lambda>c.
     and_then (positive_integer (option_or (option_max_run_bytes opts) DEFAULT_MAX_RUN_BYTES) ''maxRunBytes'') (\<lambda>rb.
     and_then (case option_retained opts of None \<Rightarrow> Inr None
         | Some n \<Rightarrow> and_then (positive_integer (JNum n) ''retainedAttemptsPerOutput'') (\<lambda>k. Inr (Some k))) (\<lambda>k.
     Inr (env\<lparr>env_max_bytes := b, env_max_count := c, env_max_run_bytes := rb, env_retained := k\<rparr>)))))"

subsection \<open>Files\<close>

definition invalid_artifact :: "string \<Rightarrow> js_error" where
  "invalid_artifact m = ArtifactStoreError InvalidArtifact m"

definition json_name :: "string \<Rightarrow> string" where
  "json_name artifact = artifact @ ''.json''"

definition run_directory :: "artifact_files \<Rightarrow> string \<Rightarrow> stored_file obj result" where
  "run_directory st run =
     (if run_id_pattern run then Inr (st run) else Inl (invalid_artifact (''Unsafe run id: '' @ run)))"

definition list_file_names :: "store_env \<Rightarrow> artifact_files \<Rightarrow> string \<Rightarrow> string list result" where
  "list_file_names env st run =
     and_then (run_directory st run) (\<lambda>files.
       Inr (env_sort env (filter (\<lambda>n. ends_with n ''.json'') (obj_keys files))))"

definition file_path :: "store_env \<Rightarrow> string \<Rightarrow> string \<Rightarrow> string" where
  "file_path env run name = env_directory env @ ''/'' @ run @ ''/'' @ name"

definition read_record_file :: "store_env \<Rightarrow> artifact_files \<Rightarrow> string \<Rightarrow> string \<Rightarrow> artifact_record result" where
  "read_record_file env st run name =
     and_then (run_directory st run) (\<lambda>files.
     case obj_get files name of
       None \<Rightarrow> Inl (ArtifactStoreError ArtifactNotFound (''Artifact not found: '' @ file_path env run name))
     | Some content \<Rightarrow>
         (case (case content of
              Inl m \<Rightarrow> Inl (Error m)
            | Inr v \<Rightarrow> validate_artifact_record (env_sha env) (env_parse env) v) of
            Inl e \<Rightarrow> Inl (ArtifactStoreError ArtifactCorrupt
              (''Corrupt artifact record in '' @ file_path env run name @ '': '' @ error_message e))
          | Inr r \<Rightarrow>
              if artifact_run r \<noteq> run \<or> json_name (artifact_id r) \<noteq> name then
                Inl (ArtifactStoreError ArtifactCorrupt (''Corrupt artifact record in '' @ file_path env run name @
                  '': stored identity does not match its location''))
              else Inr r))"

definition write_identity :: "artifact_write \<Rightarrow> artifact_identity" where
  "write_identity w = \<lparr>identity_step = write_step w, identity_output = write_output w,
     identity_attempt = of_nat (write_attempt w)\<rparr>"

definition as_invalid :: "'a result \<Rightarrow> 'a result" where
  "as_invalid r = (case r of Inl e \<Rightarrow> Inl (invalid_artifact (error_message e)) | Inr v \<Rightarrow> Inr v)"

definition build_record :: "store_env \<Rightarrow> artifact_write \<Rightarrow> string \<Rightarrow> artifact_record result" where
  "build_record env w now =
     and_then (require (run_id_pattern (write_run w))
       (invalid_artifact (''Unsafe run id: '' @ write_run w))) (\<lambda>_.
     and_then (require (write_title w \<noteq> [] \<and> length (write_title w) \<le> MAX_ARTIFACT_TITLE_LENGTH)
       (invalid_artifact (''artifact title must be 1 to '' @ js_nat MAX_ARTIFACT_TITLE_LENGTH @ '' characters''))) (\<lambda>_.
     and_then (as_invalid (artifact_id_for (write_identity w))) (\<lambda>i.
     and_then (as_invalid (serialize_artifact_payload (env_print env) (write_kind w) (write_payload w))) (\<lambda>payload.
     and_then (require (byte_length payload \<le> env_max_bytes env)
       (ArtifactStoreError ArtifactTooLarge (''Artifact '' @ i @ '' payload is '' @ js_nat (byte_length payload) @
         '' bytes; the limit is '' @ js_nat (env_max_bytes env) @ '' bytes''))) (\<lambda>_.
     Inr \<lparr>artifact_id = i, artifact_run = write_run w, artifact_step = write_step w,
          artifact_output = write_output w, artifact_attempt = of_nat (write_attempt w),
          artifact_kind = write_kind w, artifact_media = ARTIFACT_KIND_MEDIA_TYPES (write_kind w),
          artifact_title = write_title w, artifact_created = now, artifact_size = byte_length payload,
          artifact_hash = artifact_content_hash (env_sha env) payload, artifact_text = payload\<rparr>)))))"

definition stored_bytes :: "store_env \<Rightarrow> stored_file obj \<Rightarrow> string list \<Rightarrow> nat" where
  "stored_bytes env files names =
     sum_list (map (\<lambda>n. case obj_get files n of None \<Rightarrow> 0 | Some c \<Rightarrow> env_size env c) names)"

definition enforce_run_limits :: "store_env \<Rightarrow> artifact_files \<Rightarrow> artifact_record \<Rightarrow> unit result" where
  "enforce_run_limits env st r =
     and_then (list_file_names env st (artifact_run r)) (\<lambda>names.
     and_then (require (Suc (length names) \<le> env_max_count env)
       (ArtifactStoreError ArtifactCountExceeded (''Run '' @ artifact_run r @ '' already stores '' @
         js_nat (length names) @ '' artifacts; the limit is '' @ js_nat (env_max_count env)))) (\<lambda>_.
     let stored = stored_bytes env (st (artifact_run r)) names;
         added = env_size env (Inr (artifact_json r))
     in require (stored + added \<le> env_max_run_bytes env)
       (ArtifactStoreError ArtifactBytesExceeded (''Run '' @ artifact_run r @ '' stores '' @ js_nat stored @
         '' artifact bytes; adding '' @ js_nat added @ '' bytes exceeds the '' @
         js_nat (env_max_run_bytes env) @ '' byte limit''))))"

text \<open>Linking the finished file fails when the name is taken.\<close>

definition publish_exclusive :: "artifact_files \<Rightarrow> artifact_record \<Rightarrow> artifact_files \<times> bool" where
  "publish_exclusive st r =
     (let name = json_name (artifact_id r); files = st (artifact_run r) in
      if obj_get files name \<noteq> None then (st, False)
      else (st(artifact_run r := obj_set files name (Inr (artifact_json r))), True))"

text \<open>\<open>fileName.slice(0, -".json".length)\<close>, and the identity a file name stands for.\<close>

definition name_identity :: "string \<Rightarrow> artifact_identity option" where
  "name_identity name = (case parse_artifact_id (take (length name - 5) name) of
       Inr i \<Rightarrow> Some i | Inl _ \<Rightarrow> None)"

definition output_attempts :: "string list \<Rightarrow> string \<Rightarrow> string \<Rightarrow> (rat \<times> string) list" where
  "output_attempts names sid out = List.map_filter (\<lambda>n. case name_identity n of
       None \<Rightarrow> None
     | Some i \<Rightarrow> if identity_step i = sid \<and> identity_output i = out then Some (identity_attempt i, n) else None) names"

definition remove_file :: "stored_file obj \<Rightarrow> string \<Rightarrow> stored_file obj" where
  "remove_file files name = filter (\<lambda>(n, c). n \<noteq> name) files"

definition apply_retention :: "store_env \<Rightarrow> artifact_files \<Rightarrow> artifact_record \<Rightarrow> artifact_files result" where
  "apply_retention env st r = (case env_retained env of
       None \<Rightarrow> Inr st
     | Some keep \<Rightarrow>
         and_then (list_file_names env st (artifact_run r)) (\<lambda>names.
         let attempts = sort_key (\<lambda>(n, name). - n) (output_attempts names (artifact_step r) (artifact_output r))
         in Inr (st(artifact_run r := foldl remove_file (st (artifact_run r)) (map snd (drop keep attempts))))))"

definition reconcile_existing :: "artifact_record \<Rightarrow> artifact_record \<Rightarrow> artifact_record result" where
  "reconcile_existing existing proposed =
     (if artifact_hash existing = artifact_hash proposed \<and> artifact_text existing = artifact_text proposed \<and>
         artifact_kind existing = artifact_kind proposed \<and> artifact_title existing = artifact_title proposed
      then Inr existing
      else Inl (ArtifactStoreError ArtifactExists (''Artifact '' @ artifact_id proposed @ '' already exists in run '' @
        artifact_run proposed @ '' with different content'')))"

definition read_existing :: "store_env \<Rightarrow> artifact_files \<Rightarrow> string \<Rightarrow> string \<Rightarrow> artifact_record option result" where
  "read_existing env st run artifact = (case read_record_file env st run (json_name artifact) of
       Inr r \<Rightarrow> Inr (Some r)
     | Inl (ArtifactStoreError ArtifactNotFound m) \<Rightarrow> Inr None
     | Inl e \<Rightarrow> Inl e)"

definition write_artifact ::
    "store_env \<Rightarrow> string \<Rightarrow> artifact_files \<Rightarrow> artifact_write \<Rightarrow> artifact_files \<times> artifact_record result" where
  "write_artifact env now st w = (case build_record env w now of
       Inl e \<Rightarrow> (st, Inl e)
     | Inr r \<Rightarrow> (case read_existing env st (artifact_run r) (artifact_id r) of
           Inl e \<Rightarrow> (st, Inl e)
         | Inr (Some existing) \<Rightarrow> (st, reconcile_existing existing r)
         | Inr None \<Rightarrow> (case enforce_run_limits env st r of
               Inl e \<Rightarrow> (st, Inl e)
             | Inr _ \<Rightarrow> (case publish_exclusive st r of
                   (st', False) \<Rightarrow> (st', and_then (read_record_file env st' (artifact_run r) (json_name (artifact_id r)))
                     (\<lambda>published. reconcile_existing published r))
                 | (st', True) \<Rightarrow> (case apply_retention env st' r of
                       Inl e \<Rightarrow> (st', Inl e)
                     | Inr st'' \<Rightarrow> (st'', Inr r))))))"

definition read_artifact :: "store_env \<Rightarrow> artifact_files \<Rightarrow> string \<Rightarrow> string \<Rightarrow> artifact_record result" where
  "read_artifact env st run artifact =
     and_then (as_invalid (parse_artifact_id artifact)) (\<lambda>_. read_record_file env st run (json_name artifact))"

definition newest_identity :: "string \<Rightarrow> string \<Rightarrow> artifact_identity option \<Rightarrow> string \<Rightarrow> artifact_identity option" where
  "newest_identity sid out newest name = (case name_identity name of
       None \<Rightarrow> newest
     | Some i \<Rightarrow>
         if identity_step i \<noteq> sid \<or> identity_output i \<noteq> out then newest
         else (case newest of
             None \<Rightarrow> Some i
           | Some j \<Rightarrow> if identity_attempt j < identity_attempt i then Some i else newest))"

definition latest_artifact ::
    "store_env \<Rightarrow> artifact_files \<Rightarrow> string \<Rightarrow> string \<Rightarrow> string \<Rightarrow> artifact_record option result" where
  "latest_artifact env st run sid out =
     and_then (list_file_names env st run) (\<lambda>names.
     case foldl (newest_identity sid out) None names of
       None \<Rightarrow> Inr None
     | Some i \<Rightarrow> and_then (artifact_id_for i) (\<lambda>a.
         and_then (read_artifact env st run a) (\<lambda>r. Inr (Some r))))"

datatype stored_entry = StoredArtifact artifact_summary | Unreadable string string

definition scan_artifacts :: "store_env \<Rightarrow> artifact_files \<Rightarrow> string \<Rightarrow> stored_entry list result" where
  "scan_artifacts env st run =
     and_then (list_file_names env st run) (\<lambda>names.
       Inr (map (\<lambda>n. case read_record_file env st run n of
           Inr r \<Rightarrow> StoredArtifact (summary_of r) | Inl e \<Rightarrow> Unreadable n (error_message e)) names))"

definition unreadable_entry :: "stored_entry \<Rightarrow> (string \<times> string) option" where
  "unreadable_entry e = (case e of StoredArtifact _ \<Rightarrow> None | Unreadable n m \<Rightarrow> Some (n, m))"

definition list_artifacts :: "store_env \<Rightarrow> artifact_files \<Rightarrow> string \<Rightarrow> artifact_summary list result" where
  "list_artifacts env st run =
     and_then (scan_artifacts env st run) (\<lambda>entries.
       case List.map_filter unreadable_entry entries of
         (n, m) # _ \<Rightarrow> Inl (ArtifactStoreError ArtifactCorrupt (''Failed to list artifact '' @ n @ '': '' @ m))
       | [] \<Rightarrow> Inr (List.map_filter (\<lambda>e. case e of StoredArtifact r \<Rightarrow> Some r | Unreadable _ _ \<Rightarrow> None) entries))"

definition prune_run :: "artifact_files \<Rightarrow> string \<Rightarrow> artifact_files result" where
  "prune_run st run = and_then (run_directory st run) (\<lambda>_. Inr (st(run := [])))"

subsection \<open>A store that only this code wrote\<close>

text \<open>What the documented behaviour of the outside functions is.\<close>

definition env_ok :: "store_env \<Rightarrow> bool" where
  "env_ok env \<longleftrightarrow> (\<forall>xs. mset (env_sort env xs) = mset xs) \<and>
     (\<forall>t. content_hash_pattern (artifact_content_hash (env_sha env) t)) \<and>
     (\<forall>v. v \<noteq> JUndefined \<longrightarrow> env_parse env (env_print env v) \<noteq> None) \<and>
     (\<forall>n. env_clock env n \<noteq> []) \<and> env_retained env \<noteq> Some 0"

definition files_ok :: "store_env \<Rightarrow> artifact_files \<Rightarrow> string \<Rightarrow> bool" where
  "files_ok env st run \<longleftrightarrow> distinct (obj_keys (st run)) \<and>
     (run_id_pattern run \<longrightarrow> (\<forall>n\<in>set (obj_keys (st run)). \<exists>r. read_record_file env st run n = Inr r))"

definition valid_store :: "store_env \<Rightarrow> artifact_files \<Rightarrow> bool" where
  "valid_store env st \<longleftrightarrow> env_ok env \<and> (\<forall>run. files_ok env st run)"

lemma env_sort_set: "env_ok env \<Longrightarrow> set (env_sort env xs) = set xs"
  unfolding env_ok_def by (metis set_mset_mset)

lemma run_directory_Inr [simp]: "run_directory st run = Inr fs \<longleftrightarrow> run_id_pattern run \<and> fs = st run"
  by (auto simp: run_directory_def)

lemma read_record_file_Inr:
  "read_record_file env st run name = Inr r \<longleftrightarrow> run_id_pattern run \<and>
     (\<exists>v. obj_get (st run) name = Some (Inr v) \<and> validate_artifact_record (env_sha env) (env_parse env) v = Inr r) \<and>
     artifact_run r = run \<and> json_name (artifact_id r) = name"
  by (auto simp: read_record_file_def and_then_Inr split: option.splits sum.splits if_splits)

lemma read_record_wf: "read_record_file env st run name = Inr r \<Longrightarrow> wf_artifact (env_sha env) (env_parse env) r"
  using validate_artifact_record_sound by (auto simp: read_record_file_Inr)

lemma json_name_identity: "name_identity (json_name i) = (case parse_artifact_id i of Inr x \<Rightarrow> Some x | Inl _ \<Rightarrow> None)"
  by (simp add: name_identity_def json_name_def)

lemma json_name_inj [simp]: "json_name a = json_name b \<longleftrightarrow> a = b"
  by (simp add: json_name_def)

lemma json_name_ends [simp]: "ends_with (json_name i) ''.json''"
  by (simp add: ends_with_def json_name_def suffix_def)

lemma record_name_identity:
  assumes "read_record_file env st run name = Inr r"
  shows "name_identity name = Some (record_identity r)" "artifact_id_for (record_identity r) = Inr (artifact_id r)"
    "ends_with name ''.json''"
proof -
  have n: "name = json_name (artifact_id r)" using assms by (auto simp: read_record_file_Inr)
  show a: "artifact_id_for (record_identity r) = Inr (artifact_id r)"
    using read_record_wf[OF assms] by (simp add: wf_artifact_def)
  show "name_identity name = Some (record_identity r)"
    by (simp add: n json_name_identity parse_artifact_id_for[OF a])
  show "ends_with name ''.json''" by (simp add: n)
qed

lemma valid_names:
  assumes "valid_store env st" "run_id_pattern run"
  shows "\<exists>names. list_file_names env st run = Inr names \<and> set names = set (obj_keys (st run)) \<and>
    mset names = mset (obj_keys (st run))"
proof -
  have "filter (\<lambda>n. ends_with n ''.json'') (obj_keys (st run)) = obj_keys (st run)"
    using assms record_name_identity(3) unfolding valid_store_def files_ok_def by (intro filter_True) blast
  moreover have "mset (env_sort env xs) = mset xs" for xs using assms(1) by (simp add: valid_store_def env_ok_def)
  ultimately have "list_file_names env st run = Inr (env_sort env (obj_keys (st run)))" "mset (env_sort env (obj_keys (st run))) = mset (obj_keys (st run))"
    using assms(2) by (simp_all add: list_file_names_def and_then_Inr)
  then show ?thesis by (metis set_mset_mset)
qed

text \<open>An output is there when a file is named after an attempt of it.\<close>

definition has_output :: "artifact_files \<Rightarrow> string \<Rightarrow> string \<Rightarrow> string \<Rightarrow> bool" where
  "has_output st run sid out \<longleftrightarrow> (\<exists>n\<in>set (obj_keys (st run)). \<exists>i. name_identity n = Some i \<and>
     identity_step i = sid \<and> identity_output i = out)"

lemma newest_fold:
  "foldl (newest_identity sid out) acc names = Some i \<Longrightarrow>
     acc = Some i \<or> (\<exists>n\<in>set names. name_identity n = Some i \<and> identity_step i = sid \<and> identity_output i = out)"
proof (induction names arbitrary: acc)
  case (Cons n names)
  then have "foldl (newest_identity sid out) (newest_identity sid out acc n) names = Some i" by simp
  from Cons.IH[OF this] show ?case
    by (auto simp: newest_identity_def split: option.splits if_splits)
qed simp

lemma newest_fold_None:
  "foldl (newest_identity sid out) acc names = None \<longleftrightarrow> acc = None \<and>
     (\<forall>n\<in>set names. \<forall>i. name_identity n = Some i \<longrightarrow> identity_step i = sid \<longrightarrow> identity_output i \<noteq> out)"
proof (induction names arbitrary: acc)
  case (Cons n names)
  show ?case by (simp add: Cons.IH) (auto simp: newest_identity_def split: option.splits if_splits)
qed simp

lemma latest_artifact_exact:
  assumes v: "valid_store env st" and run: "run_id_pattern run"
  shows "(\<exists>r. latest_artifact env st run sid out = Inr (Some r)) \<longleftrightarrow> has_output st run sid out"
    "\<exists>x. latest_artifact env st run sid out = Inr x"
proof -
  obtain names where names: "list_file_names env st run = Inr names" "set names = set (obj_keys (st run))"
    using valid_names[OF assms] by blast
  let ?f = "foldl (newest_identity sid out) None names"
  have found: "\<exists>r. latest_artifact env st run sid out = Inr (Some r)" if i: "?f = Some i" for i
  proof -
    obtain n where n: "n \<in> set (obj_keys (st run))" "name_identity n = Some i"
      using newest_fold[OF i] names(2) by auto
    then obtain r where r: "read_record_file env st run n = Inr r"
      using v run by (auto simp: valid_store_def files_ok_def)
    note nr = record_name_identity[OF r]
    have i: "i = record_identity r" using n(2) nr(1) by simp
    have "json_name (artifact_id r) = n" using r by (simp add: read_record_file_Inr)
    then have "read_artifact env st run (artifact_id r) = Inr r"
      using r parse_artifact_id_for[OF nr(2)] by (simp add: read_artifact_def and_then_def as_invalid_def)
    then show ?thesis using \<open>?f = Some i\<close> nr(2) names(1) by (simp add: latest_artifact_def and_then_def i)
  qed
  have none: "latest_artifact env st run sid out = Inr None" if "?f = None"
    using that names(1) by (simp add: latest_artifact_def and_then_def)
  show "\<exists>x. latest_artifact env st run sid out = Inr x" using found none by (cases ?f) blast+
  show "(\<exists>r. latest_artifact env st run sid out = Inr (Some r)) \<longleftrightarrow> has_output st run sid out"
  proof (cases ?f)
    case None
    then show ?thesis using none[OF None] newest_fold_None[of sid out None names] names(2) by (auto simp: has_output_def)
  next
    case (Some i)
    then show ?thesis using found[OF Some] newest_fold[OF Some] names(2) by (auto simp: has_output_def)
  qed
qed

lemma latest_artifact_identity:
  assumes "latest_artifact env st run sid out = Inr (Some r)"
  shows "artifact_run r = run \<and> artifact_step r = sid \<and> artifact_output r = out"
proof -
  from assms obtain names i a where i: "foldl (newest_identity sid out) None names = Some i"
    "artifact_id_for i = Inr a" "read_artifact env st run a = Inr r"
    unfolding latest_artifact_def and_then_Inr by (auto simp: and_then_Inr split: option.splits)
  have r: "read_record_file env st run (json_name a) = Inr r" using i(3) by (auto simp: read_artifact_def and_then_Inr)
  then have "artifact_id r = a" "artifact_run r = run" by (simp_all add: read_record_file_Inr)
  moreover have "record_identity r = i"
    using artifact_id_for_inj[OF record_name_identity(2)[OF r]] i(2) calculation(1) by simp
  moreover have "identity_step i = sid \<and> identity_output i = out" using newest_fold[OF i(1)] by auto
  ultimately show ?thesis by (auto simp: record_identity_def)
qed

subsection \<open>Writing keeps the store valid\<close>

lemma as_invalid_Inr [simp]: "as_invalid x = Inr v \<longleftrightarrow> x = Inr v"
  by (simp add: as_invalid_def split: sum.split)

lemma build_record_wf:
  assumes env: "env_ok env" and now: "now \<noteq> []" and b: "build_record env w now = Inr r"
  shows "wf_artifact (env_sha env) (env_parse env) r" "artifact_run r = write_run w"
    "record_identity r = write_identity w" "run_id_pattern (write_run w)"
proof -
  from b obtain i payload where b: "run_id_pattern (write_run w)" "write_title w \<noteq> []"
    "length (write_title w) \<le> MAX_ARTIFACT_TITLE_LENGTH" "artifact_id_for (write_identity w) = Inr i"
    and p: "serialize_artifact_payload (env_print env) (write_kind w) (write_payload w) = Inr payload"
    and r: "r = \<lparr>artifact_id = i, artifact_run = write_run w, artifact_step = write_step w,
          artifact_output = write_output w, artifact_attempt = of_nat (write_attempt w),
          artifact_kind = write_kind w, artifact_media = ARTIFACT_KIND_MEDIA_TYPES (write_kind w),
          artifact_title = write_title w, artifact_created = now, artifact_size = byte_length payload,
          artifact_hash = artifact_content_hash (env_sha env) payload, artifact_text = payload\<rparr>"
    unfolding build_record_def and_then_Inr require_Inr by auto
  show "artifact_run r = write_run w" "record_identity r = write_identity w" "run_id_pattern (write_run w)"
    using b(1) by (simp_all add: r record_identity_def write_identity_def)
  have "env_parse env payload \<noteq> None" if "ARTIFACT_KIND_FORMATS (write_kind w) = JsonFormat"
    using p that env by (auto simp: serialize_artifact_payload_def env_ok_def payload_format_of_def Let_def
        split: artifact_payload.splits if_splits)
  moreover have "content_hash_pattern (artifact_content_hash (env_sha env) payload)" using env by (simp add: env_ok_def)
  moreover have "artifact_id_for (record_identity r) = Inr i" using b(4) by (simp add: r record_identity_def write_identity_def)
  ultimately show "wf_artifact (env_sha env) (env_parse env) r"
    using b now by (simp add: wf_artifact_def r)
qed

lemma publish_files_ok:
  assumes v: "valid_store env st" and wf: "wf_artifact (env_sha env) (env_parse env) r"
    and run: "run_id_pattern (artifact_run r)" and p: "publish_exclusive st r = (st', True)"
  shows "valid_store env st'" "\<And>run sid out. has_output st run sid out \<Longrightarrow> has_output st' run sid out"
    "has_output st' (artifact_run r) (artifact_step r) (artifact_output r)"
proof -
  have st': "st' = st(artifact_run r := obj_set (st (artifact_run r)) (json_name (artifact_id r)) (Inr (artifact_json r)))"
    using p by (auto simp: publish_exclusive_def Let_def split: if_splits)
  have new: "read_record_file env st' (artifact_run r) (json_name (artifact_id r)) = Inr r"
    using validate_artifact_record_json[OF wf] run by (simp add: read_record_file_Inr st')
  have keys: "set (obj_keys (st' (artifact_run r))) = insert (json_name (artifact_id r)) (set (obj_keys (st (artifact_run r))))"
    by (auto simp: st' obj_keys_set)
  have old: "read_record_file env st' k n = read_record_file env st k n" if "k \<noteq> artifact_run r \<or> n \<noteq> json_name (artifact_id r)" for k n
    using that by (auto simp: read_record_file_def run_directory_def and_then_def st')
  have "files_ok env st' k" for k
  proof (cases "k = artifact_run r")
    case True
    have "distinct (obj_keys (st (artifact_run r)))" using v by (simp add: valid_store_def files_ok_def)
    then have "distinct (obj_keys (st' k))" by (simp add: True st' obj_distinct_set)
    moreover have "\<exists>x. read_record_file env st' k n = Inr x" if "n \<in> set (obj_keys (st' k))" for n
      using that new old[of k n] v run by (cases "n = json_name (artifact_id r)") (auto simp: True keys valid_store_def files_ok_def)
    ultimately show ?thesis by (simp add: files_ok_def)
  next
    case False
    then show ?thesis using v old[of k] by (simp add: valid_store_def files_ok_def st')
  qed
  then show "valid_store env st'" using v by (simp add: valid_store_def)
  show "has_output st' run sid out" if "has_output st run sid out" for run sid out
    using that keys by (cases "run = artifact_run r") (auto simp: has_output_def st')
  show "has_output st' (artifact_run r) (artifact_step r) (artifact_output r)"
    using keys record_name_identity(1)[OF new] by (auto simp: has_output_def record_identity_def)
qed

lemma remove_files_keys:
  "obj_keys (foldl remove_file files names) = filter (\<lambda>n. n \<notin> set names) (obj_keys files)"
proof (induction names arbitrary: files)
  case (Cons n names)
  have "obj_keys (remove_file files n) = filter (\<lambda>m. m \<noteq> n) (obj_keys files)"
    by (induction files) (auto simp: remove_file_def obj_keys_def)
  then show ?case using Cons.IH[of "remove_file files n"] by (auto intro: filter_cong)
qed simp

lemma remove_files_get:
  "n \<notin> set names \<Longrightarrow> obj_get (foldl remove_file files names) n = obj_get files n"
proof (induction names arbitrary: files)
  case (Cons m names)
  have "obj_get (remove_file files m) n = obj_get files n"
    using Cons.prems by (induction files) (auto simp: remove_file_def obj_get_def)
  then show ?case using Cons by simp
qed simp

lemma output_attempts_mem:
  "(a, n) \<in> set (output_attempts names sid out) \<longleftrightarrow> n \<in> set names \<and>
     (\<exists>i. name_identity n = Some i \<and> identity_step i = sid \<and> identity_output i = out \<and> a = identity_attempt i)"
proof (induction names)
  case (Cons m names)
  then show ?case by (auto simp: output_attempts_def split: option.splits if_splits)
qed (simp add: output_attempts_def)

lemma output_attempts_distinct: "distinct names \<Longrightarrow> distinct (map snd (output_attempts names sid out))"
proof (induction names)
  case (Cons m names)
  have "m \<notin> snd ` set (output_attempts names sid out)" using Cons.prems output_attempts_mem by fastforce
  then show ?case using Cons by (auto simp: output_attempts_def split: option.split)
qed (simp add: output_attempts_def)

lemma apply_retention_keeps:
  assumes v: "valid_store env st" and run: "run_id_pattern (artifact_run r)" and t: "apply_retention env st r = Inr st'"
  shows "valid_store env st'" "has_output st run sid out \<Longrightarrow> has_output st' run sid out"
proof -
  obtain gone where st': "st' = st(artifact_run r := foldl remove_file (st (artifact_run r)) gone)"
    and keep: "has_output st run sid out \<Longrightarrow> has_output st' run sid out"
  proof (cases "env_retained env")
    case None
    then have "st' = st" using t by (simp add: apply_retention_def)
    then show ?thesis using that[of "[]"] by simp
  next
    case (Some k)
    obtain names where names: "list_file_names env st (artifact_run r) = Inr names"
      "set names = set (obj_keys (st (artifact_run r)))" "mset names = mset (obj_keys (st (artifact_run r)))"
      using valid_names[OF v run] by blast
    let ?xs = "sort_key (\<lambda>(n, name). - n) (output_attempts names (artifact_step r) (artifact_output r))"
    have st': "st' = st(artifact_run r := foldl remove_file (st (artifact_run r)) (map snd (drop k ?xs)))"
      using t names(1) Some by (simp add: apply_retention_def and_then_def Let_def)
    have "distinct (obj_keys (st (artifact_run r)))" using v by (simp add: valid_store_def files_ok_def)
    then have dn: "distinct names" using names(3) by (metis mset_eq_imp_distinct_iff)
    have "mset (map snd ?xs) = mset (map snd (output_attempts names (artifact_step r) (artifact_output r)))" by simp
    then have dx: "distinct (map snd ?xs)"
      using output_attempts_distinct[OF dn] mset_eq_imp_distinct_iff by blast
    have "has_output st' run sid out" if h: "has_output st run sid out"
    proof -
      obtain n i where n: "n \<in> set (obj_keys (st run))" "name_identity n = Some i" "identity_step i = sid" "identity_output i = out"
        using h by (auto simp: has_output_def)
      show ?thesis
      proof (cases "run = artifact_run r \<and> sid = artifact_step r \<and> out = artifact_output r")
        case False
        then have "n \<notin> set (map snd (drop k ?xs)) \<or> run \<noteq> artifact_run r"
          using n(2-4) output_attempts_mem[of _ n names "artifact_step r" "artifact_output r"]
          by (auto dest!: in_set_dropD)
        then show ?thesis using n by (auto simp: has_output_def st' remove_files_keys)
      next
        case True
        have "(identity_attempt i, n) \<in> set ?xs" using n True names(2) by (simp add: output_attempts_mem)
        then obtain a m rest where xs: "?xs = (a, m) # rest" by (cases ?xs) auto
        have k: "k \<noteq> 0" using v Some by (auto simp: valid_store_def env_ok_def)
        then have "m \<notin> set (map snd (drop k ?xs))"
          using dx xs by (cases k) (auto dest!: in_set_dropD)
        moreover have "(a, m) \<in> set (output_attempts names (artifact_step r) (artifact_output r))"
          using xs by (metis list.set_intros(1) set_sort)
        ultimately show ?thesis
          using True names(2) by (auto simp: has_output_def st' remove_files_keys output_attempts_mem)
      qed
    qed
    with st' show ?thesis using that by blast
  qed
  then show "has_output st run sid out \<Longrightarrow> has_output st' run sid out" by blast
  have read: "read_record_file env st' k n = read_record_file env st k n"
    if "k \<noteq> artifact_run r \<or> n \<notin> set gone" for k n
    using that remove_files_get by (auto simp: read_record_file_def run_directory_def and_then_def st')
  have "files_ok env st' k" for k
    using v read[of k] by (cases "k = artifact_run r") (auto simp: valid_store_def files_ok_def st' remove_files_keys)
  then show "valid_store env st'" using v by (simp add: valid_store_def)
qed

text \<open>A write in one lemma: it fails and changes nothing, finds the artifact, or publishes it.\<close>

lemma write_artifact_cases:
  assumes v: "valid_store env st" and now: "now \<noteq> []" and w: "write_artifact env now st w = (st', res)"
  obtains "st' = st" "\<exists>e. res = Inl e"
    | r where "st' = st" "build_record env w now = Inr r" "res = reconcile_existing (the (projr
        (read_existing env st (artifact_run r) (artifact_id r)))) r"
        "\<exists>x. read_record_file env st (artifact_run r) (json_name (artifact_id r)) = Inr x"
    | r st1 where "build_record env w now = Inr r" "publish_exclusive st r = (st1, True)"
        "apply_retention env st1 r = Inr st'" "res = Inr r" "enforce_run_limits env st r = Inr ()"
        "\<not> (\<exists>x. read_record_file env st (artifact_run r) (json_name (artifact_id r)) = Inr x)"
proof (cases "build_record env w now")
  case (Inl e)
  then have "st' = st" "res = Inl e" using w by (simp_all add: write_artifact_def)
  then show ?thesis using that(1) by blast
next
  case (Inr r)
  have run: "run_id_pattern (artifact_run r)"
    using build_record_wf(2,4)[OF _ now Inr] v by (simp add: valid_store_def)
  show ?thesis
  proof (cases "read_existing env st (artifact_run r) (artifact_id r)")
    case (Inl e)
    then have "st' = st" "res = Inl e" using w Inr by (simp_all add: write_artifact_def)
    then show ?thesis using that(1) by blast
  next
    case ex: (Inr x)
    show ?thesis
    proof (cases x)
      case (Some old)
      have "read_record_file env st (artifact_run r) (json_name (artifact_id r)) = Inr old"
        using ex Some by (auto simp: read_existing_def split: sum.splits js_error.splits artifact_error_code.splits)
      then show ?thesis using w Inr ex Some that(2)[of r] by (simp add: write_artifact_def)
    next
      case None
      have missing: "obj_get (st (artifact_run r)) (json_name (artifact_id r)) = None"
        using ex None run
        by (auto simp: read_existing_def read_record_file_def and_then_def run_directory_def
            split: sum.splits option.splits js_error.splits artifact_error_code.splits if_splits)
      then have pub: "publish_exclusive st r = (st(artifact_run r := obj_set (st (artifact_run r))
          (json_name (artifact_id r)) (Inr (artifact_json r))), True)" (is "_ = (?st1, True)")
        by (simp add: publish_exclusive_def Let_def)
      have noread: "\<not> (\<exists>x. read_record_file env st (artifact_run r) (json_name (artifact_id r)) = Inr x)"
        using missing by (simp add: read_record_file_Inr)
      show ?thesis
      proof (cases "enforce_run_limits env st r")
        case (Inl e)
        then have "st' = st" "res = Inl e" using w Inr ex None by (simp_all add: write_artifact_def)
        then show ?thesis using that(1) by blast
      next
        case lim: (Inr u)
        have wf: "wf_artifact (env_sha env) (env_parse env) r"
          using build_record_wf(1)[OF _ now Inr] v by (simp add: valid_store_def)
        note pf = publish_files_ok[OF v wf run pub]
        obtain st2 where ret: "apply_retention env ?st1 r = Inr st2"
          using valid_names[OF pf(1) run] by (cases "env_retained env") (auto simp: apply_retention_def and_then_def Let_def)
        then have "st' = st2" "res = Inr r" using w Inr ex None lim pub by (simp_all add: write_artifact_def)
        then show ?thesis using that(3)[OF Inr pub] ret noread lim by simp
      qed
    qed
  qed
qed

lemma write_artifact_valid:
  assumes v: "valid_store env st" and now: "now \<noteq> []" and w: "write_artifact env now st w = (st', res)"
  shows "valid_store env st'" "has_output st run sid out \<Longrightarrow> has_output st' run sid out"
    "res = Inr r \<Longrightarrow> has_output st' (write_run w) (write_step w) (write_output w) \<and> run_id_pattern (write_run w) \<and>
      artifact_run r = write_run w \<and> artifact_step r = write_step w \<and> artifact_output r = write_output w"
proof -
  have env: "env_ok env" using v by (simp add: valid_store_def)
  have "valid_store env st' \<and> (has_output st run sid out \<longrightarrow> has_output st' run sid out) \<and>
    (\<forall>r. res = Inr r \<longrightarrow> has_output st' (write_run w) (write_step w) (write_output w) \<and> run_id_pattern (write_run w) \<and>
      artifact_run r = write_run w \<and> artifact_step r = write_step w \<and> artifact_output r = write_output w)"
    using v now w
  proof (cases rule: write_artifact_cases)
    case 1
    then show ?thesis using v by auto
  next
    case (2 q)
    obtain old where old: "read_record_file env st (artifact_run q) (json_name (artifact_id q)) = Inr old" using 2(4) by blast
    then have res: "res = reconcile_existing old q" using 2(3) by (simp add: read_existing_def)
    note b = build_record_wf[OF env now 2(2)]
    note o = record_name_identity[OF old]
    have id: "artifact_id old = artifact_id q" "artifact_run old = artifact_run q" using old by (simp_all add: read_record_file_Inr)
    have "artifact_id_for (record_identity q) = Inr (artifact_id q)" using b(1) by (simp add: wf_artifact_def)
    then have same: "record_identity old = write_identity w" using artifact_id_for_inj o(2) id(1) b(3) by metis
    have "json_name (artifact_id q) \<in> set (obj_keys (st (artifact_run q)))"
      using old obj_get_Some_key by (auto simp: read_record_file_Inr)
    then have "has_output st (write_run w) (write_step w) (write_output w)"
      unfolding has_output_def using o(1) b(2) same
      by (intro bexI[of _ "json_name (artifact_id q)"]) (simp_all add: write_identity_def)
    moreover have "artifact_step old = write_step w \<and> artifact_output old = write_output w"
      using same by (simp add: record_identity_def write_identity_def)
    ultimately show ?thesis using v 2(1) res b(2,4) id by (auto simp: reconcile_existing_def)
  next
    case (3 q st1)
    note b = build_record_wf[OF env now 3(1)]
    have run: "run_id_pattern (artifact_run q)" using b(2,4) by simp
    note p = publish_files_ok[OF v b(1) run 3(2)]
    note k = apply_retention_keeps[OF p(1) run 3(3)]
    have id: "artifact_step q = write_step w" "artifact_output q = write_output w"
      using b(3) by (simp_all add: record_identity_def write_identity_def)
    show ?thesis using k p(2,3) 3(4) b(2,4) id by auto
  qed
  then show "valid_store env st'" "has_output st run sid out \<Longrightarrow> has_output st' run sid out"
    "res = Inr r \<Longrightarrow> has_output st' (write_run w) (write_step w) (write_output w) \<and> run_id_pattern (write_run w) \<and>
      artifact_run r = write_run w \<and> artifact_step r = write_step w \<and> artifact_output r = write_output w" by blast+
qed

subsection \<open>The store provides what routing relies on\<close>

text \<open>The state of the store with its clock; reading the newest attempt as the engine does.\<close>

definition put_artifact ::
    "store_env \<Rightarrow> nat \<times> artifact_files \<Rightarrow> artifact_write \<Rightarrow> (nat \<times> artifact_files) \<times> artifact_record result" where
  "put_artifact env cst w = (case write_artifact env (env_clock env (fst cst)) (snd cst) w of
     (st', res) \<Rightarrow> ((Suc (fst cst), st'), res))"

definition latest_stored :: "store_env \<Rightarrow> nat \<times> artifact_files \<Rightarrow> string \<Rightarrow> string \<Rightarrow> string \<Rightarrow> artifact_record option" where
  "latest_stored env cst run sid out = (case latest_artifact env (snd cst) run sid out of
     Inr (Some r) \<Rightarrow> Some r | _ \<Rightarrow> None)"

lemma latest_stored_Some: "latest_stored env cst run sid out = Some r \<longleftrightarrow> latest_artifact env (snd cst) run sid out = Inr (Some r)"
  by (simp add: latest_stored_def split: sum.split option.split)

lemma latest_stored_exact:
  assumes "valid_store env (snd cst)"
  shows "latest_stored env cst run sid out \<noteq> None \<longleftrightarrow> run_id_pattern run \<and> has_output (snd cst) run sid out"
proof (cases "run_id_pattern run")
  case True
  have "latest_stored env cst run sid out \<noteq> None \<longleftrightarrow> (\<exists>r. latest_artifact env (snd cst) run sid out = Inr (Some r))"
    using latest_stored_Some by (metis not_None_eq)
  then show ?thesis using latest_artifact_exact(1)[OF assms True] True by simp
next
  case False
  then have "latest_artifact env (snd cst) run sid out = Inl (invalid_artifact (''Unsafe run id: '' @ run))"
    by (simp add: latest_artifact_def list_file_names_def run_directory_def and_then_def)
  then show ?thesis using False by (simp add: latest_stored_def)
qed

interpretation stored_artifacts: artifact_store "put_artifact env" "latest_stored env"
    "\<lambda>cst. valid_store env (snd cst)" for env
proof
  fix cst run sid out r
  assume "latest_stored env cst run sid out = Some r"
  then show "artifact_run r = run \<and> artifact_step r = sid \<and> artifact_output r = out"
    using latest_artifact_identity by (simp add: latest_stored_Some)
next
  fix cst :: "nat \<times> artifact_files" and w
  assume v: "valid_store env (snd cst)"
  obtain st' res where w: "write_artifact env (env_clock env (fst cst)) (snd cst) w = (st', res)" by fastforce
  have now: "env_clock env n \<noteq> []" for n using v by (simp add: valid_store_def env_ok_def)
  note facts = write_artifact_valid[OF v now w]
  show "valid_store env (snd (fst (put_artifact env cst w)))" using facts(1) by (simp add: put_artifact_def w)
  {
    fix cst' r assume p: "put_artifact env cst w = (cst', Inr r)"
    then have "res = Inr r" "snd cst' = st'" by (auto simp: put_artifact_def w)
    then show "latest_stored env cst' (write_run w) (write_step w) (write_output w) \<noteq> None"
      using latest_stored_exact facts by simp
  }
  {
    fix run sid out assume "latest_stored env cst run sid out \<noteq> None"
    then show "latest_stored env (fst (put_artifact env cst w)) run sid out \<noteq> None"
      using latest_stored_exact[OF v] latest_stored_exact[of env "fst (put_artifact env cst w)"] facts(1,2)
      by (simp add: put_artifact_def w)
  }
qed

subsection \<open>Artifacts are immutable and the store is bounded\<close>

lemma apply_retention_removes:
  "apply_retention env st r = Inr st' \<Longrightarrow>
     \<exists>gone. st' = st(artifact_run r := foldl remove_file (st (artifact_run r)) gone)"
  by (cases "env_retained env") (auto simp: apply_retention_def and_then_Inr Let_def intro: exI[of _ "[]"])

lemma write_artifact_immutable:
  assumes v: "valid_store env st" and now: "now \<noteq> []" and w: "write_artifact env now st w = (st', res)"
    and old: "read_record_file env st run n = Inr r" and new: "obj_get (st' run) n \<noteq> None"
  shows "read_record_file env st' run n = Inr r"
  using v now w
proof (cases rule: write_artifact_cases)
  case 1
  then show ?thesis using old by simp
next
  case (2 q)
  then show ?thesis using old by simp
next
  case (3 q st1)
  obtain gone where st': "st' = st1(artifact_run q := foldl remove_file (st1 (artifact_run q)) gone)"
    using apply_retention_removes[OF 3(3)] by blast
  have st1: "st1 = st(artifact_run q := obj_set (st (artifact_run q)) (json_name (artifact_id q)) (Inr (artifact_json q)))"
    "obj_get (st (artifact_run q)) (json_name (artifact_id q)) = None"
    using 3(2) by (auto simp: publish_exclusive_def Let_def split: if_splits)
  have name: "run = artifact_run q \<Longrightarrow> n \<noteq> json_name (artifact_id q)" using old st1(2) by (auto simp: read_record_file_Inr)
  have kept: "n \<notin> set gone" if "run = artifact_run q"
    using new that by (auto simp: st' obj_get_None_iff remove_files_keys)
  have "obj_get (st' run) n = obj_get (st run) n"
    using name kept by (cases "run = artifact_run q") (auto simp: st' st1(1) remove_files_get)
  then show ?thesis using old by (simp add: read_record_file_Inr)
qed

lemma write_artifact_deletes:
  assumes v: "valid_store env st" and now: "now \<noteq> []" and w: "write_artifact env now st w = (st', res)"
    and old: "read_record_file env st run n = Inr r" and gone: "obj_get (st' run) n = None"
  shows "env_retained env \<noteq> None \<and> run = write_run w \<and> artifact_step r = write_step w \<and> artifact_output r = write_output w"
  using v now w
proof (cases rule: write_artifact_cases)
  case 1
  then show ?thesis using old gone by (auto simp: read_record_file_Inr)
next
  case (2 q)
  then show ?thesis using old gone by (auto simp: read_record_file_Inr)
next
  case (3 q st1)
  have b: "artifact_run q = write_run w" "record_identity q = write_identity w"
    using build_record_wf(2,3)[OF _ now 3(1)] v by (simp_all add: valid_store_def)
  then have q: "artifact_step q = write_step w" "artifact_output q = write_output w"
    by (simp_all add: record_identity_def write_identity_def)
  have st1: "st1 = st(artifact_run q := obj_set (st (artifact_run q)) (json_name (artifact_id q)) (Inr (artifact_json q)))"
    using 3(2) by (auto simp: publish_exclusive_def Let_def split: if_splits)
  have "n \<in> set (obj_keys (st run))" using old obj_get_Some_key by (auto simp: read_record_file_Inr)
  then have in1: "n \<in> set (obj_keys (st1 run))" by (auto simp: st1 obj_keys_set)
  have out: "n \<notin> set (obj_keys (st' run))" using gone by (simp add: obj_get_None_iff)
  from 3(3) in1 out obtain k names where k: "env_retained env = Some k"
    and st': "st' = st1(artifact_run q := foldl remove_file (st1 (artifact_run q)) (map snd (drop k
      (sort_key (\<lambda>(n, name). - n) (output_attempts names (artifact_step q) (artifact_output q))))))"
    by (cases "env_retained env") (auto simp: apply_retention_def and_then_Inr Let_def)
  have run: "run = artifact_run q" using in1 out by (auto simp: st' split: if_splits)
  then obtain a where "(a, n) \<in> set (output_attempts names (artifact_step q) (artifact_output q))"
    using in1 out by (auto simp: st' remove_files_keys dest!: in_set_dropD)
  then show ?thesis
    using record_name_identity(1)[OF old] k run b(1) q by (auto simp: output_attempts_mem record_identity_def)
qed

definition run_bytes :: "store_env \<Rightarrow> stored_file obj \<Rightarrow> nat" where
  "run_bytes env files = sum_list (map (\<lambda>(n, c). env_size env c) files)"

definition within_limits :: "store_env \<Rightarrow> artifact_files \<Rightarrow> bool" where
  "within_limits env st \<longleftrightarrow> (\<forall>run. run_id_pattern run \<longrightarrow>
     length (st run) \<le> env_max_count env \<and> run_bytes env (st run) \<le> env_max_run_bytes env)"

lemma sum_list_mset_eq:
  assumes "mset xs = mset ys"
  shows "sum_list (map f xs) = (sum_list (map f ys) :: nat)"
proof -
  have "mset (map f xs) = mset (map f ys)" using assms by simp
  then show ?thesis by (metis sum_mset_sum_list)
qed

lemma stored_bytes_keys:
  "distinct (obj_keys files) \<Longrightarrow> stored_bytes env files (obj_keys files) = run_bytes env files"
proof -
  assume d: "distinct (obj_keys files)"
  have "(case obj_get files (fst e) of None \<Rightarrow> 0 | Some c \<Rightarrow> env_size env c) = (\<lambda>(n, c). env_size env c) e"
    if e: "e \<in> set files" for e
  proof -
    have "(fst e, snd e) \<in> set files" using e by simp
    then have "obj_get files (fst e) = Some (snd e)" using obj_entries_get[OF d] by blast
    then show ?thesis by (simp add: case_prod_beta)
  qed
  then have "map (\<lambda>n. case obj_get files n of None \<Rightarrow> 0 | Some c \<Rightarrow> env_size env c) (obj_keys files) =
      map (\<lambda>(n, c). env_size env c) files" by (simp add: obj_keys_def)
  then show ?thesis by (simp add: stored_bytes_def run_bytes_def)
qed

lemma remove_files_smaller:
  "length (foldl remove_file files names) \<le> length files \<and>
     run_bytes env (foldl remove_file files names) \<le> run_bytes env files"
proof (induction names arbitrary: files)
  case (Cons n names)
  have "run_bytes env (remove_file files n) \<le> run_bytes env files"
    by (induction files) (auto simp: remove_file_def run_bytes_def)
  moreover have "length (remove_file files n) \<le> length files" by (simp add: remove_file_def)
  ultimately show ?case using Cons.IH[of "remove_file files n"] by auto
qed simp

lemma write_artifact_limits:
  assumes v: "valid_store env st" and now: "now \<noteq> []" and w: "write_artifact env now st w = (st', res)"
    and lim: "within_limits env st"
  shows "within_limits env st'"
  using v now w
proof (cases rule: write_artifact_cases)
  case (3 q st1)
  have run: "run_id_pattern (artifact_run q)"
    using build_record_wf(2,4)[OF _ now 3(1)] v by (simp add: valid_store_def)
  obtain gone where st': "st' = st1(artifact_run q := foldl remove_file (st1 (artifact_run q)) gone)"
    using apply_retention_removes[OF 3(3)] by blast
  have st1: "st1 = st(artifact_run q := obj_set (st (artifact_run q)) (json_name (artifact_id q)) (Inr (artifact_json q)))"
    "obj_get (st (artifact_run q)) (json_name (artifact_id q)) = None"
    using 3(2) by (auto simp: publish_exclusive_def Let_def split: if_splits)
  have fresh: "obj_set (st (artifact_run q)) (json_name (artifact_id q)) (Inr (artifact_json q)) =
      st (artifact_run q) @ [(json_name (artifact_id q), Inr (artifact_json q))]"
    using st1(2) by (intro obj_set_new) (simp add: obj_get_None_iff)
  obtain names where names: "list_file_names env st (artifact_run q) = Inr names"
    "mset names = mset (obj_keys (st (artifact_run q)))"
    using valid_names[OF v run] by blast
  have "distinct (obj_keys (st (artifact_run q)))" using v by (simp add: valid_store_def files_ok_def)
  then have "stored_bytes env (st (artifact_run q)) (obj_keys (st (artifact_run q))) = run_bytes env (st (artifact_run q))"
    by (rule stored_bytes_keys)
  moreover have "stored_bytes env (st (artifact_run q)) names = stored_bytes env (st (artifact_run q)) (obj_keys (st (artifact_run q)))"
    unfolding stored_bytes_def by (rule sum_list_mset_eq[OF names(2)])
  moreover have "length names = length (st (artifact_run q))" using mset_eq_length[OF names(2)] by (simp add: obj_keys_def)
  ultimately have "Suc (length (st (artifact_run q))) \<le> env_max_count env"
    "run_bytes env (st (artifact_run q)) + env_size env (Inr (artifact_json q)) \<le> env_max_run_bytes env"
    using 3(5) names(1) by (auto simp: enforce_run_limits_def and_then_Inr Let_def)
  then have "length (st1 (artifact_run q)) \<le> env_max_count env" "run_bytes env (st1 (artifact_run q)) \<le> env_max_run_bytes env"
    by (simp_all add: st1(1) fresh run_bytes_def)
  moreover have "st1 k = st k" if "k \<noteq> artifact_run q" for k using that by (simp add: st1(1))
  ultimately show ?thesis
    using lim remove_files_smaller[of "st1 (artifact_run q)" gone env] order_trans
    by (auto simp: within_limits_def st')
qed (use lim in simp_all)

end
