(* ===== verification/FileStorage.thy ===== *)
theory FileStorage
  imports WorkflowState Artifacts
begin

text \<open>
  \<open>validateStoredEvidence\<close> of \<open>src/src/storage/file-storage.ts\<close>: what both run stores and
  recovery ask of the stored evidence of focused checks before they use it. The reader returns the record the
  code casts the value to. The locks and the atomic replacement of files are file-system calls and
  not modelled.
\<close>

definition read_string :: "json \<Rightarrow> string \<Rightarrow> string result" where
  "read_string v path = (case v of JString s \<Rightarrow> Inr s | _ \<Rightarrow> Inl (Error (path @ '' must be a string'')))"

definition read_boolean :: "json \<Rightarrow> string \<Rightarrow> bool result" where
  "read_boolean v path = (case v of JBool b \<Rightarrow> Inr b | _ \<Rightarrow> Inl (Error (path @ '' must be a boolean'')))"

definition read_indexed :: "(json \<Rightarrow> string \<Rightarrow> 'a result) \<Rightarrow> json \<Rightarrow> string \<Rightarrow> 'a list result" where
  "read_indexed read_item v path = (case v of
       JArray items \<Rightarrow> each_result (\<lambda>(index, item). read_item item (at_index path index)) (enumerate 0 items)
     | _ \<Rightarrow> Inl (Error (path @ '' must be an array'')))"

definition read_changed_file :: "json \<Rightarrow> string \<Rightarrow> changed_file result" where
  "read_changed_file v path =
     and_then (require (is_record v) (Error (path @ '' must be an object''))) (\<lambda>_.
     let ob = fields_of v in
     and_then (assert_string (get_prop ob ''path'') (at_field path ''path'')) (\<lambda>p.
     and_then (assert_string (get_prop ob ''status'') (at_field path ''status'')) (\<lambda>status.
     and_then (if get_prop ob ''previousPath'' = JUndefined then Inr None
       else and_then (assert_string (get_prop ob ''previousPath'') (at_field path ''previousPath'')) (\<lambda>s. Inr (Some s)))
       (\<lambda>previous.
     Inr \<lparr>changed_path = p, changed_status = status, changed_previous = previous\<rparr>))))"

definition read_exit_code :: "json \<Rightarrow> string \<Rightarrow> int option result" where
  "read_exit_code v path = (case v of
       JNull \<Rightarrow> Inr None
     | JNum q \<Rightarrow> if of_int \<lfloor>q\<rfloor> = q then Inr (Some \<lfloor>q\<rfloor>)
         else Inl (Error (path @ '' must be an integer or null''))
     | _ \<Rightarrow> Inl (Error (path @ '' must be an integer or null'')))"

text \<open>
  \<open>String(value)\<close> lets a one-element array of a known word through, which then counts as
  that word only for the membership tests.
\<close>

definition boundary_valid :: "(rat \<Rightarrow> string) \<Rightarrow> json obj \<Rightarrow> bool" where
  "boundary_valid nt ob \<longleftrightarrow>
     js_string nt (get_prop ob ''sandbox'') \<in> {''none'', ''nono''} \<and>
     js_string nt (get_prop ob ''network'') \<in> {''host'', ''blocked''} \<and>
     get_prop ob ''environment'' = JString ''temporary-home-reduced'' \<and>
     (get_prop ob ''sandbox'' = JString ''nono'' \<longleftrightarrow> get_prop ob ''network'' = JString ''blocked'')"

definition read_boundary :: "(rat \<Rightarrow> string) \<Rightarrow> json \<Rightarrow> string \<Rightarrow> execution_boundary option result" where
  "read_boundary nt v path =
     (if v = JUndefined then Inr None
      else and_then (require (is_record v) (Error (path @ '' must be an object''))) (\<lambda>_.
        and_then (require (boundary_valid nt (fields_of v)) (Error (path @ '' is invalid''))) (\<lambda>_.
        Inr (Some \<lparr>boundary_sandbox = (if get_prop (fields_of v) ''sandbox'' = JString ''nono'' then Nono else NoSandbox),
          boundary_blocked_network = (get_prop (fields_of v) ''network'' = JString ''blocked'')\<rparr>))))"

definition read_string_list :: "json \<Rightarrow> string \<Rightarrow> string list result" where
  "read_string_list v path = (case v of
       JArray items \<Rightarrow>
         if list_all (\<lambda>x. \<exists>s. x = JString s) items then Inr (map (\<lambda>x. case x of JString s \<Rightarrow> s | _ \<Rightarrow> []) items)
         else Inl (Error (path @ '' must be an array of strings''))
     | _ \<Rightarrow> Inl (Error (path @ '' must be an array of strings'')))"

definition read_check :: "(rat \<Rightarrow> string) \<Rightarrow> json \<Rightarrow> string \<Rightarrow> check_evidence result" where
  "read_check nt v path =
     and_then (require (is_record v) (Error (path @ '' must be an object''))) (\<lambda>_.
     let ob = fields_of v; text = (\<lambda>k. read_string (get_prop ob k) (at_field path k)) in
     and_then (text ''command'') (\<lambda>command.
     and_then (text ''startedAt'') (\<lambda>started.
     and_then (text ''finishedAt'') (\<lambda>finished.
     and_then (text ''stdoutTail'') (\<lambda>stdout.
     and_then (text ''stderrTail'') (\<lambda>stderr.
     and_then (read_string_list (get_prop ob ''args'') (at_field path ''args'')) (\<lambda>args.
     and_then (read_exit_code (get_prop ob ''exitCode'') (at_field path ''exitCode'')) (\<lambda>code.
     and_then (read_boolean (get_prop ob ''passed'') (at_field path ''passed'')) (\<lambda>passed.
     and_then (read_boundary nt (get_prop ob ''executionBoundary'') (at_field path ''executionBoundary'')) (\<lambda>boundary.
     Inr \<lparr>check_command = \<lparr>command_name = command, command_args = args\<rparr>, check_started = started,
          check_finished = finished, check_exit = code, check_stdout = stdout, check_stderr = stderr,
          check_passed = passed, check_boundary = boundary\<rparr>))))))))))"

definition validate_stored_evidence :: "(rat \<Rightarrow> string) \<Rightarrow> json \<Rightarrow> string \<Rightarrow> task_evidence result" where
  "validate_stored_evidence nt v path =
     and_then (require (is_record v) (Error (path @ '' must be an object''))) (\<lambda>_.
     let ob = fields_of v in
     and_then (assert_string (get_prop ob ''startedAt'') (at_field path ''startedAt'')) (\<lambda>started.
     and_then (assert_string (get_prop ob ''finishedAt'') (at_field path ''finishedAt'')) (\<lambda>finished.
     and_then (read_boolean (get_prop ob ''passed'') (at_field path ''passed'')) (\<lambda>passed.
     and_then (read_indexed read_changed_file (get_prop ob ''changedFiles'') (at_field path ''changedFiles'')) (\<lambda>files.
     and_then (read_string (get_prop ob ''diffHash'') (at_field path ''diffHash'')) (\<lambda>hash.
     and_then (read_indexed (read_check nt) (get_prop ob ''checks'') (at_field path ''checks'')) (\<lambda>checks.
     Inr \<lparr>evidence_started = started, evidence_finished = finished, evidence_passed = passed,
          evidence_changed = files, evidence_diff_hash = hash, evidence_checks = checks\<rparr>)))))))"

subsection \<open>Evidence as the run stores write it\<close>

definition optional_entry :: "string \<Rightarrow> ('a \<Rightarrow> json) \<Rightarrow> 'a option \<Rightarrow> json obj" where
  "optional_entry k f v = (case v of None \<Rightarrow> [] | Some x \<Rightarrow> [(k, f x)])"

definition changed_file_json :: "changed_file \<Rightarrow> json" where
  "changed_file_json f = JObject ([(''path'', JString (changed_path f)), (''status'', JString (changed_status f))] @
     optional_entry ''previousPath'' JString (changed_previous f))"

definition boundary_json :: "execution_boundary \<Rightarrow> json" where
  "boundary_json b = JObject [(''sandbox'', JString (if boundary_sandbox b = Nono then ''nono'' else ''none'')),
     (''network'', JString (if boundary_blocked_network b then ''blocked'' else ''host'')),
     (''environment'', JString ''temporary-home-reduced'')]"

definition check_json :: "check_evidence \<Rightarrow> json" where
  "check_json c = JObject ([(''command'', JString (command_name (check_command c))),
     (''args'', JArray (map JString (command_args (check_command c)))), (''startedAt'', JString (check_started c)),
     (''finishedAt'', JString (check_finished c)),
     (''exitCode'', case check_exit c of None \<Rightarrow> JNull | Some n \<Rightarrow> JNum (of_int n)),
     (''stdoutTail'', JString (check_stdout c)), (''stderrTail'', JString (check_stderr c)),
     (''passed'', JBool (check_passed c))] @ optional_entry ''executionBoundary'' boundary_json (check_boundary c))"

definition evidence_json :: "task_evidence \<Rightarrow> json" where
  "evidence_json e = JObject [(''startedAt'', JString (evidence_started e)),
     (''finishedAt'', JString (evidence_finished e)), (''passed'', JBool (evidence_passed e)),
     (''changedFiles'', JArray (map changed_file_json (evidence_changed e))),
     (''diffHash'', JString (evidence_diff_hash e)), (''checks'', JArray (map check_json (evidence_checks e)))]"

definition wf_evidence :: "task_evidence \<Rightarrow> bool" where
  "wf_evidence e \<longleftrightarrow> evidence_started e \<noteq> [] \<and> evidence_finished e \<noteq> [] \<and>
     list_all (\<lambda>f. changed_path f \<noteq> [] \<and> changed_status f \<noteq> [] \<and> changed_previous f \<noteq> Some []) (evidence_changed e) \<and>
     list_all (\<lambda>c. if_present (\<lambda>b. boundary_sandbox b = Nono \<longleftrightarrow> boundary_blocked_network b) (check_boundary c))
       (evidence_checks e)"

lemma each_result_enumerate:
  "each_result (\<lambda>(k, x). f x (p k)) (enumerate n xs) = Inr ys \<longrightarrow>
     length ys = length xs \<and> (\<forall>y\<in>set ys. \<exists>x k. f x (p k) = Inr y)"
proof (induction xs arbitrary: n ys)
  case (Cons x xs)
  then show ?case by (fastforce simp: and_then_Inr)
qed simp

lemma read_indexed_sound:
  assumes "read_indexed f v path = Inr ys" and "\<And>x p y. f x p = Inr y \<Longrightarrow> P y"
  shows "list_all P ys"
proof -
  obtain items where "each_result (\<lambda>(k, x). f x (at_index path k)) (enumerate 0 items) = Inr ys"
    using assms(1) by (auto simp: read_indexed_def split: json.splits)
  then have "\<forall>y\<in>set ys. \<exists>x k. f x (at_index path k) = Inr y" using each_result_enumerate by fast
  then show ?thesis using assms(2) by (auto simp: list_all_iff)
qed

lemma read_indexed_map:
  assumes "\<And>x p. x \<in> set xs \<Longrightarrow> f (g x) p = Inr x"
  shows "read_indexed f (JArray (map g xs)) path = Inr xs"
proof -
  have "each_result (\<lambda>(k, x). f x (at_index path k)) (enumerate n (map g xs)) = Inr xs" for n
    using assms by (induction xs arbitrary: n) auto
  then show ?thesis by (simp add: read_indexed_def)
qed

lemma read_boundary_sound:
  "read_boundary nt v path = Inr b \<Longrightarrow> if_present (\<lambda>b. boundary_sandbox b = Nono \<longleftrightarrow> boundary_blocked_network b) b"
  by (auto simp: read_boundary_def boundary_valid_def and_then_Inr split: if_splits)

text \<open>Accepted evidence is well-formed, and well-formed evidence reads back as itself.\<close>

lemma validate_stored_evidence_sound:
  assumes "validate_stored_evidence nt v path = Inr e"
  shows "wf_evidence e"
proof -
  have f: "read_changed_file x p = Inr y \<Longrightarrow> changed_path y \<noteq> [] \<and> changed_status y \<noteq> [] \<and> changed_previous y \<noteq> Some []"
    for x p y by (auto simp: read_changed_file_def and_then_Inr Let_def split: if_splits)
  have c: "read_check nt x p = Inr y \<Longrightarrow>
      if_present (\<lambda>b. boundary_sandbox b = Nono \<longleftrightarrow> boundary_blocked_network b) (check_boundary y)" for x p y
    by (auto simp: read_check_def and_then_Inr Let_def dest: read_boundary_sound)
  from assms obtain started finished passed files hash checks where
    e: "e = \<lparr>evidence_started = started, evidence_finished = finished, evidence_passed = passed,
          evidence_changed = files, evidence_diff_hash = hash, evidence_checks = checks\<rparr>" "started \<noteq> []" "finished \<noteq> []"
    and r: "read_indexed read_changed_file (get_prop (fields_of v) ''changedFiles'') (at_field path ''changedFiles'') = Inr files"
      "read_indexed (read_check nt) (get_prop (fields_of v) ''checks'') (at_field path ''checks'') = Inr checks"
    by (auto simp: validate_stored_evidence_def and_then_Inr Let_def)
  show ?thesis using read_indexed_sound[OF r(1) f] read_indexed_sound[OF r(2) c] e by (simp add: wf_evidence_def)
qed

lemma validate_stored_evidence_json:
  assumes "wf_evidence e"
  shows "validate_stored_evidence nt (evidence_json e) path = Inr e"
proof -
  have f: "read_changed_file (changed_file_json f) p = Inr f" if "f \<in> set (evidence_changed e)" for f p
    using assms that
    by (cases "changed_previous f")
       (auto simp: read_changed_file_def changed_file_json_def optional_entry_def wf_evidence_def list_all_iff is_record_def
         fields_of_def Let_def and_then_Inr)
  have c: "read_check nt (check_json c) p = Inr c" if "c \<in> set (evidence_checks e)" for c p
  proof -
    have "if_present (\<lambda>b. boundary_sandbox b = Nono \<longleftrightarrow> boundary_blocked_network b) (check_boundary c)"
      using assms that by (simp add: wf_evidence_def list_all_iff)
    then have b: "read_boundary nt (case check_boundary c of None \<Rightarrow> JUndefined | Some b \<Rightarrow> boundary_json b) q = Inr (check_boundary c)" for q
      by (cases "check_boundary c", simp add: read_boundary_def, rename_tac bd, case_tac bd, rename_tac sb nb, case_tac sb)
         (auto simp: read_boundary_def boundary_json_def boundary_valid_def is_record_def fields_of_def)
    have x: "read_exit_code (case check_exit c of None \<Rightarrow> JNull | Some n \<Rightarrow> JNum (of_int n)) q = Inr (check_exit c)" for q
      by (cases "check_exit c") (simp_all add: read_exit_code_def)
    have "get_prop (optional_entry ''executionBoundary'' boundary_json (check_boundary c)) ''executionBoundary'' =
        (case check_boundary c of None \<Rightarrow> JUndefined | Some b \<Rightarrow> boundary_json b)"
      by (simp add: optional_entry_def split: option.split)
    then show ?thesis
      using b x by (simp add: read_check_def check_json_def is_record_def fields_of_def Let_def read_string_def
          read_boolean_def read_string_list_def comp_def list_all_iff)
  qed
  show ?thesis
    using assms read_indexed_map[of _ read_changed_file changed_file_json, OF f]
      read_indexed_map[of _ "read_check nt" check_json, OF c]
    by (simp add: validate_stored_evidence_def evidence_json_def is_record_def fields_of_def Let_def wf_evidence_def
        assert_string_def read_string_def read_boolean_def split: list.split)
qed

end
