(* ===== verification/Recovery.thy ===== *)
theory Recovery
  imports EngineReachability ArtifactStore FileStorage
begin

text \<open>
  \<open>src/src/engine/recovery.ts\<close>: settling the attempts of a run whose process disappeared. What git
  knows about a step branch (\<open>branchHead\<close>, \<open>verifyTaskCommit\<close>) and what the artifact store lists
  and reads are the record \<open>recovery_env\<close>. The decisions are taken from the loaded run and
  applied in one transaction to the run stored by then.
\<close>

record artifact_reader =
  reader_scan :: "string \<Rightarrow> stored_entry list result"
  reader_read :: "(string \<Rightarrow> string \<Rightarrow> artifact_record result) option"

record recovery_env =
  env_branch_head :: "string \<Rightarrow> string \<Rightarrow> string result"
  env_verify_commit :: "string \<Rightarrow> string \<Rightarrow> string \<Rightarrow> string \<Rightarrow> unit result"
  env_artifacts :: "artifact_reader option"
  env_parse_json :: "string \<Rightarrow> json option"
  env_number_text :: "rat \<Rightarrow> string"

record attempt_decision =
  decision_commit :: "string option"
  decision_artifacts :: "string list option"
  decision_evidence :: "task_evidence option"
  decision_retry :: "string option"
  decision_blocked :: "string option"

definition no_decision :: attempt_decision where
  "no_decision = \<lparr>decision_commit = None, decision_artifacts = None, decision_evidence = None,
     decision_retry = None, decision_blocked = None\<rparr>"

subsection \<open>Deciding an interrupted attempt\<close>

definition EVIDENCE_OUTPUT :: string where "EVIDENCE_OUTPUT = ''evidence''"

definition entry_artifact :: "stored_entry \<Rightarrow> string option" where
  "entry_artifact e = (case e of StoredArtifact r \<Rightarrow> Some (artifact_id r) | Unreadable _ _ \<Rightarrow> None)"

definition durable_artifact_ids :: "recovery_env \<Rightarrow> string \<Rightarrow> string list result" where
  "durable_artifact_ids env run = (case env_artifacts env of
       None \<Rightarrow> Inr []
     | Some reader \<Rightarrow> and_then (reader_scan reader run) (\<lambda>entries. Inr (List.map_filter entry_artifact entries)))"

definition declared_identity :: "step_definition \<Rightarrow> step_attempt \<Rightarrow> string \<Rightarrow> artifact_identity" where
  "declared_identity d a out = \<lparr>identity_step = step_id d, identity_output = out,
     identity_attempt = of_nat (attempt_number a)\<rparr>"

definition declared_artifact_ids :: "step_definition \<Rightarrow> step_attempt \<Rightarrow> (string \<times> string option) list" where
  "declared_artifact_ids d a = map (\<lambda>out. (out, case artifact_id_for (declared_identity d a out) of
       Inr i \<Rightarrow> Some i | Inl _ \<Rightarrow> None)) (step_outputs d)"

definition interrupted_attempt_commit :: "recovery_env \<Rightarrow> run_state \<Rightarrow> step_attempt \<Rightarrow> attempt_decision" where
  "interrupted_attempt_commit env s a =
     (if \<not> truthy (attempt_branch a) then no_decision
      else if truthy (attempt_commit a) then no_decision\<lparr>decision_commit := attempt_commit a\<rparr>
      else
        let branch = the (attempt_branch a);
            blocked = (\<lambda>e. no_decision\<lparr>decision_blocked :=
              Some (''could not reconcile step branch: '' @ error_message e)\<rparr>)
        in case env_branch_head env (run_root s) branch of
          Inl e \<Rightarrow> blocked e
        | Inr head \<Rightarrow>
            if head = attempt_base a then no_decision
            else (case env_verify_commit env (run_root s) branch head (attempt_base a) of
                Inl e \<Rightarrow> blocked e
              | Inr _ \<Rightarrow> no_decision\<lparr>decision_commit := Some head\<rparr>))"

text \<open>Evidence that cannot be read, does not parse or did not pass is no evidence.\<close>

definition adopted_evidence :: "recovery_env \<Rightarrow> string \<Rightarrow> step_definition \<Rightarrow> step_attempt \<Rightarrow> task_evidence option" where
  "adopted_evidence env run d a =
     (case env_artifacts env of
        None \<Rightarrow> None
      | Some reader \<Rightarrow> (case reader_read reader of
          None \<Rightarrow> None
        | Some read \<Rightarrow>
            (case and_then (artifact_id_for (declared_identity d a EVIDENCE_OUTPUT)) (\<lambda>i.
               and_then (read run i) (\<lambda>r.
               case env_parse_json env (artifact_text r) of
                 None \<Rightarrow> Inl (Error ''invalid JSON'')
               | Some v \<Rightarrow> validate_stored_evidence (env_number_text env) v (''artifact '' @ artifact_id r))) of
               Inl _ \<Rightarrow> None
             | Inr e \<Rightarrow> if evidence_passed e then Some e else None)))"

definition retry_decision :: "string \<Rightarrow> attempt_decision" where
  "retry_decision reason = no_decision\<lparr>decision_retry := Some reason\<rparr>"

definition plural :: "'a list \<Rightarrow> string" where
  "plural xs = (if length xs = 1 then [] else ''s'')"

definition inspect_interrupted_attempt ::
    "recovery_env \<Rightarrow> run_state \<Rightarrow> step_attempt \<Rightarrow> string list \<Rightarrow> attempt_decision result" where
  "inspect_interrupted_attempt env s a durable =
     (let decision = interrupted_attempt_commit env s a in
      if decision_commit decision = None then Inr decision
      else and_then (require_step s (attempt_step a)) (\<lambda>r.
        let d = record_definition r;
            declared = declared_artifact_ids d a;
            missing = filter (\<lambda>(out, i). case i of None \<Rightarrow> True | Some j \<Rightarrow> j \<notin> set durable) declared;
            ids = List.map_filter snd declared;
            adopt = no_decision\<lparr>decision_commit := decision_commit decision, decision_artifacts := Some ids\<rparr>
        in Inr (
          if declared \<noteq> [] \<and> env_artifacts env = None then
            retry_decision (''no artifact store is configured to verify the declared output'' @ plural declared @
              '' of '' @ step_id d)
          else if missing \<noteq> [] then
            retry_decision (''did not durably store the declared output'' @ plural missing @ '' of '' @ step_id d @
              '': '' @ join '', '' (map fst missing))
          else if attempt_evidence a \<noteq> None then adopt\<lparr>decision_evidence := attempt_evidence a\<rparr>
          else if EVIDENCE_OUTPUT \<notin> set (step_outputs d) then adopt
          else (case adopted_evidence env (run_id s) d a of
              Some e \<Rightarrow> adopt\<lparr>decision_evidence := Some e\<rparr>
            | None \<Rightarrow> retry_decision (''published no readable passing validation evidence for '' @ step_id d)))))"

fun inspect_attempts ::
    "recovery_env \<Rightarrow> run_state \<Rightarrow> string list \<Rightarrow> step_attempt list \<Rightarrow> attempt_decision obj \<Rightarrow> attempt_decision obj result" where
  "inspect_attempts env s durable [] decisions = Inr decisions"
| "inspect_attempts env s durable (a # as) decisions =
     and_then (inspect_interrupted_attempt env s a durable) (\<lambda>d.
       inspect_attempts env s durable as (obj_set decisions (attempt_id a) d))"

subsection \<open>Settling the interrupted attempts\<close>

datatype recovery_outcome = AdoptedCommit | RetryScheduled | RecoveryFailed

record recovered_attempt =
  recovered_id :: string
  recovered_step :: string
  recovered_outcome :: recovery_outcome
  recovered_commit :: "string option"
  recovered_reason :: string

record recovery =
  recovery_run :: run_state
  recovery_events :: "event_body list"
  recovery_recovered :: "recovered_attempt list"

definition adopted_ids :: "attempt_decision \<Rightarrow> string list" where
  "adopted_ids d = (case decision_artifacts d of None \<Rightarrow> [] | Some ids \<Rightarrow> ids)"

definition adopted_attempt :: "attempt_decision \<Rightarrow> string \<Rightarrow> step_attempt \<Rightarrow> step_attempt" where
  "adopted_attempt d finished a = a\<lparr>attempt_state := AttemptSucceeded, attempt_finished := Some finished,
     attempt_commit := decision_commit d,
     attempt_evidence := (case decision_evidence d of None \<Rightarrow> attempt_evidence a | Some e \<Rightarrow> Some e),
     attempt_artifacts := (if adopted_ids d = [] then attempt_artifacts a else Some (adopted_ids d))\<rparr>"

definition obstacle :: "attempt_decision \<Rightarrow> string option" where
  "obstacle d = (case decision_blocked d of None \<Rightarrow> decision_retry d | Some b \<Rightarrow> Some b)"

definition interruption_reason :: "attempt_decision \<Rightarrow> string" where
  "interruption_reason d = (if truthy (obstacle d) then ''The run was interrupted and '' @ the (obstacle d)
     else ''The run was interrupted before this attempt settled'')"

definition interrupted_attempt :: "string \<Rightarrow> string \<Rightarrow> step_attempt \<Rightarrow> step_attempt" where
  "interrupted_attempt finished reason a = a\<lparr>attempt_state := AttemptInterrupted,
     attempt_finished := Some finished, attempt_error := Some reason\<rparr>"

definition may_retry :: "attempt_decision \<Rightarrow> step_record \<Rightarrow> step_attempt \<Rightarrow> bool" where
  "may_retry d r a \<longleftrightarrow> \<not> truthy (decision_blocked d) \<and> int (attempt_number a) < step_retry_policy (record_definition r)"

definition recover_attempt ::
    "attempt_decision obj \<Rightarrow> (nat \<Rightarrow> string) \<Rightarrow> recovery \<Rightarrow> step_attempt \<Rightarrow> recovery result" where
  "recover_attempt decisions clock acc a =
     (if \<not> is_active_attempt_state (attempt_state a) then Inr acc
      else
        let d = (case obj_get decisions (attempt_id a) of None \<Rightarrow> no_decision | Some d \<Rightarrow> d);
            sid = attempt_step a; s = recovery_run acc; finished = clock (length (recovery_recovered acc))
        in and_then (require_step s sid) (\<lambda>r.
          if truthy (decision_commit d) then
            let commit = the (decision_commit d) in
            and_then (update_step (update_step_attempt s (attempt_id a) (adopted_attempt d finished)) sid
              (\<lambda>r. r\<lparr>record_state := Succeeded\<rparr>)) (\<lambda>s'.
            Inr \<lparr>recovery_run = s',
              recovery_events = recovery_events acc @ [StepSucceeded sid (attempt_id a)
                (Some (''Adopted commit '' @ commit @ '' created before the interruption''))],
              recovery_recovered = recovery_recovered acc @ [\<lparr>recovered_id = attempt_id a, recovered_step = sid,
                recovered_outcome = AdoptedCommit, recovered_commit = Some commit,
                recovered_reason = (if adopted_ids d \<noteq> []
                  then ''the worker's commit and every declared artifact already existed''
                  else ''the worker's commit already existed on the step branch'')\<rparr>]\<rparr>)
          else
            let reason = interruption_reason d; retry = may_retry d r a;
                budget = js_nat (nat (step_retry_policy (record_definition r)))
            in and_then (update_step (update_step_attempt s (attempt_id a) (interrupted_attempt finished reason)) sid
              (\<lambda>r. if retry then r\<lparr>record_state := Ready\<rparr>
                else r\<lparr>record_state := Failed, record_error := Some reason\<rparr>)) (\<lambda>s'.
            Inr \<lparr>recovery_run = s',
              recovery_events = recovery_events acc @
                StepFailed sid (attempt_id a) reason (if retry then Retryable else Terminal)
                  (if retry then ''the interrupted attempt may run again within its budget of '' @ budget
                   else ''the interrupted attempt cannot safely run again'') #
                (if retry then [StepRetryScheduled sid (attempt_id a) (Suc (attempt_number a)) reason] else []),
              recovery_recovered = recovery_recovered acc @ [\<lparr>recovered_id = attempt_id a, recovered_step = sid,
                recovered_outcome = (if retry then RetryScheduled else RecoveryFailed), recovered_commit = None,
                recovered_reason = reason\<rparr>]\<rparr>)))"

fun recover_attempts ::
    "attempt_decision obj \<Rightarrow> (nat \<Rightarrow> string) \<Rightarrow> recovery \<Rightarrow> step_attempt list \<Rightarrow> recovery result" where
  "recover_attempts decisions clock acc [] = Inr acc"
| "recover_attempts decisions clock acc (a # as) =
     and_then (recover_attempt decisions clock acc a) (\<lambda>acc'. recover_attempts decisions clock acc' as)"

text \<open>The loop over \<open>Object.entries(next.steps)\<close>; the keys of an object are distinct.\<close>

definition unblock_steps :: "run_state \<Rightarrow> run_state" where
  "unblock_steps s = s\<lparr>run_steps := map (\<lambda>(sid, r).
     (sid, if record_state r = Blocked then r\<lparr>record_state := Planned\<rparr> else r)) (run_steps s)\<rparr>"

definition recovered_state :: "run_state \<Rightarrow> run_state \<Rightarrow> lifecycle" where
  "recovered_state current next_run =
     (if run_state current = RunRunning \<and> Failed \<in> record_state ` set (obj_values (run_steps next_run))
      then RunFailed else run_state current)"

definition recover_transaction ::
    "attempt_decision obj \<Rightarrow> (nat \<Rightarrow> string) \<Rightarrow> run_state \<Rightarrow> (run_state \<times> recovered_attempt list) result" where
  "recover_transaction decisions clock current =
     and_then (recover_attempts decisions clock
       \<lparr>recovery_run = current, recovery_events = [], recovery_recovered = []\<rparr> (run_attempts current)) (\<lambda>acc.
     if recovery_events acc = [] then Inr (current, recovery_recovered acc)
     else
       let unblocked = unblock_steps (recovery_run acc);
           reconciled = reconcile_workflow_steps unblocked;
           n = length (recovery_recovered acc)
       in Inr (append_workflow_events
           (reconciled\<lparr>run_state := recovered_state current reconciled, run_updated := clock n\<rparr>)
           (recovery_events acc @ blocked_step_events unblocked reconciled) (clock (Suc n)),
         recovery_recovered acc))"

definition recover_workflow_run ::
    "recovery_env \<Rightarrow> (nat \<Rightarrow> string) \<Rightarrow> run_state \<Rightarrow> run_state \<Rightarrow> (run_state \<times> recovered_attempt list) result" where
  "recover_workflow_run env clock loaded current =
     and_then (durable_artifact_ids env (run_id loaded)) (\<lambda>durable.
     and_then (inspect_attempts env loaded durable (active_attempts loaded) []) (\<lambda>decisions.
     recover_transaction decisions clock current))"

end
