(* ===== verification/RecoveryInvariant.thy ===== *)
theory RecoveryInvariant
  imports Recovery
begin

text \<open>
  What recovery achieves: whatever the decisions, the transaction succeeds, keeps the invariant
  of the run and leaves no attempt in flight, so the engine may start on the result; and an attempt is
  only adopted with its commit and every declared artifact at hand.
\<close>

subsection \<open>Adoption needs durable artifacts\<close>

lemma interrupted_commit_cases:
  "decision_commit (interrupted_attempt_commit env s a) = Some c \<Longrightarrow>
     truthy (attempt_branch a) \<and> (attempt_commit a = Some c \<and> c \<noteq> [] \<or>
       \<not> truthy (attempt_commit a) \<and> env_branch_head env (run_root s) (the (attempt_branch a)) = Inr c \<and> c \<noteq> attempt_base a \<and>
       env_verify_commit env (run_root s) (the (attempt_branch a)) c (attempt_base a) = Inr ())"
  by (auto simp: interrupted_attempt_commit_def no_decision_def Let_def truthy_def split: if_splits sum.splits)

lemma inspect_interrupted_adopts:
  assumes i: "inspect_interrupted_attempt env s a durable = Inr d" and c: "decision_commit d = Some c"
    and r: "obj_get (run_steps s) (attempt_step a) = Some r"
  shows "decision_commit (interrupted_attempt_commit env s a) = Some c"
    "\<And>out. out \<in> set (step_outputs (record_definition r)) \<Longrightarrow>
       \<exists>i. artifact_id_for (declared_identity (record_definition r) a out) = Inr i \<and> i \<in> set durable"
    "EVIDENCE_OUTPUT \<in> set (step_outputs (record_definition r)) \<Longrightarrow>
       \<exists>e. decision_evidence d = Some e \<and> (attempt_evidence a = Some e \<or> evidence_passed e)"
proof -
  let ?d = "record_definition r"
  let ?declared = "declared_artifact_ids ?d a"
  have dec: "decision_commit (interrupted_attempt_commit env s a) \<noteq> None"
    using i c by (auto simp: inspect_interrupted_attempt_def Let_def split: if_splits)
  have rt: "decision_commit (retry_decision m) = None" for m by (simp add: retry_decision_def no_decision_def)
  from i c dec r have miss: "filter (\<lambda>(out, i). case i of None \<Rightarrow> True | Some j \<Rightarrow> j \<notin> set durable) ?declared = []"
    by (auto simp: inspect_interrupted_attempt_def Let_def and_then_Inr rt split: if_splits)
  from i c dec r miss show "decision_commit (interrupted_attempt_commit env s a) = Some c"
    by (auto simp: inspect_interrupted_attempt_def Let_def and_then_Inr rt no_decision_def split: if_splits option.splits)
  show "\<exists>i. artifact_id_for (declared_identity ?d a out) = Inr i \<and> i \<in> set durable"
    if "out \<in> set (step_outputs ?d)" for out
  proof -
    let ?i = "case artifact_id_for (declared_identity ?d a out) of Inr i \<Rightarrow> Some i | Inl _ \<Rightarrow> None"
    have "(out, ?i) \<in> set ?declared" using that by (auto simp: declared_artifact_ids_def)
    then have "\<not> (case ?i of None \<Rightarrow> True | Some j \<Rightarrow> j \<notin> set durable)"
      using miss unfolding filter_empty_conv by blast
    then show ?thesis by (cases "artifact_id_for (declared_identity ?d a out)") simp_all
  qed
  show "\<exists>e. decision_evidence d = Some e \<and> (attempt_evidence a = Some e \<or> evidence_passed e)"
    if ev: "EVIDENCE_OUTPUT \<in> set (step_outputs ?d)"
  proof (cases "attempt_evidence a")
    case (Some e)
    then show ?thesis using i c dec r miss
      by (auto simp: inspect_interrupted_attempt_def Let_def and_then_Inr rt split: if_splits)
  next
    case None
    have passed: "adopted_evidence env (run_id s) ?d a = Some e \<Longrightarrow> evidence_passed e" for e
      by (auto simp: adopted_evidence_def split: option.splits sum.splits if_splits)
    from None i c dec r miss ev show ?thesis
      by (auto simp: inspect_interrupted_attempt_def Let_def and_then_Inr rt dest: passed split: if_splits option.splits)
  qed
qed

subsection \<open>One attempt\<close>

text \<open>What a change of an attempt and its step by recovery looks like.\<close>

definition ended_attempt :: "step_attempt \<Rightarrow> step_attempt \<Rightarrow> bool" where
  "ended_attempt x y \<longleftrightarrow> attempt_id y = attempt_id x \<and> attempt_number y = attempt_number x \<and>
     attempt_step y = attempt_step x \<and> \<not> active y"

definition ended_record :: "step_record \<Rightarrow> step_record \<Rightarrow> step_attempt \<Rightarrow> bool" where
  "ended_record r r' a \<longleftrightarrow> record_attempts r' = record_attempts r \<and> record_definition r' = record_definition r \<and>
     record_integrated r' = record_integrated r \<and>
     (record_state r' = Succeeded \<and> attempt_state a = AttemptSucceeded \<or>
      record_state r' = Ready \<and> int (attempt_number a) < retry_budget r \<or> record_state r' = Failed)"

definition settles_one :: "run_state \<Rightarrow> run_state \<Rightarrow> step_attempt \<Rightarrow> bool" where
  "settles_one s t a \<longleftrightarrow> (\<exists>r r' f. obj_get (run_steps s) (attempt_step a) = Some r \<and>
     ended_attempt a (f a) \<and> ended_record r r' (f a) \<and>
     t = s\<lparr>run_attempts := map (\<lambda>x. if attempt_id x = attempt_id a then f x else x) (run_attempts s),
       run_steps := obj_set (run_steps s) (attempt_step a) r'\<rparr>)"

lemma recover_attempt_settles:
  assumes "is_active_attempt_state (attempt_state a)" and r: "obj_get (run_steps (recovery_run acc)) (attempt_step a) = Some r"
  shows "\<exists>acc'. recover_attempt decisions clock acc a = Inr acc' \<and> settles_one (recovery_run acc) (recovery_run acc') a \<and>
    recovery_events acc' \<noteq> [] \<and>
    map recovered_id (recovery_recovered acc') = map recovered_id (recovery_recovered acc) @ [attempt_id a]"
proof -
  let ?d = "case obj_get decisions (attempt_id a) of None \<Rightarrow> no_decision | Some d \<Rightarrow> d"
  let ?finished = "clock (length (recovery_recovered acc))"
  have get: "obj_get (run_steps (update_step_attempt (recovery_run acc) i f)) (attempt_step a) = Some r" for i f
    using r by (simp add: update_step_attempt_def)
  show ?thesis
  proof (cases "truthy (decision_commit ?d)")
    case True
    have "settles_one (recovery_run acc) ((update_step_attempt (recovery_run acc) (attempt_id a) (adopted_attempt ?d ?finished))
        \<lparr>run_steps := obj_set (run_steps (recovery_run acc)) (attempt_step a) (r\<lparr>record_state := Succeeded\<rparr>)\<rparr>) a"
      unfolding settles_one_def
      by (intro exI[of _ r] exI[of _ "r\<lparr>record_state := Succeeded\<rparr>"] exI[of _ "adopted_attempt ?d ?finished"])
         (simp add: r ended_attempt_def ended_record_def adopted_attempt_def update_step_attempt_def active_def)
    then show ?thesis
      using assms True by (simp add: recover_attempt_def Let_def and_then_def require_step_def update_step_def get)
        (simp add: update_step_attempt_def)
  next
    case False
    let ?reason = "interruption_reason ?d"
    let ?r' = "if may_retry ?d r a then r\<lparr>record_state := Ready\<rparr> else r\<lparr>record_state := Failed, record_error := Some ?reason\<rparr>"
    have "settles_one (recovery_run acc) ((update_step_attempt (recovery_run acc) (attempt_id a) (interrupted_attempt ?finished ?reason))
        \<lparr>run_steps := obj_set (run_steps (recovery_run acc)) (attempt_step a) ?r'\<rparr>) a"
      unfolding settles_one_def
      by (intro exI[of _ r] exI[of _ ?r'] exI[of _ "interrupted_attempt ?finished ?reason"])
         (simp add: r ended_attempt_def ended_record_def interrupted_attempt_def update_step_attempt_def active_def
           may_retry_def retry_budget_def)
    then show ?thesis
      using assms False
      by (cases "may_retry ?d r a")
         (simp_all add: recover_attempt_def Let_def and_then_def require_step_def update_step_def get update_step_attempt_def)
  qed
qed

lemma settles_one_frame:
  assumes "settles_one s t a"
  shows "run_plan t = run_plan s" "run_profiles t = run_profiles s" "run_max_workers t = run_max_workers s"
    "run_head t = run_head s" "run_state t = run_state s" "run_events t = run_events s"
    "run_sequence t = run_sequence s" "run_dropped t = run_dropped s"
  using assms by (auto simp: settles_one_def)

lemma settles_one_ok:
  assumes ok: "store_ok s" and a: "a \<in> set (run_attempts s)" "active a" and t: "settles_one s t a"
  shows "store_ok t" "active_attempts t = filter (\<lambda>x. attempt_id x \<noteq> attempt_id a) (active_attempts s)"
    "\<And>x. x \<in> set (run_attempts s) \<Longrightarrow> attempt_id x \<noteq> attempt_id a \<Longrightarrow> x \<in> set (run_attempts t)"
    "\<And>sid q. obj_get (run_steps t) sid = Some q \<Longrightarrow>
       record_state q \<in> {Succeeded, Ready, Failed} \<or> obj_get (run_steps s) sid = Some q"
proof -
  from t obtain r r' f where r: "obj_get (run_steps s) (attempt_step a) = Some r"
    and f: "ended_attempt a (f a)" "ended_record r r' (f a)"
    and t: "t = s\<lparr>run_attempts := map (\<lambda>x. if attempt_id x = attempt_id a then f x else x) (run_attempts s),
       run_steps := obj_set (run_steps s) (attempt_step a) r'\<rparr>" by (auto simp: settles_one_def)
  define g where "g = (\<lambda>x. if x = a then f a else x)"
  have uniq: "x = a" if "x \<in> set (run_attempts s)" "attempt_id x = attempt_id a" for x
    using stored_attempt_unique[of s x a] that a(1) ok by (simp add: store_ok_def)
  have attempts: "run_attempts t = map g (run_attempts s)" using uniq by (auto simp: t g_def)
  have rok: "record_ok (run_profiles s) r (attempts_of s (attempt_step a))"
    using ok r by (simp add: store_ok_def records_ok_def)
  have bin: "a \<in> set (attempts_of s (attempt_step a))" using a by (simp add: attempts_of_def)
  note lst = active_attempt_last[OF rok bin a(2)]
  have gl: "g (last (attempts_of s (attempt_step a))) = f a" using lst(2) by (simp add: g_def)
  show "store_ok t"
  proof (rule end_step_ok(1)[OF ok r, where g = g and r' = r'])
    show "active x" if "active (g x)" for x
      using that f(1) by (cases "x = a") (simp_all add: g_def ended_attempt_def)
    show "int (length (attempts_of s (attempt_step a))) < retry_budget r" if "waiting (record_state r')"
      using f that lst(4) by (auto simp: ended_record_def ended_attempt_def waiting_def)
    show "attempts_of s (attempt_step a) \<noteq> [] \<and> attempt_state (g (last (attempts_of s (attempt_step a)))) = AttemptSucceeded"
      if "record_state r' = Succeeded" using that f lst(1) gl by (simp add: ended_record_def)
  qed (use f lst(3) gl attempts in \<open>auto simp: t g_def ended_attempt_def ended_record_def\<close>)
  have "filter active (map g xs) = filter (\<lambda>x. attempt_id x \<noteq> attempt_id a) (filter active xs)"
    if "set xs \<subseteq> set (run_attempts s)" for xs
    using that by (induction xs) (use f(1) uniq in \<open>auto simp: g_def ended_attempt_def\<close>)
  then show "active_attempts t = filter (\<lambda>x. attempt_id x \<noteq> attempt_id a) (active_attempts s)"
    by (simp add: active_attempts_def attempts active_def[symmetric])
  show "x \<in> set (run_attempts t)" if "x \<in> set (run_attempts s)" "attempt_id x \<noteq> attempt_id a" for x
  proof -
    have "g x = x" using that(2) by (auto simp: g_def)
    then show ?thesis using that(1) unfolding attempts set_map by (metis image_eqI)
  qed
  show "record_state q \<in> {Succeeded, Ready, Failed} \<or> obj_get (run_steps s) sid = Some q"
    if "obj_get (run_steps t) sid = Some q" for sid q
    using that f(2) by (auto simp: t ended_record_def split: if_splits)
qed

subsection \<open>All attempts\<close>

definition same_frame :: "run_state \<Rightarrow> run_state \<Rightarrow> bool" where
  "same_frame s t \<longleftrightarrow> run_plan t = run_plan s \<and> run_profiles t = run_profiles s \<and>
     run_max_workers t = run_max_workers s \<and> run_head t = run_head s \<and> run_state t = run_state s \<and>
     run_events t = run_events s \<and> run_sequence t = run_sequence s \<and> run_dropped t = run_dropped s"

definition undecided :: "run_state \<Rightarrow> bool" where
  "undecided s \<longleftrightarrow> (\<forall>sid q. obj_get (run_steps s) sid = Some q \<longrightarrow> record_state q \<noteq> Blocked \<and> record_state q \<noteq> Cancelled)"

lemma recover_attempts_ok:
  assumes "store_ok (recovery_run acc)" "set as \<subseteq> set (run_attempts (recovery_run acc))" "distinct (map attempt_id as)"
  shows "\<exists>acc'. recover_attempts decisions clock acc as = Inr acc' \<and> store_ok (recovery_run acc') \<and>
    same_frame (recovery_run acc) (recovery_run acc') \<and>
    active_attempts (recovery_run acc') =
      filter (\<lambda>x. attempt_id x \<notin> attempt_id ` set (filter active as)) (active_attempts (recovery_run acc)) \<and>
    (undecided (recovery_run acc) \<longrightarrow> undecided (recovery_run acc')) \<and>
    (recovery_events acc' = [] \<longrightarrow> acc' = acc \<and> filter active as = []) \<and>
    map recovered_id (recovery_recovered acc') =
      map recovered_id (recovery_recovered acc) @ map attempt_id (filter active as)"
  using assms
proof (induction as arbitrary: acc)
  case Nil
  then show ?case by (simp add: same_frame_def)
next
  case (Cons a as)
  have known: "attempts_known (recovery_run acc)" using Cons.prems(1) by (simp add: store_ok_def)
  show ?case
  proof (cases "active a")
    case False
    then have "recover_attempts decisions clock acc (a # as) = recover_attempts decisions clock acc as"
      by (simp add: recover_attempt_def active_def)
    then show ?thesis using Cons.IH[OF Cons.prems(1)] Cons.prems(2,3) False by simp
  next
    case True
    have a: "a \<in> set (run_attempts (recovery_run acc))" using Cons.prems(2) by simp
    then obtain r where r: "obj_get (run_steps (recovery_run acc)) (attempt_step a) = Some r"
      using known obj_key_get[of "attempt_step a" "run_steps (recovery_run acc)"] by (auto simp: attempts_known_def)
    from True have act: "is_active_attempt_state (attempt_state a)" by (simp add: active_def)
    from recover_attempt_settles[OF act r, of decisions clock] obtain acc1 where
      one: "recover_attempt decisions clock acc a = Inr acc1" "settles_one (recovery_run acc) (recovery_run acc1) a"
        "recovery_events acc1 \<noteq> []"
        "map recovered_id (recovery_recovered acc1) = map recovered_id (recovery_recovered acc) @ [attempt_id a]" by blast
    note so = settles_one_ok[OF Cons.prems(1) a True one(2)]
    have sub: "set as \<subseteq> set (run_attempts (recovery_run acc1))"
    proof
      fix x assume x: "x \<in> set as"
      then have "attempt_id x \<noteq> attempt_id a" using Cons.prems(3) by (metis distinct.simps(2) image_eqI list.simps(9) set_map)
      then show "x \<in> set (run_attempts (recovery_run acc1))" using so(3) x Cons.prems(2) by auto
    qed
    have "distinct (map attempt_id as)" using Cons.prems(3) by simp
    from Cons.IH[OF so(1) sub this] obtain acc2 where
      two: "recover_attempts decisions clock acc1 as = Inr acc2" "store_ok (recovery_run acc2)"
        "same_frame (recovery_run acc1) (recovery_run acc2)"
        "active_attempts (recovery_run acc2) =
           filter (\<lambda>x. attempt_id x \<notin> attempt_id ` set (filter active as)) (active_attempts (recovery_run acc1))"
        "undecided (recovery_run acc1) \<longrightarrow> undecided (recovery_run acc2)"
        "recovery_events acc2 = [] \<longrightarrow> acc2 = acc1 \<and> filter active as = []"
        "map recovered_id (recovery_recovered acc2) =
           map recovered_id (recovery_recovered acc1) @ map attempt_id (filter active as)" by blast
    have "undecided (recovery_run acc1)" if "undecided (recovery_run acc)"
      using that so(4) unfolding undecided_def by fastforce
    moreover have "same_frame (recovery_run acc) (recovery_run acc2)"
      using two(3) settles_one_frame[OF one(2)] by (simp add: same_frame_def)
    moreover have "active_attempts (recovery_run acc2) =
        filter (\<lambda>x. attempt_id x \<notin> attempt_id ` set (filter active (a # as))) (active_attempts (recovery_run acc))"
      using True by (simp add: two(4) so(2) conj_commute)
    ultimately show ?thesis using one two True by (intro exI[of _ acc2]) auto
  qed
qed

subsection \<open>Unblocking and settling the run\<close>

definition unblocked_record :: "step_record \<Rightarrow> step_record" where
  "unblocked_record r = (if record_state r = Blocked then r\<lparr>record_state := Planned\<rparr> else r)"

lemma unblock_steps_get:
  "obj_get (run_steps (unblock_steps s)) k = map_option unblocked_record (obj_get (run_steps s) k)"
proof -
  have "obj_get (map (\<lambda>(sid, r). (sid, if record_state r = Blocked then r\<lparr>record_state := Planned\<rparr> else r)) ob) k =
      map_option unblocked_record (obj_get ob k)" for ob
    by (induction ob) (auto simp: obj_get_def unblocked_record_def)
  then show ?thesis by (simp add: unblock_steps_def)
qed

lemma unblocked_record_ok: "record_ok ps r xs \<Longrightarrow> record_ok ps (unblocked_record r) xs"
  by (auto simp: unblocked_record_def record_ok_def retry_budget_def waiting_def simp del: upt_Suc)

lemma unblock_steps_frame [simp, frame_simps]:
  "run_plan (unblock_steps s) = run_plan s" "run_profiles (unblock_steps s) = run_profiles s"
  "run_attempts (unblock_steps s) = run_attempts s" "run_max_workers (unblock_steps s) = run_max_workers s"
  "run_head (unblock_steps s) = run_head s" "run_state (unblock_steps s) = run_state s"
  "run_events (unblock_steps s) = run_events s" "run_sequence (unblock_steps s) = run_sequence s"
  "run_dropped (unblock_steps s) = run_dropped s"
  "obj_keys (run_steps (unblock_steps s)) = obj_keys (run_steps s)"
  by (simp_all add: unblock_steps_def obj_keys_def comp_def case_prod_beta)

lemma unblock_steps_store_ok:
  assumes "store_ok s"
  shows "store_ok (unblock_steps s)"
proof (rule map_records_store_ok[OF assms, where f = unblocked_record])
  show "record_ok ps (unblocked_record r) xs" if "record_ok ps r xs" for ps r xs using unblocked_record_ok[OF that] .
qed (auto simp: unblock_steps_get unblocked_record_def split: if_splits)

lemma reconcile_keeps_failed:
  assumes "graph_ok s" and "obj_get (run_steps s) k = Some r" and "record_state r = Failed"
  shows "Failed \<in> record_state ` set (obj_values (run_steps (reconcile_workflow_steps s)))"
proof -
  have "obj_get (run_steps (reconcile_workflow_steps s)) k =
      Some (r\<lparr>record_state := next_step_state (run_profiles s) r (run_steps (reconcile_workflow_steps s))\<rparr>)"
    by (rule reconcile_get[OF assms(1,2)])
  moreover have "next_step_state ps r m = Failed" for ps m using assms(3) by (simp add: next_step_state_def)
  ultimately show ?thesis by (force dest!: obj_get_entry simp: obj_values_def)
qed

lemma recover_transaction_ok:
  assumes ok: "run_ok s"
  shows "\<exists>t rs. recover_transaction decisions clock s = Inr (t, rs) \<and> run_ok t \<and> active_attempts t = [] \<and>
    run_plan t = run_plan s \<and> run_profiles t = run_profiles s \<and> run_head t = run_head s \<and>
    run_max_workers t = run_max_workers s \<and> run_state t = recovered_state s t \<and>
    map recovered_id rs = map attempt_id (active_attempts s)"
proof -
  let ?acc = "\<lparr>recovery_run = s, recovery_events = [], recovery_recovered = []\<rparr>"
  have sok: "store_ok s" and ids: "distinct (map attempt_id (run_attempts s))"
    using ok by (simp_all add: run_ok_def store_ok_def attempts_known_def)
  obtain acc where acc: "recover_attempts decisions clock ?acc (run_attempts s) = Inr acc" "store_ok (recovery_run acc)"
    "same_frame s (recovery_run acc)"
    "active_attempts (recovery_run acc) =
      filter (\<lambda>x. attempt_id x \<notin> attempt_id ` set (filter active (run_attempts s))) (active_attempts s)"
    "undecided s \<longrightarrow> undecided (recovery_run acc)"
    "recovery_events acc = [] \<longrightarrow> acc = ?acc \<and> filter active (run_attempts s) = []"
    "map recovered_id (recovery_recovered acc) = map attempt_id (filter active (run_attempts s))"
    using recover_attempts_ok[of ?acc "run_attempts s" decisions clock] sok ids by auto
  have act: "active_attempts s = filter active (run_attempts s)" by (simp add: active_attempts_def active_def[abs_def])
  then have none: "active_attempts (recovery_run acc) = []" using acc(4) by (auto simp: filter_empty_conv)
  show ?thesis
  proof (cases "recovery_events acc = []")
    case True
    have "recovered_state s s = run_state s"
    proof -
      have "record_state r \<noteq> Failed" if "run_state s = RunRunning" "r \<in> set (obj_values (run_steps s))" for r
        using ok that obj_entries_get[OF graph_ok_distinct[of s]]
        by (fastforce simp: run_ok_def store_ok_def no_failure_def obj_values_def)
      then show ?thesis by (fastforce simp: recovered_state_def)
    qed
    then show ?thesis using True acc ok act by (auto simp: recover_transaction_def)
  next
    case False
    let ?u = "unblock_steps (recovery_run acc)"
    let ?l = "recovered_state s (reconcile_workflow_steps ?u)"
    let ?n = "length (recovery_recovered acc)"
    let ?t = "concluded ?u ?l (clock ?n)
        (recovery_events acc @ blocked_step_events ?u (reconcile_workflow_steps ?u)) (clock (Suc ?n))"
    have t: "recover_transaction decisions clock s = Inr (?t, recovery_recovered acc)"
      using acc(1) False by (simp add: recover_transaction_def Let_def concluded_def)
    have "no_failure ?u" if l: "?l = RunRunning"
    proof -
      have running: "run_state s = RunRunning"
        and nf: "Failed \<notin> record_state ` set (obj_values (run_steps (reconcile_workflow_steps ?u)))"
        using l by (auto simp: recovered_state_def split: if_splits)
      have "undecided s" using ok running by (force simp: run_ok_def no_failure_def undecided_def)
      then have und: "undecided (recovery_run acc)" using acc(5) by blast
      have "graph_ok ?u" using unblock_steps_store_ok[OF acc(2)] by (simp add: store_ok_def)
      then have "record_state r \<noteq> Failed" if "obj_get (run_steps ?u) k = Some r" for k r
        using reconcile_keeps_failed that nf by blast
      then show ?thesis
        using und by (auto simp: no_failure_def undecided_def unblock_steps_get unblocked_record_def split: if_splits)
    qed
    then have "run_ok ?t"
      using unblock_steps_store_ok[OF acc(2)] ok acc(3)
      by (intro concluded_ok) (auto simp: run_ok_def timeline_ok_def same_frame_def)
    moreover have "active_attempts ?t = []" using none by (simp add: concluded_def active_attempts_def)
    moreover have "run_state ?t = recovered_state s ?t" by (simp add: concluded_def recovered_state_def)
    ultimately show ?thesis
      using t acc(3,7) act by (auto simp: concluded_def same_frame_def)
  qed
qed

text \<open>The engine may start on a recovered run.\<close>

lemma recovered_run_startable:
  assumes "run_ok s" and "1 \<le> run_max_workers s"
  shows "\<exists>t rs. recover_transaction decisions clock s = Inr (t, rs) \<and> startable_run t"
  using recover_transaction_ok[OF assms(1), of decisions clock] assms(2) by (auto simp: startable_run_def)

end
