(* ===== verification/Samples.thy ===== *)
theory Samples
  imports PlanTranslation
begin

text \<open>
  Concrete plans on which the properties are exercised: a change step, a command that
  consumes its output and an investigation, and a legacy task plan of two tasks.
\<close>

definition sample_change :: step_definition where
  "sample_change = \<lparr>step_id = ''core'', step_title = ''Core'', step_description = ''Write it'',
     step_dependencies = [],
     step_declared = no_declarations\<lparr>decl_outputs := Some [''diff'']\<rparr>,
     step_body = ChangeBody [''works''] [''src/'']
       [\<lparr>command_name = ''npm'', command_args = [''test'']\<rparr>]\<rparr>"

definition sample_command :: step_definition where
  "sample_command = \<lparr>step_id = ''check'', step_title = ''Check'', step_description = ''Run it'',
     step_dependencies = [''core''],
     step_declared = no_declarations\<lparr>decl_inputs := Some [\<lparr>input_step = ''core'', input_output = ''diff''\<rparr>],
       decl_retry := Some 2\<rparr>,
     step_body = CommandBody \<lparr>command_name = ''npm'', command_args = [''run'', ''lint'']\<rparr>\<rparr>"

definition sample_investigation :: step_definition where
  "sample_investigation = \<lparr>step_id = ''look'', step_title = ''Look'', step_description = ''Read it'',
     step_dependencies = [], step_declared = no_declarations,
     step_body = InvestigationBody [''why?'']\<rparr>"

definition sample_plan :: workflow_plan where
  "sample_plan = \<lparr>plan_title = ''Sample'', plan_steps = [sample_command, sample_change, sample_investigation],
     plan_final = [\<lparr>command_name = ''npm'', command_args = [''test'']\<rparr>]\<rparr>"

definition sample_task_plan :: task_plan where
  "sample_task_plan = \<lparr>task_plan_title = ''Tasks'',
     task_plan_tasks =
       [\<lparr>task_id = ''docs'', task_title = ''Docs'', task_description = ''Explain'', task_dependencies = [''core''],
         task_criteria = [''clear''], task_paths = [''docs/''],
         task_validation = [\<lparr>command_name = ''npm'', command_args = [''test'']\<rparr>]\<rparr>,
        \<lparr>task_id = ''core'', task_title = ''Core'', task_description = ''Write it'', task_dependencies = [],
         task_criteria = [''works''], task_paths = [''src/''],
         task_validation = [\<lparr>command_name = ''npm'', command_args = [''test'']\<rparr>]\<rparr>],
     task_plan_final = [\<lparr>command_name = ''npm'', command_args = [''test'']\<rparr>]\<rparr>"

text \<open>A plan whose only step runs a command without reading the repository.\<close>

definition sample_blind_plan :: workflow_plan where
  "sample_blind_plan = \<lparr>plan_title = ''Blind'', plan_steps =
     [sample_command\<lparr>step_dependencies := [],
        step_declared := no_declarations\<lparr>decl_capabilities := Some [ExecuteCommands]\<rparr>\<rparr>],
     plan_final = []\<rparr>"

lemma sample_blind_plan_wf: "wf_workflow_plan sample_blind_plan"
  by code_simp

lemma sample_task_plan_wf: "wf_task_plan sample_task_plan"
  by code_simp

lemma sample_task_plan_accepted: "validate_task_plan (task_plan_json sample_task_plan) = Inr sample_task_plan"
  by (rule validate_task_plan_json) (rule sample_task_plan_wf)

lemma sample_plan_wf: "wf_workflow_plan sample_plan"
  by code_simp

lemma sample_plan_accepted: "validate_workflow_plan (workflow_plan_json sample_plan) = Inr sample_plan"
  by (rule validate_workflow_plan_json) (rule sample_plan_wf)

end
