(* ===== verification/SampleRuns.thy ===== *)
theory SampleRuns
  imports Samples Scheduler
begin

text \<open>
  Concrete authority and a concrete run for the witnesses: the default profiles, the
  envelope derived from the sample plan, and a run of that plan just after its creation and
  after its change step was launched.
\<close>

definition sample_digest :: "json \<Rightarrow> string" where "sample_digest v = ''d''"

definition sample_profiles :: run_profiles where
  "sample_profiles name = profile_granting (CAPABILITY_PROFILE_MAXIMA name)"

definition sample_policy :: security_policy where
  "sample_policy = \<lparr>policy_version = 2, policy_isolation = WorktreeOnly,
     policy_profiles = Some sample_profiles, policy_sandbox = Nono\<rparr>"

definition sample_envelope :: authority_envelope where
  "sample_envelope = derived_envelope ''/repo'' sample_plan (Some sample_profiles) Nono"

definition sample_authority :: frozen_authority where
  "sample_authority = \<lparr>authority_source = Derived,
     authority_digest = authority_envelope_digest sample_digest sample_envelope,
     authority_envelope_of = sample_envelope\<rparr>"

lemma sample_profiles_default: "default_profiles (Some sample_profiles)"
  using CAPABILITY_PROFILE_MAXIMA_known by (auto simp: default_profiles_def sample_profiles_def profile_granting_def)

lemma sample_capabilities: "ReadRepository \<in> set (derived_capabilities sample_plan (Some sample_profiles))"
  by code_simp

lemma sample_document: "read_workflow_plan_document (workflow_plan_json sample_plan) = Inr sample_plan"
  by (rule read_workflow_plan_document_json) (rule sample_plan_wf)

lemma sample_envelope_derived:
  "derive_authority_envelope ''/repo'' (workflow_plan_json sample_plan) (Some sample_profiles) Nono = Inr sample_envelope"
  using derive_authority_envelope_ok[OF sample_document] sample_capabilities by (simp add: sample_envelope_def)

lemma sample_envelope_wf: "wf_envelope Derived sample_envelope"
  using sample_envelope_derived normalize_authority_envelope_sound
  by (auto simp: derive_authority_envelope_def sample_document)

definition sample_input :: run_input where
  "sample_input = \<lparr>input_id = ''run-1'', input_plan = sample_plan, input_root = ''/repo'',
     input_base_branch = ''main'', input_base_commit = ''c0'', input_branch = ''orchestrator/run-1'',
     input_head = ''c0'', input_profiles = sample_profiles, input_authority = Some sample_authority,
     input_max_workers = 2, input_created = Some ''t0''\<rparr>"

definition sample_run :: run_state where
  "sample_run = (case create_workflow_run_state sample_input ''t0'' of Inr s \<Rightarrow> s | Inl _ \<Rightarrow> undefined)"

lemma sample_run_created: "create_workflow_run_state sample_input ''t0'' = Inr sample_run"
  by (simp add: sample_run_def create_workflow_run_state_def sample_input_def Let_def is_safe_integer_def to_int_def)

lemma sample_run_graph: "graph_ok sample_run"
  using sample_plan_wf
  by (simp add: graph_ok_def sample_run_def create_workflow_run_state_def sample_input_def Let_def
      is_safe_integer_def to_int_def sample_plan_def sample_change_def sample_command_def sample_investigation_def
      obj_set_def new_record_def)

lemma sample_blind_document:
  "read_workflow_plan_document (workflow_plan_json sample_blind_plan) = Inr sample_blind_plan"
  by (rule read_workflow_plan_document_json) (rule sample_blind_plan_wf)

lemma sample_blind_capabilities:
  "derived_capabilities sample_blind_plan (Some sample_profiles) = [ExecuteCommands]"
  by code_simp

text \<open>With one worker slot only the first of the two ready steps may start.\<close>

definition sample_narrow_run :: run_state where
  "sample_narrow_run = sample_run\<lparr>run_max_workers := 1\<rparr>"

lemma sample_narrow_graph: "graph_ok sample_narrow_run"
  using sample_run_graph by (simp add: graph_ok_def sample_narrow_run_def)

lemma sample_narrow_launchable: "launchable_steps sample_narrow_run = [''core'']"
  by code_simp

lemma sample_narrow_look:
  "obj_get (run_steps sample_narrow_run) ''look'' = Some (new_record Ready sample_investigation)"
  by code_simp

lemma sample_narrow_startable: "startable sample_narrow_run ''look''"
proof -
  have "''look'' \<notin> set (active_step_ids sample_narrow_run)" by code_simp
  then show ?thesis by (simp add: startable_def sample_narrow_look new_record_def)
qed

end
