(* ===== verification/SampleExecution.thy ===== *)
theory SampleExecution
  imports SampleRuns EngineHead
begin

text \<open>
  A whole execution of a one-step run: the change step is launched, succeeds with a commit,
  the commit is integrated and the loop comes back to the race with nothing left.
\<close>

definition solo_input :: run_input where
  "solo_input = sample_input\<lparr>input_plan := sample_plan\<lparr>plan_steps := [sample_change]\<rparr>, input_authority := None\<rparr>"

definition solo_run :: run_state where
  "solo_run = (case create_workflow_run_state solo_input ''t0'' of Inr s \<Rightarrow> s | Inl _ \<Rightarrow> undefined)"

lemma solo_created: "create_workflow_run_state solo_input ''t0'' = Inr solo_run"
  by (simp add: solo_run_def create_workflow_run_state_def solo_input_def sample_input_def Let_def is_safe_integer_def
      to_int_def)

lemma solo_plan_wf: "wf_workflow_plan (input_plan solo_input)"
  by code_simp

lemma created_run_startable:
  assumes "wf_workflow_plan (input_plan input)" "input_head input \<noteq> []" "create_workflow_run_state input time = Inr s"
  shows "startable_run s" "head_ok (input_head input) s"
proof -
  note c = create_run_ok[OF assms]
  have w: "1 \<le> run_max_workers s" using assms(3) by (auto simp: create_workflow_run_state_def Let_def split: if_splits)
  show "startable_run s" using c(1,3) w by (simp add: startable_run_def active_attempts_def)
  have "commit_of s k = None" for k
  proof (cases "obj_get (run_steps s) k")
    case (Some r)
    have "record_ok (run_profiles s) r (attempts_of s k)" by (rule run_ok_record[OF c(1) Some])
    then have "record_state r \<noteq> Succeeded" using c(3) by (auto simp: record_ok_def attempts_of_def)
    then have "record_integrated r = None"
      using run_ok_record[OF c(1) Some] unfolding record_ok_def by blast
    then show ?thesis by (simp add: commit_of_def Some)
  qed (simp add: commit_of_def)
  then show "head_ok (input_head input) s" by (simp add: head_ok_def integrated_commits_def map_filter_none c(5))
qed

lemma solo_startable: "startable_run solo_run" "head_ok ''c0'' solo_run"
  using created_run_startable[OF solo_plan_wf _ solo_created] by (simp_all add: solo_input_def sample_input_def)

definition solo_workspace :: workspace where
  "solo_workspace = \<lparr>workspace_kind = Mutable, workspace_path = ''/w'', workspace_branch = Some ''b'',
     workspace_base = ''c0''\<rparr>"

definition solo_attempt :: step_attempt where
  "solo_attempt = \<lparr>attempt_id = ''core-1'', attempt_step = ''core'', attempt_number = 1, attempt_state = Prepared,
     attempt_requirement = Mutable, attempt_workspace = ''/w'', attempt_branch = Some ''b'', attempt_base = ''c0'',
     attempt_started = ''t1'', attempt_finished = None, attempt_summary = None, attempt_error = None,
     attempt_worker = None, attempt_commit = None, attempt_evidence = None, attempt_artifacts = None,
     attempt_release_error = None\<rparr>"

definition solo_result :: execution_result where
  "solo_result = \<lparr>result_outcome = Success \<lparr>success_summary = None, success_worker = None, success_commit = Some ''c1'',
       success_evidence = None, success_artifacts = None\<rparr>,
     result_started = ''t1'', result_finished = ''t2'', result_timed_out = False, result_retained = False,
     result_release_error = None\<rparr>"

definition solo_done :: step_attempt where
  "solo_done = solo_attempt\<lparr>attempt_state := AttemptSucceeded, attempt_finished := Some ''t2'', attempt_commit := Some ''c1''\<rparr>"

definition solo_plan :: workflow_plan where
  "solo_plan = input_plan solo_input"

text \<open>The parts of the stored run that the loop reads.\<close>

definition solo_at :: "run_state \<Rightarrow> step_state \<Rightarrow> string list \<Rightarrow> string option \<Rightarrow> step_attempt list \<Rightarrow> bool" where
  "solo_at s st ids commit xs \<longleftrightarrow> run_plan s = solo_plan \<and> run_profiles s = sample_profiles \<and> run_state s = RunRunning \<and>
     run_max_workers s = 2 \<and> run_attempts s = xs \<and>
     run_steps s = [(''core'', (new_record st sample_change)\<lparr>record_attempts := ids, record_integrated := commit\<rparr>)]"

lemma solo_order: "topological_step_ids solo_plan = [''core'']"
  by code_simp

lemma solo_requires: "step_requires_integration sample_profiles sample_change"
  by code_simp

lemma solo_slot: "step_consumes_worker_slot sample_profiles sample_change"
  by code_simp

lemma solo_change_facts: "step_dependencies sample_change = []" "step_retry_policy sample_change = 1"
  "step_resource_locks sample_change = []"
  by code_simp+

lemma solo_created_at: "solo_at solo_run Ready [] None []"
  by (simp add: solo_at_def solo_run_def create_workflow_run_state_def solo_input_def solo_plan_def sample_input_def Let_def
      is_safe_integer_def to_int_def sample_plan_def sample_change_def obj_set_def new_record_def)

lemma solo_reconcile:
  assumes "solo_at s st ids commit xs" and "st = Ready \<or> st = Running \<or> st = Succeeded"
  shows "reconcile_workflow_steps s = s"
proof -
  have "obj_get (run_steps s) ''core'' = Some ((new_record st sample_change)\<lparr>record_attempts := ids, record_integrated := commit\<rparr>)"
    using assms(1) by (simp add: solo_at_def obj_get_def)
  moreover have "next_step_state ps ((new_record st sample_change)\<lparr>record_attempts := ids, record_integrated := commit\<rparr>) m = st" for ps m
    using assms(2) by (auto simp: next_step_state_def new_record_def solo_change_facts)
  ultimately show ?thesis
    using assms(1) by (simp add: solo_at_def reconcile_workflow_steps_def solo_order reconcile_step_def new_record_def obj_set_def)
qed

lemma solo_choice:
  assumes "solo_at s st ids commit xs"
  shows "choose_integration s = (if commit \<noteq> None \<and> commit \<noteq> Some [] \<or> st \<noteq> Succeeded then NothingToIntegrate
    else case find_last (\<lambda>a. attempt_step a = ''core'' \<and> attempt_state a = AttemptSucceeded) xs of
      None \<Rightarrow> MissingAttempt ''core'' | Some a \<Rightarrow> Integrating ''core'' a)"
  using assms solo_requires
  by (auto simp: solo_at_def choose_integration_def next_integrable_step_id_def solo_order obj_get_def new_record_def
      truthy_def split: option.splits)

lemma solo_launchable:
  assumes "solo_at s st ids commit xs" "st = Ready \<or> st = Running \<or> st = Succeeded"
    and "\<forall>a\<in>set xs. \<not> active a" "st \<noteq> Running"
  shows "launchable_step_ids s = Inr (if st = Ready then [''core''] else [])"
proof -
  have none: "active_step_ids s = []"
    using assms(1,3) by (simp add: solo_at_def active_step_ids_def active_attempts_def active_def filter_empty_conv)
  have rec: "obj_get (run_steps s) ''core'' = Some ((new_record st sample_change)\<lparr>record_attempts := ids, record_integrated := commit\<rparr>)"
    using assms(1) by (simp add: solo_at_def obj_get_def)
  have "initial_search s = \<lparr>available_slots = 2, search_held = \<lparr>held_paths = [], held_resources = []\<rparr>, launchable = []\<rparr>"
    using assms(1,4) none
    by (simp add: initial_search_def occupied_slots_def untracked_running_def running_records_def obj_values_def
        held_locks_of_def solo_at_def new_record_def)
  then have "launchable_steps s = (if st = Ready then [''core''] else [])"
    using assms(1) none rec
    by (simp add: launchable_steps_def solo_at_def solo_order launch_candidate_def new_record_def conflicts_with_held_locks_def
        list_ex_iff)
  then show ?thesis
    using solo_reconcile[OF assms(1,2)] none assms(1) by (simp add: launchable_step_ids_def solo_at_def)
qed

lemma solo_reserve:
  assumes "solo_at s Ready [] None []"
  shows "\<exists>t. reserve_attempt s solo_attempt u v = Inr (t, True) \<and> solo_at t Running [''core-1''] None [solo_attempt] \<and>
    run_head t = run_head s"
proof -
  have "launchable_step_ids s = Inr [''core'']" using solo_launchable[OF assms] by simp
  then show ?thesis using assms
    by (simp add: reserve_attempt_def solo_attempt_def and_then_def update_step_def require_step_def solo_at_def
        obj_get_def obj_set_def new_record_def)
qed

lemma solo_mark:
  assumes "solo_at s Running [''core-1''] None [solo_attempt]"
  shows "solo_at (mark_attempt_running s (attempt_id solo_attempt) u) Running [''core-1''] None
    [solo_attempt\<lparr>attempt_state := AttemptRunning\<rparr>]"
  using assms by (simp add: solo_at_def mark_attempt_running_def update_step_attempt_def)

lemma solo_settle:
  assumes "solo_at s Running [''core-1''] None [solo_attempt\<lparr>attempt_state := AttemptRunning\<rparr>]"
  shows "\<exists>t. settle_attempt s (attempt_step solo_attempt) solo_attempt solo_result [] [] u v = Inr t \<and>
    solo_at t Succeeded [''core-1''] None [solo_done]"
proof -
  let ?r = "\<lambda>st. (new_record st sample_change)\<lparr>record_attempts := [''core-1''], record_integrated := None\<rparr>"
  let ?s = "s\<lparr>run_attempts := [solo_done], run_steps := [(''core'', ?r Succeeded)]\<rparr>"
  have at: "solo_at ?s Succeeded [''core-1''] None [solo_done]" using assms by (simp add: solo_at_def)
  have att: "map (\<lambda>x. if attempt_id x = attempt_id solo_attempt then settled_attempt solo_result [] x else x) (run_attempts s) = [solo_done]"
    using assms by (simp add: solo_at_def solo_attempt_def solo_done_def solo_result_def settled_attempt_def Let_def override_def
        truthy_def outcome_worker_def)
  have rec: "obj_get (run_steps s) ''core'' = Some (?r Running)" using assms by (simp add: solo_at_def obj_get_def)
  have set: "obj_set (run_steps s) ''core'' (settled_record (result_outcome solo_result) b (?r Running)) = [(''core'', ?r Succeeded)]" for b
    using assms by (simp add: solo_at_def obj_set_def settled_record_def solo_result_def new_record_def)
  obtain t where t: "settle_attempt s ''core'' solo_attempt solo_result [] [] u v = Inr t" using settle_attempt_total[OF rec] by blast
  obtain l ev where "t = concluded ?s l u ev v" "l = run_state s"
  proof (rule settle_attempt_Inr[OF t])
    fix r c retrying
    assume r: "obj_get (run_steps s) ''core'' = Some r" and t: "t = concluded (s\<lparr>run_attempts := map (\<lambda>x. if attempt_id x = attempt_id solo_attempt then settled_attempt solo_result [] x else x)
           (run_attempts s),
         run_steps := obj_set (run_steps s) ''core'' (settled_record (result_outcome solo_result) retrying r)\<rparr>)
       (settled_lifecycle (run_state s) (result_outcome solo_result) retrying) u
       ([] @ settled_events ''core'' solo_attempt (result_outcome solo_result) c @
        blocked_step_events (s\<lparr>run_attempts := map (\<lambda>x. if attempt_id x = attempt_id solo_attempt
             then settled_attempt solo_result [] x else x) (run_attempts s),
           run_steps := obj_set (run_steps s) ''core'' (settled_record (result_outcome solo_result) retrying r)\<rparr>)
         (reconcile_workflow_steps (s\<lparr>run_attempts := map (\<lambda>x. if attempt_id x = attempt_id solo_attempt
             then settled_attempt solo_result [] x else x) (run_attempts s),
           run_steps := obj_set (run_steps s) ''core'' (settled_record (result_outcome solo_result) retrying r)\<rparr>))) v"
    have "settled_lifecycle (run_state s) (result_outcome solo_result) retrying = run_state s"
      using assms by (simp add: solo_at_def settled_lifecycle_def solo_result_def)
    note l = this
    have r: "r = ?r Running" using r rec by simp
    show thesis using t that unfolding r att set l by blast
  qed
  then have "solo_at t Succeeded [''core-1''] None [solo_done]"
    using solo_reconcile[OF at] assms by (simp add: concluded_def solo_at_def)
  with t show ?thesis by (simp add: solo_attempt_def)
qed

lemma solo_integrate:
  assumes "solo_at s Succeeded [''core-1''] None [solo_done]"
  shows "\<exists>t. integrate_step s ''core'' solo_done ''c1'' u v = Inr t \<and> solo_at t Succeeded [''core-1''] (Some ''c1'') [solo_done]"
proof -
  let ?u = "s\<lparr>run_steps := [(''core'', (new_record Succeeded sample_change)\<lparr>record_attempts := [''core-1''], record_integrated := Some ''c1''\<rparr>)],
    run_head := ''c1'', run_updated := u\<rparr>"
  have "solo_at ?u Succeeded [''core-1''] (Some ''c1'') [solo_done]" using assms by (simp add: solo_at_def)
  from solo_reconcile[OF this] this assms show ?thesis
    by (simp add: integrate_step_def and_then_def update_step_def require_step_def solo_at_def obj_get_def obj_set_def)
qed

text \<open>The execution, rule by rule: up to the reservation, and on to where the loop settles the run.\<close>

definition solo_engine :: "run_state \<Rightarrow> engine_pc \<Rightarrow> step_attempt list \<Rightarrow> string list \<Rightarrow> engine" where
  "solo_engine s pc live racing =
     \<lparr>eng_run = s, eng_pc = pc, eng_live = live, eng_racing = racing, eng_aborted = False\<rparr>"

lemma solo_step:
  "engine_reachable solo_run e \<Longrightarrow> engine_step e x \<Longrightarrow> x = e' \<Longrightarrow> engine_reachable solo_run e'"
  using engine_reachable.step by blast

lemma solo_launch: "engine_reachable solo_run (solo_engine solo_run (Reserve solo_attempt []) [] [])"
proof -
  have a0: "solo_at solo_run Ready [] None []" by (rule solo_created_at)
  have "engine_reachable solo_run (solo_engine solo_run Integrate [] [])"
    using engine_reachable.start[of solo_run] by (simp add: engine_start_def solo_engine_def)
  then have "engine_reachable solo_run (solo_engine solo_run (Chosen RunRunning) [] [])"
    by - (erule solo_step, rule engine_step.nothing_to_integrate,
        use a0 solo_choice[OF a0] in \<open>simp_all add: solo_at_def solo_engine_def\<close>)
  then have "engine_reachable solo_run (solo_engine solo_run (Dispatch [''core'']) [] [])"
    by - (erule solo_step, rule engine_step.dispatched, use solo_launchable[OF a0] in \<open>simp_all add: solo_engine_def\<close>)
  moreover have "prepare_attempt solo_run ''core'' ''core-1''
      \<lparr>workspace_kind = Mutable, workspace_path = ''/w'', workspace_branch = Some ''b'', workspace_base = ''c0''\<rparr> ''t1'' = Inr solo_attempt"
    using a0 by (simp add: prepare_attempt_def and_then_def require_step_def solo_at_def solo_attempt_def obj_get_def
        truthy_def new_record_def)
  ultimately show ?thesis
    using a0 by - (erule solo_step, rule engine_step.prepared, simp_all add: solo_at_def solo_engine_def)
qed

lemma solo_execution:
  "\<exists>s. engine_reachable solo_run (solo_engine s Race [] []) \<and> run_state s = RunRunning \<and>
     run_head s = ''c1'' \<and> obj_keys (run_steps s) = [''core''] \<and>
     solo_at s Succeeded [''core-1''] (Some ''c1'') [solo_done]"
proof -
  let ?a = solo_attempt
  let ?E = solo_engine
  have a0: "solo_at solo_run Ready [] None []" by (rule solo_created_at)
  obtain s1 where s1: "reserve_attempt solo_run ?a ''t1'' ''t1'' = Inr (s1, True)" "solo_at s1 Running [''core-1''] None [?a]"
    using solo_reserve[OF a0] by blast
  from solo_launch have "engine_reachable solo_run (?E s1 (Mark ?a []) [] [])"
    by - (erule solo_step, rule engine_step.reserved, use s1(1) in \<open>simp_all add: solo_engine_def\<close>)
  then have r2: "engine_reachable solo_run (?E (mark_attempt_running s1 (attempt_id ?a) ''t1'') (Dispatch []) [?a] [attempt_id ?a])"
    by - (erule solo_step, rule engine_step.launched, simp_all add: solo_engine_def)
  obtain s3 where s3: "settle_attempt (mark_attempt_running s1 (attempt_id ?a) ''t1'') (attempt_step ?a) ?a solo_result [] [] ''t2'' ''t2'' = Inr s3"
    "solo_at s3 Succeeded [''core-1''] None [solo_done]"
    using solo_settle[OF solo_mark[OF s1(2)]] by blast
  from r2 have "engine_reachable solo_run (?E s3 (Dispatch []) [] [attempt_id ?a])"
    by - (erule solo_step, rule engine_step.settled_step[of ?a _ solo_result "Inr ([], [])"], use s3(1) in \<open>simp_all add: solo_engine_def routed_result_def\<close>)
  then have "engine_reachable solo_run (?E s3 Race [] [attempt_id ?a])"
    by - (erule solo_step, rule engine_step.all_dispatched, simp_all add: solo_engine_def)
  then have "engine_reachable solo_run (?E s3 Integrate [] [])"
    by - (erule solo_step, rule engine_step.woken[of _ "attempt_id ?a"], simp_all add: solo_engine_def)
  then have r3: "engine_reachable solo_run (?E s3 (AwaitIntegrator ''core'' solo_done (run_head s3)) [] [])"
    by - (erule solo_step, rule engine_step.integrator_asked, use solo_choice[OF s3(2)] in \<open>simp_all add: solo_engine_def solo_done_def solo_attempt_def find_last_def\<close>)
  obtain s4 where s4: "integrate_step s3 ''core'' solo_done ''c1'' ''t3'' ''t3'' = Inr s4"
    "solo_at s4 Succeeded [''core-1''] (Some ''c1'') [solo_done]" using solo_integrate[OF s3(2)] by blast
  from r3 have "engine_reachable solo_run (?E s4 Integrate [] [])"
    by - (erule solo_step, rule engine_step.integrated, use s4(1) in \<open>simp_all add: solo_engine_def solo_done_def truthy_def\<close>)
  then have "engine_reachable solo_run (?E s4 (Chosen RunRunning) [] [])"
    by - (erule solo_step, rule engine_step.nothing_to_integrate, use s4(2) solo_choice[OF s4(2)] in \<open>simp_all add: solo_engine_def solo_at_def\<close>)
  then have "engine_reachable solo_run (?E s4 (Dispatch []) [] [])"
    by - (erule solo_step, rule engine_step.dispatched, use solo_launchable[OF s4(2)] in \<open>simp_all add: solo_engine_def solo_done_def active_def\<close>)
  then have "engine_reachable solo_run (?E s4 Race [] [])"
    by - (erule solo_step, rule engine_step.all_dispatched, simp_all add: solo_engine_def)
  moreover have "run_head s4 = ''c1''"
    using s4(1) by (auto simp: integrate_step_def and_then_Inr update_step_Inr)
  ultimately show ?thesis using s4(2) by (intro exI[of _ s4]) (auto simp: solo_at_def obj_keys_def)
qed

end
