(* ===== verification/ArtifactRetention.thy ===== *)
theory ArtifactRetention
  imports ArtifactStore
begin

text \<open>
  What retention deletes: when a write removes a stored artifact, exactly the retained number of attempts of
  that output is left, and every one of them is newer.
\<close>

definition output_files :: "store_env \<Rightarrow> artifact_files \<Rightarrow> string \<Rightarrow> string \<Rightarrow> string \<Rightarrow> string set" where
  "output_files env st run sid out =
     {n. \<exists>r. read_record_file env st run n = Inr r \<and> artifact_step r = sid \<and> artifact_output r = out}"

lemma sorted_take_drop:
  assumes "x \<in> set (take k (sort_key f xs))" and "y \<in> set (drop k (sort_key f xs))"
  shows "f x \<le> f y"
proof -
  have "sorted (map f (take k (sort_key f xs)) @ map f (drop k (sort_key f xs)))"
    by (simp flip: map_append)
  with assms show ?thesis by (auto simp: sorted_append)
qed

text \<open>The files of an output, by the names of its attempts.\<close>

lemma output_files_names:
  assumes "valid_store env st" and "run_id_pattern run"
  shows "n \<in> output_files env st run sid out \<longleftrightarrow>
    n \<in> set (obj_keys (st run)) \<and> (\<exists>i. name_identity n = Some i \<and> identity_step i = sid \<and> identity_output i = out)"
proof
  assume "n \<in> output_files env st run sid out"
  then obtain r where r: "read_record_file env st run n = Inr r" "artifact_step r = sid" "artifact_output r = out"
    by (auto simp: output_files_def)
  then have "n \<in> set (obj_keys (st run))" using obj_get_Some_key by (auto simp: read_record_file_Inr)
  with r record_name_identity(1)[OF r(1)] show "n \<in> set (obj_keys (st run)) \<and> (\<exists>i. name_identity n = Some i \<and> identity_step i = sid \<and> identity_output i = out)"
    by (auto simp: record_identity_def)
next
  assume n: "n \<in> set (obj_keys (st run)) \<and> (\<exists>i. name_identity n = Some i \<and> identity_step i = sid \<and> identity_output i = out)"
  then obtain r where r: "read_record_file env st run n = Inr r" using assms by (auto simp: valid_store_def files_ok_def)
  with n record_name_identity(1)[OF r] show "n \<in> output_files env st run sid out"
    by (auto simp: output_files_def record_identity_def)
qed

text \<open>Two records of one directory with the same identity are the same file.\<close>

lemma record_files_unique:
  assumes "read_record_file env st run n = Inr r" and "read_record_file env st' run m = Inr q" and "record_identity r = record_identity q"
  shows "n = m"
proof -
  have "artifact_id r = artifact_id q"
    using record_name_identity(2)[OF assms(1)] record_name_identity(2)[OF assms(2)] assms(3) by simp
  with assms show ?thesis by (auto simp: read_record_file_Inr)
qed

lemma apply_retention_newest:
  assumes v: "valid_store env st" "run_id_pattern (artifact_run q)" and t: "apply_retention env st q = Inr st'"
    and old: "read_record_file env st (artifact_run q) n = Inr r" and gone: "obj_get (st' (artifact_run q)) n = None"
    and out: "artifact_step r = artifact_step q" "artifact_output r = artifact_output q"
  shows "\<exists>k. env_retained env = Some k \<and> card (output_files env st' (artifact_run q) (artifact_step q) (artifact_output q)) = k \<and>
    (\<forall>m p. read_record_file env st' (artifact_run q) m = Inr p \<longrightarrow> artifact_step p = artifact_step q \<longrightarrow>
      artifact_output p = artifact_output q \<longrightarrow> artifact_attempt r < artifact_attempt p)"
proof -
  let ?run = "artifact_run q" and ?sid = "artifact_step q" and ?out = "artifact_output q" and ?f = "\<lambda>(a, name :: string). - a :: rat"
  have key: "n \<in> set (obj_keys (st ?run))" using old obj_get_Some_key by (auto simp: read_record_file_Inr)
  then obtain k where k: "env_retained env = Some k"
    using t gone by (cases "env_retained env") (auto simp: apply_retention_def obj_get_None_iff)
  obtain names where names: "list_file_names env st ?run = Inr names" "set names = set (obj_keys (st ?run))"
    "mset names = mset (obj_keys (st ?run))" using valid_names[OF v] by blast
  define xs where "xs = sort_key ?f (output_attempts names ?sid ?out)"
  have st': "st' = st(?run := foldl remove_file (st ?run) (map snd (drop k xs)))"
    using t names(1) k by (simp add: apply_retention_def and_then_def Let_def xs_def)
  have valid': "valid_store env st'" by (rule apply_retention_keeps(1)[OF v t])
  have "distinct (obj_keys (st ?run))" using v(1) by (simp add: valid_store_def files_ok_def)
  then have "distinct names" using names(3) by (metis mset_eq_imp_distinct_iff)
  from output_attempts_distinct[OF this, of ?sid ?out]
  have dx: "distinct (map snd (take k xs) @ map snd (drop k xs))"
    by (subst map_append[symmetric]) (simp add: xs_def distinct_map)
  have split: "set xs = set (take k xs) \<union> set (drop k xs)" by (metis append_take_drop_id set_append)
  have mem: "(a, m) \<in> set xs \<longleftrightarrow> m \<in> set (obj_keys (st ?run)) \<and>
      (\<exists>i. name_identity m = Some i \<and> identity_step i = ?sid \<and> identity_output i = ?out \<and> a = identity_attempt i)" for a m
    by (simp add: xs_def output_attempts_mem names(2))
  have left: "output_files env st' ?run ?sid ?out = snd ` set (take k xs)"
  proof (intro set_eqI)
    fix m
    have "m \<in> output_files env st' ?run ?sid ?out \<longleftrightarrow> m \<in> snd ` set xs \<and> m \<notin> snd ` set (drop k xs)"
      unfolding output_files_names[OF valid' v(2)] using mem by (force simp: st' remove_files_keys)
    then show "m \<in> output_files env st' ?run ?sid ?out \<longleftrightarrow> m \<in> snd ` set (take k xs)"
      using dx split by auto
  qed
  have n: "(artifact_attempt r, n) \<in> set (drop k xs)"
  proof -
    have "n \<in> snd ` set (drop k xs)"
      using key gone by (auto simp: st' obj_get_None_iff remove_files_keys)
    then obtain a where a: "(a, n) \<in> set (drop k xs)" by auto
    then have "a = artifact_attempt r"
      using mem[of a n] split record_name_identity(1)[OF old] by (simp add: record_identity_def)
    with a show ?thesis by simp
  qed
  then have "k < length xs" using not_le by fastforce
  then have "card (snd ` set (take k xs)) = k" using dx distinct_card[of "map snd (take k xs)"] by simp
  moreover have "artifact_attempt r < artifact_attempt p"
    if p: "read_record_file env st' ?run m = Inr p" "artifact_step p = ?sid" "artifact_output p = ?out" for m p
  proof -
    have "m \<in> output_files env st' ?run ?sid ?out" using p by (auto simp: output_files_def)
    then obtain a where a: "(a, m) \<in> set (take k xs)" unfolding left by auto
    then have "a = artifact_attempt p"
      using mem[of a m] split record_name_identity(1)[OF p(1)] by (auto simp: record_identity_def)
    then have "artifact_attempt r \<le> artifact_attempt p"
      using sorted_take_drop[OF a[unfolded xs_def] n[unfolded xs_def]] by simp
    moreover have "artifact_attempt r \<noteq> artifact_attempt p"
    proof
      assume "artifact_attempt r = artifact_attempt p"
      then have "n = m" using record_files_unique[OF old p(1)] out p(2,3) by (simp add: record_identity_def)
      then show False using dx a n by force
    qed
    ultimately show ?thesis by simp
  qed
  ultimately show ?thesis using k left by auto
qed

lemma write_artifact_retains:
  assumes v: "valid_store env st" and now: "now \<noteq> []" and w: "write_artifact env now st w = (st', res)"
    and old: "read_record_file env st run n = Inr r" and gone: "obj_get (st' run) n = None"
  shows "\<exists>k. env_retained env = Some k \<and> card (output_files env st' run (artifact_step r) (artifact_output r)) = k \<and>
    (\<forall>m q. read_record_file env st' run m = Inr q \<longrightarrow> artifact_step q = artifact_step r \<longrightarrow>
      artifact_output q = artifact_output r \<longrightarrow> artifact_attempt r < artifact_attempt q)"
  using v now w
proof (cases rule: write_artifact_cases)
  case 1
  then show ?thesis using old gone by (auto simp: read_record_file_Inr)
next
  case (2 q)
  then show ?thesis using old gone by (auto simp: read_record_file_Inr)
next
  case (3 q st1)
  have d: "run = write_run w" "artifact_step r = write_step w" "artifact_output r = write_output w"
    using write_artifact_deletes[OF v now w old gone] by simp_all
  have b: "wf_artifact (env_sha env) (env_parse env) q" "artifact_run q = write_run w" "record_identity q = write_identity w"
    "run_id_pattern (artifact_run q)"
    using build_record_wf[OF _ now 3(1)] v by (simp_all add: valid_store_def)
  then have q: "artifact_step q = artifact_step r" "artifact_output q = artifact_output r" "artifact_run q = run"
    using d by (simp_all add: record_identity_def write_identity_def)
  have v1: "valid_store env st1" by (rule publish_files_ok(1)[OF v b(1,4) 3(2)])
  have st1: "st1 = st(run := obj_set (st run) (json_name (artifact_id q)) (Inr (artifact_json q)))"
    "obj_get (st run) (json_name (artifact_id q)) = None"
    using 3(2) q(3) by (auto simp: publish_exclusive_def Let_def split: if_splits)
  then have "read_record_file env st1 run n = Inr r" using old by (auto simp: read_record_file_Inr)
  from apply_retention_newest[OF v1 b(4) 3(3), unfolded q, OF this gone] show ?thesis by simp
qed

end
