(* ===== verification/SampleArtifacts.thy ===== *)
theory SampleArtifacts
  imports ArtifactRetention Samples
begin

text \<open>
  Concrete artifacts for the examples: one stored record, an environment of the artifact store
  and the files that hold the record.
\<close>

lemma sample_run_id: "run_id_pattern ''run-1''"
  by (simp add: run_id_pattern_def lower_letter_def digit_def in_range_def)

lemma sample_artifact_id:
  "artifact_id_for \<lparr>identity_step = ''core'', identity_output = ''diff'', identity_attempt = 2\<rparr> = Inr ''core.diff.2''"
  by (auto simp: artifact_id_for_Inr identity_text_def to_int_def js_nat.simps name_pattern_def lower_letter_def
      in_range_def MAX_ARTIFACT_ATTEMPT_def MAX_ARTIFACT_ID_LENGTH_def intro!: exI[of _ 2])

definition sample_sha :: "string \<Rightarrow> string" where
  "sample_sha text = replicate 64 (CHR ''0'')"

definition sample_record :: artifact_record where
  "sample_record = \<lparr>artifact_id = ''core.diff.2'', artifact_run = ''run-1'', artifact_step = ''core'',
     artifact_output = ''diff'', artifact_attempt = 2, artifact_kind = Patch,
     artifact_media = ''text/x-patch'', artifact_title = ''Patch'', artifact_created = ''t1'', artifact_size = 3,
     artifact_hash = ''sha256:'' @ sample_sha ''+ok'', artifact_text = ''+ok''\<rparr>"

lemma sample_record_wf: "wf_artifact sample_sha of_text sample_record"
  using sample_artifact_id
  by (simp add: wf_artifact_def sample_record_def record_identity_def run_id_pattern_def lower_letter_def
      in_range_def ARTIFACT_KIND_MEDIA_TYPES_def ARTIFACT_KIND_FORMATS_def MAX_ARTIFACT_TITLE_LENGTH_def
      byte_length_def artifact_content_hash_def content_hash_pattern_def sample_sha_def starts_with_def
      hex_character_def digit_def upper_letter_def list_all_iff)

definition sample_env :: store_env where
  "sample_env = \<lparr>env_directory = ''/artifacts'', env_clock = (\<lambda>n. ''t1''), env_sha = sample_sha,
     env_print = (\<lambda>v. ''null''), env_parse = (\<lambda>t. Some JNull), env_sort = (\<lambda>names. names),
     env_size = (\<lambda>c. 100), env_max_bytes = 10, env_max_count = 2, env_max_run_bytes = 250,
     env_retained = Some 1\<rparr>"

definition sample_write :: "nat \<Rightarrow> string \<Rightarrow> artifact_write" where
  "sample_write attempt text = \<lparr>write_run = ''run-1'', write_step = ''core'', write_output = ''diff'',
     write_attempt = attempt, write_kind = Patch, write_title = ''Patch'', write_payload = TextPayload text\<rparr>"

definition sample_files :: artifact_files where
  "sample_files = (\<lambda>run. [])(''run-1'' := [(''core.diff.2.json'', Inr (artifact_json sample_record))])"

lemma sample_env_ok: "env_ok sample_env"
  by (auto simp: env_ok_def sample_env_def artifact_content_hash_def content_hash_pattern_def sample_sha_def
      starts_with_def hex_character_def digit_def upper_letter_def lower_letter_def in_range_def list_all_iff)

lemma empty_store_valid: "env_ok env \<Longrightarrow> valid_store env (\<lambda>run. [])"
  by (simp add: valid_store_def files_ok_def obj_keys_def)

lemma sample_record_built: "build_record sample_env (sample_write 2 ''+ok'') ''t1'' = Inr sample_record"
  using sample_artifact_id
  by (simp add: build_record_def and_then_def require_def sample_write_def sample_env_def write_identity_def as_invalid_def
      sample_run_id MAX_ARTIFACT_TITLE_LENGTH_def serialize_artifact_payload_def
      payload_format_of_def ARTIFACT_KIND_FORMATS_def ARTIFACT_KIND_MEDIA_TYPES_def byte_length_def
      artifact_content_hash_def sample_record_def)

lemma sample_write_stored:
  "write_artifact sample_env ''t1'' (\<lambda>run. []) (sample_write 2 ''+ok'') = (sample_files, Inr sample_record)"
proof -
  have r: "artifact_run sample_record = ''run-1''" "json_name (artifact_id sample_record) = ''core.diff.2.json''"
    "artifact_step sample_record = ''core''" "artifact_output sample_record = ''diff''"
    by (simp_all add: sample_record_def json_name_def)
  note id = sample_run_id
  have ex: "read_existing sample_env (\<lambda>run. []) (artifact_run sample_record) (artifact_id sample_record) = Inr None"
    by (simp add: read_existing_def read_record_file_def r id run_directory_def and_then_def obj_get_def)
  have names: "list_file_names sample_env (\<lambda>run. []) ''run-1'' = Inr []"
    "list_file_names sample_env sample_files ''run-1'' = Inr [''core.diff.2.json'']"
    by (simp_all add: list_file_names_def run_directory_def id and_then_def sample_env_def sample_files_def obj_keys_def
        ends_with_def suffix_def)
  have lim: "enforce_run_limits sample_env (\<lambda>run. []) sample_record = Inr ()"
    by (simp add: enforce_run_limits_def r names(1) and_then_def require_def stored_bytes_def Let_def)
      (simp add: sample_env_def)
  have pub: "publish_exclusive (\<lambda>run. []) sample_record = (sample_files, True)"
    by (simp add: publish_exclusive_def Let_def r obj_get_def obj_set_def sample_files_def)
  have one: "length (output_attempts [n] s t) \<le> 1" for n s t
    by (simp add: output_attempts_def split: option.split)
  have ret: "apply_retention sample_env sample_files sample_record = Inr sample_files"
  proof -
    have keep: "env_retained sample_env = Some 1" by (simp add: sample_env_def)
    have "drop 1 (sort_key f (output_attempts [n] s t)) = []" for n s t f using one[of n s t] by simp
    then show ?thesis by (simp add: apply_retention_def r names(2) and_then_def Let_def keep)
  qed
  show ?thesis by (simp add: write_artifact_def sample_record_built ex lim pub ret)
qed

lemma sample_files_read: "read_record_file sample_env sample_files ''run-1'' ''core.diff.2.json'' = Inr sample_record"
  unfolding read_record_file_Inr
  using validate_artifact_record_json[OF sample_record_wf, of "\<lambda>t. Some JNull"]
  by (auto simp: sample_files_def sample_env_def json_name_def sample_record_def sample_run_id obj_get_def)

lemma sample_files_valid: "valid_store sample_env sample_files"
  using write_artifact_valid(1)[OF empty_store_valid[OF sample_env_ok] _ sample_write_stored] by simp

lemma sample_files_within: "within_limits sample_env sample_files"
  using write_artifact_limits[OF empty_store_valid[OF sample_env_ok] _ sample_write_stored]
  by (simp add: within_limits_def run_bytes_def)

lemma sample_routed:
  "route_step_artifacts (put_artifact sample_env) (0, \<lambda>run. []) ''run-1'' sample_change 2
     [\<lparr>draft_output = ''diff'', draft_kind = Patch, draft_title = ''Patch'', draft_payload = TextPayload ''+ok''\<rparr>] =
   ((1, sample_files), Inr [sample_record])"
proof -
  have "plan_step_artifacts ''run-1'' sample_change 2
     [\<lparr>draft_output = ''diff'', draft_kind = Patch, draft_title = ''Patch'', draft_payload = TextPayload ''+ok''\<rparr>] =
    Inr [sample_write 2 ''+ok'']"
    by (simp add: plan_step_artifacts_Inr sample_write_def sample_change_def step_outputs_def)
  moreover have "env_clock sample_env 0 = ''t1''" by (simp add: sample_env_def)
  ultimately show ?thesis
    by (simp add: route_step_artifacts_def put_artifact_def sample_write_stored)
qed

end
