(* ===== verification/SampleRecovery.thy ===== *)
theory SampleRecovery
  imports RecoveryInvariant SampleExecution SampleArtifacts
begin

text \<open>
  Concrete interruptions: the one-step run stopped right after its attempt was reserved, and an
  attempt whose commit and declared artifact survived.
\<close>

lemma interrupted_run: "\<exists>s. run_ok s \<and> run_max_workers s = 2 \<and> active_attempts s = [solo_attempt]"
proof -
  obtain s where s: "reserve_attempt solo_run solo_attempt ''t1'' ''t1'' = Inr (s, True)"
    "solo_at s Running [''core-1''] None [solo_attempt]" using solo_reserve[OF solo_created_at] by blast
  from solo_launch have "engine_reachable solo_run (solo_engine s (Mark solo_attempt []) [] [])"
    by - (erule solo_step, rule engine_step.reserved, use s(1) in \<open>simp_all add: solo_engine_def\<close>)
  from engine_reachable_ok[OF this solo_startable(1)] have "run_ok s" by (simp add: engine_ok_def solo_engine_def)
  then show ?thesis using s(2) by (auto simp: solo_at_def active_attempts_def solo_attempt_def)
qed

definition sample_reader :: artifact_reader where
  "sample_reader = \<lparr>reader_scan = (\<lambda>run. Inr []), reader_read = None\<rparr>"

definition sample_recovery :: recovery_env where
  "sample_recovery = \<lparr>env_branch_head = (\<lambda>dir branch. Inr ''c1''), env_verify_commit = (\<lambda>dir branch head base. Inr ()),
     env_artifacts = Some sample_reader, env_parse_json = (\<lambda>t. None), env_number_text = (\<lambda>n. [])\<rparr>"

lemma solo_artifact_id:
  "artifact_id_for \<lparr>identity_step = ''core'', identity_output = ''diff'', identity_attempt = 1\<rparr> = Inr ''core.diff.1''"
  by (auto simp: artifact_id_for_Inr identity_text_def to_int_def js_nat.simps name_pattern_def lower_letter_def
      in_range_def MAX_ARTIFACT_ATTEMPT_def MAX_ARTIFACT_ID_LENGTH_def intro!: exI[of _ 1])

lemma solo_record: "obj_get (run_steps solo_run) ''core'' = Some (new_record Ready sample_change)"
  using solo_created_at by (simp add: solo_at_def obj_get_def new_record_def)

lemma sample_adoption:
  "inspect_interrupted_attempt sample_recovery solo_run solo_attempt [''core.diff.1''] =
     Inr \<lparr>decision_commit = Some ''c1'', decision_artifacts = Some [''core.diff.1''], decision_evidence = None,
       decision_retry = None, decision_blocked = None\<rparr>"
proof -
  have "interrupted_attempt_commit sample_recovery solo_run solo_attempt = no_decision\<lparr>decision_commit := Some ''c1''\<rparr>"
    by (simp add: interrupted_attempt_commit_def sample_recovery_def solo_attempt_def truthy_def)
  moreover have "declared_artifact_ids sample_change solo_attempt = [(''diff'', Some ''core.diff.1'')]"
    using solo_artifact_id
    by (simp add: declared_artifact_ids_def declared_identity_def sample_change_def solo_attempt_def step_outputs_def)
  moreover have "attempt_step solo_attempt = ''core''" "attempt_evidence solo_attempt = None"
    by (simp_all add: solo_attempt_def)
  moreover have "EVIDENCE_OUTPUT \<notin> set (step_outputs sample_change)"
    by (simp add: EVIDENCE_OUTPUT_def sample_change_def step_outputs_def)
  moreover have "env_artifacts sample_recovery = Some sample_reader" by (simp add: sample_recovery_def)
  ultimately show ?thesis
    by (simp add: inspect_interrupted_attempt_def Let_def and_then_def require_step_def solo_record new_record_def no_decision_def)
qed

end
