(* ===== verification/SampleFinalization.thy ===== *)
theory SampleFinalization
  imports FinalizationFacts SampleRecovery
begin

text \<open>
  The one-step run to its end, an environment in which its suite passes, and a reviewer's report.
\<close>

subsection \<open>The completed run\<close>

lemma sample_change_profile: "step_profile_name sample_change \<noteq> ReviewProfile"
  by code_simp

lemma solo_completed:
  "\<exists>s. run_ok s \<and> assert_finalizable_state s = Inr () \<and> run_plan s = solo_plan \<and> review_steps s = []"
proof -
  obtain s where s: "engine_reachable solo_run (solo_engine s Race [] [])" "run_state s = RunRunning"
    "solo_at s Succeeded [''core-1''] (Some ''c1'') [solo_done]" using solo_execution by blast
  have ok: "engine_ok (solo_engine s Race [] [])" by (rule engine_reachable_ok[OF s(1) solo_startable(1)])
  have rok: "run_ok s" using ok by (simp add: engine_ok_def solo_engine_def)
  have key: "step_done s sid" if "sid \<in> set (obj_keys (run_steps s))" for sid
    using s(3) that by (auto simp: step_done_def solo_at_def obj_get_def obj_keys_def new_record_def)
  let ?t = "settle_run s False ''t4'' ''t4''"
  have t: "run_state ?t = RunCompleted" "\<And>sid. sid \<in> set (obj_keys (run_steps ?t)) \<Longrightarrow> step_done ?t sid"
    using settle_done_run[OF rok s(2) key] by (simp_all add: settle_run_fields)
  have step: "engine_step (solo_engine s Race [] []) (solo_engine ?t Done [] [])"
    using engine_step.settled_run[of "solo_engine s Race [] []" "''t4''" "''t4''"] by (simp add: solo_engine_def)
  have "engine_ok (solo_engine ?t Done [] [])" by (rule engine_step_ok[OF step ok])
  then have tok: "run_ok ?t" by (simp add: engine_ok_def solo_engine_def)
  have plan: "run_plan ?t = solo_plan" using s(3) by (simp add: settle_run_fields solo_at_def)
  have "obj_get (run_steps ?t) ''core'' = obj_get (run_steps s) ''core''"
    using solo_reconcile[OF s(3)] s(2)
    by (simp add: settle_run_fields closed_steps_def cancelling_def)
  then have "review_steps ?t = []"
    using s(3) by (simp add: review_steps_def plan solo_order solo_at_def obj_get_def new_record_def
        sample_change_profile)
  with completed_finalizable[OF tok t] tok plan show ?thesis by blast
qed

definition passing_result :: command_result where
  "passing_result = \<lparr>ran_exit = Some 0, ran_stdout = ''ok'', ran_stderr = [], ran_timed_out = False, ran_aborted = False,
     ran_boundary = \<lparr>boundary_sandbox = NoSandbox, boundary_blocked_network = False\<rparr>\<rparr>"

definition sample_validation :: validation_env where
  "sample_validation = \<lparr>env_now = (\<lambda>n. ''t5''), env_execute = (\<lambda>n c. Inr passing_result), env_timeout_ms = 1000\<rparr>"

definition sample_git :: git_verification where
  "sample_git = \<lparr>git_verified_at = ''t6'', git_commits = [], git_user_branch = ''main'', git_user_head = ''c0''\<rparr>"

definition sample_finalization :: finalization_env where
  "sample_finalization = \<lparr>env_latest = None, env_payload = (\<lambda>t. Inl (Error ''no payload'')), env_locale_le = code_unit_le,
     env_worktree = (\<lambda>n head. Inr ''/final''),
     env_validate = (\<lambda>path head commands. validate_final sample_validation (\<lambda>k. Inr ()) commands),
     env_remove = (\<lambda>path. Inr ()), env_history = (\<lambda>commits time. Inr sample_git), env_time = ''t6''\<rparr>"

lemma sample_suite: "validate_final sample_validation (\<lambda>k. Inr ()) (plan_final solo_plan) = Validated
  \<lparr>final_started = ''t5'', final_finished = ''t5'', final_passed = True,
   final_checks = [executed_check \<lparr>command_name = ''npm'', command_args = [''test'']\<rparr> ''t5'' ''t5'' passing_result]\<rparr>"
  by (simp add: validate_final_def sample_validation_def solo_plan_def solo_input_def sample_input_def sample_plan_def
      ran_passed_def passing_result_def)

lemma solo_finalized:
  "\<exists>s f m. finalize_workflow_run sample_finalization s None None (Inr ()) = Inr f \<and> final_merge_ready f = Some m \<and>
     run_plan s = solo_plan \<and> review_steps s = []"
proof -
  obtain s where s: "run_ok s" "assert_finalizable_state s = Inr ()" "run_plan s = solo_plan" "review_steps s = []"
    using solo_completed by blast
  obtain cs where cs: "integrated_commit_evidence s = Inr cs" using integrated_commit_evidence_total[OF s(1)] by blast
  have "review_outcomes sample_finalization s = Inr \<lparr>outcome_summaries = [], outcome_risks = [], outcome_gap = None\<rparr>"
    by (simp add: review_outcomes_def s(4))
  moreover have "\<exists>e. run_final_suite sample_finalization s ''/final'' = Inr e \<and> final_passed e"
    using sample_suite by (simp add: run_final_suite_def sample_finalization_def s(3) and_then_Inr)
  then obtain e where "run_final_suite sample_finalization s ''/final'' = Inr e" "final_passed e" by blast
  ultimately show ?thesis
    using finalize_succeeds[OF s(2) _ _ _ _ _ cs, of sample_finalization _ None] s(3,4)
    by (fastforce simp: sample_finalization_def)
qed

subsection \<open>A review\<close>

definition sample_finding_json :: json where
  "sample_finding_json = JObject [(''severity'', JString ''high''), (''confidence'', JString ''low''),
     (''paths'', JArray [JString ''src/b.ts'', JString ''src/a.ts'', JString ''src/b.ts'']), (''title'', JString ''Unchecked input''),
     (''description'', JString ''The length is not checked''), (''recommendation'', JString ''Check it'')]"

definition sample_report_json :: json where
  "sample_report_json = JObject [(''version'', JNum 1), (''category'', JString ''security''), (''baseCommit'', JString ''c1''),
     (''summary'', JString ''One finding''), (''findings'', JArray [sample_finding_json])]"

definition sample_finding :: report_finding where
  "sample_finding = \<lparr>finding_severity = High, finding_confidence = LowConfidence, finding_title = ''Unchecked input'',
     finding_description = ''The length is not checked'', finding_paths = [''src/a.ts'', ''src/b.ts''],
     finding_recommendation = ''Check it''\<rparr>"

definition sample_report :: review_report where
  "sample_report = \<lparr>report_summary = ''One finding'', report_findings = [sample_finding]\<rparr>"

definition sample_answer :: string where
  "sample_answer = REVIEW_REPORT_START @ ''{}'' @ REVIEW_REPORT_END"

lemma sample_extracted: "extract_payload sample_answer = Inr ''{}''"
  by (simp add: extract_payload_def sample_answer_def REVIEW_REPORT_START_def REVIEW_REPORT_END_def byte_length_def
     MAX_REPORT_BYTES_def and_then_def require_def has_substring_def sublist_Cons_right of_char_def trim_def js_space_def)

lemma sample_report_read: "read_report (\<lambda>q. []) code_unit_le Security ''c1'' sample_report_json = Inr sample_report"
  by code_simp

lemma sample_review:
  "parse_review_report (\<lambda>t. Inr sample_report_json) (\<lambda>q. []) code_unit_le (Some sample_answer) Security ''c1'' =
     Inr sample_report"
  by (simp add: parse_review_report_def sample_extracted sample_report_read and_then_def)

definition sample_findings :: "review_finding list" where
  "sample_findings = materialize_review_findings (sample_report\<lparr>report_findings :=
     [sample_finding\<lparr>finding_severity := Low\<rparr>, sample_finding]\<rparr>) Security 1"

lemma sample_priorities: "map_sum id (map finding_id) (prioritize_findings code_unit_le sample_findings) =
    Inr [''review-1-security-002'', ''review-1-security-001'']"
  by code_simp

subsection \<open>A validated task\<close>

definition sample_snapshot :: worktree_snapshot where
  "sample_snapshot = \<lparr>snapshot_branch_name = ''b'', snapshot_base_commit = ''c0'',
     snapshot_changed = [\<lparr>changed_path = ''src/a.ts'', changed_status = ''M'', changed_previous = None\<rparr>], snapshot_diff_hash = ''h''\<rparr>"

definition sample_task_input :: task_input where
  "sample_task_input = \<lparr>task_input_base = ''c0'', task_input_paths = [''src/''],
     task_input_commands = [\<lparr>command_name = ''npm'', command_args = [''test'']\<rparr>], task_input_profile = None,
     task_input_withheld = Some [''secret/''], task_input_aborted = None\<rparr>"

lemma sample_task_validated:
  "\<exists>e. validate_task sample_validation (\<lambda>n. Inr sample_snapshot) (Inr ()) sample_task_input = Validated (sample_snapshot, e)"
proof -
  have "check_task_scope sample_task_input sample_snapshot = Inr ()" by code_simp
  then show ?thesis
    by (simp add: validate_task_def and_then_def sample_task_input_def sample_validation_def ran_passed_def
        passing_result_def snapshots_match_def diff_check_def Let_def)
qed

subsection \<open>A watched process\<close>

definition sample_watch :: process_watch where
  "sample_watch = watch_event 4 (watch_event 4 process_started (OutputData ''hello'')) (Closed (Some 0))"

lemma sample_watched: "watched 4 ([OutputData ''hello''] @ [Closed (Some 0)]) sample_watch"
proof -
  have "watched 4 ([] @ [OutputData ''hello'']) (watch_event 4 process_started (OutputData ''hello''))"
    by (rule watched.event[OF watched.start]) (simp add: event_enabled_def process_started_def)
  then have "watched 4 [OutputData ''hello''] (watch_event 4 process_started (OutputData ''hello''))" by simp
  from watched.event[OF this, of "Closed (Some 0)"] show ?thesis
    by (simp add: sample_watch_def event_enabled_def process_started_def watch_event_def)
qed

end
