(* ===== verification/SecurityPolicy.thy ===== *)
theory SecurityPolicy
  imports Authority Validation
begin

text \<open>
  \<open>src/src/security/policy.ts\<close> and \<open>src/src/configuration.ts\<close>: the security policy of a run, read from the
  environment or from storage, and the authority it gives to workers. The environment is a function
  from variable names; the fields with one possible value have no counterpart.
\<close>

subsection \<open>Settings\<close>

definition orchestrator_configuration_value ::
    "string \<Rightarrow> (string \<Rightarrow> string option) \<Rightarrow> (string \<times> string) option result" where
  "orchestrator_configuration_value ending env =
     (let neutral_name = ''PI_ORCHESTRATOR_'' @ ending; legacy_name = ''PI_BUILD_'' @ ending;
          neutral = env neutral_name; legacy = env legacy_name
      in if neutral \<noteq> None \<and> legacy \<noteq> None \<and> neutral \<noteq> legacy then
           Inl (Error (neutral_name @ '' and '' @ legacy_name @
             '' are both set with different values; set only '' @ neutral_name))
         else (case neutral of
             Some v \<Rightarrow> Inr (Some (neutral_name, v))
           | None \<Rightarrow> Inr (map_option (\<lambda>v. (legacy_name, v)) legacy)))"

datatype policy_source = Configured | LegacyMigrated

datatype tool_policy = ServerAllowlist | OrchestratorAllowlist | LegacyUnrestricted

datatype resource_discovery = DiscoveryDisabled | DiscoveryHost

datatype ui_policy = DeclineRequests | CancelRequests

record run_policy = security_policy +
  policy_source :: policy_source
  policy_tools :: tool_policy
  policy_discovery :: resource_discovery
  policy_ui :: ui_policy
  policy_blocked_network :: bool
  policy_executable :: "string option"

definition policy_validation :: "run_policy \<Rightarrow> validation_policy" where
  "policy_validation p = \<lparr>validation_sandbox_mode = policy_sandbox p,
     validation_blocked_network = policy_blocked_network p, validation_executable = policy_executable p\<rparr>"

text \<open>The name a message uses for a setting that may be missing, and its value or default.\<close>

definition setting_name :: "string \<Rightarrow> (string \<times> string) option \<Rightarrow> string" where
  "setting_name default_name setting = (case setting of None \<Rightarrow> default_name | Some (n, v) \<Rightarrow> n)"

definition setting_value :: "string \<Rightarrow> (string \<times> string) option \<Rightarrow> string" where
  "setting_value default_value setting = (case setting of None \<Rightarrow> default_value | Some (n, v) \<Rightarrow> v)"

definition configured_ui_policy :: "(string \<Rightarrow> string option) \<Rightarrow> ui_policy result" where
  "configured_ui_policy env =
     and_then (orchestrator_configuration_value ''WORKER_UI_POLICY'' env) (\<lambda>resolved.
     let v = setting_value ''decline'' resolved in
     if v = ''decline'' then Inr DeclineRequests
     else if v = ''cancel'' then Inr CancelRequests
     else Inl (Error (setting_name ''PI_ORCHESTRATOR_WORKER_UI_POLICY'' resolved @
       '' must be either decline or cancel'')))"

definition configured_validation_sandbox :: "(string \<Rightarrow> string option) \<Rightarrow> validation_sandbox result" where
  "configured_validation_sandbox env =
     and_then (orchestrator_configuration_value ''VALIDATION_SANDBOX'' env) (\<lambda>resolved.
     let v = setting_value ''none'' resolved in
     if v = ''none'' then Inr NoSandbox
     else if v = ''nono'' then Inr Nono
     else Inl (Error (setting_name ''PI_ORCHESTRATOR_VALIDATION_SANDBOX'' resolved @
       '' must be either none or nono'')))"

definition check_nono_path :: "validation_sandbox \<Rightarrow> (string \<times> string) option \<Rightarrow> unit result" where
  "check_nono_path sandbox resolved =
     (let shown = setting_name ''PI_ORCHESTRATOR_NONO_PATH'' resolved in
      case sandbox of
        Nono \<Rightarrow> require (truthy (map_option snd resolved) \<and> posix_is_absolute (snd (the resolved)))
          (Error (shown @ '' must be an absolute path when PI_ORCHESTRATOR_VALIDATION_SANDBOX=nono''))
      | NoSandbox \<Rightarrow> require (resolved = None)
          (Error (shown @ '' requires PI_ORCHESTRATOR_VALIDATION_SANDBOX=nono'')))"

definition read_security_policy :: "(string \<Rightarrow> string option) \<Rightarrow> run_policy result" where
  "read_security_policy env =
     and_then (configured_validation_sandbox env) (\<lambda>sandbox.
     and_then (orchestrator_configuration_value ''NONO_PATH'' env) (\<lambda>nono_path.
     and_then (check_nono_path sandbox nono_path) (\<lambda>_.
     and_then (configured_ui_policy env) (\<lambda>ui.
     and_then default_capability_profiles (\<lambda>profiles.
     Inr \<lparr>policy_version = 2, policy_isolation = WorktreeOnly, policy_profiles = Some profiles,
       policy_sandbox = sandbox, policy_source = Configured, policy_tools = ServerAllowlist,
       policy_discovery = DiscoveryDisabled, policy_ui = ui, policy_blocked_network = (sandbox = Nono),
       policy_executable = map_option snd nono_path\<rparr>)))))"

definition legacy_security_policy :: "ui_policy \<Rightarrow> run_policy" where
  "legacy_security_policy ui = \<lparr>policy_version = 1, policy_isolation = WorktreeOnly, policy_profiles = None,
     policy_sandbox = NoSandbox, policy_source = LegacyMigrated, policy_tools = LegacyUnrestricted,
     policy_discovery = DiscoveryHost, policy_ui = ui, policy_blocked_network = False, policy_executable = None\<rparr>"

subsection \<open>What a worker may do\<close>

datatype worker_role = ImplementationRole | ReviewRole | RepairRole

fun ROLE_TOOLS :: "worker_role \<Rightarrow> string list" where
  "ROLE_TOOLS ImplementationRole = [''read'', ''grep'', ''find'', ''ls'', ''bash'', ''edit'', ''write'']"
| "ROLE_TOOLS ReviewRole = [''read'', ''grep'', ''find'', ''ls'']"
| "ROLE_TOOLS RepairRole = [''read'', ''grep'', ''find'', ''ls'', ''bash'', ''edit'', ''write'']"

fun ROLE_PROFILES :: "worker_role \<Rightarrow> profile_name" where
  "ROLE_PROFILES ImplementationRole = ChangeProfile"
| "ROLE_PROFILES ReviewRole = ReviewProfile"
| "ROLE_PROFILES RepairRole = RepairProfile"

definition is_worker_allowlist_policy :: "tool_policy \<Rightarrow> bool" where
  "is_worker_allowlist_policy p \<longleftrightarrow> p = ServerAllowlist \<or> p = OrchestratorAllowlist"

record launch_policy =
  launch_role :: worker_role
  launch_tools :: "string list"

definition worker_launch_policy :: "run_policy \<Rightarrow> worker_role \<Rightarrow> launch_policy option" where
  "worker_launch_policy policy role =
     (if \<not> is_worker_allowlist_policy (policy_tools policy) then None
      else Some \<lparr>launch_role = role, launch_tools = (case policy_profiles policy of
          Some profiles \<Rightarrow> profile_tools (profiles (ROLE_PROFILES role))
        | None \<Rightarrow> ROLE_TOOLS role)\<rparr>)"

definition step_worker_launch_policy ::
    "run_policy \<Rightarrow> worker_role \<Rightarrow> capability_profile \<Rightarrow> launch_policy option" where
  "step_worker_launch_policy policy role profile = (case worker_launch_policy policy role of
       None \<Rightarrow> None
     | Some p \<Rightarrow> Some (p\<lparr>launch_tools := filter (\<lambda>tool. tool \<in> set (profile_tools profile)) (launch_tools p)\<rparr>))"

text \<open>The requests of a worker to the user, with their timeouts, and the answers to them.\<close>

datatype ui_request =
    SelectRequest string string "string list" "rat option"
  | ConfirmRequest string string string "rat option"
  | InputRequest string string "string option" "rat option"
  | EditorRequest string string "string option"

datatype ui_response = ValueResponse string | ConfirmationResponse bool | CancelledResponse

definition blocked_worker_response :: "ui_policy \<Rightarrow> ui_request \<Rightarrow> ui_response" where
  "blocked_worker_response policy request =
     (case (policy, request) of
        (DeclineRequests, ConfirmRequest _ _ _ _) \<Rightarrow> ConfirmationResponse False
      | _ \<Rightarrow> CancelledResponse)"

subsection \<open>How a policy is shown and stored\<close>

fun source_text :: "policy_source \<Rightarrow> string" where
  "source_text Configured = ''configured''" | "source_text LegacyMigrated = ''legacy-migrated''"

fun tool_policy_text :: "tool_policy \<Rightarrow> string" where
  "tool_policy_text ServerAllowlist = ''server-allowlist-v1''"
| "tool_policy_text OrchestratorAllowlist = ''orchestrator-allowlist-v1''"
| "tool_policy_text LegacyUnrestricted = ''legacy-unrestricted''"

fun discovery_text :: "resource_discovery \<Rightarrow> string" where
  "discovery_text DiscoveryDisabled = ''disabled''" | "discovery_text DiscoveryHost = ''host''"

fun ui_text :: "ui_policy \<Rightarrow> string" where
  "ui_text DeclineRequests = ''decline''" | "ui_text CancelRequests = ''cancel''"

definition security_policy_lines :: "run_policy \<Rightarrow> string list" where
  "security_policy_lines p =
     [''Policy: v'' @ js_nat (nat (policy_version p)) @ '' ('' @ source_text (policy_source p) @ '')'',
      ''Workers: worktree-only; '' @
        (if is_worker_allowlist_policy (policy_tools p) then ''role allowlists enforced by compatible server''
         else ''legacy unrestricted server tools'') @
        ''; resources '' @ discovery_text (policy_discovery p) @ ''; host network'',
      ''Worker credentials: host-credentials-available-to-worker; agent tools may access host secrets because workers are not OS-sandboxed'',
      ''Validation: '' @
        (if policy_sandbox p = Nono then ''Nono sandbox, network blocked'' else ''no OS sandbox, host network available'') @
        ''; temporary-home-reduced'',
      ''Blocked worker UI: '' @ ui_text (policy_ui p)] @
     (if policy_profiles p = None then []
      else [''Worker authority: capability profiles frozen at run creation; external effects forbidden''])"

definition stored_allowlist_policy :: "json \<Rightarrow> bool" where
  "stored_allowlist_policy v \<longleftrightarrow> v = JString ''server-allowlist-v1'' \<or> v = JString ''orchestrator-allowlist-v1''"

definition stored_workers_valid :: "(rat \<Rightarrow> string) \<Rightarrow> json obj \<Rightarrow> bool" where
  "stored_workers_valid nt w \<longleftrightarrow>
     get_prop w ''isolation'' = JString ''worktree-only'' \<and> get_prop w ''sandbox'' = JString ''none'' \<and>
     get_prop w ''network'' = JString ''host'' \<and>
     (stored_allowlist_policy (get_prop w ''toolPolicy'') \<or> get_prop w ''toolPolicy'' = JString ''legacy-unrestricted'') \<and>
     js_string nt (get_prop w ''resourceDiscovery'') \<in> {''disabled'', ''host''} \<and>
     get_prop w ''credentialExposure'' = JString ''host-credentials-available-to-worker'' \<and>
     js_string nt (get_prop w ''uiPolicy'') \<in> {''decline'', ''cancel''}"

definition contradictory_tools :: "json obj \<Rightarrow> bool" where
  "contradictory_tools w \<longleftrightarrow>
     stored_allowlist_policy (get_prop w ''toolPolicy'') \<and> get_prop w ''resourceDiscovery'' \<noteq> JString ''disabled'' \<or>
     get_prop w ''toolPolicy'' = JString ''legacy-unrestricted'' \<and> get_prop w ''resourceDiscovery'' \<noteq> JString ''host''"

definition check_stored_boundary :: "(rat \<Rightarrow> string) \<Rightarrow> json obj \<Rightarrow> string \<Rightarrow> unit result" where
  "check_stored_boundary nt b path =
     and_then (require (js_string nt (get_prop b ''sandbox'') \<in> {''none'', ''nono''} \<and>
         js_string nt (get_prop b ''network'') \<in> {''host'', ''blocked''} \<and>
         get_prop b ''environment'' = JString ''temporary-home-reduced'')
       (Error (path @ ''.validation contains an invalid security boundary''))) (\<lambda>_.
     if get_prop b ''sandbox'' = JString ''nono'' then
       require (case get_prop b ''sandboxExecutable'' of
           JString e \<Rightarrow> posix_is_absolute e \<and> get_prop b ''network'' = JString ''blocked''
         | _ \<Rightarrow> False)
         (Error (path @ ''.validation Nono sandbox requires an absolute executable and blocked network''))
     else
       require (get_prop b ''sandboxExecutable'' = JUndefined \<and> get_prop b ''network'' = JString ''host'')
         (Error (path @ ''.validation unsandboxed mode requires host network and no sandbox executable'')))"

definition assert_run_security_policy :: "(rat \<Rightarrow> string) \<Rightarrow> json \<Rightarrow> string \<Rightarrow> unit result" where
  "assert_run_security_policy nt v path =
     and_then (require (is_record v) (Error (path @ '' must be an object''))) (\<lambda>_.
     let ob = fields_of v; version = get_prop ob ''version''; w = fields_of (get_prop ob ''workers'') in
     and_then (require (version = JNum 1 \<or> version = JNum 2) (Error (path @ ''.version must be 1 or 2''))) (\<lambda>_.
     and_then (require (get_prop ob ''source'' = JString ''configured'' \<or> get_prop ob ''source'' = JString ''legacy-migrated'')
       (Error (path @ ''.source is invalid''))) (\<lambda>_.
     and_then (require (is_record (get_prop ob ''workers'')) (Error (path @ ''.workers must be an object''))) (\<lambda>_.
     and_then (require (stored_workers_valid nt w)
       (Error (path @ ''.workers contains an invalid security boundary''))) (\<lambda>_.
     and_then (require (\<not> contradictory_tools w)
       (Error (path @ ''.workers contains a contradictory tool policy''))) (\<lambda>_.
     and_then (if version = JNum 2 then
         assert_capability_profiles nt (get_prop w ''capabilityProfiles'') (path @ ''.workers.capabilityProfiles'')
       else require (get_prop w ''capabilityProfiles'' = JUndefined)
         (Error (path @ ''.workers.capabilityProfiles requires policy version 2''))) (\<lambda>_.
     and_then (require (is_record (get_prop ob ''validation'')) (Error (path @ ''.validation must be an object''))) (\<lambda>_.
     check_stored_boundary nt (fields_of (get_prop ob ''validation'')) path))))))))"

subsection \<open>Policies that are stored and read back\<close>

definition profiles_json :: "run_profiles \<Rightarrow> json" where
  "profiles_json ps = stored_profiles_json (\<lambda>name. map capability_text (profile_capabilities (ps name)))
     (\<lambda>name. profile_tools (ps name))"

definition workers_json :: "run_policy \<Rightarrow> json" where
  "workers_json p = JObject ([(''isolation'', JString ''worktree-only''), (''sandbox'', JString ''none''),
     (''network'', JString ''host''), (''toolPolicy'', JString (tool_policy_text (policy_tools p))),
     (''resourceDiscovery'', JString (discovery_text (policy_discovery p))),
     (''credentialExposure'', JString ''host-credentials-available-to-worker''),
     (''uiPolicy'', JString (ui_text (policy_ui p)))] @
     (case policy_profiles p of None \<Rightarrow> [] | Some ps \<Rightarrow> [(''capabilityProfiles'', profiles_json ps)]))"

definition policy_boundary_json :: "run_policy \<Rightarrow> json" where
  "policy_boundary_json p = JObject ([(''sandbox'', JString (if policy_sandbox p = Nono then ''nono'' else ''none'')),
     (''network'', JString (if policy_blocked_network p then ''blocked'' else ''host'')),
     (''environment'', JString ''temporary-home-reduced'')] @
     (case policy_executable p of None \<Rightarrow> [] | Some e \<Rightarrow> [(''sandboxExecutable'', JString e)]))"

definition policy_json :: "run_policy \<Rightarrow> json" where
  "policy_json p = JObject [(''version'', JNum (of_int (policy_version p))),
     (''source'', JString (source_text (policy_source p))), (''workers'', workers_json p),
     (''validation'', policy_boundary_json p)]"

definition wf_run_policy :: "run_policy \<Rightarrow> bool" where
  "wf_run_policy p \<longleftrightarrow> (policy_version p = 1 \<and> policy_profiles p = None \<or>
       policy_version p = 2 \<and> (\<exists>ps. policy_profiles p = Some ps \<and> (\<forall>name. sound_profile name (ps name)))) \<and>
     (is_worker_allowlist_policy (policy_tools p) \<longleftrightarrow> policy_discovery p = DiscoveryDisabled) \<and>
     (policy_sandbox p = Nono \<longleftrightarrow> policy_blocked_network p) \<and>
     (if policy_sandbox p = Nono then \<exists>e. policy_executable p = Some e \<and> posix_is_absolute e
      else policy_executable p = None)"

lemma stored_profile_text:
  assumes "set (profile_capabilities q) \<subseteq> set STEP_CAPABILITIES"
  shows "stored_profile (map capability_text (profile_capabilities q)) (profile_tools q) = q"
proof -
  have "map (capability_of \<circ> capability_text) (profile_capabilities q) = profile_capabilities q"
    using assms by (intro map_idI) (auto simp: capability_of_text)
  then show ?thesis by (cases q) (simp add: stored_profile_def)
qed

lemma workers_json_valid:
  "stored_workers_valid nt (fields_of (workers_json p))"
  "contradictory_tools (fields_of (workers_json p)) \<longleftrightarrow>
     \<not> (is_worker_allowlist_policy (policy_tools p) \<longleftrightarrow> policy_discovery p = DiscoveryDisabled)"
  by (cases "policy_tools p"; cases "policy_discovery p"; cases "policy_ui p";
      simp add: stored_workers_valid_def contradictory_tools_def workers_json_def fields_of_def
        stored_allowlist_policy_def is_worker_allowlist_policy_def)+

lemma policy_boundary_json_valid:
  "check_stored_boundary nt (fields_of (policy_boundary_json p)) path = Inr () \<longleftrightarrow>
     (policy_sandbox p = Nono \<longleftrightarrow> policy_blocked_network p) \<and>
     (if policy_sandbox p = Nono then \<exists>e. policy_executable p = Some e \<and> posix_is_absolute e
      else policy_executable p = None)"
  by (cases "policy_sandbox p"; cases "policy_executable p"; cases "policy_blocked_network p";
      simp add: check_stored_boundary_def policy_boundary_json_def fields_of_def)

lemma profiles_json_accepted:
  assumes "\<And>name. set (profile_capabilities (ps name)) \<subseteq> set STEP_CAPABILITIES"
  shows "assert_capability_profiles nt (profiles_json ps) path = Inr () \<longleftrightarrow> (\<forall>name. sound_profile name (ps name))"
  using stored_profile_text[OF assms] by (simp add: profiles_json_def assert_capability_profiles_Inr)

lemma sound_profile_known: "sound_profile name q \<Longrightarrow> set (profile_capabilities q) \<subseteq> set STEP_CAPABILITIES"
  using CAPABILITY_PROFILE_MAXIMA_known by (auto simp: sound_profile_def)

text \<open>What the program writes is accepted when it is read back.\<close>

lemma policy_json_accepted:
  assumes wf: "wf_run_policy p"
  shows "assert_run_security_policy nt (policy_json p) path = Inr ()"
proof -
  have parts: "is_record (policy_json p)" "is_record (workers_json p)" "is_record (policy_boundary_json p)"
    "get_prop (fields_of (policy_json p)) ''version'' = JNum (of_int (policy_version p))"
    "get_prop (fields_of (policy_json p)) ''source'' = JString (source_text (policy_source p))"
    "get_prop (fields_of (policy_json p)) ''workers'' = workers_json p"
    "get_prop (fields_of (policy_json p)) ''validation'' = policy_boundary_json p"
    "get_prop (fields_of (workers_json p)) ''capabilityProfiles'' =
       (case policy_profiles p of None \<Rightarrow> JUndefined | Some ps \<Rightarrow> profiles_json ps)"
    by (simp_all add: policy_json_def workers_json_def policy_boundary_json_def is_record_def fields_of_def
        split: option.split)
  have source: "source_text (policy_source p) = ''configured'' \<or> source_text (policy_source p) = ''legacy-migrated''"
    by (cases "policy_source p") simp_all
  have boundary: "check_stored_boundary nt (fields_of (policy_boundary_json p)) path = Inr ()"
    using wf by (simp add: policy_boundary_json_valid wf_run_policy_def)
  have tools: "\<not> contradictory_tools (fields_of (workers_json p))" using wf by (simp add: workers_json_valid wf_run_policy_def)
  from wf consider "policy_version p = 1" "policy_profiles p = None"
    | ps where "policy_version p = 2" "policy_profiles p = Some ps" "\<forall>name. sound_profile name (ps name)"
    by (auto simp: wf_run_policy_def)
  then show ?thesis
  proof cases
    case 1
    then show ?thesis using source boundary tools
      by (simp add: assert_run_security_policy_def Let_def parts workers_json_valid(1))
  next
    case 2
    then have "assert_capability_profiles nt (profiles_json ps) q = Inr ()" for q
      using profiles_json_accepted[of ps nt q] sound_profile_known by blast
    then show ?thesis using 2 source boundary tools
      by (simp add: assert_run_security_policy_def Let_def parts workers_json_valid(1))
  qed
qed

lemma read_security_policy_wf:
  assumes "read_security_policy env = Inr p"
  shows "wf_run_policy p \<and> policy_version p = 2"
proof -
  from assms obtain sandbox nono ps ui where s: "check_nono_path sandbox nono = Inr ()" "default_capability_profiles = Inr ps"
    and p: "p = \<lparr>policy_version = 2, policy_isolation = WorktreeOnly, policy_profiles = Some ps,
       policy_sandbox = sandbox, policy_source = Configured, policy_tools = ServerAllowlist,
       policy_discovery = DiscoveryDisabled, policy_ui = ui, policy_blocked_network = (sandbox = Nono),
       policy_executable = map_option snd nono\<rparr>"
    by (auto simp: read_security_policy_def and_then_Inr)
  have "ps = (\<lambda>name. profile_granting (CAPABILITY_PROFILE_MAXIMA name))"
    using s(2) run_profiles_of_known[OF CAPABILITY_PROFILE_MAXIMA_known] by (simp add: default_capability_profiles_def)
  then have "sound_profile name (ps name)" for name using profile_granting_sound by simp
  then show ?thesis using s(1)
    by (cases sandbox; cases nono)
       (auto simp: p wf_run_policy_def is_worker_allowlist_policy_def check_nono_path_def truthy_def Let_def split: list.splits)
qed

lemma legacy_security_policy_wf: "wf_run_policy (legacy_security_policy ui)"
  by (simp add: wf_run_policy_def legacy_security_policy_def is_worker_allowlist_policy_def)

subsection \<open>What a worker is given\<close>

lemma step_worker_launch_policy_Some:
  "step_worker_launch_policy policy role profile = Some l \<longleftrightarrow> is_worker_allowlist_policy (policy_tools policy) \<and>
     l = \<lparr>launch_role = role, launch_tools = filter (\<lambda>tool. tool \<in> set (profile_tools profile))
       (case policy_profiles policy of Some ps \<Rightarrow> profile_tools (ps (ROLE_PROFILES role)) | None \<Rightarrow> ROLE_TOOLS role)\<rparr>"
  by (auto simp: step_worker_launch_policy_def worker_launch_policy_def)

text \<open>A worker of a run whose authority was frozen holds only tools the approved envelope grants.\<close>

lemma frozen_worker_tools:
  assumes f: "freeze_run_authority sha dir document (security_policy.truncate policy) authored = Inr (a, frozen)"
    and l: "step_worker_launch_policy (policy\<lparr>policy_profiles := policy_profiles frozen\<rparr>) role profile = Some l"
    and tool: "tool \<in> set (launch_tools l)"
  shows "\<exists>r c. envelope_repository_for (authority_envelope_of a) dir = Some r \<and> tool_capability tool = Some c \<and>
    c \<in> set (scope_capabilities (repository_mutation r)) \<and> tool \<in> set (profile_tools profile)"
proof -
  obtain r where r: "envelope_repository_for (authority_envelope_of a) dir = Some r"
    "policy_profiles frozen = Some (narrowed_profiles (repository_mutation r))"
    using freeze_run_authority_sound[OF f] by auto
  let ?q = "narrowed_profiles (repository_mutation r) (ROLE_PROFILES role)"
  have "tool \<in> set (profile_tools ?q)" "tool \<in> set (profile_tools profile)"
    using l tool by (auto simp: step_worker_launch_policy_Some r(2))
  moreover from this(1) obtain c where "tool_capability tool = Some c" "c \<in> set (profile_capabilities ?q)"
    using narrowed_profiles_sound[of "ROLE_PROFILES role" "repository_mutation r"] by (auto simp: sound_profile_def)
  ultimately show ?thesis using r(1) narrowed_profiles_granted by blast
qed

end
