(* ===== verification/TaskRun.thy ===== *)
theory TaskRun
  imports TaskPlan SecurityPolicy Finalization Reconciliation
begin

text \<open>
  \<open>src/src/domain/run.ts\<close> and \<open>src/src/domain/scheduler.ts\<close>: a run of a task plan, from its creation and the
  revisions of its plan to its approval and its recovery after an interruption, and the tasks it may
  launch. Records of the program are records here; \<open>JSON.stringify\<close> comparisons of plans and
  policies compare the records, whose fields the program always writes in one order.
\<close>

text \<open>Profile names are finitely many, so snapshots of profiles can be compared.\<close>

instantiation profile_name :: enum
begin

definition enum_profile_name :: "profile_name list" where
  "enum_profile_name = CAPABILITY_PROFILE_NAMES"

definition enum_all_profile_name :: "(profile_name \<Rightarrow> bool) \<Rightarrow> bool" where
  "enum_all_profile_name P = list_all P CAPABILITY_PROFILE_NAMES"

definition enum_ex_profile_name :: "(profile_name \<Rightarrow> bool) \<Rightarrow> bool" where
  "enum_ex_profile_name P = list_ex P CAPABILITY_PROFILE_NAMES"

instance
  by standard (auto simp: enum_profile_name_def enum_all_profile_name_def enum_ex_profile_name_def
      set_CAPABILITY_PROFILE_NAMES distinct_CAPABILITY_PROFILE_NAMES list_all_iff list_ex_iff)

end

subsection \<open>The state of a run\<close>

datatype run_phase =
    PlanningPhase | AwaitingApproval | RunningPhase | IntegratingPhase | ReviewingPhase | RepairingPhase
  | ReviewedPhase | ValidatingPhase | CompletedPhase | FailedPhase | CancelledPhase

fun phase_text :: "run_phase \<Rightarrow> string" where
  "phase_text PlanningPhase = ''planning''" | "phase_text AwaitingApproval = ''awaiting_approval''"
| "phase_text RunningPhase = ''running''" | "phase_text IntegratingPhase = ''integrating''"
| "phase_text ReviewingPhase = ''reviewing''" | "phase_text RepairingPhase = ''repairing''"
| "phase_text ReviewedPhase = ''reviewed''" | "phase_text ValidatingPhase = ''validating''"
| "phase_text CompletedPhase = ''completed''" | "phase_text FailedPhase = ''failed''"
| "phase_text CancelledPhase = ''cancelled''"

datatype task_state =
    TaskPlanned | TaskReady | TaskRunning | TaskValidating | TaskSucceeded | TaskFailed | TaskBlocked | TaskCancelled

datatype revision_source = Generated | Sidecar | Edited | Restored | Migrated

record plan_revision =
  revision_number :: nat
  revision_created :: string
  revision_source :: revision_source
  revision_plan :: task_plan
  revision_workers :: int
  revision_restored :: "nat option"

record task_attempt =
  task_attempt_id :: string
  task_attempt_task :: string
  task_attempt_number :: nat
  task_attempt_state :: attempt_state
  task_attempt_branch :: string
  task_attempt_worktree :: string
  task_attempt_base :: string
  task_attempt_worker :: "string option"
  task_attempt_started :: string
  task_attempt_finished :: "string option"
  task_attempt_error :: "string option"
  task_attempt_commit :: "string option"
  task_attempt_evidence :: "task_evidence option"

record run_task =
  run_task_definition :: task_definition
  run_task_state :: task_state
  run_task_attempts :: "string list"
  run_task_integrated :: "string option"
  run_task_integration_error :: "string option"

record review_attempt =
  review_attempt_id :: string
  review_attempt_round :: nat
  review_attempt_category :: review_category
  review_attempt_number :: nat
  review_attempt_state :: attempt_state
  review_attempt_branch :: "string option"
  review_attempt_worktree :: string
  review_attempt_base :: string
  review_attempt_worker :: "string option"
  review_attempt_started :: string
  review_attempt_finished :: "string option"
  review_attempt_error :: "string option"
  review_attempt_summary :: "string option"
  review_attempt_findings :: "review_finding list option"

datatype review_round_state = RoundRunning | RoundRepairing | RoundSucceeded | RoundFailed | RoundCancelled

record review_round =
  round_number :: nat
  round_state :: review_round_state
  round_base :: string
  round_attempts :: "string list"
  round_started :: string
  round_finished :: "string option"
  round_repair :: "string option"
  round_error :: "string option"

record repair_attempt =
  repair_id :: string
  repair_round :: nat
  repair_number :: nat
  repair_state :: attempt_state
  repair_findings :: "string list"
  repair_branch :: string
  repair_worktree :: string
  repair_base :: string
  repair_worker :: "string option"
  repair_started :: string
  repair_finished :: "string option"
  repair_error :: "string option"
  repair_commit :: "string option"
  repair_integrated :: "string option"
  repair_evidence :: "task_evidence option"

datatype blocked_kind = BlockedTask | BlockedReview | BlockedRepair
datatype ui_method = SelectMethod | ConfirmMethod | InputMethod | EditorMethod

record blocked_worker =
  blocked_kind :: blocked_kind
  blocked_attempt :: string
  blocked_worker_id :: string
  blocked_since :: string
  blocked_request :: string
  blocked_method :: ui_method
  blocked_timeout :: "string option"

datatype final_attempt_state =
    FinalRunning | FinalSucceeded | FinalFailed | FinalCancelled | FinalInterrupted

record final_attempt =
  final_attempt_id :: string
  final_attempt_number :: nat
  final_attempt_state :: final_attempt_state
  final_attempt_commit :: string
  final_attempt_worktree :: string
  final_attempt_started :: string
  final_attempt_finished :: "string option"
  final_attempt_error :: "string option"
  final_attempt_evidence :: "final_evidence option"

record run_request =
  request_source :: string
  request_text :: string

record task_run =
  orch_revision :: nat
  orch_id :: string
  orch_state :: run_phase
  orch_root :: string
  orch_base_branch :: string
  orch_base_commit :: string
  orch_branch :: string
  orch_request :: run_request
  orch_policy :: run_policy
  orch_authority :: "frozen_authority option"
  orch_plan :: task_plan
  orch_plan_revision :: nat
  orch_revisions :: "plan_revision list"
  orch_approved_revision :: "nat option"
  orch_tasks :: "run_task obj"
  orch_attempts :: "task_attempt list"
  orch_head :: string
  orch_rounds :: "review_round list"
  orch_reviews :: "review_attempt list"
  orch_repairs :: "repair_attempt list"
  orch_blocked :: "blocked_worker list"
  orch_finals :: "final_attempt list"
  orch_merge_ready :: "merge_ready option"
  orch_error :: "string option"
  orch_workers :: int
  orch_created :: string
  orch_updated :: string
  orch_approved :: "string option"

subsection \<open>Scheduling tasks\<close>

definition TERMINAL_FAILURE_STATES :: "task_state list" where
  "TERMINAL_FAILURE_STATES = [TaskFailed, TaskBlocked, TaskCancelled]"

definition task_dependency_failed :: "run_task obj \<Rightarrow> string \<Rightarrow> bool" where
  "task_dependency_failed tasks d = (case obj_get tasks d of
       None \<Rightarrow> True | Some t \<Rightarrow> run_task_state t \<in> set TERMINAL_FAILURE_STATES)"

definition task_dependency_integrated :: "run_task obj \<Rightarrow> string \<Rightarrow> bool" where
  "task_dependency_integrated tasks d = (case obj_get tasks d of
       None \<Rightarrow> False | Some t \<Rightarrow> truthy (run_task_integrated t))"

definition next_task_state :: "run_task \<Rightarrow> run_task obj \<Rightarrow> task_state" where
  "next_task_state t tasks =
     (if run_task_state t \<in> {TaskRunning, TaskValidating, TaskSucceeded, TaskFailed, TaskCancelled} then run_task_state t
      else
        let deps = task_dependencies (run_task_definition t) in
        if list_ex (task_dependency_failed tasks) deps then TaskBlocked
        else if list_all (task_dependency_integrated tasks) deps then TaskReady
        else TaskPlanned)"

definition next_task :: "run_task \<Rightarrow> run_task obj \<Rightarrow> run_task" where
  "next_task t tasks = t\<lparr>run_task_state := next_task_state t tasks\<rparr>"

definition reconcile_task_states :: "task_run \<Rightarrow> task_run result" where
  "reconcile_task_states run =
     and_then (topological_task_ids (orch_plan run)) (\<lambda>order.
       Inr (run\<lparr>orch_tasks := adjust_pass next_task (orch_tasks run) order\<rparr>))"

definition active_task_attempts :: "task_run \<Rightarrow> task_attempt list" where
  "active_task_attempts run = filter (\<lambda>a. is_active_attempt_state (task_attempt_state a)) (orch_attempts run)"

definition active_task_ids :: "task_run \<Rightarrow> string list" where
  "active_task_ids run = map task_attempt_task (active_task_attempts run)"

definition untracked_running_tasks :: "task_run \<Rightarrow> nat" where
  "untracked_running_tasks run = length (filter (\<lambda>(tid, t). run_task_state t \<in> {TaskRunning, TaskValidating} \<and>
     tid \<notin> set (active_task_ids run)) (orch_tasks run))"

definition available_task_slots :: "task_run \<Rightarrow> int" where
  "available_task_slots run =
     max 0 (orch_workers run - int (length (active_task_attempts run)) - int (untracked_running_tasks run))"

definition task_is_ready :: "task_run \<Rightarrow> string \<Rightarrow> bool" where
  "task_is_ready run tid \<longleftrightarrow> (case obj_get (orch_tasks run) tid of
       None \<Rightarrow> False | Some t \<Rightarrow> run_task_state t = TaskReady) \<and> tid \<notin> set (active_task_ids run)"

definition launchable_task_ids :: "task_run \<Rightarrow> string list result" where
  "launchable_task_ids run =
     (if orch_state run \<noteq> RunningPhase then Inr []
      else and_then (reconcile_task_states run) (\<lambda>reconciled.
        if available_task_slots reconciled = 0 then Inr []
        else and_then (topological_task_ids (orch_plan reconciled)) (\<lambda>order.
          Inr (take (nat (available_task_slots reconciled)) (filter (task_is_ready reconciled) order)))))"

subsection \<open>Creating a run\<close>

record create_input =
  create_id :: string
  create_root :: string
  create_base_branch :: string
  create_base_commit :: string
  create_branch :: string
  create_request :: run_request
  create_policy :: "run_policy option"
  create_envelope :: "authority_envelope option"
  create_plan :: json
  create_workers :: rat
  create_source :: "revision_source option"
  create_now :: string

definition with_frozen_profiles :: "run_policy \<Rightarrow> security_policy \<Rightarrow> run_policy" where
  "with_frozen_profiles policy frozen = policy\<lparr>policy_profiles := policy_profiles frozen\<rparr>"

definition frozen_authority_for ::
    "(json \<Rightarrow> string) \<Rightarrow> string \<Rightarrow> task_plan \<Rightarrow> run_policy \<Rightarrow> authority_envelope option \<Rightarrow>
     (frozen_authority \<times> run_policy) option result" where
  "frozen_authority_for sha dir plan policy envelope =
     (if policy_version policy \<noteq> 2 then
        (if envelope \<noteq> None then Inl (AuthorityViolationError [policy_version_issue]) else Inr None)
      else and_then (freeze_run_authority sha dir (task_plan_json plan) (security_policy.truncate policy) envelope)
        (\<lambda>(authority, frozen). Inr (Some (authority, with_frozen_profiles policy frozen))))"

definition frozen_profiles_issue :: authority_issue where
  "frozen_profiles_issue = \<lparr>authority_code = ''frozen_profiles_would_change'',
     authority_path = ''securityPolicy.workers.capabilityProfiles'',
     authority_message = ''A plan revision cannot change the capability profiles frozen at run creation'',
     authority_condition = Some WidenMutationAuthority\<rparr>"

definition revised_authority_for ::
    "(json \<Rightarrow> string) \<Rightarrow> task_run \<Rightarrow> task_plan \<Rightarrow> frozen_authority option result" where
  "revised_authority_for sha run plan = (case orch_authority run of
       None \<Rightarrow> Inr None
     | Some authority \<Rightarrow>
         and_then (revise_run_authority sha authority (orch_root run) (task_plan_json plan)
           (security_policy.truncate (orch_policy run)) None) (\<lambda>(revised, frozen).
         if with_frozen_profiles (orch_policy run) frozen \<noteq> orch_policy run then
           Inl (AuthorityViolationError [frozen_profiles_issue])
         else Inr (Some revised)))"

definition assert_worker_limit :: "rat \<Rightarrow> unit result" where
  "assert_worker_limit q = require (of_int \<lfloor>q\<rfloor> = q \<and> of_int MIN_CONCURRENT_WORKERS \<le> q \<and> q \<le> of_int MAX_CONCURRENT_WORKERS)
     (Error (''maxConcurrentWorkers must be an integer from '' @ js_nat (nat MIN_CONCURRENT_WORKERS) @ '' to '' @
       js_nat (nat MAX_CONCURRENT_WORKERS)))"

definition new_task :: "task_definition \<Rightarrow> run_task" where
  "new_task d = \<lparr>run_task_definition = d, run_task_state = TaskPlanned, run_task_attempts = [],
     run_task_integrated = None, run_task_integration_error = None\<rparr>"

definition tasks_for_plan :: "task_plan \<Rightarrow> run_task obj" where
  "tasks_for_plan plan = foldl (\<lambda>tasks d. obj_set tasks (task_id d) (new_task d)) [] (task_plan_tasks plan)"

definition first_revision :: "create_input \<Rightarrow> task_plan \<Rightarrow> plan_revision" where
  "first_revision input plan = \<lparr>revision_number = 1, revision_created = create_now input,
     revision_source = (case create_source input of None \<Rightarrow> Generated | Some s \<Rightarrow> s), revision_plan = plan,
     revision_workers = \<lfloor>create_workers input\<rfloor>, revision_restored = None\<rparr>"

definition created_run ::
    "create_input \<Rightarrow> task_plan \<Rightarrow> run_policy \<Rightarrow> frozen_authority option \<Rightarrow> task_run" where
  "created_run input plan policy authority =
     \<lparr>orch_revision = 0, orch_id = create_id input, orch_state = AwaitingApproval, orch_root = create_root input,
      orch_base_branch = create_base_branch input, orch_base_commit = create_base_commit input,
      orch_branch = create_branch input, orch_request = create_request input, orch_policy = policy,
      orch_authority = authority, orch_plan = plan, orch_plan_revision = 1,
      orch_revisions = [first_revision input plan], orch_approved_revision = None, orch_tasks = tasks_for_plan plan,
      orch_attempts = [], orch_head = create_base_commit input, orch_rounds = [], orch_reviews = [],
      orch_repairs = [], orch_blocked = [], orch_finals = [], orch_merge_ready = None, orch_error = None,
      orch_workers = \<lfloor>create_workers input\<rfloor>, orch_created = create_now input,
      orch_updated = create_now input, orch_approved = None\<rparr>"

definition create_orchestration_run :: "(json \<Rightarrow> string) \<Rightarrow> create_input \<Rightarrow> task_run result" where
  "create_orchestration_run sha input =
     and_then (assert_worker_limit (create_workers input)) (\<lambda>_.
     and_then (validate_task_plan (create_plan input)) (\<lambda>plan.
     let policy = (case create_policy input of None \<Rightarrow> legacy_security_policy DeclineRequests | Some p \<Rightarrow> p) in
     and_then (frozen_authority_for sha (create_root input) plan policy (create_envelope input)) (\<lambda>frozen.
     reconcile_task_states (case frozen of
         None \<Rightarrow> created_run input plan policy None
       | Some (authority, narrowed) \<Rightarrow> created_run input plan narrowed (Some authority)))))"

subsection \<open>Revising, restoring and approving a plan\<close>

definition assert_plan_editable :: "task_run \<Rightarrow> unit result" where
  "assert_plan_editable run =
     and_then (require (orch_state run = PlanningPhase \<or> orch_state run = AwaitingApproval)
       (Error (''Cannot revise plan in state '' @ phase_text (orch_state run)))) (\<lambda>_.
     require (orch_approved run = None \<and> orch_approved_revision run = None \<and> orch_attempts run = [] \<and>
         orch_rounds run = [] \<and> orch_reviews run = [] \<and> orch_repairs run = [] \<and> orch_finals run = [] \<and>
         orch_head run = orch_base_commit run \<and> orch_merge_ready run = None)
       (Error ''Cannot revise a plan after execution resources exist''))"

definition check_plan_revision :: "task_run \<Rightarrow> nat \<Rightarrow> unit result" where
  "check_plan_revision run expected = require (orch_plan_revision run = expected)
     (Error (''Stale plan revision '' @ js_nat expected @ ''; current revision is '' @ js_nat (orch_plan_revision run)))"

text \<open>The run with a further revision, from which its tasks are made anew.\<close>

definition with_plan_revision ::
    "task_run \<Rightarrow> frozen_authority option \<Rightarrow> task_plan \<Rightarrow> int \<Rightarrow> revision_source \<Rightarrow> nat option \<Rightarrow> string \<Rightarrow> task_run" where
  "with_plan_revision run revised plan workers source restored time =
     (let n = Suc (orch_plan_revision run) in
      run\<lparr>orch_authority := (case revised of None \<Rightarrow> orch_authority run | Some a \<Rightarrow> Some a),
        orch_plan := plan, orch_plan_revision := n,
        orch_revisions := orch_revisions run @ [\<lparr>revision_number = n, revision_created = time,
          revision_source = source, revision_plan = plan, revision_workers = workers, revision_restored = restored\<rparr>],
        orch_tasks := tasks_for_plan plan, orch_workers := workers, orch_updated := time\<rparr>)"

definition revise_run_plan ::
    "(json \<Rightarrow> string) \<Rightarrow> task_run \<Rightarrow> json \<Rightarrow> rat \<Rightarrow> nat \<Rightarrow> string \<Rightarrow> task_run result" where
  "revise_run_plan sha run document workers expected time =
     and_then (assert_plan_editable run) (\<lambda>_.
     and_then (check_plan_revision run expected) (\<lambda>_.
     and_then (assert_worker_limit workers) (\<lambda>_.
     and_then (validate_task_plan document) (\<lambda>plan.
     if plan = orch_plan run \<and> workers = of_int (orch_workers run) then Inr run
     else and_then (revised_authority_for sha run plan) (\<lambda>revised.
       reconcile_task_states (with_plan_revision run revised plan \<lfloor>workers\<rfloor> Edited None time))))))"

definition restore_run_plan_revision ::
    "(json \<Rightarrow> string) \<Rightarrow> task_run \<Rightarrow> nat \<Rightarrow> nat \<Rightarrow> string \<Rightarrow> task_run result" where
  "restore_run_plan_revision sha run number expected time =
     and_then (assert_plan_editable run) (\<lambda>_.
     and_then (check_plan_revision run expected) (\<lambda>_.
     case find (\<lambda>r. revision_number r = number) (orch_revisions run) of
       None \<Rightarrow> Inl (Error (''Unknown plan revision '' @ js_nat number))
     | Some r \<Rightarrow> and_then (revised_authority_for sha run (revision_plan r)) (\<lambda>revised.
         reconcile_task_states (with_plan_revision run revised (revision_plan r) (revision_workers r) Restored
           (Some number) time))))"

definition approve_run :: "task_run \<Rightarrow> string \<Rightarrow> nat option \<Rightarrow> task_run result" where
  "approve_run run time expected =
     and_then (require (orch_state run = AwaitingApproval)
       (Error (''Cannot approve run in state '' @ phase_text (orch_state run)))) (\<lambda>_.
     and_then (check_plan_revision run (case expected of None \<Rightarrow> orch_plan_revision run | Some n \<Rightarrow> n)) (\<lambda>_.
     Inr (run\<lparr>orch_state := RunningPhase, orch_approved_revision := Some (orch_plan_revision run),
       orch_approved := Some time, orch_updated := time\<rparr>)))"

subsection \<open>Recovering an interrupted run\<close>

definition RESTARTED :: string where "RESTARTED = ''Orchestrator restarted''"

definition interrupt_task_attempt :: "string \<Rightarrow> task_attempt \<Rightarrow> task_attempt" where
  "interrupt_task_attempt time a = (if \<not> is_active_attempt_state (task_attempt_state a) then a
     else a\<lparr>task_attempt_state := AttemptInterrupted, task_attempt_finished := Some time,
       task_attempt_error := Some RESTARTED\<rparr>)"

definition interrupt_review_attempt :: "string \<Rightarrow> review_attempt \<Rightarrow> review_attempt" where
  "interrupt_review_attempt time a = (if \<not> is_active_attempt_state (review_attempt_state a) then a
     else a\<lparr>review_attempt_state := AttemptInterrupted, review_attempt_finished := Some time,
       review_attempt_error := Some RESTARTED\<rparr>)"

definition interrupt_repair_attempt :: "string \<Rightarrow> repair_attempt \<Rightarrow> repair_attempt" where
  "interrupt_repair_attempt time a = (if \<not> is_active_attempt_state (repair_state a) then a
     else a\<lparr>repair_state := AttemptInterrupted, repair_finished := Some time, repair_error := Some RESTARTED\<rparr>)"

definition interrupt_final_attempt :: "string \<Rightarrow> final_attempt \<Rightarrow> final_attempt" where
  "interrupt_final_attempt time a = (if final_attempt_state a \<noteq> FinalRunning then a
     else a\<lparr>final_attempt_state := FinalInterrupted, final_attempt_finished := Some time,
       final_attempt_error := Some RESTARTED\<rparr>)"

definition interrupt_task :: "run_task \<Rightarrow> run_task" where
  "interrupt_task t = (if run_task_state t = TaskRunning \<or> run_task_state t = TaskValidating
     then t\<lparr>run_task_state := TaskPlanned\<rparr> else t)"

definition interrupted_run :: "task_run \<Rightarrow> bool" where
  "interrupted_run run \<longleftrightarrow> orch_blocked run \<noteq> [] \<or>
     list_ex (\<lambda>a. is_active_attempt_state (task_attempt_state a)) (orch_attempts run) \<or>
     list_ex (\<lambda>a. is_active_attempt_state (review_attempt_state a)) (orch_reviews run) \<or>
     list_ex (\<lambda>a. is_active_attempt_state (repair_state a)) (orch_repairs run) \<or>
     list_ex (\<lambda>a. final_attempt_state a = FinalRunning) (orch_finals run) \<or>
     list_ex (\<lambda>(tid, t). run_task_state t = TaskRunning \<or> run_task_state t = TaskValidating) (orch_tasks run)"

definition recover_interrupted_run :: "task_run \<Rightarrow> string \<Rightarrow> task_run result" where
  "recover_interrupted_run run time =
     (if \<not> interrupted_run run then Inr run
      else reconcile_task_states (run\<lparr>
        orch_state := (if orch_state run = ValidatingPhase then ReviewedPhase else orch_state run),
        orch_tasks := map (\<lambda>(tid, t). (tid, interrupt_task t)) (orch_tasks run),
        orch_attempts := map (interrupt_task_attempt time) (orch_attempts run),
        orch_reviews := map (interrupt_review_attempt time) (orch_reviews run),
        orch_repairs := map (interrupt_repair_attempt time) (orch_repairs run),
        orch_blocked := [],
        orch_finals := map (interrupt_final_attempt time) (orch_finals run), orch_updated := time\<rparr>))"

end
