(* ===== verification/TaskRunFacts.thy ===== *)
theory TaskRunFacts
  imports TaskRun
begin

text \<open>
  What holds of every run of a task plan: its tasks are those of its plan with settled states, its
  plan revisions are numbered and the last is the plan in force, and neither a revision nor a
  recovery changes the frozen policy.
\<close>

subsection \<open>The order of the tasks\<close>

lemma topological_task_ids_total:
  assumes "wf_task_plan p"
  shows "topological_task_ids p = Inr (topological_ids (task_nodes (task_plan_tasks p)))"
  using validate_task_plan_json[OF assms] by (simp add: topological_task_ids_def analyze_task_plan_def Let_def)

lemma topological_task_ids_order:
  assumes "wf_task_plan p" and "topological_task_ids p = Inr order"
  shows "distinct order" "set order = set (map task_id (task_plan_tasks p))"
    "t \<in> set (task_plan_tasks p) \<Longrightarrow> needs_first order (task_id t) (task_dependencies t)"
proof -
  let ?nodes = "task_nodes (task_plan_tasks p)"
  have g: "wf_graph ?nodes" using assms(1) by (simp add: wf_task_plan_def)
  have o: "order = topological_ids ?nodes" using assms topological_task_ids_total by simp
  note ord = topological_ids_order[OF wf_graphD(1,2)[OF g]] topological_ids_set[OF g]
  have ids: "node_ids ?nodes = map task_id (task_plan_tasks p)" by (simp add: task_nodes_def node_ids_def)
  show "distinct order" "set order = set (map task_id (task_plan_tasks p))" using ord by (simp_all add: o ids)
  assume "t \<in> set (task_plan_tasks p)"
  then have "(task_id t, task_dependencies t) \<in> set ?nodes" by (force simp: task_nodes_def)
  then have "deps_get ?nodes (task_id t) = task_dependencies t" using deps_get_node[OF wf_graphD(1)[OF g]] by force
  then show "needs_first order (task_id t) (task_dependencies t)"
    using ord(2) unfolding o deps_before_def needs_first_def by metis
qed

subsection \<open>The tasks of a run\<close>

definition task_graph_ok :: "task_run \<Rightarrow> bool" where
  "task_graph_ok run \<longleftrightarrow> wf_task_plan (orch_plan run) \<and>
     map (\<lambda>(tid, t). (tid, run_task_definition t)) (orch_tasks run) =
     map (\<lambda>d. (task_id d, d)) (task_plan_tasks (orch_plan run))"

lemma wf_task_plan_distinct: "wf_task_plan p \<Longrightarrow> distinct (map task_id (task_plan_tasks p))"
  by (simp add: wf_task_plan_def wf_graph_task_nodes)

lemma task_graph_keys: "task_graph_ok run \<Longrightarrow> obj_keys (orch_tasks run) = map task_id (task_plan_tasks (orch_plan run))"
proof -
  assume "task_graph_ok run"
  then have "map fst (map (\<lambda>(tid, t). (tid, run_task_definition t)) (orch_tasks run)) =
      map fst (map (\<lambda>d. (task_id d, d)) (task_plan_tasks (orch_plan run)))" by (simp add: task_graph_ok_def)
  then show ?thesis by (simp add: obj_keys_def comp_def case_prod_beta)
qed

lemma task_graph_task:
  assumes "task_graph_ok run" and "obj_get (orch_tasks run) tid = Some t"
  shows "run_task_definition t \<in> set (task_plan_tasks (orch_plan run)) \<and> task_id (run_task_definition t) = tid"
proof -
  have "(tid, t) \<in> set (orch_tasks run)" using obj_get_entry[OF assms(2)] .
  then have "(tid, run_task_definition t) \<in> set (map (\<lambda>(tid, t). (tid, run_task_definition t)) (orch_tasks run))" by force
  then have "(tid, run_task_definition t) \<in> set (map (\<lambda>d. (task_id d, d)) (task_plan_tasks (orch_plan run)))"
    using assms(1) unfolding task_graph_ok_def by metis
  then show ?thesis by auto
qed

lemma tasks_for_plan_graph:
  assumes "wf_task_plan p" and "orch_plan run = p" and "orch_tasks run = tasks_for_plan p"
  shows "task_graph_ok run"
  using assms foldl_obj_set[OF wf_task_plan_distinct[OF assms(1)], of new_task]
  by (simp add: task_graph_ok_def tasks_for_plan_def comp_def new_task_def)

interpretation task_rule: state_rule next_task "\<lambda>t. task_dependencies (run_task_definition t)"
proof
  show "next_task t a = next_task t b"
    if "\<And>d. d \<in> set (task_dependencies (run_task_definition t)) \<Longrightarrow> obj_get a d = obj_get b d" for t a b
  proof -
    have "list_ex (task_dependency_failed a) (task_dependencies (run_task_definition t)) =
        list_ex (task_dependency_failed b) (task_dependencies (run_task_definition t))"
      using that by (auto simp: list_ex_iff task_dependency_failed_def)
    moreover have "list_all (task_dependency_integrated a) (task_dependencies (run_task_definition t)) =
        list_all (task_dependency_integrated b) (task_dependencies (run_task_definition t))"
      using that by (auto simp: list_all_iff task_dependency_integrated_def)
    ultimately show ?thesis by (simp add: next_task_def next_task_state_def Let_def)
  qed
  show "next_task (next_task t m) m = next_task t m" for t m
    by (auto simp: next_task_def next_task_state_def Let_def)
qed

text \<open>Reconciliation succeeds on a well-formed run, changes only task states and settles them.\<close>

definition same_tasks :: "run_task obj \<Rightarrow> run_task obj \<Rightarrow> bool" where
  "same_tasks m m' \<longleftrightarrow> obj_keys m' = obj_keys m \<and> (\<forall>tid t'. obj_get m' tid = Some t' \<longrightarrow>
     (\<exists>t st. obj_get m tid = Some t \<and> t' = t\<lparr>run_task_state := st\<rparr>))"

lemma same_tasks_refl: "same_tasks m m"
  unfolding same_tasks_def by (metis run_task.surjective run_task.update_convs(2))

lemma same_tasks_trans:
  assumes "same_tasks m n" and "same_tasks n k"
  shows "same_tasks m k"
proof -
  have "\<exists>t st. obj_get m tid = Some t \<and> t' = t\<lparr>run_task_state := st\<rparr>" if t': "obj_get k tid = Some t'" for tid t'
  proof -
    obtain t st where "obj_get n tid = Some t" "t' = t\<lparr>run_task_state := st\<rparr>" using assms(2) t' unfolding same_tasks_def by blast
    moreover from this(1) obtain u sv where "obj_get m tid = Some u" "t = u\<lparr>run_task_state := sv\<rparr>"
      using assms(1) unfolding same_tasks_def by blast
    ultimately show ?thesis by auto
  qed
  then show ?thesis using assms by (simp add: same_tasks_def)
qed

lemma adjust_step_same_tasks:
  "same_tasks m (case obj_get m k of None \<Rightarrow> m | Some v \<Rightarrow> obj_set m k (next_task v m))"
proof (cases "obj_get m k")
  case (Some v)
  then have "obj_keys (obj_set m k (next_task v m)) = obj_keys m" using obj_get_Some_key[OF Some] by simp
  moreover have "\<exists>t st. obj_get m tid = Some t \<and> t' = t\<lparr>run_task_state := st\<rparr>"
    if "obj_get (obj_set m k (next_task v m)) tid = Some t'" for tid t'
  proof (cases "tid = k")
    case True
    then show ?thesis using that Some by (auto simp: next_task_def)
  next
    case False
    then have "obj_get m tid = Some t'" using that by simp
    then show ?thesis by (metis run_task.surjective run_task.update_convs(2))
  qed
  ultimately show ?thesis by (simp add: Some same_tasks_def)
qed (simp add: same_tasks_refl)

lemma adjust_pass_same_tasks: "same_tasks m (adjust_pass next_task m ks)"
proof (induction ks arbitrary: m)
  case (Cons k ks)
  from same_tasks_trans[OF adjust_step_same_tasks Cons.IH] show ?case by (simp add: adjust_pass_def)
qed (simp add: adjust_pass_def same_tasks_refl)

lemma same_tasks_definitions:
  assumes "same_tasks m m'" and "distinct (obj_keys m)"
  shows "map (\<lambda>(tid, t). (tid, run_task_definition t)) m' = map (\<lambda>(tid, t). (tid, run_task_definition t)) m"
proof (rule obj_eqI)
  let ?f = "\<lambda>(tid, t). (tid, run_task_definition t)"
  have keys: "obj_keys (map ?f ob) = obj_keys ob" for ob by (simp add: obj_keys_def comp_def case_prod_beta)
  have get: "obj_get (map ?f ob) k = map_option run_task_definition (obj_get ob k)" for ob k
    by (induction ob) (auto simp: obj_get_def)
  have k': "obj_keys m' = obj_keys m" using assms(1) by (simp add: same_tasks_def)
  show "obj_keys (map ?f m') = obj_keys (map ?f m)" "distinct (obj_keys (map ?f m'))"
    using assms(2) by (simp_all add: keys k')
  fix k assume "k \<in> set (obj_keys (map ?f m'))"
  then have "k \<in> set (obj_keys m')" by (simp add: keys)
  then obtain t' where t': "obj_get m' k = Some t'" using obj_key_get by blast
  then obtain t st where "obj_get m k = Some t" "t' = t\<lparr>run_task_state := st\<rparr>" using assms(1) unfolding same_tasks_def by blast
  then show "obj_get (map ?f m') k = obj_get (map ?f m) k" using t' by (simp add: get)
qed

lemma reconcile_task_states_ok:
  assumes ok: "task_graph_ok run"
  shows "\<exists>run'. reconcile_task_states run = Inr run' \<and> run' = run\<lparr>orch_tasks := orch_tasks run'\<rparr> \<and>
    task_graph_ok run' \<and> settled next_task (orch_tasks run') \<and>
    (\<forall>tid t. obj_get (orch_tasks run) tid = Some t \<longrightarrow>
       obj_get (orch_tasks run') tid = Some (next_task t (orch_tasks run')))"
proof -
  have wf: "wf_task_plan (orch_plan run)" using ok by (simp add: task_graph_ok_def)
  obtain order where o: "topological_task_ids (orch_plan run) = Inr order" using topological_task_ids_total[OF wf] by simp
  note ord = topological_task_ids_order[OF wf o]
  let ?F = "adjust_pass next_task (orch_tasks run) order"
  have same: "same_tasks (orch_tasks run) ?F" by (rule adjust_pass_same_tasks)
  have "distinct (obj_keys (orch_tasks run))" using task_graph_keys[OF ok] wf_task_plan_distinct[OF wf] by simp
  from same_tasks_definitions[OF same this] have graph: "task_graph_ok (run\<lparr>orch_tasks := ?F\<rparr>)"
    using ok by (simp add: task_graph_ok_def)
  have first: "k \<in> set order \<and> needs_first order k (task_dependencies (run_task_definition r))"
    if r: "obj_get (orch_tasks run) k = Some r" for k r using task_graph_task[OF ok r] ord(2,3) by force
  have "settled next_task ?F" by (rule task_rule.pass_settled[OF ord(1) first])
  moreover have "obj_get ?F k = Some (next_task r ?F)" if "obj_get (orch_tasks run) k = Some r" for k r
    using task_rule.pass_get[OF ord(1) _ that] first[OF that] by blast
  ultimately show ?thesis using graph by (simp add: reconcile_task_states_def o)
qed

subsection \<open>Plan revisions\<close>

definition revisions_ok :: "task_run \<Rightarrow> bool" where
  "revisions_ok run \<longleftrightarrow> orch_revisions run \<noteq> [] \<and>
     map revision_number (orch_revisions run) = [1 ..< Suc (length (orch_revisions run))] \<and>
     orch_plan_revision run = length (orch_revisions run) \<and>
     revision_plan (last (orch_revisions run)) = orch_plan run \<and>
     revision_workers (last (orch_revisions run)) = orch_workers run \<and>
     (\<forall>r\<in>set (orch_revisions run). wf_task_plan (revision_plan r) \<and>
        MIN_CONCURRENT_WORKERS \<le> revision_workers r \<and> revision_workers r \<le> MAX_CONCURRENT_WORKERS)"

definition approval_ok :: "task_run \<Rightarrow> bool" where
  "approval_ok run \<longleftrightarrow> orch_approved_revision run = None \<or> orch_approved_revision run = Some (orch_plan_revision run)"

text \<open>The plan in force is within the approved envelope, under the profiles frozen in the policy.\<close>

definition authorized :: "task_run \<Rightarrow> bool" where
  "authorized run \<longleftrightarrow> (case orch_authority run of
       None \<Rightarrow> policy_version (orch_policy run) \<noteq> 2
     | Some a \<Rightarrow> \<exists>p. read_workflow_plan_document (task_plan_json (orch_plan run)) = Inr p \<and>
         plan_within p (authority_envelope_of a) (orch_root run) (policy_profiles (orch_policy run)))"

definition task_run_ok :: "task_run \<Rightarrow> bool" where
  "task_run_ok run \<longleftrightarrow> task_graph_ok run \<and> settled next_task (orch_tasks run) \<and> revisions_ok run \<and>
     approval_ok run \<and> authorized run"

lemma worker_limit_floor:
  assumes "assert_worker_limit q = Inr ()"
  shows "MIN_CONCURRENT_WORKERS \<le> \<lfloor>q\<rfloor> \<and> \<lfloor>q\<rfloor> \<le> MAX_CONCURRENT_WORKERS" "of_int \<lfloor>q\<rfloor> = q"
  using assms by (auto simp: assert_worker_limit_def le_floor_iff floor_le_iff)

lemma with_plan_revision_ok:
  assumes "revisions_ok run" and "wf_task_plan plan"
    and "MIN_CONCURRENT_WORKERS \<le> workers \<and> workers \<le> MAX_CONCURRENT_WORKERS"
  shows "revisions_ok (with_plan_revision run revised plan workers source restored time)"
  using assms by (auto simp: revisions_ok_def with_plan_revision_def Let_def)

lemma frozen_plan_within:
  assumes "freeze_run_authority sha dir document (security_policy.truncate policy) authored = Inr (a, frozen)"
  shows "\<exists>p. read_workflow_plan_document document = Inr p \<and>
    plan_within p (authority_envelope_of a) dir (policy_profiles (with_frozen_profiles policy frozen))"
proof -
  from freeze_run_authority_sound[OF assms] obtain p ps where "read_workflow_plan_document document = Inr p"
    "plan_within p (authority_envelope_of a) dir (Some ps)" "frozen = (security_policy.truncate policy)\<lparr>policy_profiles := Some ps\<rparr>"
    by blast
  then show ?thesis by (simp add: with_frozen_profiles_def)
qed

text \<open>The part of a run no planning operation changes.\<close>

definition fixed_part :: "task_run \<Rightarrow> string \<times> string \<times> string \<times> run_policy" where
  "fixed_part run = (orch_id run, orch_root run, orch_base_commit run, orch_policy run)"

lemma reconcile_planned:
  assumes r: "reconcile_task_states run = Inr run'" and g: "task_graph_ok run" and ok: "revisions_ok run" "approval_ok run" "authorized run"
  shows "task_run_ok run' \<and> fixed_part run' = fixed_part run \<and> orch_revisions run' = orch_revisions run \<and>
    orch_state run' = orch_state run \<and> orch_plan run' = orch_plan run \<and> orch_attempts run' = orch_attempts run \<and>
    orch_approved_revision run' = orch_approved_revision run \<and>
    (orch_authority run' = None \<longleftrightarrow> orch_authority run = None)"
proof -
  from reconcile_task_states_ok[OF g] r have r': "run' = run\<lparr>orch_tasks := orch_tasks run'\<rparr>" "task_graph_ok run'"
    "settled next_task (orch_tasks run')" by auto
  have eq: "orch_revisions run' = orch_revisions run" "orch_plan run' = orch_plan run" "orch_plan_revision run' = orch_plan_revision run"
    "orch_workers run' = orch_workers run" "orch_approved_revision run' = orch_approved_revision run"
    "orch_authority run' = orch_authority run" "orch_policy run' = orch_policy run" "orch_root run' = orch_root run"
    "orch_state run' = orch_state run" "orch_attempts run' = orch_attempts run" "orch_id run' = orch_id run"
    "orch_base_commit run' = orch_base_commit run"
    by (subst r'(1), simp)+
  show ?thesis using r'(2,3) ok
    by (simp add: task_run_ok_def revisions_ok_def approval_ok_def authorized_def fixed_part_def eq
        del: upt_Suc split: option.splits)
qed

lemma revised_authority_within:
  assumes "revised_authority_for sha run plan = Inr revised" and "authorized run"
  shows "authorized (with_plan_revision run revised plan workers source restored time)"
    "orch_authority run = None \<longleftrightarrow> revised = None"
proof -
  have "authorized (with_plan_revision run revised plan workers source restored time) \<and> (orch_authority run = None \<longleftrightarrow> revised = None)"
  proof (cases "orch_authority run")
    case None
    then show ?thesis using assms by (auto simp: revised_authority_for_def authorized_def with_plan_revision_def Let_def)
  next
    case (Some a)
    with assms(1) obtain b frozen where r: "revise_run_authority sha a (orch_root run) (task_plan_json plan)
        (security_policy.truncate (orch_policy run)) None = Inr (b, frozen)"
      "with_frozen_profiles (orch_policy run) frozen = orch_policy run" "revised = Some b"
      by (auto simp: revised_authority_for_def and_then_Inr split: if_splits)
    then obtain authored where "freeze_run_authority sha (orch_root run) (task_plan_json plan)
        (security_policy.truncate (orch_policy run)) authored = Inr (b, frozen)"
      by (auto simp: revise_run_authority_def split: if_splits)
    from frozen_plan_within[OF this] show ?thesis
      by (simp add: r(2,3) Some authorized_def with_plan_revision_def Let_def)
  qed
  then show "authorized (with_plan_revision run revised plan workers source restored time)"
    "orch_authority run = None \<longleftrightarrow> revised = None" by blast+
qed

lemma with_plan_revision_graph:
  "wf_task_plan plan \<Longrightarrow> task_graph_ok (with_plan_revision run revised plan workers source restored time)"
  by (rule tasks_for_plan_graph[of plan]) (simp_all add: with_plan_revision_def Let_def)

text \<open>A further revision of an unapproved run.\<close>

definition extends_run :: "task_run \<Rightarrow> task_run \<Rightarrow> bool" where
  "extends_run run run' \<longleftrightarrow> task_run_ok run' \<and> fixed_part run' = fixed_part run \<and>
     prefix (orch_revisions run) (orch_revisions run') \<and> (orch_authority run' = None \<longleftrightarrow> orch_authority run = None) \<and>
     (orch_approved_revision run \<noteq> None \<longrightarrow>
        orch_plan run' = orch_plan run \<and> orch_approved_revision run' = orch_approved_revision run)"

lemma plan_revision_extends:
  assumes ok: "task_run_ok run" and approved: "orch_approved_revision run = None"
    and a: "revised_authority_for sha run plan = Inr revised" and p: "wf_task_plan plan"
    and w: "MIN_CONCURRENT_WORKERS \<le> workers \<and> workers \<le> MAX_CONCURRENT_WORKERS"
    and r: "reconcile_task_states (with_plan_revision run revised plan workers source restored time) = Inr run'"
  shows "extends_run run run' \<and> orch_plan run' = plan"
proof -
  let ?w = "with_plan_revision run revised plan workers source restored time"
  have "revisions_ok ?w" "authorized ?w" "approval_ok ?w"
    using ok with_plan_revision_ok[OF _ p w] revised_authority_within(1)[OF a] approved
    by (simp_all add: task_run_ok_def approval_ok_def with_plan_revision_def Let_def)
  from reconcile_planned[OF r with_plan_revision_graph[OF p] this(1,3,2)] show ?thesis
    using revised_authority_within(2)[OF a] ok
    by (auto simp: extends_run_def task_run_ok_def approved fixed_part_def with_plan_revision_def Let_def)
qed

lemma extends_run_refl: "task_run_ok run \<Longrightarrow> extends_run run run"
  by (simp add: extends_run_def)

lemma revise_run_plan_extends:
  assumes "task_run_ok run" and "revise_run_plan sha run document workers expected time = Inr run'"
  shows "extends_run run run' \<and> orch_plan_revision run = expected \<and> orch_approved_revision run = None \<and>
    validate_task_plan document = Inr (orch_plan run')"
proof -
  from assms(2) obtain plan where e: "assert_plan_editable run = Inr ()" "orch_plan_revision run = expected"
    "assert_worker_limit workers = Inr ()" "validate_task_plan document = Inr plan"
    and rest: "(if plan = orch_plan run \<and> workers = of_int (orch_workers run) then Inr run
     else and_then (revised_authority_for sha run plan) (\<lambda>revised.
       reconcile_task_states (with_plan_revision run revised plan \<lfloor>workers\<rfloor> Edited None time))) = Inr run'"
    by (auto simp: revise_run_plan_def and_then_Inr check_plan_revision_def)
  have approved: "orch_approved_revision run = None" using e(1) by (auto simp: assert_plan_editable_def and_then_Inr)
  note p = validate_task_plan_sound[OF e(4)]
  show ?thesis
  proof (cases "plan = orch_plan run \<and> workers = of_int (orch_workers run)")
    case True
    then show ?thesis using rest e(2,4) assms(1) approved by (simp add: extends_run_refl)
  next
    case False
    then obtain revised where a: "revised_authority_for sha run plan = Inr revised"
      "reconcile_task_states (with_plan_revision run revised plan \<lfloor>workers\<rfloor> Edited None time) = Inr run'"
      using rest by (simp only: if_False and_then_Inr) blast
    from plan_revision_extends[OF assms(1) approved a(1) p worker_limit_floor(1)[OF e(3)] a(2)] e(2,4) approved
    show ?thesis by simp
  qed
qed

lemma restore_run_plan_extends:
  assumes ok: "task_run_ok run" and r: "restore_run_plan_revision sha run number expected time = Inr run'"
  shows "extends_run run run' \<and> orch_plan_revision run = expected \<and> orch_approved_revision run = None \<and>
    number \<ge> 1 \<and> number \<le> length (orch_revisions run) \<and> orch_plan run' = revision_plan (orch_revisions run ! (number - 1))"
proof -
  from r obtain v revised where e: "assert_plan_editable run = Inr ()" "orch_plan_revision run = expected"
    and v: "find (\<lambda>r. revision_number r = number) (orch_revisions run) = Some v"
    and a: "revised_authority_for sha run (revision_plan v) = Inr revised"
      "reconcile_task_states (with_plan_revision run revised (revision_plan v) (revision_workers v) Restored (Some number) time) = Inr run'"
    by (auto simp: restore_run_plan_revision_def and_then_Inr check_plan_revision_def split: option.splits)
  have approved: "orch_approved_revision run = None" using e(1) by (auto simp: assert_plan_editable_def and_then_Inr)
  from v obtain k where k: "k < length (orch_revisions run)" "v = orch_revisions run ! k" "revision_number v = number"
    by (auto simp: find_Some_iff)
  have "map revision_number (orch_revisions run) ! k = Suc k"
    using ok k(1) by (simp add: task_run_ok_def revisions_ok_def del: upt_Suc)
  then have n: "number = Suc k" using k by simp
  have "v \<in> set (orch_revisions run)" using k(1,2) by simp
  then have p: "wf_task_plan (revision_plan v)" and w: "MIN_CONCURRENT_WORKERS \<le> revision_workers v \<and> revision_workers v \<le> MAX_CONCURRENT_WORKERS"
    using ok by (simp_all add: task_run_ok_def revisions_ok_def)
  from plan_revision_extends[OF ok approved a(1) p w a(2)] show ?thesis using n k e(2) approved by simp
qed

lemma approve_run_extends:
  assumes "task_run_ok run" and "approve_run run time expected = Inr run'"
  shows "extends_run run run' \<and> orch_state run' = RunningPhase \<and> orch_approved_revision run' = Some (orch_plan_revision run) \<and>
    orch_plan run' = orch_plan run \<and> (\<forall>n. expected = Some n \<longrightarrow> orch_plan_revision run = n)"
  using assms by (auto simp: approve_run_def and_then_Inr check_plan_revision_def extends_run_def task_run_ok_def
      task_graph_ok_def revisions_ok_def approval_ok_def authorized_def fixed_part_def simp del: upt_Suc split: option.splits)

subsection \<open>Creation\<close>

lemma create_orchestration_run_ok:
  assumes "create_orchestration_run sha input = Inr run"
  shows "task_run_ok run \<and> orch_state run = AwaitingApproval \<and> orch_attempts run = [] \<and>
    validate_task_plan (create_plan input) = Inr (orch_plan run) \<and> length (orch_revisions run) = 1 \<and>
    (create_envelope input \<noteq> None \<longrightarrow> map_option authority_envelope_of (orch_authority run) = create_envelope input)"
proof -
  let ?policy = "case create_policy input of None \<Rightarrow> legacy_security_policy DeclineRequests | Some p \<Rightarrow> p"
  from assms obtain plan frozen u where "assert_worker_limit (create_workers input) = Inr u"
    and p: "validate_task_plan (create_plan input) = Inr plan"
    and f: "frozen_authority_for sha (create_root input) plan ?policy (create_envelope input) = Inr frozen"
    and r: "reconcile_task_states (case frozen of None \<Rightarrow> created_run input plan ?policy None
       | Some (authority, narrowed) \<Rightarrow> created_run input plan narrowed (Some authority)) = Inr run"
    unfolding create_orchestration_run_def Let_def and_then_Inr by blast
  then have w: "assert_worker_limit (create_workers input) = Inr ()" by simp
  note wf = validate_task_plan_sound[OF p]
  have graph: "task_graph_ok (created_run input plan policy a)" for policy a
    by (rule tasks_for_plan_graph[OF wf]) (simp_all add: created_run_def)
  have revs: "revisions_ok (created_run input plan policy a)" "approval_ok (created_run input plan policy a)" for policy a
    using wf worker_limit_floor(1)[OF w] by (simp_all add: revisions_ok_def approval_ok_def created_run_def first_revision_def)
  obtain policy a where e: "reconcile_task_states (created_run input plan policy a) = Inr run"
    "authorized (created_run input plan policy a)"
    "create_envelope input \<noteq> None \<longrightarrow> map_option authority_envelope_of a = create_envelope input"
  proof (cases frozen)
    case None
    then have "policy_version ?policy \<noteq> 2" "create_envelope input = None"
      using f by (auto simp: frozen_authority_for_def and_then_Inr split: if_splits)
    then have "authorized (created_run input plan ?policy None)" by (simp add: authorized_def created_run_def)
    then show ?thesis using that[of ?policy None] r None \<open>create_envelope input = None\<close> by simp
  next
    case (Some x)
    then obtain a fr where z: "freeze_run_authority sha (create_root input) (task_plan_json plan)
        (security_policy.truncate ?policy) (create_envelope input) = Inr (a, fr)" "x = (a, with_frozen_profiles ?policy fr)"
      using f by (auto simp: frozen_authority_for_def and_then_Inr split: if_splits)
    have "authorized (created_run input plan (with_frozen_profiles ?policy fr) (Some a))"
      using frozen_plan_within[OF z(1)] by (simp add: authorized_def created_run_def)
    moreover have "create_envelope input \<noteq> None \<longrightarrow> Some (authority_envelope_of a) = create_envelope input"
      using freeze_run_authority_sound[OF z(1)] by auto
    ultimately show ?thesis using that[of "with_frozen_profiles ?policy fr" "Some a"] r Some z(2) by simp
  qed
  have auth: "orch_authority run = a"
    using reconcile_task_states_ok[OF graph[of policy a]] e(1)
    by (metis Inr_inject created_run_def task_run.select_convs(10) task_run.surjective task_run.update_convs(15))
  from reconcile_planned[OF e(1) graph revs e(2)] show ?thesis
    using p e(3) auth by (simp add: created_run_def)
qed

subsection \<open>Recovery\<close>

lemma next_task_running:
  "run_task_state (next_task t m) = TaskRunning \<or> run_task_state (next_task t m) = TaskValidating \<Longrightarrow>
     run_task_state t = TaskRunning \<or> run_task_state t = TaskValidating"
  by (auto simp: next_task_def next_task_state_def Let_def split: if_splits)

lemma recover_interrupted_run_ok:
  assumes ok: "task_run_ok run"
  shows "\<exists>run'. recover_interrupted_run run time = Inr run' \<and> extends_run run run' \<and> \<not> interrupted_run run' \<and>
    orch_revisions run' = orch_revisions run \<and> map task_attempt_id (orch_attempts run') = map task_attempt_id (orch_attempts run)"
proof (cases "interrupted_run run")
  case False
  then show ?thesis using ok by (simp add: recover_interrupted_run_def extends_run_refl)
next
  case True
  let ?r = "run\<lparr>
        orch_state := (if orch_state run = ValidatingPhase then ReviewedPhase else orch_state run),
        orch_tasks := map (\<lambda>(tid, t). (tid, interrupt_task t)) (orch_tasks run),
        orch_attempts := map (interrupt_task_attempt time) (orch_attempts run),
        orch_reviews := map (interrupt_review_attempt time) (orch_reviews run),
        orch_repairs := map (interrupt_repair_attempt time) (orch_repairs run),
        orch_blocked := [],
        orch_finals := map (interrupt_final_attempt time) (orch_finals run), orch_updated := time\<rparr>"
  have "map (\<lambda>(tid, t). (tid, run_task_definition t)) (map (\<lambda>(tid, t). (tid, interrupt_task t)) ts) =
      map (\<lambda>(tid, t). (tid, run_task_definition t)) ts" for ts
    by (induction ts) (auto simp: interrupt_task_def)
  from this[of "orch_tasks run"] have graph: "task_graph_ok ?r"
    using ok unfolding task_run_ok_def task_graph_ok_def by (simp del: map_map map_eq_conv)
  have parts: "revisions_ok run" "approval_ok run" "authorized run" using ok by (simp_all add: task_run_ok_def)
  have "revisions_ok ?r" using parts(1) by (simp add: revisions_ok_def del: upt_Suc)
  moreover have "approval_ok ?r" using parts(2) by (simp add: approval_ok_def)
  moreover have "authorized ?r" using parts(3) by (simp add: authorized_def split: option.splits)
  ultimately have ok': "revisions_ok ?r" "approval_ok ?r" "authorized ?r" by blast+
  from reconcile_task_states_ok[OF graph] obtain run' where r: "reconcile_task_states ?r = Inr run'"
    "run' = ?r\<lparr>orch_tasks := orch_tasks run'\<rparr>"
    "\<forall>tid t. obj_get (orch_tasks ?r) tid = Some t \<longrightarrow> obj_get (orch_tasks run') tid = Some (next_task t (orch_tasks run'))"
    by blast
  from reconcile_planned[OF r(1) graph ok'] have p: "task_run_ok run'"
    "fixed_part run' = fixed_part ?r" "orch_revisions run' = orch_revisions run" "orch_plan run' = orch_plan run"
    "orch_attempts run' = orch_attempts ?r" "orch_authority run' = None \<longleftrightarrow> orch_authority run = None"
    "orch_approved_revision run' = orch_approved_revision run" by simp_all
  have "run_task_state t' \<noteq> TaskRunning \<and> run_task_state t' \<noteq> TaskValidating" if t': "(tid, t') \<in> set (orch_tasks run')" for tid t'
  proof -
    have g': "task_graph_ok run'" using p(1) by (simp add: task_run_ok_def)
    have d: "distinct (obj_keys (orch_tasks run'))"
      using task_graph_keys[OF g'] wf_task_plan_distinct g' by (simp add: task_graph_ok_def)
    have get': "obj_get (orch_tasks run') tid = Some t'" using obj_entries_get[OF d] t' by simp
    have "obj_keys (orch_tasks run') = obj_keys (orch_tasks ?r)" using task_graph_keys[OF g'] task_graph_keys[OF graph] p(4) by simp
    then have "tid \<in> set (obj_keys (orch_tasks ?r))" using obj_get_Some_key[OF get'] by simp
    then obtain t where t: "obj_get (orch_tasks ?r) tid = Some t" using obj_key_get by blast
    then have "t' = next_task t (orch_tasks run')" using r(3) get' by simp
    moreover have "(tid, t) \<in> set (orch_tasks ?r)" by (rule obj_get_entry[OF t])
    then have "run_task_state t \<noteq> TaskRunning \<and> run_task_state t \<noteq> TaskValidating"
      by (auto simp: interrupt_task_def split: if_splits)
    ultimately show ?thesis using next_task_running by blast
  qed
  moreover have "orch_reviews run' = orch_reviews ?r" "orch_repairs run' = orch_repairs ?r" "orch_finals run' = orch_finals ?r"
    "orch_blocked run' = []" by (subst r(2), simp)+
  ultimately have "\<not> interrupted_run run'"
    using p(5) by (auto simp: interrupted_run_def list_ex_iff interrupt_task_attempt_def interrupt_review_attempt_def
        interrupt_repair_attempt_def interrupt_final_attempt_def split: if_splits)
  moreover have "map task_attempt_id (orch_attempts run') = map task_attempt_id (orch_attempts run)"
    by (simp add: p(5) comp_def interrupt_task_attempt_def)
  ultimately show ?thesis using True r(1) p
    by (simp add: recover_interrupted_run_def extends_run_def fixed_part_def)
qed

subsection \<open>Launching\<close>

lemma launchable_task_ids_ok:
  assumes ok: "task_graph_ok run" and l: "launchable_task_ids run = Inr ids" and id: "tid \<in> set ids"
  shows "\<exists>t. obj_get (orch_tasks run) tid = Some t \<and> tid \<notin> set (active_task_ids run) \<and>
    (\<forall>d\<in>set (task_dependencies (run_task_definition t)). task_dependency_integrated (orch_tasks run) d) \<and>
    run_task_state t \<in> {TaskPlanned, TaskReady, TaskBlocked}"
proof -
  from l id have running: "orch_state run = RunningPhase" by (auto simp: launchable_task_ids_def split: if_splits)
  from reconcile_task_states_ok[OF ok] obtain r where r: "reconcile_task_states run = Inr r" "r = run\<lparr>orch_tasks := orch_tasks r\<rparr>"
    "task_graph_ok r" and get: "\<And>k t. obj_get (orch_tasks run) k = Some t \<Longrightarrow> obj_get (orch_tasks r) k = Some (next_task t (orch_tasks r))"
    by blast
  have eq: "orch_attempts r = orch_attempts run" "orch_plan r = orch_plan run" by (subst r(2), simp)+
  from l running r(1) id have "task_is_ready r tid"
    by (auto simp: launchable_task_ids_def and_then_Inr split: if_splits dest: in_set_takeD)
  then obtain t' where t': "obj_get (orch_tasks r) tid = Some t'" "run_task_state t' = TaskReady" "tid \<notin> set (active_task_ids run)"
    by (auto simp: task_is_ready_def active_task_ids_def active_task_attempts_def eq split: option.splits)
  have keys: "obj_keys (orch_tasks r) = obj_keys (orch_tasks run)" using task_graph_keys[OF ok] task_graph_keys[OF r(3)] eq(2) by simp
  have "tid \<in> set (obj_keys (orch_tasks run))" using obj_get_Some_key[OF t'(1)] keys by simp
  then obtain t where t: "obj_get (orch_tasks run) tid = Some t" using obj_key_get by blast
  have "t' = next_task t (orch_tasks r)" using get[OF t] t'(1) by simp
  then have ready: "next_task_state t (orch_tasks r) = TaskReady" using t'(2) by (simp add: next_task_def)
  then have deps: "list_all (task_dependency_integrated (orch_tasks r)) (task_dependencies (run_task_definition t))"
    and st: "run_task_state t \<in> {TaskPlanned, TaskReady, TaskBlocked}"
    by (cases "run_task_state t"; auto simp: next_task_state_def Let_def split: if_splits)+
  have "task_dependency_integrated (orch_tasks run) d" if "task_dependency_integrated (orch_tasks r) d" for d
  proof -
    from that obtain q' where q': "obj_get (orch_tasks r) d = Some q'" "truthy (run_task_integrated q')"
      by (auto simp: task_dependency_integrated_def split: option.splits)
    then have "d \<in> set (obj_keys (orch_tasks run))" using obj_get_Some_key[OF q'(1)] keys by simp
    then obtain q where q: "obj_get (orch_tasks run) d = Some q" using obj_key_get by blast
    have "q' = next_task q (orch_tasks r)" using get[OF q] q'(1) by simp
    then have "run_task_integrated q' = run_task_integrated q" by (simp add: next_task_def)
    then show ?thesis using q q'(2) by (simp add: task_dependency_integrated_def)
  qed
  then show ?thesis using t t'(3) deps st by (auto simp: list_all_iff)
qed

lemma launchable_task_ids_slots:
  assumes ok: "task_graph_ok run" and l: "launchable_task_ids run = Inr ids" and ne: "ids \<noteq> []"
  shows "distinct ids" "int (length ids + length (active_task_attempts run)) \<le> orch_workers run"
proof -
  from l ne have running: "orch_state run = RunningPhase" by (auto simp: launchable_task_ids_def split: if_splits)
  from reconcile_task_states_ok[OF ok] obtain r where r: "reconcile_task_states run = Inr r" "r = run\<lparr>orch_tasks := orch_tasks r\<rparr>"
    "task_graph_ok r" by blast
  have eq: "orch_attempts r = orch_attempts run" "orch_plan r = orch_plan run" "orch_workers r = orch_workers run" by (subst r(2), simp)+
  from l ne running r(1) obtain order where o: "topological_task_ids (orch_plan r) = Inr order"
    and ids: "ids = take (nat (available_task_slots r)) (filter (task_is_ready r) order)"
    by (auto simp: launchable_task_ids_def and_then_Inr split: if_splits)
  have wf: "wf_task_plan (orch_plan r)" using r(3) by (simp add: task_graph_ok_def)
  show "distinct ids" using topological_task_ids_order(1)[OF wf o] by (simp add: ids)
  have "length ids \<le> nat (available_task_slots r)" by (simp add: ids)
  moreover have "0 < length ids" using ne by simp
  ultimately have "int (length ids) \<le> available_task_slots r" "0 < available_task_slots r" by linarith+
  then have "int (length ids) \<le> orch_workers r - int (length (active_task_attempts r)) - int (untracked_running_tasks r)"
    unfolding available_task_slots_def by linarith
  then show "int (length ids + length (active_task_attempts run)) \<le> orch_workers run"
    by (simp add: active_task_attempts_def eq)
qed

text \<open>
  A running run without active attempts, in which what succeeded is integrated and nothing failed,
  always has a task to launch until every task has succeeded.
\<close>

definition quiet_tasks :: "task_run \<Rightarrow> bool" where
  "quiet_tasks run \<longleftrightarrow> active_task_attempts run = [] \<and>
     (\<forall>tid t. obj_get (orch_tasks run) tid = Some t \<longrightarrow> run_task_state t \<in> {TaskPlanned, TaskReady, TaskBlocked} \<or>
        run_task_state t = TaskSucceeded \<and> truthy (run_task_integrated t))"

lemma succeeded_dependency:
  assumes "obj_get m d = Some (next_task q m)" and "run_task_state q = TaskSucceeded" and "truthy (run_task_integrated q)"
  shows "\<not> task_dependency_failed m d" "task_dependency_integrated m d"
  using assms by (simp_all add: task_dependency_failed_def task_dependency_integrated_def next_task_def
      next_task_state_def TERMINAL_FAILURE_STATES_def)

lemma launchable_task_ids_live:
  assumes ok: "task_graph_ok run" and running: "orch_state run = RunningPhase" and w: "1 \<le> orch_workers run"
    and quiet: "quiet_tasks run" and rest: "obj_get (orch_tasks run) k0 = Some t0" "run_task_state t0 \<noteq> TaskSucceeded"
  shows "\<exists>ids. launchable_task_ids run = Inr ids \<and> ids \<noteq> []"
proof -
  from reconcile_task_states_ok[OF ok] obtain r where r: "reconcile_task_states run = Inr r" "r = run\<lparr>orch_tasks := orch_tasks r\<rparr>"
    "task_graph_ok r" and get: "\<And>k t. obj_get (orch_tasks run) k = Some t \<Longrightarrow> obj_get (orch_tasks r) k = Some (next_task t (orch_tasks r))"
    by blast
  have eq: "orch_attempts r = orch_attempts run" "orch_plan r = orch_plan run" "orch_workers r = orch_workers run" by (subst r(2), simp)+
  have wf: "wf_task_plan (orch_plan run)" using ok by (simp add: task_graph_ok_def)
  obtain order where o: "topological_task_ids (orch_plan run) = Inr order" using topological_task_ids_total[OF wf] by simp
  note ord = topological_task_ids_order[OF wf o]
  have known: "k \<in> set order \<longleftrightarrow> k \<in> set (obj_keys (orch_tasks run))" for k using ord(2) task_graph_keys[OF ok] by simp
  have calm: "run_task_state q \<in> {TaskPlanned, TaskReady, TaskBlocked} \<or> run_task_state q = TaskSucceeded \<and> truthy (run_task_integrated q)"
    if "obj_get (orch_tasks run) d = Some q" for d q using quiet that unfolding quiet_tasks_def by blast
  let ?open = "\<lambda>k. \<exists>t. obj_get (orch_tasks run) k = Some t \<and> run_task_state t \<noteq> TaskSucceeded"
  have "\<exists>k\<in>set order. ?open k" using rest known obj_get_Some_key by metis
  from split_list_first_prop[OF this] obtain us k vs t where k: "order = us @ k # vs" "obj_get (orch_tasks run) k = Some t"
    "run_task_state t \<noteq> TaskSucceeded" "\<forall>u\<in>set us. \<not> ?open u" by blast
  have "\<not> task_dependency_failed (orch_tasks r) d \<and> task_dependency_integrated (orch_tasks r) d"
    if d: "d \<in> set (task_dependencies (run_task_definition t))" for d
  proof -
    have "d \<in> set us" using ord(3) task_graph_task[OF ok k(2)] k(1) d unfolding needs_first_def by blast
    moreover from this have "d \<in> set order" using k(1) by simp
    then have "d \<in> set (obj_keys (orch_tasks run))" using known by blast
    then obtain q where q: "obj_get (orch_tasks run) d = Some q" using obj_key_get by blast
    ultimately have st: "run_task_state q = TaskSucceeded" using k(4) by blast
    with calm[OF q] have "truthy (run_task_integrated q)" by simp
    with st show ?thesis using succeeded_dependency[OF get[OF q]] by blast
  qed
  then have "next_task_state t (orch_tasks r) = TaskReady"
    using calm[OF k(2)] k(3) by (auto simp: next_task_state_def Let_def list_ex_iff list_all_iff)
  then have ready: "task_is_ready r k" using get[OF k(2)] quiet
    by (simp add: task_is_ready_def next_task_def active_task_ids_def active_task_attempts_def eq quiet_tasks_def)
  have "run_task_state t' \<noteq> TaskRunning \<and> run_task_state t' \<noteq> TaskValidating" if t': "(tid, t') \<in> set (orch_tasks r)" for tid t'
  proof -
    have dist: "distinct (obj_keys (orch_tasks r))" using task_graph_keys[OF r(3)] wf_task_plan_distinct[OF wf] eq(2) by simp
    have g: "obj_get (orch_tasks r) tid = Some t'" using obj_entries_get[OF dist] t' by simp
    have "obj_keys (orch_tasks r) = obj_keys (orch_tasks run)" using task_graph_keys[OF ok] task_graph_keys[OF r(3)] eq(2) by simp
    then have "tid \<in> set (obj_keys (orch_tasks run))" using obj_get_Some_key[OF g] by simp
    then obtain q where q: "obj_get (orch_tasks run) tid = Some q" using obj_key_get by blast
    then have "t' = next_task q (orch_tasks r)" using get g by simp
    moreover have "run_task_state q \<noteq> TaskRunning \<and> run_task_state q \<noteq> TaskValidating"
      using calm[OF q] by auto
    ultimately show ?thesis using next_task_running by blast
  qed
  then have "untracked_running_tasks r = 0" by (auto simp: untracked_running_tasks_def filter_empty_conv)
  then have slots: "available_task_slots r = orch_workers run"
    using w quiet by (simp add: available_task_slots_def active_task_attempts_def eq quiet_tasks_def)
  have "k \<in> set (filter (task_is_ready r) order)" using ready k(1) by simp
  then have "filter (task_is_ready r) order \<noteq> []" by (metis empty_iff empty_set)
  then have "take (nat (orch_workers run)) (filter (task_is_ready r) order) \<noteq> []" using w by simp
  then show ?thesis using running r(1) o w by (simp add: launchable_task_ids_def and_then_def slots eq)
qed

subsection \<open>The life of a run up to its approval, and through restarts\<close>

inductive planning_step :: "(json \<Rightarrow> string) \<Rightarrow> task_run \<Rightarrow> task_run \<Rightarrow> bool" for sha where
  revised: "revise_run_plan sha run document workers expected time = Inr run' \<Longrightarrow> planning_step sha run run'"
| restored: "restore_run_plan_revision sha run number expected time = Inr run' \<Longrightarrow> planning_step sha run run'"
| approved: "approve_run run time expect = Inr run' \<Longrightarrow> planning_step sha run run'"
| recovered: "recover_interrupted_run run time = Inr run' \<Longrightarrow> planning_step sha run run'"

inductive planned_from :: "(json \<Rightarrow> string) \<Rightarrow> task_run \<Rightarrow> task_run \<Rightarrow> bool" for sha and run where
  start: "planned_from sha run run"
| step: "planned_from sha run mid \<Longrightarrow> planning_step sha mid run' \<Longrightarrow> planned_from sha run run'"

lemma planning_step_extends:
  assumes "planning_step sha run run'" and "task_run_ok run"
  shows "extends_run run run'"
  using assms
proof (induction rule: planning_step.induct)
  case (recovered run time run')
  from recover_interrupted_run_ok[OF recovered(2), of time] recovered(1) show ?case by auto
qed (use revise_run_plan_extends restore_run_plan_extends approve_run_extends in blast)+

lemma extends_run_trans:
  "extends_run run mid \<Longrightarrow> extends_run mid run' \<Longrightarrow> extends_run run run'"
  unfolding extends_run_def by (metis prefix_order.trans)

lemma planned_from_extends:
  "planned_from sha run run' \<Longrightarrow> task_run_ok run \<Longrightarrow> extends_run run run'"
proof (induction rule: planned_from.induct)
  case start
  then show ?case by (rule extends_run_refl)
next
  case (step mid run')
  then have "extends_run run mid" "task_run_ok mid" by (auto simp: extends_run_def)
  with planning_step_extends[OF step(2)] show ?case using extends_run_trans by blast
qed

end
