(* ===== verification/SampleTasks.thy ===== *)
theory SampleTasks
  imports TaskRunFacts SampleRuns
begin

text \<open>A run of the sample task plan under the legacy policy, and the same run approved.\<close>

definition sample_create :: create_input where
  "sample_create = \<lparr>create_id = ''run-1'', create_root = ''/repo'', create_base_branch = ''main'', create_base_commit = ''c0'',
     create_branch = ''orchestrator/run-1'', create_request = \<lparr>request_source = ''REQUEST.md'', request_text = ''do it''\<rparr>,
     create_policy = None, create_envelope = None, create_plan = task_plan_json sample_task_plan, create_workers = 2,
     create_source = None, create_now = ''t0''\<rparr>"

lemma sample_created_run: "\<exists>run. create_orchestration_run sha sample_create = Inr run"
proof -
  have v: "validate_task_plan (task_plan_json sample_task_plan) = Inr sample_task_plan"
    by (rule validate_task_plan_json[OF sample_task_plan_wf])
  have "assert_worker_limit 2 = Inr ()" by (simp add: assert_worker_limit_def MIN_CONCURRENT_WORKERS_def MAX_CONCURRENT_WORKERS_def)
  moreover have "frozen_authority_for sha ''/repo'' sample_task_plan (legacy_security_policy DeclineRequests) None = Inr None"
    by (simp add: frozen_authority_for_def legacy_security_policy_def)
  moreover have "task_graph_ok (created_run sample_create sample_task_plan (legacy_security_policy DeclineRequests) None)"
    by (rule tasks_for_plan_graph[OF sample_task_plan_wf]) (simp_all add: created_run_def)
  ultimately show ?thesis using reconcile_task_states_ok v
    by (fastforce simp: create_orchestration_run_def sample_create_def and_then_def)
qed

lemma sample_approved_run:
  assumes "create_orchestration_run sha sample_create = Inr run"
  shows "\<exists>run'. approve_run run ''t1'' (Some 1) = Inr run' \<and> planned_from sha run run'"
proof -
  note c = create_orchestration_run_ok[OF assms]
  have "orch_plan_revision run = 1" using c by (simp add: task_run_ok_def revisions_ok_def)
  then obtain run' where a: "approve_run run ''t1'' (Some 1) = Inr run'"
    using c by (auto simp: approve_run_def and_then_def check_plan_revision_def)
  from planned_from.step[OF planned_from.start planning_step.approved[OF a]] a show ?thesis by blast
qed

text \<open>The first task of an approved run has nothing to wait for.\<close>

lemma sample_quiet_run:
  "\<exists>run t. task_graph_ok run \<and> orch_state run = RunningPhase \<and> 1 \<le> orch_workers run \<and> quiet_tasks run \<and>
     obj_get (orch_tasks run) ''core'' = Some t \<and> run_task_state t \<noteq> TaskSucceeded"
proof -
  let ?run = "(created_run sample_create sample_task_plan (legacy_security_policy DeclineRequests) None)\<lparr>orch_state := RunningPhase\<rparr>"
  have tasks: "orch_tasks ?run = map (\<lambda>d. (task_id d, new_task d)) (task_plan_tasks sample_task_plan)"
    using foldl_obj_set[OF wf_task_plan_distinct[OF sample_task_plan_wf], of new_task] by (simp add: created_run_def tasks_for_plan_def)
  have "task_graph_ok ?run"
    by (rule tasks_for_plan_graph[OF sample_task_plan_wf]) (simp_all add: created_run_def)
  moreover have "run_task_state t = TaskPlanned" if "obj_get (orch_tasks ?run) k = Some t" for k t
    using obj_get_entry[OF that] unfolding tasks by (auto simp: new_task_def)
  then have "quiet_tasks ?run" unfolding quiet_tasks_def by (simp add: active_task_attempts_def created_run_def)
  moreover have "\<exists>t. obj_get (orch_tasks ?run) ''core'' = Some t \<and> run_task_state t \<noteq> TaskSucceeded"
    unfolding tasks by (simp add: sample_task_plan_def obj_get_def new_task_def)
  moreover have "orch_state ?run = RunningPhase" "1 \<le> orch_workers ?run" by (simp_all add: created_run_def sample_create_def)
  ultimately show ?thesis by blast
qed

text \<open>The sample security policy with the settings of its workers.\<close>

definition sample_run_policy :: run_policy where
  "sample_run_policy = security_policy.extend sample_policy (security_policy.more
     (\<lparr>policy_version = 2, policy_isolation = WorktreeOnly, policy_profiles = None, policy_sandbox = Nono,
       policy_source = Configured, policy_tools = ServerAllowlist, policy_discovery = DiscoveryDisabled,
       policy_ui = DeclineRequests, policy_blocked_network = True, policy_executable = Some ''/bin/nono''\<rparr> :: run_policy))"

lemma sample_run_policy_facts:
  "security_policy.truncate sample_run_policy = sample_policy" "policy_tools (sample_run_policy\<lparr>policy_profiles := ps\<rparr>) = ServerAllowlist"
  by (simp_all add: sample_run_policy_def sample_policy_def security_policy.defs)

end
