(* ===== verification/WorkflowStore.thy ===== *)
theory WorkflowStore
  imports SecurityPolicy FileStorage ArtifactStore Admission
begin

text \<open>
  \<open>src/src/storage/workflow-state-store.ts\<close>: the checks every stored engine run has to pass before it is
  written or acted on, and the store itself. The checks work on the value the file parses to, as the
  code does, so they also see what no typed run could be. A file is what its text parses to, or the
  message of the failed parse; an operation holds the lock of its run and is one step; failing file
  operations other than a missing file are not modelled.
\<close>

subsection \<open>\<open>JSON.stringify\<close>\<close>

fun json_text :: "(rat \<Rightarrow> string) \<Rightarrow> json \<Rightarrow> string" where
  "json_text nt JUndefined = ''null''"
| "json_text nt JNull = ''null''"
| "json_text nt (JBool b) = (if b then ''true'' else ''false'')"
| "json_text nt (JNum q) = nt q"
| "json_text nt (JString s) = json_quote s"
| "json_text nt (JArray xs) = ''['' @ join '','' (map (json_text nt) xs) @ '']''"
| "json_text nt (JObject ob) = ''{'' @ join '','' (map (\<lambda>(k, v). json_quote k @ '':'' @ json_text nt v)
     (filter (\<lambda>(k, v). v \<noteq> JUndefined) ob)) @ ''}''"

definition stringify :: "(rat \<Rightarrow> string) \<Rightarrow> json \<Rightarrow> string option" where
  "stringify nt v = (if v = JUndefined then None else Some (json_text nt v))"

text \<open>What the text of a value parses to.\<close>

fun reparsed :: "json \<Rightarrow> json" where
  "reparsed JUndefined = JNull"
| "reparsed (JArray xs) = JArray (map reparsed xs)"
| "reparsed (JObject ob) = JObject (map (\<lambda>(k, v). (k, reparsed v)) (filter (\<lambda>(k, v). v \<noteq> JUndefined) ob))"
| "reparsed v = v"

subsection \<open>Single fields\<close>

definition WORKFLOW_RUN_SCHEMA_VERSION :: int where "WORKFLOW_RUN_SCHEMA_VERSION = 1"

definition LIFECYCLE_STATES :: "lifecycle list" where
  "LIFECYCLE_STATES = [RunRunning, RunCompleted, RunFailed, RunCancelled]"

definition STEP_RUN_STATES :: "step_state list" where
  "STEP_RUN_STATES = [Planned, Ready, Running, Succeeded, Failed, Blocked, Cancelled]"

definition ATTEMPT_STATES :: "attempt_state list" where
  "ATTEMPT_STATES = [Prepared, Launched, AttemptRunning, AttemptValidating, AttemptSucceeded, AttemptFailed,
     AttemptCancelled, AttemptInterrupted]"

definition attempt_state_text :: "attempt_state \<Rightarrow> string" where
  "attempt_state_text s = (case s of
       Prepared \<Rightarrow> ''prepared'' | Launched \<Rightarrow> ''launched'' | AttemptRunning \<Rightarrow> ''running''
     | AttemptValidating \<Rightarrow> ''validating'' | AttemptSucceeded \<Rightarrow> ''succeeded'' | AttemptFailed \<Rightarrow> ''failed''
     | AttemptCancelled \<Rightarrow> ''cancelled'' | AttemptInterrupted \<Rightarrow> ''interrupted'')"

definition assert_optional_string :: "json \<Rightarrow> string \<Rightarrow> unit result" where
  "assert_optional_string v path =
     (if v = JUndefined then Inr () else and_then (assert_string v path) (\<lambda>_. Inr ()))"

definition assert_optional_text :: "json \<Rightarrow> string \<Rightarrow> unit result" where
  "assert_optional_text v path = (case v of
       JUndefined \<Rightarrow> Inr () | JString s \<Rightarrow> Inr ()
     | _ \<Rightarrow> Inl (Error (path @ '' must be a string when present'')))"

definition assert_positive_integer :: "json \<Rightarrow> string \<Rightarrow> unit result" where
  "assert_positive_integer v path =
     require (is_safe_integer v \<and> 1 \<le> to_int v) (Error (path @ '' must be a positive safe integer''))"

definition assert_counting_integer :: "json \<Rightarrow> string \<Rightarrow> unit result" where
  "assert_counting_integer v path =
     require (is_safe_integer v \<and> 0 \<le> to_int v) (Error (path @ '' must be a non-negative safe integer''))"

definition is_string :: "json \<Rightarrow> bool" where
  "is_string v = (case v of JString _ \<Rightarrow> True | _ \<Rightarrow> False)"

definition string_of :: "json \<Rightarrow> string" where
  "string_of v = (case v of JString s \<Rightarrow> s | _ \<Rightarrow> [])"

definition items_of :: "json \<Rightarrow> json list" where
  "items_of v = (case v of JArray xs \<Rightarrow> xs | _ \<Rightarrow> [])"

definition strings_of :: "json \<Rightarrow> string list" where
  "strings_of v = map string_of (items_of v)"

definition is_array :: "json \<Rightarrow> bool" where
  "is_array v = (case v of JArray _ \<Rightarrow> True | _ \<Rightarrow> False)"

definition assert_string_array :: "json \<Rightarrow> string \<Rightarrow> unit result" where
  "assert_string_array v path =
     require (is_array v \<and> list_all is_string (items_of v)) (Error (path @ '' must be an array of strings''))"

subsection \<open>The timeline\<close>

record event_shape =
  shape_text :: "string list"
  shape_optional :: "string list"
  shape_integers :: "string list"
  shape_enums :: "(string \<times> string list) list"
  shape_arrays :: "string list"

definition no_fields :: event_shape where
  "no_fields = \<lparr>shape_text = [], shape_optional = [], shape_integers = [], shape_enums = [], shape_arrays = []\<rparr>"

definition WORKSPACE_TEXTS :: "string list" where
  "WORKSPACE_TEXTS = map requirement_text WORKSPACE_REQUIREMENTS"

definition EVENT_SHAPES :: "(string \<times> event_shape) list" where
  "EVENT_SHAPES =
     [(''step_launched'', no_fields\<lparr>shape_text := [''stepId'', ''attemptId''], shape_integers := [''attemptNumber''],
        shape_enums := [(''workspaceRequirement'', WORKSPACE_TEXTS)]\<rparr>),
      (''step_succeeded'', no_fields\<lparr>shape_text := [''stepId'', ''attemptId''], shape_optional := [''summary'']\<rparr>),
      (''step_failed'', no_fields\<lparr>shape_text := [''stepId'', ''attemptId'', ''error'', ''reason''],
        shape_enums := [(''failureClass'', [''retryable'', ''terminal''])]\<rparr>),
      (''step_retry_scheduled'', no_fields\<lparr>shape_text := [''stepId'', ''attemptId'', ''reason''],
        shape_integers := [''nextAttemptNumber'']\<rparr>),
      (''step_cancelled'', no_fields\<lparr>shape_text := [''stepId''], shape_optional := [''attemptId'', ''error'']\<rparr>),
      (''step_blocked'', no_fields\<lparr>shape_text := [''stepId''], shape_arrays := [''blockedBy'']\<rparr>),
      (''step_admitted'', no_fields\<lparr>shape_text := [''stepId'', ''proposedBy'', ''reason'']\<rparr>),
      (''artifact_published'', no_fields\<lparr>shape_text := [''stepId'', ''attemptId'', ''artifactId'', ''output''],
        shape_integers := [''sizeBytes''], shape_enums := [(''artifactKind'', map artifact_kind_text ARTIFACT_KINDS)]\<rparr>),
      (''step_integrated'', no_fields\<lparr>shape_text := [''stepId'', ''integrationHead''], shape_optional := [''commit'']\<rparr>),
      (''run_cancellation_requested'', no_fields\<lparr>shape_text := [''reason'']\<rparr>),
      (''run_settled'', no_fields\<lparr>shape_optional := [''error''],
        shape_enums := [(''state'', map lifecycle_text LIFECYCLE_STATES)]\<rparr>)]"

text \<open>
  \<open>EVENT_SHAPES[kind]\<close> also finds what an object inherits; those values have none of the fields of a
  shape.
\<close>

definition INHERITED_NAMES :: "string list" where
  "INHERITED_NAMES = [''constructor'', ''__defineGetter__'', ''__defineSetter__'', ''hasOwnProperty'',
     ''__lookupGetter__'', ''__lookupSetter__'', ''isPrototypeOf'', ''propertyIsEnumerable'', ''toString'',
     ''valueOf'', ''__proto__'', ''toLocaleString'']"

definition event_shape_of :: "string \<Rightarrow> event_shape option" where
  "event_shape_of kind = (case map_of EVENT_SHAPES kind of
       Some sh \<Rightarrow> Some sh
     | None \<Rightarrow> if kind \<in> set INHERITED_NAMES then Some no_fields else None)"

definition shape_fields :: "event_shape \<Rightarrow> string list" where
  "shape_fields sh = [''kind'', ''sequence'', ''at''] @ shape_text sh @ shape_optional sh @ shape_integers sh @
     map fst (shape_enums sh) @ shape_arrays sh"

definition check_event_fields :: "(rat \<Rightarrow> string) \<Rightarrow> event_shape \<Rightarrow> json obj \<Rightarrow> string \<Rightarrow> unit result" where
  "check_event_fields nt sh ob path =
     and_then (each_check (\<lambda>f. require (is_string (get_prop ob f)) (Error (at_field path f @ '' must be a string'')))
       (shape_text sh)) (\<lambda>_.
     and_then (each_check (\<lambda>f. assert_optional_text (get_prop ob f) (at_field path f)) (shape_optional sh)) (\<lambda>_.
     and_then (each_check (\<lambda>f. assert_counting_integer (get_prop ob f) (at_field path f)) (shape_integers sh)) (\<lambda>_.
     and_then (each_check (\<lambda>(f, allowed). require (js_string nt (get_prop ob f) \<in> set allowed)
         (Error (at_field path f @ '' is invalid: '' @ js_string nt (get_prop ob f)))) (shape_enums sh)) (\<lambda>_.
     each_check (\<lambda>f. assert_string_array (get_prop ob f) (at_field path f)) (shape_arrays sh)))))"

definition validate_event :: "(rat \<Rightarrow> string) \<Rightarrow> json \<Rightarrow> string \<Rightarrow> int result" where
  "validate_event nt v path =
     and_then (require (is_record v) (Error (path @ '' must be an object''))) (\<lambda>_.
     let ob = fields_of v; kind = js_string nt (get_prop ob ''kind'') in
     case event_shape_of kind of
       None \<Rightarrow> Inl (Error (path @ ''.kind is unknown: '' @ kind))
     | Some sh \<Rightarrow>
         and_then (assert_positive_integer (get_prop ob ''sequence'') (at_field path ''sequence'')) (\<lambda>_.
         and_then (assert_string (get_prop ob ''at'') (at_field path ''at'')) (\<lambda>_.
         and_then (check_event_fields nt sh ob path) (\<lambda>_.
         let unexpected = filter (\<lambda>f. f \<notin> set (shape_fields sh)) (obj_keys ob) in
         and_then (require (unexpected = []) (Error (path @ '' has unexpected '' @ kind @ '' fields: '' @
           join '', '' unexpected))) (\<lambda>_.
         Inr (to_int (get_prop ob ''sequence'')))))))"

text \<open>The loop over the events, from the index and the sequence before; it gives the last sequence.\<close>

fun check_timeline :: "(rat \<Rightarrow> string) \<Rightarrow> nat \<Rightarrow> int \<Rightarrow> json list \<Rightarrow> int result" where
  "check_timeline nt index previous [] = Inr previous"
| "check_timeline nt index previous (event # events) =
     (let path = at_index ''run.events'' index in
      and_then (validate_event nt event path) (\<lambda>sequence.
      and_then (require (previous < sequence)
        (Error (path @ ''.sequence must increase strictly along the timeline''))) (\<lambda>_.
      check_timeline nt (Suc index) sequence events)))"

definition validate_stored_events :: "(rat \<Rightarrow> string) \<Rightarrow> json obj \<Rightarrow> unit result" where
  "validate_stored_events nt run =
     and_then (require (is_array (get_prop run ''events'')) (Error ''run.events must be an array'')) (\<lambda>_.
     let events = items_of (get_prop run ''events''); sequence = to_int (get_prop run ''eventSequence'') in
     and_then (require (length events \<le> MAX_WORKFLOW_EVENTS)
       (Error (''run.events retains '' @ js_nat (length events) @ '' entries; the window is '' @
         js_nat MAX_WORKFLOW_EVENTS))) (\<lambda>_.
     and_then (assert_counting_integer (get_prop run ''eventSequence'') ''run.eventSequence'') (\<lambda>_.
     and_then (assert_counting_integer (get_prop run ''droppedEvents'') ''run.droppedEvents'') (\<lambda>_.
     and_then (check_timeline nt 0 0 events) (\<lambda>last_sequence.
     and_then (require (sequence = int (length events) + to_int (get_prop run ''droppedEvents''))
       (Error ''run.eventSequence must equal the retained events plus the dropped events'')) (\<lambda>_.
     require (events = [] \<or> last_sequence = sequence)
       (Error ''run.events must end at the highest assigned sequence'')))))))"

subsection \<open>Step records\<close>

text \<open>
  What the stored profiles grant: the check before has found every capability to be a known
  text. Only the capabilities of a profile decide about workspaces.
\<close>

definition profiles_of_json :: "(rat \<Rightarrow> string) \<Rightarrow> json \<Rightarrow> run_profiles" where
  "profiles_of_json nt v name =
     (let ob = fields_of (get_prop (fields_of v) (profile_text name)) in
      \<lparr>profile_capabilities = map (\<lambda>c. capability_of (js_string nt c)) (items_of (get_prop ob ''capabilities'')),
       profile_tools = map (js_string nt) (items_of (get_prop ob ''tools''))\<rparr>)"

definition state_in :: "json \<Rightarrow> string list \<Rightarrow> bool" where
  "state_in v texts \<longleftrightarrow> v \<in> JString ` set texts"

definition check_stored_step :: "(rat \<Rightarrow> string) \<Rightarrow> run_profiles \<Rightarrow> json obj \<Rightarrow> step_definition \<Rightarrow> unit result" where
  "check_stored_step nt ps steps d =
     (let path = at_field ''run.steps'' (step_id d); v = get_prop steps (step_id d); r = fields_of v;
          committed = get_prop r ''integratedCommit'' in
      and_then (require (is_record v) (Error (path @ '' must be an object''))) (\<lambda>_.
      and_then (require (state_in (get_prop r ''state'') (map step_state_text STEP_RUN_STATES))
        (Error (path @ ''.state is invalid: '' @ js_string nt (get_prop r ''state'')))) (\<lambda>_.
      and_then (require (stringify nt (get_prop r ''definition'') = stringify nt (step_json d))
        (Error (path @ ''.definition does not match the plan''))) (\<lambda>_.
      and_then (assert_string_array (get_prop r ''attemptIds'') (at_field path ''attemptIds'')) (\<lambda>_.
      and_then (require (distinct (strings_of (get_prop r ''attemptIds'')))
        (Error (path @ ''.attemptIds must be unique''))) (\<lambda>_.
      and_then (assert_optional_string committed (at_field path ''integratedCommit'')) (\<lambda>_.
      and_then (each_check (\<lambda>f. assert_optional_text (get_prop r f) (at_field path f)) [''integrationError'', ''error'']) (\<lambda>_.
      and_then (require (committed = JUndefined \<or> get_prop r ''integrationError'' = JUndefined)
        (Error (path @ '' cannot have both an integrated commit and an integration error''))) (\<lambda>_.
      and_then (require (committed = JUndefined \<or> get_prop r ''state'' = JString ''succeeded'')
        (Error (path @ '' is integrated without having succeeded''))) (\<lambda>_.
      require (committed = JUndefined \<or> step_requires_integration ps d)
        (Error (path @ '' is integrated without mutate-repository authority''))))))))))))"

definition validate_stored_steps :: "(rat \<Rightarrow> string) \<Rightarrow> json obj \<Rightarrow> workflow_plan \<Rightarrow> run_profiles \<Rightarrow> unit result" where
  "validate_stored_steps nt run p ps =
     and_then (require (is_record (get_prop run ''steps'')) (Error ''run.steps must be an object'')) (\<lambda>_.
     let steps = fields_of (get_prop run ''steps'') in
     and_then (require (length (obj_keys steps) = length (plan_steps p))
       (Error ''run.steps must contain exactly the plan steps'')) (\<lambda>_.
     each_check (check_stored_step nt ps steps) (plan_steps p)))"

subsection \<open>Attempts\<close>

definition check_attempt_workspace ::
    "(rat \<Rightarrow> string) \<Rightarrow> workflow_plan \<Rightarrow> run_profiles \<Rightarrow> string \<Rightarrow> json obj \<Rightarrow> unit result" where
  "check_attempt_workspace nt p ps path a =
     (let requirement = js_string nt (get_prop a ''workspaceRequirement'');
          sid = string_of (get_prop a ''stepId'');
          approved = (case find_step p sid of None \<Rightarrow> ''undefined''
            | Some d \<Rightarrow> requirement_text (step_workspace_requirement ps d));
          branch = get_prop a ''branch'' in
      and_then (require (requirement \<in> set WORKSPACE_TEXTS) (Error (path @ ''.workspaceRequirement is invalid''))) (\<lambda>_.
      and_then (require (requirement = approved)
        (Error (path @ ''.workspaceRequirement is '' @ requirement @ '', but '' @ sid @ '' is approved for '' @ approved))) (\<lambda>_.
      and_then (require (is_string (get_prop a ''workspacePath''))
        (Error (path @ ''.workspacePath must be a string''))) (\<lambda>_.
      and_then (require (get_prop a ''workspacePath'' = JString [] \<longleftrightarrow> requirement = ''none'')
        (Error (path @ ''.workspacePath must be empty exactly for a step without a workspace''))) (\<lambda>_.
      and_then (require (branch \<noteq> JUndefined \<longleftrightarrow> requirement = ''mutable'')
        (Error (path @ ''.branch must be present exactly for a mutable workspace''))) (\<lambda>_.
      require (get_prop a ''commit'' = JUndefined \<or> requirement = ''mutable'')
        (Error (path @ '' recorded a commit without a mutable workspace''))))))))"

definition check_attempt_results :: "(rat \<Rightarrow> string) \<Rightarrow> string \<Rightarrow> json obj \<Rightarrow> unit result" where
  "check_attempt_results nt path a =
     and_then (if get_prop a ''artifactIds'' = JUndefined then Inr ()
       else assert_string_array (get_prop a ''artifactIds'') (at_field path ''artifactIds'')) (\<lambda>_.
     and_then (if get_prop a ''evidence'' = JUndefined then Inr ()
       else and_then (validate_stored_evidence nt (get_prop a ''evidence'') (at_field path ''evidence'')) (\<lambda>_.
         require (get_prop a ''commit'' \<noteq> JUndefined)
           (Error (path @ ''.evidence records checks for a commit this attempt never made'')))) (\<lambda>_.
     if get_prop a ''state'' = JString ''succeeded''
     then and_then (assert_string (get_prop a ''finishedAt'') (at_field path ''finishedAt'')) (\<lambda>_. Inr ())
     else Inr ()))"

definition check_stored_attempt ::
    "(rat \<Rightarrow> string) \<Rightarrow> workflow_plan \<Rightarrow> run_profiles \<Rightarrow> string \<Rightarrow> json \<Rightarrow> unit result" where
  "check_stored_attempt nt p ps path v =
     and_then (require (is_record v) (Error (path @ '' must be an object''))) (\<lambda>_.
     let a = fields_of v in
     and_then (each_check (\<lambda>f. and_then (assert_string (get_prop a f) (at_field path f)) (\<lambda>_. Inr ()))
       [''id'', ''stepId'', ''baseCommit'', ''startedAt'']) (\<lambda>_.
     and_then (each_check (\<lambda>f. assert_optional_string (get_prop a f) (at_field path f))
       [''branch'', ''finishedAt'', ''commit'', ''workerId'']) (\<lambda>_.
     and_then (each_check (\<lambda>f. assert_optional_text (get_prop a f) (at_field path f))
       [''summary'', ''error'', ''workspaceReleaseError'']) (\<lambda>_.
     and_then (require (find_step p (string_of (get_prop a ''stepId'')) \<noteq> None)
       (Error (path @ ''.stepId references an unknown step''))) (\<lambda>_.
     and_then (assert_positive_integer (get_prop a ''number'') (at_field path ''number'')) (\<lambda>_.
     and_then (require (state_in (get_prop a ''state'') (map attempt_state_text ATTEMPT_STATES))
       (Error (path @ ''.state is invalid: '' @ js_string nt (get_prop a ''state'')))) (\<lambda>_.
     and_then (check_attempt_workspace nt p ps path a) (\<lambda>_.
     check_attempt_results nt path a))))))))"

text \<open>
  The maps the loop over the attempts fills: the step of every attempt id, the numbers used per step
  (the code's key is the text of both, separated by a character no id contains), and the steps with an
  active attempt.
\<close>

record attempt_scan =
  scan_steps :: "(string \<times> string) list"
  scan_numbers :: "(string \<times> int) list"
  scan_active :: "string list"

definition scan_attempt :: "(rat \<Rightarrow> string) \<Rightarrow> json obj \<Rightarrow> attempt_scan \<Rightarrow> attempt_scan result" where
  "scan_attempt nt a acc =
     (let aid = string_of (get_prop a ''id''); sid = string_of (get_prop a ''stepId'');
          number = to_int (get_prop a ''number'');
          running = state_in (get_prop a ''state'') (map attempt_state_text ACTIVE_ATTEMPT_STATES) in
      and_then (require (aid \<notin> fst ` set (scan_steps acc)) (Error (''Duplicate attempt id: '' @ aid))) (\<lambda>_.
      and_then (require ((sid, number) \<notin> set (scan_numbers acc))
        (Error (''Duplicate attempt number '' @ js_string nt (get_prop a ''number'') @ '' for step '' @ sid))) (\<lambda>_.
      and_then (require (running \<longrightarrow> sid \<notin> set (scan_active acc))
        (Error (''Step '' @ sid @ '' has more than one active attempt''))) (\<lambda>_.
      Inr \<lparr>scan_steps = scan_steps acc @ [(aid, sid)], scan_numbers = scan_numbers acc @ [(sid, number)],
           scan_active = (if running then scan_active acc @ [sid] else scan_active acc)\<rparr>))))"

fun check_attempts ::
    "(rat \<Rightarrow> string) \<Rightarrow> workflow_plan \<Rightarrow> run_profiles \<Rightarrow> nat \<Rightarrow> attempt_scan \<Rightarrow> json list \<Rightarrow> attempt_scan result" where
  "check_attempts nt p ps index acc [] = Inr acc"
| "check_attempts nt p ps index acc (v # vs) =
     and_then (check_stored_attempt nt p ps (at_index ''run.attempts'' index) v) (\<lambda>_.
     and_then (scan_attempt nt (fields_of v) acc) (\<lambda>acc'.
     check_attempts nt p ps (Suc index) acc' vs))"

definition check_references :: "attempt_scan \<Rightarrow> string \<times> json \<Rightarrow> unit result" where
  "check_references acc entry = (case entry of (sid, r) \<Rightarrow>
     each_check (\<lambda>aid. require (map_of (scan_steps acc) aid = Some sid)
       (Error (''run.steps.'' @ sid @ '' references invalid attempt '' @ aid)))
       (strings_of (get_prop (fields_of r) ''attemptIds'')))"

definition referenced_attempts :: "json obj \<Rightarrow> string list" where
  "referenced_attempts steps = concat (map (\<lambda>(sid, r). strings_of (get_prop (fields_of r) ''attemptIds'')) steps)"

definition validate_stored_attempts :: "(rat \<Rightarrow> string) \<Rightarrow> json obj \<Rightarrow> workflow_plan \<Rightarrow> run_profiles \<Rightarrow> unit result" where
  "validate_stored_attempts nt run p ps =
     and_then (require (is_array (get_prop run ''attempts'')) (Error ''run.attempts must be an array'')) (\<lambda>_.
     let attempts = items_of (get_prop run ''attempts''); steps = fields_of (get_prop run ''steps'') in
     and_then (check_attempts nt p ps 0 \<lparr>scan_steps = [], scan_numbers = [], scan_active = []\<rparr> attempts) (\<lambda>acc.
     and_then (each_check (check_references acc) steps) (\<lambda>_.
     and_then (require (set_size (referenced_attempts steps) = length (scan_steps acc))
       (Error ''Every attempt must be referenced by its step'')) (\<lambda>_.
     require (int (length (filter (\<lambda>sid. case find_step p sid of None \<Rightarrow> False
           | Some d \<Rightarrow> step_consumes_worker_slot ps d) (scan_active acc))) \<le> to_int (get_prop run ''maxConcurrentWorkers''))
       (Error ''Run has more active attempts than its concurrency limit'')))))"

subsection \<open>Integration and completion\<close>

text \<open>The loop over the topological order: the expected head, and whether a step was skipped.\<close>

fun check_prefix ::
    "workflow_plan \<Rightarrow> run_profiles \<Rightarrow> json obj \<Rightarrow> json \<Rightarrow> bool \<Rightarrow> string list \<Rightarrow> json result" where
  "check_prefix p ps steps head skipped [] = Inr head"
| "check_prefix p ps steps head skipped (sid # sids) =
     (case (find_step p sid, obj_get steps sid) of
        (Some d, Some r) \<Rightarrow>
          let commit = get_prop (fields_of r) ''integratedCommit'' in
          if \<not> step_requires_integration ps d then check_prefix p ps steps head skipped sids
          else if commit = JUndefined then check_prefix p ps steps head True sids
          else if skipped then Inl (Error (''Integrated steps must form a deterministic topological prefix; '' @ sid @
            '' is out of order''))
          else check_prefix p ps steps commit skipped sids
      | _ \<Rightarrow> check_prefix p ps steps head skipped sids)"

definition check_completed_step ::
    "(rat \<Rightarrow> string) \<Rightarrow> workflow_plan \<Rightarrow> run_profiles \<Rightarrow> string \<times> json \<Rightarrow> unit result" where
  "check_completed_step nt p ps entry = (case entry of (sid, r) \<Rightarrow>
     let state = get_prop (fields_of r) ''state'' in
     and_then (require (state = JString ''succeeded'')
       (Error (''Completed run cannot contain step '' @ sid @ '' in state '' @ js_string nt state))) (\<lambda>_.
     require (case find_step p sid of None \<Rightarrow> True
         | Some d \<Rightarrow> step_requires_integration ps d \<longrightarrow> get_prop (fields_of r) ''integratedCommit'' \<noteq> JUndefined)
       (Error (''Completed run cannot contain unintegrated step '' @ sid))))"

definition validate_stored_integration ::
    "(rat \<Rightarrow> string) \<Rightarrow> json obj \<Rightarrow> workflow_plan \<Rightarrow> run_profiles \<Rightarrow> unit result" where
  "validate_stored_integration nt run p ps =
     (let steps = fields_of (get_prop run ''steps'') in
      and_then (check_prefix p ps steps (get_prop run ''baseCommit'') False (topological_step_ids p)) (\<lambda>head.
      and_then (require (get_prop run ''integrationHead'' = head)
        (Error (''run.integrationHead must match the last integrated step commit ('' @ string_of head @ '')''))) (\<lambda>_.
      and_then (require (\<not> (list_ex (step_requires_integration ps) (plan_steps p) \<and>
          get_prop run ''integrationBranch'' = get_prop run ''baseBranch''))
        (Error ''run.integrationBranch must differ from run.baseBranch when a step may commit'')) (\<lambda>_.
      if get_prop run ''state'' \<noteq> JString ''completed'' then Inr ()
      else each_check (check_completed_step nt p ps) steps))))"

subsection \<open>A stored run\<close>

text \<open>
  The authority of a stored run: the profiles stored beside it must have the text of the profiles
  its envelope grants.
\<close>

definition check_stored_authority ::
    "(json \<Rightarrow> string) \<Rightarrow> (rat \<Rightarrow> string) \<Rightarrow> json obj \<Rightarrow> workflow_plan \<Rightarrow> unit result" where
  "check_stored_authority sha nt run p =
     (if get_prop run ''authority'' = JUndefined then Inr ()
      else and_then (assert_string (get_prop run ''repositoryRoot'') ''run.repositoryRoot'') (\<lambda>dir.
        and_then (validate_stored_authority sha (get_prop run ''authority'') ''run.authority'') (\<lambda>a.
        and_then (capability_profiles_from_envelope (authority_envelope_of a) dir) (\<lambda>expected.
        and_then (require (stringify nt (profiles_json expected) = stringify nt (get_prop run ''capabilityProfiles''))
          (Error ''run.authority capability profiles must be the ones the approved envelope grants'')) (\<lambda>_.
        assert_stored_authority_consistency sha a dir p expected None ''run.authority'')))))"

definition RUN_TEXT_FIELDS :: "string list" where
  "RUN_TEXT_FIELDS = [''repositoryRoot'', ''baseBranch'', ''baseCommit'', ''integrationBranch'', ''integrationHead'',
     ''createdAt'', ''updatedAt'']"

definition check_stored_run :: "(json \<Rightarrow> string) \<Rightarrow> (rat \<Rightarrow> string) \<Rightarrow> json obj \<Rightarrow> unit result" where
  "check_stored_run sha nt run =
     and_then (assert_string (get_prop run ''id'') ''run.id'') (\<lambda>rid.
     and_then (require (run_id_pattern rid) (Error (''Unsafe run id: '' @ rid))) (\<lambda>_.
     and_then (require (state_in (get_prop run ''state'') (map lifecycle_text LIFECYCLE_STATES))
       (Error (''Invalid run state: '' @ js_string nt (get_prop run ''state'')))) (\<lambda>_.
     and_then (each_check (\<lambda>f. and_then (assert_string (get_prop run f) (at_field ''run'' f)) (\<lambda>_. Inr ()))
       RUN_TEXT_FIELDS) (\<lambda>_.
     and_then (assert_optional_text (get_prop run ''error'') ''run.error'') (\<lambda>_.
     and_then (validate_workflow_plan (get_prop run ''plan'')) (\<lambda>p.
     and_then (assert_capability_profiles nt (get_prop run ''capabilityProfiles'') ''run.capabilityProfiles'') (\<lambda>_.
     and_then (check_stored_authority sha nt run p) (\<lambda>_.
     let workers = get_prop run ''maxConcurrentWorkers''; ps = profiles_of_json nt (get_prop run ''capabilityProfiles'') in
     and_then (require (is_safe_integer workers \<and> 1 \<le> to_int workers \<and> to_int workers \<le> MAX_CONCURRENT_WORKERS)
       (Error ''run.maxConcurrentWorkers must be an integer from 1 to 4'')) (\<lambda>_.
     and_then (validate_stored_steps nt run p ps) (\<lambda>_.
     and_then (validate_stored_attempts nt run p ps) (\<lambda>_.
     and_then (validate_stored_integration nt run p ps) (\<lambda>_.
     validate_stored_events nt run))))))))))))"

definition validate_stored_workflow_run :: "(json \<Rightarrow> string) \<Rightarrow> (rat \<Rightarrow> string) \<Rightarrow> json \<Rightarrow> unit result" where
  "validate_stored_workflow_run sha nt v =
     and_then (require (is_record v) (Error ''stored workflow run must be an object'')) (\<lambda>_.
     let ob = fields_of v in
     and_then (require (get_prop ob ''schemaVersion'' = JNum (of_int WORKFLOW_RUN_SCHEMA_VERSION))
       (Error (''Unsupported workflow run schema version: '' @ js_string nt (get_prop ob ''schemaVersion'')))) (\<lambda>_.
     and_then (assert_counting_integer (get_prop ob ''revision'') ''revision'') (\<lambda>_.
     and_then (require (is_record (get_prop ob ''run'')) (Error ''run must be an object'')) (\<lambda>_.
     check_stored_run sha nt (fields_of (get_prop ob ''run''))))))"

subsection \<open>The store\<close>

text \<open>
  The SHA-256 digest, the text of numbers, the directory and the order of \<open>localeCompare\<close> come from outside.
  Runs are the values of their files; \<open>mutate\<close> is the change a caller makes to the value it is given.
\<close>

record run_store_env =
  store_sha :: "json \<Rightarrow> string"
  store_number :: "rat \<Rightarrow> string"
  store_directory :: string
  store_sort :: "string list \<Rightarrow> string list"

type_synonym run_files = "stored_file obj"

definition file_name_for :: "string \<Rightarrow> string result" where
  "file_name_for rid =
     (if run_id_pattern rid then Inr (json_name rid) else Inl (Error (''Unsafe run id: '' @ rid)))"

definition stored_envelope :: "int \<Rightarrow> json \<Rightarrow> json" where
  "stored_envelope revision run = JObject [(''schemaVersion'', JNum (of_int WORKFLOW_RUN_SCHEMA_VERSION)),
     (''revision'', JNum (of_int revision)), (''run'', run)]"

definition run_of_stored :: "json \<Rightarrow> json" where
  "run_of_stored v = get_prop (fields_of v) ''run''"

definition run_key :: "json \<Rightarrow> json" where
  "run_key run = get_prop (fields_of run) ''id''"

definition write_atomic :: "run_store_env \<Rightarrow> run_files \<Rightarrow> json \<Rightarrow> run_files result" where
  "write_atomic env files stored =
     and_then (validate_stored_workflow_run (store_sha env) (store_number env) stored) (\<lambda>_.
     and_then (file_name_for (string_of (run_key (run_of_stored stored)))) (\<lambda>name.
     Inr (obj_set files name (Inr (reparsed stored)))))"

definition missing_file :: "run_store_env \<Rightarrow> string \<Rightarrow> js_error" where
  "missing_file env name = Error (''ENOENT: no such file or directory, open '' @ store_directory env @ ''/'' @ name)"

definition read_stored :: "run_store_env \<Rightarrow> run_files \<Rightarrow> string \<Rightarrow> json result" where
  "read_stored env files rid =
     and_then (file_name_for rid) (\<lambda>name. case obj_get files name of
       None \<Rightarrow> Inl (missing_file env name)
     | Some (Inl m) \<Rightarrow> Inl (Error (''Invalid JSON in '' @ store_directory env @ ''/'' @ name))
     | Some (Inr v) \<Rightarrow> and_then (validate_stored_workflow_run (store_sha env) (store_number env) v) (\<lambda>_. Inr v))"

definition create_stored_run :: "run_store_env \<Rightarrow> run_files \<Rightarrow> json \<Rightarrow> (run_files \<times> json) result" where
  "create_stored_run env files run =
     (let rid = string_of (run_key run) in
      and_then (file_name_for rid) (\<lambda>name.
      and_then (require (obj_get files name = None) (Error (''Workflow run already exists: '' @ rid))) (\<lambda>_.
      and_then (write_atomic env files (stored_envelope 0 run)) (\<lambda>files'. Inr (files', run)))))"

definition has_stored_run :: "run_files \<Rightarrow> string \<Rightarrow> bool result" where
  "has_stored_run files rid = and_then (file_name_for rid) (\<lambda>name. Inr (obj_get files name \<noteq> None))"

definition load_stored_run :: "run_store_env \<Rightarrow> run_files \<Rightarrow> string \<Rightarrow> json result" where
  "load_stored_run env files rid = (case read_stored env files rid of
       Inl e \<Rightarrow> Inl (Error (''Failed to load workflow run '' @ rid))
     | Inr v \<Rightarrow> Inr (run_of_stored v))"

text \<open>\<open>assertAuthorityTransition\<close> on the authorities of two stored values, with an unchanged plan.\<close>

definition stored_authority_transition :: "json \<Rightarrow> json \<Rightarrow> unit result" where
  "stored_authority_transition current proposed =
     (let c = fields_of current; q = fields_of proposed in
      if current = JUndefined then
        require (proposed = JUndefined) (Error ''A run cannot gain a frozen authority envelope after creation'')
      else
        and_then (require (proposed \<noteq> JUndefined) (Error ''A run's frozen authority envelope cannot be dropped'')) (\<lambda>_.
        and_then (require (get_prop q ''source'' = get_prop c ''source'')
          (Error ''A run's authority source is immutable'')) (\<lambda>_.
        if get_prop q ''digest'' = get_prop c ''digest'' then Inr ()
        else and_then (require (get_prop c ''source'' \<noteq> JString ''authored'')
          (Error ''An approved authority envelope is immutable'')) (\<lambda>_.
        Inl (Error ''A derived authority envelope can only change with its plan revision'')))))"

definition transact ::
    "run_store_env \<Rightarrow> run_files \<Rightarrow> string \<Rightarrow> (json \<Rightarrow> json result) \<Rightarrow> (run_files \<times> json) result" where
  "transact env files rid mutate =
     and_then (read_stored env files rid) (\<lambda>stored.
     let current = run_of_stored stored in
     and_then (mutate current) (\<lambda>next_run.
     and_then (require (run_key next_run = JString rid) (Error ''A transaction must not change the run id'')) (\<lambda>_.
     if stringify (store_number env) next_run = stringify (store_number env) current then Inr (files, current)
     else
       and_then (stored_authority_transition (get_prop (fields_of current) ''authority'')
         (get_prop (fields_of next_run) ''authority'')) (\<lambda>_.
       and_then (write_atomic env files
         (stored_envelope (to_int (get_prop (fields_of stored) ''revision'') + 1) next_run)) (\<lambda>files'.
       Inr (files', next_run))))))"

datatype scanned_run = ScannedRun json | UnreadableRun string string

definition scan_run :: "run_store_env \<Rightarrow> run_files \<Rightarrow> string \<Rightarrow> scanned_run" where
  "scan_run env files rid = (case load_stored_run env files rid of
       Inr run \<Rightarrow> ScannedRun run | Inl e \<Rightarrow> UnreadableRun rid (error_message e))"

definition stored_run_ids :: "run_store_env \<Rightarrow> run_files \<Rightarrow> string list" where
  "stored_run_ids env files =
     store_sort env (map (\<lambda>n. take (length n - 5) n) (filter (\<lambda>n. ends_with n ''.json'') (obj_keys files)))"

definition scan_stored_runs :: "run_store_env \<Rightarrow> run_files \<Rightarrow> scanned_run list" where
  "scan_stored_runs env files = map (scan_run env files) (stored_run_ids env files)"

definition list_stored_runs :: "run_store_env \<Rightarrow> run_files \<Rightarrow> json list result" where
  "list_stored_runs env files =
     (let entries = scan_stored_runs env files in
      case find (\<lambda>e. case e of UnreadableRun _ _ \<Rightarrow> True | _ \<Rightarrow> False) entries of
        Some (UnreadableRun rid m) \<Rightarrow> Inl (Error (''Failed to list workflow run '' @ rid @ '': '' @ m))
      | _ \<Rightarrow> Inr (List.map_filter (\<lambda>e. case e of ScannedRun run \<Rightarrow> Some run | _ \<Rightarrow> None) entries))"

subsection \<open>The store in memory\<close>

text \<open>\<open>src/src/engine/state-store.ts\<close>: the same surface over a map, with no validation.\<close>

definition memory_load :: "run_state obj \<Rightarrow> string \<Rightarrow> run_state result" where
  "memory_load runs rid = (case obj_get runs rid of
       None \<Rightarrow> Inl (Error (''Unknown run: '' @ rid)) | Some run \<Rightarrow> Inr run)"

definition memory_save :: "run_state obj \<Rightarrow> run_state \<Rightarrow> run_state obj" where
  "memory_save runs run = obj_set runs (run_id run) run"

definition memory_store :: "run_state list \<Rightarrow> run_state obj" where
  "memory_store runs = foldl memory_save [] runs"

definition memory_transaction ::
    "run_state obj \<Rightarrow> string \<Rightarrow> (run_state \<Rightarrow> run_state result) \<Rightarrow> (run_state obj \<times> run_state) result" where
  "memory_transaction runs rid mutate =
     and_then (memory_load runs rid) (\<lambda>current.
     and_then (mutate current) (\<lambda>next_run.
     and_then (require (run_id next_run = rid) (Error ''A transaction must not change the run id'')) (\<lambda>_.
     Inr (memory_save runs next_run, next_run))))"

end
