(* ===== verification/WorkflowStoreFacts.thy ===== *)
theory WorkflowStoreFacts
  imports WorkflowStore
begin

text \<open>
  What the checks of a stored run guarantee, whatever file they were run on: the loops of the validation
  are characterised, and a value they accept has the structure the engine relies on. A transaction of the
  store keeps every file valid.
\<close>

subsection \<open>The timeline\<close>

definition event_number :: "json \<Rightarrow> int" where
  "event_number v = to_int (get_prop (fields_of v) ''sequence'')"

lemma validate_event_number:
  assumes "validate_event nt v path = Inr n"
  shows "n = event_number v \<and> 1 \<le> n"
  using assms by (auto simp: validate_event_def event_number_def Let_def and_then_Inr assert_positive_integer_def
      split: option.splits)

lemma check_timeline_sound:
  assumes "check_timeline nt k previous events = Inr n"
  shows "sorted_wrt (<) (previous # map event_number events) \<and> n = last (previous # map event_number events)"
  using assms
proof (induction nt k previous events rule: check_timeline.induct)
  case (2 nt index previous event events)
  then obtain m where m: "validate_event nt event (at_index ''run.events'' index) = Inr m" "previous < m"
    "check_timeline nt (Suc index) m events = Inr n" by (auto simp: and_then_Inr Let_def)
  have "m = event_number event" using validate_event_number[OF m(1)] by simp
  with "2.IH"[OF refl m(3)] m(2) show ?case by auto
qed simp

lemma validate_stored_events_sound:
  assumes "validate_stored_events nt run = Inr u"
  defines "events \<equiv> items_of (get_prop run ''events'')"
  shows "length events \<le> MAX_WORKFLOW_EVENTS \<and> sorted_wrt (<) (map event_number events) \<and>
    to_int (get_prop run ''eventSequence'') = int (length events) + to_int (get_prop run ''droppedEvents'') \<and>
    (events \<noteq> [] \<longrightarrow> event_number (last events) = to_int (get_prop run ''eventSequence''))"
proof -
  from assms(1) obtain n where n: "check_timeline nt 0 0 events = Inr n" "length events \<le> MAX_WORKFLOW_EVENTS"
    "to_int (get_prop run ''eventSequence'') = int (length events) + to_int (get_prop run ''droppedEvents'')"
    "events = [] \<or> n = to_int (get_prop run ''eventSequence'')"
    by (auto simp: validate_stored_events_def and_then_Inr Let_def events_def)
  from check_timeline_sound[OF n(1)] n show ?thesis by (auto simp: last_map)
qed

text \<open>The timeline of an accepted run, stated without the loop that checks it.\<close>

definition event_well_formed :: "(rat \<Rightarrow> string) \<Rightarrow> json \<Rightarrow> bool" where
  "event_well_formed nt v \<longleftrightarrow> (let ob = fields_of v in is_record v \<and>
     (\<exists>t. get_prop ob ''at'' = JString t \<and> t \<noteq> []) \<and>
     (\<exists>sh. event_shape_of (js_string nt (get_prop ob ''kind'')) = Some sh \<and> set (obj_keys ob) \<subseteq> set (shape_fields sh) \<and>
        (\<forall>f\<in>set (shape_text sh). is_string (get_prop ob f))))"

definition run_timeline :: "json obj \<Rightarrow> json list" where
  "run_timeline run = items_of (get_prop run ''events'')"

definition timeline_intact :: "(rat \<Rightarrow> string) \<Rightarrow> json obj \<Rightarrow> bool" where
  "timeline_intact nt run \<longleftrightarrow> (let events = run_timeline run; numbers = map event_number events;
       assigned = to_int (get_prop run ''eventSequence''); dropped = to_int (get_prop run ''droppedEvents'') in
     length events \<le> MAX_WORKFLOW_EVENTS \<and> list_all (event_well_formed nt) events \<and>
     sorted_wrt (<) numbers \<and> (\<forall>n\<in>set numbers. 1 \<le> n \<and> n \<le> assigned) \<and>
     assigned = int (length events) + dropped \<and> 0 \<le> dropped \<and> (events \<noteq> [] \<longrightarrow> last numbers = assigned) \<and>
     (dropped = 0 \<longrightarrow> numbers = [1..assigned]))"

lemma sorted_less_upto:
  assumes "sorted_wrt (<) xs" and "\<forall>x\<in>set xs. 1 \<le> x \<and> x \<le> int (length xs)"
  shows "xs = [1..int (length xs)]"
proof (rule sorted_distinct_set_unique)
  show "sorted xs" "distinct xs" using assms(1) by (simp_all add: strict_sorted_iff)
  then have "card (set xs) = length xs" by (simp add: distinct_card)
  then show "set xs = set [1..int (length xs)]" using assms(2) by (intro card_seteq) auto
qed simp_all

lemma sorted_less_last:
  fixes xs :: "int list"
  shows "sorted_wrt (<) xs \<Longrightarrow> x \<in> set xs \<Longrightarrow> x \<le> last xs"
  by (induction xs) (auto simp: less_imp_le)

lemma validate_event_well_formed:
  assumes "validate_event nt v path = Inr n"
  shows "event_well_formed nt v \<and> n = event_number v \<and> 1 \<le> event_number v"
  using assms
  by (auto simp: validate_event_def and_then_Inr Let_def event_well_formed_def event_number_def check_event_fields_def
      assert_positive_integer_def filter_empty_conv split: option.splits)

lemma check_timeline_events:
  "check_timeline nt k previous events = Inr n \<Longrightarrow> v \<in> set events \<Longrightarrow> event_well_formed nt v \<and> 1 \<le> event_number v"
proof (induction events arbitrary: k previous)
  case (Cons e events)
  then show ?case using validate_event_well_formed by (fastforce simp: and_then_Inr Let_def)
qed simp

lemma validate_stored_events_intact:
  assumes "validate_stored_events nt run = Inr u"
  shows "timeline_intact nt run"
proof -
  note sound = validate_stored_events_sound[OF assms, folded run_timeline_def]
  obtain n where n: "check_timeline nt 0 0 (run_timeline run) = Inr n" and d: "0 \<le> to_int (get_prop run ''droppedEvents'')"
    using assms by (auto simp: validate_stored_events_def and_then_Inr Let_def run_timeline_def assert_counting_integer_def)
  let ?ns = "map event_number (run_timeline run)" and ?a = "to_int (get_prop run ''eventSequence'')"
  have e: "\<forall>v\<in>set (run_timeline run). event_well_formed nt v \<and> 1 \<le> event_number v"
    using check_timeline_events[OF n] by blast
  have last: "run_timeline run \<noteq> [] \<longrightarrow> last ?ns = ?a" using sound by (simp add: last_map)
  have bounds: "\<forall>n\<in>set ?ns. 1 \<le> n \<and> n \<le> ?a"
  proof
    fix n assume "n \<in> set ?ns"
    with e sound last sorted_less_last[of ?ns n] show "1 \<le> n \<and> n \<le> ?a" by force
  qed
  moreover have "?ns = [1..?a]" if "to_int (get_prop run ''droppedEvents'') = 0"
    using sorted_less_upto[of ?ns] sound bounds that by simp
  ultimately show ?thesis using sound e d last by (simp add: timeline_intact_def Let_def list_all_iff)
qed

subsection \<open>Attempts\<close>

definition attempt_key :: "json \<Rightarrow> string" where
  "attempt_key v = string_of (get_prop (fields_of v) ''id'')"

definition attempt_owner :: "json \<Rightarrow> string" where
  "attempt_owner v = string_of (get_prop (fields_of v) ''stepId'')"

definition attempt_count :: "json \<Rightarrow> int" where
  "attempt_count v = to_int (get_prop (fields_of v) ''number'')"

definition attempt_in_flight :: "json \<Rightarrow> bool" where
  "attempt_in_flight v \<longleftrightarrow> state_in (get_prop (fields_of v) ''state'') (map attempt_state_text ACTIVE_ATTEMPT_STATES)"

definition scanned :: "attempt_scan \<Rightarrow> json list \<Rightarrow> attempt_scan" where
  "scanned acc vs = \<lparr>scan_steps = scan_steps acc @ map (\<lambda>v. (attempt_key v, attempt_owner v)) vs,
     scan_numbers = scan_numbers acc @ map (\<lambda>v. (attempt_owner v, attempt_count v)) vs,
     scan_active = scan_active acc @ map attempt_owner (filter attempt_in_flight vs)\<rparr>"

definition scan_ok :: "attempt_scan \<Rightarrow> bool" where
  "scan_ok acc \<longleftrightarrow> distinct (map fst (scan_steps acc)) \<and> distinct (scan_numbers acc) \<and> distinct (scan_active acc)"

lemma scan_attempt_Inr:
  "scan_attempt nt (fields_of v) acc = Inr acc' \<longleftrightarrow>
     attempt_key v \<notin> fst ` set (scan_steps acc) \<and> (attempt_owner v, attempt_count v) \<notin> set (scan_numbers acc) \<and>
     (attempt_in_flight v \<longrightarrow> attempt_owner v \<notin> set (scan_active acc)) \<and> acc' = scanned acc [v]"
  by (auto simp: scan_attempt_def and_then_Inr Let_def scanned_def attempt_key_def attempt_owner_def
      attempt_count_def attempt_in_flight_def)

lemma scan_attempt_ok:
  "scan_ok acc \<Longrightarrow> scan_ok (scanned acc [v]) \<longleftrightarrow> (\<exists>acc'. scan_attempt nt (fields_of v) acc = Inr acc')"
  by (auto simp: scan_attempt_Inr scan_ok_def scanned_def image_iff)

lemma scanned_append: "scanned (scanned acc [v]) vs = scanned acc (v # vs)"
  by (simp add: scanned_def)

lemma scan_ok_prefix: "scan_ok (scanned acc (v # vs)) \<Longrightarrow> scan_ok acc \<and> scan_ok (scanned acc [v])"
  by (auto simp: scan_ok_def scanned_def split: if_splits)

text \<open>The loop over the attempts accepts exactly when every attempt does and nothing is doubled.\<close>

lemma check_attempts_Inr:
  assumes "scan_ok acc"
  shows "check_attempts nt p ps index acc vs = Inr acc' \<longleftrightarrow>
    (\<forall>k<length vs. check_stored_attempt nt p ps (at_index ''run.attempts'' (index + k)) (vs ! k) = Inr ()) \<and>
    acc' = scanned acc vs \<and> scan_ok (scanned acc vs)"
  using assms
proof (induction vs arbitrary: acc index)
  case Nil
  then show ?case by (cases acc) (auto simp: scanned_def)
next
  case (Cons v vs)
  have all: "(\<forall>k<length (v # vs). P k) \<longleftrightarrow> P 0 \<and> (\<forall>k<length vs. P (Suc k))" for P :: "nat \<Rightarrow> bool"
    by (auto simp: less_Suc_eq_0_disj)
  show ?case
  proof (cases "scan_ok (scanned acc [v])")
    case True
    then have "scan_attempt nt (fields_of v) acc = Inr (scanned acc [v])"
      using scan_attempt_ok[OF Cons.prems] scan_attempt_Inr by metis
    with Cons.IH[OF True, of "Suc index"] show ?thesis
      unfolding all by (auto simp: and_then_Inr scanned_append)
  next
    case False
    then have "\<nexists>acc'. scan_attempt nt (fields_of v) acc = Inr acc'" using scan_attempt_ok[OF Cons.prems] by blast
    with False show ?thesis using scan_ok_prefix by (auto simp: and_then_Inr)
  qed
qed

definition listed_attempts :: "json \<Rightarrow> string list" where
  "listed_attempts r = strings_of (get_prop (fields_of r) ''attemptIds'')"

text \<open>
  When every listed id belongs to its list and as many ids are listed as there are, each id is listed by
  its own owner and by no other.
\<close>

lemma listed_exactly:
  assumes refs: "\<And>owner ids aid. (owner, ids) \<in> set listing \<Longrightarrow> aid \<in> set ids \<Longrightarrow> map_of table aid = Some owner"
    and size: "set_size (concat (map snd listing)) = length table" and dist: "distinct (map fst table)"
  shows "(\<exists>ids. (owner, ids) \<in> set listing \<and> aid \<in> set ids) \<longleftrightarrow> (aid, owner) \<in> set table"
proof -
  let ?all = "concat (map snd listing)"
  have elem: "aid \<in> set ?all \<longleftrightarrow> (\<exists>owner ids. (owner, ids) \<in> set listing \<and> aid \<in> set ids)" for aid
    by force
  have sub: "set ?all \<subseteq> set (map fst table)"
  proof
    fix aid assume "aid \<in> set ?all"
    then obtain owner ids where "(owner, ids) \<in> set listing" "aid \<in> set ids" using elem by blast
    from map_of_SomeD[OF refs[OF this]] show "aid \<in> set (map fst table)" by force
  qed
  have "card (set ?all) = card (set (map fst table))"
    using size distinct_card[OF dist] by (simp add: set_size_def length_remdups_card_conv)
  then have all: "set ?all = set (map fst table)" using card_subset_eq[OF finite_set sub] by simp
  show ?thesis
  proof
    assume "\<exists>ids. (owner, ids) \<in> set listing \<and> aid \<in> set ids"
    then show "(aid, owner) \<in> set table" using refs map_of_SomeD by fast
  next
    assume own: "(aid, owner) \<in> set table"
    then have "aid \<in> set ?all" using all by force
    then obtain i ids where i: "(i, ids) \<in> set listing" "aid \<in> set ids" using elem by blast
    from refs[OF i] own dist have "i = owner" by (simp add: map_of_eq_Some_iff)
    with i show "\<exists>ids. (owner, ids) \<in> set listing \<and> aid \<in> set ids" by blast
  qed
qed

lemma references_exact:
  assumes refs: "\<forall>entry\<in>set steps. check_references acc entry = Inr ()"
    and size: "set_size (referenced_attempts steps) = length (scan_steps acc)"
    and dist: "distinct (map fst (scan_steps acc))"
  shows "(\<exists>r. (sid, r) \<in> set steps \<and> aid \<in> set (listed_attempts r)) \<longleftrightarrow> (aid, sid) \<in> set (scan_steps acc)"
proof -
  let ?lists = "map (\<lambda>(sid, r). (sid, listed_attempts r)) steps"
  have "concat (map snd ?lists) = referenced_attempts steps"
    by (simp add: referenced_attempts_def listed_attempts_def comp_def case_prod_unfold)
  moreover have "map_of (scan_steps acc) aid = Some owner" if "(owner, ids) \<in> set ?lists" "aid \<in> set ids" for owner ids aid
    using refs that by (auto simp: check_references_def listed_attempts_def)
  ultimately have "(\<exists>ids. (sid, ids) \<in> set ?lists \<and> aid \<in> set ids) \<longleftrightarrow> (aid, sid) \<in> set (scan_steps acc)"
    using listed_exactly[of ?lists "scan_steps acc", OF _ _ dist] size by simp
  then show ?thesis by force
qed

subsection \<open>The integrated prefix\<close>

definition stored_commit :: "json \<Rightarrow> json" where
  "stored_commit r = get_prop (fields_of r) ''integratedCommit''"

definition mutating_commits :: "workflow_plan \<Rightarrow> run_profiles \<Rightarrow> json obj \<Rightarrow> string list \<Rightarrow> json list" where
  "mutating_commits p ps steps sids = List.map_filter (\<lambda>sid. case (find_step p sid, obj_get steps sid) of
     (Some d, Some r) \<Rightarrow> if step_requires_integration ps d then Some (stored_commit r) else None
   | _ \<Rightarrow> None) sids"

text \<open>Commits, then nothing: the head is the last commit, or the given one.\<close>

definition commit_prefix :: "json \<Rightarrow> json \<Rightarrow> bool \<Rightarrow> json list \<Rightarrow> bool" where
  "commit_prefix head last_head skipped cs \<longleftrightarrow> (\<exists>us vs. cs = us @ vs \<and> JUndefined \<notin> set us \<and> set vs \<subseteq> {JUndefined} \<and>
     (skipped \<longrightarrow> us = []) \<and> last_head = last (head # us))"

lemma commit_prefix_Nil [simp]: "commit_prefix head h skipped [] \<longleftrightarrow> h = head"
  by (auto simp: commit_prefix_def)

lemma commit_prefix_True: "commit_prefix head h True cs \<longleftrightarrow> h = head \<and> set cs \<subseteq> {JUndefined}"
  by (simp add: commit_prefix_def) blast

lemma commit_prefix_skip [simp]: "commit_prefix head h skipped (JUndefined # cs) \<longleftrightarrow> commit_prefix head h True cs"
proof -
  have "us = []" if "JUndefined # cs = us @ vs" "JUndefined \<notin> set us" for us vs
    using that by (cases us) auto
  then show ?thesis unfolding commit_prefix_True by (simp add: commit_prefix_def) fastforce
qed

lemma commit_prefix_commit:
  assumes "c \<noteq> JUndefined"
  shows "commit_prefix head h skipped (c # cs) \<longleftrightarrow> \<not> skipped \<and> commit_prefix c h skipped cs"
proof
  assume "commit_prefix head h skipped (c # cs)"
  then obtain us vs where u: "c # cs = us @ vs" "JUndefined \<notin> set us" "set vs \<subseteq> {JUndefined}" "skipped \<longrightarrow> us = []"
    "h = last (head # us)" by (auto simp: commit_prefix_def)
  then obtain us' where us: "us = c # us'" using assms by (cases us) auto
  have n: "\<not> skipped" using u(4) us by auto
  moreover have "commit_prefix c h skipped cs"
    unfolding commit_prefix_def by (intro exI[of _ us'] exI[of _ vs]) (use u us n in auto)
  ultimately show "\<not> skipped \<and> commit_prefix c h skipped cs" by simp
next
  assume r: "\<not> skipped \<and> commit_prefix c h skipped cs"
  then obtain us vs where u: "cs = us @ vs" "JUndefined \<notin> set us" "set vs \<subseteq> {JUndefined}"
    "h = last (c # us)" by (auto simp: commit_prefix_def)
  show "commit_prefix head h skipped (c # cs)"
    unfolding commit_prefix_def by (intro exI[of _ "c # us"] exI[of _ vs]) (use u r assms in auto)
qed

lemma check_prefix_Inr:
  "check_prefix p ps steps head skipped sids = Inr h \<longleftrightarrow>
     commit_prefix head h skipped (mutating_commits p ps steps sids)"
proof (induction sids arbitrary: head skipped)
  case Nil
  then show ?case by (auto simp: mutating_commits_def map_filter_simps)
next
  case (Cons sid sids)
  note simps = mutating_commits_def map_filter_simps
  show ?case
  proof (cases "\<exists>d r. find_step p sid = Some d \<and> obj_get steps sid = Some r \<and> step_requires_integration ps d")
    case True
    then obtain d r where d: "find_step p sid = Some d" "obj_get steps sid = Some r" "step_requires_integration ps d" by blast
    then show ?thesis
      using Cons.IH by (cases "stored_commit r = JUndefined") (simp_all add: simps stored_commit_def commit_prefix_commit Let_def)
  next
    case False
    then have "check_prefix p ps steps head skipped (sid # sids) = check_prefix p ps steps head skipped sids"
      "mutating_commits p ps steps (sid # sids) = mutating_commits p ps steps sids"
      by (auto simp: simps Let_def split: option.split)
    then show ?thesis using Cons.IH by simp
  qed
qed

subsection \<open>What an accepted run is\<close>

definition stored_steps :: "json obj \<Rightarrow> json obj" where
  "stored_steps run = fields_of (get_prop run ''steps'')"

definition stored_attempts :: "json obj \<Rightarrow> json list" where
  "stored_attempts run = items_of (get_prop run ''attempts'')"

definition stored_profiles :: "(rat \<Rightarrow> string) \<Rightarrow> json obj \<Rightarrow> run_profiles" where
  "stored_profiles nt run = profiles_of_json nt (get_prop run ''capabilityProfiles'')"

definition slots_taken :: "workflow_plan \<Rightarrow> run_profiles \<Rightarrow> json list \<Rightarrow> nat" where
  "slots_taken p ps attempts = length (filter (\<lambda>sid. case find_step p sid of None \<Rightarrow> False
     | Some d \<Rightarrow> step_consumes_worker_slot ps d) (map attempt_owner (filter attempt_in_flight attempts)))"

definition attempts_intact :: "workflow_plan \<Rightarrow> run_profiles \<Rightarrow> json obj \<Rightarrow> bool" where
  "attempts_intact p ps run \<longleftrightarrow>
     distinct (map attempt_key (stored_attempts run)) \<and>
     distinct (map (\<lambda>v. (attempt_owner v, attempt_count v)) (stored_attempts run)) \<and>
     distinct (map attempt_owner (filter attempt_in_flight (stored_attempts run))) \<and>
     (\<forall>sid aid. (\<exists>r. obj_get (stored_steps run) sid = Some r \<and> aid \<in> set (listed_attempts r)) \<longleftrightarrow>
        (\<exists>v\<in>set (stored_attempts run). attempt_key v = aid \<and> attempt_owner v = sid)) \<and>
     int (slots_taken p ps (stored_attempts run)) \<le> to_int (get_prop run ''maxConcurrentWorkers'')"

definition workspace_approved :: "(rat \<Rightarrow> string) \<Rightarrow> workflow_plan \<Rightarrow> run_profiles \<Rightarrow> json \<Rightarrow> bool" where
  "workspace_approved nt p ps v \<longleftrightarrow> (\<exists>d\<in>set (plan_steps p). step_id d = attempt_owner v \<and>
     js_string nt (get_prop (fields_of v) ''workspaceRequirement'') = requirement_text (step_workspace_requirement ps d) \<and>
     (get_prop (fields_of v) ''commit'' \<noteq> JUndefined \<longrightarrow> step_requires_integration ps d))"

definition intact_run :: "(rat \<Rightarrow> string) \<Rightarrow> workflow_plan \<Rightarrow> json obj \<Rightarrow> bool" where
  "intact_run nt p run \<longleftrightarrow> (let ps = stored_profiles nt run in
     wf_workflow_plan p \<and> distinct (obj_keys (stored_steps run)) \<and>
     set (obj_keys (stored_steps run)) = set (map step_id (plan_steps p)) \<and>
     attempts_intact p ps run \<and> list_all (workspace_approved nt p ps) (stored_attempts run) \<and>
     commit_prefix (get_prop run ''baseCommit'') (get_prop run ''integrationHead'') False
       (mutating_commits p ps (stored_steps run) (topological_step_ids p)) \<and>
     (get_prop run ''state'' = JString ''completed'' \<longrightarrow>
        JUndefined \<notin> set (mutating_commits p ps (stored_steps run) (topological_step_ids p))))"

lemma same_size_keys:
  assumes "length ks = length xs" and "distinct xs" and "set xs \<subseteq> set ks"
  shows "distinct ks \<and> set ks = set xs"
proof -
  have "card (set xs) = length ks" using assms(1,2) by (simp add: distinct_card)
  then have "card (set xs) = card (set ks)"
    using card_mono[OF _ assms(3)] card_length[of ks] by simp
  then have "set ks = set xs" using card_subset_eq[OF _ assms(3)] by simp
  then show ?thesis using \<open>card (set xs) = length ks\<close> by (simp add: card_distinct)
qed

lemma stored_steps_keys:
  assumes "validate_stored_steps nt run p ps = Inr u" and "distinct (map step_id (plan_steps p))"
  shows "distinct (obj_keys (stored_steps run)) \<and> set (obj_keys (stored_steps run)) = set (map step_id (plan_steps p))"
proof (rule same_size_keys)
  show "length (obj_keys (stored_steps run)) = length (map step_id (plan_steps p))"
    using assms(1) by (auto simp: validate_stored_steps_def and_then_Inr Let_def stored_steps_def)
  have "is_record (get_prop (stored_steps run) (step_id d))" if "d \<in> set (plan_steps p)" for d
    using assms(1) that
    by (auto simp: validate_stored_steps_def and_then_Inr Let_def stored_steps_def check_stored_step_def)
  then have "step_id d \<in> set (obj_keys (stored_steps run))" if "d \<in> set (plan_steps p)" for d
    using that obj_get_None_iff[of "stored_steps run" "step_id d"]
    by (force simp: get_prop_def is_record_def split: option.splits)
  then show "set (map step_id (plan_steps p)) \<subseteq> set (obj_keys (stored_steps run))" by auto
qed (use assms(2) in simp)

lemma stored_attempts_intact:
  assumes v: "validate_stored_attempts nt run p ps = Inr u" and d: "distinct (obj_keys (stored_steps run))"
  shows "attempts_intact p ps run"
    "\<forall>k<length (stored_attempts run). check_stored_attempt nt p ps (at_index ''run.attempts'' k) (stored_attempts run ! k) = Inr ()"
proof -
  let ?empty = "\<lparr>scan_steps = [], scan_numbers = [], scan_active = []\<rparr>"
  from v obtain acc where acc: "check_attempts nt p ps 0 ?empty (stored_attempts run) = Inr acc"
    "\<forall>entry\<in>set (stored_steps run). check_references acc entry = Inr ()"
    "set_size (referenced_attempts (stored_steps run)) = length (scan_steps acc)"
    "int (length (filter (\<lambda>sid. case find_step p sid of None \<Rightarrow> False | Some d \<Rightarrow> step_consumes_worker_slot ps d)
       (scan_active acc))) \<le> to_int (get_prop run ''maxConcurrentWorkers'')"
    by (auto simp: validate_stored_attempts_def and_then_Inr Let_def stored_attempts_def stored_steps_def)
  have "scan_ok ?empty" by (simp add: scan_ok_def)
  from check_attempts_Inr[OF this] acc(1) have c: "acc = scanned ?empty (stored_attempts run)" "scan_ok acc"
    and each: "\<forall>k<length (stored_attempts run). check_stored_attempt nt p ps (at_index ''run.attempts'' k) (stored_attempts run ! k) = Inr ()"
    by auto
  show "\<forall>k<length (stored_attempts run). check_stored_attempt nt p ps (at_index ''run.attempts'' k) (stored_attempts run ! k) = Inr ()"
    by (rule each)
  have s: "scan_steps acc = map (\<lambda>v. (attempt_key v, attempt_owner v)) (stored_attempts run)"
    "scan_numbers acc = map (\<lambda>v. (attempt_owner v, attempt_count v)) (stored_attempts run)"
    "scan_active acc = map attempt_owner (filter attempt_in_flight (stored_attempts run))"
    by (simp_all add: c(1) scanned_def)
  have dist: "distinct (map fst (scan_steps acc))" "distinct (scan_numbers acc)" "distinct (scan_active acc)"
    using c(2) by (simp_all add: scan_ok_def)
  have "(\<exists>r. obj_get (stored_steps run) sid = Some r \<and> aid \<in> set (listed_attempts r)) \<longleftrightarrow>
      (\<exists>v\<in>set (stored_attempts run). attempt_key v = aid \<and> attempt_owner v = sid)" for sid aid
    using references_exact[OF acc(2,3) dist(1), of sid aid] obj_entries_get[OF d] by (auto simp: s(1))
  then show "attempts_intact p ps run"
    using dist acc(4) by (simp add: attempts_intact_def s comp_def slots_taken_def)
qed

lemma requirement_text_inj [simp]: "requirement_text a = requirement_text b \<longleftrightarrow> a = b"
  by (cases a; cases b) (simp_all add: requirement_text_def)

lemma requirement_text_Mutable: "requirement_text r = ''mutable'' \<longleftrightarrow> r = Mutable"
  by (cases r) (simp_all add: requirement_text_def)

lemma find_step_plan: "find_step p sid = Some d \<Longrightarrow> d \<in> set (plan_steps p) \<and> step_id d = sid"
  by (auto simp: find_step_def dest: find_SomeD)

lemma stored_attempt_approved:
  assumes "check_stored_attempt nt p ps path v = Inr ()"
  shows "workspace_approved nt p ps v"
proof -
  from assms obtain d where d: "find_step p (attempt_owner v) = Some d"
    and w: "check_attempt_workspace nt p ps path (fields_of v) = Inr ()"
    by (auto simp: check_stored_attempt_def and_then_Inr Let_def attempt_owner_def)
  from w have "js_string nt (get_prop (fields_of v) ''workspaceRequirement'') = requirement_text (step_workspace_requirement ps d)"
    and "get_prop (fields_of v) ''commit'' = JUndefined \<or>
      js_string nt (get_prop (fields_of v) ''workspaceRequirement'') = ''mutable''"
    using d by (auto simp: check_attempt_workspace_def and_then_Inr Let_def attempt_owner_def)
  then show ?thesis
    using find_step_plan[OF d] unfolding workspace_approved_def step_requires_integration_def
    by (metis requirement_text_Mutable)
qed

lemma mutating_commits_mem:
  assumes "c \<in> set (mutating_commits p ps steps sids)"
  shows "\<exists>sid\<in>set sids. \<exists>d r. find_step p sid = Some d \<and> obj_get steps sid = Some r \<and> step_requires_integration ps d \<and>
    c = stored_commit r"
proof -
  obtain sid where "sid \<in> set sids" and c: "(case (find_step p sid, obj_get steps sid) of
      (Some d, Some r) \<Rightarrow> if step_requires_integration ps d then Some (stored_commit r) else None | _ \<Rightarrow> None) = Some c"
    using assms by (auto simp: mutating_commits_def List.map_filter_def)
  then obtain d r where "find_step p sid = Some d" "obj_get steps sid = Some r" "step_requires_integration ps d" "c = stored_commit r"
    by (auto split: option.splits if_splits)
  with \<open>sid \<in> set sids\<close> show ?thesis by blast
qed

lemma stored_integration_sound:
  assumes "validate_stored_integration nt run p ps = Inr u"
  shows "commit_prefix (get_prop run ''baseCommit'') (get_prop run ''integrationHead'') False
      (mutating_commits p ps (stored_steps run) (topological_step_ids p))"
    "get_prop run ''state'' = JString ''completed'' \<Longrightarrow>
      JUndefined \<notin> set (mutating_commits p ps (stored_steps run) (topological_step_ids p))"
proof -
  show "commit_prefix (get_prop run ''baseCommit'') (get_prop run ''integrationHead'') False
      (mutating_commits p ps (stored_steps run) (topological_step_ids p))"
    using assms by (auto simp: validate_stored_integration_def and_then_Inr Let_def check_prefix_Inr stored_steps_def)
  assume "get_prop run ''state'' = JString ''completed''"
  then have e: "\<forall>entry\<in>set (stored_steps run). check_completed_step nt p ps entry = Inr ()"
    using assms by (auto simp: validate_stored_integration_def and_then_Inr Let_def stored_steps_def)
  show "JUndefined \<notin> set (mutating_commits p ps (stored_steps run) (topological_step_ids p))"
  proof
    assume "JUndefined \<in> set (mutating_commits p ps (stored_steps run) (topological_step_ids p))"
    from mutating_commits_mem[OF this] obtain sid d r where r: "find_step p sid = Some d"
      "obj_get (stored_steps run) sid = Some r" "step_requires_integration ps d" "JUndefined = stored_commit r" by blast
    from e obj_get_entry[OF r(2)] r(1,3,4) show False
      by (auto simp: check_completed_step_def stored_commit_def and_then_Inr Let_def)
  qed
qed

text \<open>Every value the checks accept is an intact run of the plan it holds.\<close>

lemma validate_stored_workflow_run_sound:
  assumes "validate_stored_workflow_run sha nt v = Inr u"
  defines "run \<equiv> fields_of (run_of_stored v)"
  obtains p where "validate_workflow_plan (get_prop run ''plan'') = Inr p" "intact_run nt p run"
    "run_id_pattern (string_of (get_prop run ''id''))" "1 \<le> to_int (get_prop run ''maxConcurrentWorkers'')"
    "to_int (get_prop run ''maxConcurrentWorkers'') \<le> MAX_CONCURRENT_WORKERS"
    "validate_stored_events nt run = Inr ()"
proof -
  have c: "check_stored_run sha nt run = Inr ()"
    using assms(1) by (auto simp: validate_stored_workflow_run_def and_then_Inr Let_def run_def run_of_stored_def)
  then obtain p rid where p: "validate_workflow_plan (get_prop run ''plan'') = Inr p"
    and rid: "assert_string (get_prop run ''id'') ''run.id'' = Inr rid" "run_id_pattern rid"
    and w: "1 \<le> to_int (get_prop run ''maxConcurrentWorkers'')"
      "to_int (get_prop run ''maxConcurrentWorkers'') \<le> MAX_CONCURRENT_WORKERS"
    and s: "validate_stored_steps nt run p (stored_profiles nt run) = Inr ()"
    and a: "validate_stored_attempts nt run p (stored_profiles nt run) = Inr ()"
    and i: "validate_stored_integration nt run p (stored_profiles nt run) = Inr ()"
    and ev: "validate_stored_events nt run = Inr ()"
    by (auto simp: check_stored_run_def and_then_Inr Let_def stored_profiles_def)
  have wf: "wf_workflow_plan p" by (rule validate_workflow_plan_sound[OF p])
  note keys = stored_steps_keys[OF s wf_workflow_planD(1)[OF wf]]
  note att = stored_attempts_intact[OF a conjunct1[OF keys]]
  have "list_all (workspace_approved nt p (stored_profiles nt run)) (stored_attempts run)"
    unfolding list_all_length using att(2) stored_attempt_approved by blast
  with wf keys att(1) stored_integration_sound[OF i] have "intact_run nt p run" by (simp add: intact_run_def Let_def)
  moreover have "string_of (get_prop run ''id'') = rid"
    using rid(1) by (auto simp: assert_string_def string_of_def split: json.splits if_splits)
  ultimately show ?thesis using that[OF p] rid(2) w ev by simp
qed

subsection \<open>The store keeps every file valid\<close>

text \<open>A value without an undefined part is what its text parses to.\<close>

fun plain_json :: "json \<Rightarrow> bool" where
  "plain_json JUndefined = False"
| "plain_json (JArray xs) = list_all plain_json xs"
| "plain_json (JObject ob) = list_all (\<lambda>(k, v). plain_json v) ob"
| "plain_json v = True"

lemma reparsed_plain: "plain_json v \<Longrightarrow> reparsed v = v"
proof (induction v)
  case (JArray xs)
  then show ?case by (auto simp: list_all_iff intro: map_idI)
next
  case (JObject ob)
  have "v \<noteq> JUndefined \<and> reparsed v = v" if "(k, v) \<in> set ob" for k v
    using JObject.IH[of "(k, v)" v] JObject.prems that by (force simp: list_all_iff)
  then have "filter (\<lambda>(k, v). v \<noteq> JUndefined) ob = ob" "map (\<lambda>(k, v). (k, reparsed v)) ob = ob"
    by (auto simp: filter_id_conv intro!: map_idI)
  then show ?case by simp
qed simp_all

definition files_valid :: "run_store_env \<Rightarrow> run_files \<Rightarrow> bool" where
  "files_valid env files \<longleftrightarrow> (\<forall>name v. obj_get files name = Some (Inr v) \<longrightarrow>
     (\<exists>stored. validate_stored_workflow_run (store_sha env) (store_number env) stored = Inr () \<and> v = reparsed stored \<and>
        name = json_name (string_of (run_key (run_of_stored stored)))))"

lemma write_atomic_Inr:
  "write_atomic env files stored = Inr files' \<longleftrightarrow>
     validate_stored_workflow_run (store_sha env) (store_number env) stored = Inr () \<and>
     run_id_pattern (string_of (run_key (run_of_stored stored))) \<and>
     files' = obj_set files (json_name (string_of (run_key (run_of_stored stored)))) (Inr (reparsed stored))"
  by (auto simp: write_atomic_def and_then_Inr file_name_for_def)

lemma write_atomic_valid:
  "files_valid env files \<Longrightarrow> write_atomic env files stored = Inr files' \<Longrightarrow> files_valid env files'"
  by (auto simp: files_valid_def write_atomic_Inr)

text \<open>
  A transaction either changes nothing or writes the next revision of the run it read, under the same id
  and the same authority, and touches no other file.
\<close>

lemma stored_authority_transition_Inr:
  "stored_authority_transition c q = Inr () \<longleftrightarrow> (if c = JUndefined then q = JUndefined
     else q \<noteq> JUndefined \<and> get_prop (fields_of q) ''source'' = get_prop (fields_of c) ''source'' \<and>
       get_prop (fields_of q) ''digest'' = get_prop (fields_of c) ''digest'')"
  by (auto simp: stored_authority_transition_def Let_def and_then_Inr)

lemma transact_Inr:
  assumes "transact env files rid mutate = Inr (files', result)"
  obtains stored next_run where "read_stored env files rid = Inr stored" "mutate (run_of_stored stored) = Inr next_run"
    "run_key next_run = JString rid"
    "files' = files \<and> result = run_of_stored stored \<and>
       stringify (store_number env) next_run = stringify (store_number env) (run_of_stored stored) \<or>
     result = next_run \<and>
       stored_authority_transition (get_prop (fields_of (run_of_stored stored)) ''authority'')
         (get_prop (fields_of next_run) ''authority'') = Inr () \<and>
       write_atomic env files
         (stored_envelope (to_int (get_prop (fields_of stored) ''revision'') + 1) next_run) = Inr files'"
proof -
  from assms obtain stored next_run where r: "read_stored env files rid = Inr stored"
    "mutate (run_of_stored stored) = Inr next_run" "run_key next_run = JString rid"
    and cont: "(if stringify (store_number env) next_run = stringify (store_number env) (run_of_stored stored)
       then Inr (files, run_of_stored stored)
       else and_then (stored_authority_transition (get_prop (fields_of (run_of_stored stored)) ''authority'')
         (get_prop (fields_of next_run) ''authority'')) (\<lambda>_.
       and_then (write_atomic env files
         (stored_envelope (to_int (get_prop (fields_of stored) ''revision'') + 1) next_run)) (\<lambda>files'.
       Inr (files', next_run)))) = Inr (files', result)"
    by (auto simp: transact_def and_then_Inr Let_def)
  show ?thesis by (rule that[OF r]) (use cont in \<open>auto simp: and_then_Inr split: if_splits\<close>)
qed

lemma run_of_stored_envelope [simp]: "run_of_stored (stored_envelope n run) = run"
  by (simp add: run_of_stored_def stored_envelope_def fields_of_def)

lemma transact_keeps_valid:
  assumes "files_valid env files" and "transact env files rid mutate = Inr (files', result)"
  shows "files_valid env files'"
  using transact_Inr[OF assms(2)] write_atomic_valid[OF assms(1)] assms(1) by metis

lemma transact_other_files:
  assumes "transact env files rid mutate = Inr (files', result)" and "name \<noteq> json_name rid"
  shows "obj_get files' name = obj_get files name"
proof -
  from transact_Inr[OF assms(1)] obtain stored next_run where k: "run_key next_run = JString rid"
    and f: "files' = files \<or> write_atomic env files
       (stored_envelope (to_int (get_prop (fields_of stored) ''revision'') + 1) next_run) = Inr files'" by metis
  then show ?thesis using assms(2) by (auto simp: write_atomic_Inr string_of_def)
qed

lemma read_stored_load: "read_stored env files rid = Inr v \<Longrightarrow> load_stored_run env files rid = Inr (run_of_stored v)"
  by (simp add: load_stored_run_def)

lemma transact_load:
  assumes t: "transact env files rid mutate = Inr (files', result)" and plain: "plain_json result"
  shows "load_stored_run env files' rid = Inr result"
proof -
  from transact_Inr[OF t] obtain stored next_run where r: "read_stored env files rid = Inr stored"
    and k: "run_key next_run = JString rid"
    and cases: "files' = files \<and> result = run_of_stored stored \<or> result = next_run \<and> write_atomic env files
       (stored_envelope (to_int (get_prop (fields_of stored) ''revision'') + 1) next_run) = Inr files'" by metis
  from cases show ?thesis
  proof
    assume "files' = files \<and> result = run_of_stored stored"
    then show ?thesis using read_stored_load[OF r] by simp
  next
    let ?v = "stored_envelope (to_int (get_prop (fields_of stored) ''revision'') + 1) next_run"
    assume w: "result = next_run \<and> write_atomic env files ?v = Inr files'"
    then have "plain_json ?v" using plain by (simp add: stored_envelope_def)
    then have "read_stored env files' rid = Inr ?v"
      using w k reparsed_plain[of ?v] by (simp add: write_atomic_Inr read_stored_def string_of_def file_name_for_def)
    from read_stored_load[OF this] w show ?thesis by simp
  qed
qed

end
