(* ===== verification/RunDocument.thy ===== *)
theory RunDocument
  imports WorkflowStoreFacts EngineHead
begin

text \<open>
  An engine run as the document the store writes, and why the store takes it: the invariant of the engine
  is what the checks across records ask for, so only the data of a single attempt or event could be
  refused.
\<close>

subsection \<open>The document of a run\<close>

definition record_json :: "step_record \<Rightarrow> json" where
  "record_json r = JObject ([(''definition'', step_json (record_definition r)),
     (''state'', JString (step_state_text (record_state r))), (''attemptIds'', string_array_json (record_attempts r))] @
     optional_entry ''integratedCommit'' JString (record_integrated r) @
     optional_entry ''integrationError'' JString (record_integration_error r) @
     optional_entry ''error'' JString (record_error r))"

definition attempt_json :: "step_attempt \<Rightarrow> json" where
  "attempt_json a = JObject ([(''id'', JString (attempt_id a)), (''stepId'', JString (attempt_step a)),
     (''number'', JNum (of_nat (attempt_number a))), (''state'', JString (attempt_state_text (attempt_state a))),
     (''workspaceRequirement'', JString (requirement_text (attempt_requirement a))),
     (''workspacePath'', JString (attempt_workspace a)), (''baseCommit'', JString (attempt_base a)),
     (''startedAt'', JString (attempt_started a))] @
     optional_entry ''branch'' JString (attempt_branch a) @
     optional_entry ''finishedAt'' JString (attempt_finished a) @
     optional_entry ''summary'' JString (attempt_summary a) @
     optional_entry ''error'' JString (attempt_error a) @
     optional_entry ''workerId'' JString (attempt_worker a) @
     optional_entry ''commit'' JString (attempt_commit a) @
     optional_entry ''evidence'' evidence_json (attempt_evidence a) @
     optional_entry ''artifactIds'' string_array_json (attempt_artifacts a) @
     optional_entry ''workspaceReleaseError'' JString (attempt_release_error a))"

definition failure_class_text :: "failure_class \<Rightarrow> string" where
  "failure_class_text c = (case c of Retryable \<Rightarrow> ''retryable'' | Terminal \<Rightarrow> ''terminal'')"

definition body_json :: "event_body \<Rightarrow> json obj" where
  "body_json b = (case b of
       StepLaunched sid aid n r \<Rightarrow> [(''kind'', JString ''step_launched''), (''stepId'', JString sid),
         (''attemptId'', JString aid), (''attemptNumber'', JNum (of_nat n)),
         (''workspaceRequirement'', JString (requirement_text r))]
     | StepSucceeded sid aid summary \<Rightarrow> [(''kind'', JString ''step_succeeded''), (''stepId'', JString sid),
         (''attemptId'', JString aid)] @ optional_entry ''summary'' JString summary
     | StepFailed sid aid e c reason \<Rightarrow> [(''kind'', JString ''step_failed''), (''stepId'', JString sid),
         (''attemptId'', JString aid), (''error'', JString e), (''failureClass'', JString (failure_class_text c)),
         (''reason'', JString reason)]
     | StepRetryScheduled sid aid n reason \<Rightarrow> [(''kind'', JString ''step_retry_scheduled''), (''stepId'', JString sid),
         (''attemptId'', JString aid), (''nextAttemptNumber'', JNum (of_nat n)), (''reason'', JString reason)]
     | StepCancelled sid aid e \<Rightarrow> [(''kind'', JString ''step_cancelled''), (''stepId'', JString sid)] @
         optional_entry ''attemptId'' JString aid @ optional_entry ''error'' JString e
     | StepBlocked sid by_ids \<Rightarrow> [(''kind'', JString ''step_blocked''), (''stepId'', JString sid),
         (''blockedBy'', string_array_json by_ids)]
     | StepAdmitted sid proposer reason \<Rightarrow> [(''kind'', JString ''step_admitted''), (''stepId'', JString sid),
         (''proposedBy'', JString proposer), (''reason'', JString reason)]
     | ArtifactPublished sid aid art out k n \<Rightarrow> [(''kind'', JString ''artifact_published''), (''stepId'', JString sid),
         (''attemptId'', JString aid), (''artifactId'', JString art), (''output'', JString out),
         (''artifactKind'', JString (artifact_kind_text k)), (''sizeBytes'', JNum (of_nat n))]
     | StepIntegrated sid c head \<Rightarrow> [(''kind'', JString ''step_integrated''), (''stepId'', JString sid)] @
         optional_entry ''commit'' JString c @ [(''integrationHead'', JString head)]
     | RunCancellationRequested reason \<Rightarrow> [(''kind'', JString ''run_cancellation_requested''), (''reason'', JString reason)]
     | RunSettled l e \<Rightarrow> [(''kind'', JString ''run_settled''), (''state'', JString (lifecycle_text l))] @
         optional_entry ''error'' JString e)"

definition event_json :: "workflow_event \<Rightarrow> json" where
  "event_json e = JObject ([(''sequence'', JNum (of_nat (event_sequence e))), (''at'', JString (event_at e))] @
     body_json (event_body e))"

definition run_fields :: "run_state \<Rightarrow> json obj" where
  "run_fields s = [(''id'', JString (run_id s)), (''state'', JString (lifecycle_text (run_state s))),
     (''plan'', workflow_plan_json (run_plan s)), (''repositoryRoot'', JString (run_root s)),
     (''baseBranch'', JString (run_base_branch s)), (''baseCommit'', JString (run_base_commit s)),
     (''integrationBranch'', JString (run_branch s)), (''integrationHead'', JString (run_head s)),
     (''capabilityProfiles'', profiles_json (run_profiles s))] @
     optional_entry ''authority'' frozen_authority_json (run_authority s) @
     [(''steps'', JObject (map (\<lambda>(sid, r). (sid, record_json r)) (run_steps s))),
     (''attempts'', JArray (map attempt_json (run_attempts s))),
     (''events'', JArray (map event_json (run_events s))), (''eventSequence'', JNum (of_nat (run_sequence s))),
     (''droppedEvents'', JNum (of_nat (run_dropped s))),
     (''maxConcurrentWorkers'', JNum (of_int (run_max_workers s))),
     (''createdAt'', JString (run_created s)), (''updatedAt'', JString (run_updated s))] @
     optional_entry ''error'' JString (run_error s)"

definition run_json :: "run_state \<Rightarrow> json" where
  "run_json s = JObject (run_fields s)"

subsection \<open>What one attempt and one event must be\<close>

definition MAX_SAFE_INTEGER :: int where "MAX_SAFE_INTEGER = 9007199254740991"

definition attempt_storable :: "run_profiles \<Rightarrow> step_definition \<Rightarrow> step_attempt \<Rightarrow> bool" where
  "attempt_storable ps d a \<longleftrightarrow> attempt_id a \<noteq> [] \<and> attempt_base a \<noteq> [] \<and> attempt_started a \<noteq> [] \<and>
     attempt_branch a \<noteq> Some [] \<and> attempt_finished a \<noteq> Some [] \<and> attempt_commit a \<noteq> Some [] \<and>
     attempt_worker a \<noteq> Some [] \<and> 1 \<le> attempt_number a \<and> int (attempt_number a) \<le> MAX_SAFE_INTEGER \<and>
     attempt_requirement a = step_workspace_requirement ps d \<and>
     (attempt_workspace a = [] \<longleftrightarrow> attempt_requirement a = NoWorkspace) \<and>
     (attempt_branch a \<noteq> None \<longleftrightarrow> attempt_requirement a = Mutable) \<and>
     (attempt_commit a \<noteq> None \<longrightarrow> attempt_requirement a = Mutable) \<and>
     (attempt_state a = AttemptSucceeded \<longrightarrow> attempt_finished a \<noteq> None) \<and>
     if_present (\<lambda>e. wf_evidence e \<and> attempt_commit a \<noteq> None) (attempt_evidence a)"

definition body_storable :: "event_body \<Rightarrow> bool" where
  "body_storable b \<longleftrightarrow> (case b of
       StepLaunched sid aid n r \<Rightarrow> int n \<le> MAX_SAFE_INTEGER
     | StepRetryScheduled sid aid n reason \<Rightarrow> int n \<le> MAX_SAFE_INTEGER
     | ArtifactPublished sid aid art out k n \<Rightarrow> int n \<le> MAX_SAFE_INTEGER
     | _ \<Rightarrow> True)"

definition details_storable :: "run_state \<Rightarrow> bool" where
  "details_storable s \<longleftrightarrow>
     (\<forall>a\<in>set (run_attempts s). \<forall>r. obj_get (run_steps s) (attempt_step a) = Some r \<longrightarrow>
        attempt_storable (run_profiles s) (record_definition r) a) \<and>
     (\<forall>e\<in>set (run_events s). event_at e \<noteq> [] \<and> body_storable (event_body e)) \<and>
     int (run_sequence s) \<le> MAX_SAFE_INTEGER \<and> run_updated s \<noteq> [] \<and>
     (\<forall>sid r. obj_get (run_steps s) sid = Some r \<longrightarrow> record_integrated r = None \<or> record_integration_error r = None)"

text \<open>The part of a run that never changes.\<close>

definition authority_storable :: "(json \<Rightarrow> string) \<Rightarrow> run_state \<Rightarrow> bool" where
  "authority_storable sha s \<longleftrightarrow> (case run_authority s of None \<Rightarrow> True
     | Some a \<Rightarrow> wf_envelope (authority_source a) (authority_envelope_of a) \<and>
         authority_digest a = authority_envelope_digest sha (authority_envelope_of a) \<and>
         capability_profiles_from_envelope (authority_envelope_of a) (run_root s) = Inr (run_profiles s) \<and>
         plan_within (run_plan s) (authority_envelope_of a) (run_root s) (Some (run_profiles s)))"

definition identity_storable :: "run_state \<Rightarrow> bool" where
  "identity_storable s \<longleftrightarrow> run_id_pattern (run_id s) \<and> run_root s \<noteq> [] \<and> run_base_branch s \<noteq> [] \<and>
     run_base_commit s \<noteq> [] \<and> run_branch s \<noteq> [] \<and> run_created s \<noteq> [] \<and> run_branch s \<noteq> run_base_branch s \<and>
     (\<forall>name. sound_profile name (run_profiles s name)) \<and>
     1 \<le> run_max_workers s \<and> run_max_workers s \<le> MAX_CONCURRENT_WORKERS"

subsection \<open>Fields of the documents\<close>

definition optional_value :: "('a \<Rightarrow> json) \<Rightarrow> 'a option \<Rightarrow> json" where
  "optional_value f v = (case v of None \<Rightarrow> JUndefined | Some x \<Rightarrow> f x)"

lemma get_prop_optional_append [simp]:
  "get_prop (optional_entry k f v @ ob) j = (if j = k then (case v of None \<Rightarrow> get_prop ob j | Some x \<Rightarrow> f x) else get_prop ob j)"
  by (simp add: optional_entry_def split: option.split)

lemma get_prop_optional [simp]:
  "get_prop (optional_entry k f v) j = (if j = k then optional_value f v else JUndefined)"
  by (simp add: optional_entry_def optional_value_def split: option.split)

lemma optional_value_undefined [simp]:
  "(optional_value JString v = JUndefined) = (v = None)"
  "(optional_value string_array_json w = JUndefined) = (w = None)"
  "(optional_value evidence_json e = JUndefined) = (e = None)"
  by (simp_all add: optional_value_def string_array_json_def evidence_json_def split: option.split)

lemma optional_string_checks [simp]:
  "assert_optional_string (optional_value JString v) path = Inr () \<longleftrightarrow> v \<noteq> Some []"
  "assert_optional_text (optional_value JString v) path = Inr ()"
  by (auto simp: optional_value_def assert_optional_string_def assert_optional_text_def assert_string_def and_then_Inr
      split: option.split list.split)

lemma json_string_checks [simp]:
  "(\<exists>t. assert_string (JString s) path = Inr t) = (s \<noteq> [])" "is_string (JString s)" "string_of (JString s) = s"
  by (auto simp: assert_string_def is_string_def string_of_def split: list.split)

lemma assert_string_accepts [simp]: "s \<noteq> [] \<Longrightarrow> assert_string (JString s) path = Inr s"
  by (cases s) (simp_all add: assert_string_def)

lemma string_array_checks [simp]:
  "is_array (string_array_json xs)" "items_of (string_array_json xs) = map JString xs"
  "strings_of (string_array_json xs) = xs" "assert_string_array (string_array_json xs) path = Inr ()"
  by (simp_all add: string_array_json_def is_array_def items_of_def strings_of_def assert_string_array_def comp_def
      list_all_iff)

lemma positive_integer_json [simp]:
  "assert_positive_integer (JNum (of_int k)) path = Inr () \<longleftrightarrow> 1 \<le> k \<and> k \<le> MAX_SAFE_INTEGER"
  "assert_counting_integer (JNum (of_int k)) path = Inr () \<longleftrightarrow> 0 \<le> k \<and> k \<le> MAX_SAFE_INTEGER"
  by (auto simp: assert_positive_integer_def assert_counting_integer_def MAX_SAFE_INTEGER_def)

lemma natural_json [simp]:
  "to_int (JNum (of_nat n)) = int n"
  "assert_positive_integer (JNum (of_nat n)) path = Inr () \<longleftrightarrow> 1 \<le> n \<and> int n \<le> MAX_SAFE_INTEGER"
  "assert_counting_integer (JNum (of_nat n)) path = Inr () \<longleftrightarrow> int n \<le> MAX_SAFE_INTEGER"
  using to_int_num[of "int n"] positive_integer_json[of "int n" path] by simp_all

lemma state_texts [simp]:
  "attempt_state_text st = attempt_state_text st' \<longleftrightarrow> st = st'"
  "step_state_text x = step_state_text y \<longleftrightarrow> x = y" "lifecycle_text l = lifecycle_text m \<longleftrightarrow> l = m"
proof -
  show "attempt_state_text st = attempt_state_text st' \<longleftrightarrow> st = st'"
    by (cases st; cases st'; simp add: attempt_state_text_def)
  show "step_state_text x = step_state_text y \<longleftrightarrow> x = y" by (cases x; cases y; simp add: step_state_text_def)
  show "lifecycle_text l = lifecycle_text m \<longleftrightarrow> l = m" by (cases l; cases m; simp add: lifecycle_text_def)
qed

lemma state_in_text [simp]:
  "state_in (JString (attempt_state_text st)) (map attempt_state_text sts) \<longleftrightarrow> st \<in> set sts"
  "state_in (JString (step_state_text x)) (map step_state_text xs) \<longleftrightarrow> x \<in> set xs"
  "state_in (JString (lifecycle_text l)) (map lifecycle_text ls) \<longleftrightarrow> l \<in> set ls"
  by (auto simp: state_in_def)

lemma all_states [simp]: "st \<in> set ATTEMPT_STATES" "x \<in> set STEP_RUN_STATES" "l \<in> set LIFECYCLE_STATES"
proof -
  show "st \<in> set ATTEMPT_STATES" by (cases st; simp add: ATTEMPT_STATES_def)
  show "x \<in> set STEP_RUN_STATES" by (cases x; simp add: STEP_RUN_STATES_def)
  show "l \<in> set LIFECYCLE_STATES" by (cases l; simp add: LIFECYCLE_STATES_def)
qed

lemma requirement_known [simp]: "requirement_text r \<in> set WORKSPACE_TEXTS"
  by (cases r) (simp_all add: WORKSPACE_TEXTS_def WORKSPACE_REQUIREMENTS_def)

lemma requirement_texts [simp]:
  "requirement_text r = ''none'' \<longleftrightarrow> r = NoWorkspace" "requirement_text r = ''mutable'' \<longleftrightarrow> r = Mutable"
  by (cases r; simp add: requirement_text_def)+

lemma attempt_fields:
  defines "ob \<equiv> \<lambda>a. fields_of (attempt_json a)"
  shows "is_record (attempt_json a)" "get_prop (ob a) ''id'' = JString (attempt_id a)"
    "get_prop (ob a) ''stepId'' = JString (attempt_step a)"
    "get_prop (ob a) ''number'' = JNum (of_nat (attempt_number a))"
    "get_prop (ob a) ''state'' = JString (attempt_state_text (attempt_state a))"
    "get_prop (ob a) ''workspaceRequirement'' = JString (requirement_text (attempt_requirement a))"
    "get_prop (ob a) ''workspacePath'' = JString (attempt_workspace a)"
    "get_prop (ob a) ''baseCommit'' = JString (attempt_base a)" "get_prop (ob a) ''startedAt'' = JString (attempt_started a)"
    "get_prop (ob a) ''branch'' = optional_value JString (attempt_branch a)"
    "get_prop (ob a) ''finishedAt'' = optional_value JString (attempt_finished a)"
    "get_prop (ob a) ''summary'' = optional_value JString (attempt_summary a)"
    "get_prop (ob a) ''error'' = optional_value JString (attempt_error a)"
    "get_prop (ob a) ''workerId'' = optional_value JString (attempt_worker a)"
    "get_prop (ob a) ''commit'' = optional_value JString (attempt_commit a)"
    "get_prop (ob a) ''evidence'' = optional_value evidence_json (attempt_evidence a)"
    "get_prop (ob a) ''artifactIds'' = optional_value string_array_json (attempt_artifacts a)"
    "get_prop (ob a) ''workspaceReleaseError'' = optional_value JString (attempt_release_error a)"
  by (simp_all add: ob_def attempt_json_def fields_of_def is_record_def optional_value_def cong: option.case_cong)

lemma check_stored_attempt_json:
  assumes d: "find_step p (attempt_step a) = Some d" "attempt_step a \<noteq> []" and a: "attempt_storable ps d a"
  shows "check_stored_attempt nt p ps path (attempt_json a) = Inr ()"
proof -
  have w: "check_attempt_workspace nt p ps path (fields_of (attempt_json a)) = Inr ()"
    using a d by (auto simp: check_attempt_workspace_def attempt_fields Let_def attempt_storable_def and_then_Inr)
  have "assert_string (optional_value JString (attempt_finished a)) q = Inr (the (attempt_finished a))"
    if "attempt_state a = AttemptSucceeded" for q
    using a that by (auto simp: attempt_storable_def optional_value_def assert_string_def split: option.split list.split)
  then have f: "if get_prop (fields_of (attempt_json a)) ''state'' = JString ''succeeded''
      then and_then (assert_string (get_prop (fields_of (attempt_json a)) ''finishedAt'') q) (\<lambda>_. Inr ()) = Inr ()
      else True" for q
    by (cases "attempt_state a") (simp_all add: attempt_fields attempt_state_text_def)
  have e: "and_then (if optional_value evidence_json (attempt_evidence a) = JUndefined then Inr ()
      else and_then (validate_stored_evidence nt (optional_value evidence_json (attempt_evidence a)) q)
        (\<lambda>_. require (optional_value JString (attempt_commit a) \<noteq> JUndefined) m)) (\<lambda>_. X) = X" for q m X
    using a validate_stored_evidence_json[of _ nt q]
    by (cases "attempt_evidence a") (auto simp: attempt_storable_def optional_value_def evidence_json_def[symmetric] split: option.splits)
  have "check_attempt_results nt path (fields_of (attempt_json a)) = Inr ()"
    using f unfolding check_attempt_results_def attempt_fields e
    by (cases "attempt_artifacts a") (auto simp: optional_value_def attempt_fields split: if_splits)
  then show ?thesis
    using w a d by (simp add: check_stored_attempt_def attempt_fields Let_def and_then_Inr attempt_storable_def)
qed

subsection \<open>The steps of the document\<close>

lemma record_fields:
  defines "ob \<equiv> \<lambda>r. fields_of (record_json r)"
  shows "is_record (record_json r)" "get_prop (ob r) ''definition'' = step_json (record_definition r)"
    "get_prop (ob r) ''state'' = JString (step_state_text (record_state r))"
    "get_prop (ob r) ''attemptIds'' = string_array_json (record_attempts r)"
    "get_prop (ob r) ''integratedCommit'' = optional_value JString (record_integrated r)"
    "get_prop (ob r) ''integrationError'' = optional_value JString (record_integration_error r)"
    "get_prop (ob r) ''error'' = optional_value JString (record_error r)"
  by (simp_all add: ob_def record_json_def fields_of_def is_record_def optional_value_def cong: option.case_cong)

definition steps_json :: "run_state \<Rightarrow> json obj" where
  "steps_json s = map (\<lambda>(sid, r). (sid, record_json r)) (run_steps s)"

lemma steps_json_get: "obj_get (steps_json s) sid = map_option record_json (obj_get (run_steps s) sid)"
  unfolding steps_json_def by (induction "run_steps s") (auto simp: obj_get_def map_of_map)

lemma steps_json_keys: "obj_keys (steps_json s) = obj_keys (run_steps s)"
  by (simp add: steps_json_def obj_keys_def comp_def case_prod_beta)

lemma succeeded_text: "step_state_text x = ''succeeded'' \<longleftrightarrow> x = Succeeded"
  by (cases x) (simp_all add: step_state_text_def)

lemma check_stored_step_json:
  assumes "obj_get (run_steps s) (step_id d) = Some r" and "record_definition r = d"
    and "distinct (record_attempts r)" and "record_integrated r \<noteq> Some []"
    and "record_integrated r = None \<or> record_state r = Succeeded \<and> step_requires_integration ps d"
    and "record_integrated r = None \<or> record_integration_error r = None"
  shows "check_stored_step nt ps (steps_json s) d = Inr ()"
proof -
  have "get_prop (steps_json s) (step_id d) = record_json r"
    using assms(1) by (simp add: get_prop_def steps_json_get)
  then show ?thesis
    using assms(2-6) by (auto simp: check_stored_step_def Let_def record_fields and_then_Inr succeeded_text)
qed

subsection \<open>The timeline of the document\<close>

lemma event_fields:
  "is_record (event_json e)" "fields_of (event_json e) =
     [(''sequence'', JNum (of_nat (event_sequence e))), (''at'', JString (event_at e))] @ body_json (event_body e)"
  by (simp_all add: event_json_def is_record_def fields_of_def)

lemma optional_entry_keys [simp]:
  "set (obj_keys (optional_entry k f v)) = (if v = None then {} else {k})"
  by (cases v) (simp_all add: optional_entry_def obj_keys_def)

lemma obj_keys_simps [simp]:
  "obj_keys [] = []" "obj_keys ((k, v) # ob) = k # obj_keys ob" "obj_keys (a @ b) = obj_keys a @ obj_keys b"
  by (simp_all add: obj_keys_def)

lemma artifact_kind_known: "artifact_kind_text k \<in> set (map artifact_kind_text ARTIFACT_KINDS)"
  by (cases k) (simp_all add: ARTIFACT_KINDS_def)

lemma lifecycle_known: "lifecycle_text l \<in> set (map lifecycle_text LIFECYCLE_STATES)"
  by simp

text \<open>The shape of every kind of event, and its fields in the document.\<close>

definition body_kind :: "event_body \<Rightarrow> string" where
  "body_kind b = (case b of
       StepLaunched _ _ _ _ \<Rightarrow> ''step_launched'' | StepSucceeded _ _ _ \<Rightarrow> ''step_succeeded''
     | StepFailed _ _ _ _ _ \<Rightarrow> ''step_failed'' | StepRetryScheduled _ _ _ _ \<Rightarrow> ''step_retry_scheduled''
     | StepCancelled _ _ _ \<Rightarrow> ''step_cancelled'' | StepBlocked _ _ \<Rightarrow> ''step_blocked''
     | StepAdmitted _ _ _ \<Rightarrow> ''step_admitted'' | ArtifactPublished _ _ _ _ _ _ \<Rightarrow> ''artifact_published''
     | StepIntegrated _ _ _ \<Rightarrow> ''step_integrated'' | RunCancellationRequested _ \<Rightarrow> ''run_cancellation_requested''
     | RunSettled _ _ \<Rightarrow> ''run_settled'')"


definition body_shape :: "event_body \<Rightarrow> event_shape" where
  "body_shape b = the (map_of EVENT_SHAPES (body_kind b))"

lemma event_shape_body: "event_shape_of (body_kind b) = Some (body_shape b)"
  by (cases b) (simp_all add: event_shape_of_def body_shape_def body_kind_def EVENT_SHAPES_def)

lemma body_keys: "set (obj_keys (body_json b)) \<subseteq> set (shape_fields (body_shape b))"
  by (cases b) (simp_all add: body_shape_def body_kind_def EVENT_SHAPES_def body_json_def shape_fields_def no_fields_def)

lemma body_kind_prop: "get_prop (body_json b) ''kind'' = JString (body_kind b)"
  by (cases b) (simp_all add: body_json_def body_kind_def)

lemma failure_class_known: "failure_class_text c \<in> {''retryable'', ''terminal''}"
  by (cases c) (simp_all add: failure_class_text_def)

lemma assert_optional_text_undefined [simp]: "assert_optional_text JUndefined path = Inr ()"
  by (simp add: assert_optional_text_def)

lemma body_checks:
  assumes "body_storable b"
  shows "check_event_fields nt (body_shape b) ((''sequence'', x) # (''at'', y) # body_json b) path = Inr ()"
proof -
  note defs = check_event_fields_def body_shape_def body_kind_def EVENT_SHAPES_def body_json_def no_fields_def and_then_Inr
  have opt: "assert_optional_text (case v of None \<Rightarrow> JUndefined | Some x \<Rightarrow> JString x) q = Inr ()" for v q
    by (cases v) (simp_all add: assert_optional_text_def)
  show ?thesis
    using assms artifact_kind_known lifecycle_known failure_class_known
    by (cases b) (simp_all add: defs body_storable_def opt optional_value_def del: set_map cong: option.case_cong)
qed

lemma validate_event_json:
  assumes "event_at e \<noteq> []" "body_storable (event_body e)" "1 \<le> event_sequence e" "int (event_sequence e) \<le> MAX_SAFE_INTEGER"
  shows "validate_event nt (event_json e) path = Inr (int (event_sequence e))"
proof -
  let ?b = "event_body e"
  have "filter (\<lambda>f. f \<notin> set (shape_fields (body_shape ?b))) (obj_keys (fields_of (event_json e))) = []"
    using body_keys[of ?b] by (auto simp: event_fields filter_empty_conv shape_fields_def)
  then show ?thesis
    using assms body_checks[OF assms(2)] body_kind_prop[of ?b]
    by (simp add: validate_event_def event_fields Let_def event_shape_body and_then_Inr)
qed

lemma check_timeline_json:
  assumes "map event_sequence es = [Suc n ..< Suc (n + length es)]" and "previous \<le> int n"
    and "\<forall>e\<in>set es. event_at e \<noteq> [] \<and> body_storable (event_body e)" and "int (n + length es) \<le> MAX_SAFE_INTEGER"
  shows "check_timeline nt k previous (map event_json es) = Inr (if es = [] then previous else int (n + length es))"
  using assms
proof (induction es arbitrary: n k previous)
  case (Cons e es)
  have "[Suc n ..< Suc (n + length (e # es))] = Suc n # [Suc (Suc n) ..< Suc (Suc n + length es)]"
    by (subst upt_conv_Cons) simp_all
  then have e: "event_sequence e = Suc n" "map event_sequence es = [Suc (Suc n) ..< Suc (Suc n + length es)]"
    using Cons.prems(1) by (simp_all del: upt_Suc)
  have "validate_event nt (event_json e) (at_index ''run.events'' k) = Inr (int (Suc n))"
    using validate_event_json[of e nt] Cons.prems(3,4) e(1) by simp
  moreover have "check_timeline nt (Suc k) (int (Suc n)) (map event_json es) =
      Inr (if es = [] then int (Suc n) else int (Suc n + length es))"
    by (rule Cons.IH[OF e(2)]) (use Cons.prems in simp_all)
  ultimately show ?case using Cons.prems(2) by (simp add: Let_def)
qed simp

lemma run_field_values:
  "get_prop (run_fields s) ''id'' = JString (run_id s)"
  "get_prop (run_fields s) ''state'' = JString (lifecycle_text (run_state s))"
  "get_prop (run_fields s) ''plan'' = workflow_plan_json (run_plan s)"
  "get_prop (run_fields s) ''repositoryRoot'' = JString (run_root s)"
  "get_prop (run_fields s) ''baseBranch'' = JString (run_base_branch s)"
  "get_prop (run_fields s) ''baseCommit'' = JString (run_base_commit s)"
  "get_prop (run_fields s) ''integrationBranch'' = JString (run_branch s)"
  "get_prop (run_fields s) ''integrationHead'' = JString (run_head s)"
  "get_prop (run_fields s) ''capabilityProfiles'' = profiles_json (run_profiles s)"
  "get_prop (run_fields s) ''authority'' = optional_value frozen_authority_json (run_authority s)"
  "get_prop (run_fields s) ''steps'' = JObject (steps_json s)"
  "get_prop (run_fields s) ''attempts'' = JArray (map attempt_json (run_attempts s))"
  "get_prop (run_fields s) ''events'' = JArray (map event_json (run_events s))"
  "get_prop (run_fields s) ''eventSequence'' = JNum (of_nat (run_sequence s))"
  "get_prop (run_fields s) ''droppedEvents'' = JNum (of_nat (run_dropped s))"
  "get_prop (run_fields s) ''maxConcurrentWorkers'' = JNum (of_int (run_max_workers s))"
  "get_prop (run_fields s) ''createdAt'' = JString (run_created s)"
  "get_prop (run_fields s) ''updatedAt'' = JString (run_updated s)"
  "get_prop (run_fields s) ''error'' = optional_value JString (run_error s)"
  by (simp_all add: run_fields_def optional_value_def steps_json_def cong: option.case_cong)

lemma validate_stored_events_json:
  assumes t: "timeline_ok s" and d: "details_storable s"
  shows "validate_stored_events nt (run_fields s) = Inr ()"
proof -
  have seq: "run_sequence s = run_dropped s + length (run_events s)" using t by (simp add: timeline_ok_def)
  have "map event_sequence (run_events s) = [Suc (run_dropped s) ..< Suc (run_dropped s + length (run_events s))]"
    using t by (simp add: timeline_ok_def seq del: upt_Suc)
  then have loop: "check_timeline nt 0 0 (map event_json (run_events s)) =
      Inr (if run_events s = [] then 0 else int (run_sequence s))"
    using check_timeline_json[of "run_events s" "run_dropped s" 0 nt 0] d by (simp add: seq details_storable_def del: upt_Suc)
  have bound: "int (run_sequence s) \<le> MAX_SAFE_INTEGER" using d by (simp only: details_storable_def)
  have dropped: "int (run_dropped s) \<le> MAX_SAFE_INTEGER" using bound seq by linarith
  have counts: "assert_counting_integer (JNum (of_nat (run_sequence s))) q = Inr ()"
    "assert_counting_integer (JNum (of_nat (run_dropped s))) q = Inr ()" for q
    using bound dropped by simp_all
  have "int (run_sequence s) = int (length (run_events s)) + int (run_dropped s)"
    "length (run_events s) \<le> MAX_WORKFLOW_EVENTS" using t by (simp_all add: timeline_ok_def)
  then show ?thesis
    by (simp add: loop counts validate_stored_events_def run_field_values Let_def is_array_def items_of_def)
qed

lemma profiles_of_json_json:
  assumes "\<forall>name. sound_profile name (ps name)"
  shows "profiles_of_json nt (profiles_json ps) = ps"
proof
  fix name
  have "set (profile_capabilities (ps name)) \<subseteq> set STEP_CAPABILITIES" using assms sound_profile_known by blast
  then have "map (\<lambda>c. capability_of (capability_text c)) (profile_capabilities (ps name)) = profile_capabilities (ps name)"
    using capability_of_text by (auto intro!: map_idI)
  moreover have "fields_of (get_prop (fields_of (profiles_json ps)) (profile_text name)) =
      fields_of (stored_profile_json (map capability_text (profile_capabilities (ps name))) (profile_tools (ps name)))"
    by (simp add: profiles_json_def get_prop_stored_profiles)
  ultimately show "profiles_of_json nt (profiles_json ps) name = ps name"
    by (simp add: profiles_of_json_def Let_def stored_profile_json_def fields_of_def comp_def)
qed

lemma check_stored_authority_json:
  assumes "authority_storable sha s" and "run_root s \<noteq> []"
  shows "check_stored_authority sha nt (run_fields s) (run_plan s) = Inr ()"
proof (cases "run_authority s")
  case (Some a)
  have "validate_stored_authority sha (frozen_authority_json a) q = Inr a" for q
    by (rule validate_stored_authority_json) (use assms(1) Some in \<open>simp_all add: authority_storable_def\<close>)
  moreover have "frozen_authority_json a \<noteq> JUndefined" by (simp add: frozen_authority_json_def)
  moreover have "assert_stored_authority_consistency sha a (run_root s) (run_plan s) (run_profiles s) None q = Inr ()" for q
    using assms(1) Some
    by (simp add: authority_storable_def assert_stored_authority_consistency_def same_profiles_def list_all_iff
        plan_authority_issues_Nil[symmetric])
  ultimately show ?thesis
    using assms Some by (simp add: check_stored_authority_def run_field_values optional_value_def authority_storable_def)
qed (simp add: check_stored_authority_def run_field_values optional_value_def)

subsection \<open>Steps and attempts under the invariant\<close>

lemma plan_record:
  assumes g: "graph_ok s" and d: "d \<in> set (plan_steps (run_plan s))"
  shows "\<exists>r. obj_get (run_steps s) (step_id d) = Some r \<and> record_definition r = d"
proof -
  have "step_id d \<in> set (obj_keys (run_steps s))" using d graph_ok_keys[OF g] by simp
  then obtain r where r: "obj_get (run_steps s) (step_id d) = Some r" using obj_key_get by blast
  have "distinct (map step_id (plan_steps (run_plan s)))" using g by (simp add: graph_ok_def wf_workflow_planD)
  then have "record_definition r = d" using graph_ok_record[OF g r] d by (auto simp: distinct_map dest: inj_onD)
  with r show ?thesis by blast
qed

lemma find_step_record:
  assumes g: "graph_ok s" and r: "obj_get (run_steps s) sid = Some r"
  shows "find_step (run_plan s) sid = Some (record_definition r)"
proof -
  note d = graph_ok_record[OF g r]
  then obtain q where q: "find_step (run_plan s) sid = Some q"
    by (cases "find_step (run_plan s) sid") (auto simp: find_step_def find_None_iff)
  have "distinct (map step_id (plan_steps (run_plan s)))" using g by (simp add: graph_ok_def wf_workflow_planD)
  then have "q = record_definition r" using find_step_plan[OF q] d by (auto simp: distinct_map dest: inj_onD)
  with q show ?thesis by simp
qed

lemma find_step_no_record:
  assumes "graph_ok s" and "obj_get (run_steps s) sid = None"
  shows "find_step (run_plan s) sid = None"
  using assms graph_ok_keys[OF assms(1)] find_step_plan[of "run_plan s" sid] obj_get_None_iff[of "run_steps s" sid]
  by (cases "find_step (run_plan s) sid") auto

lemma record_listed:
  assumes "run_ok s" and "obj_get (run_steps s) sid = Some r"
  shows "record_attempts r = map attempt_id (attempts_of s sid)" "distinct (record_attempts r)"
proof -
  show e: "record_attempts r = map attempt_id (attempts_of s sid)"
    using run_ok_record[OF assms] by (simp add: record_ok_def)
  have "distinct (map attempt_id (run_attempts s))" using assms(1) by (simp add: run_ok_def store_ok_def attempts_known_def)
  then show "distinct (record_attempts r)" by (simp add: e attempts_of_def distinct_map_filter_fst)
qed

lemma validate_stored_steps_json:
  assumes ok: "run_ok s" and d: "details_storable s"
  shows "validate_stored_steps nt (run_fields s) (run_plan s) (run_profiles s) = Inr ()"
proof -
  have g: "graph_ok s" by (rule run_ok_graph[OF ok])
  have "check_stored_step nt (run_profiles s) (steps_json s) st = Inr ()" if st: "st \<in> set (plan_steps (run_plan s))" for st
  proof -
    obtain r where r: "obj_get (run_steps s) (step_id st) = Some r" "record_definition r = st"
      using plan_record[OF g st] by blast
    have "record_ok (run_profiles s) r (attempts_of s (step_id st))" by (rule run_ok_record[OF ok r(1)])
    then have "record_integrated r = None \<or> record_state r = Succeeded \<and> step_requires_integration (run_profiles s) st"
      "record_integrated r \<noteq> Some []" using r(2) by (auto simp: record_ok_def truthy_def)
    then show ?thesis
      using check_stored_step_json[OF r record_listed(2)[OF ok r(1)]] d r(1) by (auto simp: details_storable_def)
  qed
  moreover have "length (obj_keys (steps_json s)) = length (plan_steps (run_plan s))"
    by (simp add: steps_json_keys graph_ok_keys[OF g])
  ultimately show ?thesis by (simp add: validate_stored_steps_def run_field_values is_record_def fields_of_def)
qed

lemma distinct_pairs_by_owner:
  assumes "\<And>k. distinct (map n (filter (\<lambda>a. f a = k) xs))"
  shows "distinct (map (\<lambda>a. (f a, n a)) xs)"
  using assms
proof (induction xs)
  case (Cons x xs)
  have "distinct (map n (filter (\<lambda>a. f a = k) xs))" for k using Cons.prems[of k] by (simp split: if_splits)
  moreover have "(f x, n x) \<notin> set (map (\<lambda>a. (f a, n a)) xs)" using Cons.prems[of "f x"] by auto
  ultimately show ?case using Cons.IH by simp
qed simp

lemma distinct_active_owners:
  assumes "\<And>k. length (filter P (filter (\<lambda>a. f a = k) xs)) \<le> 1"
  shows "distinct (map f (filter P xs))"
  using assms
proof (induction xs)
  case (Cons x xs)
  have "length (filter P (filter (\<lambda>a. f a = k) xs)) \<le> 1" for k
    using Cons.prems[of k] by (simp split: if_splits)
  moreover have "f x \<notin> f ` set (filter P xs)" if "P x"
    using Cons.prems[of "f x"] that by (auto simp: filter_empty_conv)
  ultimately show ?case using Cons.IH by auto
qed simp

lemma one_active:
  assumes "run_ok s"
  shows "length (filter active (attempts_of s sid)) \<le> 1"
proof (cases "obj_get (run_steps s) sid")
  case None
  then have "attempts_of s sid = []"
    using assms obj_get_None_iff[of "run_steps s" sid]
    by (auto simp: run_ok_def store_ok_def attempts_known_def attempts_of_def filter_empty_conv)
  then show ?thesis by simp
next
  case (Some r)
  then have "\<forall>a\<in>set (butlast (attempts_of s sid)). \<not> active a"
    using run_ok_record[OF assms] by (auto simp: record_ok_def)
  then show ?thesis by (cases "attempts_of s sid" rule: rev_cases) (auto simp: filter_empty_conv)
qed

lemma attempt_json_keys:
  "attempt_key (attempt_json a) = attempt_id a" "attempt_owner (attempt_json a) = attempt_step a"
  "attempt_count (attempt_json a) = int (attempt_number a)" "attempt_in_flight (attempt_json a) \<longleftrightarrow> active a"
  by (simp_all add: attempt_key_def attempt_owner_def attempt_count_def attempt_in_flight_def attempt_fields active_def
      is_active_attempt_state_def)

lemma attempt_numbers_distinct:
  assumes "run_ok s"
  shows "distinct (map attempt_number (attempts_of s sid))"
proof (cases "obj_get (run_steps s) sid")
  case None
  then have "attempts_of s sid = []"
    using assms obj_get_None_iff[of "run_steps s" sid]
    by (auto simp: run_ok_def store_ok_def attempts_known_def attempts_of_def filter_empty_conv)
  then show ?thesis by simp
next
  case (Some r)
  then have "map attempt_number (attempts_of s sid) = [1 ..< Suc (length (attempts_of s sid))]"
    using run_ok_record[OF assms] by (auto simp: record_ok_def)
  then show ?thesis by (simp del: upt_Suc)
qed

lemma scan_json_ok:
  assumes ok: "run_ok s"
  shows "scan_ok (scanned \<lparr>scan_steps = [], scan_numbers = [], scan_active = []\<rparr> (map attempt_json (run_attempts s)))"
proof -
  have "distinct (map attempt_id (run_attempts s))" using ok by (simp add: run_ok_def store_ok_def attempts_known_def)
  moreover have "distinct (map (\<lambda>a. (attempt_step a, attempt_number a)) (run_attempts s))"
    by (rule distinct_pairs_by_owner) (use attempt_numbers_distinct[OF ok] in \<open>simp add: attempts_of_def\<close>)
  then have "distinct (map (\<lambda>a. (attempt_step a, int (attempt_number a))) (run_attempts s))"
    by (auto simp: distinct_map inj_on_def)
  moreover have "distinct (map attempt_step (filter active (run_attempts s)))"
    by (rule distinct_active_owners) (use one_active[OF ok] in \<open>simp add: attempts_of_def\<close>)
  ultimately show ?thesis
    by (simp add: scan_ok_def scanned_def comp_def attempt_json_keys filter_map)
qed

lemma referenced_json:
  assumes ok: "run_ok s"
  shows "set (referenced_attempts (steps_json s)) = attempt_id ` set (run_attempts s)"
    "(sid, v) \<in> set (steps_json s) \<Longrightarrow> \<exists>r. obj_get (run_steps s) sid = Some r \<and> v = record_json r \<and>
      strings_of (get_prop (fields_of v) ''attemptIds'') = map attempt_id (attempts_of s sid)"
proof -
  note g = run_ok_graph[OF ok]
  show entry: "\<exists>r. obj_get (run_steps s) sid = Some r \<and> v = record_json r \<and>
      strings_of (get_prop (fields_of v) ''attemptIds'') = map attempt_id (attempts_of s sid)"
    if "(sid, v) \<in> set (steps_json s)" for sid v
  proof -
    from that obtain r where r: "(sid, r) \<in> set (run_steps s)" "v = record_json r" by (auto simp: steps_json_def)
    then have "obj_get (run_steps s) sid = Some r" using obj_entries_get[OF graph_ok_distinct[OF g]] by simp
    with r(2) record_listed(1)[OF ok this] show ?thesis by (simp add: record_fields)
  qed
  show "set (referenced_attempts (steps_json s)) = attempt_id ` set (run_attempts s)"
  proof
    show "set (referenced_attempts (steps_json s)) \<subseteq> attempt_id ` set (run_attempts s)"
      using entry by (fastforce simp: referenced_attempts_def attempts_of_def)
    show "attempt_id ` set (run_attempts s) \<subseteq> set (referenced_attempts (steps_json s))"
    proof
      fix i assume "i \<in> attempt_id ` set (run_attempts s)"
      then obtain a where a: "a \<in> set (run_attempts s)" "i = attempt_id a" by blast
      then have "attempt_step a \<in> set (obj_keys (run_steps s))"
        using ok by (simp add: run_ok_def store_ok_def attempts_known_def)
      then obtain r where r: "obj_get (run_steps s) (attempt_step a) = Some r" using obj_key_get by blast
      then have "(attempt_step a, record_json r) \<in> set (steps_json s)"
        using obj_get_entry[OF r] by (force simp: steps_json_def)
      moreover from entry[OF this] have "i \<in> set (strings_of (get_prop (fields_of (record_json r)) ''attemptIds''))"
        using a by (auto simp: attempts_of_def)
      ultimately show "i \<in> set (referenced_attempts (steps_json s))" by (force simp: referenced_attempts_def)
    qed
  qed
qed

lemma slots_json:
  assumes ok: "run_ok s"
  shows "int (slots_taken (run_plan s) (run_profiles s) (map attempt_json (run_attempts s))) \<le> run_max_workers s"
proof -
  note g = run_ok_graph[OF ok]
  have "(case find_step (run_plan s) sid of None \<Rightarrow> False | Some d \<Rightarrow> step_consumes_worker_slot (run_profiles s) d) =
      consumes_slot s sid" for sid
    using find_step_record[OF g, of sid] find_step_no_record[OF g, of sid]
    by (cases "obj_get (run_steps s) sid") (simp_all add: consumes_slot_def)
  moreover have "map attempt_owner (filter attempt_in_flight (map attempt_json (run_attempts s))) = active_step_ids s"
    by (simp add: filter_map comp_def attempt_json_keys active_step_ids_def active_attempts_def active_def)
  ultimately show ?thesis using ok by (simp add: slots_taken_def run_ok_def store_ok_def slots_ok_def)
qed

lemma validate_stored_attempts_json:
  assumes ok: "run_ok s" and d: "details_storable s"
  shows "validate_stored_attempts nt (run_fields s) (run_plan s) (run_profiles s) = Inr ()"
proof -
  let ?empty = "\<lparr>scan_steps = [], scan_numbers = [], scan_active = []\<rparr>"
  let ?vs = "map attempt_json (run_attempts s)" and ?acc = "scanned ?empty (map attempt_json (run_attempts s))"
  note g = run_ok_graph[OF ok]
  have known: "\<exists>r. obj_get (run_steps s) (attempt_step a) = Some r" if "a \<in> set (run_attempts s)" for a
    using ok that obj_key_get by (auto simp: run_ok_def store_ok_def attempts_known_def)
  have "check_stored_attempt nt (run_plan s) (run_profiles s) path (attempt_json a) = Inr ()"
    if a: "a \<in> set (run_attempts s)" for a path
  proof -
    obtain r where r: "obj_get (run_steps s) (attempt_step a) = Some r" using known[OF a] by blast
    have "wf_workflow_plan (run_plan s)" using g by (simp add: graph_ok_def)
    then have "attempt_step a \<noteq> []"
      using obj_get_Some_key[OF r] wf_workflow_planD(3) unfolding graph_ok_keys[OF g] by metis
    then show ?thesis using check_stored_attempt_json[OF find_step_record[OF g r]] d a r by (simp add: details_storable_def)
  qed
  then have "check_attempts nt (run_plan s) (run_profiles s) 0 ?empty ?vs = Inr ?acc"
    using check_attempts_Inr[of ?empty nt "run_plan s" "run_profiles s" 0 ?vs ?acc] scan_json_ok[OF ok]
    by (simp add: scan_ok_def)
  moreover have steps: "scan_steps ?acc = map (\<lambda>a. (attempt_id a, attempt_step a)) (run_attempts s)"
    "scan_active ?acc = map attempt_owner (filter attempt_in_flight ?vs)"
    by (simp_all add: scanned_def comp_def attempt_json_keys)
  have dist: "distinct (map attempt_id (run_attempts s))" using ok by (simp add: run_ok_def store_ok_def attempts_known_def)
  moreover have "\<forall>entry\<in>set (steps_json s). check_references ?acc entry = Inr ()"
  proof
    fix entry assume e: "entry \<in> set (steps_json s)"
    obtain sid v where sv: "entry = (sid, v)" by (cases entry)
    have "map_of (scan_steps ?acc) i = Some sid" if "i \<in> set (map attempt_id (attempts_of s sid))" for i
      unfolding steps(1) using that dist by (subst map_of_eq_Some_iff) (auto simp: comp_def attempts_of_def)
    then show "check_references ?acc entry = Inr ()"
      using referenced_json(2)[OF ok, of sid v] e by (auto simp: check_references_def sv)
  qed
  moreover have "set_size (referenced_attempts (steps_json s)) = length (scan_steps ?acc)"
    using distinct_card[OF dist] referenced_json(1)[OF ok]
    by (simp add: set_size_def length_remdups_card_conv steps)
  moreover note slots_json[OF ok]
  ultimately show ?thesis
    by (simp add: validate_stored_attempts_def run_field_values is_array_def items_of_def fields_of_def Let_def and_then_Inr
        slots_taken_def steps(2))
qed

subsection \<open>Integration under the invariant\<close>

lemma prefix_commits:
  fixes commit :: "string \<Rightarrow> string option"
  assumes "\<forall>us i vs. ids = us @ i # vs \<longrightarrow> commit i \<noteq> None \<longrightarrow> (\<forall>u\<in>set us. must u \<longrightarrow> commit u \<noteq> None)"
    and "\<And>i. commit i \<noteq> None \<Longrightarrow> must i"
  shows "commit_prefix (JString h) (JString (last (h # List.map_filter commit ids))) False
    (map (\<lambda>i. optional_value JString (commit i)) (filter must ids))"
  using assms(1)
proof (induction ids arbitrary: h)
  case (Cons i ids)
  have tail: "\<forall>us j vs. ids = us @ j # vs \<longrightarrow> commit j \<noteq> None \<longrightarrow> (\<forall>u\<in>set us. must u \<longrightarrow> commit u \<noteq> None)"
    using Cons.prems by (metis append_Cons list.set_intros(2))
  consider (commit) c where "commit i = Some c" "must i" | (gap) "commit i = None" "must i" | (other) "\<not> must i" "commit i = None"
    using assms(2) by (cases "commit i") auto
  then show ?case
  proof cases
    case commit
    then show ?thesis
      using Cons.IH[OF tail, of c] by (simp add: map_filter_simps optional_value_def commit_prefix_commit)
  next
    case gap
    have none: "commit j = None" if member: "j \<in> set ids" for j
    proof (rule ccontr)
      assume j: "commit j \<noteq> None"
      obtain us vs where "ids = us @ j # vs" using split_list[OF member] by blast
      then have "i # ids = (i # us) @ j # vs" by simp
      with Cons.prems j gap show False by (metis list.set_intros(1))
    qed
    then have "List.map_filter commit ids = []" by (rule map_filter_none)
    with none gap show ?thesis
      by (auto simp: map_filter_simps optional_value_def commit_prefix_True)
  next
    case other
    then show ?thesis using Cons.IH[OF tail] by (simp add: map_filter_simps)
  qed
qed (simp add: map_filter_simps)

lemma mutating_commits_json:
  assumes g: "graph_ok s"
  shows "mutating_commits (run_plan s) (run_profiles s) (steps_json s) ids =
    map (\<lambda>i. optional_value JString (commit_of s i)) (filter (must_integrate s) ids)"
proof (induction ids)
  case (Cons i ids)
  show ?case
  proof (cases "obj_get (run_steps s) i")
    case None
    then show ?thesis
      using Cons find_step_no_record[OF g None] by (simp add: mutating_commits_def map_filter_simps must_integrate_def)
  next
    case (Some r)
    then show ?thesis
      using Cons find_step_record[OF g Some]
      by (simp add: mutating_commits_def map_filter_simps must_integrate_def steps_json_get stored_commit_def
          record_fields commit_of_def)
  qed
qed (simp add: mutating_commits_def map_filter_simps)

lemma stored_prefix_json:
  assumes ok: "run_ok s" and head: "head_ok (run_base_commit s) s"
  shows "commit_prefix (JString (run_base_commit s)) (JString (run_head s)) False
    (mutating_commits (run_plan s) (run_profiles s) (steps_json s) (topological_step_ids (run_plan s)))"
proof -
  have int: "commit_of s i \<noteq> None \<longleftrightarrow> integrated s i" for i
    by (auto simp: commit_of_def integrated_def split: option.split)
  have must: "must_integrate s i" if "integrated s i" for i
  proof -
    obtain r where r: "obj_get (run_steps s) i = Some r" "record_integrated r \<noteq> None"
      using \<open>integrated s i\<close> by (auto simp: integrated_def)
    then show ?thesis using run_ok_record[OF ok r(1)] by (auto simp: record_ok_def must_integrate_def)
  qed
  have "integrated_prefix s" using ok by (simp add: run_ok_def store_ok_def)
  then have "\<forall>us i vs. topological_step_ids (run_plan s) = us @ i # vs \<longrightarrow> commit_of s i \<noteq> None \<longrightarrow>
      (\<forall>u\<in>set us. must_integrate s u \<longrightarrow> commit_of s u \<noteq> None)"
    unfolding integrated_prefix_def int by blast
  from prefix_commits[OF this] int must head show ?thesis
    by (simp add: mutating_commits_json[OF run_ok_graph[OF ok]] head_ok_def integrated_commits_def)
qed

definition completed_done :: "run_state \<Rightarrow> bool" where
  "completed_done s \<longleftrightarrow> (run_state s = RunCompleted \<longrightarrow> (\<forall>sid\<in>set (obj_keys (run_steps s)). step_done s sid))"

lemma validate_stored_integration_json:
  assumes ok: "run_ok s" and head: "head_ok (run_base_commit s) s" and fin: "completed_done s"
    and branch: "run_branch s \<noteq> run_base_branch s"
  shows "validate_stored_integration nt (run_fields s) (run_plan s) (run_profiles s) = Inr ()"
proof -
  note g = run_ok_graph[OF ok]
  have "check_completed_step nt (run_plan s) (run_profiles s) entry = Inr ()"
    if all: "run_state s = RunCompleted" "entry \<in> set (steps_json s)" for entry
  proof -
    obtain sid r where e: "entry = (sid, record_json r)" "(sid, r) \<in> set (run_steps s)" using all(2) by (auto simp: steps_json_def)
    then have r: "obj_get (run_steps s) sid = Some r" using obj_entries_get[OF graph_ok_distinct[OF g]] by simp
    then have "step_done s sid" using fin all(1) obj_get_Some_key[OF r] by (simp add: completed_done_def)
    then show ?thesis
      using r find_step_record[OF g r]
      by (auto simp: check_completed_step_def e(1) record_fields step_done_def succeeded_text and_then_Inr Let_def)
  qed
  moreover have "lifecycle_text l = ''completed'' \<longleftrightarrow> l = RunCompleted" for l by (cases l) (simp_all add: lifecycle_text_def)
  ultimately show ?thesis
    using stored_prefix_json[OF ok head] branch
    by (auto simp: validate_stored_integration_def run_field_values fields_of_def Let_def and_then_Inr check_prefix_Inr)
qed

subsection \<open>The store takes the run\<close>

lemma stored_run_accepted:
  assumes ok: "run_ok s" and head: "head_ok (run_base_commit s) s" and fin: "completed_done s"
    and static: "identity_storable s" "authority_storable sha s" and d: "details_storable s"
    and rev: "0 \<le> revision" "revision \<le> MAX_SAFE_INTEGER"
  shows "validate_stored_workflow_run sha nt (stored_envelope revision (run_json s)) = Inr ()"
proof -
  have wf: "wf_workflow_plan (run_plan s)" using run_ok_graph[OF ok] by (simp add: graph_ok_def)
  have ps: "\<forall>name. sound_profile name (run_profiles s name)" and rid: "run_id_pattern (run_id s)" "run_id s \<noteq> []"
    and w: "1 \<le> run_max_workers s" "run_max_workers s \<le> MAX_CONCURRENT_WORKERS"
    using static(1) by (auto simp: identity_storable_def run_id_pattern_def)
  have caps: "assert_capability_profiles nt (profiles_json (run_profiles s)) q = Inr ()" for q
    using profiles_json_accepted[of "run_profiles s"] ps sound_profile_known by blast
  have safe: "is_safe_integer (JNum (of_int (run_max_workers s)))"
    using w by (simp add: MAX_CONCURRENT_WORKERS_def)
  have texts: "each_check (\<lambda>f. and_then (assert_string (get_prop (run_fields s) f) (at_field ''run'' f)) (\<lambda>_. Inr ()))
      RUN_TEXT_FIELDS = Inr ()"
    using static(1) ok d by (simp add: RUN_TEXT_FIELDS_def run_field_values identity_storable_def run_ok_def details_storable_def)
  have auth: "check_stored_authority sha nt (run_fields s) (run_plan s) = Inr ()"
    by (rule check_stored_authority_json[OF static(2)]) (use static(1) in \<open>simp add: identity_storable_def\<close>)
  have integration: "validate_stored_integration nt (run_fields s) (run_plan s) (run_profiles s) = Inr ()"
    by (rule validate_stored_integration_json[OF ok head fin]) (use static(1) in \<open>simp add: identity_storable_def\<close>)
  have timeline: "validate_stored_events nt (run_fields s) = Inr ()"
    by (rule validate_stored_events_json[OF _ d]) (use ok in \<open>simp add: run_ok_def\<close>)
  have "check_stored_run sha nt (run_fields s) = Inr ()"
    by (simp add: check_stored_run_def run_field_values profiles_of_json_json[OF ps] Let_def rid w caps safe texts auth
        validate_workflow_plan_json[OF wf] validate_stored_steps_json[OF ok d] validate_stored_attempts_json[OF ok d]
        integration timeline del: is_safe_integer_num each_check_Inr)
  moreover have "assert_counting_integer (JNum (of_int revision)) q = Inr ()" for q using rev by simp
  ultimately show ?thesis
    by (simp add: validate_stored_workflow_run_def stored_envelope_def is_record_def fields_of_def run_json_def Let_def
        WORKFLOW_RUN_SCHEMA_VERSION_def del: positive_integer_json)
qed

subsection \<open>Every run the engine reaches\<close>

lemma frozen_identity: "keeps_frozen s t \<Longrightarrow> identity_storable s \<Longrightarrow> identity_storable t"
  by (simp add: keeps_frozen_def frozen_part_def identity_storable_def)

lemma authority_same_plan:
  assumes "keeps_frozen s t" and "run_plan t = run_plan s"
  shows "authority_storable sha t = authority_storable sha s"
  using assms by (simp add: keeps_frozen_def frozen_part_def authority_storable_def split: option.split)

lemma engine_step_plan: "engine_step e e' \<Longrightarrow> run_plan (eng_run e') = run_plan (eng_run e)"
proof (induction rule: engine_step.induct)
  case (attempt_missing e sid updated time s)
  then show ?case by (auto simp: fail_step_def and_then_Inr update_step_Inr Let_def)
next
  case (integrated e sid a head commit updated time s)
  then show ?case by (auto simp: integrate_step_def and_then_Inr update_step_Inr)
next
  case (integration_failed e sid a head problem updated time s)
  then show ?case by (auto simp: fail_integration_def and_then_Inr update_step_Inr Let_def)
next
  case (not_prepared e sid ids message updated time s)
  then show ?case by (auto simp: fail_step_def and_then_Inr update_step_Inr Let_def)
next
  case (reserved e a ids updated time s)
  then show ?case by (auto simp: reserve_attempt_def and_then_Inr update_step_Inr split: if_splits)
next
  case (discarded e a ids updated time s)
  then show ?case by (auto simp: reserve_attempt_def and_then_Inr update_step_Inr split: if_splits)
next
  case (launched e a ids updated)
  then show ?case by (simp add: mark_attempt_running_def update_step_attempt_def)
next
  case (settled_run e updated time)
  then show ?case by (simp add: settle_run_fields)
next
  case (settled_step a e executed routed result ids events updated time s)
  show ?case by (rule settle_attempt_Inr[OF settled_step(3)]) (simp add: concluded_def)
qed simp_all

lemma admitted_authority:
  assumes g: "graph_ok s" and t: "admit_steps s request time = Inr t" and a: "authority_storable sha s"
  shows "authority_storable sha t"
proof (rule admit_steps_Inr[OF g t])
  fix f extra
  assume f: "run_authority s = Some f" "plan_within (run_plan (grown_run s extra time)) (authority_envelope_of f) (run_root s)
      (Some (run_profiles s))"
    "t = append_workflow_events (reconcile_workflow_steps (grown_run s extra time))
       (map (\<lambda>d. StepAdmitted (step_id d) (request_by request) (request_reason request)) extra) time"
  show ?thesis using a f(1,2) by (simp add: authority_storable_def f(3) grown_run_def)
qed

lemma outside_step_authority:
  assumes st: "outside_step e e'" and ok: "engine_ok e" and a: "authority_storable sha (eng_run e)"
  shows "authority_storable sha (eng_run e')"
  using st
proof cases
  case (admitted b request time s)
  have "graph_ok (eng_run e)" using ok run_ok_graph by (simp add: engine_ok_def)
  from admitted_authority[OF this admitted(4) a] show ?thesis by (simp add: admitted(1))
next
  case (cancel_requested reason time)
  have "run_plan (request_cancellation (eng_run e) reason time) = run_plan (eng_run e)"
    by (simp add: request_cancellation_def)
  from authority_same_plan[OF request_cancellation_frozen this] a show ?thesis by (simp add: cancel_requested(1))
qed (simp add: a)

lemma engine_reachable_authority:
  "engine_reachable s e \<Longrightarrow> startable_run s \<Longrightarrow> authority_storable sha s \<Longrightarrow> authority_storable sha (eng_run e)"
proof (induction rule: engine_reachable.induct)
  case start
  then show ?case by (simp add: engine_start_def)
next
  case (step e e')
  then show ?case using authority_same_plan[OF engine_step_frozen[OF step(2)] engine_step_plan[OF step(2)]] by blast
next
  case (outside e e')
  then show ?case using outside_step_authority engine_reachable_ok by blast
qed

text \<open>
  When the loop is about to settle an idle run nothing is left to integrate, aborted or not; so a run
  it completes has every step done.
\<close>

definition idle_integrated :: "engine \<Rightarrow> bool" where
  "idle_integrated e \<longleftrightarrow> (eng_pc e = Race \<and> eng_racing e = [] \<longrightarrow> choose_integration (eng_run e) = NothingToIntegrate)"

lemma fail_step_state:
  assumes t: "fail_step s sid message updated time = Inr t"
  shows "run_state t = RunCancelled \<or> run_state t = RunFailed"
  by (rule fail_step_Inr[OF t]) (simp add: concluded_def)

lemma engine_step_idle:
  assumes st: "engine_step e e'" and ok: "engine_ok e" and i: "idle_integrated e"
  shows "idle_integrated e'"
  using st
proof cases
  case (not_dispatched l)
  then show ?thesis using ok by (simp add: idle_integrated_def engine_ok_def)
next
  case all_dispatched
  then show ?thesis using ok by (simp add: idle_integrated_def engine_ok_def settled_choice_def)
next
  case (not_prepared sid ids message updated time s)
  have "run_state s \<noteq> RunRunning" using fail_step_state[OF not_prepared(3)] by auto
  then show ?thesis by (simp add: not_prepared(1) idle_integrated_def choose_integration_def)
next
  case (discarded a ids updated time s)
  then show ?thesis using discarded_impossible[OF ok discarded(2) _ discarded(3)] by (auto simp: idle_integrated_def)
next
  case (settled_step a executed routed result ids events updated time s)
  have "attempt_id a \<in> set (eng_racing e)" using ok settled_step(2) by (auto simp: engine_ok_def)
  then show ?thesis by (auto simp: idle_integrated_def settled_step(1))
qed (simp_all add: idle_integrated_def)

lemma outside_step_idle:
  assumes st: "outside_step e e'" and ok: "engine_ok e" and i: "idle_integrated e"
  shows "idle_integrated e'"
  using st
proof cases
  case (admitted a request time s)
  have "attempt_id a \<in> set (eng_racing e)" using ok admitted(2) by (auto simp: engine_ok_def)
  then show ?thesis by (auto simp: idle_integrated_def admitted(1))
qed (use i in \<open>simp_all add: idle_integrated_def request_cancellation_def append_event_choose\<close>)

lemma next_integrable_all:
  assumes "next_integrable ps steps ids = None" and "\<forall>i\<in>set ids. \<forall>r. obj_get steps i = Some r \<longrightarrow> record_state r = Succeeded"
  shows "\<forall>i\<in>set ids. \<forall>r. obj_get steps i = Some r \<longrightarrow> step_requires_integration ps (record_definition r) \<longrightarrow>
    truthy (record_integrated r)"
  using assms by (induction ids) (auto split: option.splits if_splits)

lemma settled_completed_done:
  assumes ok: "run_ok s" and run: "run_state s = RunRunning" and none: "choose_integration s = NothingToIntegrate"
  shows "completed_done (settle_run s c updated time)"
  unfolding completed_done_def
proof (intro impI ballI)
  let ?C = "closed_steps s c" and ?t = "settle_run s c updated time"
  note g = run_ok_graph[OF ok]
  assume comp: "run_state ?t = RunCompleted"
  then have all: "\<forall>st\<in>set (map record_state (obj_values (run_steps ?C))). st = Succeeded"
    by (simp add: settle_run_fields run settled_run_state_completed)
  have closed: "\<exists>q. obj_get (run_steps ?C) i = Some q \<and> record_state q = Succeeded" if "i \<in> set (obj_keys (run_steps s))" for i
  proof -
    have "i \<in> set (obj_keys (run_steps ?C))" using that by simp
    then obtain q where q: "obj_get (run_steps ?C) i = Some q" using obj_key_get by blast
    then have "q \<in> set (obj_values (run_steps ?C))" using obj_get_entry[OF q] by (force simp: obj_values_def)
    with all q show ?thesis by auto
  qed
  have old: "record_state r = Succeeded \<and> obj_get (run_steps ?C) i = Some r" if r: "obj_get (run_steps s) i = Some r" for i r
  proof -
    obtain q where q: "obj_get (run_steps ?C) i = Some q" "record_state q = Succeeded"
      using closed[OF obj_get_Some_key[OF r]] by blast
    let ?p = "r\<lparr>record_state := next_step_state (run_profiles s) r (run_steps (reconcile_workflow_steps s))\<rparr>"
    have p: "obj_get (run_steps (reconcile_workflow_steps s)) i = Some ?p" by (rule reconcile_get[OF g r])
    have "q = ?p"
      using q p by (auto simp: closed_steps_def cancel_unfinished_get cancelled_record_def split: if_splits)
    moreover have "record_state ?p = Succeeded \<Longrightarrow> record_state r = Succeeded"
      using next_step_state_waiting[of "run_profiles s" r "run_steps (reconcile_workflow_steps s)"] by (auto simp: waiting_def)
    ultimately show ?thesis using q by auto
  qed
  fix sid assume "sid \<in> set (obj_keys (run_steps ?t))"
  then have sid: "sid \<in> set (obj_keys (run_steps s))" by (simp add: settle_run_fields)
  then obtain r where r: "obj_get (run_steps s) sid = Some r" using obj_key_get by blast
  have "next_integrable (run_profiles s) (run_steps s) (topological_step_ids (run_plan s)) = None"
    using none run by (auto simp: choose_integration_def next_integrable_step_id_def split: option.splits)
  then have "step_requires_integration (run_profiles s) (record_definition r) \<longrightarrow> truthy (record_integrated r)"
    using next_integrable_all old r sid graph_ok_order(2)[OF g] by blast
  then show "step_done ?t sid"
    using old[OF r] truthy_not_None by (auto simp: step_done_def settle_run_fields)
qed

definition completion_ok :: "engine \<Rightarrow> bool" where
  "completion_ok e \<longleftrightarrow> idle_integrated e \<and> completed_done (eng_run e) \<and>
     (eng_pc e = Done \<or> run_state (eng_run e) \<noteq> RunCompleted)"

lemma engine_step_not_completed:
  assumes st: "engine_step e e'" and c: "run_state (eng_run e) \<noteq> RunCompleted" and pc: "eng_pc e' \<noteq> Done"
  shows "run_state (eng_run e') \<noteq> RunCompleted"
  using st
proof cases
  case (attempt_missing sid updated time s)
  have "run_state s \<noteq> RunCompleted" using fail_step_state attempt_missing by fastforce
  then show ?thesis by (simp add: attempt_missing(1))
next
  case (integrated sid a head commit updated time s)
  then show ?thesis using c by (auto simp: integrate_step_def and_then_Inr update_step_Inr)
next
  case (integration_failed sid a head problem updated time s)
  then show ?thesis by (auto simp: fail_integration_def and_then_Inr update_step_Inr Let_def split: if_splits)
next
  case (not_prepared sid ids message updated time s)
  have "run_state s \<noteq> RunCompleted" using fail_step_state[OF not_prepared(3)] by auto
  then show ?thesis by (simp add: not_prepared(1))
next
  case (reserved a ids updated time s)
  have "run_state s = run_state (eng_run e)" using reserved(3) by (auto simp: reserve_attempt_def and_then_Inr update_step_Inr split: if_splits)
  then show ?thesis using c by (simp add: reserved(1))
next
  case (discarded a ids updated time s)
  have "run_state s = run_state (eng_run e)" using discarded(3) by (auto simp: reserve_attempt_def and_then_Inr update_step_Inr split: if_splits)
  then show ?thesis using c by (simp add: discarded(1))
next
  case (launched a ids updated)
  then show ?thesis using c by (simp add: mark_attempt_running_def update_step_attempt_def)
next
  case (settled_run updated time)
  then show ?thesis using pc by simp
next
  case (settled_step a executed routed result ids events updated time s)
  have "run_state s \<noteq> RunCompleted"
    by (rule settle_attempt_Inr[OF settled_step(4)])
       (use c in \<open>auto simp: concluded_def settled_lifecycle_def split: step_outcome.splits step_failure.splits\<close>)
  then show ?thesis by (simp add: settled_step(1))
qed (use c in simp_all)

lemma engine_step_completion:
  assumes st: "engine_step e e'" and ok: "engine_ok e" and j: "completion_ok e"
  shows "completion_ok e'"
proof -
  have live: "eng_pc e \<noteq> Done" using engine_done[OF ok] st by blast
  then have run: "run_state (eng_run e) \<noteq> RunCompleted" and idle: "idle_integrated e" using j by (simp_all add: completion_ok_def)
  note idle' = engine_step_idle[OF st ok idle]
  show ?thesis
  proof (cases "eng_pc e' = Done")
    case False
    then show ?thesis
      using idle' engine_step_not_completed[OF st run False] by (simp add: completion_ok_def completed_done_def)
  next
    case True
    from engine_step_to_done[OF st ok True] obtain u v where e: "eng_pc e = Race" "eng_racing e = []"
      "eng_run e' = settle_run (eng_run e) (eng_aborted e) u v" by blast
    have rok: "run_ok (eng_run e)" using ok by (simp add: engine_ok_def)
    have "completed_done (eng_run e')"
    proof (cases "run_state (eng_run e) = RunRunning")
      case running: True
      show ?thesis unfolding e(3)
        by (rule settled_completed_done[OF rok running]) (use idle e in \<open>simp add: idle_integrated_def\<close>)
    next
      case notrunning: False
      then have "run_state (eng_run e') = run_state (eng_run e)" by (simp add: e(3) settle_run_fields settled_run_state_def)
      then show ?thesis using run by (simp add: completed_done_def)
    qed
    then show ?thesis using idle' True by (simp add: completion_ok_def)
  qed
qed

lemma outside_step_completion:
  assumes st: "outside_step e e'" and ok: "engine_ok e" and j: "completion_ok e"
  shows "completion_ok e'"
proof -
  have live: "eng_pc e \<noteq> Done" using engine_done[OF ok] st by blast
  then have run: "run_state (eng_run e) \<noteq> RunCompleted" and idle: "idle_integrated e" using j by (simp_all add: completion_ok_def)
  have "run_state (eng_run e') \<noteq> RunCompleted"
    using st
  proof cases
    case (admitted a request time s)
    have g: "graph_ok (eng_run e)" using ok run_ok_graph by (simp add: engine_ok_def)
    have "run_state s = run_state (eng_run e)"
      by (rule admit_steps_Inr[OF g admitted(4)]) (simp add: grown_run_def)
    then show ?thesis using run by (simp add: admitted(1))
  qed (use run in \<open>simp_all add: request_cancellation_def\<close>)
  then show ?thesis using outside_step_idle[OF st ok idle] by (simp add: completion_ok_def completed_done_def)
qed

lemma engine_reachable_completion:
  "engine_reachable s e \<Longrightarrow> startable_run s \<Longrightarrow> run_state s \<noteq> RunCompleted \<Longrightarrow> completion_ok e"
proof (induction rule: engine_reachable.induct)
  case start
  then show ?case by (simp add: completion_ok_def idle_integrated_def completed_done_def engine_start_def)
next
  case (step e e')
  then show ?case using engine_step_completion engine_reachable_ok by blast
next
  case (outside e e')
  then show ?case using outside_step_completion engine_reachable_ok by blast
qed

lemma engine_run_storable:
  assumes e: "engine_reachable s e" and s: "startable_run s" "run_state s \<noteq> RunCompleted" "head_ok (run_base_commit s) s"
      "identity_storable s" "authority_storable sha s"
    and d: "details_storable (eng_run e)" and rev: "0 \<le> revision" "revision \<le> MAX_SAFE_INTEGER"
  shows "validate_stored_workflow_run sha nt (stored_envelope revision (run_json (eng_run e))) = Inr ()"
proof (rule stored_run_accepted[OF _ _ _ _ _ d rev])
  note frozen = engine_reachable_frozen[OF e s(1)]
  show "run_ok (eng_run e)" using engine_reachable_ok[OF e s(1)] by (simp add: engine_ok_def)
  have "run_base_commit (eng_run e) = run_base_commit s" using frozen by (simp add: keeps_frozen_def frozen_part_def)
  then show "head_ok (run_base_commit (eng_run e)) (eng_run e)" using engine_reachable_head[OF e s(1,3)] by simp
  show "completed_done (eng_run e)" using engine_reachable_completion[OF e s(1,2)] by (simp add: completion_ok_def)
  show "identity_storable (eng_run e)" by (rule frozen_identity[OF frozen s(4)])
  show "authority_storable sha (eng_run e)" by (rule engine_reachable_authority[OF e s(1,5)])
qed

end
