(* ===== verification/RunPersistence.thy ===== *)
theory RunPersistence
  imports RunDocument
begin

text \<open>
  Saving and loading runs: the document of a run is read back as it was written, the store creates the
  storable runs the engine reaches, and a transaction on the files takes exactly those results of the
  store in memory that are storable and keep the authority, and then does what the memory does.
\<close>

subsection \<open>Documents have no undefined part\<close>

abbreviation plain_fields :: "json obj \<Rightarrow> bool" where
  "plain_fields \<equiv> list_all (\<lambda>(k, v). plain_json v)"

lemma plain_optional_entry [simp]:
  "plain_fields (optional_entry k f v) = (case v of None \<Rightarrow> True | Some x \<Rightarrow> plain_json (f x))"
  by (simp add: optional_entry_def split: option.split)

lemma plain_optional_field [simp]:
  "plain_fields (optional_field k f v) = (case v of None \<Rightarrow> True | Some x \<Rightarrow> plain_json (f x))"
  by (simp add: optional_field_def split: option.split)

lemma plain_values [simp]: "list_all plain_json (map f xs) = (\<forall>x\<in>set xs. plain_json (f x))"
  by (auto simp: list_all_iff)

lemma plain_strings [simp]: "plain_json (string_array_json xs)"
  by (simp add: string_array_json_def)

lemma plain_command [simp]: "plain_json (command_json c)"
  by (simp add: command_json_def)

lemma plain_step [simp]: "plain_json (step_json d)"
  by (auto simp: step_json_def declaration_fields_def body_fields_def input_json_def split: option.split step_body.split)

lemma plain_plan [simp]: "plain_json (workflow_plan_json p)"
  by (simp add: workflow_plan_json_def)

lemma plain_envelope [simp]: "plain_json (envelope_json e)"
  by (simp add: envelope_json_def repository_json_def reserved_json_def)

lemma plain_evidence [simp]: "plain_json (evidence_json e)"
  by (auto simp: evidence_json_def changed_file_json_def check_json_def boundary_json_def split: option.split)

lemma plain_profiles [simp]: "plain_json (profiles_json ps)"
  by (auto simp: profiles_json_def stored_profiles_json_def stored_profile_json_def list_all_iff)

lemma plain_record [simp]: "plain_json (record_json r)"
  by (auto simp: record_json_def split: option.split)

lemma plain_attempt [simp]: "plain_json (attempt_json a)"
  by (auto simp: attempt_json_def split: option.split)

lemma plain_event [simp]: "plain_json (event_json e)"
  by (auto simp: event_json_def body_json_def split: option.split event_body.split)

lemma run_json_plain: "plain_json (run_json s)"
  by (auto simp: run_json_def run_fields_def frozen_authority_json_def optional_entry_def list_all_iff split: option.split)

subsection \<open>Reading back what was written\<close>

definition storable :: "run_store_env \<Rightarrow> run_state \<Rightarrow> bool" where
  "storable env s \<longleftrightarrow> (\<forall>revision. 0 \<le> revision \<and> revision \<le> MAX_SAFE_INTEGER \<longrightarrow>
     validate_stored_workflow_run (store_sha env) (store_number env) (stored_envelope revision (run_json s)) = Inr ())"

lemma envelope_simps [simp]:
  "run_of_stored (stored_envelope revision v) = v"
  "to_int (get_prop (fields_of (stored_envelope revision v)) ''revision'') = revision"
  by (simp_all add: run_of_stored_def stored_envelope_def to_int_def fields_of_def get_prop_def obj_get_def)

lemma run_json_key [simp]: "run_key (run_json s) = JString (run_id s)"
  by (simp add: run_key_def run_json_def run_fields_def fields_of_def)

lemma run_json_authority:
  "get_prop (fields_of (run_json s)) ''authority'' = optional_value frozen_authority_json (run_authority s)"
  by (simp add: run_json_def run_fields_def optional_value_def fields_of_def split: option.split)

lemma reparsed_envelope [simp]: "reparsed (stored_envelope revision (run_json s)) = stored_envelope revision (run_json s)"
  using run_json_plain by (intro reparsed_plain) (simp add: stored_envelope_def)

definition saved :: "run_store_env \<Rightarrow> run_files \<Rightarrow> int \<Rightarrow> run_state \<Rightarrow> bool" where
  "saved env files revision s \<longleftrightarrow> storable env s \<and> run_id_pattern (run_id s) \<and> 0 \<le> revision \<and> revision \<le> MAX_SAFE_INTEGER \<and>
     obj_get files (json_name (run_id s)) = Some (Inr (stored_envelope revision (run_json s)))"

lemma saved_read: "saved env files revision s \<Longrightarrow> read_stored env files (run_id s) = Inr (stored_envelope revision (run_json s))"
  by (simp add: saved_def read_stored_def file_name_for_def storable_def)

lemma saved_loads: "saved env files revision s \<Longrightarrow> load_stored_run env files (run_id s) = Inr (run_json s)"
  using read_stored_load[OF saved_read] by simp

lemma storable_write:
  assumes "storable env s" "run_id_pattern (run_id s)" "0 \<le> revision" "revision \<le> MAX_SAFE_INTEGER"
  shows "write_atomic env files (stored_envelope revision (run_json s)) =
      Inr (obj_set files (json_name (run_id s)) (Inr (stored_envelope revision (run_json s))))"
    "saved env (obj_set files (json_name (run_id s)) (Inr (stored_envelope revision (run_json s)))) revision s"
  using assms by (simp_all add: write_atomic_Inr saved_def storable_def string_of_def)

lemma create_saved:
  assumes "storable env s" "run_id_pattern (run_id s)" "obj_get files (json_name (run_id s)) = None"
  shows "\<exists>files'. create_stored_run env files (run_json s) = Inr (files', run_json s) \<and> saved env files' 0 s"
proof -
  note w = storable_write[OF assms(1,2), of 0 files]
  show ?thesis using w assms(2,3)
    by (simp add: create_stored_run_def Let_def string_of_def file_name_for_def and_then_def require_def MAX_SAFE_INTEGER_def)
qed

subsection \<open>The store on files and the store in memory\<close>

definition mirrors :: "run_store_env \<Rightarrow> run_files \<Rightarrow> run_state obj \<Rightarrow> bool" where
  "mirrors env files runs \<longleftrightarrow> (\<forall>rid s. obj_get runs rid = Some s \<longrightarrow> run_id s = rid \<and> (\<exists>revision. saved env files revision s))"

lemma memory_transaction_Inr:
  "memory_transaction runs rid mutate = Inr (runs', t) \<longleftrightarrow>
     (\<exists>s. obj_get runs rid = Some s \<and> mutate s = Inr t \<and> run_id t = rid \<and> runs' = obj_set runs rid t)"
  by (auto simp: memory_transaction_def memory_load_def memory_save_def and_then_Inr split: option.split)

lemma saved_other: "saved env files revision s \<Longrightarrow> run_id s \<noteq> rid \<Longrightarrow> saved env (obj_set files (json_name rid) v) revision s"
  by (simp add: saved_def json_name_def)

lemma mirrors_update:
  assumes "mirrors env files runs" and "run_id t = rid"
    and saved: "saved env (obj_set files (json_name rid) v) revision t"
  shows "mirrors env (obj_set files (json_name rid) v) (obj_set runs rid t)"
  using assms saved_other unfolding mirrors_def by (auto split: if_splits) blast

definition same_authority :: "run_state \<Rightarrow> run_state \<Rightarrow> bool" where
  "same_authority s t \<longleftrightarrow> (case (run_authority s, run_authority t) of
       (None, None) \<Rightarrow> True
     | (Some a, Some b) \<Rightarrow> authority_source b = authority_source a \<and> authority_digest b = authority_digest a
     | _ \<Rightarrow> False)"

lemma frozen_authority_fields:
  "get_prop (fields_of (frozen_authority_json a)) ''source'' = JString (Authority.source_text (authority_source a))"
  "get_prop (fields_of (frozen_authority_json a)) ''digest'' = JString (authority_digest a)" "frozen_authority_json a \<noteq> JUndefined"
  by (simp_all add: frozen_authority_json_def fields_of_def get_prop_def obj_get_def)

lemma authority_source_text_inj: "Authority.source_text a = Authority.source_text b \<longleftrightarrow> a = b"
  by (cases a; cases b) (simp_all add: Authority.source_text_def)

lemma same_authority_stored:
  "stored_authority_transition (get_prop (fields_of (run_json s)) ''authority'') (get_prop (fields_of (run_json t)) ''authority'') = Inr () \<longleftrightarrow>
     same_authority s t"
  by (cases "run_authority s"; cases "run_authority t")
    (simp_all add: stored_authority_transition_Inr run_json_authority same_authority_def optional_value_def frozen_authority_fields
      authority_source_text_inj)

lemma validate_envelope:
  "validate_stored_workflow_run sha nt (stored_envelope revision (run_json s)) = Inr () \<longleftrightarrow>
     0 \<le> revision \<and> revision \<le> MAX_SAFE_INTEGER \<and> check_stored_run sha nt (fields_of (run_json s)) = Inr ()"
proof -
  have "get_prop (fields_of (stored_envelope revision (run_json s))) ''schemaVersion'' = JNum (of_int WORKFLOW_RUN_SCHEMA_VERSION)"
    "get_prop (fields_of (stored_envelope revision (run_json s))) ''revision'' = JNum (of_int revision)"
    "get_prop (fields_of (stored_envelope revision (run_json s))) ''run'' = run_json s"
    "is_record (stored_envelope revision (run_json s))" "is_record (run_json s)"
    by (simp_all add: stored_envelope_def fields_of_def get_prop_def obj_get_def is_record_def run_json_def)
  then show ?thesis
    by (auto simp: validate_stored_workflow_run_def and_then_Inr assert_counting_integer_def is_safe_integer_def to_int_def
        MAX_SAFE_INTEGER_def)
qed

lemma storable_check: "storable env s \<longleftrightarrow> check_stored_run (store_sha env) (store_number env) (fields_of (run_json s)) = Inr ()"
  by (auto simp: storable_def validate_envelope MAX_SAFE_INTEGER_def intro: exI[of _ 0])

text \<open>
  What the files make of a change of a run: they take it when it is no change, or when the run passes the
  checks, keeps its authority and has a revision left.
\<close>

definition files_accept :: "run_store_env \<Rightarrow> int \<Rightarrow> run_state \<Rightarrow> run_state \<Rightarrow> bool" where
  "files_accept env revision s t \<longleftrightarrow>
     t = s \<or> storable env t \<and> same_authority s t \<and> revision < MAX_SAFE_INTEGER"

lemma transact_saved:
  assumes s: "saved env files revision s" and t: "run_id t = run_id s"
    and change: "mutate (run_json s) = Inr (run_json t)"
    and shown: "t = s \<or> stringify (store_number env) (run_json t) \<noteq> stringify (store_number env) (run_json s)"
  shows "transact env files (run_id s) mutate =
      (if t = s then Inr (files, run_json s)
       else and_then (stored_authority_transition (get_prop (fields_of (run_json s)) ''authority'')
           (get_prop (fields_of (run_json t)) ''authority'')) (\<lambda>_.
         and_then (write_atomic env files (stored_envelope (revision + 1) (run_json t))) (\<lambda>files'. Inr (files', run_json t))))"
  using saved_read[OF s] change t shown by (auto simp: transact_def Let_def and_then_def require_def)

lemma transact_accepts:
  assumes s: "saved env files revision s" and t: "run_id t = run_id s"
    and change: "mutate (run_json s) = Inr (run_json t)"
    and shown: "t = s \<or> stringify (store_number env) (run_json t) \<noteq> stringify (store_number env) (run_json s)"
  shows "(\<exists>r. transact env files (run_id s) mutate = Inr r) \<longleftrightarrow> files_accept env revision s t"
    "files_accept env revision s t \<Longrightarrow> \<exists>files' revision'. transact env files (run_id s) mutate = Inr (files', run_json t) \<and>
       saved env files' revision' t \<and> (files' = files \<or> (\<exists>v. files' = obj_set files (json_name (run_id s)) v))"
proof -
  note unfolded_txn = transact_saved[of env files revision s t mutate, OF assms]
  have id: "run_id_pattern (run_id t)" "0 \<le> revision" "revision \<le> MAX_SAFE_INTEGER" using s t by (auto simp: saved_def)
  have w: "write_atomic env files (stored_envelope (revision + 1) (run_json t)) = Inr files' \<longleftrightarrow>
      storable env t \<and> revision < MAX_SAFE_INTEGER \<and>
      files' = obj_set files (json_name (run_id t)) (Inr (stored_envelope (revision + 1) (run_json t)))" for files'
    using id by (auto simp: write_atomic_Inr validate_envelope storable_check string_of_def)
  show "(\<exists>r. transact env files (run_id s) mutate = Inr r) \<longleftrightarrow> files_accept env revision s t"
    unfolding unfolded_txn by (auto simp: and_then_Inr same_authority_stored w files_accept_def)
  assume "files_accept env revision s t"
  then show "\<exists>files' revision'. transact env files (run_id s) mutate = Inr (files', run_json t) \<and>
       saved env files' revision' t \<and> (files' = files \<or> (\<exists>v. files' = obj_set files (json_name (run_id s)) v))"
  proof (cases "t = s")
    case True
    then show ?thesis using s unfolding unfolded_txn by auto
  next
    case False
    then have a: "storable env t" "same_authority s t" "revision < MAX_SAFE_INTEGER"
      using \<open>files_accept env revision s t\<close> by (simp_all add: files_accept_def)
    let ?files = "obj_set files (json_name (run_id t)) (Inr (stored_envelope (revision + 1) (run_json t)))"
    have "transact env files (run_id s) mutate = Inr (?files, run_json t)"
      unfolding unfolded_txn using False a w same_authority_stored[of s t] by (simp add: and_then_Inr)
    moreover have "saved env ?files (revision + 1) t" using storable_write(2)[OF a(1) id(1)] id a(3) by simp
    ultimately show ?thesis using t by metis
  qed
qed

lemma transact_mirrors:
  assumes m: "mirrors env files runs" and txn: "memory_transaction runs rid mutate = Inr (runs', t)"
    and s: "obj_get runs rid = Some s" "saved env files revision s"
    and change: "json_mutate (run_json s) = Inr (run_json t)"
    and shown: "t = s \<or> stringify (store_number env) (run_json t) \<noteq> stringify (store_number env) (run_json s)"
  shows "(\<exists>r. transact env files rid json_mutate = Inr r) \<longleftrightarrow> files_accept env revision s t"
    "files_accept env revision s t \<Longrightarrow> \<exists>files'. transact env files rid json_mutate = Inr (files', run_json t) \<and>
       mirrors env files' runs' \<and> load_stored_run env files' rid = Inr (run_json t)"
proof -
  have id: "run_id s = rid" and runs: "runs' = obj_set runs rid t" "run_id t = rid"
    using m s txn by (auto simp: mirrors_def memory_transaction_Inr)
  have same: "run_id t = run_id s" using id runs(2) by simp
  note accepts = transact_accepts[of env files revision s t json_mutate, OF s(2) same change shown, unfolded id]
  show "(\<exists>r. transact env files rid json_mutate = Inr r) \<longleftrightarrow> files_accept env revision s t" by (rule accepts(1))
  assume "files_accept env revision s t"
  from accepts(2)[OF this] obtain files' revision' where f: "transact env files rid json_mutate = Inr (files', run_json t)"
    "saved env files' revision' t" "files' = files \<or> (\<exists>v. files' = obj_set files (json_name rid) v)" by blast
  from f(3) have "mirrors env files' runs'"
  proof
    assume "files' = files"
    then show ?thesis using f(2) m runs by (auto simp: mirrors_def)
  next
    assume "\<exists>v. files' = obj_set files (json_name rid) v"
    then show ?thesis using mirrors_update[OF m runs(2)] f(2) runs(1) by auto
  qed
  then show "\<exists>files'. transact env files rid json_mutate = Inr (files', run_json t) \<and>
       mirrors env files' runs' \<and> load_stored_run env files' rid = Inr (run_json t)"
    using f saved_loads[OF f(2)] runs(2) by auto
qed

end
