(* ===== verification/StorableRuns.thy ===== *)
theory StorableRuns
  imports RunDocument
begin

text \<open>
  Which part of what the store checks the engine itself establishes along every execution, and what is left
  to those who supply the data of an attempt: the workspace providers, the step handlers and the clock.
\<close>

subsection \<open>Settled attempts and failed integrations\<close>

text \<open>
  An attempt that succeeded has a finishing time, and a step whose integration failed has failed for good: no
  attempt of it is in flight.
\<close>

definition attempts_dated :: "run_state \<Rightarrow> bool" where
  "attempts_dated s \<longleftrightarrow> (\<forall>a\<in>set (run_attempts s). attempt_state a = AttemptSucceeded \<longrightarrow> attempt_finished a \<noteq> None)"

definition errors_final :: "run_state \<Rightarrow> bool" where
  "errors_final s \<longleftrightarrow> (\<forall>sid r. obj_get (run_steps s) sid = Some r \<longrightarrow> record_integration_error r \<noteq> None \<longrightarrow>
     record_state r = Failed \<and> (\<forall>a\<in>set (run_attempts s). attempt_step a = sid \<longrightarrow> \<not> active a))"

definition results_recorded :: "run_state \<Rightarrow> bool" where
  "results_recorded s \<longleftrightarrow> attempts_dated s \<and> errors_final s"

lemma no_integration_error:
  assumes "results_recorded s" and "obj_get (run_steps s) sid = Some r" and "record_state r \<noteq> Failed"
  shows "record_integration_error r = None"
  using assms unfolding results_recorded_def errors_final_def by blast

text \<open>An update of one record and of the attempts.\<close>

lemma errors_final_update:
  assumes s: "errors_final s" and steps: "\<And>k r. obj_get (run_steps t) k = Some r \<Longrightarrow> record_integration_error r \<noteq> None \<Longrightarrow>
      record_state r = Failed \<and> (\<exists>p. obj_get (run_steps s) k = Some p \<and> record_integration_error p \<noteq> None \<or>
        (\<forall>a\<in>set (run_attempts s). attempt_step a = k \<longrightarrow> \<not> active a))"
    and attempts: "\<And>b. b \<in> set (run_attempts t) \<Longrightarrow> active b \<Longrightarrow>
      \<exists>a\<in>set (run_attempts s). attempt_step a = attempt_step b \<and> active a"
  shows "errors_final t"
  unfolding errors_final_def
proof (intro allI impI conjI ballI notI)
  fix k r b assume r: "obj_get (run_steps t) k = Some r" "record_integration_error r \<noteq> None"
  then show "record_state r = Failed" using steps by blast
  assume b: "b \<in> set (run_attempts t)" "attempt_step b = k" "active b"
  obtain a where "a \<in> set (run_attempts s)" "attempt_step a = k" "active a" using attempts[OF b(1,3)] b(2) by auto
  then show False using steps[OF r] s by (auto simp: errors_final_def)
qed

lemma reconcile_errors_final:
  assumes g: "graph_ok s" and s: "errors_final s"
  shows "errors_final (reconcile_workflow_steps s)"
proof (rule errors_final_update[OF s])
  fix k r assume r: "obj_get (run_steps (reconcile_workflow_steps s)) k = Some r" "record_integration_error r \<noteq> None"
  obtain p where p: "obj_get (run_steps s) k = Some p"
    "r = p\<lparr>record_state := next_step_state (run_profiles s) p (run_steps (reconcile_workflow_steps s))\<rparr>"
    using reconcile_get_inv[OF g r(1)] by blast
  moreover have "record_state p = Failed" using s p r(2) by (auto simp: errors_final_def)
  ultimately show "record_state r = Failed \<and> (\<exists>p. obj_get (run_steps s) k = Some p \<and> record_integration_error p \<noteq> None \<or>
        (\<forall>a\<in>set (run_attempts s). attempt_step a = k \<longrightarrow> \<not> active a))"
    using r(2) next_step_state_waiting[of "run_profiles s" p "run_steps (reconcile_workflow_steps s)"] by (auto simp: waiting_def)
qed auto

lemma concluded_results:
  assumes "graph_ok s" and "results_recorded s"
  shows "results_recorded (concluded s l updated events time)"
proof -
  have same: "run_steps (concluded s l updated events time) = run_steps (reconcile_workflow_steps s)"
    "run_attempts (concluded s l updated events time) = run_attempts s" by (simp_all add: concluded_def)
  have "errors_final (reconcile_workflow_steps s)" using reconcile_errors_final assms by (simp add: results_recorded_def)
  then show ?thesis using assms(2) by (simp add: results_recorded_def attempts_dated_def errors_final_def same)
qed

text \<open>An attempt in flight belongs to a step whose integration has not failed.\<close>

lemma active_no_error:
  assumes "errors_final s" and "stored_active s a" and "obj_get (run_steps s) (attempt_step a) = Some r"
  shows "record_integration_error r = None"
proof (rule ccontr)
  assume "record_integration_error r \<noteq> None"
  then have "\<forall>b\<in>set (run_attempts s). attempt_step b = attempt_step a \<longrightarrow> \<not> active b"
    using assms(1,3) by (auto simp: errors_final_def)
  then show False using assms(2) by (auto simp: stored_active_def)
qed

lemma settle_attempt_results:
  assumes ok: "run_ok s" and s: "results_recorded s" and a: "stored_active s a"
    and t: "settle_attempt s (attempt_step a) a result ids events updated time = Inr t"
  shows "results_recorded t"
proof -
  obtain r retrying l ev where r: "obj_get (run_steps s) (attempt_step a) = Some r"
    and t': "t = concluded (s\<lparr>run_attempts := map (\<lambda>x. if attempt_id x = attempt_id a then settled_attempt result ids x else x)
           (run_attempts s),
         run_steps := obj_set (run_steps s) (attempt_step a) (settled_record (result_outcome result) retrying r)\<rparr>) l updated ev time"
    by (rule settle_attempt_Inr[OF t]) blast
  let ?u = "s\<lparr>run_attempts := map (\<lambda>x. if attempt_id x = attempt_id a then settled_attempt result ids x else x)
           (run_attempts s),
         run_steps := obj_set (run_steps s) (attempt_step a) (settled_record (result_outcome result) retrying r)\<rparr>"
  have kept: "record_definition (settled_record out b q) = record_definition q"
    "record_integration_error (settled_record out b q) = record_integration_error q" for out b q
    by (auto simp: settled_record_def split: step_outcome.split)
  have g: "graph_ok ?u"
    by (rule set_graph_ok[OF run_ok_graph[OF ok] r, of "settled_record (result_outcome result) retrying r"]) (simp_all add: kept)
  have step: "attempt_step (settled_attempt result ids x) = attempt_step x" "\<not> active (settled_attempt result ids x)"
    "attempt_finished (settled_attempt result ids x) \<noteq> None" for x
    by (auto simp: settled_attempt_def Let_def active_def is_active_attempt_state_def ACTIVE_ATTEMPT_STATES_def
        split: step_outcome.split step_failure.split)
  have none: "record_integration_error r = None" using active_no_error[OF _ a r] s by (simp add: results_recorded_def)
  have "errors_final ?u"
  proof (rule errors_final_update[of s])
    show "errors_final s" using s by (simp add: results_recorded_def)
    fix k q assume "obj_get (run_steps ?u) k = Some q" "record_integration_error q \<noteq> None"
    then have "obj_get (run_steps s) k = Some q" using kept(2) none by (auto split: if_splits)
    then show "record_state q = Failed \<and> (\<exists>p. obj_get (run_steps s) k = Some p \<and> record_integration_error p \<noteq> None \<or>
        (\<forall>a\<in>set (run_attempts s). attempt_step a = k \<longrightarrow> \<not> active a))"
      using s \<open>record_integration_error q \<noteq> None\<close> by (auto simp: results_recorded_def errors_final_def)
  next
    fix b assume "b \<in> set (run_attempts ?u)" "active b"
    then show "\<exists>a\<in>set (run_attempts s). attempt_step a = attempt_step b \<and> active a" using step(2) by (auto split: if_splits)
  qed
  moreover have "attempts_dated ?u" using s step(3) by (auto simp: results_recorded_def attempts_dated_def)
  ultimately show ?thesis unfolding t' by (intro concluded_results[OF g]) (simp add: results_recorded_def)
qed

text \<open>Every other change of a record keeps its error and does not revive it.\<close>

lemma set_record_results:
  assumes s: "results_recorded s" and r: "obj_get (run_steps s) sid = Some r"
    and t: "run_steps t = obj_set (run_steps s) sid r'" "run_attempts t = run_attempts s"
    and r': "record_integration_error r' \<noteq> None \<Longrightarrow> record_state r' = Failed \<and>
      (record_integration_error r \<noteq> None \<or> (\<forall>a\<in>set (run_attempts s). attempt_step a = sid \<longrightarrow> \<not> active a))"
  shows "results_recorded t"
proof -
  have "errors_final t"
  proof (rule errors_final_update[of s])
    show "errors_final s" using s by (simp add: results_recorded_def)
    fix k q assume q: "obj_get (run_steps t) k = Some q" "record_integration_error q \<noteq> None"
    show "record_state q = Failed \<and> (\<exists>p. obj_get (run_steps s) k = Some p \<and> record_integration_error p \<noteq> None \<or>
        (\<forall>a\<in>set (run_attempts s). attempt_step a = k \<longrightarrow> \<not> active a))"
    proof (cases "k = sid")
      case True
      with q t(1) have "q = r'" by simp
      with r' q(2) r True show ?thesis by blast
    next
      case False
      with q t(1) have "obj_get (run_steps s) k = Some q" by simp
      with s q(2) show ?thesis by (auto simp: results_recorded_def errors_final_def)
    qed
  qed (auto simp: t(2))
  then show ?thesis using s by (simp add: results_recorded_def attempts_dated_def t(2))
qed

lemma fail_step_results:
  assumes g: "graph_ok s" and s: "results_recorded s" and t: "fail_step s sid message updated time = Inr t"
  shows "results_recorded t"
proof -
  obtain r ev l where r: "obj_get (run_steps s) sid = Some r"
    and t': "t = concluded (s\<lparr>run_steps := obj_set (run_steps s) sid (r\<lparr>record_state := Failed, record_error := Some message\<rparr>)\<rparr>)
       l updated ev time" by (rule fail_step_Inr[OF t]) blast
  let ?u = "s\<lparr>run_steps := obj_set (run_steps s) sid (r\<lparr>record_state := Failed, record_error := Some message\<rparr>)\<rparr>"
  have "graph_ok ?u" by (rule set_graph_ok[OF g r, of "r\<lparr>record_state := Failed, record_error := Some message\<rparr>"]) simp_all
  moreover have "results_recorded ?u"
    by (rule set_record_results[OF s r, of _ "r\<lparr>record_state := Failed, record_error := Some message\<rparr>"]) simp_all
  ultimately show ?thesis unfolding t' by (rule concluded_results)
qed

lemma succeeded_quiet:
  assumes ok: "run_ok s" and r: "obj_get (run_steps s) sid = Some r" "record_state r = Succeeded"
    and a: "a \<in> set (run_attempts s)" "attempt_step a = sid"
  shows "\<not> active a"
proof
  assume act: "active a"
  let ?xs = "attempts_of s sid"
  have x: "a \<in> set ?xs" using a by (simp add: attempts_of_def)
  have "record_ok (run_profiles s) r ?xs" by (rule run_ok_record[OF ok r(1)])
  then have "\<forall>b\<in>set (butlast ?xs). \<not> active b" "\<not> active (last ?xs)"
    using r(2) x by (auto simp: record_ok_def active_def is_active_attempt_state_def ACTIVE_ATTEMPT_STATES_def)
  moreover have "a \<in> set (butlast ?xs) \<or> a = last ?xs" using x by (metis append_butlast_last_id empty_iff in_set_conv_decomp
      list.set(1) rotate1.simps(2) set_ConsD set_rotate1)
  ultimately show False using act by blast
qed

lemma fail_integration_results:
  assumes ok: "run_ok s" and s: "results_recorded s" and i: "integrable s sid"
    and t: "fail_integration s sid a problem updated time = Inr t"
  shows "results_recorded t"
proof -
  obtain r where r: "obj_get (run_steps s) sid = Some r" "record_state r = Succeeded" using i by (auto simp: integrable_def)
  let ?r = "\<lambda>m. r\<lparr>record_state := Failed, record_integration_error := Some m\<rparr>"
  obtain m l ev where t': "t = concluded (s\<lparr>run_steps := obj_set (run_steps s) sid (?r m)\<rparr>) l updated ev time"
    using t r(1) by (auto simp: fail_integration_def and_then_Inr update_step_Inr Let_def concluded_def)
  have "graph_ok (s\<lparr>run_steps := obj_set (run_steps s) sid (?r m)\<rparr>)"
    by (rule set_graph_ok[OF run_ok_graph[OF ok] r(1), of "?r m"]) simp_all
  moreover have "results_recorded (s\<lparr>run_steps := obj_set (run_steps s) sid (?r m)\<rparr>)"
    by (rule set_record_results[OF s r(1), of _ "?r m"]) (use succeeded_quiet[OF ok r] in simp_all)
  ultimately show ?thesis unfolding t' by (rule concluded_results)
qed

lemma integrate_step_results:
  assumes ok: "run_ok s" and s: "results_recorded s" and i: "integrable s sid"
    and t: "integrate_step s sid a commit updated time = Inr t"
  shows "results_recorded t"
proof -
  obtain r where r: "obj_get (run_steps s) sid = Some r" "record_state r = Succeeded" using i by (auto simp: integrable_def)
  let ?u = "s\<lparr>run_steps := obj_set (run_steps s) sid (r\<lparr>record_integrated := Some commit\<rparr>), run_head := commit, run_updated := updated\<rparr>"
  have "record_integration_error r = None" using no_integration_error[OF s r(1)] r(2) by simp
  then have "results_recorded ?u"
    by (intro set_record_results[OF s r(1), of _ "r\<lparr>record_integrated := Some commit\<rparr>"]) simp_all
  moreover have "graph_ok ?u"
    by (rule set_graph_ok[OF run_ok_graph[OF ok] r(1), of "r\<lparr>record_integrated := Some commit\<rparr>"]) simp_all
  ultimately have "results_recorded (reconcile_workflow_steps ?u)"
    using reconcile_errors_final by (simp add: results_recorded_def attempts_dated_def)
  moreover have "run_steps t = run_steps (reconcile_workflow_steps ?u)" "run_attempts t = run_attempts s"
    using t r(1) by (auto simp: integrate_step_def and_then_Inr update_step_Inr append_workflow_event_def)
  ultimately show ?thesis by (simp add: results_recorded_def attempts_dated_def errors_final_def)
qed

lemma reserve_attempt_results:
  assumes ok: "run_ok s" and s: "results_recorded s" and w: "step_waiting s (attempt_step a)" and f: "fresh_attempt s a"
    and t: "reserve_attempt s a updated time = Inr (t, b)"
  shows "results_recorded t"
  using reserve_attempt_Inr[OF t]
proof
  assume "b \<and> run_state s = RunRunning \<and> attempt_step a \<in> set (launchable_steps (reconcile_workflow_steps s)) \<and>
    (\<exists>r. obj_get (run_steps s) (attempt_step a) = Some r \<and>
      t = append_workflow_event (s\<lparr>run_steps := obj_set (run_steps s) (attempt_step a)
          (r\<lparr>record_state := Running, record_attempts := record_attempts r @ [attempt_id a]\<rparr>),
          run_attempts := run_attempts s @ [a], run_updated := updated\<rparr>)
        (StepLaunched (attempt_step a) (attempt_id a) (attempt_number a) (attempt_requirement a)) time)"
  then obtain r where r: "obj_get (run_steps s) (attempt_step a) = Some r"
    and t: "run_steps t = obj_set (run_steps s) (attempt_step a)
       (r\<lparr>record_state := Running, record_attempts := record_attempts r @ [attempt_id a]\<rparr>)"
      "run_attempts t = run_attempts s @ [a]" by (auto simp: append_workflow_event_def)
  have none: "record_integration_error r = None"
    using no_integration_error[OF s r] r w by (auto simp: step_waiting_def waiting_def)
  have "attempts_dated t" using s f by (auto simp: results_recorded_def attempts_dated_def t(2) fresh_attempt_def)
  moreover have "errors_final t"
    using s none by (auto simp: results_recorded_def errors_final_def t split: if_splits)
  ultimately show ?thesis by (simp add: results_recorded_def)
qed (use s in simp)

lemma mark_running_results:
  assumes s: "results_recorded s" and a: "stored_active s a" and u: "distinct (map attempt_id (run_attempts s))"
  shows "results_recorded (mark_attempt_running s (attempt_id a) updated)"
proof -
  let ?t = "mark_attempt_running s (attempt_id a) updated"
  have t: "run_steps ?t = run_steps s" "run_attempts ?t = map (\<lambda>x. if attempt_id x = attempt_id a
      then x\<lparr>attempt_state := AttemptRunning\<rparr> else x) (run_attempts s)"
    by (simp_all add: mark_attempt_running_def update_step_attempt_def)
  obtain b where b: "b \<in> set (run_attempts s)" "attempt_id b = attempt_id a" "active b" using a by (auto simp: stored_active_def)
  have "errors_final ?t"
  proof (rule errors_final_update[of s])
    show "errors_final s" using s by (simp add: results_recorded_def)
    fix c assume "c \<in> set (run_attempts ?t)" "active c"
    then obtain x where x: "x \<in> set (run_attempts s)" "c = (if attempt_id x = attempt_id a then x\<lparr>attempt_state := AttemptRunning\<rparr> else x)"
      by (auto simp: t(2))
    show "\<exists>a\<in>set (run_attempts s). attempt_step a = attempt_step c \<and> active a"
    proof (cases "attempt_id x = attempt_id a")
      case True
      with b x(1) u have "x = b" by (metis inj_on_contraD distinct_map)
      with b x True show ?thesis by (intro bexI[of _ b]) auto
    qed (use x \<open>active c\<close> in auto)
  qed (use s t in \<open>auto simp: results_recorded_def errors_final_def\<close>)
  moreover have "attempts_dated ?t" using s by (auto simp: results_recorded_def attempts_dated_def t(2))
  ultimately show ?thesis by (simp add: results_recorded_def)
qed

lemma settle_run_results:
  assumes g: "graph_ok s" and s: "results_recorded s"
  shows "results_recorded (settle_run s c updated time)"
proof -
  let ?R = "reconcile_workflow_steps s"
  have R: "errors_final ?R" using reconcile_errors_final[OF g] s by (simp add: results_recorded_def)
  have "errors_final (closed_steps s c)"
  proof (rule errors_final_update[OF R])
    fix k q assume q: "obj_get (run_steps (closed_steps s c)) k = Some q" "record_integration_error q \<noteq> None"
    obtain p where p: "obj_get (run_steps ?R) k = Some p" "q = p \<or> unfinished_for_cancel p \<and> q = p\<lparr>record_state := Cancelled\<rparr>"
      using q(1) by (auto simp: closed_steps_def cancel_unfinished_get cancelled_record_def split: if_splits)
    with q(2) R have "record_state p = Failed" "record_integration_error p \<noteq> None" by (auto simp: errors_final_def)
    with p show "record_state q = Failed \<and> (\<exists>p. obj_get (run_steps ?R) k = Some p \<and> record_integration_error p \<noteq> None \<or>
        (\<forall>a\<in>set (run_attempts ?R). attempt_step a = k \<longrightarrow> \<not> active a))"
      by (auto simp: unfinished_for_cancel_def)
  qed auto
  then show ?thesis using s by (simp add: results_recorded_def attempts_dated_def errors_final_def settle_run_fields)
qed

lemma admit_steps_results:
  assumes ok: "run_ok s" and s: "results_recorded s" and t: "admit_steps s request time = Inr t"
  shows "results_recorded t"
proof -
  note g = run_ok_graph[OF ok]
  obtain extra ev where wf: "wf_workflow_plan (run_plan (grown_run s extra time))"
    and t: "t = append_workflow_events (reconcile_workflow_steps (grown_run s extra time)) ev time"
    by (rule admit_steps_Inr[OF g t]) blast
  let ?u = "grown_run s extra time"
  have "errors_final ?u"
  proof (rule errors_final_update[of s])
    show "errors_final s" using s by (simp add: results_recorded_def)
    fix k r assume r: "obj_get (run_steps ?u) k = Some r" "record_integration_error r \<noteq> None"
    have "obj_get (run_steps s) k = Some r"
      using r obj_get_new_records[of extra k r]
      by (auto simp: grown_run_def obj_get_append new_record_def split: option.splits)
    then show "record_state r = Failed \<and> (\<exists>p. obj_get (run_steps s) k = Some p \<and> record_integration_error p \<noteq> None \<or>
        (\<forall>a\<in>set (run_attempts s). attempt_step a = k \<longrightarrow> \<not> active a))"
      using s r(2) unfolding results_recorded_def errors_final_def by blast
  qed (auto simp: grown_run_def)
  then have "errors_final (reconcile_workflow_steps ?u)" by (rule reconcile_errors_final[OF grown_run_graph[OF g wf]])
  then show ?thesis using s by (simp add: t results_recorded_def attempts_dated_def errors_final_def grown_run_def)
qed

subsection \<open>Every execution records its results\<close>

lemma engine_step_results:
  assumes st: "engine_step e e'" and ok: "engine_ok e" and s: "results_recorded (eng_run e)"
  shows "results_recorded (eng_run e')"
proof -
  have rok: "run_ok (eng_run e)" and g: "graph_ok (eng_run e)" and distinct: "distinct (map attempt_id (run_attempts (eng_run e)))"
    and agree: "pc_ok (eng_run e) (eng_racing e = []) (eng_aborted e) (eng_pc e)"
    and mine: "\<forall>a\<in>set (owned e). stored_active (eng_run e) a"
    using ok run_ok_graph by (simp_all add: engine_ok_def run_ok_def store_ok_def attempts_known_def)
  show ?thesis
    using st
  proof cases
    case (attempt_missing sid)
    then show ?thesis using no_missing_attempt[OF rok] by blast
  next
    case (integrated sid a head commit updated time t)
    then show ?thesis using integrate_step_results[OF rok s _ integrated(5)] agree by simp
  next
    case (integration_failed sid a head problem updated time t)
    then show ?thesis using fail_integration_results[OF rok s _ integration_failed(4)] agree by simp
  next
    case (not_prepared sid ids message updated time t)
    then show ?thesis using fail_step_results[OF g s not_prepared(3)] by simp
  next
    case (reserved a ids updated time t)
    then show ?thesis using reserve_attempt_results[OF rok s _ _ reserved(3)] agree by simp
  next
    case (discarded a ids updated time t)
    then show ?thesis using reserve_attempt_results[OF rok s _ _ discarded(3)] agree by simp
  next
    case (launched a ids updated)
    then show ?thesis using mark_running_results[OF s _ distinct] mine by (simp add: owned_def)
  next
    case (settled_run updated time)
    then show ?thesis using settle_run_results[OF g s] by simp
  next
    case (settled_step a executed routed result ids events updated time t)
    then show ?thesis using settle_attempt_results[OF rok s _ settled_step(4)] mine by (simp add: owned_def)
  qed (simp_all add: s)
qed

lemma outside_step_results:
  assumes st: "outside_step e e'" and ok: "engine_ok e" and s: "results_recorded (eng_run e)"
  shows "results_recorded (eng_run e')"
  using st
proof cases
  case (admitted a request time t)
  then show ?thesis using admit_steps_results[OF _ s admitted(4)] ok by (simp add: engine_ok_def)
next
  case (cancel_requested reason time)
  then show ?thesis
    using s by (simp add: request_cancellation_def append_workflow_event_def results_recorded_def attempts_dated_def errors_final_def)
qed (simp add: s)

lemma engine_reachable_results:
  "engine_reachable s e \<Longrightarrow> startable_run s \<Longrightarrow> results_recorded s \<Longrightarrow> results_recorded (eng_run e)"
proof (induction rule: engine_reachable.induct)
  case start
  then show ?case by (simp add: engine_start_def)
next
  case (step e e')
  then show ?case using engine_step_results engine_reachable_ok by blast
next
  case (outside e e')
  then show ?case using outside_step_results engine_reachable_ok by blast
qed

subsection \<open>What the engine is given\<close>

text \<open>
  The data of an attempt that comes from outside: its id and its times, the workspace the provider prepared
  for the requirement of the step, and the commit and evidence of the handler, which only a step with a
  mutable workspace may commit and only a commit may carry.
\<close>

definition attempt_supplied :: "run_profiles \<Rightarrow> step_definition \<Rightarrow> step_attempt \<Rightarrow> bool" where
  "attempt_supplied ps d a \<longleftrightarrow> attempt_id a \<noteq> [] \<and> attempt_started a \<noteq> [] \<and> attempt_finished a \<noteq> Some [] \<and>
     attempt_requirement a = step_workspace_requirement ps d \<and> attempt_base a \<noteq> [] \<and>
     (attempt_workspace a = [] \<longleftrightarrow> attempt_requirement a = NoWorkspace) \<and>
     attempt_branch a \<noteq> Some [] \<and> (attempt_branch a \<noteq> None \<longleftrightarrow> attempt_requirement a = Mutable) \<and>
     attempt_worker a \<noteq> Some [] \<and> attempt_commit a \<noteq> Some [] \<and> (attempt_commit a \<noteq> None \<longrightarrow> attempt_requirement a = Mutable) \<and>
     if_present (\<lambda>e. wf_evidence e \<and> attempt_commit a \<noteq> None) (attempt_evidence a)"

definition inputs_storable :: "run_state \<Rightarrow> bool" where
  "inputs_storable s \<longleftrightarrow>
     (\<forall>a\<in>set (run_attempts s). \<forall>r. obj_get (run_steps s) (attempt_step a) = Some r \<longrightarrow>
        attempt_supplied (run_profiles s) (record_definition r) a) \<and>
     (\<forall>e\<in>set (run_events s). event_at e \<noteq> [] \<and> body_storable (event_body e)) \<and>
     int (run_sequence s) \<le> MAX_SAFE_INTEGER \<and> run_updated s \<noteq> []"

lemma attempt_number_bounds:
  assumes ok: "run_ok s" and a: "a \<in> set (run_attempts s)" "obj_get (run_steps s) (attempt_step a) = Some r"
  shows "1 \<le> attempt_number a \<and> int (attempt_number a) \<le> MAX_STEP_RETRY_ATTEMPTS"
proof -
  let ?xs = "attempts_of s (attempt_step a)"
  have rec: "record_ok (run_profiles s) r ?xs" by (rule run_ok_record[OF ok a(2)])
  have "attempt_number a \<in> set (map attempt_number ?xs)" using a(1) by (auto simp: attempts_of_def)
  then have "1 \<le> attempt_number a" "attempt_number a \<le> length ?xs"
    using rec unfolding record_ok_def by (auto simp del: upt_Suc)
  moreover have "wf_workflow_plan (run_plan s)" using run_ok_graph[OF ok] by (simp add: graph_ok_def)
  then have "wf_step (plan_steps (run_plan s)) (record_definition r)"
    by (rule wf_workflow_planD(4)[OF _ graph_ok_record(1)[OF run_ok_graph[OF ok] a(2)]])
  then have "retry_budget r \<le> MAX_STEP_RETRY_ATTEMPTS"
    using wf_stepD(4) by (simp add: retry_budget_def wf_step_def)
  ultimately show ?thesis using rec by (simp add: record_ok_def)
qed

lemma inputs_details:
  assumes ok: "run_ok s" and res: "results_recorded s" and inp: "inputs_storable s"
  shows "details_storable s"
proof -
  have "attempt_storable (run_profiles s) (record_definition r) a"
    if a: "a \<in> set (run_attempts s)" "obj_get (run_steps s) (attempt_step a) = Some r" for a r
  proof -
    have "attempt_supplied (run_profiles s) (record_definition r) a" using inp a by (simp add: inputs_storable_def)
    moreover have "attempt_state a = AttemptSucceeded \<longrightarrow> attempt_finished a \<noteq> None"
      using res a(1) by (simp add: results_recorded_def attempts_dated_def)
    moreover have "1 \<le> attempt_number a" "int (attempt_number a) \<le> MAX_SAFE_INTEGER"
      using attempt_number_bounds[OF ok a] by (simp_all add: MAX_STEP_RETRY_ATTEMPTS_def MAX_SAFE_INTEGER_def)
    ultimately show ?thesis unfolding attempt_supplied_def attempt_storable_def by blast
  qed
  moreover have "record_integrated r = None \<or> record_integration_error r = None" if r: "obj_get (run_steps s) sid = Some r" for sid r
  proof (cases "record_integrated r")
    case (Some c)
    then have "record_state r = Succeeded" using run_ok_record[OF ok r] by (simp add: record_ok_def)
    then show ?thesis using no_integration_error[OF res r] by simp
  qed simp
  ultimately show ?thesis using inp by (simp add: details_storable_def inputs_storable_def)
qed

lemma engine_run_accepted:
  assumes e: "engine_reachable s e" and s: "startable_run s" "run_state s \<noteq> RunCompleted" "head_ok (run_base_commit s) s"
      "identity_storable s" "authority_storable sha s" "results_recorded s"
    and i: "inputs_storable (eng_run e)" and rev: "0 \<le> revision" "revision \<le> MAX_SAFE_INTEGER"
  shows "validate_stored_workflow_run sha nt (stored_envelope revision (run_json (eng_run e))) = Inr ()"
proof (rule engine_run_storable[OF e s(1-5) _ rev])
  have "run_ok (eng_run e)" using engine_reachable_ok[OF e s(1)] by (simp add: engine_ok_def)
  then show "details_storable (eng_run e)" using engine_reachable_results[OF e s(1,6)] i by (rule inputs_details)
qed

end
