(* ===== verification/SampleStore.thy ===== *)
theory SampleStore
  imports RunPersistence StorableRuns SampleRecovery
begin

text \<open>
  A stored run for the witnesses: the one-step run right after its attempt was reserved, reached by
  the loop, and a store that holds it.
\<close>

lemma sample_profiles_sound: "sound_profile name (sample_profiles name)"
proof -
  have "sound_profile InvestigationProfile (sample_profiles InvestigationProfile)"
    "sound_profile ChangeProfile (sample_profiles ChangeProfile)" "sound_profile CommandProfile (sample_profiles CommandProfile)"
    "sound_profile ApprovalProfile (sample_profiles ApprovalProfile)"
    "sound_profile ReviewProfile (sample_profiles ReviewProfile)" "sound_profile RepairProfile (sample_profiles RepairProfile)"
    by code_simp+
  then show ?thesis by (cases name) simp_all
qed

lemma solo_identity: "identity_storable solo_run"
proof -
  have "sound_profile name (run_profiles solo_run name)" for name
    using solo_created_at sample_profiles_sound by (simp add: solo_at_def)
  moreover have "run_id_pattern (run_id solo_run)" by code_simp
  moreover have "run_root solo_run = ''/repo''" "run_base_branch solo_run = ''main''" "run_base_commit solo_run = ''c0''"
    "run_branch solo_run = ''orchestrator/run-1''" "run_created solo_run = ''t0''" "run_max_workers solo_run = 2"
    by code_simp+
  ultimately show ?thesis by (simp add: identity_storable_def MAX_CONCURRENT_WORKERS_def)
qed

lemma solo_authority: "authority_storable sha solo_run"
proof -
  have "run_authority solo_run = None" by code_simp
  then show ?thesis by (simp add: authority_storable_def)
qed

lemma append_first_event:
  assumes "run_events s = []" and "run_sequence s = 0"
  shows "run_events (append_workflow_event s b t) = [\<lparr>event_sequence = 1, event_at = t, event_body = b\<rparr>]"
    "run_sequence (append_workflow_event s b t) = 1" "run_updated (append_workflow_event s b t) = run_updated s"
  using assms by (simp_all add: append_workflow_event_def append_workflow_events_def Let_def MAX_WORKFLOW_EVENTS_def)

lemma reserved_details:
  assumes "reserve_attempt solo_run solo_attempt ''t1'' ''t1'' = Inr (s, True)"
    and at: "solo_at s Running [''core-1''] None [solo_attempt]"
  shows "details_storable s"
proof -
  have 1: "run_events solo_run = []" "run_sequence solo_run = 0" by code_simp+
  obtain q where "s = append_workflow_event q (StepLaunched ''core'' ''core-1'' 1 Mutable) ''t1''"
    "run_events q = []" "run_sequence q = 0" "run_updated q = ''t1''"
    using assms(1) 1 by (auto simp: reserve_attempt_def and_then_Inr update_step_Inr solo_attempt_def split: if_splits)
  note ev = append_first_event[OF this(2,3)] this(1,4)
  have st: "attempt_storable sample_profiles sample_change solo_attempt"
  proof -
    have "step_workspace_requirement sample_profiles sample_change = Mutable" by code_simp
    then show ?thesis by (simp add: attempt_storable_def solo_attempt_def MAX_SAFE_INTEGER_def)
  qed
  show ?thesis
    unfolding details_storable_def using ev st at
    by (auto simp: solo_at_def body_storable_def obj_get_def new_record_def MAX_SAFE_INTEGER_def split: if_splits)
qed

definition sample_store :: run_store_env where
  "sample_store = \<lparr>store_sha = sample_digest, store_number = (\<lambda>q. ''0''), store_directory = ''/runs'', store_sort = (\<lambda>xs. xs)\<rparr>"

lemma solo_running: "run_state solo_run \<noteq> RunCompleted" "run_base_commit solo_run = ''c0''" "run_id solo_run = ''run-1''"
  by code_simp+

lemma solo_head: "head_ok (run_base_commit solo_run) solo_run"
  using solo_startable(2) solo_running(2) by simp

lemma details_inputs: "details_storable s \<Longrightarrow> inputs_storable s"
proof -
  have "attempt_storable ps d a \<Longrightarrow> attempt_supplied ps d a" for ps d a
    unfolding attempt_storable_def attempt_supplied_def by blast
  then show "details_storable s \<Longrightarrow> inputs_storable s" by (simp add: details_storable_def inputs_storable_def)
qed

lemma solo_results: "results_recorded solo_run"
  using solo_created_at
  by (simp add: solo_at_def results_recorded_def attempts_dated_def errors_final_def obj_get_def new_record_def)

lemma reserved_reachable:
  "\<exists>s. engine_reachable solo_run (solo_engine s (Mark solo_attempt []) [] []) \<and> details_storable s \<and>
     run_attempts s = [solo_attempt]"
proof -
  obtain s where s: "reserve_attempt solo_run solo_attempt ''t1'' ''t1'' = Inr (s, True)"
    "solo_at s Running [''core-1''] None [solo_attempt]" using solo_reserve[OF solo_created_at] by blast
  from solo_launch have "engine_reachable solo_run (solo_engine s (Mark solo_attempt []) [] [])"
    by - (erule solo_step, rule engine_step.reserved, use s(1) in \<open>simp_all add: solo_engine_def\<close>)
  with reserved_details[OF s] s(2) show ?thesis by (auto simp: solo_at_def)
qed

text \<open>Two saved states of the run: as created and after its time stamp moved on.\<close>

definition solo_later :: run_state where
  "solo_later = solo_run\<lparr>run_updated := ''t9''\<rparr>"

lemma solo_storable: "storable sample_store (solo_run\<lparr>run_updated := c # t\<rparr>)"
proof -
  have parts: "run_attempts solo_run = []" "run_events solo_run = []" "run_sequence solo_run = 0" by code_simp+
  have none: "record_integrated r = None" if "obj_get (run_steps solo_run) sid = Some r" for sid r
    using that solo_created_at by (auto simp: solo_at_def obj_get_def new_record_def split: if_splits)
  let ?s = "solo_run\<lparr>run_updated := c # t\<rparr>"
  have "details_storable ?s" using parts none by (auto simp: details_storable_def MAX_SAFE_INTEGER_def)
  moreover have "run_ok ?s"
    using solo_startable(1) same_store_ok[of solo_run ?s]
    by (simp add: startable_run_def run_ok_def same_store_def timeline_ok_def)
  moreover have "identity_storable ?s" using solo_identity by (simp add: identity_storable_def)
  moreover have "authority_storable sample_digest ?s" using solo_authority[of sample_digest] by (simp add: authority_storable_def split: option.splits)
  moreover have "commit_of ?s = commit_of solo_run" by (rule ext) (simp add: commit_of_def)
  then have "head_ok (run_base_commit ?s) ?s" using solo_head by (simp add: head_ok_def integrated_commits_def)
  moreover have "completed_done ?s" using solo_running by (simp add: completed_done_def)
  ultimately show ?thesis unfolding storable_def using stored_run_accepted by (simp add: sample_store_def)
qed

lemma solo_later_text: "stringify nt (run_json solo_later) \<noteq> stringify nt (run_json solo_run)"
proof -
  have "run_updated solo_run = ''t0''" "run_authority solo_run = None" "run_error solo_run = None" by code_simp+
  moreover have "profiles_json ps \<noteq> JUndefined" "workflow_plan_json p \<noteq> JUndefined" for ps p
    by (simp_all add: profiles_json_def stored_profiles_json_def workflow_plan_json_def)
  moreover have "json_quote ''t9'' \<noteq> json_quote ''t0''" by code_simp
  ultimately show ?thesis by (simp add: solo_later_def stringify_def run_json_def run_fields_def optional_entry_def)
qed

lemma saved_revision: "saved env files r s \<Longrightarrow> saved env files r' s \<Longrightarrow> r' = r"
  by (simp add: saved_def stored_envelope_def)

lemma solo_updated: "solo_run\<lparr>run_updated := ''t0''\<rparr> = solo_run"
proof -
  have "run_updated solo_run = ''t0''" by code_simp
  then show ?thesis by simp
qed

lemma solo_saved: "\<exists>files. saved sample_store files 0 solo_run \<and> files_valid sample_store files"
proof -
  have st: "storable sample_store solo_run" using solo_storable[of "CHR ''t''" "''0''"] solo_updated by simp
  have pat: "run_id_pattern (run_id solo_run)" using solo_identity by (simp add: identity_storable_def)
  note w = storable_write[OF st pat, of 0 "[]"]
  have "files_valid sample_store []" by (simp add: files_valid_def obj_get_def)
  with w write_atomic_valid show ?thesis by (fastforce simp: MAX_SAFE_INTEGER_def)
qed

lemma solo_accepted: "files_accept sample_store 0 solo_run solo_later"
proof -
  have "storable sample_store solo_later" unfolding solo_later_def by (rule solo_storable)
  then show ?thesis
    by (simp add: files_accept_def same_authority_def solo_later_def MAX_SAFE_INTEGER_def split: option.split)
qed

lemma solo_transaction:
  assumes "saved sample_store files 0 solo_run"
  shows "\<exists>files'. transact sample_store files ''run-1'' (\<lambda>v. Inr (run_json solo_later)) = Inr (files', run_json solo_later)"
proof -
  have "run_id solo_later = run_id solo_run" by (simp add: solo_later_def)
  then show ?thesis
    using transact_accepts(2)[OF assms _ _ _ solo_accepted, of "\<lambda>v. Inr (run_json solo_later)"] solo_later_text
    by (auto simp: solo_running(3))
qed

lemma solo_mirrors: "saved sample_store files 0 solo_run \<Longrightarrow> mirrors sample_store files [(''run-1'', solo_run)]"
  using solo_running(3) by (auto simp: mirrors_def obj_get_def split: if_splits)

lemma solo_memory:
  "memory_transaction [(''run-1'', solo_run)] ''run-1'' (\<lambda>s. Inr solo_later) = Inr ([(''run-1'', solo_later)], solo_later)"
  using solo_running(3) by (auto simp: memory_transaction_Inr obj_get_def obj_set_def solo_later_def)

end
