(* ===== verification/RunStore.thy ===== *)
theory RunStore
  imports WorkflowStore ReviewReport TaskRun
begin

text \<open>
  \<open>src/src/storage/run-store.ts\<close>: the migration and the checks of a stored task run, on the value its file
  parses to, and the store of runs. The checks come in the order of the code and keep the maps it fills
  as association lists. Files and locks are as in \<open>WorkflowStore\<close>.
\<close>

subsection \<open>Names and single fields\<close>

definition RUN_STATES :: "string list" where
  "RUN_STATES = [''planning'', ''awaiting_approval'', ''running'', ''integrating'', ''reviewing'', ''repairing'',
     ''reviewed'', ''validating'', ''completed'', ''failed'', ''cancelled'']"

definition TASK_STATES :: "string list" where
  "TASK_STATES = [''planned'', ''ready'', ''running'', ''validating'', ''succeeded'', ''failed'', ''blocked'', ''cancelled'']"

definition REVIEW_CATEGORY_SET :: "string list" where
  "REVIEW_CATEGORY_SET = map category_text REVIEW_CATEGORIES"

definition REVIEW_SEVERITIES :: "string list" where
  "REVIEW_SEVERITIES = [''critical'', ''high'', ''medium'', ''low'']"

definition REVIEW_CONFIDENCES :: "string list" where
  "REVIEW_CONFIDENCES = [''high'', ''medium'', ''low'']"

definition FINDING_STATES :: "string list" where
  "FINDING_STATES = [''repair_required'', ''deferred'', ''repaired'', ''unresolved'']"

definition REVIEW_ROUND_STATES :: "string list" where
  "REVIEW_ROUND_STATES = [''running'', ''repairing'', ''succeeded'', ''failed'', ''cancelled'']"

definition FINAL_VALIDATION_ATTEMPT_STATES :: "string list" where
  "FINAL_VALIDATION_ATTEMPT_STATES = [''running'', ''succeeded'', ''failed'', ''cancelled'', ''interrupted'']"

definition RUN_ATTEMPT_STATES :: "string list" where
  "RUN_ATTEMPT_STATES = map attempt_state_text ATTEMPT_STATES"

definition PLAN_REVISION_SOURCES :: "string list" where
  "PLAN_REVISION_SOURCES = [''generated'', ''sidecar'', ''edited'', ''restored'', ''migrated'']"

definition WORKER_UI_METHODS :: "string list" where
  "WORKER_UI_METHODS = [''select'', ''confirm'', ''input'', ''editor'']"

definition RUN_SCHEMA_VERSION :: int where "RUN_SCHEMA_VERSION = 9"

definition MERGE_READY_EVIDENCE_VERSION :: int where "MERGE_READY_EVIDENCE_VERSION = 2"

definition is_integer :: "json \<Rightarrow> bool" where
  "is_integer v = (case v of JNum q \<Rightarrow> of_int \<lfloor>q\<rfloor> = q | _ \<Rightarrow> False)"

text \<open>\<open>assertString\<close> on a field of an object, for each of some fields.\<close>

definition check_text :: "json obj \<Rightarrow> string \<Rightarrow> string \<Rightarrow> unit result" where
  "check_text ob path f = and_then (assert_string (get_prop ob f) (at_field path f)) (\<lambda>_. Inr ())"

definition check_texts :: "json obj \<Rightarrow> string \<Rightarrow> string list \<Rightarrow> unit result" where
  "check_texts ob path = each_check (check_text ob path)"

definition check_optional_text :: "json obj \<Rightarrow> string \<Rightarrow> string \<Rightarrow> unit result" where
  "check_optional_text ob path f = (if get_prop ob f = JUndefined then Inr () else check_text ob path f)"

definition check_optional_texts :: "json obj \<Rightarrow> string \<Rightarrow> string list \<Rightarrow> unit result" where
  "check_optional_texts ob path = each_check (\<lambda>f. assert_optional_text (get_prop ob f) (at_field path f))"

definition check_positive :: "json obj \<Rightarrow> string \<Rightarrow> string \<Rightarrow> unit result" where
  "check_positive ob path f = require (is_integer (get_prop ob f) \<and> 1 \<le> to_int (get_prop ob f))
     (Error (at_field path f @ '' must be a positive integer''))"

definition check_state :: "json obj \<Rightarrow> string \<Rightarrow> string \<Rightarrow> string list \<Rightarrow> unit result" where
  "check_state ob path f allowed = require (state_in (get_prop ob f) allowed) (Error (at_field path f @ '' is invalid''))"

definition check_array :: "json \<Rightarrow> string \<Rightarrow> unit result" where
  "check_array v path = require (is_array v) (Error (path @ '' must be an array''))"

definition check_object :: "json \<Rightarrow> string \<Rightarrow> unit result" where
  "check_object v path = require (is_record v) (Error (path @ '' must be an object''))"

text \<open>A loop over the entries of an array with what it has gathered.\<close>

fun each_entry :: "(nat \<Rightarrow> json \<Rightarrow> 's \<Rightarrow> 's result) \<Rightarrow> nat \<Rightarrow> json list \<Rightarrow> 's \<Rightarrow> 's result" where
  "each_entry f index [] acc = Inr acc"
| "each_entry f index (v # vs) acc = and_then (f index v acc) (\<lambda>acc'. each_entry f (Suc index) vs acc')"

text \<open>\<open>new Set(values)\<close> compares arrays and objects by identity, so only other values can repeat.\<close>

definition unique_entries :: "json list \<Rightarrow> bool" where
  "unique_entries vs \<longleftrightarrow> distinct (filter (\<lambda>v. \<not> is_record v \<and> \<not> is_array v) vs)"

definition is_active_state :: "json \<Rightarrow> bool" where
  "is_active_state v \<longleftrightarrow> state_in v (map attempt_state_text ACTIVE_ATTEMPT_STATES)"

subsection \<open>Migration\<close>

definition without_key :: "string \<Rightarrow> json obj \<Rightarrow> json obj" where
  "without_key k ob = filter (\<lambda>(j, v). j \<noteq> k) ob"

definition legacy_policy_value :: json where
  "legacy_policy_value = policy_json (legacy_security_policy DeclineRequests)"

text \<open>The steps from versions 4 to 7 up to version 8.\<close>

definition first_plan_revision :: "json obj \<Rightarrow> json" where
  "first_plan_revision ob = JObject [(''number'', JNum 1),
     (''createdAt'', if get_prop ob ''approvedAt'' \<in> {JUndefined, JNull} then get_prop ob ''createdAt'' else get_prop ob ''approvedAt''),
     (''source'', JString ''migrated''), (''plan'', get_prop ob ''plan''),
     (''maxConcurrentWorkers'', get_prop ob ''maxConcurrentWorkers'')]"

definition migrated_fields :: "json obj \<Rightarrow> json obj option" where
  "migrated_fields ob =
     (let version = get_prop ob ''schemaVersion'' in
      if version = JNum 7 then Some (obj_set ob ''schemaVersion'' (JNum 8))
      else if version = JNum 6 then Some (obj_set (obj_set ob ''schemaVersion'' (JNum 8)) ''blockedWorkers'' (JArray []))
      else if version = JNum 4 \<or> version = JNum 5 then
        let revised = obj_set (obj_set (obj_set (obj_set (obj_set ob ''schemaVersion'' (JNum 8))
              ''revision'' (if version = JNum 4 then JNum 0 else get_prop ob ''revision''))
              ''planRevision'' (JNum 1)) ''planRevisions'' (JArray [first_plan_revision ob]))
              ''blockedWorkers'' (JArray [])
        in Some (if get_prop ob ''approvedAt'' \<noteq> JUndefined then obj_set revised ''approvedPlanRevision'' (JNum 1) else revised)
      else None)"

definition with_legacy_policy :: "json obj \<Rightarrow> json obj" where
  "with_legacy_policy ob =
     (let evidence = get_prop ob ''mergeReadyEvidence'';
          marked = (if is_record evidence
            then JObject (obj_set (obj_set (fields_of evidence) ''version'' (JNum (of_int MERGE_READY_EVIDENCE_VERSION)))
              ''securityPolicy'' legacy_policy_value)
            else evidence);
          frozen = obj_set ob ''securityPolicy'' legacy_policy_value
      in if marked = JUndefined then frozen else obj_set frozen ''mergeReadyEvidence'' marked)"

definition renamed_handoff :: "json obj \<Rightarrow> json obj" where
  "renamed_handoff ob =
     (let handoff = get_prop ob ''handoff'';
          kept = obj_set (without_key ''handoff'' ob) ''schemaVersion'' (JNum (of_int RUN_SCHEMA_VERSION))
      in if handoff = JUndefined then kept else obj_set kept ''request'' handoff)"

definition migrate_legacy_run :: "json obj \<Rightarrow> json obj" where
  "migrate_legacy_run ob =
     (let migrated = (case migrated_fields ob of None \<Rightarrow> ob | Some m \<Rightarrow> with_legacy_policy m)
      in if get_prop migrated ''schemaVersion'' = JNum 8 then renamed_handoff migrated else migrated)"

subsection \<open>The run and its authority\<close>

definition check_run_identity :: "(rat \<Rightarrow> string) \<Rightarrow> json obj \<Rightarrow> unit result" where
  "check_run_identity nt run =
     and_then (require (get_prop run ''schemaVersion'' = JNum (of_int RUN_SCHEMA_VERSION))
       (Error (''Unsupported run schema version: '' @ js_string nt (get_prop run ''schemaVersion'')))) (\<lambda>_.
     and_then (require (is_safe_integer (get_prop run ''revision'') \<and> 0 \<le> to_int (get_prop run ''revision''))
       (Error ''run.revision must be a non-negative safe integer'')) (\<lambda>_.
     and_then (assert_string (get_prop run ''id'') ''run.id'') (\<lambda>rid.
     and_then (require (run_id_pattern rid) (Error (''Unsafe run id: '' @ rid))) (\<lambda>_.
     and_then (require (state_in (get_prop run ''state'') RUN_STATES)
       (Error (''Invalid run state: '' @ js_string nt (get_prop run ''state'')))) (\<lambda>_.
     and_then (assert_run_security_policy nt (get_prop run ''securityPolicy'') ''run.securityPolicy'') (\<lambda>_.
     and_then (check_texts run ''run'' [''repositoryRoot'', ''baseBranch'', ''baseCommit'', ''integrationBranch'',
       ''createdAt'', ''updatedAt'']) (\<lambda>_.
     let branch = ''conductor/'' @ rid @ ''/integration'' in
     and_then (require (get_prop run ''integrationBranch'' = JString branch)
       (Error (''run.integrationBranch must be '' @ branch))) (\<lambda>_.
     require (get_prop run ''integrationBranch'' \<noteq> get_prop run ''baseBranch'')
       (Error ''run.integrationBranch must differ from run.baseBranch'')))))))))"

text \<open>
  The authority of a stored run: the profiles of its policy must have the text of the profiles its
  envelope grants, and its sandbox must be that of the policy.
\<close>

definition policy_sandbox_value :: "json obj \<Rightarrow> validation_sandbox" where
  "policy_sandbox_value policy =
     (if get_prop (fields_of (get_prop policy ''validation'')) ''sandbox'' = JString ''nono'' then Nono else NoSandbox)"

definition check_run_authority :: "(json \<Rightarrow> string) \<Rightarrow> (rat \<Rightarrow> string) \<Rightarrow> json obj \<Rightarrow> task_plan \<Rightarrow> unit result" where
  "check_run_authority sha nt run plan =
     (let policy = fields_of (get_prop run ''securityPolicy'');
          profiles = get_prop (fields_of (get_prop policy ''workers'')) ''capabilityProfiles'' in
      if get_prop run ''authority'' = JUndefined then Inr ()
      else and_then (assert_string (get_prop run ''repositoryRoot'') ''run.repositoryRoot'') (\<lambda>dir.
        and_then (require (profiles \<noteq> JUndefined)
          (Error ''run.authority requires a security policy that freezes capability profiles'')) (\<lambda>_.
        and_then (validate_stored_authority sha (get_prop run ''authority'') ''run.authority'') (\<lambda>a.
        and_then (read_workflow_plan_document (task_plan_json plan)) (\<lambda>p.
        let q = \<lparr>security_policy.policy_version = 2, policy_isolation = WorktreeOnly, policy_profiles = None,
              policy_sandbox = policy_sandbox_value policy\<rparr>;
            issues = sandbox_authority_issues (authority_envelope_of a) q in
        and_then (require (issues = [])
          (Error (''run.authority sandbox must match the run security policy: '' @ semicolons issues))) (\<lambda>_.
        and_then (capability_profiles_from_envelope (authority_envelope_of a) dir) (\<lambda>expected.
        and_then (require (stringify nt (profiles_json expected) = stringify nt profiles)
          (Error ''run.authority capability profiles must be the ones the approved envelope grants'')) (\<lambda>_.
        assert_stored_authority_consistency sha a dir p expected (Some q) ''run.authority''))))))))"

subsection \<open>Plan revisions and approval\<close>

definition check_workers :: "json obj \<Rightarrow> string \<Rightarrow> unit result" where
  "check_workers ob path =
     (let v = get_prop ob ''maxConcurrentWorkers'' in
      require (is_integer v \<and> MIN_CONCURRENT_WORKERS \<le> to_int v \<and> to_int v \<le> MAX_CONCURRENT_WORKERS)
        (Error (at_field path ''maxConcurrentWorkers'' @ '' must be an integer from 2 to 4'')))"

definition check_plan_revision_entry :: "nat \<Rightarrow> json \<Rightarrow> unit \<Rightarrow> unit result" where
  "check_plan_revision_entry index v acc =
     (let path = at_index ''run.planRevisions'' index; r = fields_of v; source = get_prop r ''source'';
          origin = get_prop r ''restoredFrom'' in
      and_then (check_object v path) (\<lambda>_.
      and_then (require (get_prop r ''number'' = JNum (of_nat (Suc index))) (Error (path @ ''.number must be sequential''))) (\<lambda>_.
      and_then (check_text r path ''createdAt'') (\<lambda>_.
      and_then (check_state r path ''source'' PLAN_REVISION_SOURCES) (\<lambda>_.
      and_then (validate_task_plan (get_prop r ''plan'')) (\<lambda>_.
      and_then (check_workers r path) (\<lambda>_.
      if source = JString ''restored'' then
        require (is_safe_integer origin \<and> 1 \<le> to_int origin \<and> to_int origin < to_int (get_prop r ''number''))
          (Error (path @ ''.restoredFrom must reference an earlier plan revision''))
      else
        require (origin = JUndefined) (Error (path @ ''.restoredFrom is only valid for restored revisions'')))))))))"

definition check_plan_history :: "(rat \<Rightarrow> string) \<Rightarrow> json obj \<Rightarrow> task_plan \<Rightarrow> unit result" where
  "check_plan_history nt run plan =
     (let number = get_prop run ''planRevision''; revisions = items_of (get_prop run ''planRevisions'');
          latest = last revisions; r = fields_of latest in
      and_then (check_workers run ''run'') (\<lambda>_.
      and_then (require (is_safe_integer number \<and> 1 \<le> to_int number)
        (Error ''run.planRevision must be a positive safe integer'')) (\<lambda>_.
      and_then (require (is_array (get_prop run ''planRevisions'') \<and> revisions \<noteq> [])
        (Error ''run.planRevisions must be a non-empty array'')) (\<lambda>_.
      and_then (each_entry check_plan_revision_entry 0 revisions ()) (\<lambda>_.
      and_then (require (number = JNum (of_nat (length revisions)))
        (Error ''run.planRevision must identify the latest plan revision'')) (\<lambda>_.
      require (is_record latest \<and> stringify nt (get_prop r ''plan'') = stringify nt (task_plan_json plan) \<and>
          get_prop r ''maxConcurrentWorkers'' = get_prop run ''maxConcurrentWorkers'')
        (Error ''run.plan and maxConcurrentWorkers must match the latest plan revision'')))))))"

definition APPROVED_STATES :: "string list" where
  "APPROVED_STATES = [''running'', ''integrating'', ''reviewing'', ''repairing'', ''reviewed'', ''validating'', ''completed'']"

definition check_approval :: "(rat \<Rightarrow> string) \<Rightarrow> json obj \<Rightarrow> unit result" where
  "check_approval nt run =
     (let at_time = get_prop run ''approvedAt''; approved = get_prop run ''approvedPlanRevision'';
          state = js_string nt (get_prop run ''state'') in
      and_then (check_optional_text run ''run'' ''approvedAt'') (\<lambda>_.
      and_then (require ((at_time = JUndefined) = (approved = JUndefined))
        (Error ''run.approvedAt and run.approvedPlanRevision must appear together'')) (\<lambda>_.
      and_then (require (approved = JUndefined \<or> approved = get_prop run ''planRevision'' \<and> is_safe_integer approved)
        (Error ''run.approvedPlanRevision must match the immutable current plan revision'')) (\<lambda>_.
      and_then (require (state \<in> set APPROVED_STATES \<longrightarrow> approved \<noteq> JUndefined)
        (Error (''Run state '' @ state @ '' requires plan approval''))) (\<lambda>_.
      require (state \<in> {''planning'', ''awaiting_approval''} \<longrightarrow> approved = JUndefined)
        (Error (''Run state '' @ state @ '' cannot already have plan approval'')))))))"

subsection \<open>Tasks\<close>

definition check_run_task :: "(rat \<Rightarrow> string) \<Rightarrow> json obj \<Rightarrow> task_definition \<Rightarrow> unit result" where
  "check_run_task nt tasks d =
     (let tid = task_id d; v = get_prop tasks tid; t = fields_of v; state = get_prop t ''state'';
          committed = get_prop t ''integratedCommit''; problem = get_prop t ''integrationError'' in
      and_then (require (is_record v \<and> state_in state TASK_STATES) (Error (''Invalid state for task '' @ tid))) (\<lambda>_.
      and_then (require (stringify nt (get_prop t ''definition'') = stringify nt (task_json d))
        (Error (''Task definition does not match plan for '' @ tid))) (\<lambda>_.
      and_then (require (is_array (get_prop t ''attemptIds'') \<and> list_all is_string (items_of (get_prop t ''attemptIds'')))
        (Error (''Invalid attempt ids for task '' @ tid))) (\<lambda>_.
      and_then (each_check (check_optional_text t (at_field ''run.tasks'' tid)) [''integratedCommit'', ''integrationError'']) (\<lambda>_.
      and_then (require (committed = JUndefined \<or> problem = JUndefined)
        (Error (''Task '' @ tid @ '' cannot have both an integrated commit and integration error''))) (\<lambda>_.
      and_then (require (committed \<noteq> JUndefined \<longrightarrow> state = JString ''succeeded'')
        (Error (''Integrated task '' @ tid @ '' must be succeeded''))) (\<lambda>_.
      require (problem \<noteq> JUndefined \<longrightarrow> state = JString ''failed'')
        (Error (''Task '' @ tid @ '' has an integration error without failing'')))))))))"

text \<open>The loop over the topological order that looks for an integrated task behind a missing one.\<close>

fun check_integrated_prefix :: "json obj \<Rightarrow> bool \<Rightarrow> string list \<Rightarrow> unit result" where
  "check_integrated_prefix tasks missing [] = Inr ()"
| "check_integrated_prefix tasks missing (tid # tids) =
     (let v = get_prop tasks tid; committed = get_prop (fields_of v) ''integratedCommit'' in
      if \<not> is_record v then check_integrated_prefix tasks missing tids
      else if committed = JUndefined then check_integrated_prefix tasks True tids
      else if missing then Inl (Error (''Integrated tasks must form a deterministic topological prefix; '' @ tid @
        '' is out of order''))
      else check_integrated_prefix tasks missing tids)"

definition check_run_tasks :: "(rat \<Rightarrow> string) \<Rightarrow> json obj \<Rightarrow> task_plan \<Rightarrow> unit result" where
  "check_run_tasks nt run plan =
     (let tasks = fields_of (get_prop run ''tasks'') in
      and_then (check_object (get_prop run ''tasks'') ''run.tasks'') (\<lambda>_.
      and_then (require (length (obj_keys tasks) = length (task_plan_tasks plan))
        (Error ''run.tasks must contain exactly the plan tasks'')) (\<lambda>_.
      and_then (each_check (check_run_task nt tasks) (task_plan_tasks plan)) (\<lambda>_.
      and_then (topological_task_ids plan) (\<lambda>order.
      check_integrated_prefix tasks False order)))))"

subsection \<open>Attempts of tasks\<close>

text \<open>What the loops gather: the attempts by id, and the keys they must not repeat.\<close>

record attempt_table =
  table_attempts :: "(string \<times> json obj) list"
  table_numbers :: "(string \<times> int) list"

abbreviation empty_table :: attempt_table where
  "empty_table \<equiv> \<lparr>table_attempts = [], table_numbers = []\<rparr>"

definition passed_evidence :: "json obj \<Rightarrow> bool" where
  "passed_evidence a \<longleftrightarrow> is_record (get_prop a ''evidence'') \<and>
     get_prop (fields_of (get_prop a ''evidence'')) ''passed'' = JBool True"

text \<open>The evidence of a committing attempt, and what its success requires.\<close>

definition check_commit_evidence :: "(rat \<Rightarrow> string) \<Rightarrow> string \<Rightarrow> json obj \<Rightarrow> unit result" where
  "check_commit_evidence nt path a =
     and_then (if get_prop a ''evidence'' = JUndefined then Inr ()
       else and_then (validate_stored_evidence nt (get_prop a ''evidence'') (at_field path ''evidence'')) (\<lambda>_. Inr ())) (\<lambda>_.
     require (get_prop a ''commit'' = JUndefined \<or> passed_evidence a)
       (Error (path @ '' has a commit without passing validation evidence'')))"

definition check_task_attempt ::
    "(rat \<Rightarrow> string) \<Rightarrow> task_plan \<Rightarrow> nat \<Rightarrow> json \<Rightarrow> attempt_table \<Rightarrow> attempt_table result" where
  "check_task_attempt nt plan index v acc =
     (let path = at_index ''run.attempts'' index; a = fields_of v; tid = string_of (get_prop a ''taskId'');
          aid = string_of (get_prop a ''id''); key = (tid, to_int (get_prop a ''number'')) in
      and_then (check_object v path) (\<lambda>_.
      and_then (check_texts a path [''id'', ''taskId'', ''branch'', ''worktreePath'', ''baseCommit'', ''startedAt'']) (\<lambda>_.
      and_then (require (tid \<in> task_id ` set (task_plan_tasks plan)) (Error (path @ ''.taskId references an unknown task''))) (\<lambda>_.
      and_then (check_positive a path ''number'') (\<lambda>_.
      and_then (require (key \<notin> set (table_numbers acc))
        (Error (''Duplicate attempt number '' @ js_string nt (get_prop a ''number'') @ '' for task '' @ tid))) (\<lambda>_.
      and_then (check_state a path ''state'' RUN_ATTEMPT_STATES) (\<lambda>_.
      and_then (check_optional_texts a path [''workerId'', ''finishedAt'', ''error'', ''commit'']) (\<lambda>_.
      and_then (check_commit_evidence nt path a) (\<lambda>_.
      and_then (if get_prop a ''state'' = JString ''succeeded'' then check_texts a path [''finishedAt'', ''commit''] else Inr ()) (\<lambda>_.
      and_then (require (aid \<notin> fst ` set (table_attempts acc)) (Error (''Duplicate attempt id: '' @ aid))) (\<lambda>_.
      Inr \<lparr>table_attempts = table_attempts acc @ [(aid, a)], table_numbers = table_numbers acc @ [key]\<rparr>)))))))))))"

definition task_attempt_ids :: "json \<Rightarrow> string list" where
  "task_attempt_ids v = strings_of (get_prop (fields_of v) ''attemptIds'')"

definition check_task_references :: "attempt_table \<Rightarrow> string \<times> json \<Rightarrow> unit result" where
  "check_task_references acc entry = (case entry of (tid, v) \<Rightarrow>
     and_then (require (distinct (task_attempt_ids v)) (Error (''Task '' @ tid @ '' has duplicate attempt ids''))) (\<lambda>_.
     each_check (\<lambda>aid. require (\<exists>a. map_of (table_attempts acc) aid = Some a \<and> get_prop a ''taskId'' = JString tid)
       (Error (''Task '' @ tid @ '' references invalid attempt '' @ aid))) (task_attempt_ids v)))"

definition check_task_attempts :: "(rat \<Rightarrow> string) \<Rightarrow> json obj \<Rightarrow> task_plan \<Rightarrow> attempt_table result" where
  "check_task_attempts nt run plan =
     (let tasks = fields_of (get_prop run ''tasks'') in
      and_then (check_array (get_prop run ''attempts'') ''run.attempts'') (\<lambda>_.
      and_then (each_entry (check_task_attempt nt plan) 0 (items_of (get_prop run ''attempts'')) empty_table) (\<lambda>acc.
      and_then (each_check (check_task_references acc) tasks) (\<lambda>_.
      and_then (require (set_size (concat (map (task_attempt_ids \<circ> snd) tasks)) = length (table_attempts acc))
        (Error ''Every run attempt must be referenced by its task'')) (\<lambda>_.
      Inr acc)))))"

subsection \<open>Reviews and their findings\<close>

text \<open>The review attempts by id, and the round of every finding.\<close>

record review_table =
  table_reviews :: "(string \<times> json obj) list"
  table_rounds :: "(string \<times> json) list"

definition check_finding :: "string \<Rightarrow> json obj \<Rightarrow> nat \<Rightarrow> json \<Rightarrow> (string \<times> json) list \<Rightarrow> (string \<times> json) list result" where
  "check_finding review_path a index v rounds =
     (let path = at_index (at_field review_path ''findings'') index; f = fields_of v; fid = string_of (get_prop f ''id'');
          paths = items_of (get_prop f ''paths'') in
      and_then (check_object v path) (\<lambda>_.
      and_then (check_texts f path [''id'', ''title'', ''description'', ''recommendation'']) (\<lambda>_.
      and_then (require (get_prop f ''category'' = get_prop a ''category'')
        (Error (path @ ''.category must match its review attempt''))) (\<lambda>_.
      and_then (check_state f path ''severity'' REVIEW_SEVERITIES) (\<lambda>_.
      and_then (check_state f path ''confidence'' REVIEW_CONFIDENCES) (\<lambda>_.
      and_then (check_state f path ''status'' FINDING_STATES) (\<lambda>_.
      and_then (require (is_array (get_prop f ''paths'') \<and> paths \<noteq> [] \<and> list_all (\<lambda>p. is_string p \<and> p \<noteq> JString []) paths)
        (Error (path @ ''.paths must be non-empty strings''))) (\<lambda>_.
      and_then (check_optional_text f path ''repairAttemptId'') (\<lambda>_.
      and_then (require (fid \<notin> fst ` set rounds) (Error (''Duplicate review finding id: '' @ fid))) (\<lambda>_.
      Inr (rounds @ [(fid, get_prop a ''round'')])))))))))))"

definition check_review_attempt :: "nat \<Rightarrow> json \<Rightarrow> review_table \<Rightarrow> review_table result" where
  "check_review_attempt index v acc =
     (let path = at_index ''run.reviewAttempts'' index; a = fields_of v; aid = string_of (get_prop a ''id'') in
      and_then (check_object v path) (\<lambda>_.
      and_then (check_texts a path [''id'', ''worktreePath'', ''baseCommit'', ''startedAt'']) (\<lambda>_.
      and_then (check_optional_text a path ''branch'') (\<lambda>_.
      and_then (check_positive a path ''round'') (\<lambda>_.
      and_then (check_positive a path ''number'') (\<lambda>_.
      and_then (check_state a path ''category'' REVIEW_CATEGORY_SET) (\<lambda>_.
      and_then (check_state a path ''state'' RUN_ATTEMPT_STATES) (\<lambda>_.
      and_then (check_optional_texts a path [''workerId'', ''finishedAt'', ''error'', ''summary'']) (\<lambda>_.
      and_then (if get_prop a ''findings'' = JUndefined then Inr (table_rounds acc)
        else and_then (check_array (get_prop a ''findings'') (at_field path ''findings'')) (\<lambda>_.
          each_entry (check_finding path a) 0 (items_of (get_prop a ''findings'')) (table_rounds acc))) (\<lambda>rounds.
      and_then (if get_prop a ''state'' = JString ''succeeded''
        then and_then (check_texts a path [''finishedAt'', ''summary'']) (\<lambda>_.
          require (is_array (get_prop a ''findings'')) (Error (path @ ''.findings must be present when succeeded'')))
        else Inr ()) (\<lambda>_.
      and_then (require (aid \<notin> fst ` set (table_reviews acc)) (Error (''Duplicate review attempt id: '' @ aid))) (\<lambda>_.
      Inr \<lparr>table_reviews = table_reviews acc @ [(aid, a)], table_rounds = rounds\<rparr>))))))))))))"

definition check_review_attempts :: "json obj \<Rightarrow> review_table result" where
  "check_review_attempts run =
     and_then (check_array (get_prop run ''reviewAttempts'') ''run.reviewAttempts'') (\<lambda>_.
     each_entry check_review_attempt 0 (items_of (get_prop run ''reviewAttempts'')) \<lparr>table_reviews = [], table_rounds = []\<rparr>)"

subsection \<open>Repairs and the integration head\<close>

definition legacy_execution :: "json obj \<Rightarrow> bool" where
  "legacy_execution run \<longleftrightarrow> items_of (get_prop run ''attempts'') \<noteq> [] \<or> items_of (get_prop run ''reviewAttempts'') \<noteq> [] \<or>
     items_of (get_prop run ''repairAttempts'') \<noteq> []"

text \<open>The head after the integrated tasks, in the topological order.\<close>

definition task_head :: "json obj \<Rightarrow> json \<Rightarrow> string list \<Rightarrow> json" where
  "task_head tasks base order = foldl (\<lambda>head tid.
     let committed = get_prop (fields_of (get_prop tasks tid)) ''integratedCommit''
     in if is_string committed then committed else head) base order"

record repair_table =
  table_repairs :: "(string \<times> json obj) list"
  table_head :: json

definition check_repair_head :: "string \<Rightarrow> json obj \<Rightarrow> json \<Rightarrow> json result" where
  "check_repair_head path a head =
     (if get_prop a ''integratedCommit'' = JUndefined then Inr head
      else and_then (check_text a path ''commit'') (\<lambda>_.
        and_then (require (get_prop a ''baseCommit'' = head) (Error (path @ ''.baseCommit breaks the integration chain''))) (\<lambda>_.
        Inr (get_prop a ''integratedCommit''))))"

definition check_repair_attempt ::
    "(rat \<Rightarrow> string) \<Rightarrow> (string \<times> json) list \<Rightarrow> nat \<Rightarrow> json \<Rightarrow> repair_table \<Rightarrow> repair_table result" where
  "check_repair_attempt nt rounds index v acc =
     (let path = at_index ''run.repairAttempts'' index; a = fields_of v; aid = string_of (get_prop a ''id'');
          fids = items_of (get_prop a ''findingIds'') in
      and_then (check_object v path) (\<lambda>_.
      and_then (check_texts a path [''id'', ''branch'', ''worktreePath'', ''baseCommit'', ''startedAt'']) (\<lambda>_.
      and_then (check_positive a path ''round'') (\<lambda>_.
      and_then (check_positive a path ''number'') (\<lambda>_.
      and_then (check_state a path ''state'' RUN_ATTEMPT_STATES) (\<lambda>_.
      and_then (require (is_array (get_prop a ''findingIds'') \<and> fids \<noteq> [] \<and>
          list_all (\<lambda>f. is_string f \<and> map_of rounds (string_of f) = Some (get_prop a ''round'')) fids)
        (Error (path @ ''.findingIds must reference review findings''))) (\<lambda>_.
      and_then (check_optional_texts a path [''workerId'', ''finishedAt'', ''error'', ''commit'', ''integratedCommit'']) (\<lambda>_.
      and_then (check_commit_evidence nt path a) (\<lambda>_.
      and_then (check_repair_head path a (table_head acc)) (\<lambda>head.
      and_then (if get_prop a ''state'' = JString ''succeeded'' then check_texts a path [''finishedAt'', ''integratedCommit'']
        else Inr ()) (\<lambda>_.
      and_then (require (aid \<notin> fst ` set (table_repairs acc)) (Error (''Duplicate repair attempt id: '' @ aid))) (\<lambda>_.
      Inr \<lparr>table_repairs = table_repairs acc @ [(aid, a)], table_head = head\<rparr>))))))))))))"

definition check_repair_attempts ::
    "(rat \<Rightarrow> string) \<Rightarrow> json obj \<Rightarrow> string list \<Rightarrow> (string \<times> json) list \<Rightarrow> repair_table result" where
  "check_repair_attempts nt run order rounds =
     (let head = task_head (fields_of (get_prop run ''tasks'')) (get_prop run ''baseCommit'') order in
      and_then (check_array (get_prop run ''repairAttempts'') ''run.repairAttempts'') (\<lambda>_.
      each_entry (check_repair_attempt nt rounds) 0 (items_of (get_prop run ''repairAttempts''))
        \<lparr>table_repairs = [], table_head = head\<rparr>))"

definition check_integration_head :: "json obj \<Rightarrow> json \<Rightarrow> unit result" where
  "check_integration_head run head =
     require (legacy_execution run \<longrightarrow> get_prop run ''integrationHead'' = head)
       (Error (''run.integrationHead must match integrated task and repair commits ('' @ string_of head @ '')''))"

subsection \<open>Blocked workers\<close>

record attempt_tables =
  tables_tasks :: "(string \<times> json obj) list"
  tables_reviews :: "(string \<times> json obj) list"
  tables_repairs :: "(string \<times> json obj) list"

definition blocked_worker_attempt :: "attempt_tables \<Rightarrow> json obj \<Rightarrow> json obj option" where
  "blocked_worker_attempt tabs b =
     (let aid = string_of (get_prop b ''attemptId''); kind = get_prop b ''attemptKind'' in
      if kind = JString ''task'' then map_of (tables_tasks tabs) aid
      else if kind = JString ''review'' then map_of (tables_reviews tabs) aid
      else map_of (tables_repairs tabs) aid)"

definition check_blocked_worker ::
    "attempt_tables \<Rightarrow> nat \<Rightarrow> json \<Rightarrow> (string \<times> string) list \<Rightarrow> (string \<times> string) list result" where
  "check_blocked_worker tabs index v keys =
     (let path = at_index ''run.blockedWorkers'' index; b = fields_of v;
          key = (string_of (get_prop b ''workerId''), string_of (get_prop b ''requestId'')) in
      and_then (check_object v path) (\<lambda>_.
      and_then (check_texts b path [''attemptId'', ''workerId'', ''blockedAt'', ''requestId'']) (\<lambda>_.
      and_then (each_check (\<lambda>f. require (get_prop b f = JUndefined) (Error (at_field path f @ '' must not be persisted'')))
        [''title'', ''message'', ''options'', ''placeholder'', ''prefill'']) (\<lambda>_.
      and_then (check_state b path ''method'' WORKER_UI_METHODS) (\<lambda>_.
      and_then (check_state b path ''attemptKind'' [''task'', ''review'', ''repair'']) (\<lambda>_.
      and_then (check_optional_text b path ''timeoutAt'') (\<lambda>_.
      and_then (require (length (string_of (get_prop b ''requestId'')) \<le> 256)
        (Error (path @ ''.requestId exceeds 256 characters''))) (\<lambda>_.
      and_then (require (key \<notin> set keys)
        (Error (''Duplicate blocked worker request '' @ snd key @ '' for '' @ fst key))) (\<lambda>_.
      case blocked_worker_attempt tabs b of
        None \<Rightarrow> Inl (Error (path @ ''.attemptId references an unknown attempt''))
      | Some a \<Rightarrow>
          and_then (require (get_prop a ''workerId'' = get_prop b ''workerId'')
            (Error (path @ ''.workerId does not match its attempt''))) (\<lambda>_.
          and_then (require (is_active_state (get_prop a ''state''))
            (Error (path @ '' must reference an active attempt''))) (\<lambda>_.
          Inr (keys @ [key]))))))))))))"

definition check_blocked_workers :: "json obj \<Rightarrow> attempt_tables \<Rightarrow> unit result" where
  "check_blocked_workers run tabs =
     and_then (check_array (get_prop run ''blockedWorkers'') ''run.blockedWorkers'') (\<lambda>_.
     and_then (each_entry (check_blocked_worker tabs) 0 (items_of (get_prop run ''blockedWorkers'')) []) (\<lambda>_. Inr ()))"

subsection \<open>Review rounds\<close>

text \<open>The categories that already succeeded in the round; one of them must not come again.\<close>

fun check_round_attempts ::
    "(rat \<Rightarrow> string) \<Rightarrow> (string \<times> json obj) list \<Rightarrow> string \<Rightarrow> json obj \<Rightarrow> json list \<Rightarrow> json list \<Rightarrow> json list result" where
  "check_round_attempts nt reviews path r categories [] = Inr categories"
| "check_round_attempts nt reviews path r categories (v # vs) =
     (case map_of reviews (js_string nt v) of
        None \<Rightarrow> Inl (Error (path @ '' references invalid review attempt '' @ js_string nt v))
      | Some a \<Rightarrow>
          and_then (require (get_prop a ''round'' = get_prop r ''number'' \<and> get_prop a ''baseCommit'' = get_prop r ''baseCommit'')
            (Error (path @ '' references invalid review attempt '' @ js_string nt v))) (\<lambda>_.
          and_then (require (get_prop a ''category'' \<notin> set categories)
            (Error (path @ '' has duplicate succeeded review categories''))) (\<lambda>_.
          check_round_attempts nt reviews path r
            (if get_prop a ''state'' = JString ''succeeded'' then categories @ [get_prop a ''category''] else categories) vs)))"

definition check_review_round ::
    "(rat \<Rightarrow> string) \<Rightarrow> attempt_tables \<Rightarrow> nat \<Rightarrow> json \<Rightarrow> string list \<Rightarrow> string list result" where
  "check_review_round nt tabs index v referenced =
     (let path = at_index ''run.reviewRounds'' index; r = fields_of v; ids = items_of (get_prop r ''attemptIds'');
          repair = get_prop r ''repairAttemptId'' in
      and_then (check_object v path) (\<lambda>_.
      and_then (require (get_prop r ''number'' = JNum (of_nat (Suc index))) (Error (path @ ''.number must be sequential''))) (\<lambda>_.
      and_then (check_texts r path [''baseCommit'', ''startedAt'']) (\<lambda>_.
      and_then (check_state r path ''state'' REVIEW_ROUND_STATES) (\<lambda>_.
      and_then (require (is_array (get_prop r ''attemptIds'') \<and> unique_entries ids)
        (Error (path @ ''.attemptIds must be a unique array''))) (\<lambda>_.
      and_then (check_round_attempts nt (tables_reviews tabs) path r [] ids) (\<lambda>categories.
      and_then (check_optional_texts r path [''finishedAt'', ''repairAttemptId'', ''error'']) (\<lambda>_.
      and_then (require (repair = JUndefined \<or> (\<exists>a. map_of (tables_repairs tabs) (string_of repair) = Some a \<and>
          get_prop a ''round'' = get_prop r ''number'')) (Error (path @ ''.repairAttemptId is invalid''))) (\<lambda>_.
      and_then (require (get_prop r ''state'' = JString ''succeeded'' \<longrightarrow> length categories = length REVIEW_CATEGORIES)
        (Error (path @ '' succeeded without all review categories''))) (\<lambda>_.
      Inr (referenced @ map (js_string nt) ids)))))))))))"

definition check_review_rounds :: "(rat \<Rightarrow> string) \<Rightarrow> json obj \<Rightarrow> attempt_tables \<Rightarrow> unit result" where
  "check_review_rounds nt run tabs =
     and_then (check_array (get_prop run ''reviewRounds'') ''run.reviewRounds'') (\<lambda>_.
     and_then (each_entry (check_review_round nt tabs) 0 (items_of (get_prop run ''reviewRounds'')) []) (\<lambda>referenced.
     require (set_size referenced = length (tables_reviews tabs))
       (Error ''Every review attempt must be referenced by a review round'')))"

definition findings_of :: "json obj \<Rightarrow> json list" where
  "findings_of a = items_of (get_prop a ''findings'')"

definition check_repaired_finding :: "(rat \<Rightarrow> string) \<Rightarrow> (string \<times> json obj) list \<Rightarrow> json \<Rightarrow> unit result" where
  "check_repaired_finding nt repairs v =
     (let f = fields_of v in
      require (get_prop f ''status'' = JString ''repaired'' \<longrightarrow>
          (\<exists>a. map_of repairs (js_string nt (get_prop f ''repairAttemptId'')) = Some a \<and>
             get_prop a ''state'' = JString ''succeeded'' \<and> get_prop a ''integratedCommit'' \<notin> {JUndefined, JString []} \<and>
             get_prop f ''id'' \<in> set (items_of (get_prop a ''findingIds''))))
        (Error (''Repaired finding '' @ js_string nt (get_prop f ''id'') @ '' must reference an integrated repair attempt'')))"

definition check_repaired_findings :: "(rat \<Rightarrow> string) \<Rightarrow> attempt_tables \<Rightarrow> unit result" where
  "check_repaired_findings nt tabs =
     each_check (\<lambda>(aid, a). each_check (check_repaired_finding nt (tables_repairs tabs)) (findings_of a)) (tables_reviews tabs)"

definition latest_round :: "json obj \<Rightarrow> json" where
  "latest_round run = (case items_of (get_prop run ''reviewRounds'') of [] \<Rightarrow> JUndefined | r # rs \<Rightarrow> last (r # rs))"

definition open_finding :: "json \<Rightarrow> bool" where
  "open_finding v \<longleftrightarrow> is_record v \<and> state_in (get_prop (fields_of v) ''status'') [''repair_required'', ''unresolved'']"

definition check_reviewed :: "json obj \<Rightarrow> attempt_tables \<Rightarrow> unit result" where
  "check_reviewed run tabs =
     (if legacy_execution run \<and> state_in (get_prop run ''state'') [''reviewed'', ''validating'', ''completed''] then
        and_then (require (is_record (latest_round run) \<and> get_prop (fields_of (latest_round run)) ''state'' = JString ''succeeded'')
          (Error ''Reviewed run must have a succeeded final review round'')) (\<lambda>_.
        require (\<not> list_ex (\<lambda>(aid, a). list_ex open_finding (findings_of a)) (tables_reviews tabs))
          (Error ''Reviewed run cannot contain unresolved important findings''))
      else Inr ())"

subsection \<open>Final validation\<close>

text \<open>The evidence of a final attempt is checked as stored evidence without changed files.\<close>

definition check_final_evidence :: "(rat \<Rightarrow> string) \<Rightarrow> string \<Rightarrow> json obj \<Rightarrow> unit result" where
  "check_final_evidence nt path a =
     (let v = get_prop a ''evidence''; e = fields_of v; epath = at_field path ''evidence'' in
      if v = JUndefined then Inr ()
      else
        and_then (check_object v epath) (\<lambda>_.
        and_then (check_texts e epath [''startedAt'', ''finishedAt'']) (\<lambda>_.
        and_then (require (get_prop e ''passed'' \<in> {JBool True, JBool False}) (Error (epath @ ''.passed must be a boolean''))) (\<lambda>_.
        and_then (check_array (get_prop e ''checks'') (at_field epath ''checks'')) (\<lambda>_.
        and_then (validate_stored_evidence nt
          (JObject (obj_set (obj_set e ''changedFiles'' (JArray [])) ''diffHash'' (JString []))) epath) (\<lambda>_. Inr ()))))))"

definition approved_check :: "(rat \<Rightarrow> string) \<Rightarrow> validation_command \<Rightarrow> json \<Rightarrow> bool" where
  "approved_check nt c v \<longleftrightarrow> (let k = fields_of v in is_record v \<and> get_prop k ''passed'' = JBool True \<and>
     get_prop k ''command'' = JString (command_name c) \<and>
     stringify nt (get_prop k ''args'') = stringify nt (string_array_json (command_args c)))"

definition check_final_success :: "(rat \<Rightarrow> string) \<Rightarrow> task_plan \<Rightarrow> string \<Rightarrow> json obj \<Rightarrow> unit result" where
  "check_final_success nt plan path a =
     (let checks = get_prop (fields_of (get_prop a ''evidence'')) ''checks''; commands = task_plan_final plan in
      if get_prop a ''state'' \<noteq> JString ''succeeded'' then Inr ()
      else
        and_then (check_text a path ''finishedAt'') (\<lambda>_.
        and_then (require (passed_evidence a) (Error (path @ '' succeeded without passing evidence''))) (\<lambda>_.
        require (is_array checks \<and> list_all2 (approved_check nt) commands (items_of checks))
          (Error (path @ '' evidence must match every approved final validation command in order'')))))"

definition check_final_attempt ::
    "(rat \<Rightarrow> string) \<Rightarrow> task_plan \<Rightarrow> nat \<Rightarrow> json \<Rightarrow> string list \<Rightarrow> string list result" where
  "check_final_attempt nt plan index v ids =
     (let path = at_index ''run.finalValidationAttempts'' index; a = fields_of v; aid = string_of (get_prop a ''id'') in
      and_then (check_object v path) (\<lambda>_.
      and_then (check_texts a path [''id'', ''integrationCommit'', ''worktreePath'', ''startedAt'']) (\<lambda>_.
      and_then (require (get_prop a ''number'' = JNum (of_nat (Suc index))) (Error (path @ ''.number must be sequential''))) (\<lambda>_.
      and_then (check_state a path ''state'' FINAL_VALIDATION_ATTEMPT_STATES) (\<lambda>_.
      and_then (each_check (check_optional_text a path) [''finishedAt'', ''error'']) (\<lambda>_.
      and_then (check_final_evidence nt path a) (\<lambda>_.
      and_then (check_final_success nt plan path a) (\<lambda>_.
      and_then (require (aid \<notin> set ids) (Error (''Duplicate final validation attempt id: '' @ aid))) (\<lambda>_.
      Inr (ids @ [aid]))))))))))"

definition final_attempts :: "json obj \<Rightarrow> json list" where
  "final_attempts run = items_of (get_prop run ''finalValidationAttempts'')"

definition final_running :: "json \<Rightarrow> bool" where
  "final_running v \<longleftrightarrow> is_record v \<and> get_prop (fields_of v) ''state'' = JString ''running''"

definition check_final_attempts :: "(rat \<Rightarrow> string) \<Rightarrow> json obj \<Rightarrow> task_plan \<Rightarrow> unit result" where
  "check_final_attempts nt run plan =
     (let live = length (filter final_running (final_attempts run)) in
      and_then (check_array (get_prop run ''finalValidationAttempts'') ''run.finalValidationAttempts'') (\<lambda>_.
      and_then (each_entry (check_final_attempt nt plan) 0 (final_attempts run) []) (\<lambda>_.
      and_then (require (live \<le> 1) (Error ''Run cannot have more than one active final validation attempt'')) (\<lambda>_.
      require ((get_prop run ''state'' = JString ''validating'') = (live = 1))
        (Error ''Validating run state must have exactly one running final validation attempt'')))))"

text \<open>The last validation that passed at the integration head.\<close>

definition successful_validation :: "json obj \<Rightarrow> json option" where
  "successful_validation run = find_last (\<lambda>v. is_record v \<and> get_prop (fields_of v) ''state'' = JString ''succeeded'' \<and>
     get_prop (fields_of v) ''integrationCommit'' = get_prop run ''integrationHead'') (final_attempts run)"

subsection \<open>Merge-ready evidence\<close>

definition check_evidence_refs :: "(rat \<Rightarrow> string) \<Rightarrow> json obj \<Rightarrow> json \<Rightarrow> unit result" where
  "check_evidence_refs nt run v =
     (let path = ''run.mergeReadyEvidence''; m = fields_of v in
      and_then (require (is_record v \<and> get_prop m ''version'' = JNum (of_int MERGE_READY_EVIDENCE_VERSION))
        (Error ''run.mergeReadyEvidence has an unsupported version'')) (\<lambda>_.
      and_then (check_texts m path [''generatedAt'', ''integrationBranch'', ''integrationHead'', ''baseBranch'', ''baseCommit'']) (\<lambda>_.
      and_then (assert_run_security_policy nt (get_prop m ''securityPolicy'') (at_field path ''securityPolicy'')) (\<lambda>_.
      and_then (require (stringify nt (get_prop m ''securityPolicy'') = stringify nt (get_prop run ''securityPolicy''))
        (Error ''run.mergeReadyEvidence.securityPolicy must match the immutable run policy'')) (\<lambda>_.
      and_then (require (\<forall>f\<in>set [''integrationBranch'', ''integrationHead'', ''baseBranch'', ''baseCommit''].
          get_prop m f = get_prop run f) (Error ''run.mergeReadyEvidence does not match the run refs'')) (\<lambda>_.
      each_check (\<lambda>f. check_array (get_prop m f) (at_field path f))
        [''commits'', ''finalReviews'', ''remainingRisks'', ''finalChecks'']))))))"

definition check_evidence_git :: "json obj \<Rightarrow> json obj \<Rightarrow> unit result" where
  "check_evidence_git run m =
     (let path = ''run.mergeReadyEvidence.git''; g = fields_of (get_prop m ''git'') in
      and_then (check_object (get_prop m ''git'') path) (\<lambda>_.
      and_then (check_texts g path [''verifiedAt'', ''integrationBranch'', ''integrationHead'', ''baseBranch'', ''baseCommit'',
        ''userBranch'', ''userHead'']) (\<lambda>_.
      and_then (require (get_prop g ''userWorktreeClean'' = JBool True \<and>
          (\<forall>f\<in>set [''integrationBranch'', ''integrationHead'', ''baseBranch'', ''baseCommit'']. get_prop g f = get_prop run f) \<and>
          get_prop g ''userBranch'' = get_prop run ''baseBranch'' \<and> get_prop g ''userHead'' = get_prop run ''baseCommit'')
        (Error ''run.mergeReadyEvidence.git does not prove untouched refs'')) (\<lambda>_.
      check_array (get_prop g ''commits'') (at_field path ''commits'')))))"

definition check_claimed_commit :: "nat \<Rightarrow> json \<Rightarrow> json list \<Rightarrow> json list result" where
  "check_claimed_commit index v claimed =
     (let path = at_index ''run.mergeReadyEvidence.commits'' index in
      and_then (check_object v path) (\<lambda>_.
      and_then (check_texts (fields_of v) path [''integratedCommit'', ''sourceCommit'']) (\<lambda>_.
      Inr (claimed @ [get_prop (fields_of v) ''integratedCommit'']))))"

text \<open>The commits a run with task attempts must claim: its tasks in order, then its repairs.\<close>

definition commit_claim :: "string \<Rightarrow> string \<Rightarrow> json \<Rightarrow> json \<Rightarrow> json" where
  "commit_claim kind cid source committed = JObject [(''kind'', JString kind), (''id'', JString cid),
     (''sourceCommit'', source), (''integratedCommit'', committed)]"

definition expected_task_commit :: "(rat \<Rightarrow> string) \<Rightarrow> json obj \<Rightarrow> string \<Rightarrow> json result" where
  "expected_task_commit nt run tid =
     (let v = get_prop (fields_of (get_prop run ''tasks'')) tid in
      and_then (require (is_record v) (Error (''Missing persisted task '' @ tid))) (\<lambda>_.
      case find_last (\<lambda>a. is_record a \<and> js_string nt (get_prop (fields_of a) ''id'') \<in> set (task_attempt_ids v) \<and>
          get_prop (fields_of a) ''state'' = JString ''succeeded'' \<and> is_string (get_prop (fields_of a) ''commit''))
        (items_of (get_prop run ''attempts'')) of
        None \<Rightarrow> Inl (Error (''Task '' @ tid @ '' lacks source commit evidence''))
      | Some a \<Rightarrow> Inr (commit_claim ''task'' tid (get_prop (fields_of a) ''commit'')
          (JString (js_string nt (get_prop (fields_of v) ''integratedCommit''))))))"

definition expected_repair_commits :: "(rat \<Rightarrow> string) \<Rightarrow> json obj \<Rightarrow> json list" where
  "expected_repair_commits nt run = map (\<lambda>v. let a = fields_of v in
       commit_claim ''repair'' (js_string nt (get_prop a ''id'')) (get_prop a ''commit'') (get_prop a ''integratedCommit''))
     (filter (\<lambda>v. let a = fields_of v in is_record v \<and> get_prop a ''state'' = JString ''succeeded'' \<and>
        is_string (get_prop a ''commit'') \<and> is_string (get_prop a ''integratedCommit'')) (items_of (get_prop run ''repairAttempts'')))"

definition check_commit_order :: "(rat \<Rightarrow> string) \<Rightarrow> json obj \<Rightarrow> json obj \<Rightarrow> string list \<Rightarrow> unit result" where
  "check_commit_order nt run m order =
     (if legacy_execution run then
        and_then (each_result (expected_task_commit nt run) order) (\<lambda>tasks.
        require (stringify nt (get_prop m ''commits'') = stringify nt (JArray (tasks @ expected_repair_commits nt run)))
          (Error ''run.mergeReadyEvidence.commits must exactly match integrated task and repair order''))
      else Inr ())"

text \<open>
  The commits git reports, each after the one before. The subject of a commit is asserted, and only then
  is the commit compared, up to the first that differs.
\<close>

fun check_git_chain :: "nat \<Rightarrow> json \<Rightarrow> json list \<Rightarrow> json list \<Rightarrow> bool result" where
  "check_git_chain index parent (c # cs) (v # vs) =
     (let g = fields_of v in
      if \<not> is_record v then Inr False
      else
        and_then (check_text g (at_index ''run.mergeReadyEvidence.git.commits'' index) ''subject'') (\<lambda>_.
        if get_prop g ''hash'' = c \<and> get_prop g ''parent'' = parent then check_git_chain (Suc index) c cs vs else Inr False))"
| "check_git_chain index parent cs vs = Inr (cs = [] \<and> vs = [])"

definition check_git_commits :: "json obj \<Rightarrow> json obj \<Rightarrow> json list \<Rightarrow> unit result" where
  "check_git_commits run m claimed =
     (let commits = items_of (get_prop (fields_of (get_prop m ''git'')) ''commits'');
          problem = Error ''run.mergeReadyEvidence.git.commits must match the exact linear integration chain'' in
      and_then (require (length commits = length claimed) problem) (\<lambda>_.
      and_then (check_git_chain 0 (get_prop run ''baseCommit'') claimed commits) (\<lambda>linear. require linear problem)))"

text \<open>The reviews of the last round, and the findings they leave.\<close>

definition final_reviews :: "json obj \<Rightarrow> json list" where
  "final_reviews run = filter (\<lambda>v. let a = fields_of v in is_record v \<and>
       get_prop a ''round'' = get_prop (fields_of (latest_round run)) ''number'' \<and> get_prop a ''state'' = JString ''succeeded'')
     (items_of (get_prop run ''reviewAttempts''))"

definition expected_review :: "json list \<Rightarrow> string \<Rightarrow> json result" where
  "expected_review reviews category =
     (let problem = Error (''run.mergeReadyEvidence is missing the final '' @ category @ '' review'') in
      case find (\<lambda>v. get_prop (fields_of v) ''category'' = JString category) reviews of
        None \<Rightarrow> Inl problem
      | Some v \<Rightarrow> and_then (require (is_string (get_prop (fields_of v) ''summary'')) problem) (\<lambda>_.
          Inr (JObject [(''category'', JString category), (''summary'', get_prop (fields_of v) ''summary'')])))"

definition remaining_risks :: "(string \<Rightarrow> string \<Rightarrow> bool) \<Rightarrow> (rat \<Rightarrow> string) \<Rightarrow> json list \<Rightarrow> json list" where
  "remaining_risks loc nt reviews =
     sort_by (\<lambda>l r. loc (js_string nt (get_prop (fields_of l) ''id'')) (js_string nt (get_prop (fields_of r) ''id'')))
       (filter (\<lambda>f. is_record f \<and> get_prop (fields_of f) ''status'' = JString ''deferred'')
         (concat (map (\<lambda>v. findings_of (fields_of v)) reviews)))"

definition check_legacy_reviews ::
    "(string \<Rightarrow> string \<Rightarrow> bool) \<Rightarrow> (rat \<Rightarrow> string) \<Rightarrow> json obj \<Rightarrow> json obj \<Rightarrow> unit result" where
  "check_legacy_reviews loc nt run m =
     and_then (require (case get_prop (fields_of (latest_round run)) ''number'' of JNum _ \<Rightarrow> is_record (latest_round run) | _ \<Rightarrow> False)
       (Error ''run.mergeReadyEvidence requires a completed final review round'')) (\<lambda>_.
     and_then (each_result (expected_review (final_reviews run)) REVIEW_CATEGORY_SET) (\<lambda>reviews.
     and_then (require (stringify nt (get_prop m ''finalReviews'') = stringify nt (JArray reviews))
       (Error ''run.mergeReadyEvidence.finalReviews must match the final review round'')) (\<lambda>_.
     require (stringify nt (get_prop m ''remainingRisks'') = stringify nt (JArray (remaining_risks loc nt (final_reviews run))))
       (Error ''run.mergeReadyEvidence.remainingRisks must match deferred findings from the final review round''))))"

definition check_risk :: "nat \<Rightarrow> json \<Rightarrow> string list \<Rightarrow> string list result" where
  "check_risk index v ids =
     (let f = fields_of v in
      and_then (require (is_record v \<and> get_prop f ''status'' = JString ''deferred'')
        (Error ''run.mergeReadyEvidence.remainingRisks must contain only deferred findings'')) (\<lambda>_.
      and_then (check_text f (at_index ''run.mergeReadyEvidence.remainingRisks'' index) ''id'') (\<lambda>_.
      Inr (ids @ [string_of (get_prop f ''id'')]))))"

definition check_engine_review :: "nat \<Rightarrow> json \<Rightarrow> unit \<Rightarrow> unit result" where
  "check_engine_review index v acc =
     check_text (fields_of v) (at_index ''run.mergeReadyEvidence.finalReviews'' index) ''summary''"

definition check_engine_reviews ::
    "(string \<Rightarrow> string \<Rightarrow> bool) \<Rightarrow> (rat \<Rightarrow> string) \<Rightarrow> json obj \<Rightarrow> unit result" where
  "check_engine_reviews loc nt m =
     (let reviews = items_of (get_prop m ''finalReviews'') in
      and_then (require (stringify nt (JArray (map (\<lambda>v. get_prop (fields_of v) ''category'') reviews)) =
          stringify nt (string_array_json REVIEW_CATEGORY_SET))
        (Error ''run.mergeReadyEvidence.finalReviews must cover every review category in order'')) (\<lambda>_.
      and_then (each_entry check_engine_review 0 reviews ()) (\<lambda>_.
      and_then (each_entry check_risk 0 (items_of (get_prop m ''remainingRisks'')) []) (\<lambda>ids.
      require (stringify nt (string_array_json ids) = stringify nt (string_array_json (sort_by loc ids)))
        (Error ''run.mergeReadyEvidence.remainingRisks must be sorted by finding id'')))))"

definition check_final_checks :: "(rat \<Rightarrow> string) \<Rightarrow> json obj \<Rightarrow> json obj \<Rightarrow> unit result" where
  "check_final_checks nt run m =
     require (case successful_validation run of None \<Rightarrow> False
       | Some v \<Rightarrow> let e = get_prop (fields_of v) ''evidence'' in is_record e \<and>
           stringify nt (get_prop m ''finalChecks'') = stringify nt (get_prop (fields_of e) ''checks''))
       (Error ''run.mergeReadyEvidence.finalChecks must match passing final validation evidence'')"

definition check_merge_ready ::
    "(string \<Rightarrow> string \<Rightarrow> bool) \<Rightarrow> (rat \<Rightarrow> string) \<Rightarrow> json obj \<Rightarrow> string list \<Rightarrow> unit result" where
  "check_merge_ready loc nt run order =
     (let v = get_prop run ''mergeReadyEvidence''; m = fields_of v in
      if v = JUndefined then Inr ()
      else
        and_then (check_evidence_refs nt run v) (\<lambda>_.
        and_then (check_evidence_git run m) (\<lambda>_.
        and_then (each_entry check_claimed_commit 0 (items_of (get_prop m ''commits'')) []) (\<lambda>claimed.
        and_then (check_commit_order nt run m order) (\<lambda>_.
        and_then (check_git_commits run m claimed) (\<lambda>_.
        and_then (if legacy_execution run then check_legacy_reviews loc nt run m else check_engine_reviews loc nt m) (\<lambda>_.
        check_final_checks nt run m)))))))"

subsection \<open>Completion, activity and the whole run\<close>

definition check_completion :: "json obj \<Rightarrow> unit result" where
  "check_completion run =
     (let state = get_prop run ''state''; evidence = get_prop run ''mergeReadyEvidence'' in
      and_then (require (state = JString ''completed'' \<longrightarrow> successful_validation run \<noteq> None \<and> evidence \<noteq> JUndefined)
        (Error ''Completed run requires passing final validation at integrationHead and merge-ready evidence'')) (\<lambda>_.
      require (\<not> (state_in state [''failed'', ''cancelled''] \<and> evidence \<noteq> JUndefined))
        (Error (string_of state @ '' run cannot have merge-ready evidence''))))"

definition active_of :: "(string \<times> json obj) list \<Rightarrow> json obj list" where
  "active_of table = filter (\<lambda>a. is_active_state (get_prop a ''state'')) (map snd table)"

definition check_task_activity :: "attempt_tables \<Rightarrow> string \<times> json \<Rightarrow> unit result" where
  "check_task_activity tabs entry = (case entry of (tid, v) \<Rightarrow>
     let state = get_prop (fields_of v) ''state'' in
     and_then (require (state_in state [''running'', ''validating''] \<longrightarrow>
         (\<exists>a\<in>set (active_of (tables_tasks tabs)). get_prop a ''taskId'' = JString tid))
       (Error (''Active task '' @ tid @ '' has no active attempt''))) (\<lambda>_.
     require (state = JString ''succeeded'' \<longrightarrow> list_ex (\<lambda>aid. \<exists>a. map_of (tables_tasks tabs) aid = Some a \<and>
         get_prop a ''state'' = JString ''succeeded'') (task_attempt_ids v))
       (Error (''Succeeded task '' @ tid @ '' has no succeeded committed attempt''))))"

definition check_activity :: "json obj \<Rightarrow> attempt_tables \<Rightarrow> unit result" where
  "check_activity run tabs =
     (let tasks = map (\<lambda>a. string_of (get_prop a ''taskId'')) (active_of (tables_tasks tabs));
          active = length tasks + length (active_of (tables_reviews tabs)) + length (active_of (tables_repairs tabs)) in
      and_then (require (int active \<le> to_int (get_prop run ''maxConcurrentWorkers''))
        (Error ''Run has more active attempts than its concurrency limit'')) (\<lambda>_.
      and_then (each_check (\<lambda>tid. require (count_list tasks tid \<le> 1)
        (Error (''Task '' @ tid @ '' has more than one active attempt''))) (remdups tasks)) (\<lambda>_.
      each_check (check_task_activity tabs) (fields_of (get_prop run ''tasks'')))))"

definition check_unapproved :: "json obj \<Rightarrow> unit result" where
  "check_unapproved run =
     require (get_prop run ''approvedPlanRevision'' = JUndefined \<longrightarrow>
         list_all (\<lambda>f. items_of (get_prop run f) = [])
           [''attempts'', ''reviewRounds'', ''reviewAttempts'', ''repairAttempts'', ''finalValidationAttempts''] \<and>
         get_prop run ''mergeReadyEvidence'' = JUndefined \<and> get_prop run ''integrationHead'' = get_prop run ''baseCommit'')
       (Error ''Unapproved run cannot contain execution side effects'')"

definition check_request :: "json obj \<Rightarrow> unit result" where
  "check_request run =
     and_then (check_object (get_prop run ''request'') ''run.request'') (\<lambda>_.
     check_texts (fields_of (get_prop run ''request'')) ''run.request'' [''sourcePath'', ''text''])"

definition check_execution ::
    "(string \<Rightarrow> string \<Rightarrow> bool) \<Rightarrow> (rat \<Rightarrow> string) \<Rightarrow> json obj \<Rightarrow> task_plan \<Rightarrow> string list \<Rightarrow> unit result" where
  "check_execution loc nt run plan order =
     and_then (check_task_attempts nt run plan) (\<lambda>attempts.
     and_then (check_texts run ''run'' [''integrationHead'']) (\<lambda>_.
     and_then (check_optional_text run ''run'' ''error'') (\<lambda>_.
     and_then (check_review_attempts run) (\<lambda>reviews.
     and_then (check_repair_attempts nt run order (table_rounds reviews)) (\<lambda>repairs.
     let tabs = \<lparr>tables_tasks = table_attempts attempts, tables_reviews = table_reviews reviews,
           tables_repairs = table_repairs repairs\<rparr> in
     and_then (check_blocked_workers run tabs) (\<lambda>_.
     and_then (check_integration_head run (table_head repairs)) (\<lambda>_.
     and_then (check_review_rounds nt run tabs) (\<lambda>_.
     and_then (check_repaired_findings nt tabs) (\<lambda>_.
     and_then (check_reviewed run tabs) (\<lambda>_.
     and_then (check_final_attempts nt run plan) (\<lambda>_.
     and_then (check_merge_ready loc nt run order) (\<lambda>_.
     and_then (check_completion run) (\<lambda>_.
     and_then (check_activity run tabs) (\<lambda>_.
     and_then (check_unapproved run) (\<lambda>_.
     check_request run)))))))))))))))"

text \<open>\<open>validateStoredRun\<close>: the migrated value when it passes every check.\<close>

definition validate_stored_run ::
    "(json \<Rightarrow> string) \<Rightarrow> (string \<Rightarrow> string \<Rightarrow> bool) \<Rightarrow> (rat \<Rightarrow> string) \<Rightarrow> json \<Rightarrow> json result" where
  "validate_stored_run sha loc nt v =
     and_then (check_object v ''run'') (\<lambda>_.
     and_then (require (get_prop (fields_of v) ''schemaVersion'' \<notin> {JNum 2, JNum 3})
       (Error (''Legacy run snapshots cannot become merge-ready because they lack an explicitly approved final '' @
         ''validation suite; start a new approved run''))) (\<lambda>_.
     let run = migrate_legacy_run (fields_of v) in
     and_then (check_run_identity nt run) (\<lambda>_.
     and_then (validate_task_plan (get_prop run ''plan'')) (\<lambda>plan.
     and_then (check_run_authority sha nt run plan) (\<lambda>_.
     and_then (check_plan_history nt run plan) (\<lambda>_.
     and_then (check_approval nt run) (\<lambda>_.
     and_then (check_run_tasks nt run plan) (\<lambda>_.
     and_then (topological_task_ids plan) (\<lambda>order.
     and_then (check_execution loc nt run plan order) (\<lambda>_.
     Inr (JObject run)))))))))))"

subsection \<open>What a write may change\<close>

definition authority_absent :: "json \<Rightarrow> bool" where
  "authority_absent v \<longleftrightarrow> v = JUndefined \<or> v = JNull"

definition check_authority_change :: "json \<Rightarrow> json \<Rightarrow> bool \<Rightarrow> unit result" where
  "check_authority_change current proposed plan_changed =
     (let c = fields_of current; q = fields_of proposed in
      if authority_absent current then
        require (authority_absent proposed) (Error ''A run cannot gain a frozen authority envelope after creation'')
      else
        and_then (require (\<not> authority_absent proposed) (Error ''A run's frozen authority envelope cannot be dropped'')) (\<lambda>_.
        and_then (require (get_prop q ''source'' = get_prop c ''source'') (Error ''A run's authority source is immutable'')) (\<lambda>_.
        if get_prop q ''digest'' = get_prop c ''digest'' then Inr ()
        else and_then (require (get_prop c ''source'' \<noteq> JString ''authored'')
          (Error ''An approved authority envelope is immutable'')) (\<lambda>_.
        require plan_changed (Error ''A derived authority envelope can only change with its plan revision'')))))"

definition check_revision_kept :: "(rat \<Rightarrow> string) \<Rightarrow> json list \<Rightarrow> nat \<Rightarrow> json \<Rightarrow> unit \<Rightarrow> unit result" where
  "check_revision_kept nt proposed index v acc =
     require (stringify nt (if index < length proposed then proposed ! index else JUndefined) = stringify nt v)
       (Error (''Plan revision '' @ js_string nt (get_prop (fields_of v) ''number'') @ '' is immutable''))"

definition plan_unchanged :: "(rat \<Rightarrow> string) \<Rightarrow> json obj \<Rightarrow> json obj \<Rightarrow> bool" where
  "plan_unchanged nt current proposed \<longleftrightarrow>
     (\<forall>f\<in>set [''approvedPlanRevision'', ''approvedAt'', ''planRevision'', ''maxConcurrentWorkers''].
        get_prop proposed f = get_prop current f) \<and>
     length (items_of (get_prop proposed ''planRevisions'')) = length (items_of (get_prop current ''planRevisions'')) \<and>
     stringify nt (get_prop proposed ''plan'') = stringify nt (get_prop current ''plan'')"

definition assert_plan_history_transition :: "(rat \<Rightarrow> string) \<Rightarrow> json obj \<Rightarrow> json obj \<Rightarrow> unit result" where
  "assert_plan_history_transition nt current proposed =
     (let kept = items_of (get_prop current ''planRevisions''); revised = items_of (get_prop proposed ''planRevisions'') in
      and_then (require (stringify nt (get_prop proposed ''securityPolicy'') = stringify nt (get_prop current ''securityPolicy''))
        (Error ''Run security policy is immutable'')) (\<lambda>_.
      and_then (check_authority_change (get_prop current ''authority'') (get_prop proposed ''authority'')
        (get_prop proposed ''planRevision'' \<noteq> get_prop current ''planRevision'')) (\<lambda>_.
      and_then (require (length kept \<le> length revised) (Error ''Plan revision history cannot be truncated'')) (\<lambda>_.
      and_then (each_entry (check_revision_kept nt revised) 0 kept ()) (\<lambda>_.
      require (get_prop current ''approvedPlanRevision'' \<noteq> JUndefined \<longrightarrow> plan_unchanged nt current proposed)
        (Error ''Approved plan revision is immutable''))))))"

subsection \<open>The store of runs\<close>

text \<open>
  \<open>store_locale\<close> is \<open>localeCompare\<close> as an order of ids. A missing file is told apart from the other failures of
  a read, as \<open>ENOENT\<close> is.
\<close>

record task_store_env = run_store_env +
  store_locale :: "string \<Rightarrow> string \<Rightarrow> bool"

definition validated_run :: "task_store_env \<Rightarrow> json \<Rightarrow> json result" where
  "validated_run env v = validate_stored_run (store_sha env) (store_locale env) (store_number env) v"

definition write_task_run :: "task_store_env \<Rightarrow> run_files \<Rightarrow> json \<Rightarrow> run_files result" where
  "write_task_run env files run =
     and_then (validated_run env run) (\<lambda>validated.
     Inr (obj_set files (json_name (string_of (run_key validated))) (Inr (reparsed validated))))"

definition parsed_file :: "task_store_env \<Rightarrow> string \<Rightarrow> stored_file \<Rightarrow> json result" where
  "parsed_file env name file = (case file of
       Inl m \<Rightarrow> Inl (Error (''Invalid JSON in '' @ store_directory env @ ''/'' @ name)) | Inr v \<Rightarrow> Inr v)"

definition read_validated :: "task_store_env \<Rightarrow> string \<Rightarrow> stored_file \<Rightarrow> json result" where
  "read_validated env name file = and_then (parsed_file env name file) (validated_run env)"

definition create_run :: "task_store_env \<Rightarrow> run_files \<Rightarrow> json \<Rightarrow> (run_files \<times> json) result" where
  "create_run env files run =
     and_then (validated_run env run) (\<lambda>validated.
     let rid = string_of (run_key validated) in
     and_then (require (obj_get files (json_name rid) = None) (Error (''Run already exists: '' @ rid))) (\<lambda>_.
     and_then (write_task_run env files validated) (\<lambda>files'. Inr (files', validated))))"

definition with_revision :: "json \<Rightarrow> int \<Rightarrow> json" where
  "with_revision run n = JObject (obj_set (fields_of run) ''revision'' (JNum (of_int n)))"

text \<open>The fields a transaction sets itself.\<close>

definition stamped :: "json \<Rightarrow> int \<Rightarrow> json" where
  "stamped run n = with_revision (JObject (obj_set (fields_of run) ''schemaVersion'' (JNum (of_int RUN_SCHEMA_VERSION)))) n"

definition revision_of :: "json \<Rightarrow> int" where
  "revision_of run = to_int (get_prop (fields_of run) ''revision'')"

definition save_run :: "task_store_env \<Rightarrow> run_files \<Rightarrow> json \<Rightarrow> run_files result" where
  "save_run env files run =
     and_then (validated_run env run) (\<lambda>validated.
     let name = json_name (string_of (run_key validated)) in
     case obj_get files name of
       None \<Rightarrow> write_task_run env files validated
     | Some file \<Rightarrow>
         and_then (read_validated env name file) (\<lambda>current.
         and_then (require (revision_of current = revision_of validated)
           (Error (''Stale run revision '' @ js_string (store_number env) (get_prop (fields_of validated) ''revision'') @
             ''; current revision is '' @ js_string (store_number env) (get_prop (fields_of current) ''revision'')))) (\<lambda>_.
         and_then (assert_plan_history_transition (store_number env) (fields_of current) (fields_of validated)) (\<lambda>_.
         if stringify (store_number env) current = stringify (store_number env) validated then Inr files
         else write_task_run env files (with_revision validated (revision_of current + 1))))))"

text \<open>\<open>mutate\<close> gives a run and whether it is the object it was handed.\<close>

definition run_transaction ::
    "task_store_env \<Rightarrow> run_files \<Rightarrow> string \<Rightarrow> (json \<Rightarrow> (json \<times> bool) result) \<Rightarrow> (run_files \<times> json) result" where
  "run_transaction env files rid mutate =
     and_then (file_name_for rid) (\<lambda>name.
     case obj_get files name of
       None \<Rightarrow> Inl (missing_file (run_store_env.truncate env) name)
     | Some file \<Rightarrow>
         and_then (read_validated env name file) (\<lambda>current.
         and_then (mutate current) (\<lambda>(proposed, same).
         if same \<and> stringify (store_number env) proposed = stringify (store_number env) current then Inr (files, proposed)
         else
           and_then (require (run_key proposed = run_key current) (Error ''A run transaction cannot change the run id'')) (\<lambda>_.
           and_then (assert_plan_history_transition (store_number env) (fields_of current) (fields_of proposed)) (\<lambda>_.
           and_then (validated_run env (stamped proposed (revision_of current + 1))) (\<lambda>updated.
           and_then (write_task_run env files updated) (\<lambda>files'. Inr (files', updated))))))))"

text \<open>Loading migrates the file of a run of version 4, 5 or 6.\<close>

definition migrates_on_load :: "json \<Rightarrow> bool" where
  "migrates_on_load v \<longleftrightarrow> is_record v \<and> get_prop (fields_of v) ''schemaVersion'' \<in> {JNum 4, JNum 5, JNum 6}"

definition read_raw :: "task_store_env \<Rightarrow> run_files \<Rightarrow> string \<Rightarrow> json result" where
  "read_raw env files name = (case obj_get files name of
       None \<Rightarrow> Inl (missing_file (run_store_env.truncate env) name)
     | Some file \<Rightarrow> parsed_file env name file)"

text \<open>The migration is returned without being awaited, so its failure keeps its own message.\<close>

definition migrate_file :: "task_store_env \<Rightarrow> run_files \<Rightarrow> string \<Rightarrow> (run_files \<times> json) result" where
  "migrate_file env files name =
     and_then (read_raw env files name) (\<lambda>raw.
     and_then (validated_run env raw) (\<lambda>migrated.
     if migrates_on_load raw then and_then (write_task_run env files migrated) (\<lambda>files'. Inr (files', migrated))
     else Inr (files, migrated)))"

definition load_run :: "task_store_env \<Rightarrow> run_files \<Rightarrow> string \<Rightarrow> (run_files \<times> json) result" where
  "load_run env files rid =
     and_then (file_name_for rid) (\<lambda>name.
     case and_then (read_raw env files name) (\<lambda>raw. and_then (validated_run env raw) (\<lambda>run. Inr (raw, run))) of
       Inl e \<Rightarrow> Inl (Error (''Failed to load run '' @ rid @ '' from '' @ store_directory env @ ''/'' @ name))
     | Inr (raw, run) \<Rightarrow> if migrates_on_load raw then migrate_file env files name else Inr (files, run))"

definition scan_one :: "task_store_env \<Rightarrow> run_files \<times> scanned_run list \<Rightarrow> string \<Rightarrow> run_files \<times> scanned_run list" where
  "scan_one env acc rid = (case acc of (files, entries) \<Rightarrow> (case load_run env files rid of
       Inr (files', run) \<Rightarrow> (files', entries @ [ScannedRun run])
     | Inl e \<Rightarrow> (files, entries @ [UnreadableRun rid (error_message e)])))"

definition scan_runs :: "task_store_env \<Rightarrow> run_files \<Rightarrow> run_files \<times> scanned_run list" where
  "scan_runs env files =
     foldl (scan_one env) (files, []) (stored_run_ids (run_store_env.truncate env) files)"

definition list_runs :: "task_store_env \<Rightarrow> run_files \<Rightarrow> (run_files \<times> json list) result" where
  "list_runs env files =
     (let (files', entries) = scan_runs env files in
      case find (\<lambda>e. case e of UnreadableRun _ _ \<Rightarrow> True | _ \<Rightarrow> False) entries of
        Some (UnreadableRun rid m) \<Rightarrow> Inl (Error (''Failed to list run '' @ rid @ '': '' @ m))
      | _ \<Rightarrow> Inr (files', List.map_filter (\<lambda>e. case e of ScannedRun run \<Rightarrow> Some run | _ \<Rightarrow> None) entries))"

end
