(* ===== verification/RunStoreFacts.thy ===== *)
theory RunStoreFacts
  imports RunStore WorkflowStoreFacts TaskRunFacts
begin

text \<open>
  What the checks of a stored task run establish: the loops over attempts, reviews and commits, the exact
  references between records, the chain of integrated commits, and what a write to the store keeps.
\<close>

subsection \<open>Loops that gather\<close>

text \<open>A loop whose every step adds a new key gathers distinct keys, one for each entry.\<close>

lemma each_entry_keys:
  assumes "each_entry f k vs a = Inr b"
    and "\<And>i v x y. f i v x = Inr y \<Longrightarrow> g y = g x @ [h v] \<and> h v \<notin> set (g x)"
  shows "g b = g a @ map h vs \<and> (distinct (g a) \<longrightarrow> distinct (g b))"
  using assms(1)
proof (induction vs arbitrary: k a)
  case (Cons v vs)
  then obtain x where x: "f k v a = Inr x" "each_entry f (Suc k) vs x = Inr b" by (auto simp: and_then_Inr)
  note step = assms(2)[OF x(1)] and rest = Cons.IH[OF x(2)]
  have "distinct (g a) \<longrightarrow> distinct (g x)" using step by simp
  then have "distinct (g a) \<longrightarrow> distinct (g b)" using rest by blast
  moreover have "g b = g a @ map h (v # vs)" using step rest by simp
  ultimately show ?case by blast
qed simp

lemma each_entry_all:
  assumes "each_entry f k vs a = Inr b" and "j < length vs"
  shows "\<exists>x y. f (k + j) (vs ! j) x = Inr y"
  using assms
proof (induction vs arbitrary: k a j)
  case (Cons v vs)
  then obtain x where x: "f k v a = Inr x" "each_entry f (Suc k) vs x = Inr b" by (auto simp: and_then_Inr)
  show ?case
  proof (cases j)
    case 0
    then show ?thesis using x(1) by auto
  next
    case (Suc i)
    with Cons.prems(2) have "i < length vs" by simp
    from Cons.IH[OF x(2) this] Suc show ?thesis by simp
  qed
qed simp

lemma each_entry_mem:
  assumes "each_entry f k vs a = Inr b" and "v \<in> set vs"
  shows "\<exists>i x y. f i v x = Inr y"
  using each_entry_all[OF assms(1)] assms(2) by (metis in_set_conv_nth)

lemma check_text_Inr: "check_text ob path f = Inr u \<longleftrightarrow> (\<exists>s. get_prop ob f = JString s \<and> s \<noteq> [])"
  by (auto simp: check_text_def and_then_Inr assert_string_def split: json.splits if_splits)

lemma check_optional_text_Inr:
  "check_optional_text ob path f = Inr u \<longleftrightarrow> get_prop ob f = JUndefined \<or> (\<exists>s. get_prop ob f = JString s \<and> s \<noteq> [])"
  by (auto simp: check_optional_text_def check_text_Inr)

lemma check_texts_Inr: "check_texts ob path fs = Inr u \<longleftrightarrow> (\<forall>f\<in>set fs. \<exists>s. get_prop ob f = JString s \<and> s \<noteq> [])"
  by (simp add: check_texts_def check_text_Inr)

lemmas check_simps = and_then_Inr Let_def check_object_def check_array_def check_text_Inr check_texts_Inr
  check_optional_text_Inr check_state_def check_positive_def

subsection \<open>Attempts of tasks\<close>

definition stored_tasks :: "json obj \<Rightarrow> json obj" where
  "stored_tasks run = fields_of (get_prop run ''tasks'')"

definition attempt_task :: "json \<Rightarrow> string" where
  "attempt_task v = string_of (get_prop (fields_of v) ''taskId'')"

definition attempt_live :: "json \<Rightarrow> bool" where
  "attempt_live v \<longleftrightarrow> is_active_state (get_prop (fields_of v) ''state'')"

lemma check_task_attempt_table:
  assumes "check_task_attempt nt plan i v x = Inr y"
  shows "table_attempts y = table_attempts x @ [(attempt_key v, fields_of v)]" "attempt_key v \<notin> fst ` set (table_attempts x)"
    "table_numbers y = table_numbers x @ [(attempt_task v, attempt_count v)]"
    "(attempt_task v, attempt_count v) \<notin> set (table_numbers x)"
    "get_prop (fields_of v) ''taskId'' = JString (attempt_task v)" "attempt_task v \<in> task_id ` set (task_plan_tasks plan)"
    "get_prop (fields_of v) ''commit'' \<noteq> JUndefined \<longrightarrow> passed_evidence (fields_of v)"
    "get_prop (fields_of v) ''state'' = JString ''succeeded'' \<longrightarrow> is_string (get_prop (fields_of v) ''commit'')"
  using assms
  by (auto simp: check_task_attempt_def check_simps attempt_key_def attempt_task_def attempt_count_def string_of_def
      check_commit_evidence_def is_string_def split: if_splits)

lemma task_table:
  assumes "each_entry (check_task_attempt nt plan) 0 vs empty_table = Inr acc"
  shows "table_attempts acc = map (\<lambda>v. (attempt_key v, fields_of v)) vs" "distinct (map attempt_key vs)"
    "distinct (map (\<lambda>v. (attempt_task v, attempt_count v)) vs)"
proof -
  have "table_attempts acc = table_attempts empty_table @ map (\<lambda>v. (attempt_key v, fields_of v)) vs"
    using each_entry_keys[OF assms, of table_attempts "\<lambda>v. (attempt_key v, fields_of v)"] check_task_attempt_table(1,2) by force
  then show t: "table_attempts acc = map (\<lambda>v. (attempt_key v, fields_of v)) vs" by simp
  have "distinct (map fst (table_attempts acc))"
    using each_entry_keys[OF assms, of "\<lambda>x. map fst (table_attempts x)" attempt_key] check_task_attempt_table(1,2) by force
  then show "distinct (map attempt_key vs)" by (simp add: t comp_def)
  show "distinct (map (\<lambda>v. (attempt_task v, attempt_count v)) vs)"
    using each_entry_keys[OF assms, of table_numbers "\<lambda>v. (attempt_task v, attempt_count v)"] check_task_attempt_table(3,4) by force
qed

text \<open>Every attempt is listed by its task and by no other.\<close>

lemma task_references_exact:
  assumes "check_task_attempts nt run plan = Inr acc"
  shows "(\<exists>t. (tid, t) \<in> set (stored_tasks run) \<and> aid \<in> set (task_attempt_ids t)) \<longleftrightarrow>
    (\<exists>v\<in>set (stored_attempts run). attempt_key v = aid \<and> attempt_task v = tid)"
proof -
  have loop: "each_entry (check_task_attempt nt plan) 0 (stored_attempts run) empty_table = Inr acc"
    and refs: "\<forall>entry\<in>set (stored_tasks run). check_task_references acc entry = Inr ()"
    and size: "set_size (concat (map (task_attempt_ids \<circ> snd) (stored_tasks run))) = length (table_attempts acc)"
    using assms by (auto simp: check_task_attempts_def check_simps stored_attempts_def stored_tasks_def)
  note table = task_table[OF loop]
  let ?lists = "map (\<lambda>(tid, t). (tid, task_attempt_ids t)) (stored_tasks run)"
  let ?table = "map (\<lambda>v. (attempt_key v, attempt_task v)) (stored_attempts run)"
  have task: "get_prop (fields_of v) ''taskId'' = JString (attempt_task v)" if "v \<in> set (stored_attempts run)" for v
    using each_entry_mem[OF loop that] check_task_attempt_table(5) by blast
  have "map_of ?table aid = Some owner" if l: "(owner, ids) \<in> set ?lists" "aid \<in> set ids" for owner ids aid
  proof -
    obtain t where "(owner, t) \<in> set (stored_tasks run)" "aid \<in> set (task_attempt_ids t)" using l by auto
    moreover from this(1) refs have "check_task_references acc (owner, t) = Inr ()" by blast
    ultimately obtain a where "map_of (table_attempts acc) aid = Some a" "get_prop a ''taskId'' = JString owner"
      by (auto simp: check_task_references_def and_then_Inr)
    then obtain v where v: "v \<in> set (stored_attempts run)" "attempt_key v = aid" "fields_of v = a"
      using map_of_SomeD unfolding table(1) by fastforce
    then have "attempt_task v = owner" using \<open>get_prop a ''taskId'' = JString owner\<close> task[OF v(1)] by simp
    with v show ?thesis using table(2) by (subst map_of_eq_Some_iff) (auto simp: comp_def)
  qed
  moreover have "concat (map snd ?lists) = concat (map (task_attempt_ids \<circ> snd) (stored_tasks run))"
    by (simp add: comp_def case_prod_unfold)
  ultimately have "(\<exists>ids. (tid, ids) \<in> set ?lists \<and> aid \<in> set ids) \<longleftrightarrow> (aid, tid) \<in> set ?table"
    using listed_exactly[of ?lists ?table] size table by (simp add: comp_def)
  then show ?thesis by force
qed

subsection \<open>The chain of integrated commits\<close>

definition task_commits :: "json obj \<Rightarrow> string list \<Rightarrow> json list" where
  "task_commits tasks order = map (\<lambda>tid. stored_commit (get_prop tasks tid)) order"

lemma task_prefix_sound:
  assumes "check_integrated_prefix tasks missing tids = Inr u"
    and "\<forall>tid\<in>set tids. is_record (get_prop tasks tid) \<and>
      (stored_commit (get_prop tasks tid) = JUndefined \<or> is_string (stored_commit (get_prop tasks tid)))"
  shows "commit_prefix head (task_head tasks head tids) missing (task_commits tasks tids)"
  using assms
proof (induction tids arbitrary: missing head)
  case Nil
  then show ?case by (simp add: task_head_def task_commits_def)
next
  case (Cons tid tids)
  let ?c = "stored_commit (get_prop tasks tid)"
  have r: "is_record (get_prop tasks tid)" and rest: "\<forall>tid\<in>set tids. is_record (get_prop tasks tid) \<and>
      (stored_commit (get_prop tasks tid) = JUndefined \<or> is_string (stored_commit (get_prop tasks tid)))"
    using Cons.prems(2) by simp_all
  show ?case
  proof (cases "?c = JUndefined")
    case True
    then have "check_integrated_prefix tasks True tids = Inr u"
      using Cons.prems(1) r by (simp add: stored_commit_def Let_def)
    from Cons.IH[OF this rest, of head] True show ?thesis
      by (simp add: task_head_def task_commits_def stored_commit_def is_string_def Let_def)
  next
    case False
    then have m: "\<not> missing" and n: "check_integrated_prefix tasks missing tids = Inr u" and str: "is_string ?c"
      using Cons.prems r by (auto simp: stored_commit_def Let_def split: if_splits)
    have "task_head tasks head (tid # tids) = task_head tasks ?c tids" "task_commits tasks (tid # tids) = ?c # task_commits tasks tids"
      using str by (simp_all add: task_head_def task_commits_def stored_commit_def Let_def)
    with Cons.IH[OF n rest, of ?c] m show ?thesis by (simp only: commit_prefix_commit[OF False] simp_thms)
  qed
qed

text \<open>Repairs that were integrated, each on the head the one before left.\<close>

fun repair_chain :: "json \<Rightarrow> json list \<Rightarrow> json \<Rightarrow> bool" where
  "repair_chain head [] final \<longleftrightarrow> final = head"
| "repair_chain head (v # vs) final \<longleftrightarrow> (if stored_commit v = JUndefined then repair_chain head vs final
     else get_prop (fields_of v) ''baseCommit'' = head \<and> repair_chain (stored_commit v) vs final)"

lemma check_repair_attempt_head:
  assumes "check_repair_attempt nt rounds i v x = Inr y"
  shows "check_repair_head (at_index ''run.repairAttempts'' i) (fields_of v) (table_head x) = Inr (table_head y)"
    "table_repairs y = table_repairs x @ [(attempt_key v, fields_of v)]" "attempt_key v \<notin> fst ` set (table_repairs x)"
  using assms by (auto simp: check_repair_attempt_def check_simps attempt_key_def)

lemma repair_heads_linked:
  "each_entry (check_repair_attempt nt rounds) k vs acc = Inr acc' \<Longrightarrow> repair_chain (table_head acc) vs (table_head acc')"
proof (induction vs arbitrary: k acc)
  case (Cons v vs)
  then obtain x where x: "check_repair_attempt nt rounds k v acc = Inr x"
    "each_entry (check_repair_attempt nt rounds) (Suc k) vs x = Inr acc'" by (auto simp: and_then_Inr)
  from check_repair_attempt_head(1)[OF x(1)] Cons.IH[OF x(2)] show ?case
    by (auto simp: check_repair_head_def check_simps stored_commit_def split: if_splits)
qed simp

definition stored_repairs :: "json obj \<Rightarrow> json list" where
  "stored_repairs run = items_of (get_prop run ''repairAttempts'')"

definition stored_reviews :: "json obj \<Rightarrow> json list" where
  "stored_reviews run = items_of (get_prop run ''reviewAttempts'')"

definition heads_linked :: "json obj \<Rightarrow> string list \<Rightarrow> bool" where
  "heads_linked run order \<longleftrightarrow> (\<exists>h. commit_prefix (get_prop run ''baseCommit'') h False (task_commits (stored_tasks run) order) \<and>
     (legacy_execution run \<longrightarrow> repair_chain h (stored_repairs run) (get_prop run ''integrationHead'')))"

lemma checked_task:
  assumes "check_run_task nt tasks d = Inr u"
  shows "is_record (get_prop tasks (task_id d)) \<and> (stored_commit (get_prop tasks (task_id d)) = JUndefined \<or>
    is_string (stored_commit (get_prop tasks (task_id d))))"
  using assms by (auto simp: check_run_task_def check_simps stored_commit_def is_string_def)

lemma run_tasks_keys:
  assumes "check_run_tasks nt run plan = Inr u" and "distinct (map task_id (task_plan_tasks plan))"
  shows "distinct (obj_keys (stored_tasks run)) \<and> set (obj_keys (stored_tasks run)) = set (map task_id (task_plan_tasks plan))"
proof (rule same_size_keys)
  show "length (obj_keys (stored_tasks run)) = length (map task_id (task_plan_tasks plan))"
    using assms(1) by (auto simp: check_run_tasks_def check_simps stored_tasks_def)
  have "is_record (get_prop (stored_tasks run) (task_id d))" if "d \<in> set (task_plan_tasks plan)" for d
  proof -
    have "check_run_task nt (stored_tasks run) d = Inr ()"
      using assms(1) that by (auto simp: check_run_tasks_def and_then_Inr Let_def stored_tasks_def)
    from checked_task[OF this] show ?thesis by blast
  qed
  then have "task_id d \<in> set (obj_keys (stored_tasks run))" if "d \<in> set (task_plan_tasks plan)" for d
    using that obj_get_None_iff[of "stored_tasks run" "task_id d"]
    by (force simp: get_prop_def is_record_def split: option.splits)
  then show "set (map task_id (task_plan_tasks plan)) \<subseteq> set (obj_keys (stored_tasks run))" by auto
qed (use assms(2) in simp)

lemma stored_heads_linked:
  assumes wf: "wf_task_plan plan" and order: "topological_task_ids plan = Inr order"
    and tasks: "check_run_tasks nt run plan = Inr u"
    and repairs: "check_repair_attempts nt run order rounds = Inr table"
    and head: "check_integration_head run (table_head table) = Inr w"
  shows "heads_linked run order"
proof -
  have t: "\<forall>d\<in>set (task_plan_tasks plan). check_run_task nt (stored_tasks run) d = Inr ()"
    and p: "check_integrated_prefix (stored_tasks run) False order = Inr u"
    using tasks order by (auto simp: check_run_tasks_def and_then_Inr Let_def stored_tasks_def)
  have "\<forall>tid\<in>set order. is_record (get_prop (stored_tasks run) tid) \<and>
      (stored_commit (get_prop (stored_tasks run) tid) = JUndefined \<or> is_string (stored_commit (get_prop (stored_tasks run) tid)))"
    using t checked_task topological_task_ids_order(2)[OF wf order] by fastforce
  from task_prefix_sound[OF p this]
  have "commit_prefix (get_prop run ''baseCommit'') (task_head (stored_tasks run) (get_prop run ''baseCommit'') order) False
    (task_commits (stored_tasks run) order)" .
  moreover have "repair_chain (task_head (stored_tasks run) (get_prop run ''baseCommit'') order) (stored_repairs run) (table_head table)"
  proof -
    have "each_entry (check_repair_attempt nt rounds) 0 (stored_repairs run) \<lparr>table_repairs = [],
        table_head = task_head (stored_tasks run) (get_prop run ''baseCommit'') order\<rparr> = Inr table"
      using repairs by (auto simp: check_repair_attempts_def check_simps stored_repairs_def stored_tasks_def)
    from repair_heads_linked[OF this] show ?thesis by simp
  qed
  moreover have "legacy_execution run \<Longrightarrow> get_prop run ''integrationHead'' = table_head table"
    using head by (simp add: check_integration_head_def)
  ultimately show ?thesis unfolding heads_linked_def by auto
qed

subsection \<open>Activity\<close>

lemma count_list_distinct: "\<forall>x\<in>set xs. count_list xs x \<le> 1 \<Longrightarrow> distinct xs"
proof (induction xs)
  case (Cons x xs)
  have "count_list xs x = 0" using Cons.prems by simp
  then have "x \<notin> set xs" by (simp add: count_list_0_iff)
  moreover have "\<forall>y\<in>set xs. count_list xs y \<le> 1"
  proof
    fix y assume "y \<in> set xs"
    with Cons.prems have "count_list (x # xs) y \<le> 1" by simp
    then show "count_list xs y \<le> 1" by (simp split: if_splits)
  qed
  ultimately show ?case using Cons.IH by simp
qed simp

lemma active_of_map:
  "active_of (map (\<lambda>v. (attempt_key v, fields_of v)) vs) = map fields_of (filter attempt_live vs)"
  by (induction vs) (simp_all add: active_of_def attempt_live_def)

definition attempts_quiet :: "json obj \<Rightarrow> bool" where
  "attempts_quiet run \<longleftrightarrow> distinct (map attempt_task (filter attempt_live (stored_attempts run))) \<and>
     int (length (filter attempt_live (stored_attempts run))) \<le> to_int (get_prop run ''maxConcurrentWorkers'')"

lemma activity_sound:
  assumes a: "check_activity run tabs = Inr u"
    and t: "tables_tasks tabs = map (\<lambda>v. (attempt_key v, fields_of v)) (stored_attempts run)"
  shows "attempts_quiet run"
proof -
  let ?tasks = "map attempt_task (filter attempt_live (stored_attempts run))"
  have tasks: "map (\<lambda>a. string_of (get_prop a ''taskId'')) (active_of (tables_tasks tabs)) = ?tasks"
    by (simp add: t active_of_map comp_def attempt_task_def)
  have "int (length ?tasks + length (active_of (tables_reviews tabs)) + length (active_of (tables_repairs tabs)))
      \<le> to_int (get_prop run ''maxConcurrentWorkers'')" and once: "\<forall>tid\<in>set ?tasks. count_list ?tasks tid \<le> 1"
    using a unfolding check_activity_def tasks Let_def by (auto simp: and_then_Inr)
  then show ?thesis using count_list_distinct[OF once] by (simp add: attempts_quiet_def)
qed

subsection \<open>Completed runs\<close>

lemma git_chain_sound:
  "check_git_chain k parent cs vs = Inr True \<Longrightarrow> length vs = length cs \<and>
     (\<forall>i<length cs. get_prop (fields_of (vs ! i)) ''hash'' = cs ! i \<and> get_prop (fields_of (vs ! i)) ''parent'' = (parent # cs) ! i)"
proof (induction k parent cs vs rule: check_git_chain.induct)
  case (1 index parent c cs v vs)
  from "1.prems" have v: "get_prop (fields_of v) ''hash'' = c" "get_prop (fields_of v) ''parent'' = parent"
    and rest: "check_git_chain (Suc index) c cs vs = Inr True" and rec: "is_record v"
    and sub: "check_text (fields_of v) (at_index ''run.mergeReadyEvidence.git.commits'' index) ''subject'' = Inr ()"
    by (auto simp: and_then_Inr Let_def split: if_splits)
  have "length vs = length cs \<and> (\<forall>i<length cs. get_prop (fields_of (vs ! i)) ''hash'' = cs ! i \<and>
      get_prop (fields_of (vs ! i)) ''parent'' = (c # cs) ! i)"
    using "1.IH"[OF refl _ _ rest] rec v by simp
  then show ?case using v by (auto simp: less_Suc_eq_0_disj)
qed auto

definition evidence_of :: "json obj \<Rightarrow> json obj" where
  "evidence_of run = fields_of (get_prop run ''mergeReadyEvidence'')"

definition claimed_commits :: "json obj \<Rightarrow> json list" where
  "claimed_commits run = map stored_commit (items_of (get_prop (evidence_of run) ''commits''))"

definition evidence_commits :: "json obj \<Rightarrow> json list" where
  "evidence_commits run = items_of (get_prop (fields_of (get_prop (evidence_of run) ''git'')) ''commits'')"

definition linear_evidence :: "json obj \<Rightarrow> bool" where
  "linear_evidence run \<longleftrightarrow> length (evidence_commits run) = length (claimed_commits run) \<and>
     (\<forall>i<length (evidence_commits run). get_prop (fields_of (evidence_commits run ! i)) ''hash'' = claimed_commits run ! i \<and>
        get_prop (fields_of (evidence_commits run ! i)) ''parent'' = (get_prop run ''baseCommit'' # claimed_commits run) ! i)"

lemma merge_ready_linear:
  assumes "check_merge_ready loc nt run order = Inr u" and "get_prop run ''mergeReadyEvidence'' \<noteq> JUndefined"
  shows "linear_evidence run"
proof -
  obtain claimed where c: "each_entry check_claimed_commit 0 (items_of (get_prop (evidence_of run) ''commits'')) [] = Inr claimed"
    and g: "check_git_commits run (evidence_of run) claimed = Inr ()"
    using assms by (auto simp: check_merge_ready_def and_then_Inr Let_def evidence_of_def)
  have "claimed = [] @ claimed_commits run"
  proof -
    have step: "y = x @ [stored_commit v]" if "check_claimed_commit i v x = Inr y" for i v x y
      using that by (auto simp: check_claimed_commit_def and_then_Inr Let_def stored_commit_def)
    have "each_entry check_claimed_commit k vs a = Inr b \<Longrightarrow> b = a @ map stored_commit vs" for k vs a b
    proof (induction vs arbitrary: k a)
      case (Cons v vs)
      then show ?case using step by (fastforce simp: and_then_Inr)
    qed simp
    from this[OF c] show ?thesis by (simp add: claimed_commits_def)
  qed
  then have "check_git_chain 0 (get_prop run ''baseCommit'') (claimed_commits run) (evidence_commits run) = Inr True"
    using g by (auto simp: check_git_commits_def and_then_Inr Let_def evidence_commits_def)
  from git_chain_sound[OF this] show ?thesis by (simp add: linear_evidence_def)
qed

text \<open>A validation at the integration head that passed every approved command.\<close>

definition validated_at_head :: "(rat \<Rightarrow> string) \<Rightarrow> json obj \<Rightarrow> task_plan \<Rightarrow> bool" where
  "validated_at_head nt run plan \<longleftrightarrow> (\<exists>v\<in>set (final_attempts run). get_prop (fields_of v) ''state'' = JString ''succeeded'' \<and>
     get_prop (fields_of v) ''integrationCommit'' = get_prop run ''integrationHead'' \<and> passed_evidence (fields_of v) \<and>
     list_all2 (approved_check nt) (task_plan_final plan) (items_of (get_prop (fields_of (get_prop (fields_of v) ''evidence'')) ''checks'')))"

lemma successful_validation_sound:
  assumes "check_final_attempts nt run plan = Inr u" and "successful_validation run = Some v"
  shows "validated_at_head nt run plan"
proof -
  have v: "v \<in> set (final_attempts run)" "get_prop (fields_of v) ''state'' = JString ''succeeded''"
    "get_prop (fields_of v) ''integrationCommit'' = get_prop run ''integrationHead''"
    using find_last_Some[OF assms(2)[unfolded successful_validation_def]] by simp_all
  obtain ids where "each_entry (check_final_attempt nt plan) 0 (final_attempts run) [] = Inr ids"
    using assms(1) by (auto simp: check_final_attempts_def and_then_Inr Let_def)
  from each_entry_mem[OF this v(1)] obtain i x y where "check_final_attempt nt plan i v x = Inr y" by blast
  then have "check_final_success nt plan (at_index ''run.finalValidationAttempts'' i) (fields_of v) = Inr ()"
    by (auto simp: check_final_attempt_def and_then_Inr Let_def)
  then have "passed_evidence (fields_of v)"
    "list_all2 (approved_check nt) (task_plan_final plan) (items_of (get_prop (fields_of (get_prop (fields_of v) ''evidence'')) ''checks''))"
    using v(2) by (auto simp: check_final_success_def and_then_Inr Let_def)
  with v show ?thesis by (auto simp: validated_at_head_def)
qed

subsection \<open>What an accepted run is\<close>

definition intact_task_run :: "task_plan \<Rightarrow> string list \<Rightarrow> json obj \<Rightarrow> bool" where
  "intact_task_run plan order run \<longleftrightarrow>
     distinct (obj_keys (stored_tasks run)) \<and> set (obj_keys (stored_tasks run)) = set (map task_id (task_plan_tasks plan)) \<and>
     distinct (map attempt_key (stored_attempts run)) \<and>
     distinct (map (\<lambda>v. (attempt_task v, attempt_count v)) (stored_attempts run)) \<and>
     (\<forall>tid aid. (\<exists>t. obj_get (stored_tasks run) tid = Some t \<and> aid \<in> set (task_attempt_ids t)) \<longleftrightarrow>
        (\<exists>v\<in>set (stored_attempts run). attempt_key v = aid \<and> attempt_task v = tid)) \<and>
     attempts_quiet run \<and> heads_linked run order"

definition proved_complete :: "(rat \<Rightarrow> string) \<Rightarrow> json obj \<Rightarrow> task_plan \<Rightarrow> bool" where
  "proved_complete nt run plan \<longleftrightarrow> get_prop run ''approvedPlanRevision'' = get_prop run ''planRevision'' \<and>
     validated_at_head nt run plan \<and> linear_evidence run \<and>
     (legacy_execution run \<longrightarrow> get_prop (fields_of (latest_round run)) ''state'' = JString ''succeeded'' \<and>
        (\<forall>v\<in>set (stored_reviews run). \<forall>f\<in>set (findings_of (fields_of v)). \<not> open_finding f))"

lemma validate_stored_run_Inr:
  assumes "validate_stored_run sha loc nt v = Inr r"
  obtains plan order where "r = JObject (migrate_legacy_run (fields_of v))" "check_run_identity nt (fields_of r) = Inr ()"
    "validate_task_plan (get_prop (fields_of r) ''plan'') = Inr plan" "check_plan_history nt (fields_of r) plan = Inr ()"
    "check_approval nt (fields_of r) = Inr ()" "check_run_tasks nt (fields_of r) plan = Inr ()"
    "topological_task_ids plan = Inr order" "check_execution loc nt (fields_of r) plan order = Inr ()"
  using assms that by (auto simp: validate_stored_run_def and_then_Inr Let_def fields_of_def)

lemma current_not_migrated:
  "get_prop run ''schemaVersion'' = JNum (of_int RUN_SCHEMA_VERSION) \<Longrightarrow> migrate_legacy_run run = run"
  by (simp add: migrate_legacy_run_def migrated_fields_def Let_def RUN_SCHEMA_VERSION_def)

text \<open>What the checks return is of the current version and passes them again unchanged.\<close>

lemma validate_stored_run_again:
  assumes "validate_stored_run sha loc nt v = Inr r"
  shows "validate_stored_run sha loc nt r = Inr r"
proof -
  have r: "r = JObject (migrate_legacy_run (fields_of v))" and
    version: "get_prop (migrate_legacy_run (fields_of v)) ''schemaVersion'' = JNum (of_int RUN_SCHEMA_VERSION)"
    using assms by (auto simp: validate_stored_run_def check_run_identity_def and_then_Inr Let_def)
  show ?thesis
    using assms version current_not_migrated[OF version]
    by (auto simp: validate_stored_run_def check_simps r is_record_def fields_of_def RUN_SCHEMA_VERSION_def)
qed

lemma check_review_attempt_table:
  "check_review_attempt i v x = Inr y \<Longrightarrow> table_reviews y = table_reviews x @ [(attempt_key v, fields_of v)] \<and>
     attempt_key v \<notin> fst ` set (table_reviews x)"
  by (auto simp: check_review_attempt_def check_simps attempt_key_def)

lemma review_table_all:
  assumes "check_review_attempts run = Inr table"
  shows "table_reviews table = map (\<lambda>v. (attempt_key v, fields_of v)) (stored_reviews run)"
proof -
  have "each_entry check_review_attempt 0 (stored_reviews run) \<lparr>table_reviews = [], table_rounds = []\<rparr> = Inr table"
    using assms by (auto simp: check_review_attempts_def check_simps stored_reviews_def)
  from each_entry_keys[OF this, of table_reviews "\<lambda>v. (attempt_key v, fields_of v)"] check_review_attempt_table
  show ?thesis by force
qed

lemma validate_stored_run_sound:
  assumes "validate_stored_run sha loc nt v = Inr r"
  defines "run \<equiv> fields_of r"
  obtains plan order where "validate_task_plan (get_prop run ''plan'') = Inr plan" "topological_task_ids plan = Inr order"
    "wf_task_plan plan" "intact_task_run plan order run" "check_plan_history nt run plan = Inr ()"
    "get_prop run ''state'' = JString ''completed'' \<longrightarrow> proved_complete nt run plan"
    "get_prop run ''approvedPlanRevision'' = JUndefined \<longrightarrow> stored_attempts run = [] \<and> get_prop run ''integrationHead'' = get_prop run ''baseCommit''"
proof -
  from validate_stored_run_Inr[OF assms(1)] obtain plan order where
    v: "check_run_identity nt run = Inr ()" "validate_task_plan (get_prop run ''plan'') = Inr plan"
    and history: "check_plan_history nt run plan = Inr ()" and approval: "check_approval nt run = Inr ()"
    and tasks: "check_run_tasks nt run plan = Inr ()" and order: "topological_task_ids plan = Inr order"
    and ex: "check_execution loc nt run plan order = Inr ()"
    unfolding run_def by metis
  have wf: "wf_task_plan plan" by (rule validate_task_plan_sound[OF v(2)])
  from ex obtain attempts reviews repairs where
    a: "check_task_attempts nt run plan = Inr attempts" and r: "check_review_attempts run = Inr reviews"
    and p: "check_repair_attempts nt run order (table_rounds reviews) = Inr repairs"
    and h: "check_integration_head run (table_head repairs) = Inr ()"
    and rounds: "check_reviewed run \<lparr>tables_tasks = table_attempts attempts, tables_reviews = table_reviews reviews,
       tables_repairs = table_repairs repairs\<rparr> = Inr ()"
    and final: "check_final_attempts nt run plan = Inr ()" and ready: "check_merge_ready loc nt run order = Inr ()"
    and complete: "check_completion run = Inr ()"
    and act: "check_activity run \<lparr>tables_tasks = table_attempts attempts, tables_reviews = table_reviews reviews,
       tables_repairs = table_repairs repairs\<rparr> = Inr ()"
    and un: "check_unapproved run = Inr ()"
    by (auto simp: check_execution_def and_then_Inr Let_def)
  have "each_entry (check_task_attempt nt plan) 0 (stored_attempts run) empty_table = Inr attempts"
    using a by (auto simp: check_task_attempts_def check_simps stored_attempts_def)
  note table = task_table[OF this]
  have keys: "distinct (obj_keys (stored_tasks run)) \<and> set (obj_keys (stored_tasks run)) = set (map task_id (task_plan_tasks plan))"
    by (rule run_tasks_keys[OF tasks wf_task_plan_distinct[OF wf]])
  have listed: "(\<exists>t. obj_get (stored_tasks run) tid = Some t \<and> aid \<in> set (task_attempt_ids t)) \<longleftrightarrow>
      (\<exists>v\<in>set (stored_attempts run). attempt_key v = aid \<and> attempt_task v = tid)" for tid aid
    using task_references_exact[OF a, of tid aid] obj_entries_get[OF conjunct1[OF keys]] by auto
  have "intact_task_run plan order run"
    unfolding intact_task_run_def
    using keys table(2,3) listed activity_sound[OF act] table(1) stored_heads_linked[OF wf order tasks p h] by simp
  moreover have "proved_complete nt run plan" if c: "get_prop run ''state'' = JString ''completed''"
  proof -
    have "get_prop run ''approvedPlanRevision'' = get_prop run ''planRevision''"
      using approval c by (auto simp: check_approval_def and_then_Inr Let_def APPROVED_STATES_def)
    moreover obtain w where w: "successful_validation run = Some w" and e: "get_prop run ''mergeReadyEvidence'' \<noteq> JUndefined"
      using complete c by (auto simp: check_completion_def and_then_Inr Let_def)
    moreover have "legacy_execution run \<longrightarrow> get_prop (fields_of (latest_round run)) ''state'' = JString ''succeeded'' \<and>
        (\<forall>v\<in>set (stored_reviews run). \<forall>f\<in>set (findings_of (fields_of v)). \<not> open_finding f)"
      using rounds c review_table_all[OF r]
      by (auto simp: check_reviewed_def and_then_Inr state_in_def list_ex_iff split: if_splits)
    ultimately show ?thesis
      using successful_validation_sound[OF final w] merge_ready_linear[OF ready e] by (simp add: proved_complete_def)
  qed
  moreover have "get_prop run ''approvedPlanRevision'' = JUndefined \<longrightarrow> stored_attempts run = [] \<and>
      get_prop run ''integrationHead'' = get_prop run ''baseCommit''"
    using un by (simp add: check_unapproved_def stored_attempts_def)
  ultimately show ?thesis using that[OF v(2) order wf _ history] by blast
qed

definition sound_task_run :: "(rat \<Rightarrow> string) \<Rightarrow> json obj \<Rightarrow> bool" where
  "sound_task_run nt run \<longleftrightarrow> (\<exists>plan order. validate_task_plan (get_prop run ''plan'') = Inr plan \<and> wf_task_plan plan \<and>
     topological_task_ids plan = Inr order \<and> intact_task_run plan order run \<and>
     (get_prop run ''state'' = JString ''completed'' \<longrightarrow> proved_complete nt run plan) \<and>
     (get_prop run ''approvedPlanRevision'' = JUndefined \<longrightarrow>
        stored_attempts run = [] \<and> get_prop run ''integrationHead'' = get_prop run ''baseCommit''))"

lemma validated_sound: "validate_stored_run sha loc nt v = Inr r \<Longrightarrow> sound_task_run nt (fields_of r)"
  unfolding sound_task_run_def by (erule validate_stored_run_sound) blast

subsection \<open>What a write keeps\<close>

definition stored_revisions :: "json obj \<Rightarrow> json list" where
  "stored_revisions run = items_of (get_prop run ''planRevisions'')"

definition history_kept :: "(rat \<Rightarrow> string) \<Rightarrow> json obj \<Rightarrow> json obj \<Rightarrow> bool" where
  "history_kept nt current updated \<longleftrightarrow>
     stringify nt (get_prop updated ''securityPolicy'') = stringify nt (get_prop current ''securityPolicy'') \<and>
     length (stored_revisions current) \<le> length (stored_revisions updated) \<and>
     (\<forall>i<length (stored_revisions current).
        stringify nt (stored_revisions updated ! i) = stringify nt (stored_revisions current ! i)) \<and>
     (get_prop current ''approvedPlanRevision'' \<noteq> JUndefined \<longrightarrow> plan_unchanged nt current updated)"

lemma plan_history_transition:
  assumes "assert_plan_history_transition nt current updated = Inr u"
  shows "history_kept nt current updated"
proof -
  have l: "length (stored_revisions current) \<le> length (stored_revisions updated)"
    and e: "each_entry (check_revision_kept nt (stored_revisions updated)) 0 (stored_revisions current) () = Inr ()"
    and rest: "stringify nt (get_prop updated ''securityPolicy'') = stringify nt (get_prop current ''securityPolicy'')"
    "get_prop current ''approvedPlanRevision'' \<noteq> JUndefined \<longrightarrow> plan_unchanged nt current updated"
    using assms by (auto simp: assert_plan_history_transition_def and_then_Inr Let_def stored_revisions_def)
  have "stringify nt (stored_revisions updated ! i) = stringify nt (stored_revisions current ! i)"
    if i: "i < length (stored_revisions current)" for i
    using each_entry_all[OF e i] i l by (auto simp: check_revision_kept_def)
  with l rest show ?thesis by (simp add: history_kept_def)
qed

text \<open>The two fields a store sets itself play no part in the history.\<close>

lemma get_prop_obj_set: "get_prop (obj_set ob k v) j = (if j = k then v else get_prop ob j)"
  by (simp add: get_prop_def)

lemma stamped_get:
  "f \<noteq> ''schemaVersion'' \<Longrightarrow> f \<noteq> ''revision'' \<Longrightarrow> get_prop (fields_of (stamped run n)) f = get_prop (fields_of run) f"
  by (simp add: stamped_def with_revision_def fields_of_def get_prop_obj_set)

lemma with_revision_get:
  "f \<noteq> ''revision'' \<Longrightarrow> get_prop (fields_of (with_revision run n)) f = get_prop (fields_of run) f"
  by (simp add: with_revision_def fields_of_def get_prop_obj_set)

lemma with_revision_revision [simp]: "revision_of (with_revision run n) = n"
  by (simp add: revision_of_def with_revision_def fields_of_def get_prop_obj_set to_int_def)

lemma history_kept_cong:
  assumes "\<And>f. f \<in> {''securityPolicy'', ''planRevisions'', ''approvedPlanRevision'', ''approvedAt'', ''planRevision'',
      ''maxConcurrentWorkers'', ''plan''} \<Longrightarrow> get_prop b f = get_prop a f"
  shows "history_kept nt current b = history_kept nt current a"
  by (simp add: history_kept_def stored_revisions_def plan_unchanged_def assms)

lemma validated_current:
  assumes "validated_run env v = Inr r" and "get_prop (fields_of v) ''schemaVersion'' = JNum (of_int RUN_SCHEMA_VERSION)"
  shows "fields_of r = fields_of v"
proof -
  have "r = JObject (migrate_legacy_run (fields_of v))"
    by (rule validate_stored_run_Inr[OF assms(1)[unfolded validated_run_def]])
  then show ?thesis using current_not_migrated[OF assms(2)] by (simp add: fields_of_def)
qed

lemma validated_version:
  assumes "validated_run env v = Inr r"
  shows "get_prop (fields_of r) ''schemaVersion'' = JNum (of_int RUN_SCHEMA_VERSION)"
  using assms by (auto simp: validated_run_def validate_stored_run_def check_run_identity_def and_then_Inr Let_def fields_of_def)

lemma validated_again: "validated_run env v = Inr r \<Longrightarrow> validated_run env r = Inr r"
  unfolding validated_run_def by (rule validate_stored_run_again)

lemma write_task_run_Inr:
  "write_task_run env files run = Inr files' \<longleftrightarrow> (\<exists>r. validated_run env run = Inr r \<and>
     files' = obj_set files (json_name (string_of (run_key r))) (Inr (reparsed r)))"
  by (auto simp: write_task_run_def and_then_Inr)

lemma file_name_for_Inr: "file_name_for rid = Inr name \<longleftrightarrow> run_id_pattern rid \<and> name = json_name rid"
  by (auto simp: file_name_for_def)

text \<open>
  A transaction changes nothing or writes the next revision of the run it read, under the same id, with
  the frozen policy, the recorded revisions and, once approved, the plan kept.
\<close>

lemma run_transaction_Inr:
  assumes "run_transaction env files rid mutate = Inr (files', updated)"
  obtains f current where "obj_get files (json_name rid) = Some f" "read_validated env (json_name rid) f = Inr current"
    "files' = files \<and> stringify (store_number env) updated = stringify (store_number env) current \<or>
     validated_run env updated = Inr updated \<and> revision_of updated = revision_of current + 1 \<and> run_key updated = run_key current \<and>
     history_kept (store_number env) (fields_of current) (fields_of updated) \<and>
     files' = obj_set files (json_name (string_of (run_key updated))) (Inr (reparsed updated))"
proof -
  from assms obtain f current proposed same where
    c: "obj_get files (json_name rid) = Some f" "read_validated env (json_name rid) f = Inr current"
    "mutate current = Inr (proposed, same)"
    and cont: "(if same \<and> stringify (store_number env) proposed = stringify (store_number env) current then Inr (files, proposed)
         else
           and_then (require (run_key proposed = run_key current) (Error ''A run transaction cannot change the run id'')) (\<lambda>_.
           and_then (assert_plan_history_transition (store_number env) (fields_of current) (fields_of proposed)) (\<lambda>_.
           and_then (validated_run env (stamped proposed (revision_of current + 1))) (\<lambda>updated.
           and_then (write_task_run env files updated) (\<lambda>files'. Inr (files', updated)))))) = Inr (files', updated)"
    by (auto simp: run_transaction_def and_then_Inr file_name_for_Inr split: option.splits)
  show ?thesis
  proof (cases "same \<and> stringify (store_number env) proposed = stringify (store_number env) current")
    case True
    then show ?thesis using that[OF c(1,2)] cont by simp
  next
    case False
    then have key: "run_key proposed = run_key current"
      and h: "assert_plan_history_transition (store_number env) (fields_of current) (fields_of proposed) = Inr ()"
      and v: "validated_run env (stamped proposed (revision_of current + 1)) = Inr updated"
      and w: "write_task_run env files updated = Inr files'"
      using cont by (auto simp: and_then_Inr)
    have "get_prop (fields_of (stamped proposed (revision_of current + 1))) ''schemaVersion'' = JNum (of_int RUN_SCHEMA_VERSION)"
      by (simp add: stamped_def with_revision_def fields_of_def get_prop_obj_set)
    note fields = validated_current[OF v this]
    have "revision_of updated = revision_of current + 1"
      by (simp add: revision_of_def fields) (simp add: stamped_def with_revision_def fields_of_def get_prop_obj_set to_int_def)
    moreover have "run_key updated = run_key current" using key by (simp add: run_key_def fields stamped_get)
    moreover have "history_kept (store_number env) (fields_of current) (fields_of updated)"
      using plan_history_transition[OF h] by (subst history_kept_cong[of _ "fields_of proposed"]) (auto simp: fields stamped_get)
    ultimately show ?thesis
      using that[OF c(1,2)] w validated_again[OF v] by (auto simp: write_task_run_Inr)
  qed
qed

text \<open>Every file an operation writes holds a run that passes the checks, under the name of its id.\<close>

definition writes_runs :: "task_store_env \<Rightarrow> run_files \<Rightarrow> run_files \<Rightarrow> bool" where
  "writes_runs env files files' \<longleftrightarrow> (\<forall>name. obj_get files' name = obj_get files name \<or>
     (\<exists>run. validated_run env run = Inr run \<and> obj_get files' name = Some (Inr (reparsed run)) \<and>
        name = json_name (string_of (run_key run))))"

lemma writes_runs_refl [simp]: "writes_runs env files files"
  by (simp add: writes_runs_def)

lemma write_task_run_writes: "write_task_run env files run = Inr files' \<Longrightarrow> writes_runs env files files'"
proof -
  assume "write_task_run env files run = Inr files'"
  then obtain r where v: "validated_run env run = Inr r"
    and f: "files' = obj_set files (json_name (string_of (run_key r))) (Inr (reparsed r))" by (auto simp: write_task_run_Inr)
  show ?thesis unfolding writes_runs_def
  proof
    fix name show "obj_get files' name = obj_get files name \<or> (\<exists>run. validated_run env run = Inr run \<and>
        obj_get files' name = Some (Inr (reparsed run)) \<and> name = json_name (string_of (run_key run)))"
      using validated_again[OF v] by (cases "name = json_name (string_of (run_key r))") (auto simp: f)
  qed
qed

lemma store_writes_runs:
  "create_run env files run = Inr (files', r) \<Longrightarrow> writes_runs env files files'"
  "save_run env files run = Inr files' \<Longrightarrow> writes_runs env files files'"
  "run_transaction env files rid mutate = Inr (files', r) \<Longrightarrow> writes_runs env files files'"
  "load_run env files rid = Inr (files', r) \<Longrightarrow> writes_runs env files files'"
proof -
  show "create_run env files run = Inr (files', r) \<Longrightarrow> writes_runs env files files'"
    using write_task_run_writes by (auto simp: create_run_def and_then_Inr Let_def)
  show "save_run env files run = Inr files' \<Longrightarrow> writes_runs env files files'"
    using write_task_run_writes by (auto simp: save_run_def and_then_Inr Let_def split: option.splits if_splits)
  show "writes_runs env files files'" if l: "load_run env files rid = Inr (files', r)"
  proof -
    obtain name where "(case and_then (read_raw env files name) (\<lambda>raw. and_then (validated_run env raw) (\<lambda>run. Inr (raw, run))) of
        Inl e \<Rightarrow> Inl (Error (''Failed to load run '' @ rid @ '' from '' @ store_directory env @ ''/'' @ name))
      | Inr (raw, run) \<Rightarrow> if migrates_on_load raw then migrate_file env files name else Inr (files, run)) = Inr (files', r)"
      using l by (auto simp: load_run_def and_then_Inr)
    then obtain raw run where "(if migrates_on_load raw then migrate_file env files name else Inr (files, run)) = Inr (files', r)"
      by (auto split: sum.splits)
    then consider "files' = files" | "migrate_file env files name = Inr (files', r)" by (auto split: if_splits)
    then show ?thesis
    proof cases
      case 2
      then obtain raw migrated where "(if migrates_on_load raw then and_then (write_task_run env files migrated) (\<lambda>files'. Inr (files', migrated))
          else Inr (files, migrated)) = Inr (files', r)" by (auto simp: migrate_file_def and_then_Inr)
      then consider "files' = files" | "write_task_run env files migrated = Inr files'" by (auto simp: and_then_Inr split: if_splits)
      then show ?thesis by cases (use write_task_run_writes in simp_all)
    qed simp
  qed
  assume t: "run_transaction env files rid mutate = Inr (files', r)"
  have "files' = files \<or> validated_run env r = Inr r \<and>
      files' = obj_set files (json_name (string_of (run_key r))) (Inr (reparsed r))"
    by (rule run_transaction_Inr[OF t]) blast
  then show "writes_runs env files files'"
  proof
    assume w: "validated_run env r = Inr r \<and> files' = obj_set files (json_name (string_of (run_key r))) (Inr (reparsed r))"
    then have "write_task_run env files r = Inr files'" by (auto simp: write_task_run_Inr)
    then show ?thesis by (rule write_task_run_writes)
  qed simp
qed

text \<open>A save replaces only the revision it started from.\<close>

lemma save_run_fresh:
  assumes "save_run env files run = Inr files'"
  shows "\<exists>r. validated_run env run = Inr r \<and> (obj_get files (json_name (string_of (run_key r))) = None \<or>
     (\<exists>f current. obj_get files (json_name (string_of (run_key r))) = Some f \<and>
        read_validated env (json_name (string_of (run_key r))) f = Inr current \<and> revision_of current = revision_of r \<and>
        history_kept (store_number env) (fields_of current) (fields_of r)))"
proof -
  obtain r where r: "validated_run env run = Inr r" using assms by (auto simp: save_run_def and_then_Inr Let_def)
  show ?thesis
  proof (cases "obj_get files (json_name (string_of (run_key r)))")
    case None
    then show ?thesis using r by blast
  next
    case (Some f)
    then obtain current where "read_validated env (json_name (string_of (run_key r))) f = Inr current"
      "revision_of current = revision_of r"
      "assert_plan_history_transition (store_number env) (fields_of current) (fields_of r) = Inr ()"
      using assms r by (auto simp: save_run_def and_then_Inr Let_def)
    then show ?thesis using r Some plan_history_transition by blast
  qed
qed

end
