(* ===== verification/SampleRunStore.thy ===== *)
theory SampleRunStore
  imports RunStoreFacts SampleTasks
begin

text \<open>
  A completed task run that the store accepts: approved, executed on the engine, validated at the
  integration head, with merge-ready evidence for one commit; and a store that holds it.
\<close>

definition sample_check_value :: json where
  "sample_check_value = JObject [(''command'', JString ''npm''), (''args'', string_array_json [''test'']),
     (''startedAt'', JString ''t6''), (''finishedAt'', JString ''t7''), (''exitCode'', JNum 0),
     (''stdoutTail'', JString []), (''stderrTail'', JString []), (''passed'', JBool True)]"

definition sample_final_value :: json where
  "sample_final_value = JObject [(''id'', JString ''final-1''), (''number'', JNum 1), (''integrationCommit'', JString ''c1''),
     (''worktreePath'', JString ''/w''), (''startedAt'', JString ''t6''), (''state'', JString ''succeeded''),
     (''finishedAt'', JString ''t7''), (''evidence'', JObject [(''startedAt'', JString ''t6''), (''finishedAt'', JString ''t7''),
        (''passed'', JBool True), (''checks'', JArray [sample_check_value])])]"

definition sample_git_value :: json where
  "sample_git_value = JObject [(''verifiedAt'', JString ''t8''), (''integrationBranch'', JString ''conductor/run-1/integration''),
     (''integrationHead'', JString ''c1''), (''baseBranch'', JString ''main''), (''baseCommit'', JString ''c0''),
     (''userBranch'', JString ''main''), (''userHead'', JString ''c0''), (''userWorktreeClean'', JBool True),
     (''commits'', JArray [JObject [(''hash'', JString ''c1''), (''parent'', JString ''c0''), (''subject'', JString ''Work'')]])]"

definition sample_evidence_value :: json where
  "sample_evidence_value = JObject [(''version'', JNum 2), (''generatedAt'', JString ''t8''),
     (''integrationBranch'', JString ''conductor/run-1/integration''), (''integrationHead'', JString ''c1''),
     (''baseBranch'', JString ''main''), (''baseCommit'', JString ''c0''), (''securityPolicy'', legacy_policy_value),
     (''commits'', JArray [commit_claim ''step'' ''core'' (JString ''a1'') (JString ''c1'')]),
     (''finalReviews'', JArray (map (\<lambda>c. JObject [(''category'', JString c), (''summary'', JString ''fine'')]) REVIEW_CATEGORY_SET)),
     (''remainingRisks'', JArray []), (''finalChecks'', JArray [sample_check_value]), (''git'', sample_git_value)]"

definition sample_task_value :: "task_definition \<Rightarrow> json" where
  "sample_task_value d = JObject [(''definition'', task_json d), (''state'', JString ''ready''), (''attemptIds'', JArray [])]"

definition sample_revision :: json where
  "sample_revision = JObject [(''number'', JNum 1), (''createdAt'', JString ''t0''), (''source'', JString ''generated''),
     (''plan'', task_plan_json sample_task_plan), (''maxConcurrentWorkers'', JNum 2)]"

definition sample_completed :: "int \<Rightarrow> json" where
  "sample_completed n = JObject [(''schemaVersion'', JNum 9), (''revision'', JNum (of_int n)), (''id'', JString ''run-1''),
     (''state'', JString ''completed''), (''securityPolicy'', legacy_policy_value), (''repositoryRoot'', JString ''/repo''),
     (''baseBranch'', JString ''main''), (''baseCommit'', JString ''c0''),
     (''integrationBranch'', JString ''conductor/run-1/integration''), (''createdAt'', JString ''t0''), (''updatedAt'', JString ''t9''),
     (''plan'', task_plan_json sample_task_plan), (''maxConcurrentWorkers'', JNum 2), (''planRevision'', JNum 1),
     (''planRevisions'', JArray [sample_revision]),
     (''approvedAt'', JString ''t1''), (''approvedPlanRevision'', JNum 1),
     (''tasks'', JObject (map (\<lambda>d. (task_id d, sample_task_value d)) (task_plan_tasks sample_task_plan))),
     (''attempts'', JArray []), (''integrationHead'', JString ''c1''), (''reviewAttempts'', JArray []),
     (''repairAttempts'', JArray []), (''blockedWorkers'', JArray []), (''reviewRounds'', JArray []),
     (''finalValidationAttempts'', JArray [sample_final_value]), (''mergeReadyEvidence'', sample_evidence_value),
     (''request'', JObject [(''sourcePath'', JString ''request.md''), (''text'', JString ''Do it'')])]"

abbreviation sample_run_fields :: "int \<Rightarrow> json obj" where
  "sample_run_fields n \<equiv> fields_of (sample_completed n)"

abbreviation zero_text :: "rat \<Rightarrow> string" where
  "zero_text \<equiv> \<lambda>q. ''0''"

lemma legacy_policy_accepted: "assert_run_security_policy nt legacy_policy_value path = Inr ()"
  unfolding legacy_policy_value_def
  by (rule policy_json_accepted) (simp add: wf_run_policy_def legacy_security_policy_def is_worker_allowlist_policy_def)

lemma sample_fields:
  fixes n :: int
  defines "run \<equiv> sample_run_fields n"
  shows "get_prop run ''schemaVersion'' = JNum 9" "get_prop run ''revision'' = JNum (of_int n)" "get_prop run ''id'' = JString ''run-1''"
    "get_prop run ''state'' = JString ''completed''" "get_prop run ''securityPolicy'' = legacy_policy_value"
    "get_prop run ''repositoryRoot'' = JString ''/repo''" "get_prop run ''baseBranch'' = JString ''main''"
    "get_prop run ''baseCommit'' = JString ''c0''" "get_prop run ''integrationBranch'' = JString ''conductor/run-1/integration''"
    "get_prop run ''createdAt'' = JString ''t0''" "get_prop run ''updatedAt'' = JString ''t9''"
    "get_prop run ''plan'' = task_plan_json sample_task_plan" "get_prop run ''maxConcurrentWorkers'' = JNum 2"
    "get_prop run ''planRevision'' = JNum 1" "get_prop run ''planRevisions'' = JArray [sample_revision]"
    "get_prop run ''approvedAt'' = JString ''t1''" "get_prop run ''approvedPlanRevision'' = JNum 1"
    "get_prop run ''tasks'' = JObject (map (\<lambda>d. (task_id d, sample_task_value d)) (task_plan_tasks sample_task_plan))"
    "get_prop run ''attempts'' = JArray []" "get_prop run ''integrationHead'' = JString ''c1''"
    "get_prop run ''reviewAttempts'' = JArray []" "get_prop run ''repairAttempts'' = JArray []"
    "get_prop run ''blockedWorkers'' = JArray []" "get_prop run ''reviewRounds'' = JArray []"
    "get_prop run ''finalValidationAttempts'' = JArray [sample_final_value]"
    "get_prop run ''mergeReadyEvidence'' = sample_evidence_value"
    "get_prop run ''request'' = JObject [(''sourcePath'', JString ''request.md''), (''text'', JString ''Do it'')]"
    "get_prop run ''authority'' = JUndefined" "get_prop run ''error'' = JUndefined"
  unfolding run_def
  by (simp_all add: sample_completed_def fields_of_def get_prop_def obj_get_def)

lemmas sample_eval = sample_fields check_simps assert_string_def state_in_def items_of_def is_array_def is_record_def
  fields_of_def string_of_def

lemma sample_identity:
  assumes "0 \<le> n" "n \<le> 9007199254740991"
  shows "check_run_identity nt (sample_run_fields n) = Inr ()"
proof -
  have "run_id_pattern ''run-1''" by code_simp
  then show ?thesis using assms
    by (simp add: check_run_identity_def sample_fields legacy_policy_accepted check_simps assert_string_def state_in_def
        RUN_SCHEMA_VERSION_def RUN_STATES_def is_safe_integer_def to_int_def)
qed

lemma sample_history: "check_plan_history nt (sample_run_fields n) sample_task_plan = Inr ()"
proof -
  have "get_prop (fields_of sample_revision) ''number'' = JNum 1" "get_prop (fields_of sample_revision) ''createdAt'' = JString ''t0''"
    "get_prop (fields_of sample_revision) ''source'' = JString ''generated''"
    "get_prop (fields_of sample_revision) ''plan'' = task_plan_json sample_task_plan"
    "get_prop (fields_of sample_revision) ''maxConcurrentWorkers'' = JNum 2" "is_record sample_revision"
    "get_prop (fields_of sample_revision) ''restoredFrom'' = JUndefined"
    by (simp_all add: sample_revision_def fields_of_def get_prop_def obj_get_def is_record_def)
  then show ?thesis
    by (simp add: check_plan_history_def sample_fields check_simps check_plan_revision_entry_def check_workers_def is_integer_def
        to_int_def MIN_CONCURRENT_WORKERS_def MAX_CONCURRENT_WORKERS_def sample_task_plan_accepted items_of_def is_array_def
        state_in_def PLAN_REVISION_SOURCES_def is_safe_integer_def)
qed

lemma sample_approval: "check_approval nt (sample_run_fields n) = Inr ()"
  by (simp add: check_approval_def sample_fields check_simps is_safe_integer_def)

lemma sample_order: "topological_task_ids sample_task_plan = Inr [''core'', ''docs'']"
  by code_simp

lemma sample_task_fields:
  fixes d :: task_definition
  defines "t \<equiv> fields_of (sample_task_value d)"
  shows "get_prop t ''state'' = JString ''ready''" "get_prop t ''definition'' = task_json d" "get_prop t ''attemptIds'' = JArray []"
    "get_prop t ''integratedCommit'' = JUndefined" "get_prop t ''integrationError'' = JUndefined" "is_record (sample_task_value d)"
  unfolding t_def by (simp_all add: sample_task_value_def fields_of_def get_prop_def obj_get_def is_record_def)

lemma sample_tasks: "check_run_tasks nt (sample_run_fields n) sample_task_plan = Inr ()"
proof -
  let ?tasks = "map (\<lambda>d. (task_id d, sample_task_value d)) (task_plan_tasks sample_task_plan)"
  have entry: "get_prop ?tasks (task_id d) = sample_task_value d" if "d \<in> set (task_plan_tasks sample_task_plan)" for d
    using that by (auto simp: sample_task_plan_def get_prop_def obj_get_def)
  have "check_run_task nt ?tasks d = Inr ()" if "d \<in> set (task_plan_tasks sample_task_plan)" for d
    using entry[OF that] by (simp add: check_run_task_def check_simps sample_task_fields state_in_def TASK_STATES_def is_array_def items_of_def)
  moreover have "check_integrated_prefix ?tasks False [''core'', ''docs''] = Inr ()"
    using entry by (simp add: sample_task_plan_def sample_task_fields Let_def)
  moreover have "fields_of (get_prop (sample_run_fields n) ''tasks'') = ?tasks" "is_record (get_prop (sample_run_fields n) ''tasks'')"
    by (simp_all only: sample_fields) (simp_all add: fields_of_def is_record_def)
  moreover have "length (obj_keys ?tasks) = length (task_plan_tasks sample_task_plan)" by (simp add: obj_keys_def)
  ultimately show ?thesis
    by (simp add: check_run_tasks_def check_simps sample_order)
qed

lemma read_string_list_code [code]:
  "read_string_list v path = (case v of
     JArray items \<Rightarrow> if list_all is_string items then Inr (map string_of items)
       else Inl (Error (path @ '' must be an array of strings''))
   | _ \<Rightarrow> Inl (Error (path @ '' must be an array of strings'')))"
proof -
  have "is_string = (\<lambda>x. \<exists>s. x = JString s)" "string_of = (\<lambda>x. case x of JString s \<Rightarrow> s | _ \<Rightarrow> [])"
    by (auto simp: is_string_def string_of_def fun_eq_iff split: json.splits)
  then show ?thesis by (simp only: read_string_list_def)
qed

lemma sample_final: "check_final_attempt zero_text sample_task_plan 0 sample_final_value [] = Inr [''final-1'']"
  by code_simp

lemma sample_ready: "check_merge_ready (\<lambda>a b. True) zero_text (sample_run_fields 0) [''core'', ''docs''] = Inr ()"
  "check_merge_ready (\<lambda>a b. True) zero_text (sample_run_fields 1) [''core'', ''docs''] = Inr ()"
  by code_simp+

lemma sample_attempts: "check_task_attempts nt (sample_run_fields n) sample_task_plan = Inr empty_table"
proof -
  have "\<forall>entry\<in>set (fields_of (get_prop (sample_run_fields n) ''tasks'')). task_attempt_ids (snd entry) = []"
    by (auto simp: sample_fields(18) fields_of_def[of "JObject _"] task_attempt_ids_def sample_task_fields items_of_def strings_of_def)
  then show ?thesis
    by (auto simp: check_task_attempts_def check_simps sample_fields(19) is_array_def items_of_def check_task_references_def set_size_def
        comp_def)
qed

lemma sample_execution:
  assumes "check_merge_ready loc zero_text (sample_run_fields n) [''core'', ''docs''] = Inr ()"
  shows "check_execution loc zero_text (sample_run_fields n) sample_task_plan [''core'', ''docs''] = Inr ()"
proof -
  have reviews: "check_review_attempts (sample_run_fields n) = Inr \<lparr>table_reviews = [], table_rounds = []\<rparr>"
    by (simp add: check_review_attempts_def check_simps sample_fields items_of_def is_array_def)
  have repairs: "check_repair_attempts zero_text (sample_run_fields n) order [] = Inr \<lparr>table_repairs = [],
      table_head = task_head (fields_of (get_prop (sample_run_fields n) ''tasks'')) (JString ''c0'') order\<rparr>" for order
    by (simp add: check_repair_attempts_def check_simps sample_fields items_of_def is_array_def)
  have legacy: "\<not> legacy_execution (sample_run_fields n)"
    by (simp add: legacy_execution_def sample_fields items_of_def)
  have final: "check_final_attempts zero_text (sample_run_fields n) sample_task_plan = Inr ()"
  proof -
    have "\<not> final_running sample_final_value" by code_simp
    then show ?thesis using sample_final
      by (simp add: check_final_attempts_def check_simps sample_fields final_attempts_def items_of_def is_array_def)
  qed
  have complete: "check_completion (sample_run_fields n) = Inr ()"
  proof -
    have "get_prop (fields_of sample_final_value) ''state'' = JString ''succeeded'' \<and> is_record sample_final_value \<and>
        get_prop (fields_of sample_final_value) ''integrationCommit'' = JString ''c1''" by code_simp
    then have "successful_validation (sample_run_fields n) \<noteq> None"
      by (simp add: successful_validation_def sample_fields final_attempts_def items_of_def find_last_def)
    then show ?thesis by (simp add: check_completion_def check_simps sample_fields state_in_def sample_evidence_value_def)
  qed
  have blocked: "check_blocked_workers (sample_run_fields n) tabs = Inr ()" for tabs
    by (simp add: check_blocked_workers_def check_simps sample_fields items_of_def is_array_def)
  have rounds: "check_review_rounds nt (sample_run_fields n) (tabs\<lparr>tables_reviews := []\<rparr>) = Inr ()" for nt tabs
    by (simp add: check_review_rounds_def check_simps sample_fields items_of_def is_array_def set_size_def)
  have activity: "check_activity (sample_run_fields n) \<lparr>tables_tasks = [], tables_reviews = [], tables_repairs = []\<rparr> = Inr ()"
  proof -
    have "\<forall>entry\<in>set (fields_of (get_prop (sample_run_fields n) ''tasks'')). get_prop (fields_of (snd entry)) ''state'' = JString ''ready''"
      by (auto simp: sample_fields(18) fields_of_def[of "JObject _"] sample_task_fields)
    then show ?thesis
      by (auto simp: check_activity_def check_simps active_of_def sample_fields(13) to_int_def check_task_activity_def state_in_def)
  qed
  have request: "check_request (sample_run_fields n) = Inr ()"
    by (simp add: check_request_def check_simps sample_fields is_record_def get_prop_def[of "_ # _"] obj_get_def fields_of_def[of "JObject _"])
  show ?thesis
    using assms reviews repairs legacy final sample_attempts complete blocked activity request
      rounds[of _ "\<lparr>tables_tasks = [], tables_reviews = [], tables_repairs = []\<rparr>"]
    by (simp add: check_execution_def and_then_Inr check_texts_Inr check_optional_text_Inr Let_def sample_fields(16,17,20,29)
        check_integration_head_def check_repaired_findings_def check_reviewed_def check_unapproved_def)
qed

lemma sample_validated:
  assumes "n \<in> {0, 1}"
  shows "validate_stored_run sha (\<lambda>a b. True) zero_text (sample_completed n) = Inr (sample_completed n)"
proof -
  have run: "migrate_legacy_run (sample_run_fields n) = sample_run_fields n"
    by (rule current_not_migrated) (simp add: sample_fields RUN_SCHEMA_VERSION_def)
  have "check_execution (\<lambda>a b. True) zero_text (sample_run_fields n) sample_task_plan [''core'', ''docs''] = Inr ()"
    by (rule sample_execution) (use assms sample_ready in auto)
  moreover have "check_run_identity zero_text (sample_run_fields n) = Inr ()" by (rule sample_identity) (use assms in auto)
  moreover have "is_record (sample_completed n)" "JObject (sample_run_fields n) = sample_completed n"
    by (simp_all add: sample_completed_def is_record_def fields_of_def)
  ultimately show ?thesis
    using sample_history[of zero_text n] sample_approval[of zero_text n] sample_tasks[of zero_text n]
    by (simp add: validate_stored_run_def and_then_Inr check_object_def Let_def run sample_fields(1,12) sample_task_plan_accepted
        check_run_authority_def sample_fields(28) sample_order)
qed

text \<open>A store that holds the run, and a transaction that writes it again as a new object.\<close>

definition sample_task_store :: task_store_env where
  "sample_task_store = \<lparr>store_sha = (\<lambda>v. ''d''), store_number = zero_text, store_directory = ''/runs'', store_sort = (\<lambda>xs. xs),
     store_locale = (\<lambda>a b. True)\<rparr>"

definition sample_task_files :: run_files where
  "sample_task_files = [(json_name ''run-1'', Inr (sample_completed 0))]"

lemma sample_stamped: "stamped (sample_completed 0) 1 = sample_completed 1"
  by (simp add: stamped_def with_revision_def sample_completed_def fields_of_def obj_set_def RUN_SCHEMA_VERSION_def)

lemma sample_transaction:
  "\<exists>files'. run_transaction sample_task_store sample_task_files ''run-1'' (\<lambda>run. Inr (run, False)) =
     Inr (files', sample_completed 1)"
proof -
  have valid: "validated_run sample_task_store (sample_completed n) = Inr (sample_completed n)" if "n \<in> {0, 1}" for n
    using sample_validated[OF that] by (simp add: validated_run_def sample_task_store_def)
  have parsed: "read_validated sample_task_store (json_name ''run-1'') (Inr (sample_completed 0)) = Inr (sample_completed 0)"
    using valid[of 0] by (simp add: read_validated_def parsed_file_def)
  have "run_id_pattern ''run-1''" by code_simp
  moreover have "revision_of (sample_completed 0) = 0" "run_key (sample_completed 0) = JString ''run-1''"
    by (simp_all add: revision_of_def run_key_def sample_fields to_int_def)
  moreover have "assert_plan_history_transition nt (sample_run_fields 0) (sample_run_fields 0) = Inr ()" for nt
    by (simp add: assert_plan_history_transition_def and_then_Inr sample_fields authority_absent_def check_authority_change_def
        items_of_def plan_unchanged_def check_revision_kept_def)
  ultimately show ?thesis
    using valid[of 1] parsed
    by (simp add: run_transaction_def and_then_Inr file_name_for_Inr sample_task_files_def obj_get_def sample_stamped write_task_run_def)
qed

end
