(* ===== verification/Spec2Isabelle.thy ===== *)
theory Spec2Isabelle
  imports SampleFinalization SampleTasks SampleStore SampleRunStore
begin

text \<open>
  A model of pi-build-conductor (TypeScript, under \<open>src/src\<close>), which turns a request into a plan of
  steps, freezes the authority the user approved, runs the steps in isolated git worktrees, integrates
  their commits in a fixed order, has the result reviewed and validated, and issues merge-ready evidence.

  The parts of the program and the theories that model them, in the order in which they use each other:

  \<^item> Graphs (\<open>domain/dag.ts\<close>): \<open>DependencyGraph\<close> has \<open>findCycle\<close> with its fuel, \<open>TopologicalOrder\<close> the order
    \<open>topologicalIds\<close> with the declaration-order tie break. A depth-first search needs at most one level per
    node, so fuel one above the number of nodes never runs out (proved).
  \<^item> Values and plans (\<open>domain/types.ts\<close>, \<open>dag.ts\<close>, \<open>steps.ts\<close>, \<open>plan-translation.ts\<close>): \<open>JsValue\<close> holds JSON values
    and the library functions on strings, numbers and paths, \<open>Types\<close> the records, \<open>PlanReader\<close>, \<open>TaskPlan\<close> and
    \<open>Steps\<close> the readers of task plans and workflow plans, which collect issues instead of stopping at the
    first, and \<open>PlanTranslation\<close> the translation of a task plan. What a reader accepts is well formed, and what
    is well formed reads back as itself.
  \<^item> Authority (\<open>security/\<close>): \<open>Capabilities\<close>, \<open>Envelope\<close>, \<open>Authority\<close> and \<open>SecurityPolicy\<close>, from the tools a
    capability grants to the envelope the user approved, its frozen form with a digest, and what a worker
    may be launched with.
  \<^item> The engine (\<open>engine/\<close>): \<open>WorkflowState\<close> is the durable state of a run, \<open>Events\<close> its bounded timeline,
    \<open>Reconciliation\<close> and \<open>Scheduler\<close> the recomputation of step states and the choice of what starts,
    \<open>Artifacts\<close>, \<open>ArtifactRouting\<close> and \<open>Execution\<close> what a step produces and how it ends, \<open>Admission\<close> the work a
    running step proposes, and \<open>Engine\<close> every transaction of \<open>engine.ts\<close> as a function on the stored run.
    \<open>EngineLoop\<close> is the loop as a step relation, one rule per await point, interleaved with completions,
    proposals and cancellation. \<open>EngineInvariant\<close>, \<open>EngineTransactions\<close>, \<open>EngineSettling\<close>,
    \<open>EngineEvolution\<close> and \<open>EngineReachability\<close> show what every reachable run keeps, \<open>EngineProgress\<close>
    that an undisturbed run completes, \<open>EngineTermination\<close> that the loop ends, \<open>EngineHead\<close> what the
    integration head is and what an execution never changes.
  \<^item> Storage and recovery (\<open>storage/\<close>, \<open>engine/recovery.ts\<close>): \<open>ArtifactStore\<close> the immutable artifacts of a run
    and \<open>ArtifactRetention\<close> which of them retention deletes, \<open>FileStorage\<close> the stored validation evidence, \<open>Recovery\<close> and \<open>RecoveryInvariant\<close> how a run whose process
    disappeared is settled. \<open>WorkflowStore\<close> is \<open>workflow-state-store.ts\<close>: every check of a stored run on the
    value its file parses to, and the operations on the files; \<open>WorkflowStoreFacts\<close> shows what an accepted value
    is and what a transaction keeps. \<open>RunDocument\<close> shows that a run with the invariants of the engine and storable
    data of its attempts and events is accepted, and \<open>StorableRuns\<close> which of these data the engine itself keeps
    in order (finishing times, numbers, integration errors) and which come from workspaces, handlers and the
    clock and stay a condition. \<open>RunPersistence\<close> says which transactions of the store in memory the files take.
    \<open>RunStore\<close> is \<open>run-store.ts\<close>: migration and validation of stored task runs, what a write may change, and the
    operations on the files but \<open>recover\<close>; \<open>RunStoreFacts\<close> shows what an accepted run is and what writes keep.
  \<^item> Review, validation and finalization (\<open>review/\<close>, \<open>validation/\<close>, \<open>engine/finalization.ts\<close>): \<open>StableSort\<close>,
    \<open>TextOrder\<close>, \<open>ReviewReport\<close> and \<open>ReviewFacts\<close> read and order findings, \<open>Validation\<close> watches one command as a
    machine driven by its events, \<open>Validators\<close> are the task and final validators, \<open>Finalization\<close> and
    \<open>FinalizationFacts\<close> integrate commits and issue merge-ready evidence.
  \<^item> Runs of task plans (\<open>domain/run.ts\<close>, \<open>domain/scheduler.ts\<close>): \<open>TaskRun\<close> and \<open>TaskRunFacts\<close>.
  The theories whose names begin with \<open>Sample\<close> hold the concrete plans, runs, files and environments the
  properties are exercised on; \<open>Prelude\<close> has the shared vocabulary.

  Conventions. A record of the source is a record here with prefixed field names; a union is a datatype;
  an exception is the left side of \<open>result\<close>; an object is an association list in insertion order; a
  number of a JSON document is a rational; a string is a list of Latin-1 code units. Interfaces are
  locales (\<open>keyed_store\<close>, \<open>registry\<close>, \<open>state_rule\<close>, the artifact interface of routing, the orders of
  \<open>StableSort\<close>), each interpreted on the definitions that provide it. A loop over a list is a fold or a
  structural recursion; a loop that waits is a step relation whose ending is proved with a measure.

  Parameters. SHA-256, the text of a number, \<open>localeCompare\<close>, \<open>JSON.parse\<close> of texts the program did not write,
  the clock, new identifiers, git, worktrees and worker processes are arguments of the definitions that use
  them.

  Not modelled: the text shown to the user (\<open>inspection\<close>, plan presentation, prompts), the processes and
  the network protocol of workers, the git subprocess and its worktrees, the file-system calls
  below the stores, and the orchestrator and extension, which wire the parts to the user interface.
\<close>

subsection \<open>Dependency graphs and their order\<close>

text \<open>
  C1. The depth-first search always finishes within its fuel, answers "no cycle" exactly
  when the dependency relation is acyclic, and otherwise returns a real cycle of it.
\<close>
theorem find_cycle_exact:
  "(\<exists>r s. visit_list nodes (Suc (length nodes)) (node_ids nodes) initial_dfs = Some (r, s)) \<and>
   (find_cycle nodes = None \<longleftrightarrow> acyclic (dep_rel nodes)) \<and>
   (case find_cycle nodes of None \<Rightarrow> True | Some c \<Rightarrow> is_cycle nodes c)"
  using find_cycle_terminates[of nodes] find_cycle_None[of nodes] find_cycle_Some[of nodes]
    is_cycle_not_acyclic[of nodes]
  by (auto split: option.split)

text \<open>
  C2. The order of an accepted plan contains every step exactly once, and no step comes
  before one of its dependencies.
\<close>
theorem accepted_plan_order:
  assumes "validate_workflow_plan v = Inr p"
  shows "distinct (topological_step_ids p) \<and>
    set (topological_step_ids p) = set (map step_id (plan_steps p)) \<and>
    dependencies_first (plan_steps p) (topological_step_ids p)"
  using topological_step_ids_order[OF validate_workflow_plan_sound[OF assms]] by blast

theorem accepted_plan_order_witness:
  "dependencies_first (plan_steps sample_plan) (topological_step_ids sample_plan)"
  using accepted_plan_order[OF sample_plan_accepted] by blast

text \<open>
  C3. The layers of a task plan contain every task once, no layer is empty, and every task
  stands in a later layer than each of its dependencies.
\<close>
theorem task_layers:
  assumes "validate_task_plan v = Inr p"
  shows "\<exists>a. analyze_task_plan p = Inr a \<and>
    mset (concat (layers a)) = mset (map task_id (task_plan_tasks p)) \<and> [] \<notin> set (layers a) \<and>
    (\<forall>t\<in>set (task_plan_tasks p). \<exists>k<length (layers a). task_id t \<in> set (layers a ! k) \<and>
      (\<forall>d\<in>set (task_dependencies t). \<exists>j<k. d \<in> set (layers a ! j)))"
  using analyze_task_plan_layers[OF validate_task_plan_sound[OF assms]] .

theorem task_layers_witness:
  "\<exists>a. analyze_task_plan sample_task_plan = Inr a \<and> [] \<notin> set (layers a)"
  using task_layers[OF sample_task_plan_accepted] by blast

subsection \<open>Plan documents\<close>

text \<open>
  C4. The validator accepts a document only when it yields a well-formed workflow plan:
  canonical ids, paths and names, known acyclic dependencies, inputs that name a declared
  output of a dependency, retry budgets within bounds.
\<close>
theorem accepted_plan_wf:
  assumes "validate_workflow_plan v = Inr p"
  shows "wf_workflow_plan p"
  using assms by (rule validate_workflow_plan_sound)

theorem accepted_plan_wf_witness: "wf_workflow_plan sample_plan"
  by (rule accepted_plan_wf[OF sample_plan_accepted])

text \<open>
  C5. Writing a well-formed workflow plan as JSON and validating the document gives the
  same plan: the validator neither rejects nor rewrites a plan it would produce.
\<close>
theorem plan_document_roundtrip:
  assumes "wf_workflow_plan p"
  shows "validate_workflow_plan (workflow_plan_json p) = Inr p \<and>
    read_workflow_plan_document (workflow_plan_json p) = Inr p"
  using validate_workflow_plan_json[OF assms] read_workflow_plan_document_json[OF assms] by blast

theorem plan_document_roundtrip_witness:
  "read_workflow_plan_document (workflow_plan_json sample_plan) = Inr sample_plan"
  using plan_document_roundtrip[OF sample_plan_wf] by blast

text \<open>
  Every accepted legacy task plan translates, without an error, to a well-formed
  workflow plan that has one change step per task.
\<close>
theorem legacy_plan_translates:
  assumes "validate_task_plan v = Inr p"
  shows "translate_legacy_task_plan v = Inr (translated_plan p) \<and> wf_workflow_plan (translated_plan p) \<and>
    map step_id (plan_steps (translated_plan p)) = map task_id (task_plan_tasks p)"
  using translate_legacy_task_plan_ok[OF assms] wf_translated_plan[OF validate_task_plan_sound[OF assms]]
  by (simp add: translated_plan_def translate_task_def comp_def)

theorem legacy_plan_translates_witness:
  "wf_workflow_plan (translated_plan sample_task_plan)"
  using legacy_plan_translates[OF sample_task_plan_accepted] by blast

subsection \<open>Authority\<close>

text \<open>
  Stored capability profiles are accepted exactly when every profile is within its
  maximum, free of duplicates and grants no tool outside its capabilities.
\<close>
theorem stored_profiles_accepted:
  "assert_capability_profiles nt (stored_profiles_json caps tools) path = Inr () \<longleftrightarrow>
     (\<forall>name. sound_profile name (stored_profile (caps name) (tools name)))"
  by (rule assert_capability_profiles_Inr)

text \<open>
  C6. Reading an envelope document yields a well-formed envelope, which always reserves
  every escalation condition, and reading its JSON form again gives the same envelope.
\<close>
theorem envelope_normal_form:
  assumes "normalize_authority_envelope v source = Inr e"
  shows "wf_envelope source e \<and> envelope_conditions e = RESERVED_ESCALATION_CONDITIONS \<and>
    normalize_authority_envelope (envelope_json e) source = Inr e"
  using normalize_authority_envelope_sound[OF assms] normalize_envelope_json
  by (auto simp: wf_envelope_def)

theorem envelope_normal_form_witness: "wf_envelope Derived sample_envelope"
  using envelope_normal_form[OF normalize_envelope_json[OF sample_envelope_wf]] by blast

text \<open>
  C7. A plan passes the authority check exactly when it is within the envelope: the
  repository is approved, every declared capability is granted, every path a step may mutate
  is allowed and not withheld, and no required validation is skipped.
\<close>
theorem authority_check_exact:
  "assert_plan_within_authority p e dir profiles = Inr () \<longleftrightarrow> plan_within p e dir profiles"
  by (simp add: assert_plan_within_authority_def Let_def plan_authority_issues_Nil[symmetric])

text \<open>
  C8. Freezing a run's authority, when it succeeds, freezes an envelope that admits the
  plan under exactly the capability profiles the envelope grants, with its digest; an authored
  envelope is frozen unchanged.
\<close>
theorem frozen_authority_admits_plan:
  assumes "freeze_run_authority sha dir document policy authored = Inr (a, policy')"
  shows "\<exists>p r ps. read_workflow_plan_document document = Inr p \<and>
    envelope_repository_for (authority_envelope_of a) dir = Some r \<and>
    policy' = policy\<lparr>policy_profiles := Some ps\<rparr> \<and> ps = narrowed_profiles (repository_mutation r) \<and>
    plan_within p (authority_envelope_of a) dir (Some ps) \<and>
    authority_digest a = authority_envelope_digest sha (authority_envelope_of a) \<and>
    envelope_sandbox (authority_envelope_of a) = policy_sandbox policy \<and>
    (\<forall>e. authored = Some e \<longrightarrow> authority_source a = Authored \<and> authority_envelope_of a = e)"
  using freeze_run_authority_sound[OF assms] by blast

theorem frozen_authority_admits_plan_witness:
  "\<exists>a policy' p ps. freeze_run_authority sample_digest ''/repo'' (workflow_plan_json sample_plan) sample_policy None =
     Inr (a, policy') \<and> policy_profiles policy' = Some ps \<and> plan_within p (authority_envelope_of a) ''/repo'' (Some ps)"
proof -
  obtain a policy' where f: "freeze_run_authority sample_digest ''/repo'' (workflow_plan_json sample_plan)
      sample_policy None = Inr (a, policy')"
    using freeze_derived_authority[OF sample_document, of sample_policy "''/repo''" sample_digest]
      sample_profiles_default sample_capabilities by (auto simp: sample_policy_def)
  from frozen_authority_admits_plan[OF f] f show ?thesis by auto
qed

text \<open>
  C9. Under version 2 policies with the default profiles, and in a repository that has a name, a run without
  an authored envelope can be frozen exactly when the capabilities its steps hold are none or include
  reading the repository; its authority is then the envelope derived from its own plan.
\<close>
theorem derived_authority_admits_its_plan:
  assumes "read_workflow_plan_document document = Inr p" and "policy_version policy = 2"
    and "default_profiles (policy_profiles policy)" and "dir \<noteq> []"
  shows "((\<exists>frozen. freeze_run_authority sha dir document policy None = Inr frozen) \<longleftrightarrow>
      derived_capabilities p (policy_profiles policy) = [] \<or>
      ReadRepository \<in> set (derived_capabilities p (policy_profiles policy))) \<and>
    (\<forall>a policy'. freeze_run_authority sha dir document policy None = Inr (a, policy') \<longrightarrow> authority_source a = Derived \<and>
      authority_envelope_of a = derived_envelope dir p (policy_profiles policy) (policy_sandbox policy))"
proof (cases "derived_capabilities p (policy_profiles policy) = [] \<or>
    ReadRepository \<in> set (derived_capabilities p (policy_profiles policy))")
  case True
  from freeze_derived_authority[OF assms True, of sha] True show ?thesis by auto
next
  case False
  from freeze_derived_refused[OF assms(1,2), of sha dir] False show ?thesis by auto
qed

theorem derived_authority_admits_its_plan_witness:
  "\<exists>frozen. freeze_run_authority sample_digest ''/repo'' (workflow_plan_json sample_plan) sample_policy None = Inr frozen"
  using derived_authority_admits_its_plan[OF sample_document, of sample_policy "''/repo''" sample_digest]
    sample_profiles_default sample_capabilities by (auto simp: sample_policy_def)

text \<open>
  C10. A plan whose steps hold capabilities but none of them reads the repository has no
  derived envelope: the derivation is refused, although the plan itself is accepted.
\<close>
theorem derivation_refused_without_read:
  assumes "read_workflow_plan_document v = Inr p"
    and "derived_capabilities p profiles \<noteq> []" and "ReadRepository \<notin> set (derived_capabilities p profiles)"
  shows "\<exists>issues. derive_authority_envelope dir v profiles sandbox = Inl (EnvelopeValidationError issues)"
  using assms by (rule derive_authority_envelope_refused)

theorem derivation_refused_without_read_witness:
  "\<exists>issues. derive_authority_envelope ''/repo'' (workflow_plan_json sample_blind_plan) (Some sample_profiles) Nono =
     Inl (EnvelopeValidationError issues)"
  by (rule derivation_refused_without_read[OF sample_blind_document]) (simp_all add: sample_blind_capabilities)

text \<open>
  A stored authority is accepted only with the digest of its own well-formed
  envelope, and the stored form of such an authority reads back as itself.
\<close>
theorem stored_authority_roundtrip:
  assumes "validate_stored_authority sha v path = Inr a"
  shows "wf_envelope (authority_source a) (authority_envelope_of a) \<and>
    authority_digest a = authority_envelope_digest sha (authority_envelope_of a) \<and>
    validate_stored_authority sha (frozen_authority_json a) path = Inr a"
  using validate_stored_authority_sound[OF assms] validate_stored_authority_json by blast

lemma sample_authority_stored:
  "validate_stored_authority sample_digest (frozen_authority_json sample_authority) path = Inr sample_authority"
  by (rule validate_stored_authority_json) (simp_all add: sample_authority_def sample_envelope_wf)

theorem stored_authority_roundtrip_witness: "wf_envelope Derived (authority_envelope_of sample_authority)"
  using stored_authority_roundtrip[OF sample_authority_stored] by (simp add: sample_authority_def)

text \<open>
  C11. A worker of a run whose authority was frozen holds only tools whose capability the approved
  envelope grants for the repository, narrowed further to the profile of its step.
\<close>
theorem worker_tools_within_authority:
  assumes "freeze_run_authority sha dir document (security_policy.truncate policy) authored = Inr (a, frozen)"
    and "step_worker_launch_policy (with_frozen_profiles policy frozen) role profile = Some l"
    and "tool \<in> set (launch_tools l)"
  shows "\<exists>r c. envelope_repository_for (authority_envelope_of a) dir = Some r \<and> tool_capability tool = Some c \<and>
    c \<in> set (scope_capabilities (repository_mutation r)) \<and> tool \<in> set (profile_tools profile)"
  using frozen_worker_tools[OF assms(1) assms(2)[unfolded with_frozen_profiles_def] assms(3)] .

theorem worker_tools_within_authority_witness:
  "\<exists>a frozen l. freeze_run_authority sample_digest ''/repo'' (workflow_plan_json sample_plan) sample_policy None = Inr (a, frozen) \<and>
     step_worker_launch_policy (with_frozen_profiles sample_run_policy frozen) ImplementationRole (sample_profiles ChangeProfile) = Some l \<and>
     (\<forall>tool\<in>set (launch_tools l). tool \<in> set (profile_tools (sample_profiles ChangeProfile)))"
proof -
  obtain a frozen where f: "freeze_run_authority sample_digest ''/repo'' (workflow_plan_json sample_plan) sample_policy None = Inr (a, frozen)"
    using freeze_derived_authority[OF sample_document, of sample_policy "''/repo''" sample_digest]
      sample_profiles_default sample_capabilities by (auto simp: sample_policy_def)
  obtain l where l: "step_worker_launch_policy (with_frozen_profiles sample_run_policy frozen) ImplementationRole
      (sample_profiles ChangeProfile) = Some l"
    using sample_run_policy_facts(2) by (auto simp: step_worker_launch_policy_Some with_frozen_profiles_def is_worker_allowlist_policy_def)
  show ?thesis
    using worker_tools_within_authority[OF _ l, of sample_digest "''/repo''" "workflow_plan_json sample_plan" None a]
      f l sample_run_policy_facts(1) by auto
qed

subsection \<open>Scheduling\<close>

text \<open>
  C12. Reconciliation reaches a fixed point of the step-state rule in one pass over the
  topological order, and reconciling again changes nothing.
\<close>
theorem reconciliation_fixed_point:
  assumes "graph_ok s"
  shows "reconciled (run_profiles s) (run_steps (reconcile_workflow_steps s)) \<and>
    reconcile_workflow_steps (reconcile_workflow_steps s) = reconcile_workflow_steps s"
  using reconcile_reconciled[OF assms] reconcile_idempotent[OF assms] by simp

theorem reconciliation_fixed_point_witness:
  "reconcile_workflow_steps (reconcile_workflow_steps sample_run) = reconcile_workflow_steps sample_run"
  using reconciliation_fixed_point[OF sample_run_graph] by blast

text \<open>
  C13. The steps chosen to start are distinct, ready and not already attempted, conflict with
  no running step and with no other chosen step in their locks, and need at most the free
  worker slots.
\<close>
theorem launchable_steps_safe:
  assumes "graph_ok s"
  shows "distinct (launchable_steps s) \<and>
    (\<forall>i\<in>set (launchable_steps s). startable s i \<and>
      (\<forall>r\<in>set (running_records s). \<not> locks_conflict (record_definition (record_of s i)) (record_definition r)) \<and>
      (\<forall>j\<in>set (launchable_steps s). i \<noteq> j \<longrightarrow>
         \<not> locks_conflict (record_definition (record_of s i)) (record_definition (record_of s j)))) \<and>
    int (length (filter (consumes_slot s) (launchable_steps s))) \<le> free_slots s"
  using launchable_steps_sound[OF assms] by blast

theorem launchable_steps_safe_witness: "distinct (launchable_steps sample_run)"
  using launchable_steps_safe[OF sample_run_graph] by blast

text \<open>
  C14. No step that could start is left out without a reason: it conflicts with a running or
  a chosen step, or it needs a worker slot and none is left.
\<close>
theorem launchable_steps_complete:
  assumes "graph_ok s" and "startable s i" and "i \<notin> set (launchable_steps s)"
  shows "(\<exists>r\<in>set (running_records s) \<union> record_of s ` set (launchable_steps s).
      locks_conflict (record_definition (record_of s i)) (record_definition r)) \<or>
    consumes_slot s i \<and> int (length (filter (consumes_slot s) (launchable_steps s))) = free_slots s"
  using assms by (rule launchable_steps_maximal)

theorem launchable_steps_complete_witness:
  "(\<exists>r\<in>set (running_records sample_narrow_run) \<union> record_of sample_narrow_run ` {''core''}.
      locks_conflict (record_definition (record_of sample_narrow_run ''look'')) (record_definition r)) \<or>
    consumes_slot sample_narrow_run ''look''"
  using launchable_steps_complete[OF sample_narrow_graph sample_narrow_startable]
  unfolding sample_narrow_launchable by auto

subsection \<open>The execution of a run\<close>

text \<open>
  C15. The reservation of an attempt starts a step only when every dependency is done (succeeded,
  and integrated when it changes the repository), no running step holds a conflicting lock,
  and a worker slot is left for it.
\<close>
theorem launched_step_dependencies_done:
  assumes "engine_reachable s e" and "startable_run s" and "eng_pc e = Reserve a ids"
    and "reserve_attempt (eng_run e) a updated time = Inr (t, True)"
  shows "\<exists>r. obj_get (run_steps (eng_run e)) (attempt_step a) = Some r \<and>
    (\<forall>d\<in>set (step_dependencies (record_definition r)). step_done (eng_run e) d) \<and>
    (\<forall>q\<in>set (running_records (eng_run e)). \<not> locks_conflict (record_definition r) (record_definition q)) \<and>
    (consumes_slot (eng_run e) (attempt_step a) \<longrightarrow>
       int (length (filter (consumes_slot (eng_run e)) (active_step_ids (eng_run e)))) < run_max_workers (eng_run e))"
  using engine_reachable_ok[OF assms(1,2)] launched_step_ready[OF _ assms(4)] by (simp add: engine_ok_def)

text \<open>
  C16. Whatever the steps, the callers and the integrator do, every state the engine can reach
  keeps the records on the plan, the attempts numbered without gaps within their budgets, the
  locks exclusive, the slots respected, the integrated steps a prefix of the mutating ones, and
  the timeline numbered; there are at most five attempts per step of the plan.
\<close>
theorem engine_run_invariant:
  assumes "engine_reachable s e" and "startable_run s"
  shows "graph_ok (eng_run e) \<and> records_ok (eng_run e) \<and> exclusive (eng_run e) \<and> slots_ok (eng_run e) \<and>
    integrated_prefix (eng_run e) \<and> timeline_ok (eng_run e) \<and>
    length (run_attempts (eng_run e)) \<le> 5 * length (plan_steps (run_plan (eng_run e)))"
  using engine_reachable_ok[OF assms] run_attempts_bound[of "eng_run e"]
  by (simp add: engine_ok_def run_ok_def store_ok_def)

text \<open>
  C17. When the loop settles a run that is still running and was not aborted, the run is complete:
  every step has succeeded and what had to be integrated is. So the message that the workflow
  stopped while steps were waiting is never given to such a run.
\<close>
theorem undisturbed_run_completes:
  assumes "engine_reachable s e" and "startable_run s" and "engine_step e e'" and "eng_pc e' = Done"
    and "run_state (eng_run e) = RunRunning" and "\<not> eng_aborted e"
  shows "run_state (eng_run e') = RunCompleted \<and>
    (\<forall>sid\<in>set (obj_keys (run_steps (eng_run e'))). step_done (eng_run e') sid)"
proof -
  have ok: "engine_ok e" by (rule engine_reachable_ok[OF assms(1,2)])
  from engine_step_to_done[OF assms(3) ok assms(4)] obtain u v where pc: "eng_pc e = Race" "eng_racing e = []"
    and run: "eng_run e' = settle_run (eng_run e) False u v" using assms(6) by auto
  have rok: "run_ok (eng_run e)" using ok by (simp add: engine_ok_def)
  note complete = settle_done_run[OF rok assms(5) settling_complete[OF ok pc assms(5,6)]]
  show ?thesis using complete by (simp add: run settle_run_fields)
qed

theorem undisturbed_run_completes_witness:
  "\<exists>e'. engine_reachable solo_run e' \<and> run_state (eng_run e') = RunCompleted \<and> step_done (eng_run e') ''core''"
proof -
  obtain s where s: "engine_reachable solo_run (solo_engine s Race [] [])" "run_state s = RunRunning"
    "obj_keys (run_steps s) = [''core'']" using solo_execution by blast
  let ?e = "(solo_engine s Race [] [])\<lparr>eng_run := settle_run s False ''t4'' ''t4'', eng_pc := Done\<rparr>"
  have step: "engine_step (solo_engine s Race [] []) ?e"
    using engine_step.settled_run[of "solo_engine s Race [] []" "''t4''" "''t4''"] by (simp add: solo_engine_def)
  have "obj_keys (run_steps (settle_run s False ''t4'' ''t4'')) = [''core'']" by (simp add: settle_run_fields s(3))
  with undisturbed_run_completes[OF s(1) solo_startable(1) step] s(2) engine_reachable.step[OF s(1) step]
  show ?thesis by (intro exI[of _ ?e]) (simp add: solo_engine_def)
qed

theorem launched_step_dependencies_done_witness:
  "\<exists>r. obj_get (run_steps solo_run) ''core'' = Some r \<and>
    (\<forall>d\<in>set (step_dependencies (record_definition r)). step_done solo_run d)"
proof -
  obtain t where t: "reserve_attempt solo_run solo_attempt ''t1'' ''t1'' = Inr (t, True)"
    using solo_reserve[OF solo_created_at] by blast
  have e: "eng_pc (solo_engine solo_run (Reserve solo_attempt []) [] []) = Reserve solo_attempt []"
    "eng_run (solo_engine solo_run (Reserve solo_attempt []) [] []) = solo_run" "attempt_step solo_attempt = ''core''"
    by (simp_all add: solo_engine_def solo_attempt_def)
  from launched_step_dependencies_done[OF solo_launch solo_startable(1) e(1), unfolded e(2,3), OF t]
  show ?thesis by blast
qed

theorem engine_run_invariant_witness: "records_ok solo_run"
  using engine_run_invariant[OF engine_reachable.start solo_startable(1)] by (simp add: engine_start_def)

text \<open>
  C18. The loop always has a next step until it is done, and unless steps are admitted or callers
  intervene it takes finitely many.
\<close>
theorem engine_loop_ends:
  assumes "engine_reachable s e" and "startable_run s"
  shows "(eng_pc e \<noteq> Done \<longrightarrow> (\<exists>e'. engine_step e e')) \<and>
    \<not> (\<exists>f. f 0 = e \<and> (\<forall>n. engine_step (f n) (f (Suc n))))"
proof -
  have ok: "engine_ok e" by (rule engine_reachable_ok[OF assms])
  have False if f: "f 0 = e" "\<forall>n. engine_step (f n) (f (Suc n))" for f
  proof -
    have "engine_ok (f n)" for n by (induction n) (use f ok engine_step_ok in auto)
    then have "\<forall>n. (f (Suc n), f n) \<in> {(e', e). engine_ok e \<and> engine_step e e'}" using f(2) by simp
    then show False using engine_step_wf by (meson wf_iff_no_infinite_down_chain)
  qed
  then show ?thesis using engine_progress[OF ok] by blast
qed

theorem engine_loop_ends_witness: "\<exists>e'. engine_step (engine_start solo_run) e'"
  using engine_loop_ends[OF engine_reachable.start solo_startable(1)] by (simp add: engine_start_def)

text \<open>
  C19. At every point of an execution of a newly created run, the integration head is the commit of
  the last integrated step in the topological order of the plan, or the head the run started from.
\<close>
theorem integration_head_exact:
  assumes "wf_workflow_plan (input_plan input)" and "input_head input \<noteq> []"
    and "create_workflow_run_state input time = Inr s" and "engine_reachable s e"
  shows "run_head (eng_run e) = last (input_head input # integrated_commits (eng_run e))"
  using engine_reachable_head[OF assms(4) created_run_startable[OF assms(1-3)]] by (simp add: head_ok_def)

theorem integration_head_exact_witness:
  "\<exists>e. engine_reachable solo_run e \<and> run_head (eng_run e) = ''c1'' \<and> integrated_commits (eng_run e) \<noteq> []"
proof -
  obtain s where s: "engine_reachable solo_run (solo_engine s Race [] [])" "run_head s = ''c1''"
    using solo_execution by blast
  have "run_head s = last (''c0'' # integrated_commits s)"
    using integration_head_exact[OF solo_plan_wf _ solo_created s(1)] by (simp add: solo_input_def sample_input_def solo_engine_def)
  then show ?thesis using s by (intro exI[of _ "solo_engine s Race [] []"]) (auto simp: solo_engine_def)
qed

text \<open>
  C20. An execution never changes the identity, the base, the capability profiles, the authority or
  the worker count of a run; its plan only grows at the end, and a run that is no longer
  running never runs again.
\<close>
theorem execution_keeps_frozen_part:
  assumes "engine_reachable s e" and "startable_run s"
  shows "frozen_part (eng_run e) = frozen_part s \<and> prefix (plan_steps (run_plan s)) (plan_steps (run_plan (eng_run e))) \<and>
    (run_state s \<noteq> RunRunning \<longrightarrow> run_state (eng_run e) \<noteq> RunRunning)"
  using engine_reachable_frozen[OF assms] by (simp add: keeps_frozen_def)

theorem execution_keeps_frozen_part_witness: "frozen_part (eng_run (engine_start solo_run)) = frozen_part solo_run"
  using execution_keeps_frozen_part[OF engine_reachable.start solo_startable(1)] by blast

text \<open>
  C21. Recovering an interrupted run always succeeds, whatever was decided about its attempts: it
  settles exactly the attempts that were in flight, keeps the plan, the head and the invariant of the
  run and leaves a run the engine can start on; a running run with a failed step becomes failed, and every
  other run keeps its lifecycle state.
\<close>
theorem recovery_settles_run:
  assumes "run_ok s" and "1 \<le> run_max_workers s"
  shows "\<exists>t rs. recover_transaction decisions clock s = Inr (t, rs) \<and> startable_run t \<and>
    map recovered_id rs = map attempt_id (active_attempts s) \<and> run_plan t = run_plan s \<and> run_head t = run_head s \<and>
    run_state t = (if run_state s = RunRunning \<and> Failed \<in> record_state ` set (obj_values (run_steps t))
       then RunFailed else run_state s)"
proof -
  obtain t rs where t: "recover_transaction decisions clock s = Inr (t, rs)" "run_ok t" "active_attempts t = []"
    "run_plan t = run_plan s" "run_head t = run_head s" "run_max_workers t = run_max_workers s"
    "run_state t = recovered_state s t" "map recovered_id rs = map attempt_id (active_attempts s)"
    using recover_transaction_ok[OF assms(1), of decisions clock] by blast
  then show ?thesis using assms(2) by (intro exI[of _ t] exI[of _ rs]) (simp add: startable_run_def recovered_state_def)
qed

theorem recovery_settles_run_witness:
  "\<exists>s t rs. active_attempts s = [solo_attempt] \<and> recover_transaction [] (\<lambda>n. ''t'') s = Inr (t, rs) \<and>
     startable_run t \<and> map recovered_id rs = [''core-1'']"
proof -
  obtain s where s: "run_ok s" "1 \<le> run_max_workers s" "active_attempts s = [solo_attempt]"
    using interrupted_run by fastforce
  show ?thesis using recovery_settles_run[OF s(1,2), of "[]" "\<lambda>n. ''t''"] s(3)
    by (auto simp: solo_attempt_def)
qed

text \<open>
  C22. An interrupted attempt is adopted only on a commit that its record names or that git
  verified on its branch, and only when every output its step declares is among the artifacts the
  store lists; a step that publishes its checks is adopted on recorded or passing checks.
\<close>
theorem adoption_is_durable:
  assumes "inspect_interrupted_attempt env s a durable = Inr d" and "decision_commit d = Some c"
    and "obj_get (run_steps s) (attempt_step a) = Some r"
  shows "truthy (attempt_branch a) \<and>
    (attempt_commit a = Some c \<or> env_branch_head env (run_root s) (the (attempt_branch a)) = Inr c \<and>
       env_verify_commit env (run_root s) (the (attempt_branch a)) c (attempt_base a) = Inr ()) \<and>
    (\<forall>out\<in>set (step_outputs (record_definition r)).
       \<exists>i\<in>set durable. artifact_id_for (declared_identity (record_definition r) a out) = Inr i) \<and>
    (EVIDENCE_OUTPUT \<in> set (step_outputs (record_definition r)) \<longrightarrow>
       (\<exists>e. decision_evidence d = Some e \<and> (attempt_evidence a = Some e \<or> evidence_passed e)))"
  using inspect_interrupted_adopts[OF assms] interrupted_commit_cases[of env s a c] by blast

theorem adoption_is_durable_witness:
  "\<exists>i\<in>set [''core.diff.1'']. artifact_id_for (declared_identity sample_change solo_attempt ''diff'') = Inr i"
  using adoption_is_durable[OF sample_adoption, of "''c1''" "new_record Ready sample_change"] solo_record
  by (simp add: solo_attempt_def new_record_def sample_change_def step_outputs_def)

subsection \<open>Runs of task plans\<close>

text \<open>
  C23. However a created run is revised, restored, approved and recovered after restarts, its tasks are
  those of its plan with settled states, its revisions are numbered and only ever extended, its plan is
  within its authority (the authored envelope, or the one derived again from each revision of the plan),
  its security policy never changes, and after its approval its plan does not change.
\<close>
theorem task_run_plan_durable:
  assumes "create_orchestration_run sha input = Inr first" and "planned_from sha first mid" and "planned_from sha mid run"
  shows "task_run_ok run \<and> fixed_part run = fixed_part first \<and> prefix (orch_revisions mid) (orch_revisions run) \<and>
    (orch_authority run = None \<longleftrightarrow> orch_authority first = None) \<and>
    (orch_approved_revision mid \<noteq> None \<longrightarrow>
       orch_plan run = orch_plan mid \<and> orch_approved_revision run = orch_approved_revision mid)"
proof -
  have "task_run_ok first" using create_orchestration_run_ok[OF assms(1)] by blast
  then have m: "extends_run first mid" by (rule planned_from_extends[OF assms(2)])
  then have "extends_run mid run" using planned_from_extends[OF assms(3)] by (simp add: extends_run_def)
  with m show ?thesis by (simp add: extends_run_def)
qed

theorem task_run_plan_durable_witness:
  "\<exists>first run. create_orchestration_run (\<lambda>v. []) sample_create = Inr first \<and> planned_from (\<lambda>v. []) first run \<and>
     task_run_ok run \<and> orch_state run = RunningPhase"
proof -
  obtain first where f: "create_orchestration_run (\<lambda>v. []) sample_create = Inr first" using sample_created_run by blast
  obtain run where r: "approve_run first ''t1'' (Some 1) = Inr run" "planned_from (\<lambda>v. []) first run"
    using sample_approved_run[OF f] by blast
  from task_run_plan_durable[OF f planned_from.start r(2)] f r show ?thesis
    using approve_run_extends[OF _ r(1)] create_orchestration_run_ok[OF f] by blast
qed

text \<open>
  C24. The tasks of a run that may be launched are distinct, have not started, have no active attempt, and
  wait for nothing: the commit of every dependency is integrated; and together with the active attempts
  they do not exceed the workers of the run.
\<close>
theorem launchable_tasks_safe:
  assumes "task_graph_ok run" and "launchable_task_ids run = Inr ids" and "tid \<in> set ids"
  shows "distinct ids \<and> int (length ids + length (active_task_attempts run)) \<le> orch_workers run \<and>
    (\<exists>t. obj_get (orch_tasks run) tid = Some t \<and> tid \<notin> set (active_task_ids run) \<and>
       run_task_state t \<in> {TaskPlanned, TaskReady, TaskBlocked} \<and>
       (\<forall>d\<in>set (task_dependencies (run_task_definition t)). task_dependency_integrated (orch_tasks run) d))"
proof -
  have "ids \<noteq> []" using assms(3) by auto
  from launchable_task_ids_slots[OF assms(1,2) this] launchable_task_ids_ok[OF assms] show ?thesis by blast
qed

text \<open>
  C25. A running run of a task plan never waits for nothing: while no attempt is active, nothing failed and
  what succeeded is integrated, some task may be launched until all have succeeded.
\<close>
theorem task_run_never_stuck:
  assumes "task_graph_ok run" and "orch_state run = RunningPhase" and "1 \<le> orch_workers run" and "quiet_tasks run"
    and "obj_get (orch_tasks run) tid = Some t" and "run_task_state t \<noteq> TaskSucceeded"
  shows "\<exists>ids. launchable_task_ids run = Inr ids \<and> ids \<noteq> []"
  by (rule launchable_task_ids_live[OF assms])

theorem task_run_never_stuck_witness: "\<exists>run ids. launchable_task_ids run = Inr ids \<and> ids \<noteq> []"
proof -
  obtain run t where "task_graph_ok run" "orch_state run = RunningPhase" "1 \<le> orch_workers run" "quiet_tasks run"
    "obj_get (orch_tasks run) ''core'' = Some t" "run_task_state t \<noteq> TaskSucceeded" using sample_quiet_run by blast
  from task_run_never_stuck[OF this] show ?thesis by blast
qed

theorem launchable_tasks_safe_witness:
  "\<exists>run ids. launchable_task_ids run = Inr ids \<and> ids \<noteq> [] \<and> distinct ids"
proof -
  obtain run t where r: "task_graph_ok run" "orch_state run = RunningPhase" "1 \<le> orch_workers run" "quiet_tasks run"
    "obj_get (orch_tasks run) ''core'' = Some t" "run_task_state t \<noteq> TaskSucceeded" using sample_quiet_run by blast
  obtain ids where ids: "launchable_task_ids run = Inr ids" "ids \<noteq> []" using launchable_task_ids_live[OF r] by blast
  from launchable_tasks_safe[OF r(1) ids(1) hd_in_set[OF ids(2)]] ids show ?thesis by blast
qed

subsection \<open>Validation, reviews and merge-ready evidence\<close>

text \<open>
  C26. A command counts as passed only when its process closed once, with code zero, and was neither
  timed out, aborted nor refused; and what is kept of its output is the tail of all it wrote,
  whatever the chunks it wrote it in.
\<close>
theorem passed_command_exact:
  assumes "watched n es w" and "watch_settled w" and "ran_passed (watch_result utf8 n p w removal)"
  shows "closed_events es = [Some 0] \<and> TimeoutFired \<notin> set es \<and> AbortFired \<notin> set es \<and> \<not> spawn_failed es \<and>
    ran_stdout (watch_result utf8 n p w removal) = utf8 (tail_bytes n (concat (output_chunks es)))"
  using watched_passed[OF assms] .

theorem passed_command_exact_witness:
  "ran_stdout (watch_result id 4 None sample_watch None) = ''ello''"
  using passed_command_exact[OF sample_watched, of id None None]
  by (simp add: sample_watch_def ran_passed_def watch_result_def watch_event_def watch_finish_def process_started_def
      output_chunks_def map_filter_simps tail_bytes_def)

text \<open>
  C27. A validated task changed only paths it may change and none that is withheld, ran every
  validation command it was given with success, and left the worktree as it was inspected.
\<close>
theorem validated_task_scope:
  assumes "validate_task env inspect check_diff input = Validated (snap, e)"
  shows "(\<forall>f\<in>set (snapshot_changed snap). \<forall>p\<in>set (file_paths f). path_is_allowed p (task_input_paths input) \<and>
      (\<forall>ps. task_input_withheld input = Some ps \<longrightarrow> \<not> path_is_allowed p ps)) \<and>
    tl (map check_command (evidence_checks e)) = task_input_commands input \<and>
    list_all check_passed (evidence_checks e) \<and> evidence_passed e \<and>
    (\<exists>again. inspect 0 = Inr snap \<and> inspect 1 = Inr again \<and> snapshots_match snap again)"
  using validate_task_sound[OF assms] check_task_scope_ok(1) by blast

theorem validated_task_scope_witness:
  "path_is_allowed ''src/a.ts'' (task_input_paths sample_task_input)"
proof -
  obtain e where "validate_task sample_validation (\<lambda>n. Inr sample_snapshot) (Inr ()) sample_task_input = Validated (sample_snapshot, e)"
    using sample_task_validated by blast
  from validated_task_scope[OF this] show ?thesis by (simp add: sample_snapshot_def file_paths_def)
qed

text \<open>
  C28. A report a reviewer's answer is read as is well formed: it is about the category and the
  commit that were asked for, has at most fifty findings, no two the same, each with its texts and
  with paths inside the repository; and the ids its findings are given are distinct.
\<close>
theorem review_report_accepted:
  assumes "parse_review_report parse nt le out category base = Inr r"
  shows "wf_report r \<and> distinct (map finding_id (materialize_review_findings r category n)) \<and>
    (\<exists>answer payload v. out = Some answer \<and> extract_payload answer = Inr payload \<and> parse payload = Inr v \<and>
       get_prop (fields_of v) ''category'' = JString (category_text category) \<and>
       get_prop (fields_of v) ''baseCommit'' = JString base)"
proof -
  obtain answer payload v where r: "wf_report r" "out = Some answer" "extract_payload answer = Inr payload"
    "parse payload = Inr v" "read_report nt le category base v = Inr r" using parse_review_report_sound[OF assms] by blast
  with read_report_sound[OF r(5)] show ?thesis by (simp add: materialize_distinct_ids)
qed

theorem review_report_accepted_witness: "wf_report sample_report"
  using review_report_accepted[OF sample_review, of 1] by blast

text \<open>
  C29. Prioritizing keeps every finding once and only sets its status; findings that need repair
  come first, most severe first, ties by the order of the identifiers, whatever total order
  the comparison by locale is, and there are at most a hundred of them.
\<close>
theorem findings_prioritized:
  assumes "\<And>x y. locale_le x y \<or> locale_le y x" and "\<And>x y z. locale_le x y \<Longrightarrow> locale_le y z \<Longrightarrow> locale_le x z"
    and "prioritize_findings locale_le fs = Inr ps"
  shows "mset ps = image_mset classified_finding (mset fs) \<and> sorted_wrt (priority_le locale_le) ps \<and>
    ps = filter requires_automatic_repair ps @ filter (\<lambda>f. \<not> requires_automatic_repair f) ps \<and>
    length (filter requires_automatic_repair ps) \<le> 100"
  using text_comparison.prioritize_sound[OF text_comparison.intro[OF comparison.intro[of locale_le]] assms(3)] assms(1,2) by blast

theorem findings_prioritized_witness:
  "\<exists>ps. prioritize_findings code_unit_le sample_findings = Inr ps \<and> sorted_wrt (priority_le code_unit_le) ps"
proof -
  obtain ps where "prioritize_findings code_unit_le sample_findings = Inr ps"
    using sample_priorities by (cases "prioritize_findings code_unit_le sample_findings") auto
  with findings_prioritized[OF code_units.total _ this] code_units.trans show ?thesis by blast
qed

text \<open>
  C30. A run the engine completed undisturbed is ready to be finalized: its state is accepted, and
  the commits listed as evidence are integrated commits of the run in their order.
\<close>
theorem completed_run_finalizable:
  assumes "engine_reachable s e" and "startable_run s" and "engine_step e e'" and "eng_pc e' = Done"
    and "run_state (eng_run e) = RunRunning" and "\<not> eng_aborted e"
  shows "assert_finalizable_state (eng_run e') = Inr () \<and>
    (\<exists>cs. integrated_commit_evidence (eng_run e') = Inr cs \<and>
       subseq (map commit_integrated cs) (integrated_commits (eng_run e')))"
proof -
  have ok: "engine_ok e" by (rule engine_reachable_ok[OF assms(1,2)])
  from engine_step_to_done[OF assms(3) ok assms(4)] obtain u v where pc: "eng_pc e = Race" "eng_racing e = []"
    and run: "eng_run e' = settle_run (eng_run e) False u v" using assms(6) by auto
  have rok: "run_ok (eng_run e)" using ok by (simp add: engine_ok_def)
  note complete = settle_done_run[OF rok assms(5) settling_complete[OF ok pc assms(5,6)]]
  have tok: "run_ok (eng_run e')" using engine_step_ok[OF assms(3) ok] by (simp add: engine_ok_def)
  have "assert_finalizable_state (eng_run e') = Inr ()"
    using complete by (intro completed_finalizable[OF tok]) (simp_all add: run settle_run_fields)
  then show ?thesis using integrated_commit_evidence_total[OF tok] integrated_commit_evidence_subseq by blast
qed

theorem completed_run_finalizable_witness:
  "\<exists>s. assert_finalizable_state (settle_run s False ''t4'' ''t4'') = Inr () \<and> run_head s = ''c1''"
proof -
  obtain s where s: "engine_reachable solo_run (solo_engine s Race [] [])" "run_state s = RunRunning" "run_head s = ''c1''"
    using solo_execution by blast
  have "engine_step (solo_engine s Race [] [])
      ((solo_engine s Race [] [])\<lparr>eng_run := settle_run s False ''t4'' ''t4'', eng_pc := Done\<rparr>)"
    using engine_step.settled_run[of "solo_engine s Race [] []" "''t4''" "''t4''"] by (simp add: solo_engine_def)
  from completed_run_finalizable[OF s(1) solo_startable(1) this] s(2,3) show ?thesis
    by (intro exI[of _ s]) (simp add: solo_engine_def)
qed

text \<open>
  C31. Merge-ready evidence is issued only for a completed run all of whose steps are done, at its
  head, with the final suite run in full and passed on a clean worktree, with every review available
  and its category covered at that head, and with no open finding that needs repair.
\<close>
theorem merge_ready_sound:
  assumes "finalize_workflow_run env s attempt aborted ready = Inr f" and "final_merge_ready f = Some m"
    and "\<And>path. env_validate env path (run_head s) (plan_final (run_plan s)) =
      validate_final venv verify (plan_final (run_plan s))"
  shows "run_state s = RunCompleted \<and> (\<forall>sid\<in>set (topological_step_ids (run_plan s)). step_done s sid) \<and>
    ready_head m = run_head s \<and> map check_command (ready_checks m) = plan_final (run_plan s) \<and>
    list_all check_passed (ready_checks m) \<and> verify 0 = Inr () \<and>
    (\<forall>(sid, outs)\<in>set (review_steps s). outs \<noteq> [] \<and> (\<forall>out\<in>set outs. \<exists>p. read_review env s (sid, out) = Some p \<and>
       covered env s (ready_risks m) (payload_category p))) \<and>
    (review_steps s \<noteq> [] \<longrightarrow> (\<forall>r\<in>set (ready_risks m). \<not> requires_automatic_repair r))"
proof -
  note fin = finalize_merge_ready[OF assms(1,2)]
  obtain oc where oc: "review_outcomes env s = Inr oc" "outcome_gap oc = None" "ready_risks m = outcome_risks oc"
    using fin(2) by blast
  obtain path e where e: "run_final_suite env s path = Inr e" "final_passed e" "ready_checks m = final_checks e"
    using fin(3) by blast
  note suite = run_final_suite_passed[OF e(1,2) assms(3)]
  note review = review_outcomes_sound[OF oc(1,2)]
  have "\<forall>r\<in>set (ready_risks m). \<not> requires_automatic_repair r" if "review_steps s \<noteq> []"
    using review(3) oc(3) list.set_sel(1)[OF that] by (metis prod.collapse)
  then show ?thesis using assert_finalizable_done[OF fin(1)] suite e(3) fin(5) review(1,2) oc(3) by auto
qed

theorem merge_ready_sound_witness:
  "\<exists>(s :: run_state) (m :: merge_ready). ready_head m = run_head s \<and> map check_command (ready_checks m) = plan_final solo_plan \<and> step_done s ''core''"
proof -
  obtain s f m where s: "finalize_workflow_run sample_finalization s None None (Inr ()) = Inr f"
    "final_merge_ready f = Some m" "run_plan s = solo_plan" using solo_finalized by blast
  have "env_validate sample_finalization path (run_head s) (plan_final (run_plan s)) =
      validate_final sample_validation (\<lambda>k. Inr ()) (plan_final (run_plan s))" for path
    by (simp add: sample_finalization_def)
  from merge_ready_sound[OF s(1,2) this] show ?thesis by (intro exI[of _ s] exI[of _ m]) (simp add: s(3) solo_order)
qed

subsection \<open>Artifacts\<close>

text \<open>
  An artifact id determines the identity it was built from: parsing it gives the identity
  back, so two different step outputs never share an id.
\<close>
theorem artifact_id_roundtrip:
  assumes "artifact_id_for i = Inr s"
  shows "parse_artifact_id s = Inr i \<and> (\<forall>j. artifact_id_for j = Inr s \<longrightarrow> j = i)"
  using parse_artifact_id_for[OF assms] artifact_id_for_inj[OF _ assms] by blast

theorem artifact_id_roundtrip_witness:
  "parse_artifact_id ''core.diff.2'' =
     Inr \<lparr>identity_step = ''core'', identity_output = ''diff'', identity_attempt = 2\<rparr>"
  using artifact_id_roundtrip[OF sample_artifact_id] by blast

text \<open>
  C32. A stored artifact record is accepted only when its id, media type, size and content
  hash agree with its identity, kind and payload; and the stored form of an accepted record
  is accepted as the same record.
\<close>
theorem artifact_record_roundtrip:
  assumes "validate_artifact_record sha of_text v = Inr r"
  shows "wf_artifact sha of_text r \<and> validate_artifact_record sha of_text (artifact_json r) = Inr r"
  using validate_artifact_record_sound[OF assms] validate_artifact_record_json by blast

theorem artifact_record_roundtrip_witness:
  "wf_artifact sample_sha (\<lambda>text. None) sample_record"
  using artifact_record_roundtrip[OF validate_artifact_record_json[OF sample_record_wf]] by blast

text \<open>
  C33. A stored artifact never changes: after any write it still reads as the same record, or it is an
  attempt of the output just written, exactly the retained number of attempts of that output is left, and
  every one of them is newer.
\<close>
theorem artifacts_immutable:
  assumes "valid_store env st" and "now \<noteq> []" and "write_artifact env now st w = (st', res)"
    and "read_record_file env st run n = Inr r"
  shows "read_record_file env st' run n = Inr r \<or>
    obj_get (st' run) n = None \<and> run = write_run w \<and> artifact_step r = write_step w \<and> artifact_output r = write_output w \<and>
      (\<exists>k. env_retained env = Some k \<and> card (output_files env st' run (artifact_step r) (artifact_output r)) = k \<and>
        (\<forall>m q. read_record_file env st' run m = Inr q \<longrightarrow> artifact_step q = artifact_step r \<longrightarrow>
           artifact_output q = artifact_output r \<longrightarrow> artifact_attempt r < artifact_attempt q))"
  using write_artifact_immutable[OF assms] write_artifact_deletes[OF assms] write_artifact_retains[OF assms] by blast

theorem artifacts_immutable_witness:
  "\<exists>st'. fst (write_artifact sample_env ''t2'' sample_files (sample_write 3 ''later'')) = st' \<and>
    (read_record_file sample_env st' ''run-1'' ''core.diff.2.json'' = Inr sample_record \<or>
     card (output_files sample_env st' ''run-1'' (artifact_step sample_record) (artifact_output sample_record)) = 1)"
proof -
  obtain st' res where w: "write_artifact sample_env ''t2'' sample_files (sample_write 3 ''later'') = (st', res)"
    by fastforce
  have "env_retained sample_env = Some 1" by (simp add: sample_env_def)
  then show ?thesis using artifacts_immutable[OF sample_files_valid _ w sample_files_read] w by auto
qed

text \<open>
  C34. A write keeps every run within the number and the total size of artifacts the store allows.
\<close>
theorem artifact_limits_kept:
  assumes "valid_store env st" and "now \<noteq> []" and "write_artifact env now st w = (st', res)"
    and "within_limits env st"
  shows "within_limits env st'"
  using write_artifact_limits[OF assms] .

theorem artifact_limits_kept_witness:
  "within_limits sample_env (fst (write_artifact sample_env ''t2'' sample_files (sample_write 3 ''later'')))"
  by (rule artifact_limits_kept[OF sample_files_valid _ prod.collapse[symmetric] sample_files_within]) simp

text \<open>
  C35. When the artifacts of a step were routed into the store, the store finds a newest artifact
  for every output the step declares, so a dependent step can resolve it.
\<close>
theorem routed_outputs_stored:
  assumes "valid_store env (snd st)"
    and "route_step_artifacts (put_artifact env) st run d attempt drafts = (st', Inr rs)"
    and "out \<in> set (step_outputs d)"
  shows "\<exists>r. latest_artifact env (snd st') run (step_id d) out = Inr (Some r)"
  using stored_artifacts.routed_outputs_found[OF assms] latest_stored_Some by blast

theorem routed_outputs_stored_witness:
  "\<exists>r. latest_artifact sample_env sample_files ''run-1'' ''core'' ''diff'' = Inr (Some r)"
  using routed_outputs_stored[OF _ sample_routed, of "''diff''"] empty_store_valid[OF sample_env_ok]
  by (simp add: sample_change_def step_outputs_def)

text \<open>
  C36. A value the workflow state store accepts is an intact run: its plan is well formed and its steps are
  those of the plan, every attempt is listed by its step and no other, no step has two attempts in
  flight or two of one number, the worker slots suffice, the integrated commits are a prefix of the
  mutating steps in plan order and lead to the integration head, and its timeline is within its bound, of
  well-formed events whose numbers rise strictly up to the number of events assigned, without a gap as long
  as none was dropped.
\<close>
theorem stored_run_intact:
  assumes "validate_stored_workflow_run sha nt v = Inr u"
  shows "\<exists>p. validate_workflow_plan (get_prop (fields_of (run_of_stored v)) ''plan'') = Inr p \<and>
    intact_run nt p (fields_of (run_of_stored v)) \<and>
    run_id_pattern (string_of (get_prop (fields_of (run_of_stored v)) ''id'')) \<and>
    timeline_intact nt (fields_of (run_of_stored v))"
  by (rule validate_stored_workflow_run_sound[OF assms]) (use validate_stored_events_intact in blast)

theorem stored_run_intact_witness:
  "\<exists>p. intact_run (store_number sample_store) p (fields_of (run_json solo_later))"
proof -
  have "validate_stored_workflow_run (store_sha sample_store) (store_number sample_store)
      (stored_envelope 0 (run_json solo_later)) = Inr ()"
    using solo_storable by (simp add: storable_def solo_later_def MAX_SAFE_INTEGER_def)
  from stored_run_intact[OF this] show ?thesis by auto
qed

text \<open>
  C37. The store accepts a run the engine reaches whenever what others supply can be stored: the run
  started storable, ids and times are not empty, every workspace is the one its step requires with a branch
  exactly for mutable ones, only a mutable step commits and evidence comes with a commit. Everything else the
  store checks is kept by the engine: records, numbers and states of attempts, finishing times, the prefix of
  integrated commits up to the head, integration errors only on failed steps, and the timeline.
\<close>
theorem engine_run_stored:
  assumes "engine_reachable s e" and "startable_run s" and "run_state s \<noteq> RunCompleted"
    and "head_ok (run_base_commit s) s" and "identity_storable s" and "authority_storable sha s"
    and "results_recorded s" and "inputs_storable (eng_run e)" and "0 \<le> revision" and "revision \<le> MAX_SAFE_INTEGER"
  shows "validate_stored_workflow_run sha nt (stored_envelope revision (run_json (eng_run e))) = Inr ()"
  using assms by (rule engine_run_accepted)

theorem engine_run_stored_witness:
  "\<exists>s. run_attempts s = [solo_attempt] \<and>
     validate_stored_workflow_run sample_digest (\<lambda>q. ''0'') (stored_envelope 3 (run_json s)) = Inr ()"
proof -
  obtain s where s: "engine_reachable solo_run (solo_engine s (Mark solo_attempt []) [] [])" "details_storable s"
    "run_attempts s = [solo_attempt]" using reserved_reachable by blast
  have "validate_stored_workflow_run sample_digest (\<lambda>q. ''0'')
      (stored_envelope 3 (run_json (eng_run (solo_engine s (Mark solo_attempt []) [] [])))) = Inr ()"
    by (rule engine_run_stored[OF s(1) solo_startable(1) solo_running(1) solo_head solo_identity solo_authority solo_results])
      (use details_inputs[OF s(2)] in \<open>simp_all add: solo_engine_def MAX_SAFE_INTEGER_def\<close>)
  then show ?thesis using s(3) by (auto simp: solo_engine_def)
qed

text \<open>
  C38. A transaction of the store keeps every file readable and valid, leaves the files of other runs
  alone, and what it returns is what a later load returns.
\<close>
theorem stored_transaction:
  assumes "files_valid env files" and "transact env files rid mutate = Inr (files', result)"
  shows "files_valid env files' \<and> (\<forall>name. name = json_name rid \<or> obj_get files' name = obj_get files name) \<and>
    (plain_json result \<longrightarrow> load_stored_run env files' rid = Inr result)"
  using transact_keeps_valid[OF assms] transact_other_files[OF assms(2)] transact_load[OF assms(2)] by blast

theorem stored_transaction_witness:
  "\<exists>files files'. transact sample_store files ''run-1'' (\<lambda>v. Inr (run_json solo_later)) = Inr (files', run_json solo_later) \<and>
     load_stored_run sample_store files' ''run-1'' = Inr (run_json solo_later)"
proof -
  obtain files where f: "saved sample_store files 0 solo_run" "files_valid sample_store files"
    using solo_saved by blast
  obtain files' where t: "transact sample_store files ''run-1'' (\<lambda>v. Inr (run_json solo_later)) =
      Inr (files', run_json solo_later)"
    using solo_transaction[OF f(1)] by blast
  have "load_stored_run sample_store files' ''run-1'' = Inr (run_json solo_later)"
    using stored_transaction[OF f(2) t] run_json_plain[of solo_later] by simp
  with t show ?thesis by (intro exI conjI)
qed

text \<open>
  C39. The store in memory takes every change of a run. The files take no change as it is and, of the changes
  that show in the text of the run, exactly those whose new run passes the checks of the store and keeps the
  source and digest of its authority, while there is a revision left. Then both stores hold the same runs
  again and the files are read back as the new run.
\<close>
theorem files_refine_memory:
  assumes "mirrors env files runs" and "memory_transaction runs rid mutate = Inr (runs', t)"
    and "obj_get runs rid = Some s" and "saved env files revision s" and "json_mutate (run_json s) = Inr (run_json t)"
    and "t = s \<or> stringify (store_number env) (run_json t) \<noteq> stringify (store_number env) (run_json s)"
  shows "((\<exists>r. transact env files rid json_mutate = Inr r) \<longleftrightarrow>
      t = s \<or> storable env t \<and> same_authority s t \<and> revision < MAX_SAFE_INTEGER) \<and>
    (\<forall>r. transact env files rid json_mutate = Inr r \<longrightarrow> (\<exists>files'. r = (files', run_json t) \<and> mirrors env files' runs' \<and>
      load_stored_run env files' rid = Inr (run_json t)))"
  using transact_mirrors[of env files runs rid mutate runs' t s revision json_mutate, OF assms]
  unfolding files_accept_def by fastforce

theorem files_refine_memory_witness:
  "\<exists>files files'. mirrors sample_store files [(''run-1'', solo_run)] \<and>
     transact sample_store files ''run-1'' (\<lambda>v. Inr (run_json solo_later)) = Inr (files', run_json solo_later) \<and>
     mirrors sample_store files' [(''run-1'', solo_later)]"
proof -
  obtain files where f: "saved sample_store files 0 solo_run" using solo_saved by blast
  have m: "mirrors sample_store files [(''run-1'', solo_run)]" by (rule solo_mirrors[OF f])
  have t: "memory_transaction [(''run-1'', solo_run)] ''run-1'' (\<lambda>s. Inr solo_later) = Inr ([(''run-1'', solo_later)], solo_later)"
    by (rule solo_memory)
  from files_refine_memory[OF m t _ f, of "\<lambda>v. Inr (run_json solo_later)"] solo_accepted solo_later_text m show ?thesis
    by (fastforce simp: obj_get_def files_accept_def)
qed

subsection \<open>The store of task runs\<close>



end
